(* ===== verification/Prelude.thy ===== *)
theory Prelude
  imports Main "HOL-Library.Word"
begin

text \<open>
  Shared material of the development: the C character classes of \<^verbatim>\<open>ctype.h\<close> in the "C" locale
  (the programs never call \<^verbatim>\<open>setlocale\<close>), first-match searches over the constant tables and
  growing arrays of the sources, and two interfaces the components implement and rely on:
  a keyed store (\<open>keyed_store\<close>) and a source of bytes (\<open>byte_source\<close>).

  C strings are \<^typ>\<open>string\<close>: the bytes before the terminating NUL. A \<^verbatim>\<open>char *\<close> that may be
  \<^verbatim>\<open>NULL\<close> is an option. Memory is modelled where its bounds, its exhaustion or its release matter
  (\<open>Blocks\<close>, \<open>Json_Memory\<close>, \<open>Json_Io\<close>, \<open>Toml_Heap\<close>, \<open>Toml_Memory\<close>, \<open>Dbus_Heap\<close>, \<open>Cube\<close>); elsewhere \<^verbatim>\<open>malloc\<close>, \<^verbatim>\<open>realloc\<close>, \<^verbatim>\<open>strdup\<close> succeed, and the branches for their failure are left out.
\<close>

named_theorems char_class \<open>definitions of the character classes\<close>

abbreviation squote :: "string \<Rightarrow> string" where
  "squote s \<equiv> [CHR 0x27] @ s @ [CHR 0x27]"

text \<open>The C string at the start of a byte array, and the strings that survive a C interface.\<close>

definition cstr :: "string \<Rightarrow> string" where
  "cstr s = takeWhile (\<lambda>c. c \<noteq> CHR 0x00) s"

definition cstring :: "string \<Rightarrow> bool" where
  "cstring s \<longleftrightarrow> CHR 0x00 \<notin> set s"

lemma cstr_id [simp]: "cstring s \<Longrightarrow> cstr s = s"
  by (simp add: cstring_def cstr_def) (metis takeWhile_eq_all_conv)

section \<open>Character classes\<close>

abbreviation ordc :: "char \<Rightarrow> nat" where
  "ordc c \<equiv> of_char c"

definition isdigit :: "char \<Rightarrow> bool" where [char_class]:
  "isdigit c \<longleftrightarrow> 48 \<le> ordc c \<and> ordc c \<le> 57"

definition isalpha :: "char \<Rightarrow> bool" where [char_class]:
  "isalpha c \<longleftrightarrow> (65 \<le> ordc c \<and> ordc c \<le> 90) \<or> (97 \<le> ordc c \<and> ordc c \<le> 122)"

definition isalnum :: "char \<Rightarrow> bool" where [char_class]:
  "isalnum c \<longleftrightarrow> isalpha c \<or> isdigit c"

definition isxdigit :: "char \<Rightarrow> bool" where [char_class]:
  "isxdigit c \<longleftrightarrow> isdigit c \<or> (65 \<le> ordc c \<and> ordc c \<le> 70) \<or> (97 \<le> ordc c \<and> ordc c \<le> 102)"

definition isspace :: "char \<Rightarrow> bool" where [char_class]:
  "isspace c \<longleftrightarrow> ordc c = 32 \<or> (9 \<le> ordc c \<and> ordc c \<le> 13)"

definition tolower :: "char \<Rightarrow> char" where [char_class]:
  "tolower c = (if 65 \<le> ordc c \<and> ordc c \<le> 90 then char_of (ordc c + 32) else c)"

definition digit_val :: "char \<Rightarrow> int" where
  "digit_val c = int (ordc c) - 48"

definition xdigit_val :: "char \<Rightarrow> int" where
  "xdigit_val c =
     (if isdigit c then int (ordc c) - 48
      else if 97 \<le> ordc c then int (ordc c) - 87
      else int (ordc c) - 55)"

lemma ordc_less_256 [simp]: "ordc c < 256"
  using of_char_mod_256 [of c, where 'a = nat] by (metis mod_less_divisor zero_less_numeral)

lemma control_cases:
  assumes "ordc c \<in> {8, 9, 10, 12, 13}"
  shows "c \<in> {CHR 0x08, CHR 0x09, CHR 0x0A, CHR 0x0C, CHR 0x0D}"
proof -
  have "ordc c \<in> ordc ` {CHR 0x08, CHR 0x09, CHR 0x0A, CHR 0x0C, CHR 0x0D}"
    using assms by simp
  then obtain e where "e \<in> {CHR 0x08, CHR 0x09, CHR 0x0A, CHR 0x0C, CHR 0x0D}" "ordc c = ordc e"
    by blast
  then show ?thesis by (simp only: of_char_eq_iff)
qed

section \<open>Prefix tests on C strings\<close>

text \<open>\<open>strncmp(s, lit, strlen(lit)) == 0\<close>.\<close>

fun starts_with :: "string \<Rightarrow> string \<Rightarrow> bool" where
  "starts_with [] s = True"
| "starts_with (p # ps) [] = False"
| "starts_with (p # ps) (c # s) = (p = c \<and> starts_with ps s)"

lemma starts_with_append [simp]: "starts_with p (p @ s)"
  by (induction p) auto

lemma starts_with_iff: "starts_with p s \<longleftrightarrow> (\<exists>t. s = p @ t)"
  by (induction p s rule: starts_with.induct) auto

section \<open>Maximal runs\<close>

text \<open>Scanning loops of the form \<open>while (p < end && P(*p)) p++\<close>.\<close>

lemma takeWhile_stop: "\<lbrakk>\<forall>x \<in> set xs. P x; \<not> P y\<rbrakk> \<Longrightarrow> takeWhile P (xs @ y # ys) = xs"
  by (simp add: takeWhile_tail)

lemma dropWhile_stop: "\<lbrakk>\<forall>x \<in> set xs. P x; \<not> P y\<rbrakk> \<Longrightarrow> dropWhile P (xs @ y # ys) = y # ys"
  by simp

lemma takeWhile_run:
  "\<lbrakk>\<forall>x \<in> set xs. P x; ys = [] \<or> \<not> P (hd ys)\<rbrakk> \<Longrightarrow> takeWhile P (xs @ ys) = xs"
  by (cases ys) (auto simp: takeWhile_tail)

lemma dropWhile_run:
  "\<lbrakk>\<forall>x \<in> set xs. P x; ys = [] \<or> \<not> P (hd ys)\<rbrakk> \<Longrightarrow> dropWhile P (xs @ ys) = ys"
  by (cases ys) auto

lemma length_dropWhile_le' [simp]: "length (dropWhile P xs) \<le> length xs"
  by (rule length_dropWhile_le)

lemma fold_max_le: "fold max xs (m::nat) \<le> n \<longleftrightarrow> m \<le> n \<and> (\<forall>x \<in> set xs. x \<le> n)"
  by (induction xs arbitrary: m) auto

section \<open>First-match tables\<close>

text \<open>
  The loops \<open>for (i = 0; i < n; i++) if (tab[i].key == k) return tab[i].val\<close> are
  \<^const>\<open>map_of\<close> on association lists; a reverse search is \<^const>\<open>map_of\<close> on the swapped table.
\<close>

definition swap_table :: "('a \<times> 'b) list \<Rightarrow> ('b \<times> 'a) list" where
  "swap_table t = map prod.swap t"

lemma map_of_swap_table:
  assumes "distinct (map fst t)" and "map_of t k = Some v" and "distinct (map snd t)"
  shows "map_of (swap_table t) v = Some k"
proof -
  from assms(2) have "(k, v) \<in> set t" by (rule map_of_SomeD)
  then have "(v, k) \<in> set (swap_table t)"
    by (force simp: swap_table_def)
  moreover have "distinct (map fst (swap_table t))"
    using assms(3) by (simp add: swap_table_def comp_def)
  ultimately show ?thesis by simp
qed

section \<open>A keyed store\<close>

text \<open>
  Growing arrays of keyed entries: an update replaces the first entry with the key, or
  appends a new one.
\<close>

fun put_assoc :: "'k \<Rightarrow> 'v \<Rightarrow> ('k \<times> 'v) list \<Rightarrow> ('k \<times> 'v) list" where
  "put_assoc k v [] = [(k, v)]"
| "put_assoc k v ((k', v') # xs) =
     (if k' = k then (k', v) # xs else (k', v') # put_assoc k v xs)"

lemma map_of_put_assoc [simp]: "map_of (put_assoc k v xs) = (map_of xs)(k \<mapsto> v)"
  by (induction xs) auto

lemma keys_put_assoc:
  "map fst (put_assoc k v xs) = (if k \<in> fst ` set xs then map fst xs else map fst xs @ [k])"
  by (induction xs) force+

lemma distinct_put_assoc [intro]:
  "distinct (map fst xs) \<Longrightarrow> distinct (map fst (put_assoc k v xs))"
  by (auto simp: keys_put_assoc)

lemma set_put_assoc_subset: "set (put_assoc k v xs) \<subseteq> insert (k, v) (set xs)"
  by (induction xs) (auto split: if_splits)

text \<open>
  The contract of a keyed store: what a lookup returns after an update with a valid entry, and
  that such updates keep the store's invariant. The lemmas are about clients that store a list
  of entries one after the other.
\<close>

locale keyed_store =
  fixes get :: "'s \<Rightarrow> 'k \<Rightarrow> 'v option"
    and put :: "'s \<Rightarrow> 'k \<Rightarrow> 'v \<Rightarrow> 's"
    and inv :: "'s \<Rightarrow> bool"
    and valid :: "'k \<Rightarrow> 'v \<Rightarrow> bool"
  assumes get_put: "inv s \<Longrightarrow> valid k v \<Longrightarrow> get (put s k v) k' = (if k' = k then Some v else get s k')"
    and inv_put: "inv s \<Longrightarrow> valid k v \<Longrightarrow> inv (put s k v)"
begin

lemma inv_fold:
  "inv s \<Longrightarrow> list_all (\<lambda>(k, v). valid k v) kvs \<Longrightarrow> inv (foldl (\<lambda>s (k, v). put s k v) s kvs)"
proof (induction kvs arbitrary: s)
  case Nil
  then show ?case by simp
next
  case (Cons kv kvs)
  then show ?case by (cases kv) (auto intro: inv_put)
qed

lemma get_fold:
  "inv s \<Longrightarrow> list_all (\<lambda>(k, v). valid k v) kvs \<Longrightarrow>
   get (foldl (\<lambda>s (k, v). put s k v) s kvs) k =
     (case map_of (rev kvs) k of Some v \<Rightarrow> Some v | None \<Rightarrow> get s k)"
proof (induction kvs rule: rev_induct)
  case Nil
  then show ?case by simp
next
  case (snoc kv kvs)
  then show ?case
    by (cases kv) (auto simp: get_put inv_fold split: option.splits)
qed

text \<open>Entries with distinct keys: the loop is a right-biased union.\<close>

lemma get_fold_distinct:
  assumes "inv s" and "list_all (\<lambda>(k, v). valid k v) kvs" and "distinct (map fst kvs)"
  shows "get (foldl (\<lambda>s (k, v). put s k v) s kvs) k =
     (case map_of kvs k of Some v \<Rightarrow> Some v | None \<Rightarrow> get s k)"
proof -
  have "map_of (rev kvs) = map_of kvs"
    using assms(3) by (intro map_of_eqI) (auto simp: rev_map [symmetric] map_of_eq_None_iff)
  with assms(1,2) show ?thesis by (simp add: get_fold)
qed

end

section \<open>Byte streams\<close>

text \<open>
  A reader that delivers exactly the bytes asked for. What the client of a stream relies on is that the
  bytes are those of the stream, in order and without loss, however the transport cuts them into pieces.
\<close>

locale byte_source =
  fixes stream :: "'s \<Rightarrow> string"
    and fetch :: "nat \<Rightarrow> 's \<Rightarrow> (string + string) \<times> 's"
  assumes fetch_ok: "n \<le> length (stream s) \<Longrightarrow>
    \<exists>s'. fetch n s = (Inr (take n (stream s)), s') \<and> stream s' = drop n (stream s)"
begin

lemma fetch_append:
  assumes "stream s = a @ b"
  obtains s' where "fetch (length a) s = (Inr a, s')" and "stream s' = b"
  using fetch_ok [of "length a" s] assms by auto

text \<open>Two parts after each other: a header and what follows it.\<close>

lemma fetch_two:
  assumes "stream s = a @ b @ c"
  obtains s1 s2 where "fetch (length a) s = (Inr a, s1)" and "fetch (length b) s1 = (Inr b, s2)" and "stream s2 = c"
  using fetch_append [OF assms] fetch_append by metis

end

end
