(* ===== verification/CDouble.thy ===== *)
theory CDouble
  imports Prelude
begin

text \<open>
  The C type \<^verbatim>\<open>double\<close>: IEEE 754 binary64 in round-to-nearest-even, the evaluation every
  supported host uses (FLT\_EVAL\_METHOD 0). A value is NaN (one value: no source line looks at a
  payload), an infinity, or a finite number \<open>\<plusminus> m * 2 ^ e\<close> with an integral
  significand \<open>m < 2 ^ 53\<close> and \<open>- 1074 \<le> e \<le> 971\<close>. Every operation computes the exact
  rational result and rounds it once. All definitions are executable on integers.
\<close>

datatype cdouble = DNaN | DInf bool | DFin bool int int

section \<open>Rounding\<close>

function nbits :: "int \<Rightarrow> int" where
  "nbits n = (if n \<le> 0 then 0 else 1 + nbits (n div 2))"
  by pat_completeness auto
termination
  by (relation "measure nat") auto

declare nbits.simps [simp del]

text \<open>\<open>floor (log2 (n / d))\<close> for positive \<open>n\<close> and \<open>d\<close>.\<close>

definition ilog2 :: "int \<Rightarrow> int \<Rightarrow> int" where
  "ilog2 n d = (let k = nbits n - nbits d in
     if (if k \<ge> 0 then n \<ge> d * 2 ^ nat k else n * 2 ^ nat (- k) \<ge> d) then k else k - 1)"

text \<open>The double nearest to \<open>\<plusminus> n / d\<close> (\<open>n \<ge> 0\<close>, \<open>d > 0\<close>), ties to even.\<close>

definition round_ratio :: "bool \<Rightarrow> int \<Rightarrow> int \<Rightarrow> cdouble" where
  "round_ratio s n d =
     (if n = 0 then DFin s 0 (- 1074)
      else let e = max (- 1074) (ilog2 n d - 52);
               n1 = (if e \<ge> 0 then n else n * 2 ^ nat (- e));
               d1 = (if e \<ge> 0 then d * 2 ^ nat e else d);
               q = n1 div d1;
               r = n1 mod d1;
               q1 = (if 2 * r > d1 \<or> (2 * r = d1 \<and> odd q) then q + 1 else q);
               m = (if q1 = 2 ^ 53 then 2 ^ 52 else q1);
               x = (if q1 = 2 ^ 53 then e + 1 else e)
           in if x > 971 then DInf s else DFin s m x)"

definition round_dyadic :: "bool \<Rightarrow> int \<Rightarrow> int \<Rightarrow> cdouble" where
  "round_dyadic s n e =
     (if e \<ge> 0 then round_ratio s (n * 2 ^ nat e) 1 else round_ratio s n (2 ^ nat (- e)))"

section \<open>Classification and comparison\<close>

fun isnan :: "cdouble \<Rightarrow> bool" where
  "isnan DNaN = True"
| "isnan _ = False"

fun isinf :: "cdouble \<Rightarrow> bool" where
  "isinf (DInf s) = True"
| "isinf _ = False"

fun isfin :: "cdouble \<Rightarrow> bool" where
  "isfin (DFin s m e) = True"
| "isfin _ = False"

definition smant :: "bool \<Rightarrow> int \<Rightarrow> int" where
  "smant s m = (if s then - m else m)"

text \<open>The numerators of two finite doubles over their common power of two.\<close>

definition align :: "int \<Rightarrow> int \<Rightarrow> int \<Rightarrow> int" where
  "align m e e' = m * 2 ^ nat (e - min e e')"

text \<open>C's \<open><\<close>: false when an operand is NaN.\<close>

fun dlt :: "cdouble \<Rightarrow> cdouble \<Rightarrow> bool" where
  "dlt DNaN _ = False"
| "dlt _ DNaN = False"
| "dlt (DInf s) (DInf t) = (s \<and> \<not> t)"
| "dlt (DInf s) (DFin t m e) = s"
| "dlt (DFin s m e) (DInf t) = (\<not> t)"
| "dlt (DFin s m e) (DFin t n f) = (align (smant s m) e f < align (smant t n) f e)"

fun deq :: "cdouble \<Rightarrow> cdouble \<Rightarrow> bool" where
  "deq DNaN _ = False"
| "deq _ DNaN = False"
| "deq (DInf s) (DInf t) = (s = t)"
| "deq (DInf s) (DFin t m e) = False"
| "deq (DFin s m e) (DInf t) = False"
| "deq (DFin s m e) (DFin t n f) = (align (smant s m) e f = align (smant t n) f e)"

definition dle :: "cdouble \<Rightarrow> cdouble \<Rightarrow> bool" where
  "dle x y = (dlt x y \<or> deq x y)"

abbreviation dgt :: "cdouble \<Rightarrow> cdouble \<Rightarrow> bool" where
  "dgt x y \<equiv> dlt y x"

abbreviation dge :: "cdouble \<Rightarrow> cdouble \<Rightarrow> bool" where
  "dge x y \<equiv> dle y x"

section \<open>Arithmetic\<close>

fun dneg :: "cdouble \<Rightarrow> cdouble" where
  "dneg DNaN = DNaN"
| "dneg (DInf s) = DInf (\<not> s)"
| "dneg (DFin s m e) = DFin (\<not> s) m e"

fun dabs :: "cdouble \<Rightarrow> cdouble" where
  "dabs DNaN = DNaN"
| "dabs (DInf s) = DInf False"
| "dabs (DFin s m e) = DFin False m e"

text \<open>An exact zero sum is \<open>+0\<close> unless both operands are \<open>-0\<close>.\<close>

fun dadd :: "cdouble \<Rightarrow> cdouble \<Rightarrow> cdouble" where
  "dadd DNaN _ = DNaN"
| "dadd _ DNaN = DNaN"
| "dadd (DInf s) (DInf t) = (if s = t then DInf s else DNaN)"
| "dadd (DInf s) (DFin t m e) = DInf s"
| "dadd (DFin s m e) (DInf t) = DInf t"
| "dadd (DFin s m e) (DFin t n f) =
     (let v = align (smant s m) e f + align (smant t n) f e
      in if v = 0 then DFin (s \<and> t) 0 (- 1074)
         else round_dyadic (v < 0) \<bar>v\<bar> (min e f))"

definition dsub :: "cdouble \<Rightarrow> cdouble \<Rightarrow> cdouble" where
  "dsub x y = dadd x (dneg y)"

fun dmul :: "cdouble \<Rightarrow> cdouble \<Rightarrow> cdouble" where
  "dmul DNaN _ = DNaN"
| "dmul _ DNaN = DNaN"
| "dmul (DInf s) (DInf t) = DInf (s \<noteq> t)"
| "dmul (DInf s) (DFin t m e) = (if m = 0 then DNaN else DInf (s \<noteq> t))"
| "dmul (DFin s m e) (DInf t) = (if m = 0 then DNaN else DInf (s \<noteq> t))"
| "dmul (DFin s m e) (DFin t n f) = round_dyadic (s \<noteq> t) (m * n) (e + f)"

fun ddiv :: "cdouble \<Rightarrow> cdouble \<Rightarrow> cdouble" where
  "ddiv DNaN _ = DNaN"
| "ddiv _ DNaN = DNaN"
| "ddiv (DInf s) (DInf t) = DNaN"
| "ddiv (DInf s) (DFin t m e) = DInf (s \<noteq> t)"
| "ddiv (DFin s m e) (DInf t) = DFin (s \<noteq> t) 0 (- 1074)"
| "ddiv (DFin s m e) (DFin t n f) =
     (if n = 0 then (if m = 0 then DNaN else DInf (s \<noteq> t))
      else let k = e - f
           in if k \<ge> 0 then round_ratio (s \<noteq> t) (m * 2 ^ nat k) n
              else round_ratio (s \<noteq> t) m (n * 2 ^ nat (- k)))"

text \<open>Conversion of an integer, and a decimal literal \<open>n / d\<close> of the source.\<close>

definition of_int_d :: "int \<Rightarrow> cdouble" where
  "of_int_d i = round_ratio (i < 0) \<bar>i\<bar> 1"

definition dlit :: "int \<Rightarrow> int \<Rightarrow> cdouble" where
  "dlit n d = round_ratio (n < 0) \<bar>n\<bar> d"

text \<open>
  The cast \<open>(int)x\<close> truncates towards zero; outside the range of \<^verbatim>\<open>int\<close> (and for NaN and the
  infinities) the behaviour is undefined, which is \<^const>\<open>None\<close>.
\<close>

fun dtrunc :: "cdouble \<Rightarrow> int option" where
  "dtrunc DNaN = None"
| "dtrunc (DInf s) = None"
| "dtrunc (DFin s m e) =
     (let v = (if e \<ge> 0 then m * 2 ^ nat e else m div 2 ^ nat (- e))
      in Some (if s then - v else v))"

definition d2int :: "cdouble \<Rightarrow> int option" where
  "d2int x = (case dtrunc x of
       None \<Rightarrow> None
     | Some i \<Rightarrow> if - (2 ^ 31) \<le> i \<and> i < 2 ^ 31 then Some i else None)"

text \<open>
  Conversion to \<^verbatim>\<open>float\<close> (binary32), the value kept as the double it denotes. A \<^verbatim>\<open>float\<close> operation
  is the \<^verbatim>\<open>double\<close> operation rounded again: with 53 digits against 24 the double rounding is innocuous.
\<close>

fun to_float :: "cdouble \<Rightarrow> cdouble" where
  "to_float DNaN = DNaN"
| "to_float (DInf s) = DInf s"
| "to_float (DFin s m e) =
     (if m = 0 then DFin s 0 (- 1074)
      else let x = max (- 149) (nbits m - 1 + e - 23);
               k = nat (x - e);
               q = m div 2 ^ k;
               r = m mod 2 ^ k;
               q1 = (if 2 * r > 2 ^ k \<or> (2 * r = 2 ^ k \<and> odd q) then q + 1 else q)
           in if x \<le> e then DFin s m e
              else if nbits q1 + x > 128 then DInf s
              else round_dyadic s q1 x)"

text \<open>The conversion to \<^verbatim>\<open>s16\<close>; undefined outside its range.\<close>

definition d2s16 :: "cdouble \<Rightarrow> int option" where
  "d2s16 x = (case dtrunc x of
       None \<Rightarrow> None
     | Some i \<Rightarrow> if - (2 ^ 15) \<le> i \<and> i < 2 ^ 15 then Some i else None)"

abbreviation d0 :: cdouble where
  "d0 \<equiv> DFin False 0 (- 1074)"

section \<open>Canonical doubles\<close>

fun wf_double :: "cdouble \<Rightarrow> bool" where
  "wf_double DNaN = True"
| "wf_double (DInf s) = True"
| "wf_double (DFin s m e) =
     (0 \<le> m \<and> m < 2 ^ 53 \<and> - 1074 \<le> e \<and> e \<le> 971 \<and> (2 ^ 52 \<le> m \<or> e = - 1074))"

section \<open>Basic facts\<close>

lemma round_ratio_0 [simp]: "round_ratio s 0 d = DFin s 0 (- 1074)"
  by (simp add: round_ratio_def)

lemma round_dyadic_0 [simp]: "round_dyadic s 0 e = DFin s 0 (- 1074)"
  by (simp add: round_dyadic_def)

lemma not_isnan_cases: "\<not> isnan x \<longleftrightarrow> isinf x \<or> isfin x"
  by (cases x) auto

lemma dlt_nan [simp]: "\<not> dlt DNaN x" "\<not> dlt x DNaN"
  by (cases x; simp)+

lemma deq_nan [simp]: "\<not> deq DNaN x" "\<not> deq x DNaN"
  by (cases x; simp)+

lemma align_pos: "align m e e' < 0 \<longleftrightarrow> m < 0" "align m e e' > 0 \<longleftrightarrow> m > 0"
  "align m e e' = 0 \<longleftrightarrow> m = 0"
  by (auto simp: align_def mult_less_0_iff zero_less_mult_iff)

text \<open>The difference of a finite value with itself is \<open>+0\<close>.\<close>

lemma dsub_self: "isfin x \<Longrightarrow> dsub x x = d0"
  by (cases x) (auto simp: dsub_def smant_def align_def Let_def)

lemma dmul_zero_left: "isfin x \<Longrightarrow> \<exists>s. dmul (DFin t 0 e) x = DFin s 0 (- 1074)"
  by (cases x) auto

lemma dmul_zero_right: "isfin x \<Longrightarrow> \<exists>s. dmul x (DFin t 0 e) = DFin s 0 (- 1074)"
  by (cases x) auto

lemma dtrunc_zero [simp]: "dtrunc (DFin s 0 e) = Some 0"
  by simp

lemma d2int_zero [simp]: "d2int (DFin s 0 e) = Some 0"
  by (simp add: d2int_def)

lemma deq_zero_iff: "deq x (DFin s 0 e) \<longleftrightarrow> (\<exists>t f. x = DFin t 0 f)"
  by (cases x) (auto simp: smant_def align_def)

lemma align_0 [simp]: "align 0 e f = 0"
  by (simp add: align_def)

end
