(* ===== verification/CNumeric.thy ===== *)
theory CNumeric
  imports CDouble
begin

text \<open>
  The C library's number conversions the sources call: \<^verbatim>\<open>strtod\<close> (decimal, hexadecimal, \<open>inf\<close> and
  \<open>nan\<close> forms, correctly rounded), \<^verbatim>\<open>strtoll\<close> and \<^verbatim>\<open>strtoul\<close> in base 10, and the \<^verbatim>\<open>printf\<close> conversions \<open>%d\<close>, \<open>%.Nf\<close> and
  \<open>%.Ng\<close>. A conversion function returns the value, the number of bytes consumed (the end pointer;
  0 when nothing was converted) and whether \<^verbatim>\<open>errno\<close> was set to \<^verbatim>\<open>ERANGE\<close>. As in glibc, \<^verbatim>\<open>strtod\<close>
  reports \<^verbatim>\<open>ERANGE\<close> on overflow and on an inexact subnormal (or zero) result.
\<close>

section \<open>Digits\<close>

definition digits_val :: "string \<Rightarrow> int" where
  "digits_val ds = foldl (\<lambda>n c. 10 * n + digit_val c) 0 ds"

definition xdigits_val :: "string \<Rightarrow> int" where
  "xdigits_val ds = foldl (\<lambda>n c. 16 * n + xdigit_val c) 0 ds"

definition digit_char :: "int \<Rightarrow> char" where
  "digit_char n = char_of (nat n + 48)"

function show_dec :: "int \<Rightarrow> string" where
  "show_dec n = (if n < 10 then [digit_char n] else show_dec (n div 10) @ [digit_char (n mod 10)])"
  by pat_completeness auto
termination
  by (relation "measure nat") auto

declare show_dec.simps [simp del]

text \<open>\<open>%d\<close> / \<open>%lld\<close>.\<close>

definition fmt_d :: "int \<Rightarrow> string" where
  "fmt_d i = (if i < 0 then CHR ''-'' # show_dec (- i) else show_dec i)"

section \<open>strtod\<close>

definition round_dec :: "bool \<Rightarrow> int \<Rightarrow> int \<Rightarrow> cdouble" where
  "round_dec s n x =
     (if x \<ge> 0 then round_ratio s (n * 10 ^ nat x) 1 else round_ratio s n (10 ^ nat (- x)))"

text \<open>Overflow, or a result below the normal range that is not exact.\<close>

definition dec_erange :: "cdouble \<Rightarrow> int \<Rightarrow> int \<Rightarrow> bool" where
  "dec_erange v n d = (case v of
       DFin s m e \<Rightarrow> m < 2 ^ 52 \<and> m * d \<noteq> n * 2 ^ 1074
     | _ \<Rightarrow> True)"

definition dec_exponent :: "char list \<Rightarrow> string \<Rightarrow> int \<times> nat" where
  "dec_exponent marks s = (case s of
       [] \<Rightarrow> (0, 0)
     | c # t \<Rightarrow>
         if c \<notin> set marks then (0, 0)
         else let sg = (case t of [] \<Rightarrow> [] | d # _ \<Rightarrow> if d = CHR ''+'' \<or> d = CHR ''-'' then [d] else []);
                  ds = takeWhile isdigit (drop (length sg) t)
              in if ds = [] then (0, 0)
                 else ((if sg = ''-'' then - digits_val ds else digits_val ds),
                       1 + length sg + length ds))"

definition strtod_dec :: "bool \<Rightarrow> string \<Rightarrow> (cdouble \<times> nat \<times> bool) option" where
  "strtod_dec neg s =
     (let ip = takeWhile isdigit s;
          s1 = dropWhile isdigit s;
          dot = (s1 \<noteq> [] \<and> hd s1 = CHR ''.'');
          fp = (if dot then takeWhile isdigit (tl s1) else []);
          s2 = (if dot then dropWhile isdigit (tl s1) else s1);
          (x, k) = dec_exponent ''eE'' s2;
          n = digits_val (ip @ fp);
          q = x - int (length fp);
          v = round_dec neg n q
      in if ip = [] \<and> fp = [] then None
         else Some (v, length ip + (if dot then 1 else 0) + length fp + k,
                    dec_erange v (if q \<ge> 0 then n * 10 ^ nat q else n)
                                 (if q \<ge> 0 then 1 else 10 ^ nat (- q))))"

definition strtod_hex :: "bool \<Rightarrow> string \<Rightarrow> (cdouble \<times> nat \<times> bool) option" where
  "strtod_hex neg s =
     (let ip = takeWhile isxdigit s;
          s1 = dropWhile isxdigit s;
          dot = (s1 \<noteq> [] \<and> hd s1 = CHR ''.'');
          fp = (if dot then takeWhile isxdigit (tl s1) else []);
          s2 = (if dot then dropWhile isxdigit (tl s1) else s1);
          (x, k) = dec_exponent ''pP'' s2;
          n = xdigits_val (ip @ fp);
          q = x - 4 * int (length fp);
          v = round_dyadic neg n q
      in if ip = [] \<and> fp = [] then None
         else Some (v, length ip + (if dot then 1 else 0) + length fp + k,
                    dec_erange v (if q \<ge> 0 then n * 2 ^ nat q else n)
                                 (if q \<ge> 0 then 1 else 2 ^ nat (- q))))"

definition lower_starts :: "string \<Rightarrow> string \<Rightarrow> bool" where
  "lower_starts lit s = starts_with lit (map tolower (take (length lit) s))"

text \<open>The optional \<open>(n-char-sequence)\<close> after \<open>nan\<close>.\<close>

definition nan_paren :: "string \<Rightarrow> nat" where
  "nan_paren s = (case s of
       c # t \<Rightarrow>
         (let w = takeWhile (\<lambda>x. isalnum x \<or> x = CHR ''_'') t
          in if c = CHR ''('' \<and> drop (length w) t \<noteq> [] \<and> hd (drop (length w) t) = CHR '')''
             then length w + 2 else 0)
     | [] \<Rightarrow> 0)"

text \<open>The subject sequence after white space and sign; \<open>pre\<close> bytes precede it.\<close>

definition strtod_body :: "bool \<Rightarrow> nat \<Rightarrow> string \<Rightarrow> cdouble \<times> nat \<times> bool" where
  "strtod_body neg pre s =
     (case (if lower_starts ''0x'' s then strtod_hex neg (drop 2 s) else None) of
        Some (v, k, er) \<Rightarrow> (v, pre + 2 + k, er)
      | None \<Rightarrow>
          (case strtod_dec neg s of
             Some (v, k, er) \<Rightarrow> (v, pre + k, er)
           | None \<Rightarrow>
               if lower_starts ''infinity'' s then (DInf neg, pre + 8, False)
               else if lower_starts ''inf'' s then (DInf neg, pre + 3, False)
               else if lower_starts ''nan'' s
                 then (DNaN, pre + 3 + nan_paren (drop 3 s), False)
               else (d0, 0, False)))"

definition strtod :: "string \<Rightarrow> cdouble \<times> nat \<times> bool" where
  "strtod s0 =
     (let ws = length (takeWhile isspace s0);
          s1 = dropWhile isspace s0;
          sg = (s1 \<noteq> [] \<and> (hd s1 = CHR ''+'' \<or> hd s1 = CHR ''-''))
      in strtod_body (s1 \<noteq> [] \<and> hd s1 = CHR ''-'') (ws + (if sg then 1 else 0))
           (if sg then tl s1 else s1))"

section \<open>strtoll and strtoul, base 10\<close>

definition strtoll :: "string \<Rightarrow> int \<times> nat \<times> bool" where
  "strtoll s0 =
     (let ws = length (takeWhile isspace s0);
          s1 = dropWhile isspace s0;
          sg = (s1 \<noteq> [] \<and> (hd s1 = CHR ''+'' \<or> hd s1 = CHR ''-''));
          neg = (s1 \<noteq> [] \<and> hd s1 = CHR ''-'');
          ds = takeWhile isdigit (if sg then tl s1 else s1);
          v = (if neg then - digits_val ds else digits_val ds)
      in if ds = [] then (0, 0, False)
         else (max (- (2 ^ 63)) (min (2 ^ 63 - 1) v),
               ws + (if sg then 1 else 0) + length ds,
               v < - (2 ^ 63) \<or> 2 ^ 63 - 1 < v))"

text \<open>\<open>strtoul\<close> in base 10 (64 bits): a minus sign negates the number modulo \<open>2 ^ 64\<close>.\<close>

definition strtoul :: "string \<Rightarrow> 64 word \<times> nat \<times> bool" where
  "strtoul s0 =
     (let ws = length (takeWhile isspace s0);
          s1 = dropWhile isspace s0;
          sg = (s1 \<noteq> [] \<and> (hd s1 = CHR ''+'' \<or> hd s1 = CHR ''-''));
          neg = (s1 \<noteq> [] \<and> hd s1 = CHR ''-'');
          ds = takeWhile isdigit (if sg then tl s1 else s1);
          v = digits_val ds
      in if ds = [] then (0, 0, False)
         else (if v \<ge> 2 ^ 64 then - 1 else if neg then - word_of_int v else word_of_int v,
               ws + (if sg then 1 else 0) + length ds, v \<ge> 2 ^ 64))"

section \<open>printf conversions of doubles\<close>

text \<open>The integer nearest to \<open>n / d\<close>, ties to even.\<close>

definition round_half_even :: "int \<Rightarrow> int \<Rightarrow> int" where
  "round_half_even n d =
     (let q = n div d; r = n mod d
      in if 2 * r > d \<or> (2 * r = d \<and> odd q) then q + 1 else q)"

definition pad0 :: "nat \<Rightarrow> string \<Rightarrow> string" where
  "pad0 w s = replicate (w - length s) CHR ''0'' @ s"

definition sign_str :: "bool \<Rightarrow> string" where
  "sign_str s = (if s then ''-'' else [])"

text \<open>\<open>%.Nf\<close>.\<close>

fun fmt_f :: "nat \<Rightarrow> cdouble \<Rightarrow> string" where
  "fmt_f p DNaN = ''nan''"
| "fmt_f p (DInf s) = sign_str s @ ''inf''"
| "fmt_f p (DFin s m e) =
     (let k = (if e \<ge> 0 then m * 2 ^ nat e * 10 ^ p
               else round_half_even (m * 10 ^ p) (2 ^ nat (- e)));
          ds = pad0 (p + 1) (show_dec k);
          i = length ds - p
      in sign_str s @ take i ds @ (if p = 0 then [] else CHR ''.'' # drop i ds))"

text \<open>\<open>floor (log10 (n / d))\<close> for positive \<open>n\<close> and \<open>d\<close>.\<close>

definition ilog10 :: "int \<Rightarrow> int \<Rightarrow> int" where
  "ilog10 n d = (let k = int (length (show_dec n)) - int (length (show_dec d)) in
     if (if k \<ge> 0 then n \<ge> d * 10 ^ nat k else n * 10 ^ nat (- k) \<ge> d) then k else k - 1)"

definition strip_zeros :: "string \<Rightarrow> string" where
  "strip_zeros s = rev (dropWhile (\<lambda>c. c = CHR ''0'') (rev s))"

definition frac_str :: "string \<Rightarrow> string" where
  "frac_str f = (let g = strip_zeros f in if g = [] then [] else CHR ''.'' # g)"

text \<open>\<open>%.Ng\<close> (\<open>P \<ge> 1\<close> significant digits, trailing zeros removed).\<close>

fun fmt_g :: "nat \<Rightarrow> cdouble \<Rightarrow> string" where
  "fmt_g P DNaN = ''nan''"
| "fmt_g P (DInf s) = sign_str s @ ''inf''"
| "fmt_g P (DFin s m e) =
     (if m = 0 then sign_str s @ ''0''
      else let n = (if e \<ge> 0 then m * 2 ^ nat e else m);
               d = (if e \<ge> 0 then 1 else 2 ^ nat (- e));
               X0 = ilog10 n d;
               sh = X0 - int P + 1;
               D0 = (if sh \<ge> 0 then round_half_even n (d * 10 ^ nat sh)
                     else round_half_even (n * 10 ^ nat (- sh)) d);
               X = (if D0 = 10 ^ P then X0 + 1 else X0);
               D = (if D0 = 10 ^ P then 10 ^ (P - 1) else D0);
               ds = show_dec D
           in sign_str s @
              (if - 4 \<le> X \<and> X < int P then
                 (if X \<ge> 0 then take (nat X + 1) ds @ frac_str (drop (nat X + 1) ds)
                  else CHR ''0'' # frac_str (replicate (nat (- X) - 1) CHR ''0'' @ ds))
               else take 1 ds @ frac_str (drop 1 ds) @ [CHR ''e''] @
                    (if X < 0 then ''-'' else ''+'') @ pad0 2 (show_dec \<bar>X\<bar>)))"

section \<open>Facts\<close>

lemma ordc_digit_char [simp]: "0 \<le> n \<Longrightarrow> n < 10 \<Longrightarrow> ordc (digit_char n) = nat n + 48"
  by (simp add: digit_char_def)

lemma isdigit_digit_char [simp]: "0 \<le> n \<Longrightarrow> n < 10 \<Longrightarrow> isdigit (digit_char n)"
  by (simp add: isdigit_def)

lemma digit_val_digit_char [simp]: "0 \<le> n \<Longrightarrow> n < 10 \<Longrightarrow> digit_val (digit_char n) = n"
  by (simp add: digit_val_def)

lemma digits_val_append1: "digits_val (ds @ [c]) = 10 * digits_val ds + digit_val c"
  by (simp add: digits_val_def)

lemma show_dec_props:
  "0 \<le> n \<Longrightarrow> (\<forall>c \<in> set (show_dec n). isdigit c) \<and> digits_val (show_dec n) = n \<and> show_dec n \<noteq> []"
proof (induction n rule: show_dec.induct)
  case (1 n)
  show ?case
  proof (cases "n < 10")
    case True
    with "1.prems" show ?thesis
      by (simp add: show_dec.simps [of n] digits_val_def)
  next
    case False
    with 1 have "(\<forall>c \<in> set (show_dec (n div 10)). isdigit c) \<and>
        digits_val (show_dec (n div 10)) = n div 10 \<and> show_dec (n div 10) \<noteq> []"
      by simp
    with False "1.prems" show ?thesis
      by (simp add: show_dec.simps [of n] digits_val_append1)
  qed
qed

lemmas show_dec_digits = show_dec_props [THEN conjunct1]
lemmas digits_val_show_dec [simp] = show_dec_props [THEN conjunct2, THEN conjunct1]
lemmas show_dec_nonempty [simp] = show_dec_props [THEN conjunct2, THEN conjunct2]

lemma isdigit_not_sign: "isdigit c \<Longrightarrow> c \<noteq> CHR ''-'' \<and> c \<noteq> CHR ''+'' \<and> \<not> isspace c"
  by (auto simp: isdigit_def isspace_def)

text \<open>\<open>strtoll\<close> reads back what \<open>%lld\<close> printed, up to the first byte that is not a digit.\<close>

lemma strtoll_show:
  assumes "- (2 ^ 63) \<le> i" and "i < 2 ^ 63" and "rest = [] \<or> \<not> isdigit (hd rest)"
  shows "strtoll (fmt_d i @ rest) = (i, length (fmt_d i), False)"
proof (cases "i < 0")
  case True
  then have pos: "0 \<le> - i" by simp
  have tw: "takeWhile isdigit (show_dec (- i) @ rest) = show_dec (- i)"
    using assms(3) show_dec_digits [OF pos] by (intro takeWhile_run) auto
  have "\<not> isspace CHR ''-''" by (simp add: isspace_def)
  with True assms tw pos show ?thesis
    by (simp add: strtoll_def fmt_d_def Let_def)
next
  case False
  then have pos: "0 \<le> i" by simp
  then obtain c cs where cs: "show_dec i = c # cs" and c: "isdigit c"
    using show_dec_digits [OF pos] show_dec_nonempty [OF pos]
    by (cases "show_dec i") auto
  have tw: "takeWhile isdigit (show_dec i @ rest) = show_dec i"
    using assms(3) show_dec_digits [OF pos] by (intro takeWhile_run) auto
  from c have "\<not> isspace c" "c \<noteq> CHR ''-''" "c \<noteq> CHR ''+''"
    using isdigit_not_sign by blast+
  with False assms tw pos cs c show ?thesis
    using digits_val_show_dec [OF pos]
    by (simp add: strtoll_def fmt_d_def Let_def)
qed

text \<open>\<open>strtoul\<close> reads back what \<open>%u\<close> printed.\<close>

lemma strtoul_show:
  assumes "0 \<le> i" and "i < 2 ^ 64"
  shows "strtoul (show_dec i) = (word_of_int i, length (show_dec i), False)"
proof -
  obtain c cs where cs: "show_dec i = c # cs" and c: "isdigit c"
    using show_dec_digits [OF assms(1)] show_dec_nonempty [OF assms(1)] by (cases "show_dec i") auto
  have tw: "takeWhile isdigit (show_dec i) = show_dec i"
    using show_dec_digits [OF assms(1)] by (simp add: takeWhile_eq_all_conv)
  from c have "\<not> isspace c" "c \<noteq> CHR ''-''" "c \<noteq> CHR ''+''"
    using isdigit_not_sign by blast+
  with cs assms(2) tw digits_val_show_dec [OF assms(1)] show ?thesis by (simp add: strtoul_def Let_def)
qed

lemma show_dec_length: "0 \<le> n \<Longrightarrow> n < 10 ^ Suc k \<Longrightarrow> length (show_dec n) \<le> Suc k"
proof (induction k arbitrary: n)
  case (Suc k)
  show ?case
  proof (cases "n < 10")
    case False
    have "n div 10 < 10 ^ Suc k" using Suc.prems by simp
    with Suc.IH [of "n div 10"] Suc.prems False show ?thesis by (simp add: show_dec.simps [of n])
  qed (simp add: show_dec.simps)
qed (simp add: show_dec.simps)

section \<open>Integers in a double\<close>

lemma nbits_bounds: "0 < n \<Longrightarrow> 0 < nbits n \<and> 2 ^ nat (nbits n - 1) \<le> n \<and> n < 2 ^ nat (nbits n)"
proof (induction n rule: nbits.induct)
  case (1 n)
  show ?case
  proof (cases "n = 1")
    case True
    then show ?thesis by (simp add: nbits.simps)
  next
    case False
    with 1 have ih: "0 < nbits (n div 2)" "2 ^ nat (nbits (n div 2) - 1) \<le> n div 2" "n div 2 < 2 ^ nat (nbits (n div 2))"
      by simp_all
    define k where "k = nbits (n div 2)"
    have b: "nbits n = 1 + k" using "1.prems" by (subst nbits.simps) (simp add: k_def)
    have k: "nat k = Suc (nat (k - 1))" "nat (1 + k) = Suc (nat k)" using ih(1) by (simp_all add: k_def)
    have "2 * 2 ^ nat (k - 1) \<le> n" "n < 2 * 2 ^ nat k" using ih(2,3) unfolding k_def [symmetric] by linarith+
    then show ?thesis using ih(1) k unfolding b k_def [symmetric] by simp
  qed
qed

lemma nbits_le: "0 < n \<Longrightarrow> n < 2 ^ p \<Longrightarrow> nbits n \<le> int p"
proof (rule ccontr)
  assume n: "0 < n" "n < 2 ^ p" and "\<not> nbits n \<le> int p"
  then have "(2::int) ^ p \<le> 2 ^ nat (nbits n - 1)" by (intro power_increasing) simp_all
  with nbits_bounds [OF n(1)] n(2) show False by linarith
qed

lemma nbits_1 [simp]: "nbits 1 = 1"
  by (simp add: nbits.simps)

text \<open>An integer of at most 53 bits is represented exactly.\<close>

lemma round_ratio_int:
  assumes "0 < n" and "n < 2 ^ 53"
  shows "\<exists>p. nbits n = 53 - int p \<and> round_ratio s n 1 = DFin s (n * 2 ^ p) (- int p) \<and> 2 ^ 52 \<le> n * 2 ^ p \<and> n * 2 ^ p < 2 ^ 53"
proof -
  have b: "0 < nbits n" "2 ^ nat (nbits n - 1) \<le> n" "n < 2 ^ nat (nbits n)" using nbits_bounds [OF assms(1)] by blast+
  have le: "nbits n \<le> 53" using nbits_le [of n 53] assms by simp
  define p where "p = nat (53 - nbits n)"
  have p: "nbits n = 53 - int p" using le by (simp add: p_def)
  have l: "ilog2 n 1 = 52 - int p" using b by (simp add: ilog2_def Let_def p)
  have "52 = nat (nbits n - 1) + p" "53 = nat (nbits n) + p" using b(1) p by simp_all
  then have "(2::int) ^ 52 = 2 ^ nat (nbits n - 1) * 2 ^ p" "(2::int) ^ 53 = 2 ^ nat (nbits n) * 2 ^ p"
    by (metis power_add)+
  then have m: "2 ^ 52 \<le> n * 2 ^ p" "n * 2 ^ p < 2 ^ 53"
    using b(2,3) by (metis mult_right_mono zero_le_numeral zero_le_power, metis mult_strict_right_mono zero_less_numeral zero_less_power)
  have "p \<le> 52" using p b(1) by linarith
  with m assms(1) have "round_ratio s n 1 = DFin s (n * 2 ^ p) (- int p)"
    by (auto simp: round_ratio_def l Let_def max_def)
  with p m show ?thesis by blast
qed

end
