(* ===== verification/Json.thy ===== *)
theory Json
  imports CNumeric
begin

text \<open>
  \<^verbatim>\<open>tools/src/json.c\<close>: the recursive-descent JSON parser with its byte-offset errors and depth
  limit, the accessors, and the writer in the shape of Python's \<^verbatim>\<open>json.dump(indent=4)\<close>.

  The parser state keeps the bytes still to read (\<open>p_rest\<close>, the suffix of the text from \<^verbatim>\<open>pos\<close>
  up to \<^verbatim>\<open>len\<close>), the offset \<^verbatim>\<open>pos\<close> and the nesting depth. As at every call site the text is followed
  by a NUL byte, so \<^verbatim>\<open>strncmp\<close> and \<^verbatim>\<open>strtod\<close> never look past \<^verbatim>\<open>len\<close>. An error is the message
  with its offset; the recursion is bounded by fuel, and \<open>PFuel\<close> marks its exhaustion.
\<close>

section \<open>Values and the parser state\<close>

datatype json_value =
    JNull
  | JBool bool
  | JNum cdouble
  | JStr string
  | JArr "json_value list"
  | JObj "(string \<times> json_value) list"

record json_parser =
  p_rest :: string
  p_pos :: nat
  p_depth :: nat

datatype 'a presult = POk 'a json_parser | PErr string nat | PFuel

definition JSON_MAX_DEPTH :: nat where
  "JSON_MAX_DEPTH = 32"

abbreviation perr :: "json_parser \<Rightarrow> string \<Rightarrow> 'a presult" where
  "perr p msg \<equiv> PErr msg (p_pos p)"

abbreviation quoted :: "char \<Rightarrow> string" where
  "quoted c \<equiv> [CHR 0x27, c, CHR 0x27]"

definition adv :: "nat \<Rightarrow> json_parser \<Rightarrow> json_parser" where
  "adv n p = p\<lparr>p_rest := drop n (p_rest p), p_pos := p_pos p + n\<rparr>"

definition at_char :: "json_parser \<Rightarrow> char \<Rightarrow> bool" where
  "at_char p c = (case p_rest p of [] \<Rightarrow> False | d # _ \<Rightarrow> d = c)"

definition is_json_ws :: "char \<Rightarrow> bool" where
  "is_json_ws c \<longleftrightarrow> c = CHR '' '' \<or> c = CHR 0x09 \<or> c = CHR 0x0A \<or> c = CHR 0x0D"

definition json_skip_ws :: "json_parser \<Rightarrow> json_parser" where
  "json_skip_ws p = adv (length (takeWhile is_json_ws (p_rest p))) p"

section \<open>Strings and numbers\<close>

definition json_unescape :: "char \<Rightarrow> char option" where
  "json_unescape c =
     (if c = CHR 0x22 then Some CHR 0x22
      else if c = CHR 0x5C then Some CHR 0x5C
      else if c = CHR ''/'' then Some CHR ''/''
      else if c = CHR ''b'' then Some CHR 0x08
      else if c = CHR ''f'' then Some CHR 0x0C
      else if c = CHR ''n'' then Some CHR 0x0A
      else if c = CHR ''r'' then Some CHR 0x0D
      else if c = CHR ''t'' then Some CHR 0x09
      else None)"

text \<open>The loop of \<^verbatim>\<open>parse_string\<close> after the opening quote; \<open>acc\<close> is the buffer.\<close>

fun json_string_body :: "nat \<Rightarrow> string \<Rightarrow> nat \<Rightarrow> string \<Rightarrow> string presult" where
  "json_string_body dep [] pos acc = PErr ''unterminated string'' pos"
| "json_string_body dep (c # r) pos acc =
     (if c = CHR 0x22 then POk acc \<lparr>p_rest = r, p_pos = pos + 1, p_depth = dep\<rparr>
      else if ordc c < 0x20 then PErr ''control character in string'' pos
      else if c = CHR 0x5C then
        (case r of
           [] \<Rightarrow> PErr ''unterminated escape'' (pos + 1)
         | e # r' \<Rightarrow>
             if e = CHR ''u'' then PErr (CHR 0x5C # ''u escapes not supported'') (pos + 1)
             else (case json_unescape e of
                     None \<Rightarrow> PErr ''invalid escape'' (pos + 1)
                   | Some d \<Rightarrow> json_string_body dep r' (pos + 2) (acc @ [d])))
      else json_string_body dep r (pos + 1) (acc @ [c]))"

definition json_parse_string :: "json_parser \<Rightarrow> string presult" where
  "json_parse_string p =
     (if \<not> at_char p CHR 0x22 then perr p ''expected string''
      else json_string_body (p_depth p) (tl (p_rest p)) (p_pos p + 1) [])"

definition is_numchar :: "char \<Rightarrow> bool" where
  "is_numchar c \<longleftrightarrow> isdigit c \<or> c = CHR ''-'' \<or> c = CHR ''+'' \<or> c = CHR ''.'' \<or>
     c = CHR ''e'' \<or> c = CHR ''E''"

definition json_parse_number :: "json_parser \<Rightarrow> json_value presult" where
  "json_parse_number p =
     (let tok = takeWhile is_numchar (p_rest p);
          p' = adv (length tok) p
      in if \<not> list_ex isdigit tok then perr p' ''invalid number''
         else case strtod (p_rest p) of
                (d, k, erange) \<Rightarrow>
                  if erange \<or> k \<noteq> length tok then perr p' ''invalid number''
                  else POk (JNum d) p')"

section \<open>Recursive descent\<close>

text \<open>
  \<open>json_array_loop\<close> and \<open>json_object_loop\<close> are the \<^verbatim>\<open>for (;;)\<close> loops of \<^verbatim>\<open>parse_array\<close> and
  \<^verbatim>\<open>parse_object\<close>; their last argument holds the members added so far.
\<close>

fun json_parse_value :: "nat \<Rightarrow> json_parser \<Rightarrow> json_value presult"
and json_parse_array :: "nat \<Rightarrow> json_parser \<Rightarrow> json_value presult"
and json_array_loop :: "nat \<Rightarrow> json_parser \<Rightarrow> json_value list \<Rightarrow> json_value presult"
and json_parse_object :: "nat \<Rightarrow> json_parser \<Rightarrow> json_value presult"
and json_object_loop :: "nat \<Rightarrow> json_parser \<Rightarrow> (string \<times> json_value) list \<Rightarrow> json_value presult"
where
  "json_parse_value 0 p0 = PFuel"
| "json_parse_value (Suc fuel) p0 =
     (let p = json_skip_ws p0
      in case p_rest p of
           [] \<Rightarrow> perr p ''unexpected end of input''
         | c # _ \<Rightarrow>
             if c = CHR ''{'' then json_parse_object fuel p
             else if c = CHR ''['' then json_parse_array fuel p
             else if c = CHR 0x22 then
               (case json_parse_string p of
                  POk s p' \<Rightarrow> POk (JStr s) p'
                | PErr m i \<Rightarrow> PErr m i
                | PFuel \<Rightarrow> PFuel)
             else if c = CHR ''t'' then
               (if starts_with ''true'' (p_rest p) then POk (JBool True) (adv 4 p)
                else perr p ''expected value'')
             else if c = CHR ''f'' then
               (if starts_with ''false'' (p_rest p) then POk (JBool False) (adv 5 p)
                else perr p ''expected value'')
             else if c = CHR ''n'' then
               (if starts_with ''null'' (p_rest p) then POk JNull (adv 4 p)
                else perr p ''expected value'')
             else if c = CHR ''-'' \<or> isdigit c then json_parse_number p
             else perr p ''expected value'')"
| "json_parse_array 0 p = PFuel"
| "json_parse_array (Suc fuel) p =
     (let p1 = (adv 1 p)\<lparr>p_depth := p_depth p + 1\<rparr>
      in if p_depth p1 > JSON_MAX_DEPTH then perr p1 ''nesting too deep''
         else let p2 = json_skip_ws p1
              in if at_char p2 CHR '']'' then POk (JArr []) ((adv 1 p2)\<lparr>p_depth := p_depth p2 - 1\<rparr>)
                 else json_array_loop fuel p2 [])"
| "json_array_loop 0 p items = PFuel"
| "json_array_loop (Suc fuel) p items =
     (case json_parse_value fuel p of
        PErr m i \<Rightarrow> PErr m i
      | PFuel \<Rightarrow> PFuel
      | POk item p1 \<Rightarrow>
          (let p2 = json_skip_ws p1
           in if p_rest p2 = [] then perr p2 ''unterminated array''
              else if at_char p2 CHR '','' then
                json_array_loop fuel (json_skip_ws (adv 1 p2)) (items @ [item])
              else if at_char p2 CHR '']'' then
                POk (JArr (items @ [item])) ((adv 1 p2)\<lparr>p_depth := p_depth p2 - 1\<rparr>)
              else perr p2 (''expected '' @ quoted CHR '','' @ '' or '' @ quoted CHR '']'')))"
| "json_parse_object 0 p = PFuel"
| "json_parse_object (Suc fuel) p =
     (let p1 = (adv 1 p)\<lparr>p_depth := p_depth p + 1\<rparr>
      in if p_depth p1 > JSON_MAX_DEPTH then perr p1 ''nesting too deep''
         else let p2 = json_skip_ws p1
              in if at_char p2 CHR ''}'' then POk (JObj []) ((adv 1 p2)\<lparr>p_depth := p_depth p2 - 1\<rparr>)
                 else json_object_loop fuel p2 [])"
| "json_object_loop 0 p items = PFuel"
| "json_object_loop (Suc fuel) p items =
     (case json_parse_string p of
        PErr m i \<Rightarrow> PErr m i
      | PFuel \<Rightarrow> PFuel
      | POk key p1 \<Rightarrow>
          (let p2 = json_skip_ws p1
           in if \<not> at_char p2 CHR '':'' then perr p2 (''expected '' @ quoted CHR '':'')
              else
                (case json_parse_value fuel (json_skip_ws (adv 1 p2)) of
                   PErr m i \<Rightarrow> PErr m i
                 | PFuel \<Rightarrow> PFuel
                 | POk item p3 \<Rightarrow>
                     (let p4 = json_skip_ws p3
                      in if p_rest p4 = [] then perr p4 ''unterminated object''
                         else if at_char p4 CHR '','' then
                           json_object_loop fuel (json_skip_ws (adv 1 p4)) (items @ [(key, item)])
                         else if at_char p4 CHR ''}'' then
                           POk (JObj (items @ [(key, item)]))
                             ((adv 1 p4)\<lparr>p_depth := p_depth p4 - 1\<rparr>)
                         else perr p4 (''expected '' @ quoted CHR '','' @ '' or '' @ quoted CHR ''}'')))))"

text \<open>
  \<open>json_parse\<close> returns the value, or the error with its byte offset. The fuel is enough for
  every text (\<open>json_parse_total\<close> below).
\<close>

definition json_fuel :: "string \<Rightarrow> nat" where
  "json_fuel text = 3 * length text + 3"

definition json_parse :: "string \<Rightarrow> json_value presult" where
  "json_parse text =
     (case json_parse_value (json_fuel text) \<lparr>p_rest = text, p_pos = 0, p_depth = 0\<rparr> of
        PErr m i \<Rightarrow> PErr m i
      | PFuel \<Rightarrow> PFuel
      | POk root p \<Rightarrow>
          (let p' = json_skip_ws p
           in if p_rest p' \<noteq> [] then perr p' ''trailing data after JSON value''
              else POk root p'))"

section \<open>Accessors\<close>

definition json_obj_get :: "json_value option \<Rightarrow> string \<Rightarrow> json_value option" where
  "json_obj_get obj key = (case obj of Some (JObj kvs) \<Rightarrow> map_of kvs key | _ \<Rightarrow> None)"

definition json_array_get :: "json_value option \<Rightarrow> nat \<Rightarrow> json_value option" where
  "json_array_get arr i = (case arr of
       Some (JArr xs) \<Rightarrow> if i \<ge> length xs then None else Some (xs ! i)
     | _ \<Rightarrow> None)"

definition json_array_get_num :: "json_value option \<Rightarrow> nat \<Rightarrow> cdouble \<Rightarrow> cdouble" where
  "json_array_get_num arr i dflt = (case json_array_get arr i of Some (JNum d) \<Rightarrow> d | _ \<Rightarrow> dflt)"

text \<open>
  The getters write the caller's array element by element and stop at the first element
  that is not a number: on an error the elements before it are already overwritten.
\<close>

fun json_nums_into :: "json_value list \<Rightarrow> nat \<Rightarrow> cdouble list \<Rightarrow> int \<times> cdouble list" where
  "json_nums_into [] i out = (0, out)"
| "json_nums_into (v # vs) i out =
     (case v of JNum d \<Rightarrow> json_nums_into vs (Suc i) (out[i := d]) | _ \<Rightarrow> (- 1, out))"

definition json_get_float3 ::
  "json_value option \<Rightarrow> string \<Rightarrow> cdouble list \<Rightarrow> int \<times> cdouble list" where
  "json_get_float3 obj key out = (case json_obj_get obj key of
       Some (JArr vs) \<Rightarrow> if length vs \<noteq> 3 then (- 1, out) else json_nums_into vs 0 out
     | _ \<Rightarrow> (- 1, out))"

fun json_rows_into :: "json_value list \<Rightarrow> nat \<Rightarrow> cdouble list list \<Rightarrow> int \<times> cdouble list list" where
  "json_rows_into [] i out = (0, out)"
| "json_rows_into (v # vs) i out =
     (case v of
        JArr row \<Rightarrow>
          if length row \<noteq> 3 then (- 1, out)
          else (case json_nums_into row 0 (out ! i) of
                  (rc, r) \<Rightarrow> if rc < 0 then (- 1, out[i := r])
                             else json_rows_into vs (Suc i) (out[i := r]))
      | _ \<Rightarrow> (- 1, out))"

definition json_get_mat3 ::
  "json_value option \<Rightarrow> string \<Rightarrow> cdouble list list \<Rightarrow> int \<times> cdouble list list" where
  "json_get_mat3 obj key out = (case json_obj_get obj key of
       Some (JArr vs) \<Rightarrow> if length vs \<noteq> 3 then (- 1, out) else json_rows_into vs 0 out
     | _ \<Rightarrow> (- 1, out))"

section \<open>Construction\<close>

definition json_arr_add :: "json_value option \<Rightarrow> json_value option \<Rightarrow> int \<times> json_value option" where
  "json_arr_add arr val = (case (arr, val) of
       (Some (JArr xs), Some v) \<Rightarrow> (0, Some (JArr (xs @ [v])))
     | _ \<Rightarrow> (- 1, arr))"

definition json_obj_add ::
  "json_value option \<Rightarrow> string \<Rightarrow> json_value option \<Rightarrow> int \<times> json_value option" where
  "json_obj_add obj key val = (case (obj, val) of
       (Some (JObj kvs), Some v) \<Rightarrow> (0, Some (JObj (kvs @ [(key, v)])))
     | _ \<Rightarrow> (- 1, obj))"

section \<open>Writer\<close>

definition fmt_number :: "cdouble \<Rightarrow> string" where
  "fmt_number d =
     (if isnan d \<or> isinf d then ''null''
      else if \<not> deq d d0 \<and> (dlt (dabs d) (dlit 5 10000000) \<or> dge (dabs d) (dlit (10 ^ 16) 1))
        then fmt_g 6 d
      else let b = strip_zeros (fmt_f 6 d)
           in if last b = CHR ''.'' then b @ ''0'' else b)"

definition hexdig :: "nat \<Rightarrow> char" where
  "hexdig n = (if n < 10 then char_of (n + 48) else char_of (n + 87))"

definition escape_char :: "char \<Rightarrow> string" where
  "escape_char c =
     (if c = CHR 0x22 then [CHR 0x5C, CHR 0x22]
      else if c = CHR 0x5C then [CHR 0x5C, CHR 0x5C]
      else if c = CHR 0x08 then [CHR 0x5C, CHR ''b'']
      else if c = CHR 0x0C then [CHR 0x5C, CHR ''f'']
      else if c = CHR 0x0A then [CHR 0x5C, CHR ''n'']
      else if c = CHR 0x0D then [CHR 0x5C, CHR ''r'']
      else if c = CHR 0x09 then [CHR 0x5C, CHR ''t'']
      else if ordc c < 0x20 then
        [CHR 0x5C, CHR ''u'', CHR ''0'', CHR ''0'', hexdig (ordc c div 16), hexdig (ordc c mod 16)]
      else [c])"

definition escape_string :: "string \<Rightarrow> string" where
  "escape_string s = CHR 0x22 # concat (map escape_char s) @ [CHR 0x22]"

abbreviation newline_indent :: "nat \<Rightarrow> string" where
  "newline_indent level \<equiv> CHR 0x0A # replicate (4 * level) CHR '' ''"

fun dump_value :: "json_value \<Rightarrow> nat \<Rightarrow> string"
and dump_items :: "json_value list \<Rightarrow> nat \<Rightarrow> string"
and dump_members :: "(string \<times> json_value) list \<Rightarrow> nat \<Rightarrow> string"
where
  "dump_value JNull level = ''null''"
| "dump_value (JBool b) level = (if b then ''true'' else ''false'')"
| "dump_value (JNum d) level = fmt_number d"
| "dump_value (JStr s) level = escape_string s"
| "dump_value (JArr vs) level =
     CHR ''['' # (if vs = [] then [] else dump_items vs level @ newline_indent level) @ '']''"
| "dump_value (JObj kvs) level =
     CHR ''{'' # (if kvs = [] then [] else dump_members kvs level @ newline_indent level) @ ''}''"
| "dump_items [] level = []"
| "dump_items (v # vs) level =
     newline_indent (level + 1) @ dump_value v (level + 1) @
     (if vs = [] then [] else CHR '','' # dump_items vs level)"
| "dump_members [] level = []"
| "dump_members ((k, v) # kvs) level =
     newline_indent (level + 1) @ escape_string k @ '': '' @ dump_value v (level + 1) @
     (if kvs = [] then [] else CHR '','' # dump_members kvs level)"

definition json_dumps :: "json_value option \<Rightarrow> string option" where
  "json_dumps v = (case v of None \<Rightarrow> None | Some x \<Rightarrow> Some (dump_value x 0))"

end
