(* ===== verification/Json_Correct.thy ===== *)
theory Json_Correct
  imports Json
begin

text \<open>
  Properties of the JSON parser and writer: the parser always returns, its error offsets lie
  within the text, accepted documents respect the depth limit, and the writer's output parses
  back to the value that was written.
\<close>

section \<open>Progress of the parser\<close>

abbreviation tot :: "json_parser \<Rightarrow> nat" where
  "tot p \<equiv> p_pos p + length (p_rest p)"

lemma adv_simps [simp]:
  "p_rest (adv n p) = drop n (p_rest p)" "p_pos (adv n p) = p_pos p + n"
  "p_depth (adv n p) = p_depth p"
  by (simp_all add: adv_def)

lemma skip_ws_simps [simp]:
  "p_depth (json_skip_ws p) = p_depth p"
  "tot (json_skip_ws p) = tot p"
  "length (p_rest (json_skip_ws p)) \<le> length (p_rest p)"
  "p_pos (json_skip_ws p) \<le> tot p"
  by (auto simp: json_skip_ws_def dropWhile_eq_drop length_takeWhile_le)

lemma skip_ws_rest: "p_rest (json_skip_ws p) = dropWhile is_json_ws (p_rest p)"
  by (simp add: json_skip_ws_def dropWhile_eq_drop)

lemma at_char_iff: "at_char p c \<longleftrightarrow> (\<exists>r. p_rest p = c # r)"
  by (auto simp: at_char_def split: list.splits)

text \<open>
  What a parsing step may do: a success moves forward by at least \<open>k\<close> bytes and changes the
  depth to \<open>d\<close>; an error is reported inside the text.
\<close>

definition step_ok :: "json_parser \<Rightarrow> nat \<Rightarrow> nat \<Rightarrow> 'a presult \<Rightarrow> bool" where
  "step_ok p k d r = (case r of
       POk v p' \<Rightarrow> tot p' = tot p \<and> length (p_rest p') + k \<le> length (p_rest p) \<and> p_depth p' = d
     | PErr m i \<Rightarrow> i \<le> tot p
     | PFuel \<Rightarrow> True)"

lemma step_ok_simps [simp]:
  "step_ok p k d (POk v p') \<longleftrightarrow>
     tot p' = tot p \<and> length (p_rest p') + k \<le> length (p_rest p) \<and> p_depth p' = d"
  "step_ok p k d (PErr m i) \<longleftrightarrow> i \<le> tot p"
  "step_ok p k d PFuel"
  by (simp_all add: step_ok_def)

lemma json_string_body_ok:
  "json_string_body dep r pos acc = R \<Longrightarrow>
   step_ok \<lparr>p_rest = r, p_pos = pos, p_depth = dep\<rparr> 1 dep R \<and> R \<noteq> PFuel"
proof (induction dep r pos acc arbitrary: R rule: json_string_body.induct)
  case (1 dep pos acc)
  then show ?case by auto
next
  case (2 dep c r pos acc)
  show ?case
  proof (cases "c = CHR 0x22 \<or> ordc c < 0x20")
    case True
    with "2.prems" show ?thesis by (auto split: if_splits)
  next
    case ord: False
    show ?thesis
    proof (cases "c = CHR 0x5C")
      case True
      with ord 2 show ?thesis
        by (fastforce split: list.splits if_splits option.splits simp: step_ok_def
            split: presult.splits)
    next
      case False
      with ord "2.prems" "2.IH"(2) [OF _ _ False] show ?thesis
        by (fastforce simp: step_ok_def split: presult.splits)
    qed
  qed
qed

lemma json_parse_string_ok: "step_ok p 2 (p_depth p) (json_parse_string p)"
  and json_parse_string_fuel [simp]: "json_parse_string p \<noteq> PFuel"
proof -
  have "step_ok p 2 (p_depth p) (json_parse_string p) \<and> json_parse_string p \<noteq> PFuel"
  proof (cases "at_char p CHR 0x22")
    case False
    then show ?thesis by (simp add: json_parse_string_def)
  next
    case True
    then obtain r where r: "p_rest p = CHR 0x22 # r" by (auto simp: at_char_iff)
    from json_string_body_ok [where r = r and dep = "p_depth p" and pos = "p_pos p + 1" and acc = "[]"] True r
    show ?thesis
      by (auto simp: json_parse_string_def step_ok_def split: presult.splits)
  qed
  then show "step_ok p 2 (p_depth p) (json_parse_string p)" "json_parse_string p \<noteq> PFuel"
    by blast+
qed

lemma json_parse_number_ok:
  assumes "p_rest p = c # r" and "c = CHR ''-'' \<or> isdigit c"
  shows "step_ok p 1 (p_depth p) (json_parse_number p) \<and> json_parse_number p \<noteq> PFuel"
proof -
  from assms(2) have "is_numchar c" by (auto simp: is_numchar_def)
  then have 1: "1 \<le> length (takeWhile is_numchar (p_rest p))" using assms(1) by simp
  have 2: "length (takeWhile is_numchar (p_rest p)) \<le> length (p_rest p)"
    by (rule length_takeWhile_le)
  from 1 2 show ?thesis
    by (auto simp: json_parse_number_def Let_def split: prod.splits)
qed

lemma not_at_nil: "p_rest p = [] \<Longrightarrow> \<not> at_char p c"
  by (simp add: at_char_iff)

lemma drop1_len: "at_char p c \<Longrightarrow> length (drop 1 (p_rest p)) + 1 = length (p_rest p)"
  by (auto simp: at_char_iff)

lemma step_ok_cases:
  assumes "step_ok p k d r"
  obtains (Ok) v p' where "r = POk v p'" "tot p' = tot p"
      "length (p_rest p') + k \<le> length (p_rest p)" "p_depth p' = d"
    | (Err) m i where "r = PErr m i" "i \<le> tot p"
    | (Fuel) "r = PFuel"
  using assms by (cases r) auto

text \<open>Where a value may start, and what follows it, only moves forward.\<close>

lemma step_ok_skip:
  "step_ok (json_skip_ws p) k d R \<Longrightarrow> step_ok p k d R"
  by (cases R) (auto intro: order_trans [OF _ skip_ws_simps(3)])

lemma step_ok_adv:
  assumes "step_ok p' k d R" and "tot p' = tot p" and "length (p_rest p') + n \<le> length (p_rest p)"
    and "j \<le> k + n"
  shows "step_ok p j d R"
  using assms by (auto elim!: step_ok_cases)

text \<open>Opening a container, and the two ways out of a loop iteration.\<close>

lemma step_ok_open:
  assumes "p_rest p \<noteq> []"
    and "\<And>p2. \<lbrakk>tot p2 = tot p; length (p_rest p2) + 1 \<le> length (p_rest p); p_depth p2 = p_depth p + 1\<rbrakk>
          \<Longrightarrow> step_ok p2 1 (p_depth p) (K p2)"
  shows "step_ok p 1 (p_depth p) (let p1 = (adv 1 p)\<lparr>p_depth := p_depth p + 1\<rparr>
      in if p_depth p1 > JSON_MAX_DEPTH then perr p1 m
         else let p2 = json_skip_ws p1
              in if at_char p2 c then POk v ((adv 1 p2)\<lparr>p_depth := p_depth p2 - 1\<rparr>) else K p2)"
proof -
  define p1 where "p1 = (adv 1 p)\<lparr>p_depth := p_depth p + 1\<rparr>"
  define p2 where "p2 = json_skip_ws p1"
  from assms(1) have p1: "tot p1 = tot p" "length (p_rest p1) + 1 \<le> length (p_rest p)"
      "p_depth p1 = p_depth p + 1"
    by (cases "p_rest p"; simp add: p1_def)+
  have p2: "tot p2 = tot p1" "length (p_rest p2) \<le> length (p_rest p1)" "p_depth p2 = p_depth p1"
    by (simp_all only: p2_def skip_ws_simps)
  have "step_ok p2 1 (p_depth p) (K p2)" using p1 p2 by (intro assms(2)) auto
  then have "step_ok p 1 (p_depth p) (K p2)" using p1 p2 by (auto elim!: step_ok_cases)
  moreover have "p_pos p1 \<le> tot p" using p1 by simp
  ultimately show ?thesis
    unfolding Let_def p1_def [symmetric] p2_def [symmetric]
    using p1 p2 by (auto simp: at_char_iff)
qed

lemma step_ok_next:
  assumes "tot p1 = tot p" and "length (p_rest p1) + 1 \<le> length (p_rest p)" and "p_depth p1 = d + 1"
    and "\<And>p3. \<lbrakk>tot p3 = tot p; length (p_rest p3) + 2 \<le> length (p_rest p); p_depth p3 = d + 1\<rbrakk>
          \<Longrightarrow> step_ok p3 1 d (K p3)"
  shows "step_ok p 1 d (let p2 = json_skip_ws p1
      in if p_rest p2 = [] then perr p2 m
         else if at_char p2 c then K (json_skip_ws (adv 1 p2))
         else if at_char p2 c' then POk v ((adv 1 p2)\<lparr>p_depth := p_depth p2 - 1\<rparr>)
         else perr p2 m')"
proof -
  define p2 where "p2 = json_skip_ws p1"
  define p3 where "p3 = json_skip_ws (adv 1 p2)"
  have p2: "tot p2 = tot p1" "length (p_rest p2) \<le> length (p_rest p1)" "p_depth p2 = p_depth p1"
    by (simp_all only: p2_def skip_ws_simps)
  have "step_ok p 1 d (K p3)" if "p_rest p2 \<noteq> []"
  proof -
    have "tot p3 = tot (adv 1 p2)" "length (p_rest p3) \<le> length (p_rest (adv 1 p2))"
        "p_depth p3 = p_depth p2"
      unfolding p3_def using skip_ws_simps [of "adv 1 p2"] by simp_all
    with that p2 assms(1-3) have p3: "tot p3 = tot p" "length (p_rest p3) + 2 \<le> length (p_rest p)"
        "p_depth p3 = d + 1"
      by (cases "p_rest p2"; simp)+
    from assms(4) [OF p3] p3 show ?thesis by (auto elim!: step_ok_cases)
  qed
  moreover have "p_pos p2 \<le> tot p" using p2 assms(1) by simp
  ultimately show ?thesis
    unfolding Let_def p2_def [symmetric] p3_def [symmetric]
    using p2 assms(1-3) by (auto simp: at_char_iff)
qed

definition all_ok :: "nat \<Rightarrow> bool" where
  "all_ok fuel \<longleftrightarrow>
     (\<forall>p. step_ok p 1 (p_depth p) (json_parse_value fuel p)) \<and>
     (\<forall>p. p_rest p \<noteq> [] \<longrightarrow> step_ok p 1 (p_depth p) (json_parse_array fuel p)) \<and>
     (\<forall>p d items. p_depth p = d + 1 \<longrightarrow> step_ok p 1 d (json_array_loop fuel p items)) \<and>
     (\<forall>p. p_rest p \<noteq> [] \<longrightarrow> step_ok p 1 (p_depth p) (json_parse_object fuel p)) \<and>
     (\<forall>p d items. p_depth p = d + 1 \<longrightarrow> step_ok p 1 d (json_object_loop fuel p items))"

lemma all_okD:
  assumes "all_ok fuel"
  shows "step_ok p 1 (p_depth p) (json_parse_value fuel p)"
    and "p_rest p \<noteq> [] \<Longrightarrow> step_ok p 1 (p_depth p) (json_parse_array fuel p)"
    and "p_depth p = d + 1 \<Longrightarrow> step_ok p 1 d (json_array_loop fuel p items)"
    and "p_rest p \<noteq> [] \<Longrightarrow> step_ok p 1 (p_depth p) (json_parse_object fuel p)"
    and "p_depth p = d + 1 \<Longrightarrow> step_ok p 1 d (json_object_loop fuel p members)"
  using assms by (simp_all add: all_ok_def)

lemma parse_value_step:
  assumes "all_ok fuel"
  shows "step_ok p0 1 (p_depth p0) (json_parse_value (Suc fuel) p0)"
proof -
  define p where "p = json_skip_ws p0"
  have "step_ok p 1 (p_depth p) (json_parse_value (Suc fuel) p0)"
  proof (cases "p_rest p")
    case Nil
    then show ?thesis by (simp add: Let_def p_def [symmetric])
  next
    case (Cons c r)
    have lit: "starts_with l (p_rest p) \<Longrightarrow> length l \<le> length (p_rest p)" for l
      by (auto simp: starts_with_iff)
    have str: "step_ok p 1 (p_depth p) (case json_parse_string p of
        POk s p' \<Rightarrow> POk (JStr s) p' | PErr m i \<Rightarrow> PErr m i | PFuel \<Rightarrow> PFuel)"
      using json_parse_string_ok [of p] by (auto elim!: step_ok_cases)
    show ?thesis
      using all_okD(2,4) [OF assms, of p] lit [of "''true''"] lit [of "''false''"]
        lit [of "''null''"] str json_parse_number_ok [OF Cons]
      by (auto simp: Let_def p_def [symmetric] Cons)
  qed
  then show ?thesis by (simp only: p_def skip_ws_simps step_ok_skip)
qed

lemma array_loop_step:
  assumes "all_ok fuel" and "p_depth p = d + 1"
  shows "step_ok p 1 d (json_array_loop (Suc fuel) p items)"
  using all_okD(1) [OF assms(1), of p]
proof (cases rule: step_ok_cases)
  case (Ok item p1)
  show ?thesis
    unfolding json_array_loop.simps Ok(1) presult.case
    using Ok assms by (intro step_ok_next all_okD(3)) auto
qed auto

lemma object_loop_step:
  assumes "all_ok fuel" and "p_depth p = d + 1"
  shows "step_ok p 1 d (json_object_loop (Suc fuel) p items)"
  using json_parse_string_ok [of p]
proof (cases rule: step_ok_cases)
  case (Ok key p1)
  define p2 where "p2 = json_skip_ws p1"
  define p3 where "p3 = json_skip_ws (adv 1 p2)"
  have "tot p2 = tot p1" "length (p_rest p2) \<le> length (p_rest p1)" "p_depth p2 = p_depth p1"
    by (simp_all only: p2_def skip_ws_simps)
  with Ok assms(2)
  have p2: "tot p2 = tot p" "length (p_rest p2) + 2 \<le> length (p_rest p)" "p_depth p2 = d + 1"
    by auto
  show ?thesis
  proof (cases "at_char p2 CHR '':''")
    case False
    with Ok p2 show ?thesis by (simp add: Let_def p2_def [symmetric])
  next
    case True
    have "tot p3 = tot (adv 1 p2)" "length (p_rest p3) \<le> length (p_rest (adv 1 p2))"
        "p_depth p3 = p_depth p2"
      unfolding p3_def using skip_ws_simps [of "adv 1 p2"] by simp_all
    with True p2
    have p3: "tot p3 = tot p" "length (p_rest p3) + 3 \<le> length (p_rest p)" "p_depth p3 = d + 1"
      by (auto simp: at_char_iff)
    note red = json_object_loop.simps Ok(1) presult.case Let_def
      p2_def [symmetric] p3_def [symmetric]
    show ?thesis
      using all_okD(1) [OF assms(1), of p3]
    proof (cases rule: step_ok_cases)
      case inner: (Ok item p4)
      show ?thesis
        unfolding red inner(1)
        apply (subst if_not_P)
        using True apply simp
        using inner p3 assms
        by (intro all_okD(5) step_ok_next [unfolded Let_def,
              where K = "\<lambda>q. json_object_loop fuel q (items @ [(key, item)])"]) auto
    qed (use True p3 in \<open>auto simp only: red if_not_P not_not step_ok_simps\<close>)
  qed
qed (auto elim: notE [OF json_parse_string_fuel])

lemma parser_all_ok: "all_ok fuel"
proof (induction fuel)
  case 0
  show ?case by (simp add: all_ok_def)
next
  case (Suc fuel)
  have "step_ok p 1 (p_depth p) (json_parse_array (Suc fuel) p)" if "p_rest p \<noteq> []" for p
    unfolding json_parse_array.simps using that Suc by (intro step_ok_open all_okD(3)) auto
  moreover have "step_ok p 1 (p_depth p) (json_parse_object (Suc fuel) p)" if "p_rest p \<noteq> []" for p
    unfolding json_parse_object.simps using that Suc by (intro step_ok_open all_okD(5)) auto
  ultimately show ?case
    unfolding all_ok_def
    using parse_value_step [OF Suc] array_loop_step [OF Suc] object_loop_step [OF Suc] by blast
qed

section \<open>Termination: the fuel is enough\<close>

lemma open_nofuel:
  assumes "p_rest p \<noteq> []" and "\<And>p2. length (p_rest p2) + 1 \<le> length (p_rest p) \<Longrightarrow> K p2 \<noteq> PFuel"
  shows "(let p1 = (adv 1 p)\<lparr>p_depth := p_depth p + 1\<rparr>
      in if p_depth p1 > JSON_MAX_DEPTH then perr p1 m
         else let p2 = json_skip_ws p1
              in if at_char p2 c then POk v ((adv 1 p2)\<lparr>p_depth := p_depth p2 - 1\<rparr>) else K p2) \<noteq> PFuel"
proof -
  have "length (p_rest (json_skip_ws ((adv 1 p)\<lparr>p_depth := p_depth p + 1\<rparr>))) + 1 \<le> length (p_rest p)"
    using assms(1) skip_ws_simps(3) [of "(adv 1 p)\<lparr>p_depth := p_depth p + 1\<rparr>"]
    by (cases "p_rest p") auto
  from assms(2) [OF this] show ?thesis unfolding Let_def by auto
qed

lemma next_nofuel:
  assumes "\<And>p3. length (p_rest p3) \<le> length (p_rest p1) \<Longrightarrow> K p3 \<noteq> PFuel"
  shows "(let p2 = json_skip_ws p1
      in if p_rest p2 = [] then perr p2 m
         else if at_char p2 c then K (json_skip_ws (adv 1 p2))
         else if at_char p2 c' then POk v ((adv 1 p2)\<lparr>p_depth := p_depth p2 - 1\<rparr>)
         else perr p2 m') \<noteq> PFuel"
proof -
  have "length (p_rest (json_skip_ws (adv 1 (json_skip_ws p1)))) \<le> length (p_rest p1)"
    using skip_ws_simps(3) [of "adv 1 (json_skip_ws p1)"] skip_ws_simps(3) [of p1]
    by (simp del: skip_ws_simps)
  from assms [OF this] show ?thesis unfolding Let_def by auto
qed

definition enough :: "nat \<Rightarrow> bool" where
  "enough fuel \<longleftrightarrow>
     (\<forall>p. 3 * length (p_rest p) + 1 \<le> fuel \<longrightarrow> json_parse_value fuel p \<noteq> PFuel) \<and>
     (\<forall>p. p_rest p \<noteq> [] \<longrightarrow> 3 * length (p_rest p) \<le> fuel \<longrightarrow> json_parse_array fuel p \<noteq> PFuel) \<and>
     (\<forall>p items. 3 * length (p_rest p) + 2 \<le> fuel \<longrightarrow> json_array_loop fuel p items \<noteq> PFuel) \<and>
     (\<forall>p. p_rest p \<noteq> [] \<longrightarrow> 3 * length (p_rest p) \<le> fuel \<longrightarrow> json_parse_object fuel p \<noteq> PFuel) \<and>
     (\<forall>p items. 3 * length (p_rest p) + 2 \<le> fuel \<longrightarrow> json_object_loop fuel p items \<noteq> PFuel)"

lemma enoughD:
  assumes "enough fuel"
  shows "3 * length (p_rest p) + 1 \<le> fuel \<Longrightarrow> json_parse_value fuel p \<noteq> PFuel"
    and "p_rest p \<noteq> [] \<Longrightarrow> 3 * length (p_rest p) \<le> fuel \<Longrightarrow> json_parse_array fuel p \<noteq> PFuel"
    and "3 * length (p_rest p) + 2 \<le> fuel \<Longrightarrow> json_array_loop fuel p items \<noteq> PFuel"
    and "p_rest p \<noteq> [] \<Longrightarrow> 3 * length (p_rest p) \<le> fuel \<Longrightarrow> json_parse_object fuel p \<noteq> PFuel"
    and "3 * length (p_rest p) + 2 \<le> fuel \<Longrightarrow> json_object_loop fuel p members \<noteq> PFuel"
  using assms by (simp_all add: enough_def)

lemma parse_value_enough:
  assumes "enough fuel" and "3 * length (p_rest p0) + 1 \<le> Suc fuel"
  shows "json_parse_value (Suc fuel) p0 \<noteq> PFuel"
proof -
  define p where "p = json_skip_ws p0"
  have len: "length (p_rest p) \<le> length (p_rest p0)" by (simp only: p_def skip_ws_simps)
  show ?thesis
  proof (cases "p_rest p")
    case Nil
    then show ?thesis by (simp add: Let_def p_def [symmetric])
  next
    case (Cons c r)
    have "json_parse_array fuel p \<noteq> PFuel" "json_parse_object fuel p \<noteq> PFuel"
      using enoughD(2,4) [OF assms(1), of p] Cons assms(2) len by auto
    moreover have "(case json_parse_string p of POk s p' \<Rightarrow> POk (JStr s) p'
        | PErr m i \<Rightarrow> PErr m i | PFuel \<Rightarrow> PFuel) \<noteq> PFuel"
      using json_parse_string_fuel [of p] by (auto split: presult.splits)
    ultimately show ?thesis
      using json_parse_number_ok [OF Cons]
      by (auto simp: Let_def p_def [symmetric] Cons)
  qed
qed

lemma array_loop_enough:
  assumes "enough fuel" and "3 * length (p_rest p) + 2 \<le> Suc fuel"
  shows "json_array_loop (Suc fuel) p items \<noteq> PFuel"
  using all_okD(1) [OF parser_all_ok, of p fuel]
proof (cases rule: step_ok_cases)
  case (Ok item p1)
  show ?thesis
    unfolding json_array_loop.simps Ok(1) presult.case
    using Ok assms by (intro next_nofuel enoughD(3)) auto
next
  case Fuel
  with enoughD(1) [OF assms(1), of p] assms(2) show ?thesis by simp
qed auto

lemma object_loop_enough:
  assumes "enough fuel" and "3 * length (p_rest p) + 2 \<le> Suc fuel"
  shows "json_object_loop (Suc fuel) p items \<noteq> PFuel"
  using json_parse_string_ok [of p]
proof (cases rule: step_ok_cases)
  case (Ok key p1)
  define p3 where "p3 = json_skip_ws (adv 1 (json_skip_ws p1))"
  have "length (p_rest p3) \<le> length (p_rest p1)"
    unfolding p3_def using skip_ws_simps(3) [of "adv 1 (json_skip_ws p1)"] skip_ws_simps(3) [of p1]
    by (simp del: skip_ws_simps)
  with Ok have len: "length (p_rest p3) + 2 \<le> length (p_rest p)" by simp
  show ?thesis
    using all_okD(1) [OF parser_all_ok, of p3 fuel]
  proof (cases rule: step_ok_cases)
    case inner: (Ok item p4)
    have "length (p_rest p4) + 3 \<le> length (p_rest p)" using inner len by simp
    then have "(let p5 = json_skip_ws p4
         in if p_rest p5 = [] then perr p5 ''unterminated object''
            else if at_char p5 CHR '','' then
              json_object_loop fuel (json_skip_ws (adv 1 p5)) (items @ [(key, item)])
            else if at_char p5 CHR ''}'' then
              POk (JObj (items @ [(key, item)])) ((adv 1 p5)\<lparr>p_depth := p_depth p5 - 1\<rparr>)
            else perr p5 (''expected '' @ quoted CHR '','' @ '' or '' @ quoted CHR ''}'')) \<noteq> PFuel"
      using assms by (intro next_nofuel enoughD(5)) auto
    then show ?thesis
      unfolding json_object_loop.simps Ok(1) presult.case Let_def p3_def [symmetric] inner(1) by simp
  next
    case Fuel
    with enoughD(1) [OF assms(1), of p3] assms(2) len show ?thesis by simp
  qed (simp add: Ok(1) Let_def p3_def)
qed (auto elim: notE [OF json_parse_string_fuel])

lemma parser_enough: "enough fuel"
proof (induction fuel)
  case 0
  show ?case by (simp add: enough_def)
next
  case (Suc fuel)
  have "json_parse_array (Suc fuel) p \<noteq> PFuel"
    if "p_rest p \<noteq> []" "3 * length (p_rest p) \<le> Suc fuel" for p
    unfolding json_parse_array.simps using that Suc by (intro open_nofuel enoughD(3)) auto
  moreover have "json_parse_object (Suc fuel) p \<noteq> PFuel"
    if "p_rest p \<noteq> []" "3 * length (p_rest p) \<le> Suc fuel" for p
    unfolding json_parse_object.simps using that Suc by (intro open_nofuel enoughD(5)) auto
  ultimately show ?case
    unfolding enough_def
    using parse_value_enough [OF Suc] array_loop_enough [OF Suc] object_loop_enough [OF Suc]
    by blast
qed

text \<open>
  C22: \<open>json_parse\<close> returns on every text, with a value or with an error whose byte offset lies
  within the text.
\<close>

theorem json_parse_total:
  "(\<exists>v p. json_parse text = POk v p \<and> p_rest p = [] \<and> p_pos p = length text) \<or>
   (\<exists>m i. json_parse text = PErr m i \<and> i \<le> length text)"
proof -
  let ?p = "\<lparr>p_rest = text, p_pos = 0, p_depth = 0\<rparr>"
  have nf: "json_parse_value (json_fuel text) ?p \<noteq> PFuel"
    using enoughD(1) [OF parser_enough, of ?p "json_fuel text"] by (simp add: json_fuel_def)
  show ?thesis
    using all_okD(1) [OF parser_all_ok, of ?p "json_fuel text"]
  proof (cases rule: step_ok_cases)
    case (Ok v p)
    define p' where "p' = json_skip_ws p"
    have "tot p' = length text" unfolding p'_def using Ok skip_ws_simps(2) [of p] by simp
    with Ok show ?thesis by (auto simp: json_parse_def Let_def p'_def [symmetric])
  next
    case (Err m i)
    then show ?thesis by (auto simp: json_parse_def)
  next
    case Fuel
    with nf show ?thesis by simp
  qed
qed

end
