(* ===== verification/Json_Roundtrip.thy ===== *)
theory Json_Roundtrip
  imports Json_Correct
begin

text \<open>
  The writer and the parser together: \<open>json_parse\<close> reads back what \<open>json_dumps\<close> wrote, for every
  tree within the depth limit whose strings avoid the control characters without a short escape
  and whose numbers survive the six-decimal formatting.
\<close>

section \<open>strtod stops at a delimiter\<close>

definition is_delim :: "char \<Rightarrow> bool" where
  "is_delim c \<longleftrightarrow> c = CHR '','' \<or> c = CHR 0x0A \<or> c = CHR '']'' \<or> c = CHR ''}''"

abbreviation ends :: "string \<Rightarrow> bool" where
  "ends r \<equiv> r = [] \<or> is_delim (hd r)"

lemma is_delim_class:
  "is_delim c \<Longrightarrow> \<not> isdigit c \<and> \<not> is_numchar c \<and> c \<noteq> CHR ''.'' \<and> c \<notin> set ''eE'' \<and>
     c \<noteq> CHR ''+'' \<and> c \<noteq> CHR ''-'' \<and> tolower c \<noteq> CHR ''x''"
  by (auto simp: is_delim_def is_numchar_def isdigit_def tolower_def)

lemma takeWhile_ext: "ys = [] \<or> \<not> P (hd ys) \<Longrightarrow> takeWhile P (xs @ ys) = takeWhile P xs"
  by (induction xs) (cases ys; auto)+

lemma dropWhile_ext:
  "ys = [] \<or> \<not> P (hd ys) \<Longrightarrow> dropWhile P (xs @ ys) = dropWhile P xs @ ys"
  by (induction xs) (cases ys; auto)+

lemma dec_exponent_ext:
  assumes "ends r"
  shows "dec_exponent ''eE'' (s @ r) = dec_exponent ''eE'' s"
proof (cases s)
  case Nil
  with assms show ?thesis
    by (cases r) (auto simp: dec_exponent_def dest: is_delim_class)
next
  case (Cons c t)
  have dg: "r = [] \<or> \<not> isdigit (hd r)" using assms is_delim_class by blast
  show ?thesis
  proof (cases t)
    case Nil
    with Cons assms show ?thesis
      by (cases r) (auto simp: dec_exponent_def Let_def dest: is_delim_class)
  next
    case (Cons d u)
    with \<open>s = c # t\<close> takeWhile_ext [where P = isdigit, OF dg] show ?thesis
      by (auto simp: dec_exponent_def Let_def)
  qed
qed

lemma strtod_dec_ext:
  assumes "ends r"
  shows "strtod_dec neg (s @ r) = strtod_dec neg s"
proof -
  have dg: "r = [] \<or> \<not> isdigit (hd r)" and dot: "r = [] \<or> hd r \<noteq> CHR ''.''"
    using assms is_delim_class by blast+
  define s1 where "s1 = dropWhile isdigit s"
  have dots: "(s1 @ r \<noteq> [] \<and> hd (s1 @ r) = CHR ''.'') = (s1 \<noteq> [] \<and> hd s1 = CHR ''.'')"
    using dot by (cases s1) auto
  have tls: "s1 \<noteq> [] \<Longrightarrow> tl (s1 @ r) = tl s1 @ r" by (cases s1) auto
  show ?thesis
    unfolding strtod_dec_def Let_def
    by (simp add: takeWhile_ext [where P = isdigit, OF dg] dropWhile_ext [where P = isdigit, OF dg] s1_def [symmetric] dots tls
        dec_exponent_ext [OF assms] dec_exponent_ext [OF assms, of "[]", simplified] del: append_is_Nil_conv cong: if_cong conj_cong)
qed

lemma ordc_tolower: "ordc (tolower c) = (if 65 \<le> ordc c \<and> ordc c \<le> 90 then ordc c + 32 else ordc c)"
  by (simp add: tolower_def)

lemma lower_starts_0x:
  "lower_starts ''0x'' w \<longleftrightarrow>
     (\<exists>a b v. w = a # b # v \<and> tolower a = CHR ''0'' \<and> tolower b = CHR ''x'')"
  by (cases w; cases "tl w") (auto simp: lower_starts_def)

lemma lower_starts_head: "lower_starts (l # ls) w \<Longrightarrow> \<exists>a v. w = a # v \<and> tolower a = l"
  by (cases w) (auto simp: lower_starts_def)

lemma numchar_not_letter: "is_numchar a \<Longrightarrow> tolower a \<noteq> CHR ''i'' \<and> tolower a \<noteq> CHR ''n''"
proof -
  assume "is_numchar a"
  then have "ordc (tolower a) \<noteq> 105 \<and> ordc (tolower a) \<noteq> 110"
    by (auto simp: is_numchar_def isdigit_def ordc_tolower)
  then show ?thesis by auto
qed

lemma strtod_ext:
  assumes "strtod t = (d, length t, er)" and "t \<noteq> []" and "list_all is_numchar t" and "ends r"
  shows "strtod (t @ r) = (d, length t, er)"
proof -
  from assms(2,3) obtain c u where t: "t = c # u" and c: "is_numchar c" and u: "list_all is_numchar u"
    by (cases t) auto
  from c have sp: "\<not> isspace c" by (auto simp: is_numchar_def isspace_def isdigit_def)
  define s2 where "s2 = (if c = CHR ''+'' \<or> c = CHR ''-'' then u else t)"
  have s2: "list_all is_numchar s2" using u assms(3) by (simp add: s2_def)
  have nx: "\<not> lower_starts ''0x'' (s2 @ r)"
  proof
    assume "lower_starts ''0x'' (s2 @ r)"
    then obtain a b v where ab: "s2 @ r = a # b # v" "tolower a = CHR ''0''" "tolower b = CHR ''x''"
      by (auto simp: lower_starts_0x)
    have "is_numchar b \<or> is_delim b \<or> is_delim a"
      using ab(1) s2 assms(4) by (cases s2; cases "tl s2"; cases r) auto
    moreover have "ordc (tolower a) = 48" "ordc (tolower b) = 120" by (simp_all add: ab(2,3))
    ultimately show False
      by (auto simp: is_numchar_def is_delim_def isdigit_def ordc_tolower split: if_splits)
  qed
  have nx': "\<not> lower_starts ''0x'' s2"
    using nx by (auto simp: lower_starts_0x)
  have ni: "\<not> lower_starts ''infinity'' s2" "\<not> lower_starts ''inf'' s2" "\<not> lower_starts ''nan'' s2"
    using s2 by (auto dest!: lower_starts_head dest: numchar_not_letter)
  define neg where "neg = (c = CHR ''-'')"
  define pre where "pre = (if c = CHR ''+'' \<or> c = CHR ''-'' then 1 else 0 :: nat)"
  have body: "strtod (t @ r') = strtod_body neg pre (s2 @ r')" for r'
    by (simp add: strtod_def t sp Let_def neg_def pre_def s2_def)
  have "strtod t = (case strtod_dec neg s2 of
      Some (v, k, er) \<Rightarrow> (v, pre + k, er) | None \<Rightarrow> (d0, 0, False))"
    using nx' ni body [of "[]"] by (simp add: strtod_body_def)
  with assms(1,2) obtain k where k: "strtod_dec neg s2 = Some (d, k, er)" "length t = pre + k"
    by (auto split: option.splits prod.splits)
  have "strtod_dec neg (s2 @ r) = Some (d, k, er)"
    using k(1) strtod_dec_ext [OF assms(4)] by simp
  with nx k(2) body [of r] show ?thesis by (simp add: strtod_body_def)
qed

section \<open>Writable trees\<close>

definition json_ok_char :: "char \<Rightarrow> bool" where
  "json_ok_char c \<longleftrightarrow> 0x20 \<le> ordc c \<or> ordc c \<in> {8, 9, 10, 12, 13}"

definition json_num_ok :: "cdouble \<Rightarrow> bool" where
  "json_num_ok d = (let t = fmt_number d in
     t \<noteq> [] \<and> (hd t = CHR ''-'' \<or> isdigit (hd t)) \<and> list_all is_numchar t \<and> list_ex isdigit t \<and>
     strtod t = (d, length t, False))"

fun json_writable :: "json_value \<Rightarrow> bool" where
  "json_writable JNull = True"
| "json_writable (JBool b) = True"
| "json_writable (JNum d) = json_num_ok d"
| "json_writable (JStr s) = list_all json_ok_char s"
| "json_writable (JArr vs) = list_all json_writable vs"
| "json_writable (JObj kvs) = list_all (\<lambda>(k, v). list_all json_ok_char k \<and> json_writable v) kvs"

fun json_depth :: "json_value \<Rightarrow> nat" where
  "json_depth (JArr vs) = Suc (fold max (map json_depth vs) 0)"
| "json_depth (JObj kvs) = Suc (fold max (map (\<lambda>(k, v). json_depth v) kvs) 0)"
| "json_depth _ = 0"

lemma depth_le_fold: "x \<in> set xs \<Longrightarrow> x \<le> fold max xs (m::nat)"
  using fold_max_le [of xs m "fold max xs m"] by blast

lemma depth_arr: "v \<in> set vs \<Longrightarrow> Suc (json_depth v) \<le> json_depth (JArr vs)"
  by (simp add: depth_le_fold)

lemma depth_obj: "(k, v) \<in> set kvs \<Longrightarrow> Suc (json_depth v) \<le> json_depth (JObj kvs)"
  by (force intro!: depth_le_fold)

section \<open>Reading what was written\<close>

abbreviation st :: "string \<Rightarrow> nat \<Rightarrow> nat \<Rightarrow> json_parser" where
  "st r i d \<equiv> \<lparr>p_rest = r, p_pos = i, p_depth = d\<rparr>"

lemma adv_st [simp]: "adv n (st r i d) = st (drop n r) (i + n) d"
  by (simp add: adv_def)

lemma at_char_st [simp]: "at_char (st (c # r) i d) c' \<longleftrightarrow> c = c'" "\<not> at_char (st [] i d) c'"
  by (simp_all add: at_char_def)

lemma skip_ws_st:
  assumes "list_all is_json_ws w" and "r = [] \<or> \<not> is_json_ws (hd r)"
  shows "json_skip_ws (st (w @ r) i d) = st r (i + length w) d"
proof -
  have "takeWhile is_json_ws (w @ r) = w"
    using assms takeWhile_run [of w is_json_ws r] by (auto simp: list_all_iff)
  then show ?thesis by (simp add: json_skip_ws_def)
qed

lemmas skip_ws_none = skip_ws_st [of "[]", simplified]

lemma ws_indent [simp]: "list_all is_json_ws (newline_indent n)"
  by (simp add: is_json_ws_def list_all_iff)

lemma unescape_escape:
  assumes "json_ok_char c"
  shows "json_string_body d (escape_char c @ r) i acc =
    json_string_body d r (i + length (escape_char c)) (acc @ [c])"
proof (cases "0x20 \<le> ordc c")
  case True
  then show ?thesis
    by (auto simp: escape_char_def json_unescape_def)
next
  case False
  with assms have "c \<in> {CHR 0x08, CHR 0x09, CHR 0x0A, CHR 0x0C, CHR 0x0D}"
    by (intro control_cases) (simp add: json_ok_char_def)
  then show ?thesis
    by (auto simp: escape_char_def json_unescape_def)
qed

lemma string_body_roundtrip:
  "list_all json_ok_char s \<Longrightarrow>
   \<exists>j. json_string_body d (concat (map escape_char s) @ CHR 0x22 # r) i acc = POk (acc @ s) (st r j d)"
proof (induction s arbitrary: i acc)
  case (Cons c s)
  from Cons.prems Cons.IH [of "i + length (escape_char c)" "acc @ [c]"] show ?case
    by (simp add: unescape_escape)
qed simp

lemma parse_string_roundtrip:
  "list_all json_ok_char s \<Longrightarrow>
   \<exists>j. json_parse_string (st (escape_string s @ r) i d) = POk s (st r j d)"
  using string_body_roundtrip [of s d r "i + 1" "[]"]
  by (simp add: json_parse_string_def escape_string_def)

lemma parse_number_roundtrip:
  assumes "json_num_ok x" and "ends r"
  shows "json_parse_number (st (fmt_number x @ r) i d) = POk (JNum x) (st r (i + length (fmt_number x)) d)"
proof -
  define t where "t = fmt_number x"
  have t: "t \<noteq> []" "list_all is_numchar t" "list_ex isdigit t" "strtod t = (x, length t, False)"
    using assms(1) by (auto simp: json_num_ok_def Let_def t_def)
  have "takeWhile is_numchar (t @ r) = t"
    using t(2) assms(2) is_delim_class takeWhile_run [of t is_numchar r] by (auto simp: list_all_iff)
  moreover have "strtod (t @ r) = (x, length t, False)" using strtod_ext [OF t(4,1,2) assms(2)] .
  ultimately show ?thesis using t(3) by (simp add: json_parse_number_def t_def [symmetric])
qed

lemma digit_head: "isdigit c \<or> c = CHR ''-'' \<Longrightarrow> c \<notin> set ''{[tfn]'' \<and> c \<noteq> CHR 0x22 \<and> \<not> is_json_ws c"
  by (auto simp: isdigit_def is_json_ws_def)

lemma dump_head:
  "json_writable v \<Longrightarrow>
   dump_value v l \<noteq> [] \<and> \<not> is_json_ws (hd (dump_value v l)) \<and> hd (dump_value v l) \<noteq> CHR '']''"
proof (cases v)
  case (JNum d)
  moreover assume "json_writable v"
  ultimately show ?thesis using digit_head [of "hd (fmt_number d)"]
    by (auto simp: json_num_ok_def Let_def)
qed (auto simp: is_json_ws_def escape_string_def)

definition rt :: "json_value \<Rightarrow> bool" where
  "rt v \<longleftrightarrow> (\<forall>fuel l i d w r. list_all is_json_ws w \<longrightarrow> ends r \<longrightarrow> d + json_depth v \<le> JSON_MAX_DEPTH \<longrightarrow>
     3 * length (w @ dump_value v l @ r) + 1 \<le> fuel \<longrightarrow>
     (\<exists>j. json_parse_value fuel (st (w @ dump_value v l @ r) i d) = POk v (st r j d)))"

lemma rtD:
  assumes "rt v" "list_all is_json_ws w" "ends r" "d + json_depth v \<le> JSON_MAX_DEPTH"
    "3 * length (w @ dump_value v l @ r) + 1 \<le> fuel"
  obtains j where "json_parse_value fuel (st (w @ dump_value v l @ r) i d) = POk v (st r j d)"
  using assms unfolding rt_def by blast

text \<open>The parser at a value: white space is skipped and the first byte decides.\<close>

lemma parse_value_st:
  assumes "list_all is_json_ws w" and "json_writable v"
  shows "json_skip_ws (st (w @ dump_value v l @ r) i d) = st (dump_value v l @ r) (i + length w) d"
  using assms dump_head [OF assms(2), of l] by (intro skip_ws_st) auto

lemma rt_leaf:
  assumes "json_writable v" and "json_depth v = 0"
    and "\<And>fuel l i d r. ends r \<Longrightarrow> (\<exists>j. json_parse_value (Suc fuel) (st (dump_value v l @ r) i d) = POk v (st r j d))"
  shows "rt v"
  unfolding rt_def
proof (intro allI impI)
  fix fuel l i d w r
  assume w: "list_all is_json_ws w" and r: "ends r"
    and fuel: "3 * length (w @ dump_value v l @ r) + 1 \<le> fuel"
  obtain fuel' where [simp]: "fuel = Suc fuel'" using fuel by (cases fuel) auto
  have "json_parse_value fuel (st (w @ dump_value v l @ r) i d) =
      json_parse_value fuel (st (dump_value v l @ r) (i + length w) d)"
    using parse_value_st [OF w assms(1)] parse_value_st [of "[]", OF _ assms(1)] by simp
  with assms(3) [OF r] show "\<exists>j. json_parse_value fuel (st (w @ dump_value v l @ r) i d) = POk v (st r j d)"
    by simp
qed

lemma rt_num: "json_num_ok x \<Longrightarrow> rt (JNum x)"
proof (rule rt_leaf)
  fix fuel l i d r
  assume x: "json_num_ok x" and r: "ends r"
  obtain c t where t: "fmt_number x = c # t" and c: "isdigit c \<or> c = CHR ''-''"
    using x by (cases "fmt_number x") (auto simp: json_num_ok_def Let_def)
  have "json_parse_value (Suc fuel) (st (fmt_number x @ r) i d) = json_parse_number (st (fmt_number x @ r) i d)"
  proof -
    have "\<not> is_json_ws c" "c \<noteq> CHR ''{''" "c \<noteq> CHR ''[''" "c \<noteq> CHR 0x22" "c \<noteq> CHR ''t''" "c \<noteq> CHR ''f''"
      "c \<noteq> CHR ''n''"
      using digit_head [OF c] by simp_all
    moreover have "c = CHR ''-'' \<or> isdigit c" using c by blast
    ultimately show ?thesis by (simp add: t skip_ws_none)
  qed
  with parse_number_roundtrip [OF x r]
  show "\<exists>j. json_parse_value (Suc fuel) (st (dump_value (JNum x) l @ r) i d) = POk (JNum x) (st r j d)"
    by simp
qed simp_all

lemma rt_str: "list_all json_ok_char s \<Longrightarrow> rt (JStr s)"
proof (rule rt_leaf)
  fix fuel l i d r
  assume s: "list_all json_ok_char s"
  obtain u where h: "escape_string s @ r = CHR 0x22 # u" by (simp add: escape_string_def)
  obtain j where "json_parse_string (st (CHR 0x22 # u) i d) = POk s (st r j d)"
    using parse_string_roundtrip [OF s, of r i d] unfolding h by blast
  then have "json_parse_value (Suc fuel) (st (escape_string s @ r) i d) = POk (JStr s) (st r j d)"
    unfolding h by (simp add: skip_ws_none is_json_ws_def)
  then show "\<exists>j. json_parse_value (Suc fuel) (st (dump_value (JStr s) l @ r) i d) = POk (JStr s) (st r j d)"
    by simp
qed simp_all

lemma rt_const: "rt JNull" "rt (JBool b)"
  by (rule rt_leaf; simp add: skip_ws_none is_json_ws_def)+

text \<open>The delimiters between members and the closing bracket.\<close>

lemma skip_close:
  "c \<in> set '']}'' \<Longrightarrow> json_skip_ws (st (newline_indent l @ c # r) i d) = st (c # r) (i + length (newline_indent l)) d"
  by (rule skip_ws_st) (auto simp: is_json_ws_def list_all_iff)

lemma array_loop_roundtrip:
  assumes "\<forall>v \<in> set (v # vs). rt v \<and> json_writable v \<and> d + json_depth v \<le> JSON_MAX_DEPTH"
    and "3 * length (w @ dump_value v (l + 1) @ (if vs = [] then [] else CHR '','' # dump_items vs l) @
           newline_indent l @ CHR '']'' # r) + 2 \<le> fuel"
  shows "\<exists>j. json_array_loop fuel (st (dump_value v (l + 1) @
      (if vs = [] then [] else CHR '','' # dump_items vs l) @ newline_indent l @ CHR '']'' # r) i d) acc =
    POk (JArr (acc @ v # vs)) (st r j (d - 1))"
  using assms
proof (induction vs arbitrary: v w fuel i acc)
  case Nil
  obtain f where f: "fuel = Suc f" using Nil.prems(2) by (cases fuel) auto
  obtain j where "json_parse_value f (st ([] @ dump_value v (l + 1) @ newline_indent l @ CHR '']'' # r) i d) =
      POk v (st (newline_indent l @ CHR '']'' # r) j d)"
    by (rule rtD [of v "[]" "newline_indent l @ CHR '']'' # r" d "l + 1" f i])
      (use Nil.prems f in \<open>auto simp: is_delim_def\<close>)
  then show ?case
    using skip_close [of "CHR '']''" l r j d] by (auto simp: f Let_def)
next
  case (Cons v' vs)
  define k where "k = dump_value v' (l + 1) @ (if vs = [] then [] else CHR '','' # dump_items vs l) @
      newline_indent l @ CHR '']'' # r"
  have items: "dump_items (v' # vs) l @ newline_indent l @ CHR '']'' # r = newline_indent (l + 1) @ k"
    by (simp add: k_def)
  obtain f where f: "fuel = Suc f" using Cons.prems(2) by (cases fuel) auto
  have len: "3 * length (w @ dump_value v (l + 1) @ CHR '','' # newline_indent (l + 1) @ k) + 2 \<le> Suc f"
    using Cons.prems(2) unfolding f k_def by simp
  have v': "json_writable v'" using Cons.prems(1) by simp
  obtain j where 1: "json_parse_value f (st ([] @ dump_value v (l + 1) @ CHR '','' # newline_indent (l + 1) @ k) i d) =
      POk v (st (CHR '','' # newline_indent (l + 1) @ k) j d)"
    by (rule rtD [of v "[]" "CHR '','' # newline_indent (l + 1) @ k" d "l + 1" f i])
      (use Cons.prems(1) len in \<open>auto simp: is_delim_def\<close>)
  have 2: "json_skip_ws (st (newline_indent (l + 1) @ k) (j + 1) d) = st k (j + 1 + length (newline_indent (l + 1))) d"
    using dump_head [OF v', of "l + 1"] unfolding k_def by (intro skip_ws_st ws_indent) auto
  have 3: "\<exists>j'. json_array_loop f (st k (j + 1 + length (newline_indent (l + 1))) d) (acc @ [v]) =
      POk (JArr ((acc @ [v]) @ v' # vs)) (st r j' (d - 1))"
    unfolding k_def
    by (rule Cons.IH [where w = "newline_indent (l + 1)"]) (use Cons.prems(1) len in \<open>auto simp: k_def\<close>)
  have sw: "json_skip_ws (st (CHR '','' # z) j d) = st (CHR '','' # z) j d" for z
    by (simp add: skip_ws_none is_json_ws_def)
  show ?case
    using 1 2 3 unfolding items [symmetric] f
    by (simp add: sw Let_def del: dump_items.simps)
qed

lemma object_loop_roundtrip:
  assumes "\<forall>(k, v) \<in> set ((k, v) # kvs). list_all json_ok_char k \<and> rt v \<and> json_writable v \<and>
      d + json_depth v \<le> JSON_MAX_DEPTH"
    and "3 * length (w @ escape_string k @ '': '' @ dump_value v (l + 1) @
           (if kvs = [] then [] else CHR '','' # dump_members kvs l) @
           newline_indent l @ CHR ''}'' # r) + 2 \<le> fuel"
  shows "\<exists>j. json_object_loop fuel (st (escape_string k @ '': '' @ dump_value v (l + 1) @
      (if kvs = [] then [] else CHR '','' # dump_members kvs l) @ newline_indent l @ CHR ''}'' # r) i d) acc =
    POk (JObj (acc @ (k, v) # kvs)) (st r j (d - 1))"
  using assms
proof (induction kvs arbitrary: k v w fuel i acc)
  case Nil
  obtain f where f: "fuel = Suc f" using Nil.prems(2) by (cases fuel) auto
  define z where "z = newline_indent l @ CHR ''}'' # r"
  have p: "list_all json_ok_char k" "json_writable v" "rt v" "d + json_depth v \<le> JSON_MAX_DEPTH"
    and z: "ends z" using Nil.prems(1) by (auto simp: z_def is_delim_def)
  obtain j where 1: "json_parse_string (st (escape_string k @ '': '' @ dump_value v (l + 1) @ z) i d) =
      POk k (st ('': '' @ dump_value v (l + 1) @ z) j d)"
    using parse_string_roundtrip [OF p(1)] by blast
  have 2: "json_skip_ws (st ('' '' @ dump_value v (l + 1) @ z) (j + 1) d) = st (dump_value v (l + 1) @ z) (j + 2) d"
    using parse_value_st [of "'' ''", OF _ p(2)] by (simp add: is_json_ws_def)
  obtain j' where 3: "json_parse_value f (st ([] @ dump_value v (l + 1) @ z) (j + 2) d) = POk v (st z j' d)"
    by (rule rtD [OF p(3) _ z p(4), of "[]" "l + 1" f "j + 2"])
      (use Nil.prems(2) f in \<open>auto simp: z_def\<close>)
  have 4: "json_skip_ws (st z j' d) = st (CHR ''}'' # r) (j' + length (newline_indent l)) d"
    using skip_close [of "CHR ''}''" l r j' d] by (simp add: z_def)
  have "\<exists>j. json_object_loop fuel (st (escape_string k @ '': '' @ dump_value v (l + 1) @ z) i d) acc =
      POk (JObj (acc @ [(k, v)])) (st r j (d - 1))"
    using 1 2 3 4 unfolding f by (simp add: skip_ws_none is_json_ws_def)
  then show ?case by (simp add: z_def)
next
  case (Cons kv kvs)
  obtain k' v' where kv: "kv = (k', v')" by (cases kv)
  define y where "y = escape_string k' @ '': '' @ dump_value v' (l + 1) @
      (if kvs = [] then [] else CHR '','' # dump_members kvs l) @ newline_indent l @ CHR ''}'' # r"
  define z where "z = CHR '','' # newline_indent (l + 1) @ y"
  obtain f where f: "fuel = Suc f" using Cons.prems(2) by (cases fuel) auto
  have p: "list_all json_ok_char k" "json_writable v" "rt v" "d + json_depth v \<le> JSON_MAX_DEPTH"
    and z: "ends z" using Cons.prems(1) by (auto simp: z_def is_delim_def)
  have members: "CHR '','' # dump_members (kv # kvs) l @ newline_indent l @ CHR ''}'' # r = z"
    by (simp add: z_def y_def kv)
  have len: "3 * length (w @ escape_string k @ '': '' @ dump_value v (l + 1) @ z) + 2 \<le> Suc f"
    using Cons.prems(2) unfolding f by (simp add: z_def y_def kv)
  obtain j where 1: "json_parse_string (st (escape_string k @ '': '' @ dump_value v (l + 1) @ z) i d) =
      POk k (st ('': '' @ dump_value v (l + 1) @ z) j d)"
    using parse_string_roundtrip [OF p(1)] by blast
  have 2: "json_skip_ws (st ('' '' @ dump_value v (l + 1) @ z) (j + 1) d) = st (dump_value v (l + 1) @ z) (j + 2) d"
    using parse_value_st [of "'' ''", OF _ p(2)] by (simp add: is_json_ws_def)
  obtain j' where 3: "json_parse_value f (st ([] @ dump_value v (l + 1) @ z) (j + 2) d) = POk v (st z j' d)"
    by (rule rtD [OF p(3) _ z p(4), of "[]" "l + 1" f "j + 2"]) (use len in auto)
  have 4: "json_skip_ws (st (newline_indent (l + 1) @ y) (j' + 1) d) = st y (j' + 1 + length (newline_indent (l + 1))) d"
    unfolding y_def by (intro skip_ws_st ws_indent) (auto simp: escape_string_def is_json_ws_def)
  have 5: "\<exists>j''. json_object_loop f (st y (j' + 1 + length (newline_indent (l + 1))) d) (acc @ [(k, v)]) =
      POk (JObj ((acc @ [(k, v)]) @ (k', v') # kvs)) (st r j'' (d - 1))"
    unfolding y_def
    by (rule Cons.IH [where w = "newline_indent (l + 1)"]) (use Cons.prems(1) len in \<open>auto simp: y_def z_def kv\<close>)
  have sw: "json_skip_ws (st z j' d) = st z j' d" "json_skip_ws (st ('': '' @ x) j d) = st ('': '' @ x) j d" for x
    by (simp_all add: skip_ws_none is_json_ws_def z_def)
  have "json_object_loop fuel (st (escape_string k @ '': '' @ dump_value v (l + 1) @ z) i d) acc =
      json_object_loop f (json_skip_ws (st (newline_indent (l + 1) @ y) (j' + 1) d)) (acc @ [(k, v)])"
    using 1 2 3 sw unfolding f by (auto simp: z_def)
  with 4 5 members show ?case by (simp add: kv del: dump_members.simps)
qed

lemma rt_arr:
  assumes "\<forall>v \<in> set vs. rt v" and "json_writable (JArr vs)"
  shows "rt (JArr vs)"
  unfolding rt_def
proof (intro allI impI)
  fix fuel l i d w r
  assume w: "list_all is_json_ws w" and r: "ends r" and d: "d + json_depth (JArr vs) \<le> JSON_MAX_DEPTH"
    and fuel: "3 * length (w @ dump_value (JArr vs) l @ r) + 1 \<le> fuel"
  obtain f where f: "fuel = Suc (Suc f)" using fuel by (cases fuel; cases "fuel - 1") auto
  have open1: "json_parse_value fuel (st (w @ dump_value (JArr vs) l @ r) i d) =
      json_parse_array (Suc f) (st (dump_value (JArr vs) l @ r) (i + length w) d)"
    unfolding f json_parse_value.simps parse_value_st [OF w assms(2)] by simp
  show "\<exists>j. json_parse_value fuel (st (w @ dump_value (JArr vs) l @ r) i d) = POk (JArr vs) (st r j d)"
  proof (cases vs)
    case Nil
    with d show ?thesis unfolding open1 by (simp add: skip_ws_none is_json_ws_def)
  next
    case (Cons v us)
    define k where "k = dump_value v (l + 1) @ (if us = [] then [] else CHR '','' # dump_items us l) @
      newline_indent l @ CHR '']'' # r"
    have text_eq: "dump_value (JArr vs) l @ r = CHR ''['' # newline_indent (l + 1) @ k"
      by (simp add: Cons k_def)
    have hd: "k \<noteq> []" "\<not> is_json_ws (hd k)" "hd k \<noteq> CHR '']''"
      using dump_head [of v "l + 1"] assms(2) by (auto simp: k_def Cons)
    have sk: "json_skip_ws (st (newline_indent (l + 1) @ k) i' d') = st k (i' + length (newline_indent (l + 1))) d'" for i' d'
      using hd by (intro skip_ws_st ws_indent) auto
    have "\<exists>j. json_array_loop f (st k i' (d + 1)) [] = POk (JArr ([] @ v # us)) (st r j (d + 1 - 1))" for i'
      unfolding k_def
    proof (rule array_loop_roundtrip [where w = "newline_indent (l + 1)"])
      show "\<forall>x \<in> set (v # us). rt x \<and> json_writable x \<and> d + 1 + json_depth x \<le> JSON_MAX_DEPTH"
      proof
        fix x assume x: "x \<in> set (v # us)"
        with d depth_arr [of x vs] have "d + 1 + json_depth x \<le> JSON_MAX_DEPTH" by (auto simp: Cons)
        with x assms show "rt x \<and> json_writable x \<and> d + 1 + json_depth x \<le> JSON_MAX_DEPTH"
          by (auto simp: Cons list_all_iff)
      qed
      show "3 * length (newline_indent (l + 1) @ dump_value v (l + 1) @
          (if us = [] then [] else CHR '','' # dump_items us l) @ newline_indent l @ CHR '']'' # r) + 2 \<le> f"
        using fuel f by (auto simp: Cons)
    qed
    moreover have "\<not> at_char (st k i' d') CHR '']''" for i' d' using hd by (cases k) auto
    ultimately show ?thesis
      unfolding text_eq open1 [unfolded text_eq] using d sk by (simp add: Cons)
  qed
qed

lemma rt_obj:
  assumes "\<forall>(k, v) \<in> set kvs. rt v" and "json_writable (JObj kvs)"
  shows "rt (JObj kvs)"
  unfolding rt_def
proof (intro allI impI)
  fix fuel l i d w r
  assume w: "list_all is_json_ws w" and r: "ends r" and d: "d + json_depth (JObj kvs) \<le> JSON_MAX_DEPTH"
    and fuel: "3 * length (w @ dump_value (JObj kvs) l @ r) + 1 \<le> fuel"
  obtain f where f: "fuel = Suc (Suc f)" using fuel by (cases fuel; cases "fuel - 1") auto
  have open1: "json_parse_value fuel (st (w @ dump_value (JObj kvs) l @ r) i d) =
      json_parse_object (Suc f) (st (dump_value (JObj kvs) l @ r) (i + length w) d)"
    unfolding f json_parse_value.simps parse_value_st [OF w assms(2)] by simp
  show "\<exists>j. json_parse_value fuel (st (w @ dump_value (JObj kvs) l @ r) i d) = POk (JObj kvs) (st r j d)"
  proof (cases kvs)
    case Nil
    with d show ?thesis unfolding open1 by (simp add: skip_ws_none is_json_ws_def)
  next
    case (Cons kv us)
    obtain k v where kv: "kv = (k, v)" by (cases kv)
    define y where "y = escape_string k @ '': '' @ dump_value v (l + 1) @
      (if us = [] then [] else CHR '','' # dump_members us l) @ newline_indent l @ CHR ''}'' # r"
    have text_eq: "dump_value (JObj kvs) l @ r = CHR ''{'' # newline_indent (l + 1) @ y"
      by (simp add: Cons y_def kv)
    have sk: "json_skip_ws (st (newline_indent (l + 1) @ y) i' d') = st y (i' + length (newline_indent (l + 1))) d'" for i' d'
      by (intro skip_ws_st ws_indent) (auto simp: y_def escape_string_def is_json_ws_def)
    have "\<exists>j. json_object_loop f (st y i' (d + 1)) [] = POk (JObj ([] @ (k, v) # us)) (st r j (d + 1 - 1))" for i'
      unfolding y_def
    proof (rule object_loop_roundtrip [where w = "newline_indent (l + 1)"])
      show "\<forall>(k, v) \<in> set ((k, v) # us). list_all json_ok_char k \<and> rt v \<and> json_writable v \<and>
          d + 1 + json_depth v \<le> JSON_MAX_DEPTH"
      proof clarify
        fix x u assume x: "(x, u) \<in> set ((k, v) # us)"
        with d depth_obj [of x u kvs] have "d + 1 + json_depth u \<le> JSON_MAX_DEPTH" by (auto simp: Cons kv)
        with x assms show "list_all json_ok_char x \<and> rt u \<and> json_writable u \<and> d + 1 + json_depth u \<le> JSON_MAX_DEPTH"
          by (auto simp: Cons kv list_all_iff)
      qed
      show "3 * length (newline_indent (l + 1) @ escape_string k @ '': '' @ dump_value v (l + 1) @
          (if us = [] then [] else CHR '','' # dump_members us l) @ newline_indent l @ CHR ''}'' # r) + 2 \<le> f"
        using fuel f by (auto simp: Cons kv)
    qed
    moreover have "\<not> at_char (st y i' d') CHR ''}''" for i' d' by (simp add: y_def escape_string_def)
    ultimately show ?thesis
      unfolding text_eq open1 [unfolded text_eq] using d sk by (simp add: Cons kv)
  qed
qed

lemma rt_writable: "json_writable v \<Longrightarrow> rt v"
proof (induction v rule: json_writable.induct)
  case (5 vs)
  then show ?case by (intro rt_arr) (auto simp: list_all_iff)
next
  case (6 kvs)
  then show ?case by (intro rt_obj) (auto simp: list_all_iff)
qed (simp_all add: rt_const rt_num rt_str)

lemma json_roundtrip_tree:
  assumes "json_writable v" and "json_depth v \<le> JSON_MAX_DEPTH"
    and "json_dumps (Some v) = Some text"
  shows "\<exists>p. json_parse text = POk v p"
proof -
  have written: "text = [] @ dump_value v 0 @ []" using assms(3) by (simp add: json_dumps_def)
  obtain j where "json_parse_value (json_fuel text) (st ([] @ dump_value v 0 @ []) 0 0) = POk v (st [] j 0)"
    by (rule rtD [OF rt_writable [OF assms(1)], of "[]" "[]" 0 0 "json_fuel text" 0])
      (use assms(2) written in \<open>auto simp: json_fuel_def\<close>)
  then show ?thesis by (simp add: json_parse_def written skip_ws_none)
qed

text \<open>
  The writer escapes the other control characters as backslash-u sequences, which the
  parser of the same file rejects: such a document cannot be read back.
\<close>

lemma json_control_not_readable:
  assumes "\<not> json_ok_char c"
  shows "json_parse (dump_value (JStr [c]) 0) = PErr (CHR 0x5C # ''u escapes not supported'') 2"
proof -
  have o: "ordc c < 32" "ordc c \<notin> {8, 9, 10, 12, 13}" using assms by (auto simp: json_ok_char_def)
  then have ne: "c \<noteq> CHR 0x22" "c \<noteq> CHR 0x5C" "c \<noteq> CHR 0x0A" "c \<noteq> CHR 0x09" "c \<noteq> CHR 0x0D" "c \<noteq> CHR 0x08" "c \<noteq> CHR 0x0C"
    by auto
  obtain u where e: "escape_char c = CHR 0x5C # CHR ''u'' # u" using ne o by (simp add: escape_char_def)
  obtain f where f: "json_fuel (dump_value (JStr [c]) 0) = Suc f" by (simp add: json_fuel_def)
  have "json_parse_value (Suc f) (st (dump_value (JStr [c]) 0) 0 0) =
      PErr (CHR 0x5C # ''u escapes not supported'') 2"
    by (simp add: escape_string_def e skip_ws_none is_json_ws_def json_parse_string_def)
  then show ?thesis unfolding json_parse_def f by simp
qed

end
