(* ===== verification/Airmouse.thy ===== *)
theory Airmouse
  imports CDouble
begin

text \<open>
  \<^verbatim>\<open>tools/src/airmouse.c\<close>: the airmouse engine, its low-pass filter on frame deltas and the
  spring-back gate.

  A C array of three doubles is a triple. The casts to \<^verbatim>\<open>int\<close> of the movement are options, \<open>None\<close>
  where the cast is undefined.
\<close>

type_synonym vec3 = "cdouble \<times> cdouble \<times> cdouble"

fun vmap2 :: "(cdouble \<Rightarrow> cdouble \<Rightarrow> cdouble) \<Rightarrow> vec3 \<Rightarrow> vec3 \<Rightarrow> vec3" where
  "vmap2 f (x, y, z) (x', y', z') = (f x x', f y y', f z z')"

fun vlist :: "vec3 \<Rightarrow> cdouble list" where
  "vlist (x, y, z) = [x, y, z]"

abbreviation vzero :: vec3 where
  "vzero \<equiv> (d0, d0, d0)"

section \<open>State\<close>

record airmouse =
  am_alpha :: cdouble
  am_prev :: vec3
  am_raw_prev :: vec3
  am_have_raw :: bool
  am_scale :: cdouble
  gate_on :: bool
  gate_lo :: cdouble
  gate_hi :: cdouble
  gate_a :: cdouble
  gate_latch :: int
  latch_left :: int
  gate_open :: bool
  a_absent :: bool
  a_base :: vec3

text \<open>The zeroed structure the daemon's pipeline starts from.\<close>

definition airmouse_zeroed :: airmouse where
  "airmouse_zeroed =
     \<lparr>am_alpha = d0, am_prev = vzero, am_raw_prev = vzero, am_have_raw = False, am_scale = d0, gate_on = False,
      gate_lo = d0, gate_hi = d0, gate_a = d0, gate_latch = 0, latch_left = 0, gate_open = False,
      a_absent = False, a_base = vzero\<rparr>"

text \<open>\<open>airmouse_init\<close> leaves \<^verbatim>\<open>raw_prev\<close> as it was.\<close>

definition airmouse_init :: "airmouse \<Rightarrow> cdouble \<Rightarrow> cdouble \<Rightarrow> airmouse" where
  "airmouse_init a alpha scale =
     a\<lparr>am_alpha := alpha, am_scale := scale, am_prev := vzero, am_have_raw := False, gate_on := True,
       gate_lo := dlit 60 1, gate_hi := dlit 400 1, gate_a := dlit 2 100, gate_latch := 10,
       latch_left := 0, gate_open := True, a_absent := True, a_base := vzero\<rparr>"

definition airmouse_gate_cfg :: "airmouse \<Rightarrow> bool \<Rightarrow> cdouble \<Rightarrow> cdouble \<Rightarrow> airmouse" where
  "airmouse_gate_cfg a on lo hi = a\<lparr>gate_on := on, gate_lo := lo, gate_hi := hi\<rparr>"

section \<open>The gate\<close>

definition gate_dev :: "vec3 \<Rightarrow> vec3 \<Rightarrow> cdouble" where
  "gate_dev acc base =
     foldl (\<lambda>dev e0. let e = (if dlt e0 d0 then dneg e0 else e0) in if dgt e dev then e else dev)
       d0 (vlist (vmap2 dsub acc base))"

definition gate_decision :: "airmouse \<Rightarrow> vec3 \<Rightarrow> bool \<times> airmouse" where
  "gate_decision a acc =
     (let dev = gate_dev acc (a_base a);
          latch = (if dgt dev (gate_hi a) then gate_latch a
                   else if latch_left a > 0 then latch_left a - 1 else latch_left a);
          open1 = (if gate_open a then
                     \<not> (dlt dev (dmul (gate_lo a) (dlit 5 10)) \<and> latch = 0)
                   else dgt dev (gate_lo a));
          base = vmap2 (\<lambda>b c. dadd b (dmul (gate_a a) (dsub c b))) (a_base a) acc
      in (open1, a\<lparr>latch_left := latch, gate_open := open1, a_base := base\<rparr>))"

section \<open>A frame\<close>

definition arm_gate :: "airmouse \<Rightarrow> vec3 \<Rightarrow> airmouse" where
  "arm_gate a acc =
     (if gate_on a \<and> a_absent a \<and> list_ex (\<lambda>x. \<not> deq x d0) (vlist acc)
      then a\<lparr>a_base := acc, a_absent := False\<rparr> else a)"

definition lpf_step :: "cdouble \<Rightarrow> bool \<Rightarrow> cdouble \<Rightarrow> cdouble \<Rightarrow> cdouble" where
  "lpf_step alpha closed d prev =
     (if closed then dmul (dsub (dlit 1 1) alpha) prev
      else dadd (dmul alpha d) (dmul (dsub (dlit 1 1) alpha) prev))"

definition airmouse_filter :: "airmouse \<Rightarrow> vec3 \<Rightarrow> vec3 \<Rightarrow> vec3 \<times> airmouse" where
  "airmouse_filter a g acc =
     (if \<not> am_have_raw a then (vzero, a\<lparr>am_raw_prev := g, am_have_raw := True\<rparr>)
      else
        let d = vmap2 dsub g (am_raw_prev a);
            a1 = a\<lparr>am_raw_prev := g\<rparr>;
            (closed, a2) =
              (if gate_on a1 \<and> \<not> a_absent a1
               then (case gate_decision a1 acc of (opn, b) \<Rightarrow> (\<not> opn, b)) else (False, a1))
        in (vmap2 (lpf_step (am_alpha a2) closed) d (am_prev a2), a2))"

definition airmouse_process ::
  "airmouse \<Rightarrow> vec3 \<Rightarrow> vec3 \<Rightarrow> airmouse \<times> vec3 \<times> int option \<times> int option" where
  "airmouse_process a0 g acc =
     (case airmouse_filter (arm_gate a0 acc) g acc of
        ((x, y, z), a) \<Rightarrow>
          (a\<lparr>am_prev := (x, y, z)\<rparr>, (x, y, z),
           d2int (dmul (dneg z) (am_scale a)), d2int (dmul (dneg y) (am_scale a))))"

text \<open>The movements of a sequence of frames.\<close>

fun airmouse_run :: "airmouse \<Rightarrow> (vec3 \<times> vec3) list \<Rightarrow> (int option \<times> int option) list" where
  "airmouse_run a [] = []"
| "airmouse_run a ((g, acc) # fs) =
     (case airmouse_process a g acc of (a', out, dx, dy) \<Rightarrow> (dx, dy) # airmouse_run a' fs)"

section \<open>Constant offsets do not move the pointer\<close>

definition is_zero :: "cdouble \<Rightarrow> bool" where
  "is_zero x \<longleftrightarrow> (\<exists>s e. x = DFin s 0 e)"

definition vfin :: "vec3 \<Rightarrow> bool" where
  "vfin v \<longleftrightarrow> list_all isfin (vlist v)"

definition vis_zero :: "vec3 \<Rightarrow> bool" where
  "vis_zero v \<longleftrightarrow> list_all is_zero (vlist v)"

lemma is_zero_mul: "is_zero x \<Longrightarrow> isfin y \<Longrightarrow> is_zero (dmul y x) \<and> is_zero (dmul x y)"
  using dmul_zero_left [of y] dmul_zero_right [of y] unfolding is_zero_def by blast

lemma is_zero_add: "is_zero x \<Longrightarrow> is_zero y \<Longrightarrow> is_zero (dadd x y)"
  by (auto simp: is_zero_def smant_def Let_def)

lemma is_zero_neg: "is_zero x \<Longrightarrow> is_zero (dneg x)"
  by (auto simp: is_zero_def)

lemma is_zero_d0 [simp]: "is_zero (DFin s 0 e)"
  by (auto simp: is_zero_def)

lemma is_zero_d2int: "is_zero x \<Longrightarrow> d2int x = Some 0"
  by (auto simp: is_zero_def)

lemma lpf_step_zero:
  assumes "is_zero d" and "is_zero prev" and "isfin alpha" and "isfin (dsub (dlit 1 1) alpha)"
  shows "is_zero (lpf_step alpha closed d prev)"
  using assms by (simp add: lpf_step_def is_zero_mul is_zero_add)

lemma vmap2_sub_self: "vfin g \<Longrightarrow> vis_zero (vmap2 dsub g g)"
  by (cases g) (auto simp: vfin_def vis_zero_def dsub_self)

text \<open>What the gate leaves alone.\<close>

lemma arm_gate_keeps [simp]:
  "am_alpha (arm_gate a acc) = am_alpha a" "am_scale (arm_gate a acc) = am_scale a"
  "am_prev (arm_gate a acc) = am_prev a" "am_raw_prev (arm_gate a acc) = am_raw_prev a"
  "am_have_raw (arm_gate a acc) = am_have_raw a"
  by (simp_all add: arm_gate_def)

lemma gate_decision_keeps:
  "gate_decision a acc = (o1, b) \<Longrightarrow> am_alpha b = am_alpha a \<and> am_scale b = am_scale a \<and> am_prev b = am_prev a \<and>
     am_raw_prev b = am_raw_prev a \<and> am_have_raw b = am_have_raw a"
  by (auto simp: gate_decision_def Let_def)

definition settled :: "airmouse \<Rightarrow> vec3 \<Rightarrow> bool" where
  "settled a g \<longleftrightarrow> isfin (am_alpha a) \<and> isfin (dsub (dlit 1 1) (am_alpha a)) \<and> isfin (am_scale a) \<and>
     vis_zero (am_prev a) \<and> (am_have_raw a \<longrightarrow> am_raw_prev a = g)"

lemma airmouse_filter_still:
  assumes "settled a g" and "vfin g" and "airmouse_filter a g acc = (out, b)"
  shows "vis_zero out \<and> settled (b\<lparr>am_prev := out\<rparr>) g \<and> am_scale b = am_scale a"
proof (cases "am_have_raw a")
  case False
  with assms show ?thesis by (auto simp: airmouse_filter_def settled_def vis_zero_def)
next
  case True
  define a1 where "a1 = a\<lparr>am_raw_prev := g\<rparr>"
  obtain closed a2 where gate: "(if gate_on a1 \<and> \<not> a_absent a1
      then (case gate_decision a1 acc of (opn, b) \<Rightarrow> (\<not> opn, b)) else (False, a1)) = (closed, a2)"
    by fastforce
  have keep: "am_alpha a2 = am_alpha a" "am_scale a2 = am_scale a" "am_prev a2 = am_prev a"
    "am_raw_prev a2 = g" "am_have_raw a2"
    using gate gate_decision_keeps [of a1 acc] True by (auto simp: a1_def split: if_splits prod.splits)
  have raw: "am_raw_prev a = g" and z: "vis_zero (am_prev a)" and f: "isfin (am_alpha a)"
    "isfin (dsub (dlit 1 1) (am_alpha a))" using assms(1) True by (auto simp: settled_def)
  have out: "out = vmap2 (lpf_step (am_alpha a) closed) (vmap2 dsub g g) (am_prev a)" "b = a2"
    using assms(3) gate keep raw True
    unfolding airmouse_filter_def Let_def a1_def [symmetric] by simp_all
  have "vis_zero out"
    using vmap2_sub_self [OF assms(2)] z f unfolding out(1)
    by (cases g; cases "am_prev a") (auto simp: vis_zero_def lpf_step_zero)
  with assms(1) keep out(2) show ?thesis by (simp add: settled_def)
qed

lemma airmouse_still:
  assumes "settled a g" and "vfin g" and "airmouse_process a g acc = (a', out, dx, dy)"
  shows "dx = Some 0 \<and> dy = Some 0 \<and> settled a' g"
proof -
  obtain x y z b where f: "airmouse_filter (arm_gate a acc) g acc = ((x, y, z), b)" by (metis prod_cases3 prod.exhaust)
  have "settled (arm_gate a acc) g" using assms(1) by (simp add: settled_def)
  from airmouse_filter_still [OF this assms(2) f]
  have v: "is_zero x" "is_zero y" "is_zero z" "settled (b\<lparr>am_prev := (x, y, z)\<rparr>) g" "am_scale b = am_scale a"
    by (auto simp: vis_zero_def)
  then have s: "isfin (am_scale b)" using assms(1) by (simp add: settled_def)
  have "d2int (dmul (dneg z) (am_scale b)) = Some 0" "d2int (dmul (dneg y) (am_scale b)) = Some 0"
    using v s by (auto intro!: is_zero_d2int simp: is_zero_mul is_zero_neg)
  with assms(3) f v(4) show ?thesis by (auto simp: airmouse_process_def)
qed

lemma airmouse_run_still:
  "settled a g \<Longrightarrow> vfin g \<Longrightarrow> airmouse_run a (map (Pair g) accs) = replicate (length accs) (Some 0, Some 0)"
proof (induction accs arbitrary: a)
  case (Cons acc accs)
  obtain a' out dx dy where p: "airmouse_process a g acc = (a', out, dx, dy)" by (metis prod_cases4)
  from airmouse_still [OF Cons.prems p] Cons.IH [of a'] Cons.prems(2) p show ?case by simp
qed simp



section \<open>The gate\<close>

fun gate_run :: "airmouse \<Rightarrow> vec3 list \<Rightarrow> airmouse" where
  "gate_run a [] = a"
| "gate_run a (acc # accs) = gate_run (snd (gate_decision a acc)) accs"

lemma gate_step_latched:
  assumes "gate_open a" and "1 < latch_left a" and "latch_left a \<le> gate_latch a"
  shows "gate_open (snd (gate_decision a acc)) \<and>
    latch_left a - 1 \<le> latch_left (snd (gate_decision a acc)) \<and>
    latch_left (snd (gate_decision a acc)) \<le> gate_latch (snd (gate_decision a acc))"
  using assms by (auto simp: gate_decision_def Let_def)

text \<open>
  A jolt above the high threshold holds the gate open: once the latch is set, the gate
  stays open for the next \<open>latch_left - 1\<close> frames whatever they are.
\<close>

lemma gate_latch_holds:
  assumes "gate_open a" and "latch_left a \<le> gate_latch a" and "int (length accs) < latch_left a"
  shows "gate_open (gate_run a accs)"
  using assms
proof (induction accs arbitrary: a)
  case (Cons acc accs)
  have "1 < latch_left a" using Cons.prems(3) by simp
  from gate_step_latched [OF Cons.prems(1) this Cons.prems(2), of acc] Cons.IH Cons.prems(3)
  show ?case by auto
qed simp

end
