(* ===== verification/Calib.thy ===== *)
theory Calib
  imports Json_Roundtrip Airmouse
begin

text \<open>
  \<^verbatim>\<open>tools/src/calib.c\<close> with the parts of \<^verbatim>\<open>matrix.c\<close> it uses: the calibration record, its JSON form,
  the correction of a sample and the 32-byte blob for the kernel.

  \<open>file\<close> is the content of the path, or the reason it cannot be read. The array getters of
  \<open>Json\<close> overwrite the identity defaults element by element, as in C.
\<close>

record calib =
  accel_bias :: "cdouble list"
  accel_matrix :: "cdouble list list"
  gyro_bias :: "cdouble list"
  gyro_scale :: "cdouble list"

definition calib_init_identity :: calib where
  "calib_init_identity =
     \<lparr>accel_bias = [d0, d0, d0],
      accel_matrix = [[dlit 1 1, d0, d0], [d0, dlit 1 1, d0], [d0, d0, dlit 1 1]],
      gyro_bias = [d0, d0, d0], gyro_scale = [dlit 1 1, dlit 1 1, dlit 1 1]\<rparr>"

fun is_obj :: "json_value option \<Rightarrow> bool" where
  "is_obj (Some (JObj kvs)) = True"
| "is_obj _ = False"

definition calib_read :: "json_value \<Rightarrow> calib" where
  "calib_read jr =
     (let accel = json_obj_get (Some jr) ''accel'';
          gyro = json_obj_get (Some jr) ''gyro'';
          c0 = calib_init_identity;
          c1 = (if is_obj accel then
                  c0\<lparr>accel_bias := snd (json_get_float3 accel ''bias'' (accel_bias c0)),
                     accel_matrix := snd (json_get_mat3 accel ''matrix'' (accel_matrix c0))\<rparr> else c0)
      in if is_obj gyro then
           c1\<lparr>gyro_bias := snd (json_get_float3 gyro ''bias'' (gyro_bias c1)),
              gyro_scale := snd (json_get_float3 gyro ''scale'' (gyro_scale c1))\<rparr>
         else c1)"

text \<open>On failure the caller's structure holds the identity.\<close>

definition calib_load :: "string \<Rightarrow> string + string \<Rightarrow> string option \<times> calib" where
  "calib_load path file =
     (let fail = (\<lambda>msg off. (Some (path @ '': '' @ msg @ '' (byte '' @ show_dec (int off) @ '')''), calib_init_identity))
      in case file of
           Inl reason \<Rightarrow> fail reason 0
         | Inr text \<Rightarrow>
             (case json_parse text of
                PErr msg off \<Rightarrow> fail msg off
              | PFuel \<Rightarrow> fail [] 0
              | POk jr p \<Rightarrow>
                  if \<not> is_obj (Some jr) then (Some (path @ '': root is not a JSON object''), calib_init_identity)
                  else (None, calib_read jr)))"

section \<open>Correcting a sample\<close>

fun vec3_scale :: "vec3 \<Rightarrow> cdouble \<Rightarrow> vec3" where
  "vec3_scale (x, y, z) s = (dmul x s, dmul y s, dmul z s)"

fun row_dot :: "cdouble list \<Rightarrow> vec3 \<Rightarrow> cdouble" where
  "row_dot r (x, y, z) = dadd (dadd (dmul (r ! 0) x) (dmul (r ! 1) y)) (dmul (r ! 2) z)"

definition mat3_mul_vec3 :: "cdouble list list \<Rightarrow> vec3 \<Rightarrow> vec3" where
  "mat3_mul_vec3 m v = (row_dot (m ! 0) v, row_dot (m ! 1) v, row_dot (m ! 2) v)"

definition R_align :: "cdouble list list" where
  "R_align = [[d0, dlit (- 1) 1, d0], [dlit (- 1) 1, d0, d0], [d0, d0, dlit (- 1) 1]]"

definition M_PI :: cdouble where
  "M_PI = dlit 314159265358979323846 (10 ^ 20)"

abbreviation to_vec :: "cdouble list \<Rightarrow> vec3" where
  "to_vec xs \<equiv> (xs ! 0, xs ! 1, xs ! 2)"

definition calib_apply :: "calib \<Rightarrow> vec3 \<Rightarrow> vec3 \<Rightarrow> vec3 \<times> vec3" where
  "calib_apply c a_raw g_raw =
     (let d = vmap2 dsub a_raw (to_vec (accel_bias c));
          a = mat3_mul_vec3 (accel_matrix c) d;
          g = vmap2 dmul (vmap2 dsub g_raw (to_vec (gyro_bias c))) (to_vec (gyro_scale c));
          a' = mat3_mul_vec3 R_align a;
          g' = vec3_scale (mat3_mul_vec3 R_align g) (ddiv M_PI (dlit 180 1))
      in (a', g'))"

section \<open>Writing the JSON form\<close>

text \<open>The 64-byte buffer of \<^verbatim>\<open>round6\<close> cuts longer decimal forms.\<close>

definition round6 :: "cdouble \<Rightarrow> cdouble" where
  "round6 v = fst (strtod (take 63 (fmt_f 6 v)))"

definition arr3 :: "cdouble list \<Rightarrow> json_value" where
  "arr3 v = JArr [JNum (round6 (v ! 0)), JNum (round6 (v ! 1)), JNum (round6 (v ! 2))]"

definition calib_json :: "calib \<Rightarrow> json_value" where
  "calib_json c =
     JObj [(''accel'', JObj [(''bias'', arr3 (accel_bias c)),
             (''matrix'', JArr [arr3 (accel_matrix c ! 0), arr3 (accel_matrix c ! 1), arr3 (accel_matrix c ! 2)])]),
           (''gyro'', JObj [(''bias'', arr3 (gyro_bias c)), (''scale'', arr3 (gyro_scale c))])]"

definition calib_save_json :: "calib \<Rightarrow> string option" where
  "calib_save_json c = json_dumps (Some (calib_json c))"

section \<open>The kernel blob\<close>

record calib_blob =
  bl_gyro_bias :: "cdouble list"
  bl_gyro_scale :: "cdouble list"
  bl_alpha :: cdouble
  bl_mouse_k :: cdouble

definition calib_to_blob :: "calib \<Rightarrow> cdouble \<Rightarrow> cdouble \<Rightarrow> calib_blob" where
  "calib_to_blob c alpha mouse_k =
     \<lparr>bl_gyro_bias = map (\<lambda>i. to_float (gyro_bias c ! i)) [0..<3],
      bl_gyro_scale = map (\<lambda>i. to_float (gyro_scale c ! i)) [0..<3],
      bl_alpha = alpha, bl_mouse_k = mouse_k\<rparr>"

definition calib_validate_blob :: "calib_blob \<Rightarrow> int" where
  "calib_validate_blob b =
     (let bad_axis = list_ex (\<lambda>i. dgt (dabs (bl_gyro_bias b ! i)) (dlit 100 1) \<or>
                                  dgt (dabs (bl_gyro_scale b ! i)) (dlit 10 1)) [0, 1, 2];
          bad_alpha = (dlt (bl_alpha b) d0 \<or> dgt (bl_alpha b) (dlit 1 1));
          bad_k = (dlt (bl_mouse_k b) d0 \<or> dgt (bl_mouse_k b) (dlit 1 1))
      in if bad_axis \<or> bad_alpha \<or> bad_k then - 1 else 0)"

section \<open>Properties\<close>

definition calib_shape :: "calib \<Rightarrow> bool" where
  "calib_shape c \<longleftrightarrow> length (accel_bias c) = 3 \<and> length (accel_matrix c) = 3 \<and>
     list_all (\<lambda>r. length r = 3) (accel_matrix c) \<and> length (gyro_bias c) = 3 \<and> length (gyro_scale c) = 3"

lemma json_nums_into_length: "length (snd (json_nums_into vs i out)) = length out"
  by (induction vs i out rule: json_nums_into.induct) (auto split: json_value.split)

lemma json_get_float3_length: "length (snd (json_get_float3 obj key out)) = length out"
  by (simp add: json_get_float3_def json_nums_into_length split: option.split json_value.split)

lemma json_rows_into_shape:
  "list_all (\<lambda>r. length r = 3) out \<Longrightarrow> i + length vs \<le> length out \<Longrightarrow>
   length (snd (json_rows_into vs i out)) = length out \<and>
   list_all (\<lambda>r. length r = 3) (snd (json_rows_into vs i out))"
proof (induction vs i out rule: json_rows_into.induct)
  case (2 v vs i out)
  show ?case
  proof (cases "\<exists>row. v = JArr row \<and> length row = 3")
    case True
    then obtain row where v: "v = JArr row" "length row = 3" by blast
    obtain rc r where rr: "json_nums_into row 0 (out ! i) = (rc, r)" by fastforce
    have "length (out ! i) = 3" using "2.prems" by (simp add: list_all_length)
    then have r: "length r = 3" using json_nums_into_length [of row 0 "out ! i"] rr by simp
    have upd: "list_all (\<lambda>r. length r = 3) (out[i := r])"
      using "2.prems"(1) r by (auto simp: list_all_iff dest: set_update_subset_insert [THEN subsetD])
    show ?thesis
      using "2.IH" [OF v(1) _ rr [symmetric]] v rr upd "2.prems"(2) by auto
  next
    case False
    with "2.prems" show ?thesis by (auto split: json_value.split)
  qed
qed auto

text \<open>
  Loading a calibration always leaves well-shaped arrays, whatever the document holds.
\<close>

theorem calib_load_shape: "calib_shape (snd (calib_load path file))"
proof -
  have id: "calib_shape calib_init_identity" by (simp add: calib_shape_def calib_init_identity_def)
  have "length (snd (json_get_mat3 obj key (accel_matrix calib_init_identity))) = 3 \<and>
      list_all (\<lambda>r. length r = 3) (snd (json_get_mat3 obj key (accel_matrix calib_init_identity)))" for obj key
    using json_rows_into_shape [of "accel_matrix calib_init_identity" 0]
    by (auto simp: json_get_mat3_def calib_init_identity_def split: option.split json_value.split)
  with id have "calib_shape (calib_read jr)" for jr
    by (simp add: calib_read_def calib_shape_def json_get_float3_length Let_def)
  with id show ?thesis
    by (auto simp: calib_load_def Let_def split: sum.split presult.split)
qed

definition calib_rounded :: "calib \<Rightarrow> calib" where
  "calib_rounded c =
     \<lparr>accel_bias = map round6 (accel_bias c), accel_matrix = map (map round6) (accel_matrix c),
      gyro_bias = map round6 (gyro_bias c), gyro_scale = map round6 (gyro_scale c)\<rparr>"

lemma list3: "length xs = 3 \<Longrightarrow> \<exists>x y z. xs = [x, y, z]"
  by (auto simp: numeral_3_eq_3 length_Suc_conv)

lemma map3: "length v = 3 \<Longrightarrow> [f (v ! 0), f (v ! Suc 0), f (v ! 2)] = map f v"
  using list3 [of v] by auto

text \<open>
  C32: what \<open>calib_save_json\<close> writes, \<open>calib_load\<close> reads back: the calibration with every number
  rounded to six decimals, provided those numbers survive their own decimal form.
\<close>

theorem calib_save_load:
  assumes "calib_shape c" and "json_writable (calib_json c)" and "calib_save_json c = Some text"
  shows "calib_load path (Inr text) = (None, calib_rounded c)"
proof -
  have "json_depth (calib_json c) \<le> JSON_MAX_DEPTH"
    by (simp add: calib_json_def arr3_def JSON_MAX_DEPTH_def)
  then obtain p where p: "json_parse text = POk (calib_json c) p"
    using json_roundtrip_tree [OF assms(2)] assms(3) by (auto simp: calib_save_json_def)
  obtain r0 r1 r2 where m: "accel_matrix c = [r0, r1, r2]" "length r0 = 3" "length r1 = 3" "length r2 = 3"
    using assms(1) list3 [of "accel_matrix c"] by (auto simp: calib_shape_def)
  have "calib_read (calib_json c) = calib_rounded c"
    using assms(1) m
    by (simp add: calib_read_def calib_json_def calib_init_identity_def json_obj_get_def json_get_float3_def
        json_get_mat3_def arr3_def map3 calib_shape_def calib_rounded_def Let_def)
  with p show ?thesis by (simp add: calib_load_def calib_json_def)
qed

theorem calib_save_load_witness:
  "calib_load ''c.json'' (Inr (the (calib_save_json (calib_init_identity\<lparr>gyro_bias := [dlit 1 3, dlit (- 25) 10, d0]\<rparr>)))) =
   (None, calib_rounded (calib_init_identity\<lparr>gyro_bias := [dlit 1 3, dlit (- 25) 10, d0]\<rparr>))"
  by (rule calib_save_load) (code_simp, code_simp, simp add: calib_save_json_def json_dumps_def)

text \<open>
  A malformed array does not keep the identity defaults: the numbers before the bad element
  are taken over and the load still succeeds.
\<close>

theorem calib_load_partial_array:
  "\<exists>p. json_parse (''{'' @ [CHR 0x22] @ ''gyro'' @ [CHR 0x22] @ '':{'' @ [CHR 0x22] @ ''bias'' @ [CHR 0x22] @ '':[5,null,7]}}'') =
      POk (JObj [(''gyro'', JObj [(''bias'', JArr [JNum (dlit 5 1), JNull, JNum (dlit 7 1)])])]) p \<and>
   gyro_bias (calib_read (JObj [(''gyro'', JObj [(''bias'', JArr [JNum (dlit 5 1), JNull, JNum (dlit 7 1)])])])) =
      [dlit 5 1, d0, d0]"
proof -
  have "gyro_bias (calib_read (JObj [(''gyro'', JObj [(''bias'', JArr [JNum (dlit 5 1), JNull, JNum (dlit 7 1)])])])) =
      [dlit 5 1, d0, d0]" by code_simp
  moreover have "json_parse (''{'' @ [CHR 0x22] @ ''gyro'' @ [CHR 0x22] @ '':{'' @ [CHR 0x22] @ ''bias'' @ [CHR 0x22] @ '':[5,null,7]}}'') =
      POk (JObj [(''gyro'', JObj [(''bias'', JArr [JNum (dlit 5 1), JNull, JNum (dlit 7 1)])])])
        \<lparr>p_rest = [], p_pos = 28, p_depth = 0\<rparr>" by code_simp
  ultimately show ?thesis by blast
qed

end
