(* ===== verification/Json_Io.thy ===== *)
theory Json_Io
  imports Json_Roundtrip Calib
begin

text \<open>
  The memory of the JSON writer and the reading of JSON files (\<^verbatim>\<open>tools/src/json.c\<close>): the growing buffer \<^verbatim>\<open>struct sbuf\<close> and the
  writer on top of it, with every \<^verbatim>\<open>realloc\<close> allowed to fail, and \<^verbatim>\<open>json_load_file\<close>. A write outside of the allocated block is
  \<^const>\<open>None\<close>. The buffered writer refines \<^const>\<open>json_dumps\<close> when memory lasts; when it runs out inside of a string, the
  writer goes on behind the end of its block.
\<close>

section \<open>The buffer\<close>

text \<open>\<open>sb_p\<close> is the block behind the pointer (empty for \<^verbatim>\<open>NULL\<close>); the list holds the outcomes of the next allocations, which
  succeed when it is empty.\<close>

record sbuf =
  sb_p :: string
  sb_len :: nat
  sb_cap :: nat

type_synonym sb_state = "sbuf \<times> bool list"

definition sbuf_zero :: sbuf where
  "sbuf_zero = \<lparr>sb_p = [], sb_len = 0, sb_cap = 0\<rparr>"

text \<open>\<open>while (b->cap < need) b->cap *= 2\<close>.\<close>

function grow_cap :: "nat \<Rightarrow> nat \<Rightarrow> nat" where
  "grow_cap cap need = (if cap = 0 \<or> need \<le> cap then cap else grow_cap (cap * 2) need)"
  by pat_completeness auto
termination by (relation "measure (\<lambda>(cap, need). need - cap)") auto

declare grow_cap.simps [simp del]

definition resize :: "nat \<Rightarrow> string \<Rightarrow> string" where
  "resize n p = take n p @ replicate (n - length p) CHR 0x00"

text \<open>The result is whether the call returned 0. After a failure \<open>sb_cap\<close> is already the new size.\<close>

definition sb_reserve :: "nat \<Rightarrow> sb_state \<Rightarrow> bool \<times> sb_state" where
  "sb_reserve extra s = (case s of (b, al) \<Rightarrow>
     let need = sb_len b + extra
     in if need \<le> sb_cap b then (True, b, al)
        else let cap = grow_cap (if sb_cap b = 0 then 64 else sb_cap b) need; b' = b\<lparr>sb_cap := cap\<rparr>
             in if al \<noteq> [] \<and> \<not> hd al then (False, b', tl al)
                else (True, b'\<lparr>sb_p := resize cap (sb_p b)\<rparr>, tl al))"

text \<open>\<open>b->p[b->len++] = c\<close>, for the bytes of a string: \<^const>\<open>None\<close> outside of the block.\<close>

definition sb_write :: "string \<Rightarrow> sbuf \<Rightarrow> sbuf option" where
  "sb_write t b =
     (if sb_len b + length t \<le> length (sb_p b)
      then Some (b\<lparr>sb_p := take (sb_len b) (sb_p b) @ t @ drop (sb_len b + length t) (sb_p b), sb_len := sb_len b + length t\<rparr>)
      else None)"

type_synonym sb_res = "(bool \<times> sb_state) option"

definition sb_put :: "string \<Rightarrow> sb_state \<Rightarrow> sb_res" where
  "sb_put t s = (case sb_reserve (length t) s of
     (False, s) \<Rightarrow> Some (False, s)
   | (True, b, al) \<Rightarrow> (case sb_write t b of None \<Rightarrow> None | Some b \<Rightarrow> Some (True, b, al)))"

definition sb_putc :: "char \<Rightarrow> sb_state \<Rightarrow> sb_res" where
  "sb_putc c = sb_put [c]"

definition sb_puts :: "string \<Rightarrow> sb_state \<Rightarrow> sb_res" where
  "sb_puts t = sb_put t"

definition sb_putspaces :: "nat \<Rightarrow> sb_state \<Rightarrow> sb_res" where
  "sb_putspaces n = sb_put (replicate n CHR '' '')"

text \<open>\<open>if (f < 0) return -1; g\<close>, and \<open>f; g\<close> with the result of \<open>f\<close> ignored.\<close>

definition unless_failed :: "(sb_state \<Rightarrow> sb_res) \<Rightarrow> (sb_state \<Rightarrow> sb_res) \<Rightarrow> sb_state \<Rightarrow> sb_res" where
  "unless_failed f g s = (case f s of None \<Rightarrow> None | Some (False, s) \<Rightarrow> Some (False, s) | Some (True, s) \<Rightarrow> g s)"

definition regardless :: "(sb_state \<Rightarrow> sb_res) \<Rightarrow> (sb_state \<Rightarrow> sb_res) \<Rightarrow> sb_state \<Rightarrow> sb_res" where
  "regardless f g s = (case f s of None \<Rightarrow> None | Some (_, s) \<Rightarrow> g s)"

section \<open>The writer\<close>

definition escape_char_sb :: "char \<Rightarrow> sb_state \<Rightarrow> sb_res" where
  "escape_char_sb c = (if escape_char c = [c] then sb_putc c else sb_puts (escape_char c))"

text \<open>\<^verbatim>\<open>escape_string\<close> returns nothing: its last step is a success whatever the writes did.\<close>

definition escape_string_sb :: "string \<Rightarrow> sb_state \<Rightarrow> sb_res" where
  "escape_string_sb str = regardless (sb_putc CHR 0x22)
     (foldr (\<lambda>c. regardless (escape_char_sb c)) str (regardless (sb_putc CHR 0x22) (\<lambda>s. Some (True, s))))"

fun dump_value_sb :: "json_value \<Rightarrow> nat \<Rightarrow> sb_state \<Rightarrow> sb_res"
and dump_items_sb :: "json_value list \<Rightarrow> nat \<Rightarrow> (sb_state \<Rightarrow> sb_res) \<Rightarrow> sb_state \<Rightarrow> sb_res"
and dump_members_sb :: "(string \<times> json_value) list \<Rightarrow> nat \<Rightarrow> (sb_state \<Rightarrow> sb_res) \<Rightarrow> sb_state \<Rightarrow> sb_res"
where
  "dump_value_sb JNull level = sb_puts ''null''"
| "dump_value_sb (JBool b) level = sb_puts (if b then ''true'' else ''false'')"
| "dump_value_sb (JNum d) level = sb_puts (fmt_number d)"
| "dump_value_sb (JStr str) level = escape_string_sb str"
| "dump_value_sb (JArr vs) level = unless_failed (sb_putc CHR ''['')
     (if vs = [] then sb_putc CHR '']''
      else dump_items_sb vs level
             (unless_failed (sb_putc CHR 0x0A) (unless_failed (sb_putspaces (4 * level)) (sb_putc CHR '']''))))"
| "dump_value_sb (JObj kvs) level = unless_failed (sb_putc CHR ''{'')
     (if kvs = [] then sb_putc CHR ''}''
      else dump_members_sb kvs level
             (unless_failed (sb_putc CHR 0x0A) (unless_failed (sb_putspaces (4 * level)) (sb_putc CHR ''}''))))"
| "dump_items_sb [] level done = done"
| "dump_items_sb (v # vs) level done = unless_failed (sb_putc CHR 0x0A) (unless_failed (sb_putspaces (4 * (level + 1)))
     (unless_failed (dump_value_sb v (level + 1))
        (if vs = [] then done else unless_failed (sb_putc CHR '','') (dump_items_sb vs level done))))"
| "dump_members_sb [] level done = done"
| "dump_members_sb ((k, v) # kvs) level done = unless_failed (sb_putc CHR 0x0A) (unless_failed (sb_putspaces (4 * (level + 1)))
     (regardless (escape_string_sb k) (unless_failed (sb_puts '': '')
     (unless_failed (dump_value_sb v (level + 1))
        (if kvs = [] then done else unless_failed (sb_putc CHR '','') (dump_members_sb kvs level done))))))"

text \<open>The C string that is returned; \<open>Some None\<close> is \<^verbatim>\<open>NULL\<close>. The last \<^verbatim>\<open>realloc\<close> only gives memory back.\<close>

definition json_dumps_sb :: "json_value option \<Rightarrow> bool list \<Rightarrow> string option option" where
  "json_dumps_sb v al = (case v of
     None \<Rightarrow> Some None
   | Some x \<Rightarrow>
       (case unless_failed (dump_value_sb x 0) (sb_putc CHR 0x00) (sbuf_zero, al) of
          None \<Rightarrow> None
        | Some (False, s) \<Rightarrow> Some None
        | Some (True, b, al) \<Rightarrow>
            (let out = (if al \<noteq> [] \<and> \<not> hd al then sb_p b else resize (sb_len b) (sb_p b)) in Some (Some (cstr out)))))"

section \<open>Reading a file\<close>

datatype file_io = OpenFails string | SizeFails | NoMemory | ReadsShort | FileBytes string

definition read_whole :: "file_io \<Rightarrow> string + string" where
  "read_whole f = (case f of
     OpenFails e \<Rightarrow> Inl e
   | SizeFails \<Rightarrow> Inl ''cannot read file''
   | NoMemory \<Rightarrow> Inl ''out of memory''
   | ReadsShort \<Rightarrow> Inl ''cannot read file''
   | FileBytes t \<Rightarrow> Inr t)"

definition json_load_file :: "file_io \<Rightarrow> (string \<times> nat) + json_value" where
  "json_load_file f = (case read_whole f of
     Inl e \<Rightarrow> Inl (e, 0)
   | Inr t \<Rightarrow> (case json_parse t of POk v p \<Rightarrow> Inr v | PErr m off \<Rightarrow> Inl (m, off) | PFuel \<Rightarrow> Inl ([], 0)))"

text \<open>\<^const>\<open>calib_load\<close> is \<^const>\<open>json_load_file\<close> followed by the reading of the members.\<close>

lemma calib_load_file:
  "calib_load path (read_whole f) = (case json_load_file f of
     Inl (msg, off) \<Rightarrow> (Some (path @ '': '' @ msg @ '' (byte '' @ show_dec (int off) @ '')''), calib_init_identity)
   | Inr jr \<Rightarrow> if \<not> is_obj (Some jr) then (Some (path @ '': root is not a JSON object''), calib_init_identity) else (None, calib_read jr))"
  by (simp add: calib_load_def json_load_file_def Let_def split: sum.split presult.split)

section \<open>Sinks of text\<close>

text \<open>
  What the writer relies on: a block that fits its size and its length. A step that is sound keeps it as long as it succeeds; a
  step writes a text when it succeeds whenever memory lasts and appends that text.
\<close>

definition sb_ok :: "sbuf \<Rightarrow> bool" where
  "sb_ok b \<longleftrightarrow> length (sb_p b) = sb_cap b \<and> sb_len b \<le> sb_cap b"

definition sb_text :: "sbuf \<Rightarrow> string" where
  "sb_text b = take (sb_len b) (sb_p b)"

definition sound :: "(sb_state \<Rightarrow> sb_res) \<Rightarrow> bool" where
  "sound f \<longleftrightarrow> (\<forall>b al. sb_ok b \<longrightarrow> (case f (b, al) of None \<Rightarrow> False | Some (r, b', al') \<Rightarrow> r \<longrightarrow> sb_ok b'))"

definition writes :: "(sb_state \<Rightarrow> sb_res) \<Rightarrow> string \<Rightarrow> bool" where
  "writes f t \<longleftrightarrow> (\<forall>b. sb_ok b \<longrightarrow> (\<exists>b'. f (b, []) = Some (True, b', []) \<and> sb_ok b' \<and> sb_text b' = sb_text b @ t))"

lemma grow_cap_ge: "0 < cap \<Longrightarrow> need \<le> grow_cap cap need \<and> cap \<le> grow_cap cap need"
  by (induction cap need rule: grow_cap.induct) (subst (1 2) grow_cap.simps, auto)

lemma reserve_ok:
  assumes "sb_ok b" and "sb_reserve n (b, al) = (True, b', al')"
  shows "sb_ok b' \<and> sb_len b' = sb_len b \<and> sb_text b' = sb_text b \<and> sb_len b + n \<le> sb_cap b' \<and> (al = [] \<longrightarrow> al' = [])"
proof (cases "sb_len b + n \<le> sb_cap b")
  case False
  define cap where "cap = grow_cap (if sb_cap b = 0 then 64 else sb_cap b) (sb_len b + n)"
  have c: "sb_len b + n \<le> cap" "sb_cap b \<le> cap"
    using grow_cap_ge [of "if sb_cap b = 0 then 64 else sb_cap b" "sb_len b + n"] by (auto simp: cap_def split: if_splits)
  have b': "b' = b\<lparr>sb_cap := cap, sb_p := resize cap (sb_p b)\<rparr>" "al' = tl al"
    using assms(2) False by (auto simp: sb_reserve_def Let_def cap_def split: if_splits)
  show ?thesis using assms(1) c b' by (auto simp: sb_ok_def sb_text_def resize_def)
qed (use assms in \<open>auto simp: sb_reserve_def\<close>)

lemma reserve_lasts: "fst (sb_reserve n (b, []))"
  by (simp add: sb_reserve_def Let_def)

lemma write_ok:
  assumes "sb_ok b" and "sb_len b + length t \<le> sb_cap b"
  shows "\<exists>b'. sb_write t b = Some b' \<and> sb_ok b' \<and> sb_text b' = sb_text b @ t"
  using assms by (auto simp: sb_write_def sb_ok_def sb_text_def)

lemma put_sound: "sound (sb_put t)"
proof -
  have "case sb_put t (b, al) of None \<Rightarrow> False | Some (r, b', al') \<Rightarrow> r \<longrightarrow> sb_ok b'" if ok: "sb_ok b" for b al
  proof -
    obtain r b1 al1 where r: "sb_reserve (length t) (b, al) = (r, b1, al1)" by (metis prod_cases3)
    show ?thesis
    proof (cases r)
      case True
      with reserve_ok [OF ok] r have "sb_ok b1" "sb_len b1 + length t \<le> sb_cap b1" by auto
      from write_ok [OF this] show ?thesis using r True by (auto simp: sb_put_def)
    qed (use r in \<open>simp add: sb_put_def\<close>)
  qed
  then show ?thesis by (simp add: sound_def)
qed

lemma put_writes: "writes (sb_put t) t"
proof -
  have "\<exists>b'. sb_put t (b, []) = Some (True, b', []) \<and> sb_ok b' \<and> sb_text b' = sb_text b @ t" if ok: "sb_ok b" for b
  proof -
    obtain b1 al1 where r: "sb_reserve (length t) (b, []) = (True, b1, al1)"
      using reserve_lasts [of "length t" b] by (cases "sb_reserve (length t) (b, [])") auto
    have o: "sb_ok b1" "sb_text b1 = sb_text b" "sb_len b1 + length t \<le> sb_cap b1" "al1 = []" using reserve_ok [OF ok r] by auto
    from write_ok [OF this(1,3)] r o(2,4) show ?thesis by (auto simp: sb_put_def)
  qed
  then show ?thesis by (simp add: writes_def)
qed

lemmas put_defs = sb_putc_def sb_puts_def sb_putspaces_def

lemma unless_sound: "sound f \<Longrightarrow> sound g \<Longrightarrow> sound (unless_failed f g)"
  by (auto simp: sound_def unless_failed_def split: option.splits bool.splits) blast+

lemma writes_seq:
  assumes "writes f t" and "writes g u"
  shows "writes (unless_failed f g) (t @ u)" "writes (regardless f g) (t @ u)"
proof -
  have "\<exists>b1 b2. f (b, []) = Some (True, b1, []) \<and> g (b1, []) = Some (True, b2, []) \<and> sb_ok b2 \<and> sb_text b2 = sb_text b @ t @ u"
    if "sb_ok b" for b using assms that unfolding writes_def by (metis append_assoc)
  then show "writes (unless_failed f g) (t @ u)" "writes (regardless f g) (t @ u)"
    unfolding writes_def unless_failed_def regardless_def by fastforce+
qed

lemma writes_nil: "writes (\<lambda>s. Some (True, s)) []"
  by (simp add: writes_def)

lemma put_any_writes [simp, intro]:
  "writes (sb_putc c) [c]" "writes (sb_puts t) t" "writes (sb_putspaces n) (replicate n CHR '' '')"
  by (simp_all add: put_defs put_writes)

lemma put_any_sound [simp, intro]: "sound (sb_putc c)" "sound (sb_puts t)" "sound (sb_putspaces n)"
  by (simp_all add: put_defs put_sound)

section \<open>Refinement\<close>

lemma escape_string_writes: "writes (escape_string_sb str) (escape_string str)"
proof -
  have c: "writes (escape_char_sb c) (escape_char c)" for c by (cases "escape_char c = [c]") (simp_all add: escape_char_sb_def)
  have "writes (foldr (\<lambda>c. regardless (escape_char_sb c)) str (regardless (sb_putc CHR 0x22) (\<lambda>s. Some (True, s))))
      (concat (map escape_char str) @ [CHR 0x22])"
  proof (induction str)
    case Nil
    show ?case using writes_seq(2) [OF put_any_writes(1) writes_nil] by simp
  next
    case (Cons a str)
    show ?case using writes_seq(2) [OF c Cons.IH] by simp
  qed
  from writes_seq(2) [OF put_any_writes(1) this] show ?thesis by (simp add: escape_string_sb_def escape_string_def)
qed

lemma writes_indent: "writes g u \<Longrightarrow> writes (unless_failed (sb_putc CHR 0x0A) (unless_failed (sb_putspaces (4 * n)) g)) (newline_indent n @ u)"
  using writes_seq(1) [OF put_any_writes(1) writes_seq(1) [OF put_any_writes(3)]] by simp

lemma writes_closing: "writes (unless_failed (sb_putc CHR 0x0A) (unless_failed (sb_putspaces (4 * n)) (sb_putc c))) (newline_indent n @ [c])"
  by (rule writes_indent) simp

lemma dump_value_writes:
  "writes (dump_value_sb v level) (dump_value v level)"
  "\<And>t. writes done t \<Longrightarrow> writes (dump_items_sb vs level done) (dump_items vs level @ t)"
  "\<And>t. writes done t \<Longrightarrow> writes (dump_members_sb kvs level done) (dump_members kvs level @ t)"
proof (induction v level and vs level "done" and kvs level "done" rule: dump_value_sb_dump_items_sb_dump_members_sb.induct)
  case (5 vs level)
  show ?case
  proof (cases "vs = []")
    case False
    with 5 have "writes (dump_items_sb vs level (unless_failed (sb_putc CHR 0x0A) (unless_failed (sb_putspaces (4 * level)) (sb_putc CHR '']''))))
        (dump_items vs level @ newline_indent level @ '']'')" using writes_closing by blast
    from writes_seq(1) [OF put_any_writes(1) this] False show ?thesis by simp
  qed (use writes_seq(1) [OF put_any_writes(1) put_any_writes(1)] in simp)
next
  case (6 kvs level)
  show ?case
  proof (cases "kvs = []")
    case False
    with 6 have "writes (dump_members_sb kvs level (unless_failed (sb_putc CHR 0x0A) (unless_failed (sb_putspaces (4 * level)) (sb_putc CHR ''}''))))
        (dump_members kvs level @ newline_indent level @ ''}'')" using writes_closing by blast
    from writes_seq(1) [OF put_any_writes(1) this] False show ?thesis by simp
  qed (use writes_seq(1) [OF put_any_writes(1) put_any_writes(1)] in simp)
next
  case (8 v vs level "done")
  have rest: "writes (if vs = [] then done else unless_failed (sb_putc CHR '','') (dump_items_sb vs level done))
      ((if vs = [] then [] else CHR '','' # dump_items vs level) @ t)"
    using 8(2) [OF _ 8(3)] 8(3) writes_seq(1) [OF put_any_writes(1), of _ _ "CHR '',''"] by (cases "vs = []") auto
  show ?case using writes_indent [OF writes_seq(1) [OF 8(1) rest], of "level + 1"] by simp
next
  case (10 k v kvs level "done")
  have rest: "writes (if kvs = [] then done else unless_failed (sb_putc CHR '','') (dump_members_sb kvs level done))
      ((if kvs = [] then [] else CHR '','' # dump_members kvs level) @ t)"
    using 10(2) [OF _ 10(3)] 10(3) writes_seq(1) [OF put_any_writes(1), of _ _ "CHR '',''"] by (cases "kvs = []") auto
  note m = writes_seq(2) [OF escape_string_writes [of k] writes_seq(1) [OF put_any_writes(2) [of "'': ''"] writes_seq(1) [OF 10(1) rest]]]
  show ?case using writes_indent [OF m, of "level + 1"] by (cases "kvs = []") simp_all
qed (simp_all add: escape_string_writes)

lemma zero_ok: "sb_ok sbuf_zero" "sb_text sbuf_zero = []"
  by (simp_all add: sbuf_zero_def sb_ok_def sb_text_def)

text \<open>With memory left the buffered writer returns what the writer on strings does.\<close>

lemma json_dumps_refines:
  assumes "cstring (dump_value v 0)"
  shows "json_dumps_sb (Some v) [] = Some (json_dumps (Some v))"
proof -
  obtain b where b: "unless_failed (dump_value_sb v 0) (sb_putc CHR 0x00) (sbuf_zero, []) = Some (True, b, [])" "sb_ok b"
    "sb_text b = dump_value v 0 @ [CHR 0x00]"
    using writes_seq(1) [OF dump_value_writes(1) put_any_writes(1)] zero_ok unfolding writes_def by (metis append_Nil)
  have "resize (sb_len b) (sb_p b) = sb_text b" using b(2) by (simp add: resize_def sb_text_def sb_ok_def)
  then show ?thesis using b(1,3) assms by (auto simp: json_dumps_sb_def json_dumps_def cstr_def cstring_def takeWhile_tail)
qed

text \<open>Writable documents hold no NUL.\<close>

lemma escape_cstring: "list_all json_ok_char str \<Longrightarrow> cstring (escape_string str)"
proof -
  have "CHR 0x00 \<notin> set (escape_char c)" if "json_ok_char c" for c
  proof (cases "ordc c < 0x20")
    case True
    with that have "ordc c \<in> {8, 9, 10, 12, 13}" by (simp add: json_ok_char_def)
    from control_cases [OF this] show ?thesis by (auto simp: escape_char_def)
  next
    case False
    then have "c \<noteq> CHR 0x00" by auto
    with False show ?thesis by (auto simp: escape_char_def)
  qed
  moreover assume "list_all json_ok_char str"
  ultimately show ?thesis by (auto simp: escape_string_def cstring_def list_all_iff)
qed

lemma numchar_cstring: "list_all is_numchar t \<Longrightarrow> cstring t"
  by (auto simp: cstring_def list_all_iff is_numchar_def isdigit_def)

lemma cstring_simps [simp]: "cstring []" "cstring (c # t) \<longleftrightarrow> c \<noteq> CHR 0x00 \<and> cstring t" "cstring (t @ u) \<longleftrightarrow> cstring t \<and> cstring u"
  "cstring (replicate n CHR '' '')"
  by (auto simp: cstring_def)

lemma dump_cstring:
  "json_writable v \<Longrightarrow> cstring (dump_value v level)"
  "list_all json_writable vs \<Longrightarrow> cstring (dump_items vs level)"
  "list_all (\<lambda>(k, v). list_all json_ok_char k \<and> json_writable v) kvs \<Longrightarrow> cstring (dump_members kvs level)"
  by (induction v level and vs level and kvs level rule: dump_value_dump_items_dump_members.induct)
    (auto simp: json_num_ok_def Let_def escape_cstring numchar_cstring)

section \<open>Running out of memory\<close>

text \<open>Documents without a string or a key: whatever allocation fails, no write leaves the block.\<close>

fun stringless :: "json_value \<Rightarrow> bool" where
  "stringless (JStr str) = False"
| "stringless (JArr vs) = list_all stringless vs"
| "stringless (JObj kvs) = (kvs = [])"
| "stringless v = True"

lemma stringless_sound:
  "stringless v \<Longrightarrow> sound (dump_value_sb v level)"
  "list_all stringless vs \<Longrightarrow> sound done \<Longrightarrow> sound (dump_items_sb vs level done)"
  "kvs = [] \<Longrightarrow> sound done \<Longrightarrow> sound (dump_members_sb kvs level done)"
  by (induction v level and vs level "done" and kvs level "done" rule: dump_value_sb_dump_items_sb_dump_members_sb.induct)
    (auto intro!: unless_sound)

lemma stringless_no_overrun:
  assumes "stringless v"
  shows "json_dumps_sb (Some v) al \<noteq> None"
proof -
  have "sound (unless_failed (dump_value_sb v 0) (sb_putc CHR 0x00))"
    using stringless_sound(1) [OF assms] by (intro unless_sound) simp_all
  then show ?thesis using zero_ok(1) by (auto simp: json_dumps_sb_def sound_def Let_def split: option.splits bool.splits)
qed

text \<open>
  \<^verbatim>\<open>escape_string\<close> ignores a failed write, and \<^verbatim>\<open>sb_reserve\<close> has already recorded the larger size: for every string, when the
  first allocation fails the next byte is stored through the null pointer.
\<close>

lemma string_overruns: "json_dumps_sb (Some (JStr str)) (False # al) = None"
proof -
  define b where "b = \<lparr>sb_p = [], sb_len = 0, sb_cap = 64\<rparr>"
  have "sb_putc CHR 0x22 (sbuf_zero, False # al) = Some (False, b, al)"
    by (simp add: sb_putc_def sb_put_def sb_reserve_def sbuf_zero_def b_def Let_def grow_cap.simps)
  moreover have put: "sb_put t (b, al) = None" if "t \<noteq> []" "length t \<le> 64" for t
    using that by (simp add: sb_put_def sb_reserve_def b_def sb_write_def)
  have esc: "escape_char c \<noteq> []" "length (escape_char c) \<le> 64" for c by (simp_all add: escape_char_def)
  have "foldr (\<lambda>c. regardless (escape_char_sb c)) str (regardless (sb_putc CHR 0x22) (\<lambda>s. Some (True, s))) (b, al) = None"
  proof (cases str)
    case Nil
    then show ?thesis by (simp add: regardless_def sb_putc_def put)
  next
    case (Cons c cs)
    have "escape_char_sb c (b, al) = None" using put [of "[c]"] put [OF esc, of c] by (simp add: escape_char_sb_def put_defs)
    then show ?thesis using Cons by (simp add: regardless_def)
  qed
  ultimately show ?thesis by (simp add: json_dumps_sb_def unless_failed_def escape_string_sb_def regardless_def)
qed

section \<open>Round trip through memory\<close>

text \<open>
  C6: \<open>json_parse\<close> reads back every document \<open>json_dumps\<close> writes: with memory for its growing buffer the writer never leaves its
  block and returns a text, and parsing that text gives the document again, when nesting stays within the parser's limit, strings
  hold no control character without a short escape and each number is one its decimal form denotes.
\<close>

theorem json_roundtrip:
  assumes "json_writable v" and "json_depth v \<le> JSON_MAX_DEPTH"
  shows "\<exists>text p. json_dumps_sb (Some v) [] = Some (Some text) \<and> json_parse text = POk v p"
  using json_roundtrip_tree [OF assms, of "dump_value v 0"] json_dumps_refines [OF dump_cstring(1) [OF assms(1)]]
  by (simp add: json_dumps_def)

theorem json_roundtrip_witness:
  "\<exists>text p. json_dumps_sb (Some (JObj [(''bias'', JArr [JNum (dlit 1 4), JNum (dlit (- 3) 2)]), (''name'', JStr ''lg''), (''on'', JBool True)])) [] =
     Some (Some text) \<and>
   json_parse text = POk (JObj [(''bias'', JArr [JNum (dlit 1 4), JNum (dlit (- 3) 2)]), (''name'', JStr ''lg''), (''on'', JBool True)]) p"
  (is "\<exists>text p. json_dumps_sb (Some ?v) [] = Some (Some text) \<and> json_parse text = POk ?v p")
proof (rule json_roundtrip)
  show "json_writable ?v" by code_simp
  show "json_depth ?v \<le> JSON_MAX_DEPTH" by code_simp
qed

end
