(* ===== verification/Blocks.thy ===== *)
theory Blocks
  imports Prelude "HOL-Library.Monad_Syntax"
begin

text \<open>
  The heap of the libraries that build trees of allocated nodes (JSON, TOML, D-Bus values): live blocks that hold a node, a
  string or an array of pointers, with every allocation allowed to fail. Touching a block that is not live, or freeing one
  twice, is a fault (\<^const>\<open>None\<close>). The lemmas say which blocks a step takes over and which it leaves alone.
\<close>

section \<open>Memory\<close>

text \<open>\<open>'n\<close> is the struct of the library; a pointer is \<^const>\<open>None\<close> when it is \<^verbatim>\<open>NULL\<close>.\<close>

type_synonym ptr = "nat option"

datatype 'n cell = Node 'n | Text string | Ptrs "ptr list"

type_synonym 'n blocks = "nat \<Rightarrow> 'n cell option"

text \<open>
  The live blocks, the address of the next one, and the outcomes of the next allocations, which succeed when the list is
  empty. Addresses are not used again, so that a dangling pointer never hits a live block by accident, and a \<^verbatim>\<open>realloc\<close> that
  grows moves its block. \<open>m_shrinks\<close> says whether the C library shrinks a block in place, without fail (as the GNU library
  does); the standard does not promise it.
\<close>

record 'n memory =
  m_heap :: "'n blocks"
  m_next :: nat
  m_outcomes :: "bool list"
  m_shrinks :: bool

definition mem_empty :: "'n memory" where
  "mem_empty = \<lparr>m_heap = Map.empty, m_next = 0, m_outcomes = [], m_shrinks = True\<rparr>"

definition mem_alloc :: "'n cell \<Rightarrow> 'n memory \<Rightarrow> ptr \<times> 'n memory" where
  "mem_alloc c s =
     (let s' = s\<lparr>m_outcomes := tl (m_outcomes s)\<rparr>
      in if m_outcomes s \<noteq> [] \<and> \<not> hd (m_outcomes s) then (None, s')
         else (Some (m_next s), s'\<lparr>m_heap := (m_heap s)(m_next s \<mapsto> c), m_next := m_next s + 1\<rparr>))"

definition mem_free :: "ptr \<Rightarrow> 'n memory \<Rightarrow> 'n memory option" where
  "mem_free p s = (case p of
     None \<Rightarrow> Some s
   | Some a \<Rightarrow> if m_heap s a = None then None else Some (s\<lparr>m_heap := (m_heap s)(a := None)\<rparr>))"

definition mem_put :: "nat \<Rightarrow> 'n cell \<Rightarrow> 'n memory \<Rightarrow> 'n memory option" where
  "mem_put a c s = (if m_heap s a = None then None else Some (s\<lparr>m_heap := (m_heap s)(a \<mapsto> c)\<rparr>))"

definition read_node :: "nat \<Rightarrow> 'n memory \<Rightarrow> 'n option" where
  "read_node a s = (case m_heap s a of Some (Node n) \<Rightarrow> Some n | _ \<Rightarrow> None)"

definition read_text :: "ptr \<Rightarrow> 'n memory \<Rightarrow> string option" where
  "read_text p s = (case p of None \<Rightarrow> None | Some a \<Rightarrow> (case m_heap s a of Some (Text t) \<Rightarrow> Some t | _ \<Rightarrow> None))"

definition read_ptrs :: "ptr \<Rightarrow> 'n memory \<Rightarrow> ptr list option" where
  "read_ptrs p s = (case p of None \<Rightarrow> None | Some a \<Rightarrow> (case m_heap s a of Some (Ptrs xs) \<Rightarrow> Some xs | _ \<Rightarrow> None))"

definition read_ptr :: "ptr \<Rightarrow> nat \<Rightarrow> 'n memory \<Rightarrow> ptr option" where
  "read_ptr p i s = do { xs \<leftarrow> read_ptrs p s; if i < length xs then Some (xs ! i) else None }"

definition put_ptr :: "ptr \<Rightarrow> nat \<Rightarrow> ptr \<Rightarrow> 'n memory \<Rightarrow> 'n memory option" where
  "put_ptr p i x s = do {
     xs \<leftarrow> read_ptrs p s;
     if i < length xs then mem_put (the p) (Ptrs (xs[i := x])) s else None }"

text \<open>\<^verbatim>\<open>realloc\<close> of an array of \<open>n\<close> pointers; with \<open>n = 0\<close> the C library frees the block and returns \<^verbatim>\<open>NULL\<close>.\<close>

definition realloc_ptrs :: "ptr \<Rightarrow> nat \<Rightarrow> 'n memory \<Rightarrow> (ptr \<times> 'n memory) option" where
  "realloc_ptrs p n s = (case p of
     None \<Rightarrow> Some (mem_alloc (Ptrs (replicate n None)) s)
   | Some a \<Rightarrow> do {
       xs \<leftarrow> read_ptrs p s;
       if n = 0 then do { s \<leftarrow> mem_free p s; Some (None, s) }
       else if n \<le> length xs \<and> m_shrinks s then do { s \<leftarrow> mem_put a (Ptrs (take n xs)) s; Some (p, s) }
       else (case mem_alloc (Ptrs (take n xs @ replicate (n - length xs) None)) s of
               (None, s) \<Rightarrow> Some (None, s)
             | (q, s) \<Rightarrow> do { s \<leftarrow> mem_free p s; Some (q, s) }) })"

section \<open>Blocks that change hands\<close>

definition mem_ok :: "'n memory \<Rightarrow> bool" where
  "mem_ok s \<longleftrightarrow> dom (m_heap s) \<subseteq> {..<m_next s}"

text \<open>
  \<open>moves A s B s'\<close>: a step that owns the live blocks \<open>A\<close> ends up owning \<open>B\<close>, old blocks of \<open>A\<close> or new ones, and leaves all
  others as they are.
\<close>

definition moves :: "nat set \<Rightarrow> 'n memory \<Rightarrow> nat set \<Rightarrow> 'n memory \<Rightarrow> bool" where
  "moves A s B s' \<longleftrightarrow> mem_ok s \<and> mem_ok s' \<and> m_next s \<le> m_next s' \<and> A \<subseteq> dom (m_heap s) \<and> B \<subseteq> dom (m_heap s') \<and>
     (\<forall>a. a < m_next s \<longrightarrow> a \<notin> A \<longrightarrow> m_heap s' a = m_heap s a) \<and> B \<subseteq> A \<union> {m_next s..} \<and>
     dom (m_heap s') = dom (m_heap s) - A \<union> B \<and> (m_outcomes s = [] \<longrightarrow> m_outcomes s' = []) \<and>
     m_shrinks s' = m_shrinks s"

lemma moves_refl: "mem_ok s \<Longrightarrow> A \<subseteq> dom (m_heap s) \<Longrightarrow> moves A s A s"
  by (auto simp: moves_def)

lemma movesD:
  assumes "moves A s B s'"
  shows "mem_ok s" "mem_ok s'" "m_next s \<le> m_next s'" "A \<subseteq> dom (m_heap s)" "B \<subseteq> dom (m_heap s')"
    "\<And>a. a < m_next s \<Longrightarrow> a \<notin> A \<Longrightarrow> m_heap s' a = m_heap s a" "B \<subseteq> A \<union> {m_next s..}"
    "dom (m_heap s') = dom (m_heap s) - A \<union> B" "m_outcomes s = [] \<Longrightarrow> m_outcomes s' = []" "m_shrinks s' = m_shrinks s" "dom (m_heap s) \<subseteq> {..<m_next s}"
  using assms unfolding moves_def by (blast, blast, blast, blast, blast, blast, blast, blast, blast, blast, simp add: mem_ok_def)

lemma moves_disjoint: "moves A s B s' \<Longrightarrow> F \<subseteq> dom (m_heap s) \<Longrightarrow> F \<inter> A = {} \<Longrightarrow> F \<inter> B = {}"
  using movesD(7,11) [of A s B s'] by fastforce

lemma moves_frame:
  assumes "moves A s B s'" and "F \<subseteq> dom (m_heap s)" and "F \<inter> A = {}"
  shows "moves (A \<union> F) s (B \<union> F) s'"
proof -
  have F: "F \<subseteq> dom (m_heap s')" using movesD(8) [OF assms(1)] assms(2,3) by auto
  have "dom (m_heap s') = dom (m_heap s) - (A \<union> F) \<union> (B \<union> F)" using movesD(8) [OF assms(1)] assms(2,3) by auto
  moreover have "B \<union> F \<subseteq> A \<union> F \<union> {m_next s..}" using movesD(7) [OF assms(1)] by auto
  ultimately show ?thesis
    unfolding moves_def using movesD(1-6,9,10) [OF assms(1)] assms(2) F by (intro conjI allI impI) simp_all
qed

lemma moves_trans:
  assumes "moves A s B s'" and "moves B s' C s''"
  shows "moves A s C s''"
proof -
  note 1 = movesD [OF assms(1)] and 2 = movesD [OF assms(2)]
  have B: "a \<notin> B" if "a < m_next s" "a \<notin> A" for a using that 1(7) by auto
  have "m_heap s'' a = m_heap s a" if "a < m_next s" "a \<notin> A" for a
    using 1(6) [OF that] 2(6) [OF _ B [OF that]] that 1(3) by simp
  moreover have "C \<subseteq> A \<union> {m_next s..}" using 1(3,7) 2(7) by fastforce
  moreover have "dom (m_heap s'') = dom (m_heap s) - A \<union> C"
  proof -
    have "B \<inter> (dom (m_heap s) - A) = {}" using 1(7,11) by fastforce
    then show ?thesis using 1(8) 2(8) by auto
  qed
  ultimately show ?thesis
    unfolding moves_def using 1(1,3,4,9,10) 2(2,3,5,9,10) by (intro conjI allI impI) simp_all
qed

lemma moves_same: "moves A s B s' \<Longrightarrow> x \<in> dom (m_heap s) \<Longrightarrow> x \<notin> A \<Longrightarrow> m_heap s' x = m_heap s x"
  by (auto simp: moves_def mem_ok_def)

text \<open>A step on part of the owned blocks.\<close>

lemma moves_in:
  assumes "moves A s0 B s" and "moves P s Q s'" and "P \<subseteq> B"
  shows "moves A s0 (B - P \<union> Q) s'"
proof -
  have "moves (P \<union> (B - P)) s (Q \<union> (B - P)) s'"
    using movesD(5) [OF assms(1)] by (intro moves_frame assms(2)) auto
  moreover have "P \<union> (B - P) = B" using assms(3) by auto
  ultimately show ?thesis using moves_trans [OF assms(1)] by (simp add: Un_commute)
qed

lemma alloc_moves:
  assumes "mem_ok s"
  obtains (fail) s' where "mem_alloc c s = (None, s')" "moves {} s {} s'" "m_outcomes s \<noteq> []" "m_heap s' = m_heap s"
  | (new) a s' where "mem_alloc c s = (Some a, s')" "moves {} s {a} s'" "m_heap s' = (m_heap s)(a \<mapsto> c)" "a \<notin> dom (m_heap s)"
proof (cases "m_outcomes s \<noteq> [] \<and> \<not> hd (m_outcomes s)")
  case True
  then show ?thesis using assms
    by (intro fail [of "s\<lparr>m_outcomes := tl (m_outcomes s)\<rparr>"]) (auto simp: mem_alloc_def moves_def mem_ok_def)
next
  case False
  have "m_next s \<notin> dom (m_heap s)" using assms by (auto simp: mem_ok_def)
  then show ?thesis using assms False
    by (intro new [of "m_next s" "s\<lparr>m_outcomes := tl (m_outcomes s), m_heap := (m_heap s)(m_next s \<mapsto> c), m_next := m_next s + 1\<rparr>"])
      (simp, auto simp: mem_alloc_def moves_def mem_ok_def Let_def dest: less_imp_neq)
qed

lemma free_moves:
  assumes "mem_ok s" and "a \<in> dom (m_heap s)"
  obtains s' where "mem_free (Some a) s = Some s'" "moves {a} s {} s'" "m_heap s' = (m_heap s)(a := None)"
proof -
  have "mem_free (Some a) s = Some (s\<lparr>m_heap := (m_heap s)(a := None)\<rparr>)" using assms(2) by (auto simp: mem_free_def)
  moreover have "moves {a} s {} (s\<lparr>m_heap := (m_heap s)(a := None)\<rparr>)" using assms by (auto simp: moves_def mem_ok_def)
  ultimately show ?thesis using that by simp
qed

lemma put_moves:
  assumes "mem_ok s" and "a \<in> dom (m_heap s)"
  obtains s' where "mem_put a c s = Some s'" "moves {a} s {a} s'" "m_heap s' = (m_heap s)(a \<mapsto> c)"
proof -
  have "mem_put a c s = Some (s\<lparr>m_heap := (m_heap s)(a \<mapsto> c)\<rparr>)" using assms(2) by (auto simp: mem_put_def)
  moreover have "moves {a} s {a} (s\<lparr>m_heap := (m_heap s)(a \<mapsto> c)\<rparr>)" using assms by (auto simp: moves_def mem_ok_def)
  ultimately show ?thesis using that by simp
qed

lemma moves_ok: "moves A s B s' \<Longrightarrow> mem_ok s'" "moves A s B s' \<Longrightarrow> mem_ok s"
  by (simp_all add: moves_def)

section \<open>Arrays of pointers\<close>

text \<open>An array of \<open>n\<close> pointers in its block (a larger one, or none at all while it is empty).\<close>

definition ptrs_at :: "'n blocks \<Rightarrow> ptr \<Rightarrow> ptr list \<Rightarrow> nat set \<Rightarrow> bool" where
  "ptrs_at h p ps P \<longleftrightarrow> P = set_option p \<and>
     (case p of None \<Rightarrow> ps = [] | Some a \<Rightarrow> \<exists>xs. h a = Some (Ptrs xs) \<and> length ps \<le> length xs \<and> ps = take (length ps) xs)"

lemma ptrs_at_frame: "ptrs_at h p ps P \<Longrightarrow> (\<And>x. x \<in> P \<Longrightarrow> h' x = h x) \<Longrightarrow> ptrs_at h' p ps P"
  by (auto simp: ptrs_at_def split: option.splits)

lemma read_ptrs_at: "h = m_heap s \<Longrightarrow> h q = Some (Ptrs xs) \<Longrightarrow> read_ptrs (Some q) s = Some xs"
  by (simp add: read_ptrs_def)

lemma put_ptr_moves:
  assumes "mem_ok s" and "m_heap s q = Some (Ptrs xs)" and "i < length xs"
  obtains s' where "put_ptr (Some q) i x s = Some s'" "moves {q} s {q} s'" "m_heap s' = (m_heap s)(q \<mapsto> Ptrs (xs[i := x]))"
proof -
  obtain s' where "mem_put q (Ptrs (xs[i := x])) s = Some s'" "moves {q} s {q} s'" "m_heap s' = (m_heap s)(q \<mapsto> Ptrs (xs[i := x]))"
    using put_moves [OF assms(1), of q] assms(2) by blast
  then show ?thesis using that assms by (simp add: put_ptr_def read_ptrs_def)
qed

lemma realloc_grow:
  assumes "mem_ok s" and "ptrs_at (m_heap s) p ps P"
  obtains (fail) s' where "realloc_ptrs p (length ps + 1) s = Some (None, s')" "moves {} s {} s'" "m_outcomes s \<noteq> []" "m_heap s' = m_heap s"
  | (moved) q xs s' where "realloc_ptrs p (length ps + 1) s = Some (Some q, s')" "moves P s {q} s'" "m_heap s' q = Some (Ptrs xs)"
      "length xs = length ps + 1" "take (length ps) xs = ps"
proof (cases p)
  case None
  have p: "P = {}" "ps = []" using assms(2) None by (auto simp: ptrs_at_def)
  show ?thesis
    using assms(1)
  proof (cases rule: alloc_moves [where c = "Ptrs [None]"])
    case (fail s')
    then show ?thesis using that(1) None p by (simp add: realloc_ptrs_def)
  next
    case (new a s')
    then show ?thesis using that(2) [of a s' "[None]"] None p by (simp add: realloc_ptrs_def)
  qed
next
  case (Some b)
  then obtain ys where ys: "m_heap s b = Some (Ptrs ys)" "length ps \<le> length ys" "ps = take (length ps) ys" "P = {b}"
    using assms(2) by (auto simp: ptrs_at_def)
  show ?thesis
  proof (cases "length ps + 1 \<le> length ys \<and> m_shrinks s")
    case True
    obtain s' where "mem_put b (Ptrs (take (length ps + 1) ys)) s = Some s'" "moves {b} s {b} s'"
        "m_heap s' = (m_heap s)(b \<mapsto> Ptrs (take (length ps + 1) ys))"
      using put_moves [OF assms(1), of b] ys(1) by blast
    then show ?thesis
      using that(2) [of b s' "take (length ps + 1) ys"] True Some ys by (simp add: realloc_ptrs_def read_ptrs_def min_def)
  next
    case False
    define xs where "xs = take (length ps + 1) ys @ replicate (length ps + 1 - length ys) None"
    have xs: "length xs = length ps + 1" "take (length ps) xs = ps" using ys by (simp_all add: xs_def min_def)
    have red: "realloc_ptrs p (length ps + 1) s = (case mem_alloc (Ptrs xs) s of
        (None, s) \<Rightarrow> Some (None, s) | (q, s) \<Rightarrow> do { s \<leftarrow> mem_free p s; Some (q, s) })"
      using False ys(1) unfolding Some xs_def by (auto simp: realloc_ptrs_def read_ptrs_def)
    show ?thesis
      using assms(1)
    proof (cases rule: alloc_moves [where c = "Ptrs xs"])
      case (fail s')
      then show ?thesis using that(1) [of s', unfolded red] by simp
    next
      case (new a s')
      have m: "moves {b} s {a, b} s'"
        using moves_frame [OF new(2), of "{b}"] ys(1) by (auto simp: insert_commute)
      obtain s'' where s'': "mem_free (Some b) s' = Some s''" "moves {b} s' {} s''" "m_heap s'' = (m_heap s')(b := None)"
        using free_moves [OF moves_ok(1) [OF m], of b] movesD(5) [OF m] by auto
      have "a \<noteq> b" using new(4) ys(1) by auto
      have "moves {b} s ({a, b} - {b} \<union> {}) s''" by (rule moves_in [OF m s''(2)]) simp
      moreover have "{a, b} - {b} \<union> {} = {a}" using \<open>a \<noteq> b\<close> by auto
      ultimately have "moves {b} s {a} s''" by simp
      then show ?thesis
        using that(2) [of a s'' xs, unfolded red] new(1,3) s''(1,3) xs \<open>a \<noteq> b\<close> ys(4) by (simp add: Some)
    qed
  qed
qed

text \<open>Giving the new slot back: only an allocator that shrinks without fail is safe here.\<close>

lemma realloc_shrink:
  assumes "mem_ok s" and "m_shrinks s" and "ptrs_at (m_heap s) (Some q) ps {q}"
  obtains r s' where "realloc_ptrs (Some q) (length ps) s = Some (r, s')" "moves {q} s (set_option r) s'"
    "ptrs_at (m_heap s') r ps (set_option r)"
proof -
  obtain xs where xs: "m_heap s q = Some (Ptrs xs)" "length ps \<le> length xs" "ps = take (length ps) xs"
    using assms(3) by (auto simp: ptrs_at_def)
  show ?thesis
  proof (cases "ps = []")
    case True
    obtain s' where "mem_free (Some q) s = Some s'" "moves {q} s {} s'" using free_moves [OF assms(1), of q] xs by blast
    then show ?thesis using that [of None s'] True xs by (simp add: realloc_ptrs_def read_ptrs_def ptrs_at_def)
  next
    case False
    obtain s' where "mem_put q (Ptrs ps) s = Some s'" "moves {q} s {q} s'" "m_heap s' = (m_heap s)(q \<mapsto> Ptrs ps)"
      using put_moves [OF assms(1), of q] xs by blast
    then show ?thesis using that [of "Some q" s'] False xs assms(2) by (simp add: realloc_ptrs_def read_ptrs_def ptrs_at_def)
  qed
qed

lemma read_node_at: "m_heap s a = Some (Node n) \<Longrightarrow> read_node a s = Some n"
  by (simp add: read_node_def)

text \<open>What a step on other blocks leaves in place.\<close>

lemma cell_moves: "m_heap s x = Some c \<Longrightarrow> moves A s B s' \<Longrightarrow> x \<notin> A \<Longrightarrow> m_heap s' x = Some c"
  using moves_same [of A s B s' x] by auto

lemma ptrs_at_moves: "ptrs_at (m_heap s) p ps P \<Longrightarrow> moves A s B s' \<Longrightarrow> P \<inter> A = {} \<Longrightarrow> ptrs_at (m_heap s') p ps P"
  using cell_moves [of s _ _ A B s'] by (fastforce simp: ptrs_at_def split: option.splits)

lemma ptrs_at_dom: "ptrs_at h p ps P \<Longrightarrow> P = set_option p \<and> P \<subseteq> dom h"
  by (auto simp: ptrs_at_def split: option.splits)

lemma grow_or_keep:
  assumes "mem_ok s" and "ptrs_at (m_heap s) p ps P"
  obtains r q s' where "realloc_ptrs p (length ps + 1) s = Some (r, s')" "q = (if r = None then p else r)"
    "moves P s (set_option q) s'" "ptrs_at (m_heap s') q ps (set_option q)" "r = None \<longrightarrow> m_outcomes s \<noteq> []"
    "\<forall>a. r = Some a \<longrightarrow> (\<exists>xs. m_heap s' a = Some (Ptrs xs) \<and> length xs = length ps + 1 \<and> take (length ps) xs = ps)"
  using assms
proof (cases rule: realloc_grow)
  case (fail s')
  have "moves P s P s'"
    using moves_frame [OF fail(2), of P] ptrs_at_dom [OF assms(2)] by auto
  then show ?thesis using that [of None s' p] fail assms(2) ptrs_at_dom [OF assms(2)] by simp
next
  case (moved q xs s')
  then show ?thesis using that [of "Some q" s' "Some q"] by (simp add: ptrs_at_def)
qed

lemma shrink_back:
  assumes "mem_ok s" and "m_shrinks s" and "q = (if r = None then p else r)" and "ptrs_at (m_heap s) q ps (set_option q)"
  obtains r' s' where "(if r \<noteq> None then realloc_ptrs r (length ps) s else Some (p, s)) = Some (r', s')"
    "moves (set_option q) s (set_option r') s'" "ptrs_at (m_heap s') r' ps (set_option r')"
proof (cases r)
  case None
  then show ?thesis using that [of p s] assms ptrs_at_dom [OF assms(4)] by (simp add: moves_refl)
next
  case (Some b)
  then have "ptrs_at (m_heap s) (Some b) ps {b}" using assms(3,4) by simp
  from realloc_shrink [OF assms(1,2) this] show ?thesis using that Some assms(3) by auto
qed

lemma moves_gone:
  assumes "moves A s {} s1" and "moves B s1 {} s2" and "B \<subseteq> dom (m_heap s)" and "A \<inter> B = {}"
  shows "moves (A \<union> B) s {} s2"
proof -
  have "moves (A \<union> B) s ({} \<union> B) s1" by (rule moves_frame [OF assms(1)]) (use assms in auto)
  from moves_trans [OF this] assms(2) show ?thesis by simp
qed

lemma read_ptr_at: "ptrs_at (m_heap s) p (qs @ x # ps) P \<Longrightarrow> read_ptr p (length qs) s = Some x"
proof (cases p)
  case (Some b)
  assume "ptrs_at (m_heap s) p (qs @ x # ps) P"
  then obtain xs where xs: "m_heap s b = Some (Ptrs xs)" "length (qs @ x # ps) \<le> length xs" "qs @ x # ps = take (length (qs @ x # ps)) xs"
    using Some by (auto simp: ptrs_at_def)
  then have "xs ! length qs = (qs @ x # ps) ! length qs" by (metis add_Suc_right length_Cons length_append less_add_Suc1 nth_take)
  then show ?thesis using xs Some by (simp add: read_ptr_def read_ptrs_def)
qed (simp add: ptrs_at_def)

lemma free_block:
  assumes "mem_ok s" and "ptrs_at (m_heap s) p ps P"
  shows "\<exists>s'. mem_free p s = Some s' \<and> moves P s {} s'"
proof (cases p)
  case None
  then show ?thesis using assms by (auto simp: ptrs_at_def mem_free_def moves_refl)
next
  case (Some b)
  then have "P = {b}" "b \<in> dom (m_heap s)" using ptrs_at_dom [OF assms(2)] by auto
  then show ?thesis using free_moves [OF assms(1), of b] Some by blast
qed

lemma moves_restores:
  assumes "moves {} s {} s'"
  shows "m_heap s' = m_heap s"
proof
  fix a
  show "m_heap s' a = m_heap s a"
  proof (cases "a \<in> dom (m_heap s)")
    case True
    then show ?thesis using moves_same [OF assms] by simp
  next
    case False
    then have "a \<notin> dom (m_heap s')" using movesD(8) [OF assms] by simp
    with False show ?thesis by (auto simp: domIff)
  qed
qed

lemma moves_keeps: "moves {} s B s' \<Longrightarrow> m_heap s \<subseteq>\<^sub>m m_heap s'"
  using moves_same [of "{}" s B s'] by (auto simp: map_le_def)

section \<open>Trees that own their blocks\<close>

text \<open>
  What a library of allocated trees promises: \<open>tree_at\<close> names the blocks of a tree, which only depends on them; releasing a tree
  that is not too deep frees exactly those; and a pointer to a freed node is never followed.
\<close>

locale owned_tree =
  fixes tree_at :: "'n blocks \<Rightarrow> nat \<Rightarrow> 'v \<Rightarrow> nat set \<Rightarrow> bool"
    and release :: "ptr \<Rightarrow> 'n memory \<Rightarrow> 'n memory option"
    and fits :: "'v \<Rightarrow> bool"
  assumes tree_frame: "tree_at h a v B \<Longrightarrow> (\<And>x. x \<in> B \<Longrightarrow> h' x = h x) \<Longrightarrow> tree_at h' a v B"
    and tree_dom: "tree_at h a v B \<Longrightarrow> a \<in> B \<and> B \<subseteq> dom h"
    and release_ok: "mem_ok s \<Longrightarrow> tree_at (m_heap s) a v B \<Longrightarrow> fits v \<Longrightarrow> \<exists>s'. release (Some a) s = Some s' \<and> moves B s {} s'"
    and release_dead: "m_heap s a = None \<Longrightarrow> release (Some a) s = None"
begin

lemma release_tree:
  assumes "moves A s0 L s" and "tree_at (m_heap s) a v B" and "B \<subseteq> L" and "fits v"
  obtains s' where "release (Some a) s = Some s'" "moves A s0 (L - B) s'"
  using release_ok [OF moves_ok(1) [OF assms(1)] assms(2,4)] moves_in [OF assms(1) _ assms(3), of "{}"] by auto

text \<open>What was built on new blocks and is released leaves nothing behind, and is not released a second time.\<close>

lemma built_released:
  assumes "moves {} s B s1" and "tree_at (m_heap s1) a v B" and "fits v"
  shows "\<exists>s2. release (Some a) s1 = Some s2 \<and> m_heap s2 = m_heap s \<and> release (Some a) s2 = None"
proof -
  obtain s2 where s2: "release (Some a) s1 = Some s2" "moves {} s (B - B) s2"
    using release_tree [OF assms(1,2) subset_refl assms(3)] .
  have "a \<in> B" using tree_dom [OF assms(2)] by simp
  then have "a \<notin> dom (m_heap s)" using moves_disjoint [OF assms(1), of "dom (m_heap s)"] by auto
  moreover have "m_heap s2 = m_heap s" using moves_restores s2(2) by simp
  ultimately show ?thesis using s2(1) release_dead [of s2 a] by (auto simp: domIff)
qed

lemma tree_moves: "tree_at (m_heap s) a v F \<Longrightarrow> moves A s B s' \<Longrightarrow> F \<inter> A = {} \<Longrightarrow> tree_at (m_heap s') a v F"
  by (rule tree_frame, assumption, rule moves_same, assumption) (use tree_dom in blast)+

end

end
