(* ===== verification/Json_Memory.thy ===== *)
theory Json_Memory
  imports Json_Roundtrip Blocks
begin

text \<open>
  The JSON trees of \<^verbatim>\<open>tools/src/json.c\<close> as the blocks the code allocates: the construction functions, the parser and
  \<^verbatim>\<open>json_free\<close> over a heap of live blocks, with every allocation allowed to fail. Touching a block that is not live, or
  freeing one twice, is a fault. The parser never faults, a document it returns is the one of \<^const>\<open>json_parse\<close> on
  blocks of its own, and \<^verbatim>\<open>json_free\<close> gives exactly those blocks back. A text that breaks off inside of a nested value
  loses the blocks of that value.
\<close>

section \<open>Nodes\<close>

text \<open>
  \<^verbatim>\<open>struct json_value\<close>: \<open>jn_ptr\<close> is \<^verbatim>\<open>str\<close> or \<^verbatim>\<open>items\<close>, which share their storage with \<^verbatim>\<open>boolean\<close> and \<^verbatim>\<open>num\<close>; the code reads
  of the union only what belongs to the type. \<^const>\<open>None\<close> is \<^verbatim>\<open>NULL\<close>.
\<close>

datatype json_type = JSON_NULL | JSON_BOOL | JSON_NUM | JSON_STR | JSON_ARR | JSON_OBJ

record json_node =
  jn_type :: json_type
  jn_boolean :: bool
  jn_num :: cdouble
  jn_ptr :: ptr
  jn_keys :: ptr
  jn_count :: nat

type_synonym json_memory = "json_node memory"

section \<open>Construction\<close>

definition zero_node :: "json_type \<Rightarrow> json_node" where
  "zero_node t = \<lparr>jn_type = t, jn_boolean = False, jn_num = d0, jn_ptr = None, jn_keys = None, jn_count = 0\<rparr>"

definition vnew :: "json_type \<Rightarrow> json_memory \<Rightarrow> ptr \<times> json_memory" where
  "vnew t s = mem_alloc (Node (zero_node t)) s"

definition json_new :: "json_type \<Rightarrow> json_memory \<Rightarrow> ptr \<times> json_memory" where
  "json_new t s = vnew t s"

text \<open>A field of a node that was just allocated; nothing is written when the allocation failed.\<close>

definition set_node :: "(json_node \<Rightarrow> json_node) \<Rightarrow> ptr \<times> json_memory \<Rightarrow> (ptr \<times> json_memory) option" where
  "set_node f ps = (case ps of
     (None, s) \<Rightarrow> Some (None, s)
   | (Some a, s) \<Rightarrow> do { n \<leftarrow> read_node a s; s \<leftarrow> mem_put a (Node (f n)) s; Some (Some a, s) })"

definition json_new_num :: "cdouble \<Rightarrow> json_memory \<Rightarrow> (ptr \<times> json_memory) option" where
  "json_new_num d s = set_node (\<lambda>n. n\<lparr>jn_num := d\<rparr>) (vnew JSON_NUM s)"

definition json_new_str :: "string \<Rightarrow> json_memory \<Rightarrow> (ptr \<times> json_memory) option" where
  "json_new_str t s = (case vnew JSON_STR s of
     (None, s) \<Rightarrow> Some (None, s)
   | (Some a, s) \<Rightarrow>
       (case mem_alloc (Text t) s of
          (None, s) \<Rightarrow> do { s \<leftarrow> mem_free (Some a) s; Some (None, s) }
        | (p, s) \<Rightarrow> set_node (\<lambda>n. n\<lparr>jn_ptr := p\<rparr>) (Some a, s)))"

text \<open>The results say whether the call returned 0.\<close>

definition json_arr_add_at :: "ptr \<Rightarrow> ptr \<Rightarrow> json_memory \<Rightarrow> (bool \<times> json_memory) option" where
  "json_arr_add_at arr val s = (case arr of
     None \<Rightarrow> Some (False, s)
   | Some a \<Rightarrow> do {
       n \<leftarrow> read_node a s;
       if jn_type n \<noteq> JSON_ARR \<or> val = None then Some (False, s)
       else do {
         (items, s) \<leftarrow> realloc_ptrs (jn_ptr n) (jn_count n + 1) s;
         if items = None then Some (False, s)
         else do {
           s \<leftarrow> put_ptr items (jn_count n) val s;
           s \<leftarrow> mem_put a (Node (n\<lparr>jn_ptr := items, jn_count := jn_count n + 1\<rparr>)) s;
           Some (True, s) } } })"

definition json_obj_add_at :: "ptr \<Rightarrow> string \<Rightarrow> ptr \<Rightarrow> json_memory \<Rightarrow> (bool \<times> json_memory) option" where
  "json_obj_add_at obj key val s = (case obj of
     None \<Rightarrow> Some (False, s)
   | Some a \<Rightarrow> do {
       n \<leftarrow> read_node a s;
       if jn_type n \<noteq> JSON_OBJ \<or> val = None then Some (False, s)
       else (case mem_alloc (Text key) s of
         (None, s) \<Rightarrow> Some (False, s)
       | (copy, s) \<Rightarrow> do {
           (items, s) \<leftarrow> realloc_ptrs (jn_ptr n) (jn_count n + 1) s;
           (keys, s) \<leftarrow> realloc_ptrs (jn_keys n) (jn_count n + 1) s;
           if items = None \<or> keys = None then do {
             s \<leftarrow> mem_free copy s;
             (i, s) \<leftarrow> (if items \<noteq> None then realloc_ptrs items (jn_count n) s else Some (jn_ptr n, s));
             (k, s) \<leftarrow> (if keys \<noteq> None then realloc_ptrs keys (jn_count n) s else Some (jn_keys n, s));
             s \<leftarrow> mem_put a (Node (n\<lparr>jn_ptr := i, jn_keys := k\<rparr>)) s;
             Some (False, s) }
           else do {
             s \<leftarrow> put_ptr keys (jn_count n) copy s;
             s \<leftarrow> put_ptr items (jn_count n) val s;
             s \<leftarrow> mem_put a (Node (n\<lparr>jn_ptr := items, jn_keys := keys, jn_count := jn_count n + 1\<rparr>)) s;
             Some (True, s) } }) })"

section \<open>Release\<close>

text \<open>
  \<^verbatim>\<open>json_free\<close> and the loop over the members with the indices that are left; the first argument bounds the depth of the
  recursion.
\<close>

function json_free :: "nat \<Rightarrow> ptr \<Rightarrow> json_memory \<Rightarrow> json_memory option"
and free_members :: "nat \<Rightarrow> nat \<Rightarrow> nat list \<Rightarrow> json_memory \<Rightarrow> json_memory option"
where
  "json_free 0 p s = None"
| "json_free (Suc f) None s = Some s"
| "json_free (Suc f) (Some a) s = do {
     n \<leftarrow> read_node a s;
     s \<leftarrow> (if jn_type n = JSON_STR then mem_free (jn_ptr n) s else Some s);
     s \<leftarrow> (if jn_type n = JSON_ARR \<or> jn_type n = JSON_OBJ then do {
            s \<leftarrow> free_members f a [0..<jn_count n] s;
            s \<leftarrow> mem_free (jn_keys n) s;
            mem_free (jn_ptr n) s }
          else Some s);
     mem_free (Some a) s }"
| "free_members f a [] s = Some s"
| "free_members f a (i # is) s = do {
     n \<leftarrow> read_node a s;
     s \<leftarrow> (if jn_type n = JSON_OBJ then do { k \<leftarrow> read_ptr (jn_keys n) i s; mem_free k s } else Some s);
     v \<leftarrow> read_ptr (jn_ptr n) i s;
     s \<leftarrow> json_free f v s;
     free_members f a is s }"
  by pat_completeness auto
termination
  by (relation "measures [\<lambda>x. case x of Inl (f, _) \<Rightarrow> f | Inr (f, _) \<Rightarrow> f,
      \<lambda>x. case x of Inl _ \<Rightarrow> 0 | Inr (_, _, is, _) \<Rightarrow> Suc (length is)]") auto

text \<open>One more than the depth of any tree the parser builds.\<close>

definition FREE_DEPTH :: nat where
  "FREE_DEPTH = JSON_MAX_DEPTH + 2"

section \<open>The parser\<close>

text \<open>An error comes with what \<^verbatim>\<open>*out\<close> was left pointing to; \<open>MFault\<close> also stands for fuel that is used up.\<close>

datatype mresult = MOk ptr json_parser json_memory | MErr string nat ptr json_memory | MFault

abbreviation oom :: string where
  "oom \<equiv> ''out of memory''"

definition freeing :: "ptr \<Rightarrow> json_memory \<Rightarrow> (json_memory \<Rightarrow> mresult) \<Rightarrow> mresult" where
  "freeing p s k = (case mem_free p s of None \<Rightarrow> MFault | Some s \<Rightarrow> k s)"

text \<open>
  \<^verbatim>\<open>if (n == cap && !(buf = realloc(buf, cap *= 2)))\<close>: the block with the bytes that are in it moves; when the allocation
  fails the only pointer to it is overwritten.
\<close>

definition string_room :: "string \<Rightarrow> nat \<Rightarrow> nat \<Rightarrow> json_memory \<Rightarrow> (ptr \<times> nat \<times> json_memory) option" where
  "string_room acc cap buf s =
     (if length acc = cap then
        (case mem_alloc (Text acc) s of
           (None, s) \<Rightarrow> Some (None, cap * 2, s)
         | (q, s) \<Rightarrow> do { s \<leftarrow> mem_free (Some buf) s; Some (q, cap * 2, s) })
      else Some (Some buf, cap, s))"

fun json_string_body_at :: "nat \<Rightarrow> string \<Rightarrow> nat \<Rightarrow> string \<Rightarrow> nat \<Rightarrow> nat \<Rightarrow> json_memory \<Rightarrow> mresult"
and json_string_store :: "nat \<Rightarrow> string \<Rightarrow> nat \<Rightarrow> char \<Rightarrow> string \<Rightarrow> nat \<Rightarrow> nat \<Rightarrow> json_memory \<Rightarrow> mresult"
where
  "json_string_body_at dep [] pos acc cap buf s = freeing (Some buf) s (MErr ''unterminated string'' pos None)"
| "json_string_body_at dep (c # r) pos acc cap buf s =
     (if c = CHR 0x22 then
        (case string_room acc cap buf s of
           None \<Rightarrow> MFault
         | Some (None, cap, s) \<Rightarrow> freeing None s (MErr oom (pos + 1) None)
         | Some (Some buf, cap, s) \<Rightarrow>
             if length acc < cap then MOk (Some buf) \<lparr>p_rest = r, p_pos = pos + 1, p_depth = dep\<rparr> s else MFault)
      else if ordc c < 0x20 then freeing (Some buf) s (MErr ''control character in string'' pos None)
      else if c = CHR 0x5C then
        (case r of
           [] \<Rightarrow> freeing (Some buf) s (MErr ''unterminated escape'' (pos + 1) None)
         | e # r' \<Rightarrow>
             if e = CHR ''u'' then freeing (Some buf) s (MErr (CHR 0x5C # ''u escapes not supported'') (pos + 1) None)
             else (case json_unescape e of
                     None \<Rightarrow> freeing (Some buf) s (MErr ''invalid escape'' (pos + 1) None)
                   | Some d \<Rightarrow> json_string_store dep r' (pos + 2) d acc cap buf s))
      else json_string_store dep r (pos + 1) c acc cap buf s)"
| "json_string_store dep r pos d acc cap buf s =
     (case string_room acc cap buf s of
        None \<Rightarrow> MFault
      | Some (None, cap, s) \<Rightarrow> freeing None s (MErr oom pos None)
      | Some (Some buf, cap, s) \<Rightarrow>
          if length acc < cap then
            (case mem_put buf (Text (acc @ [d])) s of
               None \<Rightarrow> MFault
             | Some s \<Rightarrow> json_string_body_at dep r pos (acc @ [d]) cap buf s)
          else MFault)"

definition json_parse_string_at :: "json_parser \<Rightarrow> json_memory \<Rightarrow> mresult" where
  "json_parse_string_at p s =
     (if \<not> at_char p CHR 0x22 then MErr ''expected string'' (p_pos p) None s
      else (case mem_alloc (Text []) s of
              (None, s) \<Rightarrow> MErr oom (p_pos p + 1) None s
            | (Some buf, s) \<Rightarrow> json_string_body_at (p_depth p) (tl (p_rest p)) (p_pos p + 1) [] 16 buf s))"

text \<open>\<^verbatim>\<open>*out = vnew(...)\<close> with the value's fields, \<open>p\<close> behind the token.\<close>

definition leaf :: "json_parser \<Rightarrow> (ptr \<times> json_memory) option \<Rightarrow> mresult" where
  "leaf p r = (case r of
     None \<Rightarrow> MFault
   | Some (None, s) \<Rightarrow> MErr oom (p_pos p) None s
   | Some (out, s) \<Rightarrow> MOk out p s)"

definition json_parse_number_at :: "json_parser \<Rightarrow> json_memory \<Rightarrow> mresult" where
  "json_parse_number_at p s =
     (case json_parse_number p of
        POk v p' \<Rightarrow> leaf p' (set_node (\<lambda>n. n\<lparr>jn_num := fst (strtod (p_rest p))\<rparr>) (vnew JSON_NUM s))
      | PErr m i \<Rightarrow> MErr m i None s
      | PFuel \<Rightarrow> MFault)"

definition json_string_value_at :: "json_parser \<Rightarrow> json_memory \<Rightarrow> mresult" where
  "json_string_value_at p s =
     (case json_parse_string_at p s of
        MOk str p' s \<Rightarrow>
          (case vnew JSON_STR s of
             (None, s) \<Rightarrow> freeing str s (MErr oom (p_pos p') None)
           | r \<Rightarrow> leaf p' (set_node (\<lambda>n. n\<lparr>jn_ptr := str\<rparr>) r))
      | r \<Rightarrow> r)"

fun json_parse_value_at :: "nat \<Rightarrow> json_parser \<Rightarrow> json_memory \<Rightarrow> mresult"
and json_parse_array_at :: "nat \<Rightarrow> json_parser \<Rightarrow> json_memory \<Rightarrow> mresult"
and json_array_loop_at :: "nat \<Rightarrow> json_parser \<Rightarrow> nat \<Rightarrow> json_memory \<Rightarrow> mresult"
and json_parse_object_at :: "nat \<Rightarrow> json_parser \<Rightarrow> json_memory \<Rightarrow> mresult"
and json_object_loop_at :: "nat \<Rightarrow> json_parser \<Rightarrow> nat \<Rightarrow> json_memory \<Rightarrow> mresult"
where
  "json_parse_value_at 0 p0 s = MFault"
| "json_parse_value_at (Suc fuel) p0 s =
     (let p = json_skip_ws p0
      in case p_rest p of
           [] \<Rightarrow> MErr ''unexpected end of input'' (p_pos p) None s
         | c # _ \<Rightarrow>
             if c = CHR ''{'' then json_parse_object_at fuel p s
             else if c = CHR ''['' then json_parse_array_at fuel p s
             else if c = CHR 0x22 then json_string_value_at p s
             else if c = CHR ''t'' then
               (if starts_with ''true'' (p_rest p)
                then leaf (adv 4 p) (set_node (\<lambda>n. n\<lparr>jn_boolean := True\<rparr>) (vnew JSON_BOOL s))
                else MErr ''expected value'' (p_pos p) None s)
             else if c = CHR ''f'' then
               (if starts_with ''false'' (p_rest p)
                then leaf (adv 5 p) (set_node (\<lambda>n. n\<lparr>jn_boolean := False\<rparr>) (vnew JSON_BOOL s))
                else MErr ''expected value'' (p_pos p) None s)
             else if c = CHR ''n'' then
               (if starts_with ''null'' (p_rest p) then leaf (adv 4 p) (Some (vnew JSON_NULL s))
                else MErr ''expected value'' (p_pos p) None s)
             else if c = CHR ''-'' \<or> isdigit c then json_parse_number_at p s
             else MErr ''expected value'' (p_pos p) None s)"
| "json_parse_array_at 0 p s = MFault"
| "json_parse_array_at (Suc fuel) p s =
     (case vnew JSON_ARR s of
        (None, s) \<Rightarrow> MErr oom (p_pos p) None s
      | (Some a, s) \<Rightarrow>
          (let p1 = (adv 1 p)\<lparr>p_depth := p_depth p + 1\<rparr>
           in if p_depth p1 > JSON_MAX_DEPTH then MErr ''nesting too deep'' (p_pos p1) (Some a) s
              else let p2 = json_skip_ws p1
                   in if at_char p2 CHR '']'' then MOk (Some a) ((adv 1 p2)\<lparr>p_depth := p_depth p2 - 1\<rparr>) s
                      else json_array_loop_at fuel p2 a s))"
| "json_array_loop_at 0 p a s = MFault"
| "json_array_loop_at (Suc fuel) p a s =
     (case json_parse_value_at fuel p s of
        MFault \<Rightarrow> MFault
      | MErr m i out s \<Rightarrow> MErr m i (Some a) s
      | MOk item p1 s \<Rightarrow>
          (case json_arr_add_at (Some a) item s of
             None \<Rightarrow> MFault
           | Some (False, s) \<Rightarrow>
               (case json_free FREE_DEPTH item s of None \<Rightarrow> MFault | Some s \<Rightarrow> MErr oom (p_pos p1) (Some a) s)
           | Some (True, s) \<Rightarrow>
               (let p2 = json_skip_ws p1
                in if p_rest p2 = [] then MErr ''unterminated array'' (p_pos p2) (Some a) s
                   else if at_char p2 CHR '','' then json_array_loop_at fuel (json_skip_ws (adv 1 p2)) a s
                   else if at_char p2 CHR '']'' then MOk (Some a) ((adv 1 p2)\<lparr>p_depth := p_depth p2 - 1\<rparr>) s
                   else MErr (''expected '' @ quoted CHR '','' @ '' or '' @ quoted CHR '']'') (p_pos p2) (Some a) s)))"
| "json_parse_object_at 0 p s = MFault"
| "json_parse_object_at (Suc fuel) p s =
     (case vnew JSON_OBJ s of
        (None, s) \<Rightarrow> MErr oom (p_pos p) None s
      | (Some a, s) \<Rightarrow>
          (let p1 = (adv 1 p)\<lparr>p_depth := p_depth p + 1\<rparr>
           in if p_depth p1 > JSON_MAX_DEPTH then MErr ''nesting too deep'' (p_pos p1) (Some a) s
              else let p2 = json_skip_ws p1
                   in if at_char p2 CHR ''}'' then MOk (Some a) ((adv 1 p2)\<lparr>p_depth := p_depth p2 - 1\<rparr>) s
                      else json_object_loop_at fuel p2 a s))"
| "json_object_loop_at 0 p a s = MFault"
| "json_object_loop_at (Suc fuel) p a s =
     (case json_parse_string_at p s of
        MFault \<Rightarrow> MFault
      | MErr m i out s \<Rightarrow> MErr m i (Some a) s
      | MOk key p1 s \<Rightarrow>
          (let p2 = json_skip_ws p1
           in if \<not> at_char p2 CHR '':'' then
                freeing key s (MErr (''expected '' @ quoted CHR '':'') (p_pos p2) (Some a))
              else
                (case json_parse_value_at fuel (json_skip_ws (adv 1 p2)) s of
                   MFault \<Rightarrow> MFault
                 | MErr m i out s \<Rightarrow> freeing key s (MErr m i (Some a))
                 | MOk item p3 s \<Rightarrow>
                     (case do { k \<leftarrow> read_text key s; json_obj_add_at (Some a) k item s } of
                        None \<Rightarrow> MFault
                      | Some (False, s) \<Rightarrow>
                          (case do { s \<leftarrow> mem_free key s; json_free FREE_DEPTH item s } of
                             None \<Rightarrow> MFault | Some s \<Rightarrow> MErr oom (p_pos p3) (Some a) s)
                      | Some (True, s) \<Rightarrow>
                          (case mem_free key s of
                             None \<Rightarrow> MFault
                           | Some s \<Rightarrow>
                               (let p4 = json_skip_ws p3
                                in if p_rest p4 = [] then MErr ''unterminated object'' (p_pos p4) (Some a) s
                                   else if at_char p4 CHR '','' then
                                     json_object_loop_at fuel (json_skip_ws (adv 1 p4)) a s
                                   else if at_char p4 CHR ''}'' then
                                     MOk (Some a) ((adv 1 p4)\<lparr>p_depth := p_depth p4 - 1\<rparr>) s
                                   else MErr (''expected '' @ quoted CHR '','' @ '' or '' @ quoted CHR ''}'')
                                          (p_pos p4) (Some a) s))))))"

text \<open>The error with its offset, or the root of the document; \<^const>\<open>None\<close> is a fault.\<close>

definition json_parse_at :: "string \<Rightarrow> json_memory \<Rightarrow> (((string \<times> nat) + ptr) \<times> json_memory) option" where
  "json_parse_at text s =
     (case json_parse_value_at (json_fuel text) \<lparr>p_rest = text, p_pos = 0, p_depth = 0\<rparr> s of
        MFault \<Rightarrow> None
      | MErr m i out s \<Rightarrow> do { s \<leftarrow> json_free FREE_DEPTH out s; Some (Inl (m, i), s) }
      | MOk root p s \<Rightarrow>
          (let p' = json_skip_ws p
           in if p_rest p' \<noteq> [] then do {
                s \<leftarrow> json_free FREE_DEPTH root s;
                Some (Inl (''trailing data after JSON value'', p_pos p'), s) }
              else Some (Inr root, s)))"

end
