(* ===== verification/Json_Tree.thy ===== *)
theory Json_Tree
  imports Json_Memory
begin

text \<open>
  The footprint of a JSON tree in the heap, what the construction functions do to the blocks they are given, and the release of
  a tree: every block once.
\<close>

section \<open>Trees in the heap\<close>

inductive json_at :: "json_node blocks \<Rightarrow> nat \<Rightarrow> json_value \<Rightarrow> nat set \<Rightarrow> bool"
  and items_at :: "json_node blocks \<Rightarrow> ptr list \<Rightarrow> json_value list \<Rightarrow> nat set \<Rightarrow> bool"
  and members_at :: "json_node blocks \<Rightarrow> ptr list \<Rightarrow> ptr list \<Rightarrow> (string \<times> json_value) list \<Rightarrow> nat set \<Rightarrow> bool"
  for h :: "json_node blocks"
where
  null: "\<lbrakk>h a = Some (Node n); jn_type n = JSON_NULL\<rbrakk> \<Longrightarrow> json_at h a JNull {a}"
| bool: "\<lbrakk>h a = Some (Node n); jn_type n = JSON_BOOL\<rbrakk> \<Longrightarrow> json_at h a (JBool (jn_boolean n)) {a}"
| num: "\<lbrakk>h a = Some (Node n); jn_type n = JSON_NUM\<rbrakk> \<Longrightarrow> json_at h a (JNum (jn_num n)) {a}"
| str: "\<lbrakk>h a = Some (Node n); jn_type n = JSON_STR; jn_ptr n = Some p; h p = Some (Text t)\<rbrakk> \<Longrightarrow> json_at h a (JStr t) {a, p}"
| arr: "\<lbrakk>h a = Some (Node n); jn_type n = JSON_ARR; jn_keys n = None; ptrs_at h (jn_ptr n) ps I; jn_count n = length ps;
     items_at h ps vs B; a \<notin> I \<union> B; I \<inter> B = {}\<rbrakk> \<Longrightarrow> json_at h a (JArr vs) ({a} \<union> I \<union> B)"
| obj: "\<lbrakk>h a = Some (Node n); jn_type n = JSON_OBJ; ptrs_at h (jn_ptr n) ps I; ptrs_at h (jn_keys n) ks K; jn_count n = length ps;
     members_at h ks ps kvs B; a \<notin> I \<union> K \<union> B; I \<inter> K = {}; (I \<union> K) \<inter> B = {}\<rbrakk> \<Longrightarrow> json_at h a (JObj kvs) ({a} \<union> I \<union> K \<union> B)"
| items_nil: "items_at h [] [] {}"
| items_cons: "\<lbrakk>json_at h b v B; items_at h ps vs C; B \<inter> C = {}\<rbrakk> \<Longrightarrow> items_at h (Some b # ps) (v # vs) (B \<union> C)"
| members_nil: "members_at h [] [] [] {}"
| members_cons: "\<lbrakk>h k = Some (Text key); json_at h b v B; members_at h ks ps kvs C; k \<notin> B \<union> C; B \<inter> C = {}\<rbrakk>
     \<Longrightarrow> members_at h (Some k # ks) (Some b # ps) ((key, v) # kvs) ({k} \<union> B \<union> C)"

inductive_cases json_at_arrE: "json_at h a (JArr vs) A"
inductive_cases json_at_objE: "json_at h a (JObj kvs) A"

lemma json_at_frame:
  "json_at h a v B \<Longrightarrow> (\<And>x. x \<in> B \<Longrightarrow> h' x = h x) \<Longrightarrow> json_at h' a v B"
  "items_at h ps vs B \<Longrightarrow> (\<And>x. x \<in> B \<Longrightarrow> h' x = h x) \<Longrightarrow> items_at h' ps vs B"
  "members_at h ks ps kvs B \<Longrightarrow> (\<And>x. x \<in> B \<Longrightarrow> h' x = h x) \<Longrightarrow> members_at h' ks ps kvs B"
proof (induction rule: json_at_items_at_members_at.inducts)
  case (arr a n ps I vs B)
  have "ptrs_at h' (jn_ptr n) ps I" using arr by (auto intro: ptrs_at_frame)
  then show ?case using arr by (intro json_at_items_at_members_at.arr) auto
next
  case (obj a n ps I ks K kvs B)
  have "ptrs_at h' (jn_ptr n) ps I" using obj by (auto intro: ptrs_at_frame)
  moreover have "ptrs_at h' (jn_keys n) ks K" using obj by (auto intro: ptrs_at_frame)
  ultimately show ?case using obj by (intro json_at_items_at_members_at.obj) auto
next
  case (members_cons k key b v B ks ps kvs C)
  then show ?case by (intro json_at_items_at_members_at.members_cons) auto
qed (auto intro: json_at_items_at_members_at.intros)

lemma json_at_dom:
  "json_at h a v B \<Longrightarrow> a \<in> B \<and> B \<subseteq> dom h"
  "items_at h ps vs C \<Longrightarrow> C \<subseteq> dom h \<and> length ps = length vs"
  "members_at h ks ps kvs D \<Longrightarrow> D \<subseteq> dom h \<and> length ks = length kvs \<and> length ps = length kvs"
  by (induction rule: json_at_items_at_members_at.inducts) (auto simp: ptrs_at_def split: option.splits)

lemma json_at_moves:
  assumes "json_at (m_heap s) a v F" and "moves A s B s'" and "F \<inter> A = {}"
  shows "json_at (m_heap s') a v F"
  using assms json_at_dom(1) [OF assms(1)] by (intro json_at_frame(1) [OF assms(1)] moves_same [OF assms(2)]) auto

lemma items_at_snoc:
  "items_at h ps vs B \<Longrightarrow> json_at h b v C \<Longrightarrow> B \<inter> C = {} \<Longrightarrow> items_at h (ps @ [Some b]) (vs @ [v]) (B \<union> C)"
proof (induction vs arbitrary: ps B)
  case Nil
  then show ?case using items_cons [OF Nil(2) items_nil] by (auto elim: items_at.cases)
next
  case (Cons w vs)
  from Cons.prems(1) obtain c ps' B1 B2 where s: "ps = Some c # ps'" "json_at h c w B1" "items_at h ps' vs B2" "B = B1 \<union> B2" "B1 \<inter> B2 = {}"
    by (auto elim: items_at.cases)
  have "items_at h (ps' @ [Some b]) (vs @ [v]) (B2 \<union> C)" using Cons.IH [OF s(3)] Cons.prems s by auto
  then have "items_at h (Some c # ps' @ [Some b]) (w # vs @ [v]) (B1 \<union> (B2 \<union> C))"
    using s Cons.prems by (intro items_cons) auto
  then show ?case by (simp add: s Un_assoc)
qed

lemma members_at_snoc:
  "members_at h ks ps kvs B \<Longrightarrow> h k = Some (Text key) \<Longrightarrow> json_at h b v C \<Longrightarrow> k \<notin> B \<union> C \<Longrightarrow> B \<inter> C = {}
    \<Longrightarrow> members_at h (ks @ [Some k]) (ps @ [Some b]) (kvs @ [(key, v)]) ({k} \<union> B \<union> C)"
proof (induction kvs arbitrary: ks ps B)
  case Nil
  then have "ks = []" "ps = []" "B = {}" by (auto elim: members_at.cases)
  then show ?case using members_cons [OF Nil(2,3) members_nil] Nil by simp
next
  case (Cons w kvs)
  from Cons.prems(1) show ?case
  proof cases
    case (members_cons l key' c w' B1 ks' ps' B2)
    have "l \<noteq> k" "l \<notin> C" using Cons.prems members_cons json_at_dom(1) by auto
    then have "members_at h (Some l # ks' @ [Some k]) (Some c # ps' @ [Some b]) ((key', w') # kvs @ [(key, v)])
        ({l} \<union> B1 \<union> ({k} \<union> B2 \<union> C))"
      using Cons.IH [OF members_cons(7)] Cons.prems members_cons by (intro json_at_items_at_members_at.members_cons) auto
    moreover have "{l} \<union> B1 \<union> ({k} \<union> B2 \<union> C) = {k} \<union> B \<union> C" using members_cons by auto
    ultimately show ?thesis by (simp add: members_cons)
  qed
qed

section \<open>Construction\<close>

lemma items_at_count: "items_at h ps vs B \<Longrightarrow> length ps = length vs"
  by (simp add: json_at_dom(2))

lemma arr_add_ok:
  assumes "mem_ok s" and "json_at (m_heap s) a (JArr vs) A" and "json_at (m_heap s) b v B" and "A \<inter> B = {}"
  obtains (full) s' where "json_arr_add_at (Some a) (Some b) s = Some (False, s')" "moves {} s {} s'" "m_outcomes s \<noteq> []"
      "m_heap s' = m_heap s"
  | (added) A' s' where "json_arr_add_at (Some a) (Some b) s = Some (True, s')" "moves (A \<union> B) s A' s'"
      "json_at (m_heap s') a (JArr (vs @ [v])) A'"
proof -
  from assms(2) obtain n ps I C where n: "m_heap s a = Some (Node n)" "jn_type n = JSON_ARR" "jn_keys n = None"
      "ptrs_at (m_heap s) (jn_ptr n) ps I" "jn_count n = length ps" "items_at (m_heap s) ps vs C" "a \<notin> I \<union> C" "I \<inter> C = {}"
      "A = {a} \<union> I \<union> C"
    by (rule json_at_arrE) blast
  have dom: "A \<union> B \<subseteq> dom (m_heap s)" using json_at_dom(1) assms(2,3) by blast
  from assms(1) n(4) show ?thesis
  proof (cases rule: realloc_grow)
    case (fail s')
    then show ?thesis using full [of s'] n by (simp add: json_arr_add_at_def read_node_at)
  next
    case (moved q xs s1)
    have m1: "moves (A \<union> B) s (A \<union> B - I \<union> {q}) s1"
      by (rule moves_in [OF moves_refl [OF assms(1) dom] moved(2)]) (use n in auto)
    have q: "q \<notin> {a} \<union> C \<union> B"
      using moves_disjoint [OF moved(2), of "{a} \<union> C \<union> B"] dom assms(4) n by auto
    obtain s2 where s2: "put_ptr (Some q) (length ps) (Some b) s1 = Some s2" "moves {q} s1 {q} s2"
        "m_heap s2 = (m_heap s1)(q \<mapsto> Ptrs (xs[length ps := Some b]))"
      using put_ptr_moves [OF moves_ok(1) [OF moved(2)] moved(3), of "length ps" "Some b"] moved(4) by auto
    have m2: "moves (A \<union> B) s (A \<union> B - I \<union> {q} - {q} \<union> {q}) s2" by (rule moves_in [OF m1 s2(2)]) simp
    define n' where "n' = n\<lparr>jn_ptr := Some q, jn_count := jn_count n + 1\<rparr>"
    obtain s3 where s3: "mem_put a (Node n') s2 = Some s3" "moves {a} s2 {a} s3" "m_heap s3 = (m_heap s2)(a \<mapsto> Node n')"
      using put_moves [OF moves_ok(1) [OF m2], of a "Node n'"] movesD(5) [OF m2] n(7,9) by blast
    have m3: "moves (A \<union> B) s ({a} \<union> {q} \<union> (C \<union> B)) s3"
    proof -
      have "moves (A \<union> B) s (A \<union> B - I \<union> {q} - {q} \<union> {q} - {a} \<union> {a}) s3" by (rule moves_in [OF m2 s3(2)]) (use n in auto)
      moreover have "A \<union> B - I \<union> {q} - {q} \<union> {q} - {a} \<union> {a} = {a} \<union> {q} \<union> (C \<union> B)" using n assms(4) by auto
      ultimately show ?thesis by simp
    qed
    have same: "m_heap s3 x = m_heap s x" if "x \<in> C \<union> B" for x
    proof -
      have "x \<noteq> q" "x \<noteq> a" "x \<notin> I" "x \<in> dom (m_heap s)" using that q n dom assms(4) by auto
      then show ?thesis using moves_same [OF moved(2)] s2(3) s3(3) by simp
    qed
    have "items_at (m_heap s3) (ps @ [Some b]) (vs @ [v]) (C \<union> B)"
      using n assms(3,4) same by (intro items_at_snoc json_at_frame(1) [OF assms(3)] json_at_frame(2) [OF n(6)]) auto
    moreover have "xs[length ps := Some b] = ps @ [Some b]"
      using moved(4,5) by (cases xs rule: rev_cases) (auto simp: list_update_append)
    ultimately have "json_at (m_heap s3) a (JArr (vs @ [v])) ({a} \<union> {q} \<union> (C \<union> B))"
      using n q assms(4) s2(3) s3(3) by (intro arr [where n = n' and ps = "ps @ [Some b]"]) (auto simp: n'_def ptrs_at_def)
    then show ?thesis
      using added [of s3] m3 moved(1) s2(1) s3(1) n by (simp add: json_arr_add_at_def read_node_at n'_def)
  qed
qed

lemma members_at_moves:
  assumes "members_at (m_heap s) ks ps kvs C" and "moves A s B s'" and "C \<inter> A = {}"
  shows "members_at (m_heap s') ks ps kvs C"
  using assms json_at_dom(3) [OF assms(1)] by (intro json_at_frame(3) [OF assms(1)] moves_same [OF assms(2)]) auto

text \<open>Undoing: the copy of the key goes, and the arrays that grew shrink back.\<close>

lemma obj_add_undo:
  assumes "mem_ok s" and "m_shrinks s" and "m_heap s a = Some (Node n)" and "jn_type n = JSON_OBJ" and "jn_count n = length ps"
    and "qi = (if ri = None then jn_ptr n else ri)" and "ptrs_at (m_heap s) qi ps (set_option qi)"
    and "qk = (if rk = None then jn_keys n else rk)" and "ptrs_at (m_heap s) qk ks (set_option qk)" and "length ks = length ps"
    and "members_at (m_heap s) ks ps kvs C" and "m_heap s k = Some (Text key)"
    and "a \<notin> set_option qi \<union> set_option qk \<union> C" and "set_option qi \<inter> set_option qk = {}" and "(set_option qi \<union> set_option qk) \<inter> C = {}"
    and "k \<notin> {a} \<union> set_option qi \<union> set_option qk \<union> C"
  obtains A s' where "do {
       s \<leftarrow> mem_free (Some k) s;
       (i, s) \<leftarrow> (if ri \<noteq> None then realloc_ptrs ri (jn_count n) s else Some (jn_ptr n, s));
       (l, s) \<leftarrow> (if rk \<noteq> None then realloc_ptrs rk (jn_count n) s else Some (jn_keys n, s));
       s \<leftarrow> mem_put a (Node (n\<lparr>jn_ptr := i, jn_keys := l\<rparr>)) s;
       Some (False, s) } = Some (False, s')"
    "moves ({k, a} \<union> set_option qi \<union> set_option qk \<union> C) s A s'" "json_at (m_heap s') a (JObj kvs) A"
proof -
  define O0 where "O0 = {k, a} \<union> set_option qi \<union> set_option qk \<union> C"
  have "O0 \<subseteq> dom (m_heap s)"
    using assms(3,12) ptrs_at_dom [OF assms(7)] ptrs_at_dom [OF assms(9)] json_at_dom(3) [OF assms(11)] by (auto simp: O0_def)
  from moves_refl [OF assms(1) this] have m0: "moves O0 s O0 s" .
  obtain s1 where s1: "mem_free (Some k) s = Some s1" "moves {k} s {} s1" using free_moves [OF assms(1), of k] assms(12) by blast
  have i1: "ptrs_at (m_heap s1) qi ps (set_option qi)" by (rule ptrs_at_moves [OF assms(7) s1(2)]) (use assms(16) in auto)
  have sh1: "m_shrinks s1" using assms(2) movesD(10) [OF s1(2)] by simp
  obtain i s2 where s2: "(if ri \<noteq> None then realloc_ptrs ri (length ps) s1 else Some (jn_ptr n, s1)) = Some (i, s2)"
      "moves (set_option qi) s1 (set_option i) s2" "ptrs_at (m_heap s2) i ps (set_option i)"
    using shrink_back [OF moves_ok(1) [OF s1(2)] sh1 assms(6) i1] by blast
  have k1: "ptrs_at (m_heap s1) qk ks (set_option qk)" by (rule ptrs_at_moves [OF assms(9) s1(2)]) (use assms(16) in auto)
  have k2: "ptrs_at (m_heap s2) qk ks (set_option qk)" by (rule ptrs_at_moves [OF k1 s2(2)]) (use assms(14) in auto)
  have sh2: "m_shrinks s2" using sh1 movesD(10) [OF s2(2)] by simp
  obtain l s3 where s3: "(if rk \<noteq> None then realloc_ptrs rk (length ks) s2 else Some (jn_keys n, s2)) = Some (l, s3)"
      "moves (set_option qk) s2 (set_option l) s3" "ptrs_at (m_heap s3) l ks (set_option l)"
    using shrink_back [OF moves_ok(1) [OF s2(2)] sh2 assms(8) k2] by blast
  have m3: "moves O0 s (O0 - {k} \<union> {} - set_option qi \<union> set_option i - set_option qk \<union> set_option l) s3"
    by (rule moves_in [OF moves_in [OF moves_in [OF m0 s1(2)] s2(2)] s3(2)]) (use assms(14,16) in \<open>auto simp: O0_def\<close>)
  define F where "F = {a} \<union> C"
  have F: "F \<subseteq> dom (m_heap s)" "F \<inter> {k} = {}" "F \<inter> set_option qi = {}" "F \<inter> set_option qk = {}"
    using assms(3,13,15,16) json_at_dom(3) [OF assms(11)] by (auto simp: F_def)
  have F1: "F \<subseteq> dom (m_heap s1)" using F movesD(8) [OF s1(2)] by auto
  then have F2: "F \<inter> set_option i = {}" "F \<subseteq> dom (m_heap s2)" using moves_disjoint [OF s2(2) F1] F movesD(8) [OF s2(2)] by auto
  then have F3: "F \<inter> set_option l = {}" using moves_disjoint [OF s3(2)] F by auto
  have qk1: "set_option qk \<subseteq> dom (m_heap s1)" using ptrs_at_dom [OF k1] by simp
  have ik: "set_option i \<inter> set_option qk = {}" using moves_disjoint [OF s2(2) qk1] assms(14) by auto
  then have il: "set_option i \<inter> set_option l = {}"
    using moves_disjoint [OF s3(2), of "set_option i"] ptrs_at_dom [OF s2(3)] by auto
  define n' where "n' = n\<lparr>jn_ptr := i, jn_keys := l\<rparr>"
  have cells: "m_heap s3 x = m_heap s x" if "x \<in> F" for x
  proof -
    have "m_heap s1 x = m_heap s x" by (rule moves_same [OF s1(2)]) (use that F in auto)
    moreover have "m_heap s2 x = m_heap s1 x" by (rule moves_same [OF s2(2)]) (use that F F1 in auto)
    moreover have "m_heap s3 x = m_heap s2 x" by (rule moves_same [OF s3(2)]) (use that F F2 in auto)
    ultimately show ?thesis by simp
  qed
  then have "a \<in> dom (m_heap s3)" using assms(3) by (auto simp: F_def)
  from put_moves [OF moves_ok(1) [OF s3(2)] this] obtain s4
    where s4: "mem_put a (Node n') s3 = Some s4" "moves {a} s3 {a} s4" "m_heap s4 = (m_heap s3)(a \<mapsto> Node n')" by blast
  define A where "A = {a} \<union> set_option i \<union> set_option l \<union> C"
  have "moves O0 s (O0 - {k} \<union> {} - set_option qi \<union> set_option i - set_option qk \<union> set_option l - {a} \<union> {a}) s4"
    by (rule moves_in [OF m3 s4(2)]) (use assms(13,16) in \<open>auto simp: O0_def\<close>)
  moreover have "O0 - {k} \<union> {} - set_option qi \<union> set_option i - set_option qk \<union> set_option l - {a} \<union> {a} = A"
    using assms(13-16) ik F2 F3 by (auto simp: O0_def A_def F_def)
  ultimately have m4: "moves O0 s A s4" by simp
  have "json_at (m_heap s4) a (JObj kvs) A"
    unfolding A_def
  proof (rule obj)
    show "members_at (m_heap s4) ks ps kvs C"
      using cells assms(13) s4(3) by (intro json_at_frame(3) [OF assms(11)]) (auto simp: F_def)
    show "ptrs_at (m_heap s4) (jn_ptr n') ps (set_option i)"
      using ptrs_at_moves [OF ptrs_at_moves [OF s2(3) s3(2) ik] s4(2)] F2 by (auto simp: n'_def F_def)
    show "ptrs_at (m_heap s4) (jn_keys n') ks (set_option l)"
      using ptrs_at_moves [OF s3(3) s4(2)] F3 by (auto simp: n'_def F_def)
  qed (use s4(3) assms(4,5) F2 F3 il assms(13) in \<open>auto simp: n'_def F_def\<close>)
  then show ?thesis
    using that [unfolded assms(5), of s4 A] m4 s1(1) s2(1) s3(1) [unfolded assms(10)] s4(1) by (simp add: n'_def O0_def)
qed

text \<open>Storing: the copy of the key and the value go into the new slots.\<close>

lemma obj_add_fill:
  assumes "mem_ok s" and "m_heap s a = Some (Node n)" and "jn_type n = JSON_OBJ" and "jn_count n = length ps"
    and "m_heap s i = Some (Ptrs xs)" and "length xs = length ps + 1" and "take (length ps) xs = ps"
    and "m_heap s l = Some (Ptrs ys)" and "length ys = length ks + 1" and "take (length ks) ys = ks" and "length ks = length ps"
    and "members_at (m_heap s) ks ps kvs C" and "m_heap s k = Some (Text key)" and "json_at (m_heap s) b v B"
    and "distinct [a, i, l, k]" and "{a, i, l, k} \<inter> (C \<union> B) = {}" and "C \<inter> B = {}"
  obtains A s' where "do {
       s \<leftarrow> put_ptr (Some l) (jn_count n) (Some k) s;
       s \<leftarrow> put_ptr (Some i) (jn_count n) (Some b) s;
       s \<leftarrow> mem_put a (Node (n\<lparr>jn_ptr := Some i, jn_keys := Some l, jn_count := jn_count n + 1\<rparr>)) s;
       Some (True, s) } = Some (True, s')"
    "moves ({k, a, i, l} \<union> C \<union> B) s A s'" "json_at (m_heap s') a (JObj (kvs @ [(key, v)])) A"
proof -
  define O0 where "O0 = {k, a, i, l} \<union> C \<union> B"
  have "O0 \<subseteq> dom (m_heap s)"
    using assms(2,5,8,13) json_at_dom(1) [OF assms(14)] json_at_dom(3) [OF assms(12)] by (auto simp: O0_def)
  note m0 = moves_refl [OF assms(1) this]
  obtain s1 where s1: "put_ptr (Some l) (length ps) (Some k) s = Some s1" "moves {l} s {l} s1"
      "m_heap s1 = (m_heap s)(l \<mapsto> Ptrs (ys[length ps := Some k]))"
    using put_ptr_moves [OF assms(1,8), of "length ps" "Some k"] assms(9,11) by auto
  have "m_heap s1 i = Some (Ptrs xs)" using s1(3) assms(5,15) by simp
  then obtain s2 where s2: "put_ptr (Some i) (length ps) (Some b) s1 = Some s2" "moves {i} s1 {i} s2"
      "m_heap s2 = (m_heap s1)(i \<mapsto> Ptrs (xs[length ps := Some b]))"
    using put_ptr_moves [OF moves_ok(1) [OF s1(2)], of i xs "length ps" "Some b"] assms(6) by auto
  define n' where "n' = n\<lparr>jn_ptr := Some i, jn_keys := Some l, jn_count := jn_count n + 1\<rparr>"
  have "a \<in> dom (m_heap s2)" using s2(3) s1(3) assms(2) by auto
  from put_moves [OF moves_ok(1) [OF s2(2)] this] obtain s3
    where s3: "mem_put a (Node n') s2 = Some s3" "moves {a} s2 {a} s3" "m_heap s3 = (m_heap s2)(a \<mapsto> Node n')" by blast
  have m: "moves O0 s (O0 - {l} \<union> {l} - {i} \<union> {i} - {a} \<union> {a}) s3"
    by (rule moves_in [OF moves_in [OF moves_in [OF m0 s1(2)] s2(2)] s3(2)]) (auto simp: O0_def)
  define D where "D = {k} \<union> C \<union> B"
  have O0: "O0 - {l} \<union> {l} - {i} \<union> {i} - {a} \<union> {a} = {a} \<union> {i} \<union> {l} \<union> D" by (auto simp: O0_def D_def)
  have cells: "m_heap s3 x = m_heap s x" if "x \<in> D" for x
    using that assms(15,16) s1(3) s2(3) s3(3) by (auto simp: D_def)
  have "members_at (m_heap s3) (ks @ [Some k]) (ps @ [Some b]) (kvs @ [(key, v)]) D"
    using cells assms(13,16,17) unfolding D_def
    by (intro members_at_snoc json_at_frame(1) [OF assms(14)] json_at_frame(3) [OF assms(12)]) (auto simp: D_def)
  moreover have "xs[length ps := Some b] = ps @ [Some b]" "ys[length ps := Some k] = ks @ [Some k]"
    using assms(6,7,9-11) by (cases xs rule: rev_cases; cases ys rule: rev_cases; auto simp: list_update_append)+
  ultimately have "json_at (m_heap s3) a (JObj (kvs @ [(key, v)])) ({a} \<union> {i} \<union> {l} \<union> D)"
    using assms(3,4,11,15,16) s1(3) s2(3) s3(3)
    by (intro obj [where n = n' and ps = "ps @ [Some b]" and ks = "ks @ [Some k]"]) (auto simp: n'_def ptrs_at_def D_def)
  then show ?thesis
    using that [unfolded assms(4), of s3] m [unfolded O0] s1(1) s2(1) s3(1)
    by (simp add: n'_def O0_def assms(4))
qed

lemma obj_add_ok:
  assumes "mem_ok s" and "m_shrinks s" and "json_at (m_heap s) a (JObj kvs) A" and "json_at (m_heap s) b v B" and "A \<inter> B = {}"
  obtains (full) A' s' where "json_obj_add_at (Some a) key (Some b) s = Some (False, s')" "moves A s A' s'"
      "json_at (m_heap s') a (JObj kvs) A'" "m_outcomes s \<noteq> []"
  | (added) A' s' where "json_obj_add_at (Some a) key (Some b) s = Some (True, s')" "moves (A \<union> B) s A' s'"
      "json_at (m_heap s') a (JObj (kvs @ [(key, v)])) A'"
proof -
  from assms(3) obtain n ps I ks K C where n: "m_heap s a = Some (Node n)" "jn_type n = JSON_OBJ"
      "ptrs_at (m_heap s) (jn_ptr n) ps I" "ptrs_at (m_heap s) (jn_keys n) ks K" "jn_count n = length ps"
      "members_at (m_heap s) ks ps kvs C" "a \<notin> I \<union> K \<union> C" "I \<inter> K = {}" "(I \<union> K) \<inter> C = {}" "A = {a} \<union> I \<union> K \<union> C"
    by (rule json_at_objE) (rule that, (assumption | simp)+)
  have dom: "A \<union> B \<subseteq> dom (m_heap s)" using json_at_dom(1) assms(3,4) by blast
  have len: "length ks = length ps" using json_at_dom(3) [OF n(6)] by simp
  from assms(1) show ?thesis
  proof (cases rule: alloc_moves [where c = "Text key"])
    case (fail s')
    then show ?thesis
      using full [of s' A] n assms(3) moves_frame [OF fail(2), of A] dom by (simp add: json_obj_add_at_def read_node_at)
  next
    case (new k s1)
    define F where "F = {k, a} \<union> C \<union> B"
    have F: "F \<subseteq> dom (m_heap s1)" "F \<inter> I = {}" "F \<inter> K = {}" "k \<notin> A \<union> B" 
      using new(3,4) dom n(7-10) assms(5) unfolding F_def by (simp, blast, blast, blast, blast)
    have at1: "ptrs_at (m_heap s1) (jn_ptr n) ps I" "ptrs_at (m_heap s1) (jn_keys n) ks K"
      by (rule ptrs_at_moves [OF n(3) new(2)] ptrs_at_moves [OF n(4) new(2)], simp)+
    obtain ri qi s2 where i: "realloc_ptrs (jn_ptr n) (length ps + 1) s1 = Some (ri, s2)" "qi = (if ri = None then jn_ptr n else ri)"
        "moves I s1 (set_option qi) s2" "ptrs_at (m_heap s2) qi ps (set_option qi)" "ri = None \<longrightarrow> m_outcomes s1 \<noteq> []"
        "\<forall>a. ri = Some a \<longrightarrow> (\<exists>xs. m_heap s2 a = Some (Ptrs xs) \<and> length xs = length ps + 1 \<and> take (length ps) xs = ps)"
      by (rule grow_or_keep [OF moves_ok(1) [OF new(2)] at1(1)]) (rule that, assumption+)
    have F2: "F \<inter> set_option qi = {}" "F \<subseteq> dom (m_heap s2)" using moves_disjoint [OF i(3) F(1,2)] movesD(8) [OF i(3)] F by auto
    have at2: "ptrs_at (m_heap s2) (jn_keys n) ks K" using ptrs_at_moves [OF at1(2) i(3)] n(8) by auto
    have iK: "set_option qi \<inter> K = {}" using moves_disjoint [OF i(3), of K] ptrs_at_dom [OF at1(2)] n(8) by auto
    obtain rk qk s3 where l: "realloc_ptrs (jn_keys n) (length ks + 1) s2 = Some (rk, s3)" "qk = (if rk = None then jn_keys n else rk)"
        "moves K s2 (set_option qk) s3" "ptrs_at (m_heap s3) qk ks (set_option qk)" "rk = None \<longrightarrow> m_outcomes s2 \<noteq> []"
        "\<forall>a. rk = Some a \<longrightarrow> (\<exists>xs. m_heap s3 a = Some (Ptrs xs) \<and> length xs = length ks + 1 \<and> take (length ks) xs = ks)"
      by (rule grow_or_keep [OF moves_ok(1) [OF i(3)] at2]) (rule that, assumption+)
    have F3: "F \<inter> set_option qk = {}" "F \<subseteq> dom (m_heap s3)" using moves_disjoint [OF l(3) F2(2)] movesD(8) [OF l(3)] F F2 by auto
    have qi_dom: "set_option qi \<subseteq> dom (m_heap s2)" using ptrs_at_dom [OF i(4)] by simp
    have ik: "set_option qi \<inter> set_option qk = {}" using moves_disjoint [OF l(3) qi_dom] iK by auto
    have at3: "ptrs_at (m_heap s3) qi ps (set_option qi)" by (rule ptrs_at_moves [OF i(4) l(3) iK])
    have cells: "m_heap s3 x = m_heap s1 x" if "x \<in> F" for x
    proof -
      have "m_heap s2 x = m_heap s1 x" by (rule moves_same [OF i(3)]) (use that F in auto)
      moreover have "m_heap s3 x = m_heap s2 x" by (rule moves_same [OF l(3)]) (use that F F2 in auto)
      ultimately show ?thesis by simp
    qed
    have cells1: "m_heap s1 x = m_heap s x" if "x \<in> A \<union> B" for x using that F(4) new(3) by auto
    have mem3: "members_at (m_heap s3) ks ps kvs C"
      using cells cells1 n(10) by (intro json_at_frame(3) [OF n(6)]) (auto simp: F_def)
    have B3: "json_at (m_heap s3) b v B"
      using cells cells1 by (intro json_at_frame(1) [OF assms(4)]) (auto simp: F_def)
    have a3: "m_heap s3 a = Some (Node n)" using cells [of a] cells1 [of a] n(1,10) by (simp add: F_def)
    have k3: "m_heap s3 k = Some (Text key)" using cells [of k] new(3) by (simp add: F_def)
    define O3 where "O3 = {k, a} \<union> set_option qi \<union> set_option qk \<union> C"
    have m3: "moves A s O3 s3"
    proof -
      have "moves A s (A - {} \<union> {k} - I \<union> set_option qi - K \<union> set_option qk) s3"
        by (rule moves_in [OF moves_in [OF moves_in [OF moves_refl [OF assms(1), of A] new(2)] i(3)] l(3)])
          (use dom n(8,10) iK in auto)
      moreover have "A - {} \<union> {k} - I \<union> set_option qi - K \<union> set_option qk = O3"
        using n(7-10) iK F F2 F3 by (auto simp: O3_def F_def)
      ultimately show ?thesis by simp
    qed
    have out: "m_outcomes s \<noteq> []" if "ri = None \<or> rk = None"
      using that i(5) l(5) movesD(9) [OF new(2)] movesD(9) [OF i(3)] by auto
    have disj: "a \<notin> set_option qi \<union> set_option qk \<union> C" "(set_option qi \<union> set_option qk) \<inter> C = {}"
        "k \<notin> {a} \<union> set_option qi \<union> set_option qk \<union> C" "{a, k} \<inter> B = {}" "(set_option qi \<union> set_option qk) \<inter> B = {}" "C \<inter> B = {}"
      using F2(1) F3(1) F(4) n(7,10) assms(5) unfolding F_def by blast+
    have red: "json_obj_add_at (Some a) key (Some b) s =
        (if ri = None \<or> rk = None then do {
             s \<leftarrow> mem_free (Some k) s3;
             (i, s) \<leftarrow> (if ri \<noteq> None then realloc_ptrs ri (jn_count n) s else Some (jn_ptr n, s));
             (k, s) \<leftarrow> (if rk \<noteq> None then realloc_ptrs rk (jn_count n) s else Some (jn_keys n, s));
             s \<leftarrow> mem_put a (Node (n\<lparr>jn_ptr := i, jn_keys := k\<rparr>)) s;
             Some (False, s) }
         else do {
             s \<leftarrow> put_ptr rk (jn_count n) (Some k) s3;
             s \<leftarrow> put_ptr ri (jn_count n) (Some b) s;
             s \<leftarrow> mem_put a (Node (n\<lparr>jn_ptr := ri, jn_keys := rk, jn_count := jn_count n + 1\<rparr>)) s;
             Some (True, s) })"
      using i(1) l(1) by (simp add: json_obj_add_at_def read_node_at [OF n(1)] n(2,5) new(1) len)
    show ?thesis
    proof (cases "ri = None \<or> rk = None")
      case True
      have sh3: "m_shrinks s3" using assms(2) movesD(10) [OF m3] by simp
      have "\<exists>A' s4. json_obj_add_at (Some a) key (Some b) s = Some (False, s4) \<and> moves O3 s3 A' s4 \<and> json_at (m_heap s4) a (JObj kvs) A'"
        unfolding red O3_def if_P [OF True]
        by (rule obj_add_undo [OF moves_ok(1) [OF m3] sh3 a3 n(2,5) i(2) at3 l(2,4) len mem3 k3 disj(1) ik disj(2,3)])
          (intro exI conjI; assumption)
      then show ?thesis using full moves_trans [OF m3] out True by blast
    next
      case False
      then obtain ai al where r: "ri = Some ai" "rk = Some al" "qi = Some ai" "qk = Some al" using i(2) l(2) by auto
      obtain xs ys where xs: "m_heap s2 ai = Some (Ptrs xs)" "length xs = length ps + 1" "take (length ps) xs = ps"
          "m_heap s3 al = Some (Ptrs ys)" "length ys = length ks + 1" "take (length ks) ys = ks"
        using i(6) l(6) r by blast
      have ai: "m_heap s3 ai = Some (Ptrs xs)" using cell_moves [OF xs(1) l(3)] iK r by auto
      have m: "moves (A \<union> B) s (O3 \<union> B) s3" using moves_frame [OF m3, of B] dom assms(5) by auto
      have O3: "O3 \<union> B = {k, a, ai, al} \<union> C \<union> B" unfolding O3_def r by auto
      have "distinct [a, ai, al, k]" "{a, ai, al, k} \<inter> (C \<union> B) = {}" using disj ik F(4) n(7,10) by (auto simp: r)
      then have "\<exists>A' s4. json_obj_add_at (Some a) key (Some b) s = Some (True, s4) \<and> moves (O3 \<union> B) s3 A' s4 \<and>
          json_at (m_heap s4) a (JObj (kvs @ [(key, v)])) A'"
        unfolding red O3 if_not_P [OF False] unfolding r(1,2)
        by (rule obj_add_fill [OF moves_ok(1) [OF m3] a3 n(2,5) ai xs(2,3,4,5,6) len mem3 k3 B3 _ _ disj(6)])
          (intro exI conjI; assumption)
      then show ?thesis using added moves_trans [OF m] by blast
    qed
  qed
qed

section \<open>Release\<close>

text \<open>What \<^verbatim>\<open>json_free\<close> does to a tree within its depth.\<close>

definition frees :: "nat \<Rightarrow> bool" where
  "frees f \<longleftrightarrow> (\<forall>s a v B. mem_ok s \<longrightarrow> json_at (m_heap s) a v B \<longrightarrow> json_depth v < f \<longrightarrow>
     (\<exists>s'. json_free f (Some a) s = Some s' \<and> moves B s {} s'))"

lemma upt_member: "[length qs..<length (qs @ x # ps)] = length qs # [length (qs @ [x])..<length ((qs @ [x]) @ ps)]"
  by (simp add: upt_conv_Cons del: upt_Suc)

lemma freesD: "frees f \<Longrightarrow> mem_ok s \<Longrightarrow> json_at (m_heap s) a v B \<Longrightarrow> json_depth v < f \<Longrightarrow>
    \<exists>s'. json_free f (Some a) s = Some s' \<and> moves B s {} s'"
  by (simp add: frees_def)

lemma free_items:
  assumes "frees f" and "mem_ok s" and "items_at (m_heap s) ps vs C" and "m_heap s a = Some (Node n)" and "jn_type n = JSON_ARR"
    and "ptrs_at (m_heap s) (jn_ptr n) (qs @ ps) I" and "a \<notin> C" and "I \<inter> C = {}" and "\<forall>v \<in> set vs. json_depth v < f"
  shows "\<exists>s'. free_members f a [length qs..<length (qs @ ps)] s = Some s' \<and> moves C s {} s'"
  using assms(2-9)
proof (induction vs arbitrary: s ps qs C)
  case Nil
  then have "ps = []" "C = {}" by (auto elim: items_at.cases)
  then show ?case using Nil.prems(1) by (simp add: moves_refl)
next
  case (Cons v vs)
  from Cons.prems(2) show ?case
  proof cases
    case (items_cons b B ps' C')
    obtain s1 where s1: "json_free f (Some b) s = Some s1" "moves B s {} s1"
      using freesD [OF assms(1) Cons.prems(1) items_cons(3)] Cons.prems(8) by auto
    have C': "C' \<subseteq> dom (m_heap s)" using json_at_dom(2) items_cons(4) by blast
    have i: "items_at (m_heap s1) ps' vs C'"
      using items_cons(4,5) C' by (intro json_at_frame(2) [OF items_cons(4)] moves_same [OF s1(2)]) auto
    have n: "m_heap s1 a = Some (Node n)" using cell_moves [OF Cons.prems(3) s1(2)] Cons.prems(6) items_cons(2) by auto
    have p: "ptrs_at (m_heap s1) (jn_ptr n) ((qs @ [Some b]) @ ps') I"
      using ptrs_at_moves [OF Cons.prems(5) s1(2)] Cons.prems(7) items_cons(1,2) by auto
    have "\<exists>s2. free_members f a [length (qs @ [Some b])..<length ((qs @ [Some b]) @ ps')] s1 = Some s2 \<and> moves C' s1 {} s2"
      by (rule Cons.IH [OF moves_ok(1) [OF s1(2)] i n Cons.prems(4) p]) (use Cons.prems(6-8) items_cons(2) in auto)
    then obtain s2 where s2: "free_members f a [length (qs @ [Some b])..<length ((qs @ [Some b]) @ ps')] s1 = Some s2" "moves C' s1 {} s2"
      by blast
    have "moves C s {} s2" using moves_gone [OF s1(2) s2(2) C'] items_cons(2,5) by simp
    moreover have "[length qs..<length (qs @ ps)] = length qs # [length (qs @ [Some b])..<length ((qs @ [Some b]) @ ps')]"
      unfolding items_cons(1) by (rule upt_member)
    ultimately show ?thesis
      using s1(1) s2(1) read_ptr_at [of s "jn_ptr n" qs "Some b" ps' I] Cons.prems(3-5) items_cons(1)
      by (simp add: read_node_at)
  qed
qed

lemma free_obj_members:
  assumes "frees f" and "mem_ok s" and "members_at (m_heap s) ks ps kvs C" and "m_heap s a = Some (Node n)" and "jn_type n = JSON_OBJ"
    and "ptrs_at (m_heap s) (jn_ptr n) (qs @ ps) I" and "ptrs_at (m_heap s) (jn_keys n) (ls @ ks) K" and "length ls = length qs"
    and "a \<notin> C" and "(I \<union> K) \<inter> C = {}" and "\<forall>(k, v) \<in> set kvs. json_depth v < f"
  shows "\<exists>s'. free_members f a [length qs..<length (qs @ ps)] s = Some s' \<and> moves C s {} s'"
  using assms(2-11)
proof (induction kvs arbitrary: s ps qs ks ls C)
  case Nil
  then have "ps = []" "C = {}" by (auto elim: members_at.cases)
  then show ?case using Nil.prems(1) by (simp add: moves_refl)
next
  case (Cons kv kvs)
  from Cons.prems(2) show ?case
  proof cases
    case (members_cons k key b v B ks' ps' C')
    have kd: "k \<in> dom (m_heap s)" using members_cons(5) by auto
    from free_moves [OF Cons.prems(1) this] obtain s0 where s0: "mem_free (Some k) s = Some s0" "moves {k} s {} s0" by blast
    have "json_at (m_heap s0) b v B" using json_at_moves [OF members_cons(6) s0(2)] members_cons(8) by auto
    then obtain s1 where s1: "json_free f (Some b) s0 = Some s1" "moves B s0 {} s1"
      using freesD [OF assms(1) moves_ok(1) [OF s0(2)]] Cons.prems(10) members_cons(3) by fastforce
    have BC: "B \<subseteq> dom (m_heap s)" "C' \<subseteq> dom (m_heap s)" using json_at_dom(1,3) members_cons(6,7) by blast+
    have m1: "moves ({k} \<union> B) s {} s1" using moves_gone [OF s0(2) s1(2) BC(1)] members_cons(8) by auto
    have i: "members_at (m_heap s1) ks' ps' kvs C'"
      by (rule members_at_moves [OF members_cons(7) m1]) (use members_cons(8,9) in auto)
    have n: "m_heap s1 a = Some (Node n)" using cell_moves [OF Cons.prems(3) m1] Cons.prems(8) members_cons(4) by auto
    have p: "ptrs_at (m_heap s1) (jn_ptr n) ((qs @ [Some b]) @ ps') I"
      using ptrs_at_moves [OF Cons.prems(5) m1] Cons.prems(9) members_cons(2,4) by auto
    have l: "ptrs_at (m_heap s1) (jn_keys n) ((ls @ [Some k]) @ ks') K"
      using ptrs_at_moves [OF Cons.prems(6) m1] Cons.prems(9) members_cons(1,4) by auto
    have "\<exists>s2. free_members f a [length (qs @ [Some b])..<length ((qs @ [Some b]) @ ps')] s1 = Some s2 \<and> moves C' s1 {} s2"
      by (rule Cons.IH [OF moves_ok(1) [OF m1] i n Cons.prems(4) p l]) (use Cons.prems(7-10) members_cons(4) in auto)
    then obtain s2 where s2: "free_members f a [length (qs @ [Some b])..<length ((qs @ [Some b]) @ ps')] s1 = Some s2" "moves C' s1 {} s2"
      by blast
    have "moves C s {} s2" using moves_gone [OF m1 s2(2) BC(2)] members_cons(4,8,9) by auto
    moreover have "[length qs..<length (qs @ ps)] = length qs # [length (qs @ [Some b])..<length ((qs @ [Some b]) @ ps')]"
      unfolding members_cons(2) by (rule upt_member)
    moreover have "read_ptr (jn_keys n) (length qs) s = Some (Some k)"
      using read_ptr_at [of s "jn_keys n" ls "Some k" ks' K] Cons.prems(6,7) members_cons(1) by simp
    moreover have "read_ptr (jn_ptr n) (length qs) s0 = Some (Some b)"
      using read_ptr_at [of s0 "jn_ptr n" qs "Some b" ps' I] ptrs_at_moves [OF Cons.prems(5) s0(2)] Cons.prems(9) members_cons(2,4) by auto
    ultimately show ?thesis
      using s0(1) s1(1) s2(1) Cons.prems(3,4) by (simp add: read_node_at)
  qed
qed

lemma free_array:
  assumes "frees f" and "mem_ok s" and "json_at (m_heap s) a (JArr vs) B" and "json_depth (JArr vs) < Suc f"
  shows "\<exists>s'. json_free (Suc f) (Some a) s = Some s' \<and> moves B s {} s'"
proof -
  from assms(3) obtain n ps I C where n: "m_heap s a = Some (Node n)" "jn_type n = JSON_ARR" "jn_keys n = None"
      "ptrs_at (m_heap s) (jn_ptr n) ps I" "jn_count n = length ps" "items_at (m_heap s) ps vs C" "a \<notin> I \<union> C" "I \<inter> C = {}"
      "B = {a} \<union> I \<union> C"
    by (rule json_at_arrE) (rule that, (assumption | simp)+)
  have "\<forall>v \<in> set vs. json_depth v < f" using depth_arr [of _ vs] assms(4) by fastforce
  then have "\<exists>s'. free_members f a [length ([] :: ptr list)..<length ([] @ ps)] s = Some s' \<and> moves C s {} s'"
    using n(4,7) by (intro free_items [OF assms(1,2) n(6,1,2) _ _ n(8)]) auto
  then obtain s1 where s1: "free_members f a [0..<jn_count n] s = Some s1" "moves C s {} s1" using n(5) by auto
  have p1: "ptrs_at (m_heap s1) (jn_ptr n) ps I" by (rule ptrs_at_moves [OF n(4) s1(2) n(8)])
  obtain s2 where s2: "mem_free (jn_ptr n) s1 = Some s2" "moves I s1 {} s2"
    using free_block [OF moves_ok(1) [OF s1(2)] p1] by blast
  have m2: "moves (C \<union> I) s {} s2" using moves_gone [OF s1(2) s2(2)] ptrs_at_dom [OF n(4)] n(8) by auto
  have "a \<in> dom (m_heap s2)" using cell_moves [OF n(1) m2] n(7) by auto
  from free_moves [OF moves_ok(1) [OF m2] this] obtain s3 where s3: "mem_free (Some a) s2 = Some s3" "moves {a} s2 {} s3" by blast
  have "moves ((C \<union> I) \<union> {a}) s {} s3" using moves_gone [OF m2 s3(2)] n(1,7) by auto
  moreover have "(C \<union> I) \<union> {a} = B" using n(9) by auto
  ultimately show ?thesis using s1(1) s2(1) s3(1) n(1-3) by (simp add: read_node_at mem_free_def [of None])
qed

lemma free_object:
  assumes "frees f" and "mem_ok s" and "json_at (m_heap s) a (JObj kvs) B" and "json_depth (JObj kvs) < Suc f"
  shows "\<exists>s'. json_free (Suc f) (Some a) s = Some s' \<and> moves B s {} s'"
proof -
  from assms(3) obtain n ps I ks K C where n: "m_heap s a = Some (Node n)" "jn_type n = JSON_OBJ"
      "ptrs_at (m_heap s) (jn_ptr n) ps I" "ptrs_at (m_heap s) (jn_keys n) ks K" "jn_count n = length ps"
      "members_at (m_heap s) ks ps kvs C" "a \<notin> I \<union> K \<union> C" "I \<inter> K = {}" "(I \<union> K) \<inter> C = {}" "B = {a} \<union> I \<union> K \<union> C"
    by (rule json_at_objE) (rule that, (assumption | simp)+)
  have "\<forall>(k, v) \<in> set kvs. json_depth v < f" using depth_obj [of _ _ kvs] assms(4) by fastforce
  then have "\<exists>s'. free_members f a [length ([] :: ptr list)..<length ([] @ ps)] s = Some s' \<and> moves C s {} s'"
    using n(3,4,7) by (intro free_obj_members [OF assms(1,2) n(6,1,2) _ _ _ _ n(9), of "[]" "[]"]) auto
  then obtain s1 where s1: "free_members f a [0..<jn_count n] s = Some s1" "moves C s {} s1" using n(5) by auto
  have p1: "ptrs_at (m_heap s1) (jn_ptr n) ps I" by (rule ptrs_at_moves [OF n(3) s1(2)]) (use n(9) in auto)
  have k1: "ptrs_at (m_heap s1) (jn_keys n) ks K" by (rule ptrs_at_moves [OF n(4) s1(2)]) (use n(9) in auto)
  obtain s2 where s2: "mem_free (jn_keys n) s1 = Some s2" "moves K s1 {} s2"
    using free_block [OF moves_ok(1) [OF s1(2)] k1] by blast
  have p2: "ptrs_at (m_heap s2) (jn_ptr n) ps I" by (rule ptrs_at_moves [OF p1 s2(2) n(8)])
  obtain s3 where s3: "mem_free (jn_ptr n) s2 = Some s3" "moves I s2 {} s3"
    using free_block [OF moves_ok(1) [OF s2(2)] p2] by blast
  have m2: "moves (C \<union> K) s {} s2" using moves_gone [OF s1(2) s2(2)] ptrs_at_dom [OF n(4)] n(9) by auto
  have m3: "moves (C \<union> K \<union> I) s {} s3" using moves_gone [OF m2 s3(2)] ptrs_at_dom [OF n(3)] n(8,9) by auto
  have "a \<in> dom (m_heap s3)" using cell_moves [OF n(1) m3] n(7) by auto
  from free_moves [OF moves_ok(1) [OF m3] this] obtain s4 where s4: "mem_free (Some a) s3 = Some s4" "moves {a} s3 {} s4" by blast
  have "moves ((C \<union> K \<union> I) \<union> {a}) s {} s4" using moves_gone [OF m3 s4(2)] n(1,7) by auto
  moreover have "(C \<union> K \<union> I) \<union> {a} = B" using n(10) by auto
  ultimately show ?thesis using s1(1) s2(1) s3(1) s4(1) n(1,2) by (simp add: read_node_at)
qed

text \<open>A tree is released whole, each block once, by a recursion of its depth.\<close>

lemma json_free_ok: "frees f"
proof (induction f)
  case 0
  show ?case by (simp add: frees_def)
next
  case (Suc f)
  have "\<exists>s'. json_free (Suc f) (Some a) s = Some s' \<and> moves B s {} s'"
    if ok: "mem_ok s" and at: "json_at (m_heap s) a v B" and depth: "json_depth v < Suc f" for s a v B
    using at
  proof cases
    case (arr n ps I vs C)
    then show ?thesis using free_array [OF Suc ok] at depth by simp
  next
    case (obj n ps I ks K kvs C)
    then show ?thesis using free_object [OF Suc ok] at depth by simp
  next
    case (str n p t)
    have p: "p \<in> dom (m_heap s)" "a \<in> dom (m_heap s)" using str by auto
    from free_moves [OF ok p(1)] obtain s1
      where s1: "mem_free (Some p) s = Some s1" "moves {p} s {} s1" "m_heap s1 = (m_heap s)(p := None)" by blast
    have "a \<noteq> p" using str(3,6) by auto
    then have "a \<in> dom (m_heap s1)" using s1(3) p(2) by auto
    from free_moves [OF moves_ok(1) [OF s1(2)] this] obtain s2 where s2: "mem_free (Some a) s1 = Some s2" "moves {a} s1 {} s2" by blast
    have "moves ({p} \<union> {a}) s {} s2" using moves_gone [OF s1(2) s2(2)] p \<open>a \<noteq> p\<close> by auto
    then show ?thesis using str s1(1) s2(1) by (simp add: read_node_at insert_commute)
  qed (use free_moves [OF ok, of a] in \<open>auto simp: read_node_at\<close>)
  then show ?case by (simp add: frees_def)
qed

lemma json_free_dead: "m_heap s a = None \<Longrightarrow> json_free f (Some a) s = None"
  by (cases f) (simp_all add: read_node_def)

interpretation json_tree: owned_tree json_at "json_free FREE_DEPTH" "\<lambda>v. json_depth v \<le> Suc JSON_MAX_DEPTH"
proof unfold_locales
  show "\<exists>s'. json_free FREE_DEPTH (Some a) s = Some s' \<and> moves B s {} s'"
    if "mem_ok s" "json_at (m_heap s) a v B" "json_depth v \<le> Suc JSON_MAX_DEPTH" for s a v B
    using freesD [OF json_free_ok that(1,2), of FREE_DEPTH] that(3) by (simp add: FREE_DEPTH_def)
qed (auto intro: json_at_frame(1) json_free_dead dest: json_at_dom(1))

section \<open>Single values\<close>

text \<open>The constructors return \<^verbatim>\<open>NULL\<close>, with nothing allocated, or a new value.\<close>

lemma json_new_num_ok:
  assumes "mem_ok s"
  obtains (fail) s' where "json_new_num d s = Some (None, s')" "moves {} s {} s'" "m_outcomes s \<noteq> []" "m_heap s' = m_heap s"
  | (new) a s' where "json_new_num d s = Some (Some a, s')" "moves {} s {a} s'" "json_at (m_heap s') a (JNum d) {a}"
  using assms
proof (cases rule: alloc_moves [where c = "Node (zero_node JSON_NUM)"])
  case (fail s')
  then show ?thesis using that(1) by (simp add: json_new_num_def vnew_def set_node_def)
next
  case (new a s1)
  define n where "n = (zero_node JSON_NUM)\<lparr>jn_num := d\<rparr>"
  have "a \<in> dom (m_heap s1)" using new(3) by simp
  from put_moves [OF moves_ok(1) [OF new(2)] this] obtain s2
    where s2: "mem_put a (Node n) s1 = Some s2" "moves {a} s1 {a} s2" "m_heap s2 = (m_heap s1)(a \<mapsto> Node n)" by blast
  have "json_at (m_heap s2) a (JNum d) {a}" using json_at_items_at_members_at.num [of "m_heap s2" a n] s2(3) by (simp add: n_def zero_node_def)
  then show ?thesis
    using that(2) [of a s2] moves_trans [OF new(2) s2(2)] new(1,3) s2(1)
    by (simp add: json_new_num_def vnew_def set_node_def read_node_def n_def)
qed

lemma json_new_str_ok:
  assumes "mem_ok s"
  obtains (fail) s' where "json_new_str t s = Some (None, s')" "moves {} s {} s'" "m_outcomes s \<noteq> []"
  | (new) a B s' where "json_new_str t s = Some (Some a, s')" "moves {} s B s'" "json_at (m_heap s') a (JStr t) B"
  using assms
proof (cases rule: alloc_moves [where c = "Node (zero_node JSON_STR)"])
  case (fail s')
  then show ?thesis using that(1) by (simp add: json_new_str_def vnew_def)
next
  case (new a s1)
  from moves_ok(1) [OF new(2)] show ?thesis
  proof (cases rule: alloc_moves [where c = "Text t"])
    case (fail s2)
    have m: "moves {} s {a} s2" using moves_trans [OF new(2) moves_frame [OF fail(2), of "{a}", simplified]] new(3) by auto
    obtain s3 where s3: "mem_free (Some a) s2 = Some s3" "moves {a} s2 {} s3"
      using free_moves [OF moves_ok(1) [OF m], of a] movesD(5) [OF m] by blast
    have "m_outcomes s \<noteq> []" using fail(3) movesD(9) [OF new(2)] by blast
    then show ?thesis using that(1) [of s3] moves_trans [OF m s3(2)] new(1) fail(1) s3(1) by (simp add: json_new_str_def vnew_def)
  next
    case str: (new p s2)
    have ap: "a \<noteq> p" using str(4) new(3) by auto
    have m: "moves {} s {p, a} s2" using moves_trans [OF new(2) moves_frame [OF str(2), of "{a}", simplified]] ap new(3) by (auto simp: insert_commute)
    define n where "n = (zero_node JSON_STR)\<lparr>jn_ptr := Some p\<rparr>"
    have a2: "m_heap s2 a = Some (Node (zero_node JSON_STR))" using new(3) str(3) ap by simp
    then obtain s3 where s3: "mem_put a (Node n) s2 = Some s3" "moves {a} s2 {a} s3" "m_heap s3 = (m_heap s2)(a \<mapsto> Node n)"
      using put_moves [OF moves_ok(1) [OF m], of a] by blast
    have "moves {} s ({p, a} - {a} \<union> {a}) s3" by (rule moves_in [OF m s3(2)]) simp
    moreover have "{p, a} - {a} \<union> {a} = {a, p}" by auto
    moreover have "json_at (m_heap s3) a (JStr t) {a, p}"
      using s3(3) str(3) ap by (intro json_at_items_at_members_at.str [where n = n]) (auto simp: n_def zero_node_def)
    ultimately show ?thesis
      using that(2) [of a s3 "{a, p}"] new(1) str(1) s3(1) a2 by (simp add: json_new_str_def vnew_def set_node_def read_node_def n_def)
  qed
qed

end
