(* ===== verification/Json_Memory_Correct.thy ===== *)
theory Json_Memory_Correct
  imports Json_Tree
begin

text \<open>
  The parser in memory against the parser on texts: strings, values, whole documents, whatever allocations fail.
\<close>

section \<open>Strings\<close>

text \<open>
  What a string function may do with the blocks \<open>A\<close> it owns: a success is the one of the parser without memory, in a block of its
  own; an error is the same one as long as memory lasts.
\<close>

definition str_ok :: "nat set \<Rightarrow> json_memory \<Rightarrow> string presult \<Rightarrow> mresult \<Rightarrow> bool" where
  "str_ok A s pure r \<longleftrightarrow> (case r of
     MFault \<Rightarrow> False
   | MOk out p s' \<Rightarrow> \<exists>b t. out = Some b \<and> pure = POk t p \<and> m_heap s' b = Some (Text t) \<and> moves A s {b} s'
   | MErr m i out s' \<Rightarrow> out = None \<and> (m_outcomes s = [] \<longrightarrow> pure = PErr m i) \<and> (\<exists>L. moves A s L s'))"

lemma str_ok_after: "moves A s B s1 \<Longrightarrow> str_ok B s1 pure r \<Longrightarrow> str_ok A s pure r"
  by (auto simp: str_ok_def split: mresult.splits intro: moves_trans dest: movesD(9))

lemma str_ok_freeing:
  assumes "mem_ok s" and "b \<in> dom (m_heap s)"
  shows "str_ok {b} s (PErr m i) (freeing (Some b) s (MErr m i None))"
proof -
  from free_moves [OF assms] obtain s' where "mem_free (Some b) s = Some s'" "moves {b} s {} s'" by blast
  then show ?thesis by (auto simp: str_ok_def freeing_def)
qed

lemma string_room_ok:
  assumes "mem_ok s" and "m_heap s b = Some (Text acc)" and "length acc \<le> cap" and "0 < cap"
  obtains (fail) c s' where "string_room acc cap b s = Some (None, c, s')" "moves {b} s {b} s'" "m_outcomes s \<noteq> []"
  | (room) q c s' where "string_room acc cap b s = Some (Some q, c, s')" "moves {b} s {q} s'" "m_heap s' q = Some (Text acc)"
      "length acc < c"
proof (cases "length acc = cap")
  case False
  then show ?thesis using room [of b cap s] assms by (auto simp: string_room_def intro: moves_refl)
next
  case full: True
  show ?thesis
    using assms(1)
  proof (cases rule: alloc_moves [where c = "Text acc"])
    case (fail s')
    have "moves {b} s {b} s'" using moves_frame [OF fail(2), of "{b}"] assms(2) by auto
    then show ?thesis using that(1) fail full by (simp add: string_room_def)
  next
    case (new q s')
    have m: "moves {b} s {q, b} s'" using moves_frame [OF new(2), of "{b}"] assms(2) by (auto simp: insert_commute)
    have "q \<noteq> b" using new(4) assms(2) by auto
    obtain s2 where s2: "mem_free (Some b) s' = Some s2" "moves {b} s' {} s2" "m_heap s2 = (m_heap s')(b := None)"
      using free_moves [OF moves_ok(1) [OF m], of b] movesD(5) [OF m] by auto
    have "moves {b} s ({q, b} - {b} \<union> {}) s2" by (rule moves_in [OF m s2(2)]) simp
    moreover have "{q, b} - {b} \<union> {} = {q}" using \<open>q \<noteq> b\<close> by auto
    ultimately show ?thesis
      using that(2) [of q "cap * 2" s2] full new(1,3) s2(1,3) \<open>q \<noteq> b\<close> assms(4) by (simp add: string_room_def)
  qed
qed

lemma string_store_ok:
  assumes "mem_ok s" and "m_heap s b = Some (Text acc)" and "length acc \<le> cap" and "0 < cap"
    and "\<And>s1 q c. \<lbrakk>mem_ok s1; m_heap s1 q = Some (Text (acc @ [d])); length (acc @ [d]) \<le> c; 0 < c\<rbrakk>
       \<Longrightarrow> str_ok {q} s1 pure (json_string_body_at dep r pos (acc @ [d]) c q s1)"
  shows "str_ok {b} s pure (json_string_store dep r pos d acc cap b s)"
  using assms(1-4)
proof (cases rule: string_room_ok)
  case (fail c s')
  then show ?thesis by (auto simp: str_ok_def freeing_def mem_free_def)
next
  case (room q c s1)
  have "q \<in> dom (m_heap s1)" using room(3) by auto
  from put_moves [OF moves_ok(1) [OF room(2)] this] obtain s2
    where s2: "mem_put q (Text (acc @ [d])) s1 = Some s2" "moves {q} s1 {q} s2" "m_heap s2 = (m_heap s1)(q \<mapsto> Text (acc @ [d]))"
    by blast
  have "str_ok {q} s2 pure (json_string_body_at dep r pos (acc @ [d]) c q s2)"
    using room(4) s2(3) by (intro assms(5) moves_ok(1) [OF s2(2)]) auto
  then have "str_ok {b} s pure (json_string_body_at dep r pos (acc @ [d]) c q s2)"
    by (rule str_ok_after [OF moves_trans [OF room(2) s2(2)]])
  then show ?thesis using room(1,4) s2(1) by simp
qed

lemma string_body_ok:
  "\<lbrakk>mem_ok s; m_heap s b = Some (Text acc); length acc \<le> cap; 0 < cap\<rbrakk> \<Longrightarrow>
   str_ok {b} s (json_string_body dep r pos acc) (json_string_body_at dep r pos acc cap b s)"
proof (induction dep r pos acc arbitrary: s b cap rule: json_string_body.induct)
  case (1 dep pos acc)
  then show ?case using str_ok_freeing [OF 1(1), of b] by auto
next
  case (2 dep c r pos acc)
  have err: "str_ok {b} s (PErr m i) (freeing (Some b) s (MErr m i None))" for m i
    using str_ok_freeing [OF "2.prems"(1)] "2.prems"(2) by auto
  consider (quote) "c = CHR 0x22" | (control) "c \<noteq> CHR 0x22" "ordc c < 0x20"
    | (esc) "c \<noteq> CHR 0x22" "\<not> ordc c < 0x20" "c = CHR 0x5C" | (plain) "c \<noteq> CHR 0x22" "\<not> ordc c < 0x20" "c \<noteq> CHR 0x5C" by blast
  then show ?case
  proof cases
    case quote
    from "2.prems" show ?thesis
    proof (cases rule: string_room_ok)
      case (fail k s')
      then show ?thesis using quote by (auto simp: str_ok_def freeing_def mem_free_def)
    next
      case (room q k s')
      then show ?thesis using quote by (auto simp: str_ok_def)
    qed
  next
    case control
    then show ?thesis using err by simp
  next
    case esc
    show ?thesis
    proof (cases r)
      case Nil
      then show ?thesis using esc err by simp
    next
      case (Cons e r')
      show ?thesis
      proof (cases "e = CHR ''u'' \<or> json_unescape e = None")
        case True
        then show ?thesis using esc Cons err by auto
      next
        case False
        then obtain d where d: "json_unescape e = Some d" by auto
        have "str_ok {b} s (json_string_body dep r' (pos + 2) (acc @ [d])) (json_string_store dep r' (pos + 2) d acc cap b s)"
          using "2.IH"(1) [OF esc Cons _ d] False by (intro string_store_ok "2.prems") auto
        then show ?thesis using esc Cons False d by simp
      qed
    qed
  next
    case plain
    have "str_ok {b} s (json_string_body dep r (pos + 1) (acc @ [c])) (json_string_store dep r (pos + 1) c acc cap b s)"
      using "2.IH"(2) [OF plain] by (intro string_store_ok "2.prems") auto
    then show ?thesis using plain by simp
  qed
qed

lemma parse_string_ok:
  assumes "mem_ok s"
  shows "str_ok {} s (json_parse_string p) (json_parse_string_at p s)"
proof (cases "at_char p CHR 0x22")
  case False
  then show ?thesis using moves_refl [OF assms, of "{}"] by (auto simp: json_parse_string_def json_parse_string_at_def str_ok_def)
next
  case True
  from assms show ?thesis
  proof (cases rule: alloc_moves [where c = "Text []"])
    case (fail s')
    then show ?thesis using True by (auto simp: json_parse_string_at_def str_ok_def)
  next
    case (new b s')
    have "str_ok {b} s' (json_parse_string p) (json_parse_string_at p s)"
      using string_body_ok [OF moves_ok(1) [OF new(2)], of b "[]" 16] new(1,3) True
      by (simp add: json_parse_string_def json_parse_string_at_def)
    then show ?thesis by (rule str_ok_after [OF new(2)])
  qed
qed

section \<open>The parser\<close>

text \<open>
  A parsing step at depth \<open>d\<close> that owns the blocks \<open>A\<close>: a success is a tree with the value of the parser without memory, on
  exactly the blocks the step then owns; an error leaves the tree under construction, and may have lost other blocks.
\<close>

definition val_ok :: "nat \<Rightarrow> nat set \<Rightarrow> json_memory \<Rightarrow> json_value presult \<Rightarrow> mresult \<Rightarrow> bool" where
  "val_ok d A s pure r \<longleftrightarrow> (case r of
     MFault \<Rightarrow> pure = PFuel
   | MOk out p s' \<Rightarrow> \<exists>a v B. out = Some a \<and> pure = POk v p \<and> json_at (m_heap s') a v B \<and> moves A s B s' \<and> json_depth v + d \<le> Suc JSON_MAX_DEPTH
   | MErr m i out s' \<Rightarrow> (m_outcomes s = [] \<longrightarrow> pure = PErr m i) \<and>
       (\<exists>L. moves A s L s' \<and> (\<forall>a. out = Some a \<longrightarrow> (\<exists>v B. json_at (m_heap s') a v B \<and> B \<subseteq> L \<and> json_depth v + d \<le> Suc JSON_MAX_DEPTH))))"

lemma val_ok_simps [simp]:
  "val_ok d A s pure MFault \<longleftrightarrow> pure = PFuel"
  "val_ok d A s pure (MErr m i None s') \<longleftrightarrow> (m_outcomes s = [] \<longrightarrow> pure = PErr m i) \<and> (\<exists>L. moves A s L s')"
  by (auto simp: val_ok_def)

lemma val_ok_MOk: "json_at (m_heap s') a v B \<Longrightarrow> moves A s B s' \<Longrightarrow> json_depth v + d \<le> Suc JSON_MAX_DEPTH \<Longrightarrow> val_ok d A s (POk v p) (MOk (Some a) p s')"
  by (auto simp: val_ok_def)

lemma val_ok_MErr:
  "json_at (m_heap s') a v B \<Longrightarrow> moves A s L s' \<Longrightarrow> B \<subseteq> L \<Longrightarrow> json_depth v + d \<le> Suc JSON_MAX_DEPTH \<Longrightarrow> (m_outcomes s = [] \<Longrightarrow> pure = PErr m i)
    \<Longrightarrow> val_ok d A s pure (MErr m i (Some a) s')"
  unfolding val_ok_def by auto

lemma val_ok_after: "moves A s B s1 \<Longrightarrow> val_ok d B s1 pure r \<Longrightarrow> val_ok d A s pure r"
proof (cases r)
  case (MOk out p s')
  assume "moves A s B s1" "val_ok d B s1 pure r"
  then show ?thesis using MOk moves_trans [of A s B s1] unfolding val_ok_def by auto blast
next
  case (MErr m' i out s')
  assume m: "moves A s B s1" and v: "val_ok d B s1 pure r"
  then obtain L where "moves B s1 L s'" "\<forall>a. out = Some a \<longrightarrow> (\<exists>v B. json_at (m_heap s') a v B \<and> B \<subseteq> L \<and> json_depth v + d \<le> Suc JSON_MAX_DEPTH)"
    unfolding MErr val_ok_def by auto
  then have "moves A s L s'" using moves_trans [OF m] by blast
  moreover have "m_outcomes s = [] \<longrightarrow> pure = PErr m' i" using v movesD(9) [OF m] unfolding MErr val_ok_def by simp
  ultimately show ?thesis
    using \<open>\<forall>a. out = Some a \<longrightarrow> _\<close> unfolding MErr val_ok_def by (simp, blast)
qed simp

lemma leaf_ok:
  assumes "mem_ok s" and "d \<le> JSON_MAX_DEPTH" and "json_depth v = 0" and "\<And>h a. h a = Some (Node (f (zero_node t))) \<Longrightarrow> json_at h a v {a}"
  shows "val_ok d {} s (POk v p) (leaf p (set_node f (vnew t s)))"
  using assms(1)
proof (cases rule: alloc_moves [where c = "Node (zero_node t)"])
  case (fail s')
  then show ?thesis by (auto simp: leaf_def set_node_def vnew_def)
next
  case (new a s1)
  have "a \<in> dom (m_heap s1)" using new(3) by simp
  from put_moves [OF moves_ok(1) [OF new(2)] this] obtain s2
    where s2: "mem_put a (Node (f (zero_node t))) s1 = Some s2" "moves {a} s1 {a} s2" "m_heap s2 = (m_heap s1)(a \<mapsto> Node (f (zero_node t)))"
    by blast
  have "json_at (m_heap s2) a v {a}" by (rule assms(4)) (simp add: s2(3))
  then have "val_ok d {} s (POk v p) (MOk (Some a) p s2)"
    using moves_trans [OF new(2) s2(2)] assms(2,3) by (intro val_ok_MOk) auto
  then show ?thesis using new(1,3) s2(1) by (simp add: leaf_def set_node_def vnew_def read_node_def)
qed

lemma string_value_ok:
  assumes "mem_ok s" and "d \<le> JSON_MAX_DEPTH"
  shows "val_ok d {} s (case json_parse_string p of POk t p' \<Rightarrow> POk (JStr t) p' | PErr m i \<Rightarrow> PErr m i | PFuel \<Rightarrow> PFuel)
    (json_string_value_at p s)"
  using parse_string_ok [OF assms(1), of p]
proof (cases "json_parse_string_at p s")
  case (MErr m i out s')
  then show ?thesis using parse_string_ok [OF assms(1), of p] by (auto simp: str_ok_def json_string_value_at_def)
next
  case (MOk out p' s1)
  then obtain b t where b: "out = Some b" "json_parse_string p = POk t p'" "m_heap s1 b = Some (Text t)" "moves {} s {b} s1"
    using parse_string_ok [OF assms(1), of p] by (auto simp: str_ok_def)
  from moves_ok(1) [OF b(4)] show ?thesis
  proof (cases rule: alloc_moves [where c = "Node (zero_node JSON_STR)"])
    case (fail s2)
    have m: "moves {} s {b} s2" using moves_trans [OF b(4) moves_frame [OF fail(2), of "{b}", simplified]] b(3) by auto
    from free_moves [OF moves_ok(1) [OF m], of b] movesD(5) [OF m] obtain s3
      where s3: "mem_free (Some b) s2 = Some s3" "moves {b} s2 {} s3" by blast
    have "m_outcomes s \<noteq> []" using fail(3) movesD(9) [OF b(4)] by auto
    then show ?thesis
      using moves_trans [OF m s3(2)] s3(1) fail(1) MOk b(1) by (auto simp: json_string_value_at_def vnew_def freeing_def)
  next
    case (new a s2)
    define n where "n = (zero_node JSON_STR)\<lparr>jn_ptr := Some b\<rparr>"
    have ab: "a \<noteq> b" using new(4) b(3) by auto
    have m: "moves {} s {a, b} s2" using moves_trans [OF b(4) moves_frame [OF new(2), of "{b}", simplified]] ab b(3) by (auto simp: insert_commute)
    have "a \<in> dom (m_heap s2)" using new(3) by simp
    from put_moves [OF moves_ok(1) [OF m] this] obtain s3
      where s3: "mem_put a (Node n) s2 = Some s3" "moves {a} s2 {a} s3" "m_heap s3 = (m_heap s2)(a \<mapsto> Node n)" by blast
    have "moves {} s ({a, b} - {a} \<union> {a}) s3" by (rule moves_in [OF m s3(2)]) simp
    moreover have "{a, b} - {a} \<union> {a} = {a, b}" by auto
    moreover have "json_at (m_heap s3) a (JStr t) {a, b}"
      using s3(3) new(3) ab b(3) by (intro str [where n = n]) (auto simp: n_def zero_node_def)
    ultimately have "val_ok d {} s (POk (JStr t) p') (MOk (Some a) p' s3)" using assms(2) by (intro val_ok_MOk) auto
    then show ?thesis
      using new(1,3) s3(1) b(1,2) MOk by (simp add: json_string_value_at_def vnew_def leaf_def set_node_def read_node_def n_def)
  qed
qed (simp add: str_ok_def)

lemma val_ok_open:
  assumes "mem_ok s" and "m_shrinks s" and "p_depth p \<le> JSON_MAX_DEPTH" and "\<And>h a. h a = Some (Node (zero_node t)) \<Longrightarrow> json_at h a w {a}"
    and "json_depth w = 1"
    and "\<And>p2 a s'. \<lbrakk>p_depth p2 = p_depth p + 1; p_depth p + 1 \<le> JSON_MAX_DEPTH; mem_ok s'; m_shrinks s'; json_at (m_heap s') a w {a}\<rbrakk>
       \<Longrightarrow> val_ok (p_depth p) {a} s' (K p2) (M p2 a s')"
  shows "val_ok (p_depth p) {} s
     (let p1 = (adv 1 p)\<lparr>p_depth := p_depth p + 1\<rparr>
      in if p_depth p1 > JSON_MAX_DEPTH then perr p1 m
         else let p2 = json_skip_ws p1
              in if at_char p2 c then POk w ((adv 1 p2)\<lparr>p_depth := p_depth p2 - 1\<rparr>) else K p2)
     (case vnew t s of
        (None, s) \<Rightarrow> MErr oom (p_pos p) None s
      | (Some a, s) \<Rightarrow>
          (let p1 = (adv 1 p)\<lparr>p_depth := p_depth p + 1\<rparr>
           in if p_depth p1 > JSON_MAX_DEPTH then MErr m (p_pos p1) (Some a) s
              else let p2 = json_skip_ws p1
                   in if at_char p2 c then MOk (Some a) ((adv 1 p2)\<lparr>p_depth := p_depth p2 - 1\<rparr>) s
                      else M p2 a s))"
  using assms(1)
proof (cases rule: alloc_moves [where c = "Node (zero_node t)"])
  case (fail s')
  then show ?thesis by (auto simp: vnew_def)
next
  case (new a s1)
  have at: "json_at (m_heap s1) a w {a}" by (rule assms(4)) (simp add: new(3))
  define p2 where "p2 = json_skip_ws ((adv 1 p)\<lparr>p_depth := p_depth p + 1\<rparr>)"
  have p2: "p_depth p2 = p_depth p + 1" by (simp add: p2_def)
  show ?thesis
  proof (cases "p_depth p + 1 > JSON_MAX_DEPTH")
    case True
    then show ?thesis using at new(1,2) assms(3,5) by (auto simp: vnew_def Let_def intro!: val_ok_MErr)
  next
    case False
    have "val_ok (p_depth p) {} s (K p2) (M p2 a s1)"
      using assms(2) movesD(10) [OF new(2)] False
      by (intro val_ok_after [OF new(2)] assms(6) moves_ok(1) [OF new(2)] at p2) auto
    then show ?thesis
      unfolding vnew_def new(1) prod.case option.case Let_def p2_def [symmetric]
      using at new(2) assms(3,5) False by (auto intro!: val_ok_MOk)
  qed
qed

lemma val_ok_next:
  assumes "moves A s B s1" and "json_at (m_heap s1) a w B" and "json_depth w + d \<le> Suc JSON_MAX_DEPTH" and "p_depth p1 = d + 1"
    and "\<And>p3. p_depth p3 = d + 1 \<Longrightarrow> val_ok d B s1 (K p3) (M p3)"
  shows "val_ok d A s
     (let p2 = json_skip_ws p1
      in if p_rest p2 = [] then perr p2 m
         else if at_char p2 c then K (json_skip_ws (adv 1 p2))
         else if at_char p2 c' then POk w ((adv 1 p2)\<lparr>p_depth := p_depth p2 - 1\<rparr>)
         else perr p2 m')
     (let p2 = json_skip_ws p1
      in if p_rest p2 = [] then MErr m (p_pos p2) (Some a) s1
         else if at_char p2 c then M (json_skip_ws (adv 1 p2))
         else if at_char p2 c' then MOk (Some a) ((adv 1 p2)\<lparr>p_depth := p_depth p2 - 1\<rparr>) s1
         else MErr m' (p_pos p2) (Some a) s1)"
proof -
  define p2 where "p2 = json_skip_ws p1"
  have "p_depth (json_skip_ws (adv 1 p2)) = d + 1" by (simp add: p2_def assms(4))
  from val_ok_after [OF assms(1) assms(5) [OF this]]
  show ?thesis
    unfolding Let_def p2_def [symmetric]
    using assms(1-3) by (auto intro!: val_ok_MErr val_ok_MOk)
qed

lemma depth_arr_snoc: "json_depth (JArr (vs @ [v])) = max (json_depth (JArr vs)) (Suc (json_depth v))"
  by (simp add: max.commute)

lemma depth_obj_snoc: "json_depth (JObj (kvs @ [(k, v)])) = max (json_depth (JObj kvs)) (Suc (json_depth v))"
  by (simp add: max.commute)

text \<open>Whether all five functions are right with this much fuel.\<close>

definition parse_at_ok :: "nat \<Rightarrow> bool" where
  "parse_at_ok fuel \<longleftrightarrow>
     (\<forall>s p. mem_ok s \<longrightarrow> m_shrinks s \<longrightarrow> p_depth p \<le> JSON_MAX_DEPTH \<longrightarrow>
       val_ok (p_depth p) {} s (json_parse_value fuel p) (json_parse_value_at fuel p s) \<and>
       val_ok (p_depth p) {} s (json_parse_array fuel p) (json_parse_array_at fuel p s) \<and>
       val_ok (p_depth p) {} s (json_parse_object fuel p) (json_parse_object_at fuel p s)) \<and>
     (\<forall>s p d a A. mem_ok s \<longrightarrow> m_shrinks s \<longrightarrow> p_depth p = d + 1 \<longrightarrow> d + 1 \<le> JSON_MAX_DEPTH \<longrightarrow>
       (\<forall>vs. json_at (m_heap s) a (JArr vs) A \<longrightarrow> json_depth (JArr vs) + d \<le> Suc JSON_MAX_DEPTH \<longrightarrow>
         val_ok d A s (json_array_loop fuel p vs) (json_array_loop_at fuel p a s)) \<and>
       (\<forall>kvs. json_at (m_heap s) a (JObj kvs) A \<longrightarrow> json_depth (JObj kvs) + d \<le> Suc JSON_MAX_DEPTH \<longrightarrow>
         val_ok d A s (json_object_loop fuel p kvs) (json_object_loop_at fuel p a s)))"

lemma parse_at_okD:
  assumes "parse_at_ok fuel" and "mem_ok s" and "m_shrinks s"
  shows "p_depth p \<le> JSON_MAX_DEPTH \<Longrightarrow> val_ok (p_depth p) {} s (json_parse_value fuel p) (json_parse_value_at fuel p s)"
    and "p_depth p \<le> JSON_MAX_DEPTH \<Longrightarrow> val_ok (p_depth p) {} s (json_parse_array fuel p) (json_parse_array_at fuel p s)"
    and "p_depth p \<le> JSON_MAX_DEPTH \<Longrightarrow> val_ok (p_depth p) {} s (json_parse_object fuel p) (json_parse_object_at fuel p s)"
    and "\<lbrakk>p_depth p = d + 1; d + 1 \<le> JSON_MAX_DEPTH; json_at (m_heap s) a (JArr vs) A; json_depth (JArr vs) + d \<le> Suc JSON_MAX_DEPTH\<rbrakk> \<Longrightarrow>
      val_ok d A s (json_array_loop fuel p vs) (json_array_loop_at fuel p a s)"
    and "\<lbrakk>p_depth p = d + 1; d + 1 \<le> JSON_MAX_DEPTH; json_at (m_heap s) a (JObj kvs) A; json_depth (JObj kvs) + d \<le> Suc JSON_MAX_DEPTH\<rbrakk> \<Longrightarrow>
      val_ok d A s (json_object_loop fuel p kvs) (json_object_loop_at fuel p a s)"
  using assms unfolding parse_at_ok_def by blast+

lemma strtod_num: "json_parse_number p = POk v p' \<Longrightarrow> v = JNum (fst (strtod (p_rest p)))"
  by (auto simp: json_parse_number_def Let_def split: if_splits prod.splits)

lemma number_ok:
  assumes "mem_ok s" and "p_depth p \<le> JSON_MAX_DEPTH" and "p_rest p = c # r" and "c = CHR ''-'' \<or> isdigit c"
  shows "val_ok (p_depth p) {} s (json_parse_number p) (json_parse_number_at p s)"
proof (cases "json_parse_number p")
  case (POk v p')
  have "val_ok (p_depth p) {} s (POk v p') (leaf p' (set_node (\<lambda>n. n\<lparr>jn_num := fst (strtod (p_rest p))\<rparr>) (vnew JSON_NUM s)))"
    unfolding strtod_num [OF POk]
    by (rule leaf_ok [OF assms(1,2)]) (simp, drule json_at_items_at_members_at.num, simp_all add: zero_node_def)
  then show ?thesis by (simp add: json_parse_number_at_def POk)
next
  case (PErr m i)
  then show ?thesis using moves_refl [OF assms(1), of "{}"] by (auto simp: json_parse_number_at_def)
qed (use json_parse_number_ok [OF assms(3,4)] in simp)

lemma value_at_step:
  assumes "parse_at_ok fuel" and "mem_ok s" and "m_shrinks s" and "p_depth p0 \<le> JSON_MAX_DEPTH"
  shows "val_ok (p_depth p0) {} s (json_parse_value (Suc fuel) p0) (json_parse_value_at (Suc fuel) p0 s)"
proof -
  define p where "p = json_skip_ws p0"
  have d: "p_depth p0 = p_depth p" by (simp add: p_def)
  have dm: "p_depth p \<le> JSON_MAX_DEPTH" using assms(4) d by simp
  have err: "val_ok (p_depth p) {} s (PErr m i) (MErr m i None s)" for m i
    using moves_refl [OF assms(2), of "{}"] by auto
  have bool: "val_ok (p_depth p) {} s (POk (JBool b) q) (leaf q (set_node (\<lambda>n. n\<lparr>jn_boolean := b\<rparr>) (vnew JSON_BOOL s)))" for b q
    by (rule leaf_ok [OF assms(2) dm]) (simp, drule json_at_items_at_members_at.bool, simp_all add: zero_node_def)
  have "val_ok (p_depth p) {} s (POk JNull q) (leaf q (set_node (\<lambda>n. n) (vnew JSON_NULL s)))" for q
    by (rule leaf_ok [OF assms(2) dm]) (simp, drule json_at_items_at_members_at.null, simp_all add: zero_node_def)
  moreover have "set_node (\<lambda>n. n) (vnew JSON_NULL s) = Some (vnew JSON_NULL s)"
    by (auto simp: set_node_def vnew_def mem_alloc_def Let_def read_node_def mem_put_def)
  ultimately have null: "val_ok (p_depth p) {} s (POk JNull q) (leaf q (Some (vnew JSON_NULL s)))" for q by simp
  show ?thesis
  proof (cases "p_rest p")
    case Nil
    then show ?thesis using err by (simp add: Let_def p_def [symmetric] d)
  next
    case (Cons c r)
    note * = parse_at_okD(2,3) [OF assms(1-3) dm] string_value_ok [OF assms(2) dm, of p] number_ok [OF assms(2) dm Cons] err bool null
    show ?thesis
      unfolding d json_parse_value.simps json_parse_value_at.simps Let_def p_def [symmetric] Cons list.case
      using * by (simp split del: if_split) (auto split: if_split)
  qed
qed

text \<open>Parsing a member next to the container under construction.\<close>

lemma val_ok_member:
  assumes "parse_at_ok fuel" and "mem_ok s" and "m_shrinks s" and "p_depth p = d + 1" and "d + 1 \<le> JSON_MAX_DEPTH" and "A \<subseteq> dom (m_heap s)"
  obtains (fault) "json_parse_value_at fuel p s = MFault" "json_parse_value fuel p = PFuel"
  | (err) m i out L s1 where "json_parse_value_at fuel p s = MErr m i out s1" "m_outcomes s = [] \<longrightarrow> json_parse_value fuel p = PErr m i"
      "moves {} s L s1" "moves A s (L \<union> A) s1"
  | (ok) b v p1 B s1 where "json_parse_value_at fuel p s = MOk (Some b) p1 s1" "json_parse_value fuel p = POk v p1"
      "json_at (m_heap s1) b v B" "moves {} s B s1" "moves A s (A \<union> B) s1" "A \<inter> B = {}" "json_depth v + d \<le> JSON_MAX_DEPTH" "p_depth p1 = d + 1"
proof -
  have v: "val_ok (d + 1) {} s (json_parse_value fuel p) (json_parse_value_at fuel p s)"
    using parse_at_okD(1) [OF assms(1-3), of p] assms(4,5) by simp
  show ?thesis
  proof (cases "json_parse_value_at fuel p s")
    case MFault
    then show ?thesis using v fault by simp
  next
    case (MErr m i out s1)
    then obtain L where "m_outcomes s = [] \<longrightarrow> json_parse_value fuel p = PErr m i" "moves {} s L s1"
      using v unfolding val_ok_def by auto
    then show ?thesis using err [OF MErr] moves_frame [of "{}" s L s1 A] assms(6) by simp
  next
    case (MOk out p1 s1)
    then obtain b v B where b: "out = Some b" "json_parse_value fuel p = POk v p1" "json_at (m_heap s1) b v B" "moves {} s B s1"
        "json_depth v + (d + 1) \<le> Suc JSON_MAX_DEPTH"
      using v unfolding val_ok_def by auto
    have "p_depth p1 = d + 1" using all_okD(1) [OF parser_all_ok, of p fuel] b(2) assms(4) by simp
    then show ?thesis
      using ok [of b p1 s1 v B] MOk b moves_frame [OF b(4) assms(6)] moves_disjoint [OF b(4) assms(6)] by (simp add: Un_commute)
  qed
qed

lemma free_value:
  assumes "mem_ok s" and "json_at (m_heap s) b v B" and "json_depth v \<le> Suc JSON_MAX_DEPTH"
  obtains s' where "json_free FREE_DEPTH (Some b) s = Some s'" "moves B s {} s'"
  using json_tree.release_ok [OF assms] by blast

lemma array_loop_at_step:
  assumes "parse_at_ok fuel" and "mem_ok s" and "m_shrinks s" and "p_depth p = d + 1" and "d + 1 \<le> JSON_MAX_DEPTH"
    and "json_at (m_heap s) a (JArr vs) A" and "json_depth (JArr vs) + d \<le> Suc JSON_MAX_DEPTH"
  shows "val_ok d A s (json_array_loop (Suc fuel) p vs) (json_array_loop_at (Suc fuel) p a s)"
proof -
  have A: "A \<subseteq> dom (m_heap s)" using json_at_dom(1) [OF assms(6)] by blast
  from assms(1-5) A show ?thesis
  proof (cases rule: val_ok_member)
    case fault
    then show ?thesis by simp
  next
    case (err m i out L s1)
    have "json_at (m_heap s1) a (JArr vs) A" by (rule json_at_moves [OF assms(6) err(3)]) simp
    then show ?thesis using val_ok_MErr [OF _ err(4) _ assms(7)] err(1,2) by simp
  next
    case (ok b v p1 B s1)
    have at1: "json_at (m_heap s1) a (JArr vs) A" by (rule json_at_moves [OF assms(6) ok(4)]) simp
    have depth: "json_depth (JArr (vs @ [v])) + d \<le> Suc JSON_MAX_DEPTH" unfolding depth_arr_snoc using assms(7) ok(7) by simp
    from moves_ok(1) [OF ok(4)] at1 ok(3,6) show ?thesis
    proof (cases rule: arr_add_ok)
      case (full s2)
      have at2: "json_at (m_heap s2) a (JArr vs) A" "json_at (m_heap s2) b v B" using at1 ok(3) full(4) by simp_all
      obtain s3 where s3: "json_free FREE_DEPTH (Some b) s2 = Some s3" "moves B s2 {} s3"
        using free_value [OF moves_ok(1) [OF full(2)] at2(2)] ok(7) by auto
      have "moves A s (A \<union> B - {} \<union> {} - B \<union> {}) s3" by (rule moves_in [OF moves_in [OF ok(5) full(2)] s3(2)]) auto
      moreover have "A \<subseteq> A \<union> B - {} \<union> {} - B \<union> {}" using ok(6) by auto
      moreover have "json_at (m_heap s3) a (JArr vs) A" by (rule json_at_moves [OF at2(1) s3(2) ok(6)])
      moreover have "m_outcomes s \<noteq> []" using full(3) movesD(9) [OF ok(4)] by blast
      moreover have "json_array_loop_at (Suc fuel) p a s = MErr oom (p_pos p1) (Some a) s3" using ok(1) full(1) s3(1) by simp
      ultimately show ?thesis using val_ok_MErr [OF _ _ _ assms(7)] by metis
    next
      case (added A' s2)
      have m: "moves A s A' s2" by (rule moves_trans [OF ok(5) added(2)])
      have sh: "m_shrinks s2" using assms(3) movesD(10) [OF m] by simp
      have "val_ok d A' s2 (json_array_loop fuel p3 (vs @ [v])) (json_array_loop_at fuel p3 a s2)" if "p_depth p3 = d + 1" for p3
        by (rule parse_at_okD(4) [OF assms(1) moves_ok(1) [OF m] sh that assms(5) added(3) depth])
      from val_ok_next [OF m added(3) depth ok(8) this]
      show ?thesis
        unfolding json_array_loop.simps json_array_loop_at.simps ok(1,2) presult.case mresult.case added(1) option.case prod.case bool.case .
    qed
  qed
qed

text \<open>Adding a member and releasing the buffer of its key, with the value on failure.\<close>

lemma obj_member_ok:
  assumes "mem_ok s" and "m_shrinks s" and "json_at (m_heap s) a (JObj kvs) A" and "json_at (m_heap s) b v B" and "A \<inter> B = {}"
    and "m_heap s k = Some (Text key)" and "k \<notin> A \<union> B" and "json_depth v \<le> Suc JSON_MAX_DEPTH"
  obtains (full) A' s0 s' where "do { t \<leftarrow> read_text (Some k) s; json_obj_add_at (Some a) t (Some b) s } = Some (False, s0)"
      "do { s \<leftarrow> mem_free (Some k) s0; json_free FREE_DEPTH (Some b) s } = Some s'" "moves ({k} \<union> A \<union> B) s A' s'"
      "json_at (m_heap s') a (JObj kvs) A'" "m_outcomes s \<noteq> []"
  | (added) A' s0 s' where "do { t \<leftarrow> read_text (Some k) s; json_obj_add_at (Some a) t (Some b) s } = Some (True, s0)"
      "mem_free (Some k) s0 = Some s'" "moves ({k} \<union> A \<union> B) s A' s'" "json_at (m_heap s') a (JObj (kvs @ [(key, v)])) A'"
proof -
  have dom: "{k} \<union> A \<union> B \<subseteq> dom (m_heap s)" using assms(6) json_at_dom(1) assms(3,4) by blast
  have key: "read_text (Some k) s = Some key" using assms(6) by (simp add: read_text_def)
  from assms(1-5) show ?thesis
  proof (cases rule: obj_add_ok [where key = key])
    case o: (full A' s0)
    have fr: "({k} \<union> B) \<inter> A' = {}" using moves_disjoint [OF o(2), of "{k} \<union> B"] dom assms(5,7) by blast
    have "m_heap s0 k = Some (Text key)" using cell_moves [OF assms(6) o(2)] assms(7) by blast
    then obtain s1 where s1: "mem_free (Some k) s0 = Some s1" "moves {k} s0 {} s1"
      using free_moves [OF moves_ok(1) [OF o(2)], of k] by blast
    have "json_at (m_heap s0) b v B" by (rule json_at_moves [OF assms(4) o(2)]) (use assms(5) in blast)
    then have b1: "json_at (m_heap s1) b v B" by (rule json_at_moves [OF _ s1(2)]) (use assms(7) in blast)
    obtain s2 where s2: "json_free FREE_DEPTH (Some b) s1 = Some s2" "moves B s1 {} s2"
      using free_value [OF moves_ok(1) [OF s1(2)] b1 assms(8)] by blast
    have "moves ({k} \<union> A \<union> B) s ({k} \<union> A \<union> B - A \<union> A' - {k} \<union> {} - B \<union> {}) s2"
      by (rule moves_in [OF moves_in [OF moves_in [OF moves_refl [OF assms(1) dom] o(2)] s1(2)] s2(2)]) (use assms(5,7) in auto)
    moreover have "{k} \<union> A \<union> B - A \<union> A' - {k} \<union> {} - B \<union> {} = A'" using fr by auto
    ultimately have m: "moves ({k} \<union> A \<union> B) s A' s2" by simp
    have "json_at (m_heap s2) a (JObj kvs) A'"
      by (rule json_at_moves [OF json_at_moves [OF o(3) s1(2)] s2(2)]) (use fr in auto)
    then show ?thesis using full [of s0 s2 A'] o(1,4) s1(1) s2(1) m by (simp add: key)
  next
    case o: (added A' s0)
    have fr: "k \<notin> A'" using moves_disjoint [OF o(2), of "{k}"] dom assms(7) by blast
    have "m_heap s0 k = Some (Text key)" using cell_moves [OF assms(6) o(2)] assms(7) by blast
    then obtain s1 where s1: "mem_free (Some k) s0 = Some s1" "moves {k} s0 {} s1"
      using free_moves [OF moves_ok(1) [OF o(2)], of k] by blast
    have "moves ({k} \<union> A \<union> B) s ({k} \<union> A \<union> B - (A \<union> B) \<union> A' - {k} \<union> {}) s1"
      by (rule moves_in [OF moves_in [OF moves_refl [OF assms(1) dom] o(2)] s1(2)]) (use assms(7) in auto)
    moreover have "{k} \<union> A \<union> B - (A \<union> B) \<union> A' - {k} \<union> {} = A'" using fr by auto
    ultimately have m: "moves ({k} \<union> A \<union> B) s A' s1" by simp
    have "json_at (m_heap s1) a (JObj (kvs @ [(key, v)])) A'" by (rule json_at_moves [OF o(3) s1(2)]) (use fr in auto)
    then show ?thesis using added [of s0 s1 A'] o(1) s1(1) m by (simp add: key)
  qed
qed

lemma object_loop_at_step:
  assumes "parse_at_ok fuel" and "mem_ok s" and "m_shrinks s" and "p_depth p = d + 1" and "d + 1 \<le> JSON_MAX_DEPTH"
    and "json_at (m_heap s) a (JObj kvs) A" and "json_depth (JObj kvs) + d \<le> Suc JSON_MAX_DEPTH"
  shows "val_ok d A s (json_object_loop (Suc fuel) p kvs) (json_object_loop_at (Suc fuel) p a s)"
proof -
  have A: "A \<subseteq> dom (m_heap s)" using json_at_dom(1) [OF assms(6)] by blast
  have str: "str_ok {} s (json_parse_string p) (json_parse_string_at p s)" by (rule parse_string_ok [OF assms(2)])
  show ?thesis
  proof (cases "json_parse_string_at p s")
    case MFault
    then show ?thesis using str by (simp add: str_ok_def)
  next
    case (MErr m i out s1)
    then obtain L where L: "m_outcomes s = [] \<longrightarrow> json_parse_string p = PErr m i" "moves {} s L s1"
      using str by (auto simp: str_ok_def)
    have "json_at (m_heap s1) a (JObj kvs) A" by (rule json_at_moves [OF assms(6) L(2)]) simp
    then show ?thesis using val_ok_MErr [OF _ moves_frame [OF L(2) A, simplified] _ assms(7)] L(1) MErr by simp
  next
    case (MOk out p1 s1)
    then obtain k key where k: "out = Some k" "json_parse_string p = POk key p1" "m_heap s1 k = Some (Text key)" "moves {} s {k} s1"
      using str by (auto simp: str_ok_def)
    have at1: "json_at (m_heap s1) a (JObj kvs) A" by (rule json_at_moves [OF assms(6) k(4)]) simp
    have m1: "moves A s ({k} \<union> A) s1" using moves_frame [OF k(4) A] by simp
    have kA: "k \<notin> A" using moves_disjoint [OF k(4) A] by simp
    have d1: "p_depth p1 = d + 1" using json_parse_string_ok [of p] k(2) assms(4) by simp
    define p2 where "p2 = json_skip_ws p1"
    define p3 where "p3 = json_skip_ws (adv 1 p2)"
    have d3: "p_depth p3 = d + 1" by (simp add: p3_def p2_def d1)
    note red = json_object_loop.simps json_object_loop_at.simps MOk k(1,2) presult.case mresult.case Let_def p2_def [symmetric] p3_def [symmetric]
    show ?thesis
    proof (cases "at_char p2 CHR '':''")
      case False
      obtain s2 where s2: "mem_free (Some k) s1 = Some s2" "moves {k} s1 {} s2"
        using free_moves [OF moves_ok(1) [OF m1], of k] k(3) by blast
      have "moves A s ({k} \<union> A - {k} \<union> {}) s2" by (rule moves_in [OF m1 s2(2)]) simp
      moreover have "json_at (m_heap s2) a (JObj kvs) A" by (rule json_at_moves [OF at1 s2(2)]) (use kA in simp)
      ultimately have "val_ok d A s (perr p2 m) (MErr m (p_pos p2) (Some a) s2)" for m
        using kA by (intro val_ok_MErr [OF _ _ _ assms(7)]) auto
      then show ?thesis unfolding red using False s2(1) by (simp add: freeing_def)
    next
      case True
      have sh1: "m_shrinks s1" using assms(3) movesD(10) [OF m1] by simp
      from assms(1) moves_ok(1) [OF m1] sh1 d3 assms(5) movesD(5) [OF m1]
      have "val_ok d ({k} \<union> A) s1 (json_object_loop (Suc fuel) p kvs) (json_object_loop_at (Suc fuel) p a s)"
      proof (cases rule: val_ok_member)
        case fault
        then show ?thesis unfolding red using True by simp
      next
        case (err m i out L s2)
        obtain s3 where s3: "mem_free (Some k) s2 = Some s3" "moves {k} s2 {} s3"
          using free_moves [OF moves_ok(1) [OF err(4)], of k] movesD(5) [OF err(4)] by blast
        have "moves ({k} \<union> A) s1 (L \<union> ({k} \<union> A) - {k} \<union> {}) s3" by (rule moves_in [OF err(4) s3(2)]) simp
        moreover have "json_at (m_heap s3) a (JObj kvs) A"
          by (rule json_at_moves [OF json_at_moves [OF at1 err(3)] s3(2)]) (use kA in auto)
        ultimately have "val_ok d ({k} \<union> A) s1 (json_object_loop (Suc fuel) p kvs) (MErr m i (Some a) s3)"
          unfolding red using kA err(2) True by (intro val_ok_MErr [OF _ _ _ assms(7)]) auto
        then show ?thesis unfolding red using True s3(1) err(1) by (simp add: freeing_def)
      next
        case (ok b v p4 B s2)
        have at2: "json_at (m_heap s2) a (JObj kvs) A" by (rule json_at_moves [OF at1 ok(4)]) simp
        have k2: "m_heap s2 k = Some (Text key)" using cell_moves [OF k(3) ok(4)] by simp
        have disj: "A \<inter> B = {}" "k \<notin> A \<union> B" using ok(6) kA by auto
        have depth: "json_depth (JObj (kvs @ [(key, v)])) + d \<le> Suc JSON_MAX_DEPTH"
          unfolding depth_obj_snoc using assms(7) ok(7) by simp
        have sh2: "m_shrinks s2" using sh1 movesD(10) [OF ok(4)] by simp
        have "json_depth v \<le> Suc JSON_MAX_DEPTH" using ok(7) by simp
        with moves_ok(1) [OF ok(4)] sh2 at2 ok(3) disj(1) k2 disj(2) show ?thesis
        proof (cases rule: obj_member_ok)
          case (full A' s0 s3)
          have m: "moves ({k} \<union> A) s1 A' s3" by (rule moves_trans [OF ok(5) full(3)])
          have "m_outcomes s1 \<noteq> []" using full(5) movesD(9) [OF ok(4)] by blast
          then have "val_ok d ({k} \<union> A) s1 (json_object_loop (Suc fuel) p kvs) (MErr oom (p_pos p4) (Some a) s3)"
            by (intro val_ok_MErr [OF full(4) m _ assms(7)]) auto
          then show ?thesis unfolding red using True ok(1) full(1,2) by simp
        next
          case (added A' s0 s3)
          have m: "moves ({k} \<union> A) s1 A' s3" by (rule moves_trans [OF ok(5) added(3)])
          have sh: "m_shrinks s3" using sh1 movesD(10) [OF m] by simp
          have "val_ok d A' s3 (json_object_loop fuel q (kvs @ [(key, v)])) (json_object_loop_at fuel q a s3)" if "p_depth q = d + 1" for q
            by (rule parse_at_okD(5) [OF assms(1) moves_ok(1) [OF m] sh that assms(5) added(4) depth])
          note next' = val_ok_next [OF m added(4) depth ok(8) this, unfolded Let_def]
          have colon: "\<not> \<not> at_char p2 CHR '':''" using True by simp
          show ?thesis
            unfolding red if_not_P [OF colon] ok(1,2) presult.case mresult.case added(1,2) option.case prod.case bool.case
            by (rule next')
        qed
      qed
      then show ?thesis by (intro val_ok_after [OF m1])
    qed
  qed
qed

lemma parser_at_ok: "parse_at_ok fuel"
proof (induction fuel)
  case 0
  show ?case by (simp add: parse_at_ok_def)
next
  case (Suc fuel)
  have arr0: "json_at h a (JArr []) {a}" if "h a = Some (Node (zero_node JSON_ARR))" for h a
    using json_at_items_at_members_at.arr [where h = h and a = a and n = "zero_node JSON_ARR" and ps = "[]" and I = "{}" and B = "{}"]
      that items_nil [of h] by (simp add: zero_node_def ptrs_at_def)
  have obj0: "json_at h a (JObj []) {a}" if "h a = Some (Node (zero_node JSON_OBJ))" for h a
    using json_at_items_at_members_at.obj [where h = h and a = a and n = "zero_node JSON_OBJ" and ps = "[]" and I = "{}" and ks = "[]"
        and K = "{}" and B = "{}"] that members_nil [of h] by (simp add: zero_node_def ptrs_at_def)
  have "val_ok (p_depth p) {} s (json_parse_array (Suc fuel) p) (json_parse_array_at (Suc fuel) p s)"
    if "mem_ok s" "m_shrinks s" "p_depth p \<le> JSON_MAX_DEPTH" for s p
    unfolding json_parse_array.simps json_parse_array_at.simps
    by (rule val_ok_open [OF that arr0]) (simp_all add: parse_at_okD(4) [OF Suc])
  moreover have "val_ok (p_depth p) {} s (json_parse_object (Suc fuel) p) (json_parse_object_at (Suc fuel) p s)"
    if "mem_ok s" "m_shrinks s" "p_depth p \<le> JSON_MAX_DEPTH" for s p
    unfolding json_parse_object.simps json_parse_object_at.simps
    by (rule val_ok_open [OF that obj0]) (simp_all add: parse_at_okD(5) [OF Suc])
  ultimately show ?case
    unfolding parse_at_ok_def
    using value_at_step [OF Suc] array_loop_at_step [OF Suc] object_loop_at_step [OF Suc] by blast
qed

section \<open>A whole document\<close>

lemma document_refused:
  assumes "p0 = \<lparr>p_rest = text, p_pos = 0, p_depth = 0\<rparr>" and r: "json_parse_value_at (json_fuel text) p0 s = MErr m i out s1"
    and "val_ok 0 {} s (json_parse_value (json_fuel text) p0) (MErr m i out s1)"
  obtains s2 L where "json_parse_at text s = Some (Inl (m, i), s2)" "moves {} s L s2" "m_outcomes s = [] \<longrightarrow> json_parse text = PErr m i"
proof -
  obtain L where L: "moves {} s L s1" "m_outcomes s = [] \<longrightarrow> json_parse_value (json_fuel text) p0 = PErr m i"
      "\<forall>a. out = Some a \<longrightarrow> (\<exists>v B. json_at (m_heap s1) a v B \<and> B \<subseteq> L \<and> json_depth v \<le> Suc JSON_MAX_DEPTH)"
    using assms(3) unfolding val_ok_def by auto
  have pure: "m_outcomes s = [] \<longrightarrow> json_parse text = PErr m i" using L(2) assms(1) by (simp add: json_parse_def)
  have "\<exists>s2 L'. json_free FREE_DEPTH out s1 = Some s2 \<and> moves {} s L' s2"
  proof (cases out)
    case None
    then show ?thesis using L(1) by (auto simp: FREE_DEPTH_def)
  next
    case (Some a)
    then obtain v B where at: "json_at (m_heap s1) a v B" "B \<subseteq> L" "json_depth v \<le> Suc JSON_MAX_DEPTH" using L(3) by blast
    from json_tree.release_tree [OF L(1) at] obtain s2 where "json_free FREE_DEPTH (Some a) s1 = Some s2" "moves {} s (L - B) s2" .
    then show ?thesis using Some by blast
  qed
  then obtain s2 L' where f: "json_free FREE_DEPTH out s1 = Some s2" "moves {} s L' s2" by blast
  have "json_parse_at text s = Some (Inl (m, i), s2)" using r f(1) assms(1) by (simp add: json_parse_at_def)
  then show ?thesis using that f(2) pure by blast
qed



text \<open>
  Where the blocks of a refused text are lost: \<^verbatim>\<open>parse_array\<close> and \<^verbatim>\<open>parse_object\<close> return without releasing a member that broke
  off, and only the outermost value is released by \<^verbatim>\<open>json_parse\<close>.
\<close>

lemma json_parse_leaks:
  "map_option (\<lambda>(r, s). (r, map (\<lambda>a. m_heap s a \<noteq> None) [0..<4])) (json_parse_at ''[[true,'' mem_empty) =
   Some (Inl (''unexpected end of input'', 7), [False, True, True, True])"
  by code_simp

text \<open>
  An allocator that may fail to shrink a block: the failed undoing of \<^verbatim>\<open>json_obj_add\<close> stores \<^verbatim>\<open>NULL\<close> for the members it has, and
  \<^verbatim>\<open>json_free\<close> follows the null pointer.
\<close>

lemma json_obj_add_null:
  "json_parse_at (''{'' @ CHR 0x22 # ''a'' @ CHR 0x22 # '':true,'' @ CHR 0x22 # ''b'' @ CHR 0x22 # '':true}'')
     (mem_empty\<lparr>m_outcomes := replicate 10 True @ [False, False], m_shrinks := False\<rparr>) = None"
  by code_simp

end
