(* ===== verification/Toml_Memory.thy ===== *)
theory Toml_Memory
  imports Prelude
begin

text \<open>
  The growing buffer of \<^verbatim>\<open>parse_string\<close> (\<^verbatim>\<open>tools/src/toml.c\<close>), which stays inside of its block whatever allocation fails. The
  tree is in \<open>Toml_Heap\<close>.
\<close>

section \<open>The buffer of a string\<close>

text \<open>The block, of length \<^verbatim>\<open>cap\<close>, and the number \<^verbatim>\<open>n\<close> of bytes in it. An allocation that succeeds gives the new bytes any content.\<close>

record str_buf =
  bf_block :: string
  bf_n :: nat

datatype store_res = Stored str_buf "string option list" | NoMem | OutOfBlock

definition new_cap :: "nat \<Rightarrow> nat" where
  "new_cap cap = (if cap = 0 then 32 else cap * 2)"

text \<open>The outcomes of the next allocations: \<^const>\<open>None\<close> fails, otherwise the content of the bytes that are added (padded
  or cut to their number); the list ends in successes.\<close>

definition fresh :: "nat \<Rightarrow> string option list \<Rightarrow> string option" where
  "fresh n al = (case al of [] \<Rightarrow> Some (replicate n CHR 0x00) | None # _ \<Rightarrow> None | Some t # _ \<Rightarrow> Some (take n (t @ replicate n CHR 0x00)))"

definition store_byte :: "char \<Rightarrow> str_buf \<Rightarrow> string option list \<Rightarrow> store_res" where
  "store_byte c b al =
     (let put = (\<lambda>b al. if bf_n b < length (bf_block b) then Stored (b\<lparr>bf_block := (bf_block b)[bf_n b := c], bf_n := bf_n b + 1\<rparr>) al
                 else OutOfBlock)
      in if bf_n b = length (bf_block b) then
           (case fresh (new_cap (length (bf_block b)) - length (bf_block b)) al of
              None \<Rightarrow> NoMem
            | Some t \<Rightarrow> put (b\<lparr>bf_block := bf_block b @ t\<rparr>) (tl al))
         else put b al)"

fun store_seq :: "string \<Rightarrow> str_buf \<Rightarrow> string option list \<Rightarrow> store_res" where
  "store_seq [] b al = Stored b al"
| "store_seq (c # cs) b al = (case store_byte c b al of Stored b al \<Rightarrow> store_seq cs b al | r \<Rightarrow> r)"

definition bf_text :: "str_buf \<Rightarrow> string" where
  "bf_text b = take (bf_n b) (bf_block b)"

lemma fresh_length: "fresh n al = Some t \<Longrightarrow> length t = n"
  by (auto simp: fresh_def split: list.splits option.splits)

lemma store_byte_ok:
  assumes "bf_n b \<le> length (bf_block b)"
  shows "case store_byte c b al of
     Stored b' al' \<Rightarrow> bf_n b' \<le> length (bf_block b') \<and> bf_text b' = bf_text b @ [c]
   | NoMem \<Rightarrow> al \<noteq> [] \<and> hd al = None
   | OutOfBlock \<Rightarrow> False"
proof (cases "bf_n b = length (bf_block b)")
  case True
  show ?thesis
  proof (cases "fresh (new_cap (length (bf_block b)) - length (bf_block b)) al")
    case None
    then have "al \<noteq> [] \<and> hd al = None" by (auto simp: fresh_def split: list.splits option.splits)
    then show ?thesis using True None by (simp add: store_byte_def Let_def)
  next
    case (Some t)
    then have "0 < length t" using fresh_length [OF Some] by (auto simp: new_cap_def)
    then show ?thesis using True Some by (auto simp: store_byte_def Let_def bf_text_def take_Suc_conv_app_nth Suc_le_eq)
  qed
next
  case False
  then show ?thesis using assms by (simp add: store_byte_def bf_text_def take_Suc_conv_app_nth)
qed

text \<open>Whatever allocations fail, storing a sequence never leaves the block; when it succeeds the sequence was appended.\<close>

lemma store_seq_ok:
  "bf_n b \<le> length (bf_block b) \<Longrightarrow> case store_seq s b al of
     Stored b' al' \<Rightarrow> bf_n b' \<le> length (bf_block b') \<and> bf_text b' = bf_text b @ s
   | NoMem \<Rightarrow> al \<noteq> []
   | OutOfBlock \<Rightarrow> False"
proof (induction s arbitrary: b al)
  case (Cons c s)
  from store_byte_ok [OF Cons.prems, of c al] show ?case
  proof (cases "store_byte c b al")
    case (Stored b' al')
    then have "bf_n b' \<le> length (bf_block b')" "bf_text b' = bf_text b @ [c]" using store_byte_ok [OF Cons.prems, of c al] by simp_all
    moreover have "al = [] \<Longrightarrow> al' = []"
      using Stored by (auto simp: store_byte_def Let_def split: if_splits option.splits)
    ultimately show ?thesis using Cons.IH [of b' al'] Stored by (auto split: store_res.splits)
  qed simp_all
qed simp

end
