(* ===== verification/Toml.thy ===== *)
theory Toml
  imports CNumeric
begin

text \<open>
  \<^verbatim>\<open>tools/src/toml.c\<close>, first part: the value tree, its construction and the lookups. The parser
  is in \<open>Toml_Parser\<close>, the writer in \<open>Toml_Writer\<close>.

  A table keeps its members in insertion order. \<^verbatim>\<open>long long\<close> values are integers (the parser
  only builds values in range). Strings are cut at an embedded NUL, as every consumer of the
  parsed buffer does (\<^verbatim>\<open>strdup\<close>, \<^verbatim>\<open>strcmp\<close>).
\<close>

unbundle bit_operations_syntax

section \<open>Values\<close>

datatype toml_value =
    TStr string
  | TInt int
  | TFloat cdouble
  | TBool bool
  | TArr "toml_value list"
  | TTable "(string \<times> toml_value) list"

definition toml_new_str :: "string option \<Rightarrow> toml_value" where
  "toml_new_str s = TStr (case s of None \<Rightarrow> [] | Some t \<Rightarrow> t)"

definition toml_new_bool :: "int \<Rightarrow> toml_value" where
  "toml_new_bool val = TBool (val \<noteq> 0)"

fun is_table :: "toml_value \<Rightarrow> bool" where
  "is_table (TTable kvs) = True"
| "is_table _ = False"

definition toml_table_add ::
  "toml_value option \<Rightarrow> string \<Rightarrow> toml_value \<Rightarrow> int \<times> toml_value option" where
  "toml_table_add t key v = (case t of
       Some (TTable kvs) \<Rightarrow>
         if key \<in> fst ` set kvs then (- 1, t) else (0, Some (TTable (kvs @ [(key, v)])))
     | _ \<Rightarrow> (- 1, t))"

definition toml_arr_add :: "toml_value option \<Rightarrow> toml_value \<Rightarrow> int \<times> toml_value option" where
  "toml_arr_add arr v = (case arr of
       Some (TArr xs) \<Rightarrow> (0, Some (TArr (xs @ [v])))
     | _ \<Rightarrow> (- 1, arr))"

section \<open>Escapes\<close>

text \<open>The four digits after a backslash-u: the loop over \<open>k\<close>, with the value so far.\<close>

datatype hexres = HShort string | HBad string | HOk nat string

fun hex4 :: "nat \<Rightarrow> nat \<Rightarrow> string \<Rightarrow> hexres" where
  "hex4 0 v r = HOk v r"
| "hex4 (Suc k) v [] = HShort []"
| "hex4 (Suc k) v (c # r) =
     (if isxdigit c then hex4 k (v * 16 + nat (xdigit_val c)) r else HBad r)"

definition utf8_encode :: "nat \<Rightarrow> string" where
  "utf8_encode v =
     (if v < 0x80 then [char_of v]
      else if v < 0x800 then
        [char_of (0xC0 OR (v div 2 ^ 6)), char_of (0x80 OR (v AND 0x3F))]
      else
        [char_of (0xE0 OR (v div 2 ^ 12)), char_of (0x80 OR ((v div 2 ^ 6) AND 0x3F)),
         char_of (0x80 OR (v AND 0x3F))])"

text \<open>The one-letter escapes both readers share.\<close>

definition toml_unescape :: "char \<Rightarrow> char option" where
  "toml_unescape c =
     (if c = CHR ''n'' then Some CHR 0x0A
      else if c = CHR ''t'' then Some CHR 0x09
      else if c = CHR ''r'' then Some CHR 0x0D
      else if c = CHR ''b'' then Some CHR 0x08
      else if c = CHR ''f'' then Some CHR 0x0C
      else None)"

section \<open>Lookup\<close>

definition toml_table_get_short :: "toml_value option \<Rightarrow> string \<Rightarrow> toml_value option" where
  "toml_table_get_short t key = (case t of Some (TTable kvs) \<Rightarrow> map_of kvs key | _ \<Rightarrow> None)"

lemma hex4_length:
  "hex4 k v r = HOk w r' \<Longrightarrow> length r = length r' + k"
  by (induction k v r rule: hex4.induct) (auto split: if_splits)

text \<open>The quoted branch of \<^verbatim>\<open>path_segment\<close>, after the opening quote.\<close>

function path_quoted :: "char \<Rightarrow> string \<Rightarrow> string \<Rightarrow> (string \<times> string) option" where
  "path_quoted quote [] buf = None"
| "path_quoted quote (c # r) buf =
     (if c = quote then Some (cstr buf, r)
      else if quote = CHR 0x22 \<and> c = CHR 0x5C \<and> r \<noteq> [] then
        (let e = hd r; r' = tl r
         in case toml_unescape e of
              Some d \<Rightarrow> path_quoted quote r' (buf @ [d])
            | None \<Rightarrow>
                if e = CHR ''u'' then
                  (case hex4 4 0 r' of
                     HOk v r'' \<Rightarrow> path_quoted quote r'' (buf @ utf8_encode v)
                   | _ \<Rightarrow> None)
                else path_quoted quote r' (buf @ [e]))
      else path_quoted quote r (buf @ [c]))"
  by pat_completeness auto

termination path_quoted
  by (relation "measure (\<lambda>(q, r, b). length r)") (auto dest!: hex4_length simp: neq_Nil_conv)

definition path_segment :: "string \<Rightarrow> (string \<times> string) option" where
  "path_segment path =
     (if path \<noteq> [] \<and> (hd path = CHR 0x22 \<or> hd path = CHR 0x27)
      then path_quoted (hd path) (tl path) []
      else let seg = takeWhile (\<lambda>c. c \<noteq> CHR ''.'') path
           in if seg = [] then None else Some (seg, drop (length seg) path))"

lemma path_quoted_length: "path_quoted q r b = Some (s, n) \<Longrightarrow> length n < length r"
proof (induction r arbitrary: b rule: length_induct)
  case (1 r)
  then have IH: "path_quoted q t b' = Some (s, n) \<Longrightarrow> length t < length r \<Longrightarrow> length n < length r" for t b'
    by (meson less_trans)
  show ?case
  proof (cases r)
    case Nil
    with 1 show ?thesis by simp
  next
    case (Cons c t)
    show ?thesis
    proof (cases "q = CHR 0x22 \<and> c = CHR 0x5C \<and> t \<noteq> [] \<and> c \<noteq> q")
      case True
      then obtain e u where t: "t = e # u" by (cases t) auto
      from True have q: "q = CHR 0x22" by simp
      from 1(2) True Cons t show ?thesis
        by (auto simp: Let_def dest!: hex4_length dest: IH [unfolded q Cons t]
            split: option.splits if_splits hexres.splits)
    next
      case False
      with 1(2) Cons show ?thesis by (auto dest: IH [unfolded Cons] split: if_splits)
    qed
  qed
qed

lemma path_segment_length: "path_segment path = Some (s, n) \<Longrightarrow> length n < length path"
  by (cases path) (auto simp: path_segment_def Let_def dest!: path_quoted_length split: if_splits)

function toml_table_get :: "toml_value option \<Rightarrow> string \<Rightarrow> toml_value option" where
  "toml_table_get t dotted = (case t of
       Some (TTable kvs) \<Rightarrow>
         (case path_segment dotted of
            None \<Rightarrow> None
          | Some (seg, next) \<Rightarrow>
              (case toml_table_get_short t seg of
                 None \<Rightarrow> None
               | Some v \<Rightarrow>
                   if next = [] then Some v
                   else if hd next \<noteq> CHR ''.'' then None
                   else toml_table_get (Some v) (tl next)))
     | _ \<Rightarrow> None)"
  by pat_completeness auto

termination toml_table_get
  by (relation "measure (\<lambda>(t, d). length d)") (auto dest!: path_segment_length)

declare toml_table_get.simps [simp del]

definition toml_table_get_str :: "toml_value option \<Rightarrow> string \<Rightarrow> string option \<Rightarrow> string option" where
  "toml_table_get_str t dotted dflt = (case toml_table_get t dotted of
       Some (TStr s) \<Rightarrow> Some s | _ \<Rightarrow> dflt)"

definition toml_table_get_num :: "toml_value option \<Rightarrow> string \<Rightarrow> cdouble \<Rightarrow> cdouble" where
  "toml_table_get_num t dotted dflt = (case toml_table_get t dotted of
       Some (TFloat d) \<Rightarrow> d
     | Some (TInt i) \<Rightarrow> of_int_d i
     | _ \<Rightarrow> dflt)"

definition toml_table_get_bool :: "toml_value option \<Rightarrow> string \<Rightarrow> bool \<Rightarrow> bool" where
  "toml_table_get_bool t dotted dflt = (case toml_table_get t dotted of
       Some (TBool b) \<Rightarrow> b | _ \<Rightarrow> dflt)"

end
