(* ===== verification/Toml_Heap.thy ===== *)
theory Toml_Heap
  imports Toml Blocks
begin

text \<open>
  The trees of \<^verbatim>\<open>tools/src/toml.c\<close> as the blocks the code allocates: the construction functions and \<^verbatim>\<open>toml_free\<close>. A tree is
  released whole, each block once. A member whose second allocation fails leaves the table on a freed block.
\<close>

section \<open>Nodes\<close>

text \<open>\<^verbatim>\<open>struct toml_value\<close>: \<open>tn_ptr\<close> is \<^verbatim>\<open>str\<close> or \<^verbatim>\<open>items\<close>, which share their storage with \<^verbatim>\<open>i\<close>, \<^verbatim>\<open>d\<close> and \<^verbatim>\<open>b\<close>.\<close>

datatype toml_type = TOML_STR | TOML_INT | TOML_FLOAT | TOML_BOOL | TOML_ARR | TOML_TABLE

record toml_node =
  tn_type :: toml_type
  tn_i :: int
  tn_d :: cdouble
  tn_b :: bool
  tn_ptr :: ptr
  tn_keys :: ptr
  tn_count :: nat

type_synonym toml_memory = "toml_node memory"

definition toml_zero :: "toml_type \<Rightarrow> toml_node" where
  "toml_zero t = \<lparr>tn_type = t, tn_i = 0, tn_d = d0, tn_b = False, tn_ptr = None, tn_keys = None, tn_count = 0\<rparr>"

section \<open>Construction\<close>

definition toml_new_container :: "toml_type \<Rightarrow> toml_memory \<Rightarrow> ptr \<times> toml_memory" where
  "toml_new_container t s = mem_alloc (Node (toml_zero t)) s"

definition toml_new_arr :: "toml_memory \<Rightarrow> ptr \<times> toml_memory" where
  "toml_new_arr s = toml_new_container TOML_ARR s"

definition toml_new_table :: "toml_memory \<Rightarrow> ptr \<times> toml_memory" where
  "toml_new_table s = toml_new_container TOML_TABLE s"

text \<open>\<^verbatim>\<open>calloc\<close> and, when it succeeded, the fields.\<close>

definition toml_calloc :: "toml_type \<Rightarrow> (toml_node \<Rightarrow> toml_node) \<Rightarrow> toml_memory \<Rightarrow> (ptr \<times> toml_memory) option" where
  "toml_calloc t f s = (case mem_alloc (Node (toml_zero t)) s of
     (None, s) \<Rightarrow> Some (None, s)
   | (Some a, s) \<Rightarrow> do { n \<leftarrow> read_node a s; s \<leftarrow> mem_put a (Node (f n)) s; Some (Some a, s) })"

definition toml_new_int_at :: "int \<Rightarrow> toml_memory \<Rightarrow> (ptr \<times> toml_memory) option" where
  "toml_new_int_at i s = toml_calloc TOML_INT (\<lambda>n. n\<lparr>tn_i := i\<rparr>) s"

definition toml_new_float_at :: "cdouble \<Rightarrow> toml_memory \<Rightarrow> (ptr \<times> toml_memory) option" where
  "toml_new_float_at d s = toml_calloc TOML_FLOAT (\<lambda>n. n\<lparr>tn_d := d\<rparr>) s"

definition toml_new_bool_at :: "int \<Rightarrow> toml_memory \<Rightarrow> (ptr \<times> toml_memory) option" where
  "toml_new_bool_at b s = toml_calloc TOML_BOOL (\<lambda>n. n\<lparr>tn_b := b \<noteq> 0\<rparr>) s"

definition toml_new_str_at :: "string option \<Rightarrow> toml_memory \<Rightarrow> (ptr \<times> toml_memory) option" where
  "toml_new_str_at str s = (case mem_alloc (Node (toml_zero TOML_STR)) s of
     (None, s) \<Rightarrow> Some (None, s)
   | (Some a, s) \<Rightarrow>
       (case mem_alloc (Text (case str of None \<Rightarrow> [] | Some t \<Rightarrow> t)) s of
          (None, s) \<Rightarrow> do { s \<leftarrow> mem_free (Some a) s; Some (None, s) }
        | (p, s) \<Rightarrow> do { n \<leftarrow> read_node a s; s \<leftarrow> mem_put a (Node (n\<lparr>tn_ptr := p\<rparr>)) s; Some (Some a, s) }))"

text \<open>The loop of \<^verbatim>\<open>toml_table_add\<close> that looks for a duplicate, with the indices that are left.\<close>

fun toml_has_key :: "toml_node \<Rightarrow> string \<Rightarrow> nat list \<Rightarrow> toml_memory \<Rightarrow> bool option" where
  "toml_has_key n key [] s = Some False"
| "toml_has_key n key (i # is) s = do {
     k \<leftarrow> read_ptr (tn_keys n) i s;
     t \<leftarrow> read_text k s;
     if t = key then Some True else toml_has_key n key is s }"

text \<open>The result says whether the call returned 0. The value may be \<^verbatim>\<open>NULL\<close>: nothing tests it.\<close>

definition toml_table_add_at :: "ptr \<Rightarrow> string \<Rightarrow> ptr \<Rightarrow> toml_memory \<Rightarrow> (bool \<times> toml_memory) option" where
  "toml_table_add_at t key v s = (case t of
     None \<Rightarrow> Some (False, s)
   | Some a \<Rightarrow> do {
       n \<leftarrow> read_node a s;
       if tn_type n \<noteq> TOML_TABLE then Some (False, s)
       else do {
         dup \<leftarrow> toml_has_key n key [0..<tn_count n] s;
         if dup then Some (False, s)
         else do {
           (items, s) \<leftarrow> realloc_ptrs (tn_ptr n) (tn_count n + 1) s;
           if items = None then Some (False, s)
           else do {
             (keys, s) \<leftarrow> realloc_ptrs (tn_keys n) (tn_count n + 1) s;
             if keys = None then Some (False, s)
             else (case mem_alloc (Text key) s of (copy, s) \<Rightarrow> do {
               s \<leftarrow> put_ptr keys (tn_count n) copy s;
               if copy = None then Some (False, s)
               else do {
                 s \<leftarrow> put_ptr items (tn_count n) v s;
                 s \<leftarrow> mem_put a (Node (n\<lparr>tn_ptr := items, tn_keys := keys, tn_count := tn_count n + 1\<rparr>)) s;
                 Some (True, s) } }) } } } })"

definition toml_arr_add_at :: "ptr \<Rightarrow> ptr \<Rightarrow> toml_memory \<Rightarrow> (bool \<times> toml_memory) option" where
  "toml_arr_add_at arr v s = (case arr of
     None \<Rightarrow> Some (False, s)
   | Some a \<Rightarrow> do {
       n \<leftarrow> read_node a s;
       if tn_type n \<noteq> TOML_ARR then Some (False, s)
       else do {
         (items, s) \<leftarrow> realloc_ptrs (tn_ptr n) (tn_count n + 1) s;
         if items = None then Some (False, s)
         else do {
           s \<leftarrow> put_ptr items (tn_count n) v s;
           s \<leftarrow> mem_put a (Node (n\<lparr>tn_ptr := items, tn_count := tn_count n + 1\<rparr>)) s;
           Some (True, s) } } })"

section \<open>Release\<close>

text \<open>\<^verbatim>\<open>toml_free\<close> and its loop; the first argument bounds the depth of the recursion.\<close>

function toml_free :: "nat \<Rightarrow> ptr \<Rightarrow> toml_memory \<Rightarrow> toml_memory option"
and toml_free_items :: "nat \<Rightarrow> nat \<Rightarrow> nat list \<Rightarrow> toml_memory \<Rightarrow> toml_memory option"
where
  "toml_free 0 p s = None"
| "toml_free (Suc f) None s = Some s"
| "toml_free (Suc f) (Some a) s = do {
     n \<leftarrow> read_node a s;
     s \<leftarrow> (case tn_type n of
            TOML_STR \<Rightarrow> mem_free (tn_ptr n) s
          | TOML_ARR \<Rightarrow> do { s \<leftarrow> toml_free_items f a [0..<tn_count n] s; s \<leftarrow> mem_free (tn_ptr n) s; mem_free (tn_keys n) s }
          | TOML_TABLE \<Rightarrow> do { s \<leftarrow> toml_free_items f a [0..<tn_count n] s; s \<leftarrow> mem_free (tn_ptr n) s; mem_free (tn_keys n) s }
          | _ \<Rightarrow> Some s);
     mem_free (Some a) s }"
| "toml_free_items f a [] s = Some s"
| "toml_free_items f a (i # is) s = do {
     n \<leftarrow> read_node a s;
     v \<leftarrow> read_ptr (tn_ptr n) i s;
     s \<leftarrow> toml_free f v s;
     k \<leftarrow> (if tn_keys n = None then Some None else read_ptr (tn_keys n) i s);
     s \<leftarrow> mem_free k s;
     toml_free_items f a is s }"
  by pat_completeness auto
termination
  by (relation "measures [\<lambda>x. case x of Inl (f, _) \<Rightarrow> f | Inr (f, _) \<Rightarrow> f,
      \<lambda>x. case x of Inl _ \<Rightarrow> 0 | Inr (_, _, is, _) \<Rightarrow> Suc (length is)]") auto

section \<open>Trees in the heap\<close>

text \<open>A member has a key (in a table) or none (in an array, whose \<^verbatim>\<open>keys\<close> is \<^verbatim>\<open>NULL\<close>).\<close>

definition key_at :: "toml_node blocks \<Rightarrow> ptr \<Rightarrow> string option \<Rightarrow> bool" where
  "key_at h p k \<longleftrightarrow> (case p of None \<Rightarrow> k = None | Some a \<Rightarrow> \<exists>t. k = Some t \<and> h a = Some (Text t))"

definition keys_at :: "toml_node blocks \<Rightarrow> ptr \<Rightarrow> ptr list \<Rightarrow> nat set \<Rightarrow> bool" where
  "keys_at h p ks K \<longleftrightarrow> (if p = None then K = {} \<and> set ks \<subseteq> {None} else ptrs_at h p ks K)"

inductive toml_at :: "toml_node blocks \<Rightarrow> nat \<Rightarrow> toml_value \<Rightarrow> nat set \<Rightarrow> bool"
  and tmembers_at :: "toml_node blocks \<Rightarrow> ptr list \<Rightarrow> ptr list \<Rightarrow> (string option \<times> toml_value) list \<Rightarrow> nat set \<Rightarrow> bool"
  for h :: "toml_node blocks"
where
  int: "\<lbrakk>h a = Some (Node n); tn_type n = TOML_INT\<rbrakk> \<Longrightarrow> toml_at h a (TInt (tn_i n)) {a}"
| float: "\<lbrakk>h a = Some (Node n); tn_type n = TOML_FLOAT\<rbrakk> \<Longrightarrow> toml_at h a (TFloat (tn_d n)) {a}"
| bool: "\<lbrakk>h a = Some (Node n); tn_type n = TOML_BOOL\<rbrakk> \<Longrightarrow> toml_at h a (TBool (tn_b n)) {a}"
| str: "\<lbrakk>h a = Some (Node n); tn_type n = TOML_STR; tn_ptr n = Some p; h p = Some (Text t)\<rbrakk> \<Longrightarrow> toml_at h a (TStr t) {a, p}"
| arr: "\<lbrakk>h a = Some (Node n); tn_type n = TOML_ARR; tn_keys n = None; ptrs_at h (tn_ptr n) ps I; tn_count n = length ps;
     tmembers_at h ks ps (map (Pair None) vs) B; a \<notin> I \<union> B; I \<inter> B = {}\<rbrakk> \<Longrightarrow> toml_at h a (TArr vs) ({a} \<union> I \<union> B)"
| table: "\<lbrakk>h a = Some (Node n); tn_type n = TOML_TABLE; ptrs_at h (tn_ptr n) ps I; ptrs_at h (tn_keys n) ks K; tn_count n = length ps;
     tmembers_at h ks ps (map (\<lambda>(k, v). (Some k, v)) kvs) B; a \<notin> I \<union> K \<union> B; I \<inter> K = {}; (I \<union> K) \<inter> B = {}\<rbrakk>
     \<Longrightarrow> toml_at h a (TTable kvs) ({a} \<union> I \<union> K \<union> B)"
| members_nil: "tmembers_at h [] [] [] {}"
| members_cons: "\<lbrakk>key_at h k key; toml_at h b v B; tmembers_at h ks ps kvs C; set_option k \<inter> (B \<union> C) = {}; B \<inter> C = {}\<rbrakk>
     \<Longrightarrow> tmembers_at h (k # ks) (Some b # ps) ((key, v) # kvs) (set_option k \<union> B \<union> C)"

inductive_cases toml_at_arrE: "toml_at h a (TArr vs) A"
inductive_cases toml_at_tableE: "toml_at h a (TTable kvs) A"

lemma keys_at_frame: "keys_at h p ks K \<Longrightarrow> (\<And>x. x \<in> K \<Longrightarrow> h' x = h x) \<Longrightarrow> keys_at h' p ks K"
  by (auto simp: keys_at_def split: if_splits intro: ptrs_at_frame)

lemma key_at_frame: "key_at h p k \<Longrightarrow> (\<And>x. x \<in> set_option p \<Longrightarrow> h' x = h x) \<Longrightarrow> key_at h' p k"
  by (auto simp: key_at_def split: option.splits)

lemma toml_at_frame:
  "toml_at h a v B \<Longrightarrow> (\<And>x. x \<in> B \<Longrightarrow> h' x = h x) \<Longrightarrow> toml_at h' a v B"
  "tmembers_at h ks ps kvs B \<Longrightarrow> (\<And>x. x \<in> B \<Longrightarrow> h' x = h x) \<Longrightarrow> tmembers_at h' ks ps kvs B"
proof (induction rule: toml_at_tmembers_at.inducts)
  case (arr a n ps I ks vs B)
  have "ptrs_at h' (tn_ptr n) ps I" using arr by (auto intro: ptrs_at_frame)
  then show ?case using arr by (intro toml_at_tmembers_at.arr) auto
next
  case (table a n ps I ks K kvs B)
  have "ptrs_at h' (tn_ptr n) ps I" using table by (auto intro: ptrs_at_frame)
  moreover have "ptrs_at h' (tn_keys n) ks K" using table by (auto intro: ptrs_at_frame)
  ultimately show ?case using table by (intro toml_at_tmembers_at.table) auto
next
  case (members_cons k key b v B ks ps kvs C)
  have "key_at h' k key" using members_cons by (auto intro: key_at_frame)
  then show ?case using members_cons by (intro toml_at_tmembers_at.members_cons) auto
qed (auto intro: toml_at_tmembers_at.intros)

lemma toml_at_dom:
  "toml_at h a v B \<Longrightarrow> a \<in> B \<and> B \<subseteq> dom h"
  "tmembers_at h ks ps kvs D \<Longrightarrow> D \<subseteq> dom h \<and> length ks = length kvs \<and> length ps = length kvs"
  by (induction rule: toml_at_tmembers_at.inducts) (auto simp: ptrs_at_def key_at_def split: option.splits)

lemma tmembers_at_snoc:
  "tmembers_at h ks ps kvs B \<Longrightarrow> key_at h k key \<Longrightarrow> toml_at h b v C \<Longrightarrow> set_option k \<inter> (B \<union> C) = {} \<Longrightarrow> B \<inter> C = {}
    \<Longrightarrow> tmembers_at h (ks @ [k]) (ps @ [Some b]) (kvs @ [(key, v)]) (set_option k \<union> B \<union> C)"
proof (induction kvs arbitrary: ks ps B)
  case Nil
  then have "ks = []" "ps = []" "B = {}" by (auto elim: tmembers_at.cases)
  then show ?case using members_cons [OF Nil(2,3) members_nil] Nil by simp
next
  case (Cons w kvs)
  from Cons.prems(1) show ?case
  proof cases
    case (members_cons l key' c w' B1 ks' ps' B2)
    have "set_option l \<inter> set_option k = {}" "set_option l \<inter> C = {}" using Cons.prems members_cons by auto
    then have "tmembers_at h (l # ks' @ [k]) (Some c # ps' @ [Some b]) ((key', w') # kvs @ [(key, v)])
        (set_option l \<union> B1 \<union> (set_option k \<union> B2 \<union> C))"
      using Cons.IH [OF members_cons(7)] Cons.prems members_cons by (intro toml_at_tmembers_at.members_cons) auto
    moreover have "set_option l \<union> B1 \<union> (set_option k \<union> B2 \<union> C) = set_option k \<union> B \<union> C" using members_cons by auto
    ultimately show ?thesis by (simp add: members_cons)
  qed
qed

section \<open>A tree is released whole\<close>

fun toml_height :: "toml_value \<Rightarrow> nat" where
  "toml_height (TArr vs) = Suc (fold max (map toml_height vs) 0)"
| "toml_height (TTable kvs) = Suc (fold max (map (\<lambda>(k, v). toml_height v) kvs) 0)"
| "toml_height _ = 0"

lemma height_members:
  "toml_height (TArr vs) < Suc f \<Longrightarrow> \<forall>(k, v) \<in> set (map (Pair (None :: string option)) vs). toml_height v < f"
  "toml_height (TTable kvs) < Suc f \<Longrightarrow> \<forall>(k, v) \<in> set (map (\<lambda>(k, v). (Some k, v)) kvs). toml_height v < f"
  using fold_max_le [of "map toml_height vs" 0 "fold max (map toml_height vs) 0"]
    fold_max_le [of "map (\<lambda>(k, v). toml_height v) kvs" 0 "fold max (map (\<lambda>(k, v). toml_height v) kvs) 0"]
  by fastforce+

definition toml_frees :: "nat \<Rightarrow> bool" where
  "toml_frees f \<longleftrightarrow> (\<forall>s a v B. mem_ok s \<longrightarrow> toml_at (m_heap s) a v B \<longrightarrow> toml_height v < f \<longrightarrow>
     (\<exists>s'. toml_free f (Some a) s = Some s' \<and> moves B s {} s'))"

lemma toml_freesD: "toml_frees f \<Longrightarrow> mem_ok s \<Longrightarrow> toml_at (m_heap s) a v B \<Longrightarrow> toml_height v < f \<Longrightarrow>
    \<exists>s'. toml_free f (Some a) s = Some s' \<and> moves B s {} s'"
  by (simp add: toml_frees_def)

lemma upt_split: "[length qs..<length (qs @ x # ps)] = length qs # [length (qs @ [x])..<length ((qs @ [x]) @ ps)]"
  by (simp add: upt_conv_Cons del: upt_Suc)

lemma keys_at_moves: "keys_at (m_heap s) p ks K \<Longrightarrow> moves A s B s' \<Longrightarrow> K \<inter> A = {} \<Longrightarrow> keys_at (m_heap s') p ks K"
  by (auto simp: keys_at_def split: if_splits intro: ptrs_at_moves)

text \<open>Reading the pointer to a key, which an array does not have.\<close>

lemma keys_at_read:
  assumes "keys_at (m_heap s) p (ls @ k # ks) K"
  shows "(if p = None then Some None else read_ptr p (length ls) s) = Some k"
  using assms read_ptr_at [of s p ls k ks K] by (auto simp: keys_at_def split: if_splits)

lemma free_key:
  assumes "mem_ok s" and "key_at (m_heap s) k key"
  obtains s' where "mem_free k s = Some s'" "moves (set_option k) s {} s'"
proof (cases k)
  case None
  then show ?thesis using that [of s] assms(1) by (simp add: mem_free_def moves_refl)
next
  case (Some b)
  then have "b \<in> dom (m_heap s)" using assms(2) by (auto simp: key_at_def)
  from free_moves [OF assms(1) this] show ?thesis using that Some by auto
qed

lemma toml_free_members:
  assumes "toml_frees f" and "mem_ok s" and "tmembers_at (m_heap s) ks ps kvs C" and "m_heap s a = Some (Node n)"
    and "ptrs_at (m_heap s) (tn_ptr n) (qs @ ps) I" and "keys_at (m_heap s) (tn_keys n) (ls @ ks) K" and "length ls = length qs"
    and "a \<notin> C" and "(I \<union> K) \<inter> C = {}" and "\<forall>(k, v) \<in> set kvs. toml_height v < f"
  shows "\<exists>s'. toml_free_items f a [length qs..<length (qs @ ps)] s = Some s' \<and> moves C s {} s'"
  using assms(2-10)
proof (induction kvs arbitrary: s ps qs ks ls C)
  case Nil
  then have "ps = []" "C = {}" by (auto elim: tmembers_at.cases)
  then show ?case using Nil.prems(1) by (simp add: moves_refl)
next
  case (Cons kv kvs)
  from Cons.prems(2) obtain k key b v B ks' ps' C' where m: "ks = k # ks'" "ps = Some b # ps'" "kv = (key, v)"
      "C = set_option k \<union> B \<union> C'" "key_at (m_heap s) k key" "toml_at (m_heap s) b v B" "tmembers_at (m_heap s) ks' ps' kvs C'"
      "set_option k \<inter> (B \<union> C') = {}" "B \<inter> C' = {}"
    by cases (rule that, (assumption | simp)+)
  obtain s0 where s0: "toml_free f (Some b) s = Some s0" "moves B s {} s0"
    using toml_freesD [OF assms(1) Cons.prems(1) m(6)] Cons.prems(9) m(3) by auto
  have "key_at (m_heap s0) k key"
    using m(5,8) moves_same [OF s0(2)] by (intro key_at_frame [OF m(5)]) (auto simp: key_at_def split: option.splits)
  then obtain s1 where s1: "mem_free k s0 = Some s1" "moves (set_option k) s0 {} s1" by (rule free_key [OF moves_ok(1) [OF s0(2)]])
  have kd: "set_option k \<subseteq> dom (m_heap s)" "C' \<subseteq> dom (m_heap s)"
    using m(5) toml_at_dom(2) [OF m(7)] by (auto simp: key_at_def split: option.splits)
  have m1: "moves (B \<union> set_option k) s {} s1" using moves_gone [OF s0(2) s1(2) kd(1)] m(8) by auto
  have mem: "tmembers_at (m_heap s1) ks' ps' kvs C'"
    using m(8,9) kd(2) by (intro toml_at_frame(2) [OF m(7)] moves_same [OF m1]) auto
  have n: "m_heap s1 a = Some (Node n)" using cell_moves [OF Cons.prems(3) m1] Cons.prems(7) m(4) by auto
  have p: "ptrs_at (m_heap s1) (tn_ptr n) ((qs @ [Some b]) @ ps') I"
    using ptrs_at_moves [OF Cons.prems(4) m1] Cons.prems(8) m(2,4) by auto
  have l: "keys_at (m_heap s1) (tn_keys n) ((ls @ [k]) @ ks') K"
    using keys_at_moves [OF Cons.prems(5) m1] Cons.prems(8) m(1,4) by auto
  have "\<exists>s2. toml_free_items f a [length (qs @ [Some b])..<length ((qs @ [Some b]) @ ps')] s1 = Some s2 \<and> moves C' s1 {} s2"
    by (rule Cons.IH [OF moves_ok(1) [OF m1] mem n p l]) (use Cons.prems(6-9) m(4) in auto)
  then obtain s2 where s2: "toml_free_items f a [length (qs @ [Some b])..<length ((qs @ [Some b]) @ ps')] s1 = Some s2" "moves C' s1 {} s2"
    by blast
  have "moves (B \<union> set_option k \<union> C') s {} s2" using moves_gone [OF m1 s2(2) kd(2)] m(8,9) by auto
  moreover have "B \<union> set_option k \<union> C' = C" using m(4) by auto
  moreover have "[length qs..<length (qs @ ps)] = length qs # [length (qs @ [Some b])..<length ((qs @ [Some b]) @ ps')]"
    unfolding m(2) by (rule upt_split)
  moreover have "read_ptr (tn_ptr n) (length qs) s = Some (Some b)"
    using read_ptr_at [of s "tn_ptr n" qs "Some b" ps' I] Cons.prems(4) m(2) by simp
  moreover have "(if tn_keys n = None then Some None else read_ptr (tn_keys n) (length qs) s0) = Some k"
  proof -
    have "K \<inter> B = {}" using Cons.prems(8) m(4) by auto
    from keys_at_moves [OF Cons.prems(5) s0(2) this] show ?thesis using keys_at_read Cons.prems(6) m(1) by metis
  qed
  ultimately show ?case
    using s0(1) s1(1) s2(1) read_node_at [OF Cons.prems(3)] by (simp del: length_append)
qed

text \<open>The arrays and the node after the members.\<close>

lemma toml_free_container:
  assumes "toml_frees f" and "mem_ok s" and "m_heap s a = Some (Node n)" and "tn_type n = TOML_ARR \<or> tn_type n = TOML_TABLE"
    and "ptrs_at (m_heap s) (tn_ptr n) ps I" and "keys_at (m_heap s) (tn_keys n) ks K" and "tn_count n = length ps"
    and "tmembers_at (m_heap s) ks ps kvs C" and "a \<notin> I \<union> K \<union> C" and "I \<inter> K = {}" and "(I \<union> K) \<inter> C = {}"
    and "\<forall>(k, v) \<in> set kvs. toml_height v < f"
  shows "\<exists>s'. toml_free (Suc f) (Some a) s = Some s' \<and> moves ({a} \<union> I \<union> K \<union> C) s {} s'"
proof -
  have "\<exists>s'. toml_free_items f a [length ([] :: ptr list)..<length ([] @ ps)] s = Some s' \<and> moves C s {} s'"
    using assms(5,6,9) by (intro toml_free_members [OF assms(1,2,8,3) _ _ _ _ assms(11,12), of "[]" "[]"]) auto
  then obtain s1 where s1: "toml_free_items f a [0..<tn_count n] s = Some s1" "moves C s {} s1" using assms(7) by auto
  have p1: "ptrs_at (m_heap s1) (tn_ptr n) ps I" by (rule ptrs_at_moves [OF assms(5) s1(2)]) (use assms(11) in auto)
  obtain s2 where s2: "mem_free (tn_ptr n) s1 = Some s2" "moves I s1 {} s2" using free_block [OF moves_ok(1) [OF s1(2)] p1] by blast
  have dom: "I \<subseteq> dom (m_heap s)" "K \<subseteq> dom (m_heap s)"
    using ptrs_at_dom [OF assms(5)] assms(6) ptrs_at_dom [of "m_heap s" "tn_keys n" ks K] by (auto simp: keys_at_def split: if_splits)
  have m2: "moves (C \<union> I) s {} s2" using moves_gone [OF s1(2) s2(2) dom(1)] assms(11) by auto
  have k2: "keys_at (m_heap s2) (tn_keys n) ks K" by (rule keys_at_moves [OF assms(6) m2]) (use assms(10,11) in auto)
  have "\<exists>s3. mem_free (tn_keys n) s2 = Some s3 \<and> moves K s2 {} s3"
  proof (cases "tn_keys n")
    case None
    then show ?thesis using k2 moves_ok(1) [OF m2] by (simp add: keys_at_def mem_free_def moves_refl)
  next
    case (Some x)
    then show ?thesis using k2 free_block [OF moves_ok(1) [OF m2], of "tn_keys n" ks K] by (simp add: keys_at_def)
  qed
  then obtain s3 where s3: "mem_free (tn_keys n) s2 = Some s3" "moves K s2 {} s3" by blast
  have m3: "moves (C \<union> I \<union> K) s {} s3" using moves_gone [OF m2 s3(2) dom(2)] assms(10,11) by auto
  have "a \<in> dom (m_heap s3)" using cell_moves [OF assms(3) m3] assms(9) by auto
  from free_moves [OF moves_ok(1) [OF m3] this] obtain s4 where s4: "mem_free (Some a) s3 = Some s4" "moves {a} s3 {} s4" by blast
  have "moves ((C \<union> I \<union> K) \<union> {a}) s {} s4" using moves_gone [OF m3 s4(2)] assms(3,9) by auto
  moreover have "(C \<union> I \<union> K) \<union> {a} = {a} \<union> I \<union> K \<union> C" by auto
  moreover have "toml_free (Suc f) (Some a) s = Some s4"
    using assms(4) s1(1) s2(1) s3(1) s4(1) read_node_at [OF assms(3)] by auto
  ultimately show ?thesis by simp
qed

lemma array_keys: "tmembers_at h ks ps (map (Pair None) vs) B \<Longrightarrow> set ks \<subseteq> {None}"
proof (induction vs arbitrary: ks ps B)
  case Nil
  then show ?case by (auto elim: tmembers_at.cases)
next
  case (Cons v vs)
  from Cons.prems show ?case
    by (cases rule: tmembers_at.cases) (use Cons.IH in \<open>auto simp: key_at_def split: option.splits\<close>)
qed

lemma toml_free_ok: "toml_frees f"
proof (induction f)
  case 0
  show ?case by (simp add: toml_frees_def)
next
  case (Suc f)
  have "\<exists>s'. toml_free (Suc f) (Some a) s = Some s' \<and> moves B s {} s'"
    if ok: "mem_ok s" and at: "toml_at (m_heap s) a v B" and h: "toml_height v < Suc f" for s a v B
    using at
  proof cases
    case (arr n ps I ks vs C)
    have "keys_at (m_heap s) (tn_keys n) ks {}" using array_keys [OF arr(8)] arr(5) by (simp add: keys_at_def)
    moreover have "\<forall>(k, v) \<in> set (map (Pair (None :: string option)) vs). toml_height v < f"
      using h unfolding arr(1) by (rule height_members(1))
    ultimately have "\<exists>s'. toml_free (Suc f) (Some a) s = Some s' \<and> moves ({a} \<union> I \<union> {} \<union> C) s {} s'"
      using arr by (intro toml_free_container [OF Suc ok arr(3) _ arr(6) _ arr(7,8)]) auto
    then show ?thesis by (simp only: arr(2) Un_empty_right)
  next
    case (table n ps I ks K kvs C)
    have "keys_at (m_heap s) (tn_keys n) ks K"
      using table(6) by (auto simp: keys_at_def ptrs_at_def split: option.splits)
    moreover have "\<forall>(k, v) \<in> set (map (\<lambda>(k, v). (Some k, v)) kvs). toml_height v < f"
      using h unfolding table(1) by (rule height_members(2))
    ultimately show ?thesis
      unfolding table(2) using table by (intro toml_free_container [OF Suc ok table(3) _ table(5) _ table(7,8)]) auto
  next
    case (str n p t)
    have p: "p \<in> dom (m_heap s)" "a \<in> dom (m_heap s)" using str by auto
    from free_moves [OF ok p(1)] obtain s1
      where s1: "mem_free (Some p) s = Some s1" "moves {p} s {} s1" "m_heap s1 = (m_heap s)(p := None)" by blast
    have "a \<noteq> p" using str(3,6) by auto
    then have "a \<in> dom (m_heap s1)" using s1(3) p(2) by auto
    from free_moves [OF moves_ok(1) [OF s1(2)] this] obtain s2 where s2: "mem_free (Some a) s1 = Some s2" "moves {a} s1 {} s2" by blast
    have "moves ({p} \<union> {a}) s {} s2" using moves_gone [OF s1(2) s2(2)] p \<open>a \<noteq> p\<close> by auto
    then show ?thesis using str s1(1) s2(1) by (simp add: read_node_at insert_commute)
  qed (use free_moves [OF ok, of a] in \<open>auto simp: read_node_at\<close>)
  then show ?case by (simp add: toml_frees_def)
qed

lemma toml_free_dead: "m_heap s a = None \<Longrightarrow> toml_free f (Some a) s = None"
  by (cases f) (simp_all add: read_node_def)

interpretation toml_tree: owned_tree toml_at "toml_free (Suc N)" "\<lambda>v. toml_height v \<le> N"
proof unfold_locales
  show "\<exists>s'. toml_free (Suc N) (Some a) s = Some s' \<and> moves B s {} s'"
    if "mem_ok s" "toml_at (m_heap s) a v B" "toml_height v \<le> N" for s a v B
    using toml_freesD [OF toml_free_ok that(1,2), of "Suc N"] that(3) by (simp del: toml_free.simps)
qed (auto intro: toml_at_frame(1) toml_free_dead dest: toml_at_dom(1) simp del: toml_free.simps)

section \<open>Adding members\<close>

lemma toml_has_key_at:
  "tmembers_at (m_heap s) ks ps (map (\<lambda>(k, v). (Some k, v)) kvs) B \<Longrightarrow> ptrs_at (m_heap s) (tn_keys n) (ls @ ks) K \<Longrightarrow>
   toml_has_key n key [length ls..<length (ls @ ks)] s = Some (key \<in> fst ` set kvs)"
proof (induction kvs arbitrary: ks ps B ls)
  case Nil
  then have "ks = []" by (auto elim: tmembers_at.cases)
  then show ?case by simp
next
  case (Cons kv kvs)
  obtain k v where kv: "kv = (k, v)" by (cases kv)
  from Cons.prems(1) obtain l ks' ps' C where m: "ks = Some l # ks'" "m_heap s l = Some (Text k)"
      "tmembers_at (m_heap s) ks' ps' (map (\<lambda>(k, v). (Some k, v)) kvs) C"
    unfolding kv by (auto simp: key_at_def elim: tmembers_at.cases split: option.splits)
  have IH: "toml_has_key n key [length (ls @ [Some l])..<length ((ls @ [Some l]) @ ks')] s = Some (key \<in> fst ` set kvs)"
    using Cons.prems(2) m(1) by (intro Cons.IH [OF m(3)]) simp
  have "[length ls..<length (ls @ ks)] = length ls # [length (ls @ [Some l])..<length ((ls @ [Some l]) @ ks')]"
    unfolding m(1) by (rule upt_split)
  moreover have "read_ptr (tn_keys n) (length ls) s = Some (Some l)" using read_ptr_at Cons.prems(2) m(1) by auto
  ultimately show ?case using IH m(2) kv by (auto simp: read_text_def simp del: length_append)
qed

lemma toml_table_add_duplicate:
  assumes "toml_at (m_heap s) a (TTable kvs) A" and "key \<in> fst ` set kvs"
  shows "toml_table_add_at (Some a) key v s = Some (False, s)"
proof -
  from assms(1) obtain n ps I ks K C where n: "m_heap s a = Some (Node n)" "tn_type n = TOML_TABLE" "ptrs_at (m_heap s) (tn_keys n) ks K"
      "tn_count n = length ps" "tmembers_at (m_heap s) ks ps (map (\<lambda>(k, v). (Some k, v)) kvs) C"
    by (rule toml_at_tableE)
  have "length ks = length ps" using toml_at_dom(2) [OF n(5)] by simp
  then show ?thesis
    using toml_has_key_at [OF n(5), of n "[]" K key] n(3,4) assms(2) by (simp add: toml_table_add_at_def read_node_at [OF n(1)] n(2))
qed

lemma toml_free_dangling:
  assumes "m_heap s a = Some (Node n)" and "tn_type n = TOML_TABLE" and "tn_ptr n = Some q" and "m_heap s q = None" and "0 < tn_count n"
  shows "toml_free f (Some a) s = None"
  using assms by (cases f) (simp_all add: read_node_at upt_conv_Cons read_ptr_def read_ptrs_def del: upt_Suc)

text \<open>
  The failure between the two allocations: the items have moved, the node keeps the old pointer, and whatever releases the
  table (as the callers do) reads the freed block.
\<close>

lemma toml_table_add_dangles:
  assumes "mem_ok s" and "toml_at (m_heap s) a (TTable kvs) A" and "kvs \<noteq> []" and "key \<notin> fst ` set kvs"
    and "m_heap s a = Some (Node n)" and "m_heap s q = Some (Ptrs xs)" and "tn_ptr n = Some q" and "length xs = length kvs"
    and "m_outcomes s = [True, False]"
  shows "\<exists>s'. toml_table_add_at (Some a) key v s = Some (False, s') \<and> toml_free f (Some a) s' = None"
proof -
  from assms(2,5) obtain ps I ks K C where n: "tn_type n = TOML_TABLE" "ptrs_at (m_heap s) (tn_ptr n) ps I" "ptrs_at (m_heap s) (tn_keys n) ks K"
      "tn_count n = length ps" "tmembers_at (m_heap s) ks ps (map (\<lambda>(k, v). (Some k, v)) kvs) C" "a \<notin> I \<union> K \<union> C"  "I \<inter> K = {}"
    by (auto elim: toml_at_tableE)
  have len: "length ps = length kvs" "length ks = length kvs" using toml_at_dom(2) [OF n(5)] by simp_all
  have key: "toml_has_key n key [0..<tn_count n] s = Some False"
    using toml_has_key_at [OF n(5), of n "[]" K key] n(3,4) assms(4) len by simp
  have aq: "a \<noteq> q" using n(2,6) assms(7) by (auto simp: ptrs_at_def)
  have next': "m_next s \<noteq> a" "m_next s \<noteq> q" using assms(1,5,6) by (auto simp: mem_ok_def)
  obtain l where l: "tn_keys n = Some l" "l \<noteq> q" "\<exists>ys. m_heap s l = Some (Ptrs ys)" 
    using n(2,3,7) assms(3,7) len by (auto simp: ptrs_at_def split: option.splits)
  then obtain ys where ys: "m_heap s l = Some (Ptrs ys)" by blast
  have ml: "m_next s \<noteq> l" using assms(1) ys by (auto simp: mem_ok_def)
  define xs' where "xs' = xs @ [None]"
  define s1 where "s1 = s\<lparr>m_heap := (m_heap s)(m_next s \<mapsto> Ptrs xs', q := None), m_next := m_next s + 1, m_outcomes := [False]\<rparr>"
  have items: "realloc_ptrs (tn_ptr n) (tn_count n + 1) s = Some (Some (m_next s), s1)"
    using assms(6-9) next' n(4) len
    by (auto simp: realloc_ptrs_def read_ptrs_def mem_alloc_def mem_free_def s1_def xs'_def Let_def)
  have s1: "m_heap s1 a = Some (Node n)" "m_heap s1 q = None" "m_heap s1 l = Some (Ptrs ys)" "m_outcomes s1 = [False]"
    using aq l(2) assms(5) ys next' ml by (auto simp: s1_def)
  have gone: "toml_free f (Some a) s' = None" if "m_heap s' a = Some (Node n)" "m_heap s' q = None" for s'
    using that n(1,4) assms(3,7) len by (intro toml_free_dangling) auto
  show ?thesis
  proof (cases "tn_count n + 1 \<le> length ys \<and> m_shrinks s1")
    case True
    define s2 where "s2 = s1\<lparr>m_heap := (m_heap s1)(l \<mapsto> Ptrs (take (tn_count n + 1) ys)), m_outcomes := []\<rparr>"
    define s3 where "s3 = s2\<lparr>m_heap := (m_heap s2)(l \<mapsto> Ptrs ((take (tn_count n + 1) ys)[tn_count n := None]))\<rparr>"
    have "toml_table_add_at (Some a) key v s = Some (False, s3)"
      using True s1 l(1) key items
      by (simp add: toml_table_add_at_def read_node_at [OF assms(5)] n(1) realloc_ptrs_def [of "Some l"] read_ptrs_def mem_put_def
          mem_alloc_def put_ptr_def s2_def s3_def)
    moreover have "toml_free f (Some a) s3 = None" using s1 l aq n(2,3,6) by (intro gone) (auto simp: s2_def s3_def ptrs_at_def)
    ultimately show ?thesis by blast
  next
    case False
    define s2 where "s2 = s1\<lparr>m_outcomes := []\<rparr>"
    have "realloc_ptrs (tn_keys n) (tn_count n + 1) s1 = Some (None, s2)"
      using False s1 l(1) by (auto simp: realloc_ptrs_def read_ptrs_def mem_alloc_def s2_def)
    then have "toml_table_add_at (Some a) key v s = Some (False, s2)"
      using key items by (simp add: toml_table_add_at_def read_node_at [OF assms(5)] n(1))
    moreover have "toml_free f (Some a) s2 = None" using s1 by (intro gone) (auto simp: s2_def)
    ultimately show ?thesis by blast
  qed
qed

text \<open>While memory lasts, a member of a new key is added and the table takes over the value's blocks.\<close>

lemma realloc_lasts:
  assumes "mem_ok s" and "ptrs_at (m_heap s) p ps P" and "m_outcomes s = []"
  obtains q xs s' where "realloc_ptrs p (length ps + 1) s = Some (Some q, s')" "moves P s {q} s'" "m_heap s' q = Some (Ptrs xs)"
      "length xs = length ps + 1" "take (length ps) xs = ps" "m_outcomes s' = []"
  using assms(1,2)
proof (cases rule: realloc_grow)
  case (fail s')
  then show ?thesis using assms(3) by simp
next
  case (moved q xs s')
  then show ?thesis using that assms(3) movesD(9) by blast
qed

lemma alloc_lasts:
  assumes "mem_ok s" and "m_outcomes s = []"
  obtains a s' where "mem_alloc c s = (Some a, s')" "moves {} s {a} s'" "m_heap s' = (m_heap s)(a \<mapsto> c)" "a \<notin> dom (m_heap s)"
  using assms(1)
proof (cases rule: alloc_moves [where c = c])
  case (fail s')
  then show ?thesis using assms(2) by simp
next
  case (new a s')
  then show ?thesis by (rule that)
qed

lemma snoc_slot: "length xs = length ps + 1 \<Longrightarrow> take (length ps) xs = ps \<Longrightarrow> xs[length ps := x] = ps @ [x]"
  by (cases xs rule: rev_cases) (auto simp: list_update_append)

lemma toml_arr_add_ok:
  assumes "mem_ok s" and "m_outcomes s = []" and "toml_at (m_heap s) a (TArr vs) A" and "toml_at (m_heap s) b v B" and "A \<inter> B = {}"
  shows "\<exists>A' s'. toml_arr_add_at (Some a) (Some b) s = Some (True, s') \<and> moves (A \<union> B) s A' s' \<and> toml_at (m_heap s') a (TArr (vs @ [v])) A'"
proof -
  from assms(3) obtain n ps I ks C where n: "m_heap s a = Some (Node n)" "tn_type n = TOML_ARR" "tn_keys n = None"
      "ptrs_at (m_heap s) (tn_ptr n) ps I" "tn_count n = length ps" "tmembers_at (m_heap s) ks ps (map (Pair None) vs) C"
      "a \<notin> I \<union> C" "I \<inter> C = {}" "A = {a} \<union> I \<union> C"
    by (rule toml_at_arrE) (rule that, (assumption | simp)+)
  have dom: "A \<union> B \<subseteq> dom (m_heap s)" using toml_at_dom(1) assms(3,4) by blast
  obtain q xs s1 where q: "realloc_ptrs (tn_ptr n) (length ps + 1) s = Some (Some q, s1)" "moves I s {q} s1" "m_heap s1 q = Some (Ptrs xs)"
      "length xs = length ps + 1" "take (length ps) xs = ps"
    by (rule realloc_lasts [OF assms(1) n(4) assms(2)])
  have m1: "moves (A \<union> B) s (A \<union> B - I \<union> {q}) s1" by (rule moves_in [OF moves_refl [OF assms(1) dom] q(2)]) (use n in auto)
  have qn: "q \<notin> {a} \<union> C \<union> B" using moves_disjoint [OF q(2), of "{a} \<union> C \<union> B"] dom assms(5) n(7-9) by blast
  obtain s2 where s2: "put_ptr (Some q) (length ps) (Some b) s1 = Some s2" "moves {q} s1 {q} s2" "m_heap s2 = (m_heap s1)(q \<mapsto> Ptrs (xs[length ps := Some b]))"
    using put_ptr_moves [OF moves_ok(1) [OF q(2)] q(3), of "length ps" "Some b"] q(4) by auto
  have m2: "moves (A \<union> B) s (A \<union> B - I \<union> {q} - {q} \<union> {q}) s2" by (rule moves_in [OF m1 s2(2)]) simp
  define n' where "n' = n\<lparr>tn_ptr := Some q, tn_count := tn_count n + 1\<rparr>"
  obtain s3 where s3: "mem_put a (Node n') s2 = Some s3" "moves {a} s2 {a} s3" "m_heap s3 = (m_heap s2)(a \<mapsto> Node n')"
    using put_moves [OF moves_ok(1) [OF m2], of a "Node n'"] movesD(5) [OF m2] n(7,9) by blast
  have "moves (A \<union> B) s (A \<union> B - I \<union> {q} - {q} \<union> {q} - {a} \<union> {a}) s3" by (rule moves_in [OF m2 s3(2)]) (use n in auto)
  moreover have "A \<union> B - I \<union> {q} - {q} \<union> {q} - {a} \<union> {a} = {a} \<union> {q} \<union> (C \<union> B)" using n(7-9) assms(5) qn by auto
  ultimately have m3: "moves (A \<union> B) s ({a} \<union> {q} \<union> (C \<union> B)) s3" by simp
  have same: "m_heap s3 x = m_heap s x" if "x \<in> C \<union> B" for x
  proof -
    have "x \<noteq> q" "x \<noteq> a" "x \<notin> I" "x \<in> dom (m_heap s)" using that qn n(7-9) dom assms(5) by auto
    then show ?thesis using moves_same [OF q(2)] s2(3) s3(3) by simp
  qed
  have "tmembers_at (m_heap s3) (ks @ [None]) (ps @ [Some b]) (map (Pair None) vs @ [(None, v)]) (set_option None \<union> C \<union> B)"
    using same n(7-9) assms(5)
    by (intro tmembers_at_snoc toml_at_frame(1) [OF assms(4)] toml_at_frame(2) [OF n(6)]) (auto simp: key_at_def)
  then have "toml_at (m_heap s3) a (TArr (vs @ [v])) ({a} \<union> {q} \<union> (C \<union> B))"
    using n(2,3,5,7-9) qn assms(5) s2(3) s3(3) snoc_slot [OF q(4,5), of "Some b"]
    by (intro arr [where n = n' and ps = "ps @ [Some b]" and ks = "ks @ [None]"]) (auto simp: n'_def ptrs_at_def)
  moreover have "toml_arr_add_at (Some a) (Some b) s = Some (True, s3)"
    using q(1) s2(1) s3(1) n(2,5) by (simp add: toml_arr_add_at_def read_node_at [OF n(1)] n'_def)
  ultimately show ?thesis using m3 by blast
qed

text \<open>The end of \<^verbatim>\<open>toml_table_add\<close>: three stores into blocks of its own.\<close>

lemma table_add_fill:
  assumes "mem_ok s" and "m_heap s a = Some (Node n)" and "tn_type n = TOML_TABLE" and "tn_count n = length ps"
    and "m_heap s i = Some (Ptrs xs)" and "length xs = length ps + 1" and "take (length ps) xs = ps"
    and "m_heap s l = Some (Ptrs ys)" and "length ys = length ps + 1" and "take (length ps) ys = ks" and "length ks = length ps"
    and "tmembers_at (m_heap s) ks ps (map (\<lambda>(k, v). (Some k, v)) kvs) C" and "m_heap s k = Some (Text key)" and "toml_at (m_heap s) b v B"
    and "distinct [a, i, l, k]" and "{a, i, l, k} \<inter> (C \<union> B) = {}" and "C \<inter> B = {}"
  shows "\<exists>A s'. do {
       s \<leftarrow> put_ptr (Some l) (tn_count n) (Some k) s;
       s \<leftarrow> put_ptr (Some i) (tn_count n) (Some b) s;
       s \<leftarrow> mem_put a (Node (n\<lparr>tn_ptr := Some i, tn_keys := Some l, tn_count := tn_count n + 1\<rparr>)) s;
       Some (True, s) } = Some (True, s') \<and>
    moves ({k, a, i, l} \<union> C \<union> B) s A s' \<and> toml_at (m_heap s') a (TTable (kvs @ [(key, v)])) A"
proof -
  define O0 where "O0 = {k, a, i, l} \<union> C \<union> B"
  have "O0 \<subseteq> dom (m_heap s)"
    using assms(2,5,8,13) toml_at_dom(1) [OF assms(14)] toml_at_dom(2) [OF assms(12)] by (auto simp: O0_def)
  note m0 = moves_refl [OF assms(1) this]
  obtain s1 where s1: "put_ptr (Some l) (length ps) (Some k) s = Some s1" "moves {l} s {l} s1"
      "m_heap s1 = (m_heap s)(l \<mapsto> Ptrs (ys[length ps := Some k]))"
    using put_ptr_moves [OF assms(1,8), of "length ps" "Some k"] assms(9) by auto
  have "m_heap s1 i = Some (Ptrs xs)" using s1(3) assms(5,15) by simp
  then obtain s2 where s2: "put_ptr (Some i) (length ps) (Some b) s1 = Some s2" "moves {i} s1 {i} s2"
      "m_heap s2 = (m_heap s1)(i \<mapsto> Ptrs (xs[length ps := Some b]))"
    using put_ptr_moves [OF moves_ok(1) [OF s1(2)], of i xs "length ps" "Some b"] assms(6) by auto
  define n' where "n' = n\<lparr>tn_ptr := Some i, tn_keys := Some l, tn_count := tn_count n + 1\<rparr>"
  have "a \<in> dom (m_heap s2)" using s2(3) s1(3) assms(2) by auto
  from put_moves [OF moves_ok(1) [OF s2(2)] this] obtain s3
    where s3: "mem_put a (Node n') s2 = Some s3" "moves {a} s2 {a} s3" "m_heap s3 = (m_heap s2)(a \<mapsto> Node n')" by blast
  have m: "moves O0 s (O0 - {l} \<union> {l} - {i} \<union> {i} - {a} \<union> {a}) s3"
    by (rule moves_in [OF moves_in [OF moves_in [OF m0 s1(2)] s2(2)] s3(2)]) (auto simp: O0_def)
  define D where "D = {k} \<union> C \<union> B"
  have O0: "O0 - {l} \<union> {l} - {i} \<union> {i} - {a} \<union> {a} = {a} \<union> {i} \<union> {l} \<union> D" by (auto simp: O0_def D_def)
  have cells: "m_heap s3 x = m_heap s x" if "x \<in> D" for x
    using that assms(15,16) s1(3) s2(3) s3(3) by (auto simp: D_def)
  have "tmembers_at (m_heap s3) (ks @ [Some k]) (ps @ [Some b]) (map (\<lambda>(k, v). (Some k, v)) kvs @ [(Some key, v)]) (set_option (Some k) \<union> C \<union> B)"
    using cells assms(13,16,17)
    by (intro tmembers_at_snoc toml_at_frame(1) [OF assms(14)] toml_at_frame(2) [OF assms(12)]) (auto simp: D_def key_at_def)
  moreover have "xs[length ps := Some b] = ps @ [Some b]" "ys[length ps := Some k] = ks @ [Some k]"
    using snoc_slot [OF assms(6,7)] snoc_slot [of ys ks] assms(9-11) by simp_all
  ultimately have "toml_at (m_heap s3) a (TTable (kvs @ [(key, v)])) ({a} \<union> {i} \<union> {l} \<union> D)"
    using assms(3,4,11,15,16) s1(3) s2(3) s3(3)
    by (intro table [where n = n' and ps = "ps @ [Some b]" and ks = "ks @ [Some k]"]) (auto simp: n'_def ptrs_at_def D_def)
  then show ?thesis using m [unfolded O0] s1(1) s2(1) s3(1) by (auto simp: n'_def O0_def assms(4))
qed

lemma toml_table_add_ok:
  assumes "mem_ok s" and "m_outcomes s = []" and "toml_at (m_heap s) a (TTable kvs) A" and "toml_at (m_heap s) b v B" and "A \<inter> B = {}"
    and "key \<notin> fst ` set kvs"
  shows "\<exists>A' s'. toml_table_add_at (Some a) key (Some b) s = Some (True, s') \<and> moves (A \<union> B) s A' s' \<and>
    toml_at (m_heap s') a (TTable (kvs @ [(key, v)])) A'"
proof -
  from assms(3) obtain n ps I ks K C where n: "m_heap s a = Some (Node n)" "tn_type n = TOML_TABLE"
      "ptrs_at (m_heap s) (tn_ptr n) ps I" "ptrs_at (m_heap s) (tn_keys n) ks K" "tn_count n = length ps"
      "tmembers_at (m_heap s) ks ps (map (\<lambda>(k, v). (Some k, v)) kvs) C" "a \<notin> I \<union> K \<union> C" "I \<inter> K = {}" "(I \<union> K) \<inter> C = {}"
      "A = {a} \<union> I \<union> K \<union> C"
    by (rule toml_at_tableE) (rule that, (assumption | simp)+)
  have dom: "A \<union> B \<subseteq> dom (m_heap s)" using toml_at_dom(1) assms(3,4) by blast
  have len: "length ks = length ps" using toml_at_dom(2) [OF n(6)] by simp
  have dup: "toml_has_key n key [0..<length ps] s = Some False"
    using toml_has_key_at [OF n(6), of n "[]" K key] n(4) assms(6) len by simp
  define F where "F = {a} \<union> C \<union> B"
  have F: "F \<subseteq> dom (m_heap s)" "F \<inter> I = {}" "F \<inter> K = {}" using dom n(7-10) assms(5) unfolding F_def by blast+
  obtain i xs s1 where i: "realloc_ptrs (tn_ptr n) (length ps + 1) s = Some (Some i, s1)" "moves I s {i} s1" "m_heap s1 i = Some (Ptrs xs)"
      "length xs = length ps + 1" "take (length ps) xs = ps" "m_outcomes s1 = []"
    by (rule realloc_lasts [OF assms(1) n(3) assms(2)])
  have iF: "i \<notin> F" "i \<notin> K" using moves_disjoint [OF i(2) F(1,2)] moves_disjoint [OF i(2), of K] ptrs_at_dom [OF n(4)] n(8) by auto
  have F1: "F \<subseteq> dom (m_heap s1)" using movesD(8) [OF i(2)] F by blast
  have K1: "ptrs_at (m_heap s1) (tn_keys n) ks K" by (rule ptrs_at_moves [OF n(4) i(2)]) (use n(8) in auto)
  obtain l ys s2 where l: "realloc_ptrs (tn_keys n) (length ks + 1) s1 = Some (Some l, s2)" "moves K s1 {l} s2" "m_heap s2 l = Some (Ptrs ys)"
      "length ys = length ks + 1" "take (length ks) ys = ks" "m_outcomes s2 = []"
    by (rule realloc_lasts [OF moves_ok(1) [OF i(2)] K1 i(6)])
  have lF: "l \<notin> F" "l \<noteq> i" using moves_disjoint [OF l(2) F1 F(3)] moves_disjoint [OF l(2), of "{i}"] i(3) iF by auto
  have F2: "F \<subseteq> dom (m_heap s2)" using movesD(8) [OF l(2)] F1 F(3) by blast
  obtain k s3 where k: "mem_alloc (Text key) s2 = (Some k, s3)" "moves {} s2 {k} s3" "m_heap s3 = (m_heap s2)(k \<mapsto> Text key)" "k \<notin> dom (m_heap s2)"
    by (rule alloc_lasts [OF moves_ok(1) [OF l(2)] l(6)])
  have i2: "m_heap s2 i = Some (Ptrs xs)" using cell_moves [OF i(3) l(2)] iF by auto
  have kF: "k \<notin> F" "k \<noteq> i" "k \<noteq> l" using k(4) F2 i2 l(3) by auto
  have cells: "m_heap s3 x = m_heap s x" if "x \<in> F" for x
  proof -
    have "m_heap s1 x = m_heap s x" by (rule moves_same [OF i(2)]) (use that F in auto)
    moreover have "m_heap s2 x = m_heap s1 x" by (rule moves_same [OF l(2)]) (use that F F1 in auto)
    ultimately show ?thesis using k(3) kF that by auto
  qed
  define O3 where "O3 = {k, a, i, l} \<union> C \<union> B"
  have m: "moves (A \<union> B) s (A \<union> B - I \<union> {i} - K \<union> {l} - {} \<union> {k}) s3"
    by (rule moves_in [OF moves_in [OF moves_in [OF moves_refl [OF assms(1) dom] i(2)] l(2)] k(2)]) (use n(8,10) iF in auto)
  have O3: "A \<union> B - I \<union> {i} - K \<union> {l} - {} \<union> {k} = O3" using n(7-10) F(2,3) iF by (auto simp: O3_def F_def)
  have "\<exists>A s'. do {
       s \<leftarrow> put_ptr (Some l) (tn_count n) (Some k) s3;
       s \<leftarrow> put_ptr (Some i) (tn_count n) (Some b) s;
       s \<leftarrow> mem_put a (Node (n\<lparr>tn_ptr := Some i, tn_keys := Some l, tn_count := tn_count n + 1\<rparr>)) s;
       Some (True, s) } = Some (True, s') \<and>
    moves O3 s3 A s' \<and> toml_at (m_heap s') a (TTable (kvs @ [(key, v)])) A"
    unfolding O3_def
  proof (rule table_add_fill [OF moves_ok(1) [OF k(2)] _ n(2,5) _ i(4,5) _ _ _ len])
    show "tmembers_at (m_heap s3) ks ps (map (\<lambda>(k, v). (Some k, v)) kvs) C" "toml_at (m_heap s3) b v B"
      using cells by (auto intro!: toml_at_frame(2) [OF n(6)] toml_at_frame(1) [OF assms(4)] simp: F_def)
  qed (use cells [of a] n(1,7,10) i2 l(3-5) len k(3) kF iF lF assms(5) in \<open>auto simp: F_def\<close>)
  moreover have "toml_table_add_at (Some a) key (Some b) s = do {
       s \<leftarrow> put_ptr (Some l) (tn_count n) (Some k) s3;
       s \<leftarrow> put_ptr (Some i) (tn_count n) (Some b) s;
       s \<leftarrow> mem_put a (Node (n\<lparr>tn_ptr := Some i, tn_keys := Some l, tn_count := tn_count n + 1\<rparr>)) s;
       Some (True, s) }"
    using i(1) l(1) k(1) dup by (simp add: toml_table_add_at_def read_node_at [OF n(1)] n(2,5) len)
  ultimately show ?thesis using moves_trans [OF m [unfolded O3]] by auto
qed

end
