(* ===== verification/Dbus_Client.thy ===== *)
theory Dbus_Client
  imports CNumeric "HOL-Library.Monad_Syntax"
begin

text \<open>
  \<^verbatim>\<open>tools/src/dbus_client.c\<close>: the D-Bus client of the command line tool.

  Bytes are characters, 32-bit numbers naturals below \<open>2 ^ 32\<close> with the wrap-around written out. The
  socket is what \<^verbatim>\<open>poll\<close> and \<^verbatim>\<open>read\<close> deliver (\<open>sock_res\<close>) and what \<^verbatim>\<open>write_all\<close> returns; what the
  client sent is kept. A reader works with indices into the message buffer. Where the code reads outside
  the buffer, writes outside \<^verbatim>\<open>sun_path\<close> or pads forever, the model yields \<open>None\<close>.
\<close>

section \<open>The byte writer\<close>

abbreviation nul :: char where
  "nul \<equiv> CHR 0x00"

record wb =
  wb_b :: string
  nodepad :: nat
  oom :: bool

definition wb_zero :: wb where
  "wb_zero = \<lparr>wb_b = [], nodepad = 0, oom = False\<rparr>"

definition wb_put :: "string \<Rightarrow> wb \<Rightarrow> wb" where
  "wb_put s w = (if oom w then w else w\<lparr>wb_b := wb_b w @ s, nodepad := length (wb_b w @ s)\<rparr>)"

definition wb_u8 :: "nat \<Rightarrow> wb \<Rightarrow> wb" where
  "wb_u8 v w = wb_put [char_of v] w"

definition le32 :: "nat \<Rightarrow> string" where
  "le32 v = [char_of v, char_of (v div 256), char_of (v div 256 ^ 2), char_of (v div 256 ^ 3)]"

definition wb_u32 :: "nat \<Rightarrow> wb \<Rightarrow> wb" where
  "wb_u32 v w = wb_put (le32 v) w"

definition le64 :: "nat \<Rightarrow> string" where
  "le64 v = map (\<lambda>i. char_of (v div 256 ^ i)) [0..<8]"

definition wb_u64 :: "nat \<Rightarrow> wb \<Rightarrow> wb" where
  "wb_u64 v w = wb_put (le64 v) w"

text \<open>The loop of \<^verbatim>\<open>wb_pad\<close> makes no progress once the writer has failed.\<close>

definition pad_len :: "nat \<Rightarrow> nat \<Rightarrow> nat" where
  "pad_len al n = (al - n mod al) mod al"

definition wb_pad :: "nat \<Rightarrow> wb \<Rightarrow> wb option" where
  "wb_pad al w =
     (if length (wb_b w) mod al = 0 then Some (w\<lparr>nodepad := length (wb_b w)\<rparr>)
      else if oom w then None
      else Some (w\<lparr>wb_b := wb_b w @ replicate (pad_len al (length (wb_b w))) nul, nodepad := length (wb_b w)\<rparr>))"

definition wb_str :: "string \<Rightarrow> wb \<Rightarrow> wb option" where
  "wb_str s w =
     (if length s > 0x0fffffff then Some (w\<lparr>oom := True\<rparr>)
      else wb_pad 4 (wb_u8 0 (wb_put s (wb_u32 (length s) w))))"

definition wb_sig :: "string \<Rightarrow> wb \<Rightarrow> wb option" where
  "wb_sig s w =
     (if length s > 255 then Some (w\<lparr>oom := True\<rparr>)
      else Some (wb_u8 0 (wb_put s (wb_u8 (length s) w))))"

section \<open>Marshalling a call\<close>

text \<open>A double is given by the 64 bits the code copies.\<close>

record dbus_arg =
  ar_type :: char
  ar_s :: string
  ar_d :: nat
  ar_u :: nat

text \<open>The outer option is divergence, the inner one the error.\<close>

definition body_add_arg :: "dbus_arg \<Rightarrow> wb \<Rightarrow> wb option option" where
  "body_add_arg a w =
     (if ar_type a = CHR ''s'' then map_option Some (Option.bind (wb_pad 4 w) (wb_str (ar_s a)))
      else if ar_type a = CHR ''d'' then map_option (\<lambda>w. Some (wb_u64 (ar_d a) w)) (wb_pad 8 w)
      else if ar_type a = CHR ''u'' then map_option (\<lambda>w. Some (wb_u32 (ar_u a) w)) (wb_pad 4 w)
      else Some None)"

fun body_add_args :: "dbus_arg list \<Rightarrow> wb \<Rightarrow> wb option option" where
  "body_add_args [] w = Some (Some w)"
| "body_add_args (a # as) w = (case body_add_arg a w of
       None \<Rightarrow> None
     | Some None \<Rightarrow> Some None
     | Some (Some w') \<Rightarrow> body_add_args as w')"

definition hdr_field :: "nat \<Rightarrow> char \<Rightarrow> (string \<Rightarrow> wb \<Rightarrow> wb option) \<Rightarrow> string \<Rightarrow> wb \<Rightarrow> wb option" where
  "hdr_field fcode sg val data w = do {
     w \<leftarrow> wb_pad 8 w;
     let w = wb_u8 0 (wb_put [sg] (wb_u8 1 (wb_u8 fcode w)));
     w \<leftarrow> (if sg = CHR ''o'' \<or> sg = CHR ''s'' \<or> sg = CHR ''u'' then wb_pad 4 w else Some w);
     val data w
   }"

definition MAX_MESSAGE :: nat where "MAX_MESSAGE = 2 ^ 20"

definition FIELD_PATH :: nat where "FIELD_PATH = 1"
definition FIELD_INTERFACE :: nat where "FIELD_INTERFACE = 2"
definition FIELD_MEMBER :: nat where "FIELD_MEMBER = 3"
definition FIELD_ERROR_NAME :: nat where "FIELD_ERROR_NAME = 4"
definition FIELD_REPLY_SERIAL :: nat where "FIELD_REPLY_SERIAL = 5"
definition FIELD_DESTINATION :: nat where "FIELD_DESTINATION = 6"
definition FIELD_SIGNATURE :: nat where "FIELD_SIGNATURE = 8"

lemmas field_codes = FIELD_PATH_def FIELD_INTERFACE_def FIELD_MEMBER_def FIELD_ERROR_NAME_def
  FIELD_REPLY_SERIAL_def FIELD_DESTINATION_def FIELD_SIGNATURE_def

text \<open>Replace four bytes from \<open>pos\<close>.\<close>

definition patch :: "nat \<Rightarrow> string \<Rightarrow> string \<Rightarrow> string" where
  "patch pos new b = take pos b @ new @ drop (pos + length new) b"

definition build_header :: "nat \<Rightarrow> nat \<Rightarrow> string \<Rightarrow> string \<Rightarrow> string \<Rightarrow> string \<Rightarrow> string \<Rightarrow> wb option" where
  "build_header body_len serial dest path iface member sg = do {
     let w = wb_u32 0 (wb_u32 serial (wb_u32 body_len
       (wb_u8 1 (wb_u8 0 (wb_u8 1 (wb_put ''l'' wb_zero))))));
     w \<leftarrow> hdr_field FIELD_PATH (CHR ''o'') wb_str path w;
     w \<leftarrow> hdr_field FIELD_INTERFACE (CHR ''s'') wb_str iface w;
     w \<leftarrow> hdr_field FIELD_MEMBER (CHR ''s'') wb_str member w;
     w \<leftarrow> hdr_field FIELD_DESTINATION (CHR ''s'') wb_str dest w;
     w \<leftarrow> (if sg \<noteq> [] then hdr_field FIELD_SIGNATURE (CHR ''g'') wb_sig sg w else Some w);
     wb_pad 8 (w\<lparr>wb_b := patch 12 (le32 (nodepad w - 12 - 4)) (wb_b w)\<rparr>)
   }"

text \<open>
  \<open>args\<close> holds one entry for every character of the signature \<open>sg\<close>, as the code requires of its callers.
\<close>

definition build_call ::
  "nat \<Rightarrow> string \<Rightarrow> string \<Rightarrow> string \<Rightarrow> string \<Rightarrow> string \<Rightarrow> dbus_arg list \<Rightarrow> string option option" where
  "build_call serial dest path iface member sg args =
     (case body_add_args (take (length sg) args) wb_zero of
        None \<Rightarrow> None
      | Some None \<Rightarrow> Some None
      | Some (Some body) \<Rightarrow>
          (case build_header (nodepad body) serial dest path iface member sg of
             None \<Rightarrow> None
           | Some hdr \<Rightarrow>
               if oom hdr \<or> oom body \<or> length (wb_b hdr) + nodepad body > MAX_MESSAGE then Some None
               else Some (Some (wb_b hdr @ take (nodepad body) (wb_b body)))))"

section \<open>The bounded reader\<close>

record rd =
  rd_p :: nat
  rd_end :: nat
  rd_off :: nat
  rd_err :: bool

definition rd_u8 :: "string \<Rightarrow> rd \<Rightarrow> nat \<times> rd" where
  "rd_u8 buf r =
     (if rd_err r \<or> rd_p r + 1 > rd_end r then (0, r\<lparr>rd_err := True\<rparr>)
      else (of_char (buf ! rd_p r), r\<lparr>rd_p := rd_p r + 1, rd_off := rd_off r + 1\<rparr>))"

definition u32_of :: "nat \<Rightarrow> nat \<Rightarrow> nat \<Rightarrow> nat \<Rightarrow> nat" where
  "u32_of b0 b1 b2 b3 = b0 + 256 * b1 + 256 ^ 2 * b2 + 256 ^ 3 * b3"

definition rd_u32 :: "string \<Rightarrow> rd \<Rightarrow> nat \<times> rd" where
  "rd_u32 buf r =
     (let (b0, r0) = rd_u8 buf r; (b1, r1) = rd_u8 buf r0; (b2, r2) = rd_u8 buf r1; (b3, r3) = rd_u8 buf r2
      in (u32_of b0 b1 b2 b3, r3))"

function rd_pad :: "string \<Rightarrow> rd \<Rightarrow> nat \<Rightarrow> nat \<Rightarrow> rd" where
  "rd_pad buf r base al =
     (if (rd_off r - base) mod al \<noteq> 0 \<and> rd_p r < rd_end r then
        let r' = snd (rd_u8 buf r) in if rd_err r' then r' else rd_pad buf r' base al
      else r)"
  by auto
termination
  by (relation "measure (\<lambda>(buf, r, base, al). rd_end r - rd_p r)") (auto simp: rd_u8_def split: if_splits)

declare rd_pad.simps [simp del]

text \<open>
  \<open>None\<close>: the terminator is looked up outside the buffer, which the unsigned comparison lets pass when
  nothing is left of the slice.
\<close>

definition rd_str :: "string \<Rightarrow> rd \<Rightarrow> (string option \<times> rd) option" where
  "rd_str buf r = (case rd_u32 buf r of (len, r1) \<Rightarrow>
     if rd_err r1 \<or> len > ((rd_end r1 - rd_p r1) mod 2 ^ 32 + 2 ^ 32 - 1) mod 2 ^ 32 then
       Some (None, r1\<lparr>rd_err := True\<rparr>)
     else if rd_p r1 + len \<ge> length buf then None
     else if buf ! (rd_p r1 + len) \<noteq> nul then Some (None, r1\<lparr>rd_err := True\<rparr>)
     else let s = cstr (take len (drop (rd_p r1) buf));
              r2 = rd_pad buf (r1\<lparr>rd_p := rd_p r1 + len + 1, rd_off := rd_off r1 + len + 1\<rparr>) 0 4
          in Some (if rd_err r2 then None else Some s, r2))"

section \<open>Reply bodies\<close>

datatype dbus_value =
    DEmpty
  | DString string
  | DStrings "string list"
  | DVariant string string   \<comment> \<open>signature and string\<close>

lemma rd_u8_p: "rd_p r \<le> rd_p (snd (rd_u8 buf r)) \<and> rd_end (snd (rd_u8 buf r)) = rd_end r"
  by (simp add: rd_u8_def)

lemma rd_pad_p: "rd_p r \<le> rd_p (rd_pad buf r base al) \<and> rd_end (rd_pad buf r base al) = rd_end r"
proof (induction buf r base al rule: rd_pad.induct)
  case (1 buf r base al)
  then show ?case
    using rd_u8_p [of r buf]
    by (subst (1 2) rd_pad.simps) (fastforce simp: Let_def)
qed

lemma rd_str_progress:
  assumes "rd_str buf r = Some (s, r')"
  shows "rd_end r' = rd_end r" and "\<not> rd_err r' \<Longrightarrow> rd_p r < rd_p r'"
proof -
  obtain len r1 where u: "rd_u32 buf r = (len, r1)" by fastforce
  then have "rd_p r \<le> rd_p r1 \<and> rd_end r1 = rd_end r"
    using rd_u8_p by (auto simp: rd_u32_def split: prod.splits) (metis order_trans snd_conv)+
  moreover note rd_pad_p [of "r1\<lparr>rd_p := rd_p r1 + len + 1, rd_off := rd_off r1 + len + 1\<rparr>" buf 0 4]
  ultimately show "rd_end r' = rd_end r" "\<not> rd_err r' \<Longrightarrow> rd_p r < rd_p r'"
    using assms by (auto simp: rd_str_def u Let_def split: if_splits)
qed

text \<open>The loop over the strings of an array.\<close>

function rd_strings :: "string \<Rightarrow> rd \<Rightarrow> string list \<Rightarrow> (string list option \<times> rd) option" where
  "rd_strings buf ar items =
     (if rd_p ar \<ge> rd_end ar then Some (Some items, ar)
      else case rd_str buf ar of
             None \<Rightarrow> None
           | Some (s, ar') \<Rightarrow>
               if rd_err ar' then Some (None, ar')
               else rd_strings buf ar' (items @ [case s of Some t \<Rightarrow> t | None \<Rightarrow> []]))"
  by auto
termination
proof (relation "measure (\<lambda>(buf, ar, items). rd_end ar - rd_p ar)")
  fix buf ar and items :: "string list" and z s ar'
  assume a: "\<not> rd_end ar \<le> rd_p ar" "rd_str buf ar = Some z" "(s, ar') = z" "\<not> rd_err ar'"
  then have "rd_str buf ar = Some (s, ar')" by simp
  from rd_str_progress [OF this] a show "((buf, ar', items @ [case s of Some t \<Rightarrow> t | None \<Rightarrow> []]), buf, ar, items) \<in>
      measure (\<lambda>(buf, ar, items). rd_end ar - rd_p ar)" by auto
qed simp

declare rd_strings.simps [simp del]

definition rd_value :: "string \<Rightarrow> rd \<Rightarrow> string \<Rightarrow> (dbus_value option \<times> rd) option" where
  "rd_value buf r sg =
     (if sg = ''s'' then
        map_option (\<lambda>(s, r'). (if rd_err r' then None else map_option DString s, r')) (rd_str buf (rd_pad buf r 0 4))
      else if sg = ''as'' then
        (case rd_u32 buf (rd_pad buf r 0 4) of (alen, r1) \<Rightarrow>
           if rd_err r1 \<or> alen > rd_end r1 - rd_p r1 then Some (None, r1\<lparr>rd_err := True\<rparr>)
           else map_option (\<lambda>(items, ar).
                  case items of
                    None \<Rightarrow> (None, r1\<lparr>rd_err := True\<rparr>)
                  | Some xs \<Rightarrow> (Some (DStrings xs), r1\<lparr>rd_p := rd_p ar, rd_off := rd_off r1 + alen\<rparr>))
                (rd_strings buf \<lparr>rd_p = rd_p r1, rd_end = rd_p r1 + alen, rd_off = 0, rd_err = False\<rparr> []))
      else if sg = ''v'' then
        (case rd_u8 buf r of (slen, r1) \<Rightarrow>
           if rd_err r1 \<or> slen = 0 \<or> slen \<ge> 17 \<or> rd_p r1 + slen + 1 > rd_end r1 then Some (None, r1\<lparr>rd_err := True\<rparr>)
           else let inner = cstr (take slen (drop (rd_p r1) buf));
                    r2 = snd (rd_u8 buf (r1\<lparr>rd_p := rd_p r1 + slen, rd_off := rd_off r1 + slen\<rparr>))
                in if inner \<noteq> ''s'' then Some (None, r2\<lparr>rd_err := True\<rparr>)
                   else map_option (\<lambda>(s, r'). (if rd_err r' then None else map_option (DVariant inner) s, r'))
                          (rd_str buf (rd_pad buf r2 0 4)))
      else Some (None, r\<lparr>rd_err := True\<rparr>))"


section \<open>Socket input and output\<close>

text \<open>
  What one round of \<^verbatim>\<open>poll\<close> and \<^verbatim>\<open>read\<close> gives; when the list is used up, nothing arrives any more. The error
  texts are those before the caller's buffer cuts them.
\<close>

datatype sock_res =
    Interrupted
  | PollError string
  | ReadError string
  | Closed
  | Chunk string

record sock =
  sk_in :: "sock_res list"
  sk_wr :: "string option list"   \<comment> \<open>the results of \<^verbatim>\<open>write_all\<close>; success when used up\<close>
  sk_out :: "string list"

record dbus_client =
  cl_fd :: int
  cl_serial :: nat
  cl_rbuf :: string
  cl_err_name :: "string option"
  cl_err_msg :: "string option"
  cl_sock :: sock

definition write_all :: "string \<Rightarrow> sock \<Rightarrow> string option \<times> sock" where
  "write_all b k = (case sk_wr k of
       [] \<Rightarrow> (None, k\<lparr>sk_out := sk_out k @ [b]\<rparr>)
     | None # ws \<Rightarrow> (None, k\<lparr>sk_wr := ws, sk_out := sk_out k @ [b]\<rparr>)
     | Some e # ws \<Rightarrow> (Some e, k\<lparr>sk_wr := ws\<rparr>))"

fun refill :: "sock_res list \<Rightarrow> (string + string) \<times> sock_res list" where
  "refill [] = (Inl ''cannot read from the bus: timed out'', [])"
| "refill (Interrupted # k) = refill k"
| "refill (PollError e # k) = (Inl (''cannot read from the bus: '' @ e), k)"
| "refill (ReadError e # k) = (Inl (''cannot read from the bus: '' @ e), k)"
| "refill (Closed # k) = (Inl ''cannot read from the bus: connection closed'', k)"
| "refill (Chunk b # k) = (if b = [] then Inl ''cannot read from the bus: connection closed'' else Inr b, k)"

lemma refill_shorter: "refill k = (Inr b, k') \<Longrightarrow> length k' < length k \<and> b \<noteq> []"
  by (induction k rule: refill.induct) (auto split: if_splits)

text \<open>\<open>need\<close> bytes are missing, \<open>got\<close> are read; the result has the read buffer and the rest of the input.\<close>

function readn_loop :: "nat \<Rightarrow> string \<Rightarrow> string \<Rightarrow> sock_res list \<Rightarrow> (string + string) \<times> string \<times> sock_res list" where
  "readn_loop need got rbuf k =
     (if need = 0 then (Inr got, rbuf, k)
      else if rbuf \<noteq> [] then
        (let n = min need (length rbuf) in readn_loop (need - n) (got @ take n rbuf) (drop n rbuf) k)
      else case refill k of
             (Inl e, k') \<Rightarrow> (Inl e, [], k')
           | (Inr b, k') \<Rightarrow> readn_loop need got b k')"
  by auto
termination
  by (relation "measures [\<lambda>(need, got, rbuf, k). length k, \<lambda>(need, got, rbuf, k). need]")
    (auto dest!: refill_shorter [OF sym])

declare readn_loop.simps [simp del]

definition readn :: "nat \<Rightarrow> string \<Rightarrow> sock_res list \<Rightarrow> (string + string) \<times> string \<times> sock_res list" where
  "readn n rbuf k = readn_loop n [] rbuf k"

text \<open>A line without its end, read into \<open>bufsz\<close> bytes.\<close>

function read_line :: "nat \<Rightarrow> string \<Rightarrow> string \<Rightarrow> sock_res list \<Rightarrow> (string + string) \<times> string \<times> sock_res list" where
  "read_line bufsz got rbuf k =
     (if rbuf = [] then
        (case refill k of
           (Inl e, k') \<Rightarrow> (Inl e, [], k')
         | (Inr b, k') \<Rightarrow> read_line bufsz got b k')
      else let line = takeWhile (\<lambda>c. c \<noteq> CHR 0x0A) rbuf
           in if length got + length line \<ge> bufsz - 1 then (Inl ''bus sent an overlong line'', rbuf, k)
              else if length line < length rbuf then
                (let all = got @ line
                 in (Inr (if all \<noteq> [] \<and> last all = CHR 0x0D then butlast all else all), drop (length line + 1) rbuf, k))
              else read_line bufsz (got @ line) [] k)"
  by auto
termination
  by (relation "measures [\<lambda>(bufsz, got, rbuf, k). length k, \<lambda>(bufsz, got, rbuf, k). length rbuf]")
    (auto dest!: refill_shorter [OF sym])

declare read_line.simps [simp del]

section \<open>The reply header\<close>

record hdr_fields =
  hf_error :: "string option"
  hf_sig :: "string option"
  hf_serial :: nat

function skip_to :: "nat \<Rightarrow> nat \<Rightarrow> nat \<Rightarrow> nat" where
  "skip_to al fend fp = (if fp mod al \<noteq> 0 \<and> fp < fend then skip_to al fend (fp + 1) else fp)"
  by auto
termination
  by (relation "measure (\<lambda>(al, fend, fp). fend - fp)") auto

declare skip_to.simps [simp del]

definition u32_at :: "string \<Rightarrow> nat \<Rightarrow> nat" where
  "u32_at buf i = u32_of (of_char (buf ! i)) (of_char (buf ! (i + 1))) (of_char (buf ! (i + 2))) (of_char (buf ! (i + 3)))"

text \<open>
  One round of the loop over the fields: the next position and what was found. The inner \<open>None\<close> is the
  error, the outer one a read outside the buffer.
\<close>

definition header_field :: "string \<Rightarrow> nat \<Rightarrow> nat \<Rightarrow> hdr_fields \<Rightarrow> (nat \<times> hdr_fields) option option" where
  "header_field buf fend fp h =
     (let fp = skip_to 8 fend fp
      in if fp + 4 > fend \<or> of_char (buf ! (fp + 1)) \<noteq> (1::nat) \<or> buf ! (fp + 3) \<noteq> nul then Some None
         else
           let fcode = of_char (buf ! fp);
               fsig = buf ! (fp + 2);
               fp = (if fsig \<in> {CHR ''s'', CHR ''o'', CHR ''u''} then skip_to 4 fend (fp + 4) else fp + 4)
           in if fsig = CHR ''s'' \<or> fsig = CHR ''o'' then
                if fp + 4 > fend then Some None
                else let len = u32_at buf fp; fp = fp + 4
                     in if len > (fend - fp + 2 ^ 64 - 1) mod 2 ^ 64 then Some None
                        else if fp + len \<ge> length buf then None
                        else if buf ! (fp + len) \<noteq> nul then Some None
                        else let v = cstr (take len (drop fp buf))
                             in Some (Some (skip_to 4 fend (fp + len + 1),
                                  if fcode = FIELD_ERROR_NAME then h\<lparr>hf_error := Some v\<rparr>
                                  else if fcode = FIELD_SIGNATURE then h\<lparr>hf_sig := Some v\<rparr> else h))
              else if fsig = CHR ''u'' then
                if fp + 4 > fend then Some None
                else Some (Some (fp + 4, if fcode = FIELD_REPLY_SERIAL then h\<lparr>hf_serial := u32_at buf fp\<rparr> else h))
              else if fsig = CHR ''g'' then
                if fp + 1 > fend then Some None
                else let slen = of_char (buf ! fp); fp = fp + 1
                     in if fp + slen + 1 > fend then Some None
                        else Some (Some (fp + slen + 1,
                          if fcode = FIELD_SIGNATURE then h\<lparr>hf_sig := Some (cstr (take slen (drop fp buf)))\<rparr> else h))
              else Some None)"

lemma skip_to_ge: "fp \<le> skip_to al fend fp"
proof (induction al fend fp rule: skip_to.induct)
  case (1 al fend fp)
  then show ?case by (subst skip_to.simps) (auto intro: Suc_leD)
qed

lemma header_field_progress: "header_field buf fend fp h = Some (Some (fp', h')) \<Longrightarrow> fp < fp'"
  using skip_to_ge [of fp 8 fend] skip_to_ge [of "skip_to 8 fend fp + 4" 4 fend]
    skip_to_ge [of "skip_to 4 fend (skip_to 8 fend fp + 4) + 4 + u32_at buf (skip_to 4 fend (skip_to 8 fend fp + 4)) + 1" 4 fend]
  by (auto simp: header_field_def Let_def split: if_splits)

function header_loop :: "string \<Rightarrow> nat \<Rightarrow> nat \<Rightarrow> hdr_fields \<Rightarrow> (nat \<times> hdr_fields) option option" where
  "header_loop buf fend fp h =
     (if fp < fend then
        (case header_field buf fend fp h of
           None \<Rightarrow> None
         | Some None \<Rightarrow> Some None
         | Some (Some (fp', h')) \<Rightarrow> header_loop buf fend fp' h')
      else Some (Some (fp, h)))"
  by auto
termination
  by (relation "measure (\<lambda>(buf, fend, fp, h). fend - fp)") (auto dest!: header_field_progress)

declare header_loop.simps [simp del]

definition parse_header_fields :: "string \<Rightarrow> nat \<Rightarrow> nat \<Rightarrow> hdr_fields option option" where
  "parse_header_fields msg fpos flen =
     (case header_loop msg (fpos + flen) fpos \<lparr>hf_error = None, hf_sig = None, hf_serial = 0\<rparr> of
        None \<Rightarrow> None
      | Some None \<Rightarrow> Some None
      | Some (Some (fp, h)) \<Rightarrow> Some (if fp > length msg then None else Some h))"


section \<open>Calls\<close>

datatype call_res =
    CallOk dbus_value
  | CallError string string   \<comment> \<open>name and message of an error reply\<close>
  | CallFail string

text \<open>What one message from the bus means for the call with number \<open>serial\<close>; \<open>Inr ()\<close>: it was a signal.\<close>

definition handle_reply :: "nat \<Rightarrow> string \<Rightarrow> nat \<Rightarrow> nat \<Rightarrow> (call_res + unit) option" where
  "handle_reply serial buf fields_len hdr_pad =
     (case parse_header_fields buf 16 fields_len of
        None \<Rightarrow> None
      | Some None \<Rightarrow> Some (Inl (CallFail ''malformed reply header''))
      | Some (Some h) \<Rightarrow>
          (let type = of_char (buf ! 1) :: nat;
               r = \<lparr>rd_p = 16 + fields_len + hdr_pad, rd_end = length buf, rd_off = 0, rd_err = False\<rparr>
           in if type = 4 then Some (Inr ())
              else if type = 3 then
                map_option (\<lambda>(msg, r').
                    Inl (if rd_err r' \<or> rd_p r' \<noteq> rd_end r' then CallFail ''malformed error reply body''
                         else CallError (case hf_error h of Some n \<Rightarrow> n | None \<Rightarrow> ''org.lgmagic.Error.Failed'')
                                (case msg of Some m \<Rightarrow> m | None \<Rightarrow> [])))
                  (rd_str buf (rd_pad buf r 0 4))
              else if type \<noteq> 2 then Some (Inl (CallFail (''unexpected reply type '' @ show_dec (int type))))
              else if hf_serial h \<noteq> serial then
                Some (Inl (CallFail (''reply serial '' @ show_dec (int (hf_serial h)) @ '' does not match request '' @
                  show_dec (int serial))))
              else (case hf_sig h of
                      None \<Rightarrow> Some (Inl (CallOk DEmpty))
                    | Some sg \<Rightarrow>
                        if sg = [] then Some (Inl (CallOk DEmpty))
                        else map_option (\<lambda>(v, r').
                          Inl (case v of
                                 Some w \<Rightarrow>
                                   if rd_err r' \<or> rd_p r' \<noteq> rd_end r'
                                   then CallFail (''cannot parse the reply body (signature '' @ squote sg @ '')'')
                                   else CallOk w
                               | None \<Rightarrow> CallFail (''cannot parse the reply body (signature '' @ squote sg @ '')'')))
                          (rd_value buf r sg))))"

text \<open>The bytes that can still arrive.\<close>

fun pending :: "sock_res list \<Rightarrow> nat" where
  "pending [] = 0"
| "pending (Chunk b # k) = length b + pending k"
| "pending (_ # k) = pending k"

lemma refill_pending: "refill k = (Inr b, k') \<Longrightarrow> length b + pending k' = pending k"
  by (induction k rule: refill.induct) (auto split: if_splits)

lemma readn_loop_pending:
  "readn_loop need got rbuf k = (Inr b, rbuf', k') \<Longrightarrow>
   length rbuf' + pending k' + need = length rbuf + pending k"
proof (induction need got rbuf k rule: readn_loop.induct)
  case (1 need got rbuf k)
  show ?case
  proof (cases "need = 0 \<or> rbuf \<noteq> []")
    case True
    then show ?thesis
      using "1.IH"(1) "1.prems" by (subst (asm) (2) readn_loop.simps) (auto simp: Let_def split: if_splits)
  next
    case False
    then obtain c k1 where "refill k = (Inr c, k1)" "readn_loop need got c k1 = (Inr b, rbuf', k')"
      using "1.prems" by (subst (asm) readn_loop.simps) (auto split: prod.splits sum.splits)
    with "1.IH"(2) False refill_pending [of k c k1] show ?thesis by fastforce
  qed
qed

text \<open>The loop of \<^verbatim>\<open>bus_call\<close>: messages until the reply, with the read buffer and the input after it.\<close>

function reply_loop :: "nat \<Rightarrow> string \<Rightarrow> sock_res list \<Rightarrow> (call_res \<times> string \<times> sock_res list) option" where
  "reply_loop serial rbuf k =
     (case readn 16 rbuf k of
        (Inl e, rbuf1, k1) \<Rightarrow> Some (CallFail e, rbuf1, k1)
      | (Inr fixed, rbuf1, k1) \<Rightarrow>
          (let body_len = u32_at fixed 4; fields_len = u32_at fixed 12
           in if fixed ! 0 \<noteq> CHR ''l'' then Some (CallFail ''not a D-Bus reply (bad endian byte)'', rbuf1, k1)
              else if fields_len > MAX_MESSAGE \<or> body_len > MAX_MESSAGE \<or> 16 + fields_len + body_len > MAX_MESSAGE then
                Some (CallFail ''reply too large'', rbuf1, k1)
              else
                let hdr_pad = (8 - (16 + fields_len) mod 8) mod 8
                in case readn (fields_len + hdr_pad + body_len) rbuf1 k1 of
                     (Inl e, rbuf2, k2) \<Rightarrow> Some (CallFail e, rbuf2, k2)
                   | (Inr rest, rbuf2, k2) \<Rightarrow>
                       (case handle_reply serial (fixed @ rest) fields_len hdr_pad of
                          None \<Rightarrow> None
                        | Some (Inl res) \<Rightarrow> Some (res, rbuf2, k2)
                        | Some (Inr u) \<Rightarrow> reply_loop serial rbuf2 k2)))"
  by auto
termination
  by (relation "measure (\<lambda>(serial, rbuf, k). length rbuf + pending k)")
    (auto simp: readn_def dest!: readn_loop_pending [OF sym])

declare reply_loop.simps [simp del]

definition bus_call ::
  "string \<Rightarrow> string \<Rightarrow> string \<Rightarrow> string \<Rightarrow> string \<Rightarrow> dbus_arg list option \<Rightarrow> dbus_client \<Rightarrow> (call_res \<times> dbus_client) option" where
  "bus_call dest path iface method sig_in args c0 =
     (let c = c0\<lparr>cl_err_name := None, cl_err_msg := None\<rparr>
      in if cl_fd c < 0 then Some (CallFail ''not connected to the bus'', c)
         else if \<exists>t \<in> set sig_in. t \<noteq> CHR ''s'' \<and> t \<noteq> CHR ''d'' \<and> t \<noteq> CHR ''u'' then
           Some (CallFail (''unsupported input signature '' @ squote sig_in), c)
         else if sig_in \<noteq> [] \<and> args = None then
           Some (CallFail (''method call needs arguments for signature '' @ squote sig_in), c)
         else
           let c = c\<lparr>cl_serial := (cl_serial c + 1) mod 2 ^ 32\<rparr>
           in case build_call (cl_serial c) dest path iface method sig_in (case args of Some a \<Rightarrow> a | None \<Rightarrow> []) of
                None \<Rightarrow> None
              | Some None \<Rightarrow> Some (CallFail ''cannot marshal the method call'', c)
              | Some (Some msg) \<Rightarrow>
                  (case write_all msg (cl_sock c) of
                     (Some e, k) \<Rightarrow> Some (CallFail (''cannot write to the bus: '' @ e), c\<lparr>cl_sock := k\<rparr>)
                   | (None, k) \<Rightarrow>
                       map_option (\<lambda>(res, rbuf, kin).
                           (res, case res of
                              CallError n m \<Rightarrow> c\<lparr>cl_rbuf := rbuf, cl_sock := k\<lparr>sk_in := kin\<rparr>,
                                cl_err_name := Some n, cl_err_msg := Some m\<rparr>
                            | _ \<Rightarrow> c\<lparr>cl_rbuf := rbuf, cl_sock := k\<lparr>sk_in := kin\<rparr>\<rparr>))
                         (reply_loop (cl_serial c) (cl_rbuf c) (sk_in k))))"

definition dbus_call :: "string \<Rightarrow> string \<Rightarrow> dbus_arg list option \<Rightarrow> dbus_client \<Rightarrow> (call_res \<times> dbus_client) option" where
  "dbus_call method sig_in args c =
     bus_call ''org.lgmagic'' ''/org/lgmagic/Manager'' ''org.lgmagic.Manager'' method sig_in args c"

section \<open>Connecting\<close>

text \<open>
  \<^verbatim>\<open>pick_unix_socket\<close>: whether the socket is abstract, and its name. The list is the address cut at the
  semicolons.
\<close>

function split_addr :: "string \<Rightarrow> string list" where
  "split_addr p =
     (if p = [] then []
      else let a = takeWhile (\<lambda>c. c \<noteq> CHR '';'') p in a # split_addr (drop (length a + 1) p))"
  by auto
termination
  by (relation "measure length") auto

declare split_addr.simps [simp del]

fun pick_addr :: "string list \<Rightarrow> (bool \<times> string) option" where
  "pick_addr [] = None"
| "pick_addr (a # as) =
     (if length a > 10 \<and> take 10 a = ''unix:path='' then Some (False, takeWhile (\<lambda>c. c \<noteq> CHR '','') (drop 10 a))
      else if length a > 13 \<and> take 13 a = take 13 ''unix:abstract='' then
        Some (True, takeWhile (\<lambda>c. c \<noteq> CHR '','') (drop 13 a))
      else pick_addr as)"

definition pick_unix_socket :: "string \<Rightarrow> (bool \<times> string) option" where
  "pick_unix_socket address = pick_addr (split_addr address)"

text \<open>The bytes of \<^verbatim>\<open>sun_path\<close> (108 of them); \<open>None\<close>: the name does not fit and is copied all the same.\<close>

definition sun_path :: "bool \<Rightarrow> string \<Rightarrow> string option" where
  "sun_path abstract path =
     (if length path + 1 > 108 then None else Some (if abstract then nul # path else path @ [nul]))"

definition hex_digits :: string where "hex_digits = ''0123456789abcdef''"

definition auth_line :: "nat \<Rightarrow> string" where
  "auth_line uid =
     nul # ''AUTH EXTERNAL '' @
     concat (map (\<lambda>c. [hex_digits ! ((of_char c div 16) mod 16), hex_digits ! (of_char c mod 16)]) (show_dec (int uid))) @
     [CHR 0x0D, CHR 0x0A]"

text \<open>
  The environment: \<^verbatim>\<open>DBUS_SYSTEM_BUS_ADDRESS\<close>, the user id, the results of \<^verbatim>\<open>socket\<close> and \<^verbatim>\<open>connect\<close>
  (for the bytes of \<^verbatim>\<open>sun_path\<close>) and the traffic of the connection.
\<close>

record conn_env =
  ce_addr :: "string option"
  ce_uid :: nat
  ce_socket :: "string + int"
  ce_connect :: "string \<Rightarrow> string option"
  ce_sock :: sock

definition client_zero :: dbus_client where
  "client_zero = \<lparr>cl_fd = - 1, cl_serial = 0, cl_rbuf = [], cl_err_name = None, cl_err_msg = None,
     cl_sock = \<lparr>sk_in = [], sk_wr = [], sk_out = []\<rparr>\<rparr>"

definition say_hello :: "dbus_client \<Rightarrow> (string option \<times> dbus_client) option" where
  "say_hello c = map_option (\<lambda>(res, c').
     (case res of
        CallOk v \<Rightarrow> None
      | CallError n m \<Rightarrow> Some (''the bus rejected Hello: '' @ n @ '' ('' @ m @ '')'')
      | CallFail e \<Rightarrow> Some e, c'))
     (bus_call ''org.freedesktop.DBus'' ''/org/freedesktop/DBus'' ''org.freedesktop.DBus'' ''Hello'' [] None c)"

definition dbus_auth :: "nat \<Rightarrow> dbus_client \<Rightarrow> (string option \<times> dbus_client) option" where
  "dbus_auth uid c = (case write_all (auth_line uid) (cl_sock c) of
       (Some e, k) \<Rightarrow> Some (Some (''cannot talk to the bus: '' @ e), c\<lparr>cl_sock := k\<rparr>)
     | (None, k) \<Rightarrow>
         (case read_line 512 [] (cl_rbuf c) (sk_in k) of
            (Inl e, rbuf, kin) \<Rightarrow> Some (Some e, c\<lparr>cl_rbuf := rbuf, cl_sock := k\<lparr>sk_in := kin\<rparr>\<rparr>)
          | (Inr line0, rbuf, kin) \<Rightarrow>
              let line = cstr line0; c = c\<lparr>cl_rbuf := rbuf, cl_sock := k\<lparr>sk_in := kin\<rparr>\<rparr>
              in if take 3 line \<noteq> ''OK '' then
                   Some (Some (if take 8 line = ''REJECTED'' then ''the bus rejected authentication (EXTERNAL)''
                               else ''unexpected bus authentication response: '' @ line), c)
                 else case write_all (''BEGIN'' @ [CHR 0x0D, CHR 0x0A]) (cl_sock c) of
                        (Some e, k2) \<Rightarrow> Some (Some (''cannot talk to the bus: '' @ e), c\<lparr>cl_sock := k2\<rparr>)
                      | (None, k2) \<Rightarrow> say_hello (c\<lparr>cl_sock := k2\<rparr>)))"

definition dbus_connect :: "conn_env \<Rightarrow> string option \<Rightarrow> (string option \<times> dbus_client) option" where
  "dbus_connect env address =
     (let a = (case address of Some x \<Rightarrow> Some x | None \<Rightarrow> ce_addr env);
          addr = (if a = None \<or> a = Some [] then ''unix:path=/run/dbus/system_bus_socket'' else the a)
      in case pick_unix_socket addr of
           None \<Rightarrow> Some (Some (''unsupported bus address '' @ squote addr @ '' (only unix sockets)''), client_zero)
         | Some (abstract, path) \<Rightarrow>
             if path = [] \<or> length path \<ge> 512 then
               Some (Some (''unsupported bus address '' @ squote addr @ '' (only unix sockets)''), client_zero)
             else case ce_socket env of
                    Inl e \<Rightarrow> Some (Some (''cannot create a socket: '' @ e), client_zero)
                  | Inr fd \<Rightarrow>
                      (case sun_path abstract path of
                         None \<Rightarrow> None
                       | Some sun \<Rightarrow>
                           (case ce_connect env sun of
                              Some e \<Rightarrow> Some (Some (''cannot connect to the bus at '' @ path @ '': '' @ e), client_zero)
                            | None \<Rightarrow>
                                map_option (\<lambda>(e, c). (e, if e = None then c else c\<lparr>cl_fd := - 1\<rparr>))
                                  (dbus_auth (ce_uid env) (client_zero\<lparr>cl_fd := fd, cl_sock := ce_sock env\<rparr>)))))"

text \<open>The structure is cleared; what was sent stays sent.\<close>

definition dbus_disconnect :: "dbus_client \<Rightarrow> dbus_client" where
  "dbus_disconnect c = client_zero\<lparr>cl_sock := cl_sock c\<rparr>"

end
