(* ===== verification/Dbus_Heap.thy ===== *)
theory Dbus_Heap
  imports Dbus_Client Blocks
begin

text \<open>
  The values of D-Bus replies (\<^verbatim>\<open>tools/src/dbus_client.c\<close>) as the blocks the code allocates: \<^verbatim>\<open>rd_value\<close> with every allocation
  allowed to fail, and \<^verbatim>\<open>dbus_value_free\<close>. A value that is returned is the one of \<^const>\<open>rd_value\<close> and is released whole; a
  value that breaks off is released before its type is set, which frees the node alone.
\<close>

section \<open>Nodes\<close>

text \<open>\<^verbatim>\<open>struct dbus_value\<close> without the two numbers, which no reply sets.\<close>

datatype dbus_value_type = DBUS_VALUE_EMPTY | DBUS_VALUE_STRING | DBUS_VALUE_STRING_ARRAY | DBUS_VALUE_VARIANT

record dbus_node =
  dn_type :: dbus_value_type
  dn_str :: ptr
  dn_items :: ptr
  dn_n :: nat
  dn_sig :: ptr
  dn_var :: ptr

type_synonym dbus_memory = "dbus_node memory"

definition dbus_zero :: dbus_node where
  "dbus_zero = \<lparr>dn_type = DBUS_VALUE_EMPTY, dn_str = None, dn_items = None, dn_n = 0, dn_sig = None, dn_var = None\<rparr>"

section \<open>Release\<close>

fun free_strings :: "ptr \<Rightarrow> nat list \<Rightarrow> dbus_memory \<Rightarrow> dbus_memory option" where
  "free_strings items [] s = Some s"
| "free_strings items (i # is) s = do { p \<leftarrow> read_ptr items i s; s \<leftarrow> mem_free p s; free_strings items is s }"

text \<open>The first argument bounds the depth; the value of a variant is a string.\<close>

fun dbus_value_free :: "nat \<Rightarrow> ptr \<Rightarrow> dbus_memory \<Rightarrow> dbus_memory option"
and value_free_inner :: "nat \<Rightarrow> nat \<Rightarrow> dbus_memory \<Rightarrow> dbus_memory option"
where
  "dbus_value_free 0 p s = None"
| "dbus_value_free (Suc f) None s = Some s"
| "dbus_value_free (Suc f) (Some a) s = do { s \<leftarrow> value_free_inner f a s; mem_free (Some a) s }"
| "value_free_inner f a s = do {
     n \<leftarrow> read_node a s;
     case dn_type n of
       DBUS_VALUE_STRING \<Rightarrow> mem_free (dn_str n) s
     | DBUS_VALUE_STRING_ARRAY \<Rightarrow> do { s \<leftarrow> free_strings (dn_items n) [0..<dn_n n] s; mem_free (dn_items n) s }
     | DBUS_VALUE_VARIANT \<Rightarrow> do { s \<leftarrow> mem_free (dn_sig n) s; dbus_value_free f (dn_var n) s }
     | DBUS_VALUE_EMPTY \<Rightarrow> Some s }"

section \<open>Reading a value\<close>

text \<open>
  \<^verbatim>\<open>malloc\<close> stands between the tests of \<^const>\<open>rd_str\<close> and its last steps. The padding after the string never sets the error, so the
  \<^verbatim>\<open>free\<close> behind it is never reached.
\<close>

definition rd_str_at :: "string \<Rightarrow> rd \<Rightarrow> dbus_memory \<Rightarrow> (ptr \<times> rd \<times> dbus_memory) option" where
  "rd_str_at buf r s = (case rd_str buf r of
     None \<Rightarrow> None
   | Some (None, r') \<Rightarrow> Some (None, r', s)
   | Some (Some t, r') \<Rightarrow>
       (case mem_alloc (Text t) s of
          (None, s) \<Rightarrow> Some (None, (snd (rd_u32 buf r))\<lparr>rd_err := True\<rparr>, s)
        | (p, s) \<Rightarrow> Some (p, r', s)))"

definition set_field :: "nat \<Rightarrow> (dbus_node \<Rightarrow> dbus_node) \<Rightarrow> dbus_memory \<Rightarrow> dbus_memory option" where
  "set_field a f s = do { n \<leftarrow> read_node a s; mem_put a (Node (f n)) s }"

text \<open>The loop over the strings; the result says whether it reached the end of the array.\<close>

function rd_strings_at :: "string \<Rightarrow> rd \<Rightarrow> nat \<Rightarrow> dbus_memory \<Rightarrow> (bool \<times> rd \<times> dbus_memory) option" where
  "rd_strings_at buf ar v s =
     (if rd_p ar \<ge> rd_end ar then Some (True, ar, s)
      else case rd_str_at buf ar s of
             None \<Rightarrow> None
           | Some (str, ar', s) \<Rightarrow>
               if rd_err ar' then do { s \<leftarrow> mem_free str s; Some (False, ar', s) }
               else do {
                 n \<leftarrow> read_node v s;
                 (items, s) \<leftarrow> realloc_ptrs (dn_items n) (dn_n n + 1) s;
                 s \<leftarrow> mem_put v (Node (n\<lparr>dn_items := items\<rparr>)) s;
                 if items = None then do { s \<leftarrow> mem_free str s; Some (False, ar', s) }
                 else do {
                   s \<leftarrow> put_ptr items (dn_n n) str s;
                   s \<leftarrow> mem_put v (Node (n\<lparr>dn_items := items, dn_n := dn_n n + 1\<rparr>)) s;
                   rd_strings_at buf ar' v s } })"
  by auto
termination
proof (relation "measure (\<lambda>(buf, ar, v, s). rd_end ar - rd_p ar)", goal_cases)
  case (2 buf ar v s z str y ar' s')
  then have "rd_str_at buf ar s = Some (str, ar', s')" by simp
  then obtain t where "rd_str buf ar = Some (t, ar') \<or> rd_err ar'"
    by (auto simp: rd_str_at_def split: option.splits prod.splits)
  then show ?case using 2 rd_str_progress [of buf ar t ar'] by auto
qed simp

declare rd_strings_at.simps [simp del]

text \<open>\<^verbatim>\<open>goto fail\<close>: the type is still \<^const>\<open>DBUS_VALUE_EMPTY\<close>.\<close>

definition rd_fail :: "nat \<Rightarrow> rd \<Rightarrow> dbus_memory \<Rightarrow> (ptr \<times> rd \<times> dbus_memory) option" where
  "rd_fail v r s = do { s \<leftarrow> value_free_inner 1 v s; s \<leftarrow> mem_free (Some v) s; Some (None, r, s) }"

definition rd_value_at :: "string \<Rightarrow> rd \<Rightarrow> string \<Rightarrow> dbus_memory \<Rightarrow> (ptr \<times> rd \<times> dbus_memory) option" where
  "rd_value_at buf r sg s = (case mem_alloc (Node dbus_zero) s of
     (None, s) \<Rightarrow> Some (None, r\<lparr>rd_err := True\<rparr>, s)
   | (Some v, s) \<Rightarrow>
     (if sg = ''s'' then do {
        (str, r, s) \<leftarrow> rd_str_at buf (rd_pad buf r 0 4) s;
        s \<leftarrow> set_field v (\<lambda>n. n\<lparr>dn_str := str\<rparr>) s;
        if rd_err r then rd_fail v r s
        else do { s \<leftarrow> set_field v (\<lambda>n. n\<lparr>dn_type := DBUS_VALUE_STRING\<rparr>) s; Some (Some v, r, s) } }
      else if sg = ''as'' then
        (case rd_u32 buf (rd_pad buf r 0 4) of (alen, r) \<Rightarrow>
           if rd_err r \<or> alen > rd_end r - rd_p r then rd_fail v (r\<lparr>rd_err := True\<rparr>) s
           else do {
             (ok, ar, s) \<leftarrow> rd_strings_at buf \<lparr>rd_p = rd_p r, rd_end = rd_p r + alen, rd_off = 0, rd_err = False\<rparr> v s;
             if \<not> ok then rd_fail v (r\<lparr>rd_err := True\<rparr>) s
             else do {
               s \<leftarrow> set_field v (\<lambda>n. n\<lparr>dn_type := DBUS_VALUE_STRING_ARRAY\<rparr>) s;
               Some (Some v, r\<lparr>rd_p := rd_p ar, rd_off := rd_off r + alen\<rparr>, s) } })
      else if sg = ''v'' then
        (case rd_u8 buf r of (slen, r) \<Rightarrow>
           if rd_err r \<or> slen = 0 \<or> slen \<ge> 17 \<or> rd_p r + slen + 1 > rd_end r then rd_fail v (r\<lparr>rd_err := True\<rparr>) s
           else let inner = cstr (take slen (drop (rd_p r) buf));
                    r = snd (rd_u8 buf (r\<lparr>rd_p := rd_p r + slen, rd_off := rd_off r + slen\<rparr>))
                in if inner \<noteq> ''s'' then rd_fail v (r\<lparr>rd_err := True\<rparr>) s
                   else let r = rd_pad buf r 0 4 in (case mem_alloc (Text inner) s of (g, s) \<Rightarrow> (case mem_alloc (Node dbus_zero) s of (w, s) \<Rightarrow> do {
                     s \<leftarrow> set_field v (\<lambda>n. n\<lparr>dn_sig := g, dn_var := w\<rparr>) s;
                     case w of
                       None \<Rightarrow> rd_fail v (r\<lparr>rd_err := True\<rparr>) s
                     | Some w \<Rightarrow> do {
                         (str, r, s) \<leftarrow> rd_str_at buf r s;
                         s \<leftarrow> set_field w (\<lambda>n. n\<lparr>dn_str := str\<rparr>) s;
                         if rd_err r \<or> g = None then rd_fail v r s
                         else do {
                           s \<leftarrow> set_field w (\<lambda>n. n\<lparr>dn_type := DBUS_VALUE_STRING\<rparr>) s;
                           s \<leftarrow> set_field v (\<lambda>n. n\<lparr>dn_type := DBUS_VALUE_VARIANT\<rparr>) s;
                           Some (Some v, r, s) } } })))
      else rd_fail v (r\<lparr>rd_err := True\<rparr>) s))"

section \<open>Values in the heap\<close>

definition texts_at :: "dbus_node blocks \<Rightarrow> ptr list \<Rightarrow> string list \<Rightarrow> nat set \<Rightarrow> bool" where
  "texts_at h ps ts C \<longleftrightarrow> distinct ps \<and> C = {x. Some x \<in> set ps} \<and> list_all2 (\<lambda>p t. \<exists>x. p = Some x \<and> h x = Some (Text t)) ps ts"

fun dbus_at :: "dbus_node blocks \<Rightarrow> nat \<Rightarrow> dbus_value \<Rightarrow> nat set \<Rightarrow> bool" where
  "dbus_at h a DEmpty B \<longleftrightarrow> (\<exists>n. h a = Some (Node n) \<and> dn_type n = DBUS_VALUE_EMPTY \<and> B = {a})"
| "dbus_at h a (DString t) B \<longleftrightarrow> (\<exists>n p. h a = Some (Node n) \<and> dn_type n = DBUS_VALUE_STRING \<and> dn_str n = Some p \<and> h p = Some (Text t) \<and> B = {a, p})"
| "dbus_at h a (DStrings ts) B \<longleftrightarrow> (\<exists>n ps I C. h a = Some (Node n) \<and> dn_type n = DBUS_VALUE_STRING_ARRAY \<and> ptrs_at h (dn_items n) ps I \<and>
     dn_n n = length ps \<and> texts_at h ps ts C \<and> a \<notin> I \<union> C \<and> I \<inter> C = {} \<and> B = {a} \<union> I \<union> C)"
| "dbus_at h a (DVariant g t) B \<longleftrightarrow> (\<exists>n p w m q. h a = Some (Node n) \<and> dn_type n = DBUS_VALUE_VARIANT \<and> dn_sig n = Some p \<and> h p = Some (Text g) \<and>
     dn_var n = Some w \<and> h w = Some (Node m) \<and> dn_type m = DBUS_VALUE_STRING \<and> dn_str m = Some q \<and> h q = Some (Text t) \<and>
     a \<noteq> w \<and> p \<noteq> q \<and> B = {a, p, w, q})"

lemma texts_at_frame: "texts_at h ps ts C \<Longrightarrow> (\<And>x. x \<in> C \<Longrightarrow> h' x = h x) \<Longrightarrow> texts_at h' ps ts C"
  unfolding texts_at_def by (auto simp: list_all2_conv_all_nth) (metis nth_mem)

lemma dbus_at_frame:
  assumes "dbus_at h a v B" and "\<And>x. x \<in> B \<Longrightarrow> h' x = h x"
  shows "dbus_at h' a v B"
proof (cases v)
  case (DStrings ts)
  with assms(1) obtain n ps I C where n: "h a = Some (Node n)" "dn_type n = DBUS_VALUE_STRING_ARRAY" "ptrs_at h (dn_items n) ps I"
      "dn_n n = length ps" "texts_at h ps ts C" "a \<notin> I \<union> C" "I \<inter> C = {}" "B = {a} \<union> I \<union> C"
    by auto
  have "ptrs_at h' (dn_items n) ps I" "texts_at h' ps ts C" "h' a = Some (Node n)"
    using assms(2) n by (auto intro: ptrs_at_frame [OF n(3)] texts_at_frame [OF n(5)])
  then show ?thesis unfolding DStrings dbus_at.simps using n by blast
qed (use assms in auto)

lemma texts_at_dom: "texts_at h ps ts C \<Longrightarrow> C \<subseteq> dom h \<and> length ps = length ts"
  by (auto simp: texts_at_def list_all2_conv_all_nth in_set_conv_nth)

lemma dbus_at_dom: "dbus_at h a v B \<Longrightarrow> a \<in> B \<and> B \<subseteq> dom h"
proof (cases v)
  case (DStrings ts)
  assume "dbus_at h a v B"
  then show ?thesis unfolding DStrings dbus_at.simps using ptrs_at_dom texts_at_dom by blast
qed auto

lemma texts_at_Cons:
  assumes "texts_at h (p # ps) ts C"
  obtains x t ts' where "p = Some x" "h x = Some (Text t)" "ts = t # ts'" "texts_at h ps ts' (C - {x})" "x \<in> C"
  using assms by (auto simp: texts_at_def list_all2_Cons1)

lemma free_strings_ok:
  assumes "mem_ok s" and "texts_at (m_heap s) ps ts C" and "ptrs_at (m_heap s) p (qs @ ps) I" and "I \<inter> C = {}"
  shows "\<exists>s'. free_strings p [length qs..<length (qs @ ps)] s = Some s' \<and> moves C s {} s'"
  using assms
proof (induction ps arbitrary: s qs ts C)
  case Nil
  then show ?case by (simp add: texts_at_def moves_refl)
next
  case (Cons q ps)
  from Cons.prems(2) obtain x t ts' where x: "q = Some x" "m_heap s x = Some (Text t)" "ts = t # ts'" "texts_at (m_heap s) ps ts' (C - {x})" "x \<in> C"
    by (rule texts_at_Cons)
  obtain s1 where s1: "mem_free (Some x) s = Some s1" "moves {x} s {} s1" using free_moves [OF Cons.prems(1), of x] x(2) by blast
  have dom: "C - {x} \<subseteq> dom (m_heap s)" using texts_at_dom [OF x(4)] by simp
  have t1: "texts_at (m_heap s1) ps ts' (C - {x})" using dom by (intro texts_at_frame [OF x(4)] moves_same [OF s1(2)]) auto
  have p1: "ptrs_at (m_heap s1) p ((qs @ [q]) @ ps) I" using ptrs_at_moves [OF Cons.prems(3) s1(2)] Cons.prems(4) x(5) by auto
  obtain s2 where s2: "free_strings p [length (qs @ [q])..<length ((qs @ [q]) @ ps)] s1 = Some s2" "moves (C - {x}) s1 {} s2"
    using Cons.IH [OF moves_ok(1) [OF s1(2)] t1 p1] Cons.prems(4) by blast
  have "moves ({x} \<union> (C - {x})) s {} s2" using moves_gone [OF s1(2) s2(2) dom] by simp
  moreover have "{x} \<union> (C - {x}) = C" using x(5) by auto
  moreover have "[length qs..<length (qs @ q # ps)] = length qs # [length (qs @ [q])..<length ((qs @ [q]) @ ps)]"
    by (simp add: upt_conv_Cons del: upt_Suc)
  ultimately show ?case using s1(1) s2(1) read_ptr_at [OF Cons.prems(3)] x(1) by (simp del: length_append)
qed

text \<open>Two blocks one after the other.\<close>

lemma free_two:
  assumes "mem_ok s" and "x \<in> dom (m_heap s)" and "y \<in> dom (m_heap s)" and "x \<noteq> y"
  obtains s1 s2 where "mem_free (Some x) s = Some s1" "mem_free (Some y) s1 = Some s2" "moves {x, y} s {} s2" "m_heap s1 = (m_heap s)(x := None)"
proof -
  from free_moves [OF assms(1,2)] obtain s1 where s1: "mem_free (Some x) s = Some s1" "moves {x} s {} s1" "m_heap s1 = (m_heap s)(x := None)" by blast
  have "y \<in> dom (m_heap s1)" using s1(3) assms(3,4) by auto
  from free_moves [OF moves_ok(1) [OF s1(2)] this] obtain s2 where s2: "mem_free (Some y) s1 = Some s2" "moves {y} s1 {} s2" by blast
  have "moves ({x} \<union> {y}) s {} s2" using moves_gone [OF s1(2) s2(2)] assms(3,4) by auto
  then show ?thesis using that s1 s2(1) by (simp add: insert_commute)
qed

lemma dbus_value_free_ok:
  assumes "mem_ok s" and "dbus_at (m_heap s) a v B"
  shows "\<exists>s'. dbus_value_free 3 (Some a) s = Some s' \<and> moves B s {} s'"
proof (cases v)
  case DEmpty
  then obtain n where n: "m_heap s a = Some (Node n)" "dn_type n = DBUS_VALUE_EMPTY" "B = {a}" using assms(2) by auto
  then show ?thesis using free_moves [OF assms(1), of a] by (fastforce simp: numeral_3_eq_3 read_node_at)
next
  case (DString t)
  then obtain n p where n: "m_heap s a = Some (Node n)" "dn_type n = DBUS_VALUE_STRING" "dn_str n = Some p" "m_heap s p = Some (Text t)" "B = {a, p}"
    using assms(2) by auto
  have "p \<noteq> a" using n(1,4) by auto
  then obtain s1 s2 where "mem_free (Some p) s = Some s1" "mem_free (Some a) s1 = Some s2" "moves {p, a} s {} s2"
    using free_two [OF assms(1), of p a] n(1,4) by blast
  then show ?thesis using n by (simp add: numeral_3_eq_3 read_node_at insert_commute)
next
  case (DStrings ts)
  then obtain n ps I C where n: "m_heap s a = Some (Node n)" "dn_type n = DBUS_VALUE_STRING_ARRAY" "ptrs_at (m_heap s) (dn_items n) ps I"
      "dn_n n = length ps" "texts_at (m_heap s) ps ts C" "a \<notin> I \<union> C" "I \<inter> C = {}" "B = {a} \<union> I \<union> C"
    using assms(2) by auto
  obtain s1 where s1: "free_strings (dn_items n) [0..<dn_n n] s = Some s1" "moves C s {} s1"
    using free_strings_ok [OF assms(1) n(5), of "dn_items n" "[]" I] n(3,4,7) by auto
  have p1: "ptrs_at (m_heap s1) (dn_items n) ps I" by (rule ptrs_at_moves [OF n(3) s1(2) n(7)])
  obtain s2 where s2: "mem_free (dn_items n) s1 = Some s2" "moves I s1 {} s2" using free_block [OF moves_ok(1) [OF s1(2)] p1] by blast
  have m2: "moves (C \<union> I) s {} s2" using moves_gone [OF s1(2) s2(2)] ptrs_at_dom [OF n(3)] n(7) by auto
  have "a \<in> dom (m_heap s2)" using cell_moves [OF n(1) m2] n(6) by auto
  from free_moves [OF moves_ok(1) [OF m2] this] obtain s3 where s3: "mem_free (Some a) s2 = Some s3" "moves {a} s2 {} s3" by blast
  have "moves ((C \<union> I) \<union> {a}) s {} s3" using moves_gone [OF m2 s3(2)] n(1,6) by auto
  moreover have "(C \<union> I) \<union> {a} = B" using n(8) by auto
  ultimately show ?thesis using s1(1) s2(1) s3(1) n(2) by (simp add: numeral_3_eq_3 read_node_at [OF n(1)])
next
  case (DVariant g t)
  then obtain n p w m q where n: "m_heap s a = Some (Node n)" "dn_type n = DBUS_VALUE_VARIANT" "dn_sig n = Some p" "m_heap s p = Some (Text g)"
      "dn_var n = Some w" "m_heap s w = Some (Node m)" "dn_type m = DBUS_VALUE_STRING" "dn_str m = Some q" "m_heap s q = Some (Text t)"
      "a \<noteq> w" "p \<noteq> q" "B = {a, p, w, q}"
    using assms(2) by auto
  have ne: "p \<noteq> a" "p \<noteq> w" "q \<noteq> a" "q \<noteq> w" using n by auto
  from free_two [OF assms(1), of p q] n(4,9,11) obtain s1 s2
    where s1: "mem_free (Some p) s = Some s1" "mem_free (Some q) s1 = Some s2" "moves {p, q} s {} s2" "m_heap s1 = (m_heap s)(p := None)" by blast
  have "w \<in> dom (m_heap s2)" "a \<in> dom (m_heap s2)" using cell_moves [OF n(6) s1(3)] cell_moves [OF n(1) s1(3)] ne by auto
  from free_two [OF moves_ok(1) [OF s1(3)] this] n(10) obtain s3 s4
    where s3: "mem_free (Some w) s2 = Some s3" "mem_free (Some a) s3 = Some s4" "moves {w, a} s2 {} s4" by metis
  have "moves ({p, q} \<union> {w, a}) s {} s4" using moves_gone [OF s1(3) s3(3)] n(1,6) ne by auto
  moreover have "{p, q} \<union> {w, a} = B" using n(12) by auto
  moreover have "m_heap s1 w = Some (Node m)" using s1(4) n(6) ne by simp
  ultimately show ?thesis using s1(1,2) s3(1,2) n(2,3,5,7,8) by (simp add: numeral_3_eq_3 read_node_at [OF n(1)] read_node_at)
qed

lemma dbus_free_dead: "m_heap s a = None \<Longrightarrow> dbus_value_free f (Some a) s = None"
  by (cases f) (simp_all add: read_node_def)

interpretation dbus_tree: owned_tree dbus_at "dbus_value_free 3" "\<lambda>v. True"
proof unfold_locales
  show "\<exists>s'. dbus_value_free 3 (Some a) s = Some s' \<and> moves B s {} s'" if "mem_ok s" "dbus_at (m_heap s) a v B" for s a v B
    by (rule dbus_value_free_ok [OF that])
qed (auto intro: dbus_at_frame dbus_free_dead dest: dbus_at_dom)

section \<open>Reading into memory\<close>

lemma rd_str_cases:
  assumes "mem_ok s" and "rd_str buf r = Some (t, r')"
  obtains (none) r1 s' where "rd_str_at buf r s = Some (None, r1, s')" "rd_err r1" "moves {} s {} s'" "m_heap s' = m_heap s"
      "m_outcomes s = [] \<longrightarrow> t = None"
  | (some) b u s' where "rd_str_at buf r s = Some (Some b, r', s')" "t = Some u" "\<not> rd_err r'" "moves {} s {b} s'"
      "m_heap s' = (m_heap s)(b \<mapsto> Text u)" "b \<notin> dom (m_heap s)"
proof (cases t)
  case None
  then have "rd_err r'" using assms(2) by (auto simp: rd_str_def Let_def split: prod.splits if_splits)
  then show ?thesis using none [of r' s] None assms by (simp add: rd_str_at_def moves_refl)
next
  case (Some u)
  then have err: "\<not> rd_err r'" using assms(2) by (auto simp: rd_str_def Let_def split: prod.splits if_splits)
  from assms(1) show ?thesis
  proof (cases rule: alloc_moves [where c = "Text u"])
    case (fail s')
    then show ?thesis using none [of "(snd (rd_u32 buf r))\<lparr>rd_err := True\<rparr>" s'] Some assms(2) by (simp add: rd_str_at_def)
  next
    case (new b s')
    then show ?thesis using some [of b s' u] Some assms(2) err by (simp add: rd_str_at_def)
  qed
qed

text \<open>The value under construction: a node of type \<^const>\<open>DBUS_VALUE_EMPTY\<close> with the strings so far.\<close>

definition growing :: "dbus_node blocks \<Rightarrow> nat \<Rightarrow> string list \<Rightarrow> nat set \<Rightarrow> bool" where
  "growing h v ts B \<longleftrightarrow> (\<exists>n ps I C. h v = Some (Node n) \<and> dn_type n = DBUS_VALUE_EMPTY \<and> ptrs_at h (dn_items n) ps I \<and>
     dn_n n = length ps \<and> texts_at h ps ts C \<and> v \<notin> I \<union> C \<and> I \<inter> C = {} \<and> B = {v} \<union> I \<union> C)"

text \<open>One string more in the array.\<close>

lemma strings_step:
  assumes "mem_ok s" and "growing (m_heap s) v ts B" and "m_heap s b = Some (Text u)" and "b \<notin> B"
  obtains (full) L s1 s' n where "read_node v s = Some n" "realloc_ptrs (dn_items n) (dn_n n + 1) s = Some (None, s1)"
      "do { s \<leftarrow> mem_put v (Node (n\<lparr>dn_items := None\<rparr>)) s1; mem_free (Some b) s } = Some s'" "moves (insert b B) s L s'" "v \<in> L"
      "\<exists>m. m_heap s' v = Some (Node m) \<and> dn_type m = DBUS_VALUE_EMPTY" "m_outcomes s \<noteq> []"
  | (more) n q s1 B' s' where "read_node v s = Some n" "realloc_ptrs (dn_items n) (dn_n n + 1) s = Some (Some q, s1)"
      "do { s \<leftarrow> mem_put v (Node (n\<lparr>dn_items := Some q\<rparr>)) s1; s \<leftarrow> put_ptr (Some q) (dn_n n) (Some b) s;
            mem_put v (Node (n\<lparr>dn_items := Some q, dn_n := dn_n n + 1\<rparr>)) s } = Some s'"
      "moves (insert b B) s B' s'" "growing (m_heap s') v (ts @ [u]) B'"
proof -
  from assms(2) obtain n ps I C where n: "m_heap s v = Some (Node n)" "dn_type n = DBUS_VALUE_EMPTY" "ptrs_at (m_heap s) (dn_items n) ps I"
      "dn_n n = length ps" "texts_at (m_heap s) ps ts C" "v \<notin> I \<union> C" "I \<inter> C = {}" "B = {v} \<union> I \<union> C"
    unfolding growing_def by blast
  have dom: "insert b B \<subseteq> dom (m_heap s)" using n(1,8) ptrs_at_dom [OF n(3)] texts_at_dom [OF n(5)] assms(3) by auto
  note m0 = moves_refl [OF assms(1) dom]
  from assms(1) n(3) show ?thesis
  proof (cases rule: realloc_grow)
    case f: (fail s1)
    have m1: "moves (insert b B) s (insert b B - {} \<union> {}) s1" by (rule moves_in [OF m0 f(2)]) simp
    obtain s2 where s2: "mem_put v (Node (n\<lparr>dn_items := None\<rparr>)) s1 = Some s2" "moves {v} s1 {v} s2" "m_heap s2 = (m_heap s1)(v \<mapsto> Node (n\<lparr>dn_items := None\<rparr>))"
      using put_moves [OF moves_ok(1) [OF f(2)], of v] n(1) f(4) by (metis domI)
    have m2: "moves (insert b B) s (insert b B - {} \<union> {} - {v} \<union> {v}) s2" by (rule moves_in [OF m1 s2(2)]) (use n(8) in auto)
    have bv: "b \<noteq> v" using assms(4) n(8) by auto
    obtain s3 where s3: "mem_free (Some b) s2 = Some s3" "moves {b} s2 {} s3" "m_heap s3 = (m_heap s2)(b := None)"
      using free_moves [OF moves_ok(1) [OF s2(2)], of b] s2(3) f(4) assms(3) by (metis domI fun_upd_other bv)
    have "moves (insert b B) s (insert b B - {} \<union> {} - {v} \<union> {v} - {b} \<union> {}) s3" by (rule moves_in [OF m2 s3(2)]) simp
    then show ?thesis
      using full [of n s1 s3] f(1,3) n(1,2,4,8) s2(1,3) s3(1,3) bv by (simp add: read_node_at)
  next
    case mv: (moved q xs s1)
    have m1: "moves (insert b B) s (insert b B - I \<union> {q}) s1" by (rule moves_in [OF m0 mv(2)]) (use n(8) in auto)
    have F: "{v, b} \<union> C \<subseteq> dom (m_heap s)" "({v, b} \<union> C) \<inter> I = {}" using dom n(6-8) assms(4) by blast+
    have q: "q \<notin> {v, b} \<union> C" using moves_disjoint [OF mv(2) F] by simp
    have cells: "m_heap s1 x = m_heap s x" if "x \<in> {v, b} \<union> C" for x using moves_same [OF mv(2)] that F by blast
    obtain s2 where s2: "mem_put v (Node (n\<lparr>dn_items := Some q\<rparr>)) s1 = Some s2" "moves {v} s1 {v} s2"
        "m_heap s2 = (m_heap s1)(v \<mapsto> Node (n\<lparr>dn_items := Some q\<rparr>))"
      using put_moves [OF moves_ok(1) [OF mv(2)], of v] n(1) cells [of v] by (metis domI insertI1 Un_iff)
    have xs2: "m_heap s2 q = Some (Ptrs xs)" using s2(3) mv(3) q by simp
    obtain s3 where s3: "put_ptr (Some q) (length ps) (Some b) s2 = Some s3" "moves {q} s2 {q} s3" "m_heap s3 = (m_heap s2)(q \<mapsto> Ptrs (xs[length ps := Some b]))"
      using put_ptr_moves [OF moves_ok(1) [OF s2(2)] xs2, of "length ps" "Some b"] mv(4) by auto
    define n' where "n' = n\<lparr>dn_items := Some q, dn_n := dn_n n + 1\<rparr>"
    have "v \<in> dom (m_heap s3)" using s2(3) s3(3) by auto
    from put_moves [OF moves_ok(1) [OF s3(2)] this] obtain s4
      where s4: "mem_put v (Node n') s3 = Some s4" "moves {v} s3 {v} s4" "m_heap s4 = (m_heap s3)(v \<mapsto> Node n')" by blast
    have "moves (insert b B) s (insert b B - I \<union> {q} - {v} \<union> {v} - {q} \<union> {q} - {v} \<union> {v}) s4"
      by (rule moves_in [OF moves_in [OF moves_in [OF m1 s2(2)] s3(2)] s4(2)]) (use n(6,8) in auto)
    moreover have "insert b B - I \<union> {q} - {v} \<union> {v} - {q} \<union> {q} - {v} \<union> {v} = {v} \<union> {q} \<union> insert b C"
      using n(6-8) assms(4) q F by auto
    ultimately have m4: "moves (insert b B) s ({v} \<union> {q} \<union> insert b C) s4" by simp
    have bC: "b \<notin> C" "b \<noteq> v" using assms(4) n(8) by auto
    have keep: "m_heap s4 x = m_heap s x" if "x \<in> insert b C" for x
      using that cells [of x] q s2(3) s3(3) s4(3) bC n(6) by auto
    have "texts_at (m_heap s4) ps ts C" using keep by (intro texts_at_frame [OF n(5)]) auto
    then have "texts_at (m_heap s4) (ps @ [Some b]) (ts @ [u]) (insert b C)"
      using bC keep [of b] assms(3) unfolding texts_at_def by (auto intro: list_all2_appendI)
    moreover have "xs[length ps := Some b] = ps @ [Some b]"
      using mv(4,5) by (cases xs rule: rev_cases) (auto simp: list_update_append)
    ultimately have "growing (m_heap s4) v (ts @ [u]) ({v} \<union> {q} \<union> insert b C)"
      unfolding growing_def using n(2,4,6) q s3(3) s4(3) bC(2)
      by (intro exI [of _ n'] exI [of _ "ps @ [Some b]"] exI [of _ "{q}"] exI [of _ "insert b C"]) (auto simp: n'_def ptrs_at_def)
    moreover have "do { s \<leftarrow> mem_put v (Node (n\<lparr>dn_items := Some q\<rparr>)) s1; s \<leftarrow> put_ptr (Some q) (dn_n n) (Some b) s;
        mem_put v (Node (n\<lparr>dn_items := Some q, dn_n := dn_n n + 1\<rparr>)) s } = Some s4"
      using s2(1) s3(1) s4(1) n(4) by (simp add: n'_def)
    ultimately show ?thesis using more [of n q s1 s4] m4 mv(1) n(1,4) by (simp add: read_node_at)
  qed
qed

lemma rd_str_None: "rd_str buf r = Some (None, r') \<Longrightarrow> rd_err r'"
  by (auto simp: rd_str_def Let_def split: prod.splits if_splits)

lemma growing_frame:
  assumes "growing h v ts B" and "\<And>x. x \<in> B \<Longrightarrow> h' x = h x"
  shows "growing h' v ts B"
proof -
  from assms(1) obtain n ps I C where n: "h v = Some (Node n)" "dn_type n = DBUS_VALUE_EMPTY" "ptrs_at h (dn_items n) ps I"
      "dn_n n = length ps" "texts_at h ps ts C" "v \<notin> I \<union> C" "I \<inter> C = {}" "B = {v} \<union> I \<union> C"
    unfolding growing_def by blast
  have "ptrs_at h' (dn_items n) ps I" "texts_at h' ps ts C" "h' v = Some (Node n)"
    using assms(2) n(1,8) by (auto intro: ptrs_at_frame [OF n(3)] texts_at_frame [OF n(5)])
  then show ?thesis unfolding growing_def using n by blast
qed

lemma strings_at_ok:
  assumes "mem_ok s" and "growing (m_heap s) v items B" and "rd_strings buf ar items = Some (ts, ar1)"
  shows "(\<exists>ar2 L s'. rd_strings_at buf ar v s = Some (False, ar2, s') \<and> moves B s L s' \<and> v \<in> L \<and>
            (\<exists>m. m_heap s' v = Some (Node m) \<and> dn_type m = DBUS_VALUE_EMPTY) \<and> (m_outcomes s = [] \<longrightarrow> ts = None)) \<or>
         (\<exists>us B' s'. rd_strings_at buf ar v s = Some (True, ar1, s') \<and> ts = Some us \<and> moves B s B' s' \<and> growing (m_heap s') v us B')"
  using assms
proof (induction buf ar items arbitrary: s B rule: rd_strings.induct)
  case (1 buf ar items)
  have dom: "B \<subseteq> dom (m_heap s)"
    using "1.prems"(2) ptrs_at_dom texts_at_dom unfolding growing_def by blast
  have vB: "v \<in> B" "\<exists>m. m_heap s v = Some (Node m) \<and> dn_type m = DBUS_VALUE_EMPTY" using "1.prems"(2) unfolding growing_def by blast+
  show ?case
  proof (cases "rd_p ar \<ge> rd_end ar")
    case True
    then have "ts = Some items" "ar1 = ar" using "1.prems"(3) by (simp_all add: rd_strings.simps [of buf ar items])
    then show ?thesis using True "1.prems"(2) moves_refl [OF "1.prems"(1) dom] by (subst (1 2) rd_strings_at.simps) auto
  next
    case loop: False
    then obtain t ar' where str: "rd_str buf ar = Some (t, ar')"
      using "1.prems"(3) by (auto simp: rd_strings.simps [of buf ar items] split: option.splits)
    from "1.prems"(1) str show ?thesis
    proof (cases rule: rd_str_cases)
      case (none r1 s')
      have "rd_strings_at buf ar v s = Some (False, r1, s')"
        using loop none(1,2) by (simp add: rd_strings_at.simps [of buf ar v s] mem_free_def)
      moreover have "moves B s B s'" using moves_frame [OF none(3), of B] dom by simp
      moreover have "m_outcomes s = [] \<longrightarrow> ts = None"
        using none(5) str "1.prems"(3) loop rd_str_None by (auto simp: rd_strings.simps [of buf ar items])
      ultimately show ?thesis using vB none(4) by auto
    next
      case (some b u s1)
      have m1: "moves B s (insert b B) s1" using moves_frame [OF some(4), of B] dom by simp
      have bB: "b \<notin> B" using some(6) dom by auto
      have g1: "growing (m_heap s1) v items B" using some(5) bB by (intro growing_frame [OF "1.prems"(2)]) auto
      have b1: "m_heap s1 b = Some (Text u)" using some(5) by simp
      note red = rd_strings_at.simps [of buf ar v s] some(1)
      from moves_ok(1) [OF m1] g1 b1 bB show ?thesis
      proof (cases rule: strings_step)
        case (full L s2 s3 n)
        then obtain s4 where "mem_put v (Node (n\<lparr>dn_items := None\<rparr>)) s2 = Some s4" "mem_free (Some b) s4 = Some s3"
          by (auto simp: bind_eq_Some_conv)
        then have "rd_strings_at buf ar v s = Some (False, ar', s3)" using loop some(3) full(1,2) by (simp add: red)
        moreover have "m_outcomes s \<noteq> []" using full(7) movesD(9) [OF some(4)] by blast
        ultimately show ?thesis using moves_trans [OF m1 full(4)] full(5,6) by blast
      next
        case (more n q s2 B' s3)
        then obtain s4 s5 where "mem_put v (Node (n\<lparr>dn_items := Some q\<rparr>)) s2 = Some s4" "put_ptr (Some q) (dn_n n) (Some b) s4 = Some s5"
            "mem_put v (Node (n\<lparr>dn_items := Some q, dn_n := dn_n n + 1\<rparr>)) s5 = Some s3"
          by (auto simp: bind_eq_Some_conv)
        then have eq: "rd_strings_at buf ar v s = rd_strings_at buf ar' v s3" using loop some(3) more(1,2) by (simp add: red)
        have m3: "moves B s B' s3" by (rule moves_trans [OF m1 more(4)])
        have "rd_strings buf ar' (items @ [case t of Some t \<Rightarrow> t | None \<Rightarrow> []]) = Some (ts, ar1)"
          using "1.prems"(3) loop str some(3) by (simp add: rd_strings.simps [of buf ar items])
        from "1.IH" [OF loop str refl some(3) moves_ok(1) [OF m3] _ this, of B'] more(5) some(2)
        show ?thesis unfolding eq using moves_trans [OF m3] movesD(9) [OF m3] by fastforce
      qed
    qed
  qed
qed

lemma set_field_ok:
  assumes "moves A s0 B s" and "v \<in> B" and "m_heap s v = Some (Node n)"
  obtains s' where "set_field v f s = Some s'" "moves A s0 B s'" "m_heap s' = (m_heap s)(v \<mapsto> Node (f n))"
proof -
  obtain s' where s': "mem_put v (Node (f n)) s = Some s'" "moves {v} s {v} s'" "m_heap s' = (m_heap s)(v \<mapsto> Node (f n))"
    using put_moves [OF moves_ok(1) [OF assms(1)], of v] assms(3) by blast
  have "moves A s0 (B - {v} \<union> {v}) s'" by (rule moves_in [OF assms(1) s'(2)]) (use assms(2) in simp)
  then show ?thesis using that [of s'] s' assms(2,3) by (simp add: set_field_def read_node_at insert_absorb)
qed

text \<open>Giving up only returns the node.\<close>

lemma rd_fail_ok:
  assumes "moves {} s0 L s" and "v \<in> L" and "m_heap s v = Some (Node n)" and "dn_type n = DBUS_VALUE_EMPTY"
  shows "\<exists>s'. rd_fail v r s = Some (None, r, s') \<and> m_heap s0 \<subseteq>\<^sub>m m_heap s'"
proof -
  obtain s' where s': "mem_free (Some v) s = Some s'" "moves {v} s {} s'"
    using free_moves [OF moves_ok(1) [OF assms(1)], of v] assms(3) by blast
  have "moves {} s0 (L - {v} \<union> {}) s'" by (rule moves_in [OF assms(1) s'(2)]) (use assms(2) in simp)
  then show ?thesis using moves_keeps s'(1) assms(3,4) by (auto simp: rd_fail_def read_node_at)
qed

text \<open>What \<^verbatim>\<open>rd_value\<close> may return when the reader without memory returns \<open>ov\<close>.\<close>

definition read_ok :: "dbus_memory \<Rightarrow> dbus_value option \<Rightarrow> rd \<Rightarrow> (ptr \<times> rd \<times> dbus_memory) option \<Rightarrow> bool" where
  "read_ok s ov r1 res \<longleftrightarrow> (\<exists>out r2 s'. res = Some (out, r2, s') \<and> (case out of
     None \<Rightarrow> m_heap s \<subseteq>\<^sub>m m_heap s' \<and> (m_outcomes s = [] \<longrightarrow> ov = None)
   | Some a \<Rightarrow> r2 = r1 \<and> (\<exists>v B. ov = Some v \<and> dbus_at (m_heap s') a v B \<and> moves {} s B s')))"

lemma read_ok_fail:
  assumes "moves {} s0 L s" and "v \<in> L" and "\<exists>n. m_heap s v = Some (Node n) \<and> dn_type n = DBUS_VALUE_EMPTY" and "m_outcomes s0 = [] \<longrightarrow> ov = None"
  shows "read_ok s0 ov r1 (rd_fail v r s)"
  using rd_fail_ok [OF assms(1,2)] assms(3,4) by (fastforce simp: read_ok_def)

lemma read_ok_value: "dbus_at (m_heap s') a v B \<Longrightarrow> moves {} s B s' \<Longrightarrow> read_ok s (Some v) r (Some (Some a, r, s'))"
  unfolding read_ok_def by (simp, blast)

lemma read_string_ok:
  assumes "moves {} s0 {v} s" and "m_heap s v = Some (Node dbus_zero)" and "rd_str buf r = Some (t, r1)"
  shows "read_ok s0 (if rd_err r1 then None else map_option DString t) r1 (do {
        (str, r, s) \<leftarrow> rd_str_at buf r s;
        s \<leftarrow> set_field v (\<lambda>n. n\<lparr>dn_str := str\<rparr>) s;
        if rd_err r then rd_fail v r s
        else do { s \<leftarrow> set_field v (\<lambda>n. n\<lparr>dn_type := DBUS_VALUE_STRING\<rparr>) s; Some (Some v, r, s) } })"
  using moves_ok(1) [OF assms(1)] assms(3)
proof (cases rule: rd_str_cases)
  case (none r2 s1)
  have m1: "moves {} s0 ({v} - {} \<union> {}) s1" by (rule moves_in [OF assms(1) none(3)]) simp
  obtain s2 where s2: "set_field v (\<lambda>n. n\<lparr>dn_str := None\<rparr>) s1 = Some s2" "moves {} s0 {v} s2"
      "m_heap s2 = (m_heap s1)(v \<mapsto> Node (dbus_zero\<lparr>dn_str := None\<rparr>))"
    by (rule set_field_ok [of "{}" s0 "{v}" s1 v dbus_zero]) (use m1 none(4) assms(2) in auto)
  have "read_ok s0 (if rd_err r1 then None else map_option DString t) r1 (rd_fail v r2 s2)"
    using none(5) movesD(9) [OF assms(1)] by (intro read_ok_fail [OF s2(2)]) (auto simp: s2(3) dbus_zero_def)
  then show ?thesis using none(1,2) s2(1) by simp
next
  case (some b u s1)
  have bv: "b \<noteq> v" using some(6) assms(2) by auto
  have m1: "moves {} s0 ({v} - {} \<union> {b}) s1" by (rule moves_in [OF assms(1) some(4)]) simp
  obtain s2 where s2: "set_field v (\<lambda>n. n\<lparr>dn_str := Some b\<rparr>) s1 = Some s2" "moves {} s0 {v, b} s2"
      "m_heap s2 = (m_heap s1)(v \<mapsto> Node (dbus_zero\<lparr>dn_str := Some b\<rparr>))"
    by (rule set_field_ok [of "{}" s0 "{v, b}" s1 v dbus_zero]) (use m1 some(5) assms(2) bv in \<open>auto simp: insert_commute\<close>)
  obtain s3 where s3: "set_field v (\<lambda>n. n\<lparr>dn_type := DBUS_VALUE_STRING\<rparr>) s2 = Some s3" "moves {} s0 {v, b} s3"
      "m_heap s3 = (m_heap s2)(v \<mapsto> Node (dbus_zero\<lparr>dn_str := Some b, dn_type := DBUS_VALUE_STRING\<rparr>))"
    by (rule set_field_ok [OF s2(2)]) (use s2(3) in auto)
  have "dbus_at (m_heap s3) v (DString u) {v, b}" using s3(3) s2(3) some(5) bv by simp
  then show ?thesis using some(1-3) s2(1) s3(1,2) by (auto simp: read_ok_def)
qed

lemma read_strings_ok:
  assumes "moves {} s0 {v} s" and "m_heap s v = Some (Node dbus_zero)" and "rd_strings buf ar [] = Some (ts, ar1)"
  shows "read_ok s0 (map_option DStrings ts) (f ar1) (do {
             (ok, ar, s) \<leftarrow> rd_strings_at buf ar v s;
             if \<not> ok then rd_fail v r s
             else do { s \<leftarrow> set_field v (\<lambda>n. n\<lparr>dn_type := DBUS_VALUE_STRING_ARRAY\<rparr>) s; Some (Some v, f ar, s) } })"
proof -
  have g: "growing (m_heap s) v [] {v}"
    using assms(2) unfolding growing_def by (auto simp: dbus_zero_def ptrs_at_def texts_at_def)
  from strings_at_ok [OF moves_ok(1) [OF assms(1)] g assms(3)] show ?thesis
  proof (elim disjE exE conjE)
    fix ar2 L s' m
    assume a: "rd_strings_at buf ar v s = Some (False, ar2, s')" "moves {v} s L s'" "v \<in> L" "m_heap s' v = Some (Node m)"
      "dn_type m = DBUS_VALUE_EMPTY" "m_outcomes s = [] \<longrightarrow> ts = None"
    then have "read_ok s0 (map_option DStrings ts) (f ar1) (rd_fail v r s')"
      using movesD(9) [OF assms(1)] by (intro read_ok_fail [OF moves_trans [OF assms(1) a(2)]]) auto
    then show ?thesis using a(1) by simp
  next
    fix us B' s'
    assume a: "rd_strings_at buf ar v s = Some (True, ar1, s')" "ts = Some us" "moves {v} s B' s'" "growing (m_heap s') v us B'"
    then obtain n ps I C where n: "m_heap s' v = Some (Node n)" "dn_type n = DBUS_VALUE_EMPTY" "ptrs_at (m_heap s') (dn_items n) ps I"
      "dn_n n = length ps" "texts_at (m_heap s') ps us C" "v \<notin> I \<union> C" "I \<inter> C = {}" "B' = {v} \<union> I \<union> C"
      unfolding growing_def by blast
    define n' where "n' = n\<lparr>dn_type := DBUS_VALUE_STRING_ARRAY\<rparr>"
    obtain s2 where s2: "set_field v (\<lambda>n. n\<lparr>dn_type := DBUS_VALUE_STRING_ARRAY\<rparr>) s' = Some s2" "moves {} s0 B' s2"
        "m_heap s2 = (m_heap s')(v \<mapsto> Node n')"
      unfolding n'_def by (rule set_field_ok [OF moves_trans [OF assms(1) a(3)] _ n(1)]) (use n(8) in auto)
    have "ptrs_at (m_heap s2) (dn_items n) ps I" "texts_at (m_heap s2) ps us C"
      using s2(3) n(6) by (auto intro: ptrs_at_frame [OF n(3)] texts_at_frame [OF n(5)])
    then have "dbus_at (m_heap s2) v (DStrings us) B'"
      using s2(3) n(4,6-8) by (auto simp: n'_def)
    from read_ok_value [OF this s2(2)] show ?thesis using a(1,2) s2(1) by simp
  qed
qed

lemma alloc_any:
  assumes "mem_ok s"
  obtains p s' where "mem_alloc c s = (p, s')" "moves {} s (set_option p) s'" "p = None \<longrightarrow> m_outcomes s \<noteq> []"
    "m_heap s' = (case p of None \<Rightarrow> m_heap s | Some a \<Rightarrow> (m_heap s)(a \<mapsto> c))" "set_option p \<inter> dom (m_heap s) = {}"
  using assms
proof (cases rule: alloc_moves [where c = c])
  case (fail s')
  then show ?thesis using that [of None s'] by simp
next
  case (new a s')
  then show ?thesis using that [of "Some a" s'] by simp
qed

lemma read_variant_ok:
  assumes "moves {} s0 {v} s" and "m_heap s v = Some (Node dbus_zero)" and "rd_str buf r = Some (t, r1)"
  shows "read_ok s0 (if rd_err r1 then None else map_option (DVariant inner) t) r1
    (case mem_alloc (Text inner) s of (g, s) \<Rightarrow> (case mem_alloc (Node dbus_zero) s of (w, s) \<Rightarrow> do {
                     s \<leftarrow> set_field v (\<lambda>n. n\<lparr>dn_sig := g, dn_var := w\<rparr>) s;
                     case w of
                       None \<Rightarrow> rd_fail v (r\<lparr>rd_err := True\<rparr>) s
                     | Some w \<Rightarrow> do {
                         (str, r, s) \<leftarrow> rd_str_at buf r s;
                         s \<leftarrow> set_field w (\<lambda>n. n\<lparr>dn_str := str\<rparr>) s;
                         if rd_err r \<or> g = None then rd_fail v r s
                         else do {
                           s \<leftarrow> set_field w (\<lambda>n. n\<lparr>dn_type := DBUS_VALUE_STRING\<rparr>) s;
                           s \<leftarrow> set_field v (\<lambda>n. n\<lparr>dn_type := DBUS_VALUE_VARIANT\<rparr>) s;
                           Some (Some v, r, s) } } }))"
proof -
  obtain g s1 where g: "mem_alloc (Text inner) s = (g, s1)" "moves {} s (set_option g) s1" "g = None \<longrightarrow> m_outcomes s \<noteq> []"
      "m_heap s1 = (case g of None \<Rightarrow> m_heap s | Some a \<Rightarrow> (m_heap s)(a \<mapsto> Text inner))" "set_option g \<inter> dom (m_heap s) = {}"
    by (rule alloc_any [OF moves_ok(1) [OF assms(1)]])
  obtain w s2 where w: "mem_alloc (Node dbus_zero) s1 = (w, s2)" "moves {} s1 (set_option w) s2" "w = None \<longrightarrow> m_outcomes s1 \<noteq> []"
      "m_heap s2 = (case w of None \<Rightarrow> m_heap s1 | Some a \<Rightarrow> (m_heap s1)(a \<mapsto> Node dbus_zero))" "set_option w \<inter> dom (m_heap s1) = {}"
    by (rule alloc_any [OF moves_ok(1) [OF g(2)]])
  have m2: "moves {} s0 ({v} - {} \<union> set_option g - {} \<union> set_option w) s2"
    by (rule moves_in [OF moves_in [OF assms(1) g(2)] w(2)]) simp_all
  have vg: "v \<notin> set_option g" using g(5) assms(2) by auto
  then have v1: "m_heap s1 v = Some (Node dbus_zero)" using g(4) assms(2) by (auto split: option.splits)
  then have vw: "v \<notin> set_option w" using w(5) by auto
  then have v2: "m_heap s2 v = Some (Node dbus_zero)" using w(4) v1 by (auto split: option.splits)
  define n where "n = dbus_zero\<lparr>dn_sig := g, dn_var := w\<rparr>"
  obtain s3 where s3: "set_field v (\<lambda>n. n\<lparr>dn_sig := g, dn_var := w\<rparr>) s2 = Some s3" "moves {} s0 ({v} \<union> set_option g \<union> set_option w) s3"
      "m_heap s3 = (m_heap s2)(v \<mapsto> Node n)"
    unfolding n_def by (rule set_field_ok [OF m2 _ v2]) auto
  have out: "m_outcomes s0 \<noteq> []" if "g = None \<or> w = None"
    using that g(3) w(3) movesD(9) [OF assms(1)] movesD(9) [OF g(2)] by auto
  show ?thesis
  proof (cases w)
    case None
    have "read_ok s0 (if rd_err r1 then None else map_option (DVariant inner) t) r1 (rd_fail v (r\<lparr>rd_err := True\<rparr>) s3)"
      using out None by (intro read_ok_fail [OF s3(2)]) (auto simp: s3(3) n_def dbus_zero_def)
    then show ?thesis using g(1) w(1) s3(1) None by simp
  next
    case (Some x)
    have x3: "m_heap s3 x = Some (Node dbus_zero)" "x \<noteq> v" using s3(3) w(4) Some vw by auto
    note red = g(1) w(1) s3(1) Some
    from moves_ok(1) [OF s3(2)] assms(3) show ?thesis
    proof (cases rule: rd_str_cases)
      case (none r2 s4)
      have m4: "moves {} s0 ({v} \<union> set_option g \<union> set_option w - {} \<union> {}) s4" by (rule moves_in [OF s3(2) none(3)]) simp
      obtain s5 where s5: "set_field x (\<lambda>n. n\<lparr>dn_str := None\<rparr>) s4 = Some s5" "moves {} s0 ({v} \<union> set_option g \<union> set_option w) s5"
          "m_heap s5 = (m_heap s4)(x \<mapsto> Node (dbus_zero\<lparr>dn_str := None\<rparr>))"
        by (rule set_field_ok [of "{}" s0 "{v} \<union> set_option g \<union> set_option w" s4 x dbus_zero]) (use m4 none(4) x3 Some in auto)
      have "m_outcomes s0 = [] \<longrightarrow> t = None" using none(5) movesD(9) [OF s3(2)] by blast
      then have "read_ok s0 (if rd_err r1 then None else map_option (DVariant inner) t) r1 (rd_fail v r2 s5)"
        using x3(2) none(4) by (intro read_ok_fail [OF s5(2)]) (auto simp: s5(3) s3(3) n_def dbus_zero_def)
      then show ?thesis using red none(1,2) s5(1) by simp
    next
      case (some b u s4)
      have m4: "moves {} s0 ({v} \<union> set_option g \<union> set_option w - {} \<union> {b}) s4" by (rule moves_in [OF s3(2) some(4)]) simp
      have bx: "b \<noteq> x" "b \<noteq> v" "b \<notin> set_option g" using some(6) x3 movesD(5) [OF s3(2)] by auto
      define O1 where "O1 = {v, b} \<union> set_option g \<union> set_option w"
      have "{v} \<union> set_option g \<union> set_option w - {} \<union> {b} = O1" by (auto simp: O1_def)
      note m4' = m4 [unfolded this]
      obtain s5 where s5: "set_field x (\<lambda>n. n\<lparr>dn_str := Some b\<rparr>) s4 = Some s5" "moves {} s0 O1 s5"
          "m_heap s5 = (m_heap s4)(x \<mapsto> Node (dbus_zero\<lparr>dn_str := Some b\<rparr>))"
        by (rule set_field_ok [OF m4', of x dbus_zero]) (use some(5) x3 Some bx in \<open>auto simp: O1_def\<close>)
      have v5: "m_heap s5 v = Some (Node n)" using s5(3) some(5) s3(3) x3(2) bx by auto
      show ?thesis
      proof (cases g)
        case None
        have "read_ok s0 (if rd_err r1 then None else map_option (DVariant inner) t) r1 (rd_fail v r1 s5)"
          using out None v5 by (intro read_ok_fail [OF s5(2)]) (auto simp: O1_def n_def dbus_zero_def)
        then show ?thesis using red some(1) s5(1) None by simp
      next
        case y: (Some y)
        obtain s6 where s6: "set_field x (\<lambda>n. n\<lparr>dn_type := DBUS_VALUE_STRING\<rparr>) s5 = Some s6" "moves {} s0 O1 s6"
            "m_heap s6 = (m_heap s5)(x \<mapsto> Node (dbus_zero\<lparr>dn_str := Some b, dn_type := DBUS_VALUE_STRING\<rparr>))"
          by (rule set_field_ok [OF s5(2), of x]) (use s5(3) Some in \<open>auto simp: O1_def\<close>)
        obtain s7 where s7: "set_field v (\<lambda>n. n\<lparr>dn_type := DBUS_VALUE_VARIANT\<rparr>) s6 = Some s7" "moves {} s0 O1 s7"
            "m_heap s7 = (m_heap s6)(v \<mapsto> Node (n\<lparr>dn_type := DBUS_VALUE_VARIANT\<rparr>))"
          by (rule set_field_ok [OF s6(2), of v n]) (use s6(3) v5 x3(2) in \<open>auto simp: O1_def\<close>)
        have yx: "y \<noteq> x" "y \<noteq> v" using w(5) g(4) vg y Some by auto
        have "m_heap s7 y = Some (Text inner)"
          using s7(3) s6(3) s5(3) some(5) s3(3) w(4) g(4) y Some yx bx by auto
        then have "dbus_at (m_heap s7) v (DVariant inner u) O1"
          using s7(3) s6(3) s5(3) some(5) x3(2) bx y Some yx by (auto simp: n_def O1_def)
        from read_ok_value [OF this s7(2)] show ?thesis
          using red some(1-3) s5(1) s6(1) s7(1) y by simp
      qed
    qed
  qed
qed

lemma rd_value_at_ok:
  assumes "mem_ok s" and "rd_value buf r sg = Some (ov, r1)"
  shows "read_ok s ov r1 (rd_value_at buf r sg s)"
  using assms(1)
proof (cases rule: alloc_moves [where c = "Node dbus_zero"])
  case (fail s')
  then show ?thesis by (simp add: rd_value_at_def read_ok_def)
next
  case (new v s0)
  have v: "m_heap s0 v = Some (Node dbus_zero)" using new(3) by simp
  have giveup: "read_ok s None q (rd_fail v q' s0)" for q q'
    using v by (intro read_ok_fail [OF new(2)]) (auto simp: dbus_zero_def)
  note red = rd_value_at_def new(1)
  consider (s) "sg = ''s''" | (as) "sg = ''as''" | (v) "sg = ''v''" | (other) "sg \<noteq> ''s''" "sg \<noteq> ''as''" "sg \<noteq> ''v''" by blast
  then show ?thesis
  proof cases
    case s
    then obtain t where t: "rd_str buf (rd_pad buf r 0 4) = Some (t, r1)" "ov = (if rd_err r1 then None else map_option DString t)"
      using assms(2) by (auto simp: rd_value_def)
    show ?thesis unfolding t(2) using read_string_ok [OF new(2) v t(1)] s by (simp add: red)
  next
    case as
    obtain alen q where q: "rd_u32 buf (rd_pad buf r 0 4) = (alen, q)" by fastforce
    show ?thesis
    proof (cases "rd_err q \<or> alen > rd_end q - rd_p q")
      case True
      then have "ov = None" using assms(2) as q by (auto simp: rd_value_def)
      then show ?thesis using giveup as q True by (auto simp: red)
    next
      case False
      define ar where "ar = \<lparr>rd_p = rd_p q, rd_end = rd_p q + alen, rd_off = 0, rd_err = False\<rparr>"
      have eq: "map_option (\<lambda>(items, ar). case items of None \<Rightarrow> (None, q\<lparr>rd_err := True\<rparr>)
          | Some xs \<Rightarrow> (Some (DStrings xs), q\<lparr>rd_p := rd_p ar, rd_off := rd_off q + alen\<rparr>)) (rd_strings buf ar []) = Some (ov, r1)"
        using assms(2) as q False by (simp add: rd_value_def ar_def)
      then obtain ts ar1 where st: "rd_strings buf ar [] = Some (ts, ar1)" by auto
      have ts: "rd_strings buf \<lparr>rd_p = rd_p q, rd_end = rd_p q + alen, rd_off = 0, rd_err = False\<rparr> [] = Some (ts, ar1)"
          "ov = map_option DStrings ts" "r1 = (case ts of None \<Rightarrow> q\<lparr>rd_err := True\<rparr> | Some _ \<Rightarrow> q\<lparr>rd_p := rd_p ar1, rd_off := rd_off q + alen\<rparr>)"
        using st eq by (cases ts; simp add: ar_def)+
      have "read_ok s (map_option DStrings ts) (q\<lparr>rd_p := rd_p ar1, rd_off := rd_off q + alen\<rparr>) (rd_value_at buf r sg s)"
        using read_strings_ok [OF new(2) v ts(1), of "\<lambda>ar. q\<lparr>rd_p := rd_p ar, rd_off := rd_off q + alen\<rparr>" "q\<lparr>rd_err := True\<rparr>"] as q False
        by (simp add: red)
      then show ?thesis unfolding ts(2,3) by (cases ts) (auto simp: read_ok_def split: option.splits)
    qed
  next
    case v': v
    obtain slen q where q: "rd_u8 buf r = (slen, q)" by fastforce
    define inner where "inner = cstr (take slen (drop (rd_p q) buf))"
    define q2 where "q2 = snd (rd_u8 buf (q\<lparr>rd_p := rd_p q + slen, rd_off := rd_off q + slen\<rparr>))"
    consider (bad) "rd_err q \<or> slen = 0 \<or> slen \<ge> 17 \<or> rd_p q + slen + 1 > rd_end q"
      | (odd) "\<not> (rd_err q \<or> slen = 0 \<or> slen \<ge> 17 \<or> rd_p q + slen + 1 > rd_end q)" "inner \<noteq> ''s''"
      | (good) "\<not> (rd_err q \<or> slen = 0 \<or> slen \<ge> 17 \<or> rd_p q + slen + 1 > rd_end q)" "inner = ''s''" by blast
    then show ?thesis
    proof cases
      case bad
      then have "ov = None" using assms(2) v' q by (auto simp: rd_value_def)
      then show ?thesis using giveup v' q bad by (auto simp: red)
    next
      case odd
      then have "ov = None" using assms(2) v' q by (auto simp: rd_value_def Let_def inner_def [symmetric])
      then show ?thesis using giveup v' q odd by (simp add: red Let_def inner_def [symmetric])
    next
      case good
      then obtain t where t: "rd_str buf (rd_pad buf q2 0 4) = Some (t, r1)" "ov = (if rd_err r1 then None else map_option (DVariant inner) t)"
        using assms(2) v' q by (auto simp: rd_value_def Let_def inner_def [symmetric] q2_def [symmetric])
      show ?thesis
        unfolding t(2) using read_variant_ok [OF new(2) v t(1), of inner] v' q good
        by (simp add: red Let_def inner_def [symmetric] q2_def [symmetric])
    qed
  next
    case other
    then have "ov = None" using assms(2) by (simp add: rd_value_def)
    then show ?thesis using giveup other by (simp add: red)
  qed
qed

text \<open>
  C34: whatever allocations fail, reading a value of a reply touches only new blocks; a value that is returned is the one of the
  reader without memory, with its position, and \<^verbatim>\<open>dbus_value_free\<close> releases it whole.
\<close>

theorem rd_value_memory:
  assumes "mem_ok s" and "rd_value buf r sg = Some (ov, r1)"
  shows "\<exists>out r2 s'. rd_value_at buf r sg s = Some (out, r2, s') \<and> (case out of
     None \<Rightarrow> m_heap s \<subseteq>\<^sub>m m_heap s' \<and> (m_outcomes s = [] \<longrightarrow> ov = None)
   | Some a \<Rightarrow> r2 = r1 \<and> (\<exists>v s''. ov = Some v \<and> dbus_value_free 3 (Some a) s' = Some s'' \<and> m_heap s'' = m_heap s))"
proof -
  have "read_ok s ov r1 (rd_value_at buf r sg s)" by (rule rd_value_at_ok [OF assms])
  then obtain out r2 s' where o: "rd_value_at buf r sg s = Some (out, r2, s')" "case out of
     None \<Rightarrow> m_heap s \<subseteq>\<^sub>m m_heap s' \<and> (m_outcomes s = [] \<longrightarrow> ov = None)
   | Some a \<Rightarrow> r2 = r1 \<and> (\<exists>v B. ov = Some v \<and> dbus_at (m_heap s') a v B \<and> moves {} s B s')"
    unfolding read_ok_def by blast
  show ?thesis
  proof (cases out)
    case None
    then show ?thesis using o by simp
  next
    case (Some a)
    with o(2) obtain v B where v: "r2 = r1" "ov = Some v" "dbus_at (m_heap s') a v B" "moves {} s B s'" by auto
    from dbus_tree.built_released [OF v(4,3)] show ?thesis using o(1) Some v(1,2) by auto
  qed
qed

theorem rd_value_memory_witness:
  "\<exists>out r2 s'. rd_value_at ([CHR 0x01, CHR 0x00, CHR 0x00, CHR 0x00] @ ''a'' @ [CHR 0x00]) \<lparr>rd_p = 0, rd_end = 6, rd_off = 0, rd_err = False\<rparr> ''s'' mem_empty =
       Some (out, r2, s') \<and> (case out of
     None \<Rightarrow> False
   | Some a \<Rightarrow> \<exists>s''. dbus_value_free 3 (Some a) s' = Some s'' \<and> m_heap s'' = m_heap mem_empty)"
proof -
  define r where "r = \<lparr>rd_p = 0, rd_end = 6, rd_off = 0, rd_err = False\<rparr>"
  define buf where "buf = [CHR 0x01, CHR 0x00, CHR 0x00, CHR 0x00] @ ''a'' @ [CHR 0x00]"
  have "map_option fst (rd_value buf r ''s'') = Some (Some (DString ''a''))" unfolding buf_def r_def
    by (simp add: rd_value_def rd_str_def rd_u32_def rd_u8_def u32_of_def rd_pad.simps Let_def cstr_def)
  then obtain r1 where "rd_value buf r ''s'' = Some (Some (DString ''a''), r1)" by auto
  from rd_value_memory [OF _ this, of mem_empty] show ?thesis
    unfolding buf_def r_def by (auto simp: mem_ok_def mem_empty_def split: option.splits)
qed

text \<open>
  An array whose second string is cut short: the first string and the array of pointers are lost, because the type is not set
  yet when \<^verbatim>\<open>value_free_inner\<close> looks at it.
\<close>

lemma rd_value_leaks:
  "map_option (\<lambda>(out, r, s). (out, map (\<lambda>a. m_heap s a \<noteq> None) [0..<3]))
     (rd_value_at ([CHR 0x0D, CHR 0x00, CHR 0x00, CHR 0x00] @ [CHR 0x01, CHR 0x00, CHR 0x00, CHR 0x00] @ ''a'' @ [CHR 0x00, CHR 0x00, CHR 0x00] @
        [CHR 0x09, CHR 0x00, CHR 0x00, CHR 0x00] @ ''b'') \<lparr>rd_p = 0, rd_end = 17, rd_off = 0, rd_err = False\<rparr> ''as'' mem_empty) =
   Some (None, [False, True, True])"
  by (simp add: rd_value_at_def rd_str_at_def rd_strings_at.simps mem_alloc_def mem_put_def mem_free_def read_node_def set_field_def
      realloc_ptrs_def put_ptr_def read_ptrs_def rd_fail_def mem_empty_def dbus_zero_def upt_conv_Cons rd_str_def rd_u32_def rd_u8_def u32_of_def rd_pad.simps Let_def cstr_def)

end
