(* ===== verification/Toml_Parser.thy ===== *)
theory Toml_Parser
  imports Toml
begin

text \<open>
  \<^verbatim>\<open>tools/src/toml.c\<close>, the parser: a loop over statements (table headers and \<open>key = value\<close> lines)
  with the first error kept together with its line.

  The C parser keeps a pointer to the table the next keys belong to; the tree only grows, so
  the model keeps the path to that table (\<open>tp_cur\<close>) and the root. A C function that may
  return \<^verbatim>\<open>NULL\<close> returns an option with the parser state.
\<close>

record toml_parser =
  tp_rest :: string
  tp_line :: nat
  tp_err :: "(string \<times> nat) option"
  tp_root :: toml_value
  tp_cur :: "string list"

definition parse_error_line :: "string \<Rightarrow> nat \<Rightarrow> toml_parser \<Rightarrow> toml_parser" where
  "parse_error_line msg line ps =
     (if tp_err ps = None then ps\<lparr>tp_err := Some (msg, line)\<rparr> else ps)"

definition parse_error :: "string \<Rightarrow> toml_parser \<Rightarrow> toml_parser" where
  "parse_error msg ps = parse_error_line msg (tp_line ps) ps"

definition tpeek :: "toml_parser \<Rightarrow> char \<Rightarrow> bool" where
  "tpeek ps c = (case tp_rest ps of [] \<Rightarrow> False | d # _ \<Rightarrow> d = c)"

definition tadv :: "toml_parser \<Rightarrow> toml_parser" where
  "tadv ps = ps\<lparr>tp_rest := tl (tp_rest ps)\<rparr>"

section \<open>White space\<close>

definition is_toml_blank :: "char \<Rightarrow> bool" where
  "is_toml_blank c \<longleftrightarrow> c = CHR '' '' \<or> c = CHR 0x09 \<or> c = CHR 0x0D"

abbreviation to_eol :: "string \<Rightarrow> string" where
  "to_eol \<equiv> dropWhile (\<lambda>c. c \<noteq> CHR 0x0A)"

function toml_ws_run :: "string \<Rightarrow> nat \<Rightarrow> string \<times> nat" where
  "toml_ws_run [] line = ([], line)"
| "toml_ws_run (c # r) line =
     (if is_toml_blank c then toml_ws_run r line
      else if c = CHR ''#'' then toml_ws_run (to_eol r) line
      else if c = CHR 0x0A then toml_ws_run r (line + 1)
      else (c # r, line))"
  by pat_completeness auto

termination toml_ws_run
  by (relation "measure (\<lambda>(r, l). length r)") (auto simp: le_imp_less_Suc length_dropWhile_le)

definition toml_skip_ws :: "toml_parser \<Rightarrow> toml_parser" where
  "toml_skip_ws ps = (case toml_ws_run (tp_rest ps) (tp_line ps) of
     (r, l) \<Rightarrow> ps\<lparr>tp_rest := r, tp_line := l\<rparr>)"

definition toml_skip_line_end :: "toml_parser \<Rightarrow> int \<times> toml_parser" where
  "toml_skip_line_end ps =
     (let r = dropWhile is_toml_blank (tp_rest ps);
          r' = (if r \<noteq> [] \<and> hd r = CHR ''#'' then to_eol r else r);
          ps' = ps\<lparr>tp_rest := r'\<rparr>
      in (if r' = [] \<or> hd r' = CHR 0x0A then 0 else - 1, ps'))"

section \<open>Strings and keys\<close>

text \<open>
  The loop of \<^verbatim>\<open>parse_string\<close>: the text still to read, the line, the buffer. It yields the
  string or nothing, the text and line it stopped at and the error it raised.
\<close>

type_synonym str_result = "string option \<times> string \<times> nat \<times> (string \<times> nat) option"

function toml_str_loop :: "char \<Rightarrow> nat \<Rightarrow> string \<Rightarrow> nat \<Rightarrow> string \<Rightarrow> str_result" where
  "toml_str_loop quote start [] line buf =
     (None, [], line, Some (''unterminated string'', start))"
| "toml_str_loop quote start (c # r) line buf =
     (let line' = (if c = CHR 0x0A then line + 1 else line)
      in if c = quote then (Some (cstr buf), r, line, None)
         else if quote = CHR 0x27 then
           (if c = CHR 0x0A then (None, r, line', Some (''newline in literal string'', line'))
            else if ordc c < 0x20 then
              (None, r, line', Some (''control character in literal string'', line'))
            else toml_str_loop quote start r line' (buf @ [c]))
         else if c = CHR 0x5C then
           (if r = [] then (None, [], line', Some (''unterminated escape'', line'))
            else let e = hd r; r' = tl r
                 in case toml_unescape e of
                      Some d \<Rightarrow> toml_str_loop quote start r' line' (buf @ [d])
                    | None \<Rightarrow>
                        if e = CHR 0x22 \<or> e = CHR 0x5C then
                          toml_str_loop quote start r' line' (buf @ [e])
                        else if e = CHR ''u'' then
                          (case hex4 4 0 r' of
                             HShort r'' \<Rightarrow>
                               (None, r'', line', Some (''short '' @ [CHR 0x5C] @ ''u escape'', line'))
                           | HBad r'' \<Rightarrow>
                               (None, r'', line', Some (''bad '' @ [CHR 0x5C] @ ''u escape'', line'))
                           | HOk v r'' \<Rightarrow>
                               toml_str_loop quote start r'' line' (buf @ utf8_encode v))
                        else (None, r', line', Some (''unknown escape'', line')))
         else if c \<noteq> CHR 0x09 \<and> c \<noteq> CHR 0x0A \<and> ordc c < 0x20 then
           (None, r, line', Some (''control character in basic string'', line'))
         else toml_str_loop quote start r line' (buf @ [c]))"
  by pat_completeness auto

termination toml_str_loop
  by (relation "measure (\<lambda>(q, s, r, l, b). length r)") (auto dest!: hex4_length simp: neq_Nil_conv)

definition toml_parse_string :: "toml_parser \<Rightarrow> char \<Rightarrow> string option \<times> toml_parser" where
  "toml_parse_string ps quote =
     (case toml_str_loop quote (tp_line ps) (tp_rest ps) (tp_line ps) [] of
        (s, r, l, e) \<Rightarrow>
          let ps' = ps\<lparr>tp_rest := r, tp_line := l\<rparr>
          in (s, case e of None \<Rightarrow> ps' | Some (msg, line) \<Rightarrow> parse_error_line msg line ps'))"

definition is_bare :: "char \<Rightarrow> bool" where
  "is_bare c \<longleftrightarrow> isalnum c \<or> c = CHR ''_'' \<or> c = CHR ''-''"

definition parse_bare_key :: "toml_parser \<Rightarrow> string option \<times> toml_parser" where
  "parse_bare_key ps =
     (let s = takeWhile is_bare (tp_rest ps)
      in (if s = [] then None else Some s, ps\<lparr>tp_rest := drop (length s) (tp_rest ps)\<rparr>))"

definition is_quote :: "char \<Rightarrow> bool" where
  "is_quote c \<longleftrightarrow> c = CHR 0x22 \<or> c = CHR 0x27"

definition parse_key_segment :: "toml_parser \<Rightarrow> string option \<times> toml_parser" where
  "parse_key_segment ps = (case tp_rest ps of
       [] \<Rightarrow> (None, ps)
     | c # r \<Rightarrow>
         if is_quote c then toml_parse_string (ps\<lparr>tp_rest := r\<rparr>) c
         else if is_bare c then parse_bare_key ps
         else (None, ps))"

section \<open>Every reader moves forward\<close>

abbreviation tlen :: "toml_parser \<Rightarrow> nat" where
  "tlen ps \<equiv> length (tp_rest ps)"

definition failed :: "toml_parser \<Rightarrow> bool" where
  "failed ps \<longleftrightarrow> tp_err ps \<noteq> None"

lemma parse_error_simps [simp]:
  "tp_rest (parse_error m ps) = tp_rest ps" "tp_line (parse_error m ps) = tp_line ps"
  "tp_root (parse_error m ps) = tp_root ps" "tp_cur (parse_error m ps) = tp_cur ps"
  "failed (parse_error m ps)"
  "tp_rest (parse_error_line m n ps) = tp_rest ps" "tp_line (parse_error_line m n ps) = tp_line ps"
  "tp_root (parse_error_line m n ps) = tp_root ps" "tp_cur (parse_error_line m n ps) = tp_cur ps"
  "failed (parse_error_line m n ps)"
  by (auto simp: parse_error_def parse_error_line_def failed_def)

lemma le_dropWhile: "n \<le> length (dropWhile P xs) \<Longrightarrow> n \<le> length xs"
  by (meson le_trans length_dropWhile_le)

lemma toml_ws_run_length: "toml_ws_run r l = (r', l') \<Longrightarrow> length r' \<le> length r"
proof (induction r l rule: toml_ws_run.induct)
  case (2 c r l)
  then show ?case by (auto split: if_splits dest!: le_dropWhile)
qed simp

lemma toml_skip_ws_length [simp]: "tlen (toml_skip_ws ps) \<le> tlen ps"
  by (auto simp: toml_skip_ws_def dest: toml_ws_run_length split: prod.split)

lemma toml_skip_line_end_length: "toml_skip_line_end ps = (rc, ps') \<Longrightarrow> tlen ps' \<le> tlen ps"
  using le_dropWhile [OF length_dropWhile_le, of "\<lambda>c. c \<noteq> CHR 0x0A" is_toml_blank "tp_rest ps"]
  by (auto simp: toml_skip_line_end_def Let_def)

definition str_result_ok :: "string \<Rightarrow> str_result \<Rightarrow> bool" where
  "str_result_ok r x = (case x of (res, r', l', e) \<Rightarrow>
     length r' \<le> length r \<and> (res \<noteq> None \<longrightarrow> length r' < length r) \<and> (res = None \<longleftrightarrow> e \<noteq> None))"

lemma str_result_ok_longer: "str_result_ok t x \<Longrightarrow> length t \<le> length r \<Longrightarrow> str_result_ok r x"
  by (auto simp: str_result_ok_def)

lemma str_result_ok_if:
  "(c \<Longrightarrow> str_result_ok r x) \<Longrightarrow> (\<not> c \<Longrightarrow> str_result_ok r y) \<Longrightarrow> str_result_ok r (if c then x else y)"
  by simp

lemma str_result_ok_case:
  "(z = None \<Longrightarrow> str_result_ok r x) \<Longrightarrow> (\<And>d. str_result_ok r (f d)) \<Longrightarrow>
   str_result_ok r (case z of None \<Rightarrow> x | Some d \<Rightarrow> f d)"
  by (cases z) auto

lemma toml_str_loop_ok: "str_result_ok r (toml_str_loop q s r l b)"
proof (induction r arbitrary: l b rule: length_induct)
  case (1 r)
  then have IH: "length t < length r \<Longrightarrow> str_result_ok r (toml_str_loop q s t l' b')" for t l' b'
    by (meson str_result_ok_longer less_imp_le)
  have fin: "length t < length r \<Longrightarrow> str_result_ok r (None, t, l', Some e)"
    "length t < length r \<Longrightarrow> str_result_ok r (Some z, t, l', None)" for t l' e z
    by (auto simp: str_result_ok_def)
  show ?case
  proof (cases r)
    case Nil
    then show ?thesis by (simp add: str_result_ok_def)
  next
    case (Cons c t)
    have t: "length t < length r" "t \<noteq> [] \<Longrightarrow> length (tl t) < length r" by (simp_all add: Cons)
    have h: "hex4 4 0 (tl t) = HOk v w \<Longrightarrow> t \<noteq> [] \<Longrightarrow> length w < length r" for v w
      using hex4_length [of 4 0 "tl t" v w] by (cases t) (auto simp: Cons)
    have h': "hex4 k v w = HShort u \<or> hex4 k v w = HBad u \<Longrightarrow> length u \<le> length w" for k v w u
      by (induction k v w rule: hex4.induct) (auto split: if_splits)
    have h'': "hex4 4 0 (tl t) = HShort w \<or> hex4 4 0 (tl t) = HBad w \<Longrightarrow> t \<noteq> [] \<Longrightarrow> length w < length r" for w
      using h' [of 4 0 "tl t" w] by (cases t) (auto simp: Cons)
    have esc: "t \<noteq> [] \<Longrightarrow> str_result_ok r (case hex4 4 0 (tl t) of
         HShort w \<Rightarrow> (None, w, l', Some e1) | HBad w \<Rightarrow> (None, w, l', Some e2)
       | HOk v w \<Rightarrow> toml_str_loop q s w l' (b @ utf8_encode v))" for l' e1 e2
      using h h'' by (auto split: hexres.split intro!: IH fin)
    show ?thesis
      unfolding Cons toml_str_loop.simps Let_def
      unfolding Cons [symmetric]
      by (intro str_result_ok_if str_result_ok_case esc IH fin) (use t in simp_all)
  qed
qed

lemma toml_parse_string_length:
  assumes "toml_parse_string ps q = (res, ps')"
  shows "tlen ps' \<le> tlen ps" and "res \<noteq> None \<Longrightarrow> tlen ps' < tlen ps"
    and "res = None \<Longrightarrow> failed ps'"
    and "tp_root ps' = tp_root ps" and "tp_cur ps' = tp_cur ps"
  using assms toml_str_loop_ok [of "tp_rest ps" q "tp_line ps" "tp_line ps" "[]"]
  by (auto simp: toml_parse_string_def str_result_ok_def Let_def
      split: prod.splits option.splits)

lemma parse_key_segment_length:
  assumes "parse_key_segment ps = (res, ps')"
  shows "tlen ps' \<le> tlen ps" and "res \<noteq> None \<Longrightarrow> tlen ps' < tlen ps"
    and "tp_root ps' = tp_root ps" and "tp_cur ps' = tp_cur ps"
  using assms toml_parse_string_length [of "ps\<lparr>tp_rest := tl (tp_rest ps)\<rparr>" "hd (tp_rest ps)" res ps']
  by (auto simp: parse_key_segment_def parse_bare_key_def Let_def split: list.splits if_splits)

section \<open>Key paths and the tree\<close>

function toml_key_loop :: "toml_parser \<Rightarrow> string list \<Rightarrow> string list option \<times> toml_parser" where
  "toml_key_loop ps segs = (case parse_key_segment ps of
       (None, ps') \<Rightarrow> (None, ps')
     | (Some seg, ps') \<Rightarrow>
         if \<not> tpeek ps' CHR ''.'' then (Some (segs @ [seg]), ps')
         else toml_key_loop (tadv ps') (segs @ [seg]))"
  by pat_completeness auto

termination toml_key_loop
  by (relation "measure (\<lambda>(ps, s). tlen ps)")
    (auto dest!: parse_key_segment_length(2) [OF sym] simp: tadv_def)

declare toml_key_loop.simps [simp del]

definition parse_key_path :: "toml_parser \<Rightarrow> string list option \<times> toml_parser" where
  "parse_key_path ps = toml_key_loop ps []"

lemma toml_key_loop_length:
  "toml_key_loop ps segs = (res, ps') \<Longrightarrow>
     tlen ps' \<le> tlen ps \<and> (res \<noteq> None \<longrightarrow> tlen ps' < tlen ps) \<and> (\<forall>p. res = Some p \<longrightarrow> p \<noteq> []) \<and>
     tp_root ps' = tp_root ps \<and> tp_cur ps' = tp_cur ps"
proof (induction ps segs rule: toml_key_loop.induct)
  case (1 ps segs)
  obtain s ps1 where s: "parse_key_segment ps = (s, ps1)" by fastforce
  note len = parse_key_segment_length [OF s]
  show ?case
  proof (cases s)
    case None
    with "1.prems" s len show ?thesis by (auto simp: toml_key_loop.simps [of ps])
  next
    case (Some seg)
    show ?thesis
    proof (cases "tpeek ps1 CHR ''.''")
      case True
      have "toml_key_loop (tadv ps1) (segs @ [seg]) = (res, ps')"
        using "1.prems" s Some True by (simp add: toml_key_loop.simps [of ps])
      from "1.IH" [OF s [symmetric] Some _ this] len Some show ?thesis
        using True by (auto simp: tadv_def)
    next
      case False
      with "1.prems" s Some len show ?thesis by (auto simp: toml_key_loop.simps [of ps])
    qed
  qed
qed

text \<open>
  \<open>toml_enter\<close> is \<^verbatim>\<open>enter\<close> on the tree: it walks the path, creating empty tables for missing
  segments, and yields \<open>None\<close> when the path crosses a value that is not a table.
  \<open>toml_add_at\<close> is \<^verbatim>\<open>toml_table_add\<close> on the table at a path \<^verbatim>\<open>enter\<close> has walked.
\<close>

fun toml_enter :: "toml_value \<Rightarrow> string list \<Rightarrow> toml_value option" where
  "toml_enter t [] = Some t"
| "toml_enter (TTable kvs) (s # ss) = (case map_of kvs s of
       None \<Rightarrow> (case toml_enter (TTable []) ss of
                 None \<Rightarrow> None
               | Some c \<Rightarrow> Some (TTable (kvs @ [(s, c)])))
     | Some child \<Rightarrow>
         if is_table child then
           (case toml_enter child ss of
              None \<Rightarrow> None
            | Some c \<Rightarrow> Some (TTable (put_assoc s c kvs)))
         else None)"
| "toml_enter _ (s # ss) = None"

fun toml_add_at :: "toml_value \<Rightarrow> string list \<Rightarrow> string \<Rightarrow> toml_value \<Rightarrow> int \<times> toml_value" where
  "toml_add_at t [] key v = (case toml_table_add (Some t) key v of
       (rc, t') \<Rightarrow> (rc, case t' of Some x \<Rightarrow> x | None \<Rightarrow> t))"
| "toml_add_at (TTable kvs) (s # ss) key v = (case map_of kvs s of
       None \<Rightarrow> (- 1, TTable kvs)
     | Some child \<Rightarrow> (case toml_add_at child ss key v of
                        (rc, c) \<Rightarrow> (rc, TTable (put_assoc s c kvs))))"
| "toml_add_at t (s # ss) key v = (- 1, t)"

section \<open>Values\<close>

text \<open>The \<^verbatim>\<open>for (;;)\<close> loop of the array branch; \<open>items\<close> holds the strings added so far.\<close>

function toml_array_loop :: "toml_parser \<Rightarrow> toml_value list \<Rightarrow> toml_value option \<times> toml_parser" where
  "toml_array_loop ps0 items =
     (let ps = toml_skip_ws ps0
      in if tpeek ps CHR '']'' then (Some (TArr items), tadv ps)
         else if tp_rest ps = [] then (None, parse_error ''unterminated array'' ps)
         else if \<not> is_quote (hd (tp_rest ps)) then
           (None, parse_error ''arrays hold strings only'' ps)
         else case toml_parse_string (tadv ps) (hd (tp_rest ps)) of
                (None, ps1) \<Rightarrow> (None, ps1)
              | (Some s, ps1) \<Rightarrow>
                  let ps2 = toml_skip_ws ps1; items' = items @ [TStr s]
                  in if tpeek ps2 CHR '','' then toml_array_loop (tadv ps2) items'
                     else if tpeek ps2 CHR '']'' then (Some (TArr items'), tadv ps2)
                     else (None, parse_error
                       (''expected '' @ [CHR 0x27, CHR '','', CHR 0x27] @ '' or '' @
                        [CHR 0x27, CHR '']'', CHR 0x27] @ '' in array'') ps2))"
  by pat_completeness auto

termination toml_array_loop
proof (relation "measure (\<lambda>(ps, s). tlen ps)", simp, goal_cases)
  case (1 ps0 items ps z ps1 seg ps2 items')
  then have "tlen ps1 < tlen (tadv ps)" by (intro toml_parse_string_length(2) [OF sym]) auto
  moreover have "tlen ps \<le> tlen ps0" "tlen ps2 \<le> tlen ps1" using 1 by auto
  ultimately show ?case by (simp add: tadv_def)
qed

declare toml_array_loop.simps [simp del]

text \<open>
  Numbers: the token without its digit separators, cut at 63 characters, with whether it has
  a point or an exponent and the count of its digits.
\<close>

definition push_tok :: "string \<Rightarrow> char \<Rightarrow> string" where
  "push_tok cleaned c = (if length cleaned + 1 < 64 then cleaned @ [c] else cleaned)"

function toml_num_loop :: "string \<Rightarrow> string \<Rightarrow> bool \<Rightarrow> nat \<Rightarrow> string \<times> bool \<times> nat \<times> string" where
  "toml_num_loop [] cleaned is_float digits = (cleaned, is_float, digits, [])"
| "toml_num_loop (c # r) cleaned is_float digits =
     (if isdigit c then toml_num_loop r (push_tok cleaned c) is_float (digits + 1)
      else if c = CHR ''_'' \<and> digits > 0 \<and> r \<noteq> [] \<and> isdigit (hd r) then
        toml_num_loop r cleaned is_float digits
      else if c = CHR ''.'' then toml_num_loop r (push_tok cleaned c) True digits
      else if (c = CHR ''e'' \<or> c = CHR ''E'') \<and> digits > 0 then
        (if r \<noteq> [] \<and> (hd r = CHR ''+'' \<or> hd r = CHR ''-'')
         then toml_num_loop (tl r) (push_tok (push_tok cleaned c) (hd r)) True digits
         else toml_num_loop r (push_tok cleaned c) True digits)
      else (cleaned, is_float, digits, c # r))"
  by pat_completeness auto

termination toml_num_loop
  by (relation "measure (\<lambda>(r, c, f, d). length r)") (auto simp: less_Suc_eq_le)

definition toml_parse_number :: "toml_parser \<Rightarrow> toml_value option \<times> toml_parser" where
  "toml_parse_number ps =
     (let sign = tpeek ps CHR ''+'' \<or> tpeek ps CHR ''-'';
          start = (if sign then push_tok [] (hd (tp_rest ps)) else []);
          r0 = (if sign then tl (tp_rest ps) else tp_rest ps)
      in case toml_num_loop r0 start False 0 of
           (cleaned, is_float, digits, r) \<Rightarrow>
             let ps' = ps\<lparr>tp_rest := r\<rparr>
             in if digits = 0 \<or> length cleaned \<ge> 64 then (None, parse_error ''invalid value'' ps')
                else if is_float then
                  (case strtod cleaned of (d, k, _) \<Rightarrow>
                     if k = 0 \<or> k \<noteq> length cleaned then (None, parse_error ''invalid float'' ps')
                     else (Some (TFloat d), ps'))
                else
                  (case strtoll cleaned of (iv, k, erange) \<Rightarrow>
                     if erange \<or> k = 0 \<or> k \<noteq> length cleaned then
                       (None, parse_error ''invalid integer'' ps')
                     else (Some (TInt iv), ps')))"

definition bool_word :: "string \<Rightarrow> string \<Rightarrow> bool" where
  "bool_word w r \<longleftrightarrow> starts_with w r \<and>
     (length r = length w \<or> \<not> isalnum (r ! length w) \<and> r ! length w \<noteq> CHR ''_'')"

definition toml_parse_value :: "toml_parser \<Rightarrow> toml_value option \<times> toml_parser" where
  "toml_parse_value ps = (case tp_rest ps of
       [] \<Rightarrow> (None, parse_error ''missing value'' ps)
     | c # r \<Rightarrow>
         if is_quote c then
           (case toml_parse_string (tadv ps) c of
              (None, ps') \<Rightarrow> (None, ps')
            | (Some s, ps') \<Rightarrow> (Some (toml_new_str (Some s)), ps'))
         else if c = CHR ''['' then toml_array_loop (tadv ps) []
         else if bool_word ''true'' (c # r) then
           (Some (toml_new_bool 1), ps\<lparr>tp_rest := drop 4 (c # r)\<rparr>)
         else if bool_word ''false'' (c # r) then
           (Some (toml_new_bool 0), ps\<lparr>tp_rest := drop 5 (c # r)\<rparr>)
         else toml_parse_number ps)"

text \<open>
  What every value reader keeps: it moves forward, leaves the tree and the current table
  alone, and when it yields nothing it has recorded an error.
\<close>

definition value_ok :: "toml_parser \<Rightarrow> 'a option \<times> toml_parser \<Rightarrow> bool" where
  "value_ok ps x = (case x of (res, ps') \<Rightarrow>
     tlen ps' \<le> tlen ps \<and> tp_root ps' = tp_root ps \<and> tp_cur ps' = tp_cur ps \<and>
     (res = None \<longrightarrow> failed ps'))"

lemma value_ok_trans:
  assumes "value_ok ps1 x" and "tlen ps1 \<le> tlen ps" and "tp_root ps1 = tp_root ps"
    and "tp_cur ps1 = tp_cur ps"
  shows "value_ok ps x"
  using assms by (auto simp: value_ok_def)

lemma skip_ws_keeps [simp]:
  "tp_root (toml_skip_ws ps) = tp_root ps" "tp_cur (toml_skip_ws ps) = tp_cur ps"
  "tp_err (toml_skip_ws ps) = tp_err ps"
  by (auto simp: toml_skip_ws_def split: prod.split)

lemma tadv_simps [simp]:
  "tp_rest (tadv ps) = tl (tp_rest ps)" "tp_line (tadv ps) = tp_line ps"
  "tp_root (tadv ps) = tp_root ps" "tp_cur (tadv ps) = tp_cur ps" "tp_err (tadv ps) = tp_err ps"
  by (simp_all add: tadv_def)

lemma value_ok_string: "value_ok ps (toml_parse_string ps q)"
  using toml_parse_string_length [of ps q]
  by (cases "toml_parse_string ps q") (auto simp: value_ok_def)

lemma value_ok_array: "value_ok ps (toml_array_loop ps items)"
proof (induction ps items rule: toml_array_loop.induct)
  case (1 ps0 items)
  define ps where "ps = toml_skip_ws ps0"
  have ps: "tlen ps \<le> tlen ps0" "tp_root ps = tp_root ps0" "tp_cur ps = tp_cur ps0"
    by (simp_all add: ps_def)
  obtain r ps1 where str: "toml_parse_string (tadv ps) (hd (tp_rest ps)) = (r, ps1)" by fastforce
  define ps2 where "ps2 = toml_skip_ws ps1"
  note len = toml_parse_string_length [OF str]
  have ps2: "tlen ps2 \<le> tlen ps0" "tp_root ps2 = tp_root ps0" "tp_cur ps2 = tp_cur ps0"
    using len ps le_trans [OF toml_skip_ws_length [of ps1], of "tlen ps0"] by (auto simp: ps2_def)
  have rec: "value_ok ps0 (toml_array_loop (tadv ps2) (items @ [TStr s]))"
    if "r = Some s" "\<not> tpeek ps CHR '']''" "tp_rest ps \<noteq> []" "is_quote (hd (tp_rest ps))" "tpeek ps2 CHR '',''" for s
    using "1.IH" [OF ps_def that(2,3) _ str [symmetric] that(1) ps2_def refl that(5)] that(4) ps2
    by (auto elim: value_ok_trans)
  show ?case
    unfolding toml_array_loop.simps [of ps0] Let_def ps_def [symmetric] str prod.case
    using len ps ps2 rec by (auto simp: value_ok_def ps2_def [symmetric] split: option.split)
qed

lemma toml_num_loop_length: "toml_num_loop r c f d = (c', f', d', r') \<Longrightarrow> length r' \<le> length r"
proof (induction r c f d rule: toml_num_loop.induct)
  case (2 c r cl f d)
  then show ?case by (cases r) (auto split: if_splits)
qed simp

lemma value_ok_if:
  "(c \<Longrightarrow> value_ok ps x) \<Longrightarrow> (\<not> c \<Longrightarrow> value_ok ps y) \<Longrightarrow> value_ok ps (if c then x else y)"
  by simp

lemma value_ok_number: "value_ok ps (toml_parse_number ps)"
proof -
  define sign where "sign \<longleftrightarrow> tpeek ps CHR ''+'' \<or> tpeek ps CHR ''-''"
  define r0 where "r0 = (if sign then tl (tp_rest ps) else tp_rest ps)"
  define start where "start = (if sign then push_tok [] (hd (tp_rest ps)) else [])"
  obtain c f d r where num: "toml_num_loop r0 start False 0 = (c, f, d, r)" by (metis prod_cases4)
  obtain x k e where x: "strtod c = (x, k, e)" by (metis prod_cases3)
  obtain y m g where y: "strtoll c = (y, m, g)" by (metis prod_cases3)
  have "length r \<le> length r0" using num by (rule toml_num_loop_length)
  then have len: "length r \<le> tlen ps" by (simp add: r0_def split: if_splits)
  show ?thesis
    unfolding toml_parse_number_def Let_def sign_def [symmetric] r0_def [symmetric]
      start_def [symmetric] num x y prod.case
    using len by (intro value_ok_if) (simp_all add: value_ok_def)
qed

lemma value_ok_value: "value_ok ps (toml_parse_value ps)"
proof (cases "tp_rest ps")
  case Nil
  then show ?thesis by (simp add: toml_parse_value_def value_ok_def)
next
  case (Cons c r)
  have "value_ok ps (toml_parse_string (tadv ps) c)" "value_ok ps (toml_array_loop (tadv ps) [])"
    by (auto intro: value_ok_trans value_ok_string value_ok_array)
  then show ?thesis
    unfolding toml_parse_value_def Cons list.case
    by (intro value_ok_if value_ok_number) (auto simp: value_ok_def Cons split: prod.split option.split)
qed

section \<open>Statements\<close>

text \<open>
  One turn of the \<^verbatim>\<open>while\<close> loop of \<^verbatim>\<open>toml_parse\<close> after its \<^verbatim>\<open>skip_ws\<close>: the flag says whether the
  loop goes on (\<^verbatim>\<open>continue\<close> or the end of the body) or breaks. A duplicate key records its error and
  the loop goes on; the first error is the one reported.
\<close>

definition toml_header :: "toml_parser \<Rightarrow> bool \<times> toml_parser" where
  "toml_header ps = (case parse_key_path (tadv ps) of
       (None, ps1) \<Rightarrow> (False, parse_error ''invalid table header'' ps1)
     | (Some segs, ps1) \<Rightarrow>
         if \<not> tpeek ps1 CHR '']'' then
           (False, parse_error (''expected '' @ [CHR 0x27, CHR '']'', CHR 0x27] @ '' in table header'') ps1)
         else case toml_skip_line_end (tadv ps1) of
                (rc, ps2) \<Rightarrow>
                  if rc < 0 then (False, parse_error ''trailing text after table header'' ps2)
                  else case toml_enter (tp_root ps2) segs of
                         None \<Rightarrow> (False, parse_error ''key path crosses a non-table value'' ps2)
                       | Some r \<Rightarrow> (True, ps2\<lparr>tp_root := r, tp_cur := segs\<rparr>))"

definition toml_assign :: "toml_parser \<Rightarrow> bool \<times> toml_parser" where
  "toml_assign ps = (case parse_key_path ps of
       (None, ps1) \<Rightarrow> (False, parse_error ''expected key'' ps1)
     | (Some segs, ps1) \<Rightarrow>
         let ps2 = toml_skip_ws ps1
         in if \<not> tpeek ps2 CHR ''='' then
              (False, parse_error (''expected '' @ [CHR 0x27, CHR ''='', CHR 0x27] @ '' after key'') ps2)
            else
              let ps3 = toml_skip_ws (tadv ps2);
                  parent = tp_cur ps3 @ butlast segs
              in case toml_enter (tp_root ps3) parent of
                   None \<Rightarrow> (False, parse_error ''key path crosses a non-table value'' ps3)
                 | Some r \<Rightarrow>
                     (case toml_parse_value (ps3\<lparr>tp_root := r\<rparr>) of
                        (None, ps4) \<Rightarrow> (False, ps4)
                      | (Some val, ps4) \<Rightarrow>
                          (case toml_add_at (tp_root ps4) parent (last segs) val of
                             (rc, r') \<Rightarrow>
                               let ps5 = (if rc < 0 then parse_error ''duplicate key'' ps4
                                          else ps4\<lparr>tp_root := r'\<rparr>)
                               in case toml_skip_line_end ps5 of
                                    (rc', ps6) \<Rightarrow>
                                      if rc' < 0 then
                                        (False, parse_error ''trailing text after value'' ps6)
                                      else (True, ps6))))"

definition toml_statement :: "toml_parser \<Rightarrow> bool \<times> toml_parser" where
  "toml_statement ps = (if tpeek ps CHR ''['' then toml_header ps else toml_assign ps)"

lemma tpeek_nonempty: "tpeek ps c \<Longrightarrow> tp_rest ps \<noteq> []"
  by (auto simp: tpeek_def)

lemma parse_key_path_length:
  "parse_key_path ps = (res, ps') \<Longrightarrow>
     tlen ps' \<le> tlen ps \<and> (res \<noteq> None \<longrightarrow> tlen ps' < tlen ps) \<and> (\<forall>p. res = Some p \<longrightarrow> p \<noteq> []) \<and>
     tp_root ps' = tp_root ps \<and> tp_cur ps' = tp_cur ps"
  unfolding parse_key_path_def by (rule toml_key_loop_length)

lemma toml_header_ok:
  "toml_header ps = (go, ps') \<Longrightarrow> (go \<longrightarrow> tlen ps' < tlen ps) \<and> (\<not> go \<longrightarrow> failed ps')"
  by (auto simp: toml_header_def dest!: parse_key_path_length toml_skip_line_end_length
      split: prod.splits option.splits if_splits)

lemma toml_assign_ok:
  assumes "toml_assign ps = (go, ps')"
  shows "(go \<longrightarrow> tlen ps' < tlen ps) \<and> (\<not> go \<longrightarrow> failed ps')"
proof -
  obtain k ps1 where k: "parse_key_path ps = (k, ps1)" by fastforce
  define ps2 where "ps2 = toml_skip_ws ps1"
  define ps3 where "ps3 = toml_skip_ws (tadv ps2)"
  have "tlen ps3 \<le> tlen ps1"
    using toml_skip_ws_length [of ps1] toml_skip_ws_length [of "tadv ps2"]
    unfolding ps2_def ps3_def by (metis tadv_simps(1) length_tl diff_le_self le_trans)
  then have len: "k \<noteq> None \<Longrightarrow> tlen ps3 < tlen ps" using parse_key_path_length [OF k] by auto
  have val: "tlen ps4 \<le> tlen ps3 \<and> (v = None \<longrightarrow> failed ps4)"
    if "toml_parse_value (ps3\<lparr>tp_root := r\<rparr>) = (v, ps4)" for r v ps4
    using value_ok_value [of "ps3\<lparr>tp_root := r\<rparr>"] that by (simp add: value_ok_def)
  show ?thesis
    using assms len unfolding toml_assign_def k prod.case Let_def ps2_def [symmetric] ps3_def [symmetric]
    by (auto dest!: val toml_skip_line_end_length
        split: prod.splits option.splits if_splits)
qed

lemma toml_statement_ok:
  "toml_statement ps = (go, ps') \<Longrightarrow> (go \<longrightarrow> tlen ps' < tlen ps) \<and> (\<not> go \<longrightarrow> failed ps')"
  using toml_header_ok toml_assign_ok by (auto simp: toml_statement_def split: if_splits)

function toml_loop :: "toml_parser \<Rightarrow> toml_parser" where
  "toml_loop ps0 =
     (if tp_rest ps0 = [] then ps0
      else let ps = toml_skip_ws ps0
           in if tp_rest ps = [] then ps
              else case toml_statement ps of
                     (True, ps') \<Rightarrow> toml_loop ps'
                   | (False, ps') \<Rightarrow> ps')"
  by pat_completeness auto

termination toml_loop
proof (relation "measure tlen", simp, goal_cases)
  case (1 ps0 ps go ps')
  then have "tlen ps' < tlen ps" by (metis toml_statement_ok)
  moreover have "tlen ps \<le> tlen ps0" using 1 by simp
  ultimately show ?case by simp
qed

declare toml_loop.simps [simp del]

definition toml_init :: "string \<Rightarrow> toml_parser" where
  "toml_init text = \<lparr>tp_rest = text, tp_line = 1, tp_err = None, tp_root = TTable [], tp_cur = []\<rparr>"

definition toml_parse :: "string \<Rightarrow> (string \<times> nat) + toml_value" where
  "toml_parse text =
     (let ps = toml_loop (toml_init text)
      in case tp_err ps of Some e \<Rightarrow> Inl e | None \<Rightarrow> Inr (tp_root ps))"

end
