(* ===== verification/Toml_Writer.thy ===== *)
theory Toml_Writer
  imports Toml_Parser
begin

text \<open>
  \<^verbatim>\<open>tools/src/toml.c\<close>, the writer: \<open>key = value\<close> lines, then a \<open>[header]\<close> section per nested table.
  \<open>toml_dumps\<close> is \<open>None\<close> where the C function returns \<^verbatim>\<open>NULL\<close>: the value is not a table, or tables
  nest deeper than \<open>TOML_MAX_DEPTH - 1\<close>.
\<close>

definition bare_safe_key :: "string \<Rightarrow> bool" where
  "bare_safe_key s \<longleftrightarrow> s \<noteq> [] \<and> list_all is_bare s"

definition hexdig_upper :: "nat \<Rightarrow> char" where
  "hexdig_upper n = (if n < 10 then char_of (n + 48) else char_of (n + 55))"

definition dump_char :: "char \<Rightarrow> string" where
  "dump_char c =
     (if c = CHR 0x22 then [CHR 0x5C, CHR 0x22]
      else if c = CHR 0x5C then [CHR 0x5C, CHR 0x5C]
      else if c = CHR 0x0A then [CHR 0x5C, CHR ''n'']
      else if c = CHR 0x09 then [CHR 0x5C, CHR ''t'']
      else if c = CHR 0x0D then [CHR 0x5C, CHR ''r'']
      else if c = CHR 0x08 then [CHR 0x5C, CHR ''b'']
      else if c = CHR 0x0C then [CHR 0x5C, CHR ''f'']
      else if ordc c < 0x20 then
        [CHR 0x5C, CHR ''u'', CHR ''0'', CHR ''0'', hexdig_upper (ordc c div 16), hexdig_upper (ordc c mod 16)]
      else [c])"

definition dump_string :: "string \<Rightarrow> string" where
  "dump_string s = CHR 0x22 # concat (map dump_char s) @ [CHR 0x22]"

definition dump_path_key :: "string \<Rightarrow> string" where
  "dump_path_key s = (if bare_safe_key s then s else dump_string s)"

definition dump_float :: "cdouble \<Rightarrow> string" where
  "dump_float d = (let num = fmt_g 15 d
     in if list_ex (\<lambda>c. c \<in> set ''.eEn'') num then num else num @ ''.0'')"

fun join_with :: "string \<Rightarrow> string list \<Rightarrow> string" where
  "join_with sep [] = []"
| "join_with sep [s] = s"
| "join_with sep (s # t # ss) = s @ sep @ join_with sep (t # ss)"

fun toml_dump_value :: "toml_value \<Rightarrow> string" where
  "toml_dump_value (TStr s) = dump_string s"
| "toml_dump_value (TInt i) = fmt_d i"
| "toml_dump_value (TFloat d) = dump_float d"
| "toml_dump_value (TBool b) = (if b then ''true'' else ''false'')"
| "toml_dump_value (TArr vs) = CHR ''['' # join_with '', '' (map toml_dump_value vs) @ '']''"
| "toml_dump_value (TTable kvs) = ''{}''"

definition TOML_MAX_DEPTH :: nat where
  "TOML_MAX_DEPTH = 64"

text \<open>
  The two loops of \<^verbatim>\<open>dump_table\<close>: the members that are not tables, then a header and the
  recursive call for each table. \<open>need_nl\<close> is the flag of the same name.
\<close>

fun dump_scalars :: "(string \<times> toml_value) list \<Rightarrow> string" where
  "dump_scalars [] = []"
| "dump_scalars ((k, v) # kvs) =
     (if is_table v then []
      else dump_path_key k @ '' = '' @ toml_dump_value v @ [CHR 0x0A]) @ dump_scalars kvs"

definition has_scalar :: "(string \<times> toml_value) list \<Rightarrow> bool" where
  "has_scalar kvs \<longleftrightarrow> list_ex (\<lambda>(k, v). \<not> is_table v) kvs"

definition dump_header :: "string list \<Rightarrow> string" where
  "dump_header segs = CHR ''['' # join_with ''.'' (map dump_path_key segs) @ '']'' @ [CHR 0x0A]"

fun dump_subtables ::
  "(string \<times> toml_value) list \<Rightarrow> string list \<Rightarrow> bool \<Rightarrow> string option" where
  "dump_subtables [] segs need_nl = Some []"
| "dump_subtables ((k, TTable sub) # kvs) segs need_nl =
     (if length segs \<ge> TOML_MAX_DEPTH - 1 then None
      else case dump_subtables sub (segs @ [k]) (has_scalar sub) of
             None \<Rightarrow> None
           | Some inner \<Rightarrow>
               (case dump_subtables kvs segs True of
                  None \<Rightarrow> None
                | Some rest \<Rightarrow>
                    Some ((if need_nl then [CHR 0x0A] else []) @ dump_header (segs @ [k]) @
                          dump_scalars sub @ inner @ rest)))"
| "dump_subtables ((k, v) # kvs) segs need_nl = dump_subtables kvs segs need_nl"

definition dump_table :: "(string \<times> toml_value) list \<Rightarrow> string list \<Rightarrow> string option" where
  "dump_table kvs segs = (case dump_subtables kvs segs (has_scalar kvs) of
     None \<Rightarrow> None | Some rest \<Rightarrow> Some (dump_scalars kvs @ rest))"

definition toml_dumps :: "toml_value option \<Rightarrow> string option" where
  "toml_dumps v = (case v of Some (TTable kvs) \<Rightarrow> dump_table kvs [] | _ \<Rightarrow> None)"

section \<open>What the writer keeps\<close>

text \<open>
  The writer puts the members that are not tables before the tables; \<open>scalars_first\<close> is the
  tree in that order.
\<close>

fun table_members :: "(string \<times> toml_value) list \<Rightarrow> (string \<times> toml_value) list" where
  "table_members [] = []"
| "table_members ((k, TTable sub) # kvs) =
     (k, TTable (filter (\<lambda>(k, v). \<not> is_table v) sub @ table_members sub)) # table_members kvs"
| "table_members ((k, v) # kvs) = table_members kvs"

definition scalars_first :: "(string \<times> toml_value) list \<Rightarrow> (string \<times> toml_value) list" where
  "scalars_first kvs = filter (\<lambda>(k, v). \<not> is_table v) kvs @ table_members kvs"

text \<open>The trees the text form can carry: C strings, 64-bit integers, doubles with an exact 15-digit form.\<close>

definition toml_float_ok :: "cdouble \<Rightarrow> bool" where
  "toml_float_ok d = (let t = dump_float d; sg = (hd t = CHR ''-'') in
     t \<noteq> [] \<and> (sg \<or> isdigit (hd t)) \<and> length t < 64 \<and>
     (case toml_num_loop (if sg then tl t else t) (if sg then ''-'' else []) False 0 of
        (c, f, n, r) \<Rightarrow> c = t \<and> f \<and> n > 0 \<and> r = []) \<and>
     fst (strtod t) = d \<and> fst (snd (strtod t)) = length t)"

fun toml_scalar_ok :: "toml_value \<Rightarrow> bool" where
  "toml_scalar_ok (TStr s) = cstring s"
| "toml_scalar_ok (TInt i) = (- (2 ^ 63) \<le> i \<and> i < 2 ^ 63)"
| "toml_scalar_ok (TFloat d) = toml_float_ok d"
| "toml_scalar_ok (TBool b) = True"
| "toml_scalar_ok (TArr vs) = list_all (\<lambda>v. case v of TStr s \<Rightarrow> cstring s | _ \<Rightarrow> False) vs"
| "toml_scalar_ok (TTable kvs) = False"

fun toml_members_ok :: "(string \<times> toml_value) list \<Rightarrow> bool" where
  "toml_members_ok [] = True"
| "toml_members_ok ((k, TTable sub) # kvs) =
     (cstring k \<and> k \<notin> fst ` set kvs \<and> toml_members_ok sub \<and> toml_members_ok kvs)"
| "toml_members_ok ((k, v) # kvs) =
     (cstring k \<and> k \<notin> fst ` set kvs \<and> toml_scalar_ok v \<and> toml_members_ok kvs)"

end
