(* ===== verification/Toml_Roundtrip.thy ===== *)
theory Toml_Roundtrip
  imports Toml_Writer
begin

text \<open>
  The TOML writer and parser together: the document \<open>toml_dumps\<close> writes for a tree parses to
  the same tree, with the members of each table in the writer's order.
\<close>

abbreviation ts :: "string \<Rightarrow> nat \<Rightarrow> toml_value \<Rightarrow> string list \<Rightarrow> toml_parser" where
  "ts r l root cur \<equiv> \<lparr>tp_rest = r, tp_line = l, tp_err = None, tp_root = root, tp_cur = cur\<rparr>"

lemma ts_simps [simp]:
  "tadv (ts (c # r) l t p) = ts r l t p"
  "tpeek (ts (c # r) l t p) c' \<longleftrightarrow> c = c'"
  "\<not> tpeek (ts [] l t p) c'"
  by (simp_all add: tadv_def tpeek_def)

section \<open>Strings\<close>

lemma hexdig_upper_xdigit:
  assumes "n < 16"
  shows "isxdigit (hexdig_upper n)" and "nat (xdigit_val (hexdig_upper n)) = n"
  using assms
  by (auto simp: hexdig_upper_def isxdigit_def isdigit_def xdigit_val_def)

lemma printable_not_control:
  "0x20 \<le> ordc c \<Longrightarrow> c \<noteq> CHR 0x0A \<and> c \<noteq> CHR 0x09 \<and> c \<noteq> CHR 0x0D \<and> c \<noteq> CHR 0x08 \<and> c \<noteq> CHR 0x0C \<and> \<not> ordc c < 0x20"
  by auto

lemma unescape_printable:
  assumes "0x20 \<le> ordc c"
  shows "toml_str_loop CHR 0x22 st (dump_char c @ r) l b = toml_str_loop CHR 0x22 st r l (b @ [c])"
proof (cases "c = CHR 0x22 \<or> c = CHR 0x5C")
  case True
  then show ?thesis by (elim disjE) (simp_all add: dump_char_def toml_unescape_def Let_def)
next
  case False
  with printable_not_control [OF assms] show ?thesis by (simp add: dump_char_def)
qed

lemma unescape_short:
  assumes "c \<in> {CHR 0x08, CHR 0x09, CHR 0x0A, CHR 0x0C, CHR 0x0D}"
  shows "toml_str_loop CHR 0x22 st (dump_char c @ r) l b = toml_str_loop CHR 0x22 st r l (b @ [c])"
  using assms by (elim insertE emptyE) (simp_all add: dump_char_def toml_unescape_def)

lemma hex4_dump:
  assumes "n < 32"
  shows "hex4 4 0 (CHR ''0'' # CHR ''0'' # hexdig_upper (n div 16) # hexdig_upper (n mod 16) # r) = HOk n r"
proof -
  have four: "(4::nat) = Suc (Suc (Suc (Suc 0)))" by simp
  have "n div 16 < 16" using assms by simp
  moreover have "isxdigit CHR ''0''" "xdigit_val CHR ''0'' = 0"
    by (simp_all add: isxdigit_def isdigit_def xdigit_val_def)
  ultimately show ?thesis
    using hexdig_upper_xdigit [of "n div 16"] hexdig_upper_xdigit [of "n mod 16"]
    by (simp add: four)
qed

lemma unescape_control:
  assumes "ordc c < 32" and "ordc c \<notin> {8, 9, 10, 12, 13}"
  shows "toml_str_loop CHR 0x22 st (dump_char c @ r) l b = toml_str_loop CHR 0x22 st r l (b @ [c])"
proof -
  have ne: "c \<noteq> CHR 0x22" "c \<noteq> CHR 0x5C" "c \<noteq> CHR 0x0A" "c \<noteq> CHR 0x09" "c \<noteq> CHR 0x0D" "c \<noteq> CHR 0x08" "c \<noteq> CHR 0x0C"
    using assms by auto
  have d: "dump_char c =
      [CHR 0x5C, CHR ''u'', CHR ''0'', CHR ''0'', hexdig_upper (ordc c div 16), hexdig_upper (ordc c mod 16)]"
    using ne assms by (simp add: dump_char_def)
  have u: "utf8_encode (ordc c) = [c]" using assms by (simp add: utf8_encode_def)
  show ?thesis using hex4_dump [OF assms(1), of r] by (simp add: d toml_unescape_def u)
qed

lemma toml_unescape_dump_char:
  "toml_str_loop CHR 0x22 st (dump_char c @ r) l b = toml_str_loop CHR 0x22 st r l (b @ [c])"
  using unescape_printable [of c] unescape_control [of c] unescape_short [OF control_cases, of c]
  by (meson not_less)

lemma toml_string_loop_roundtrip:
  "cstring s \<Longrightarrow> toml_str_loop CHR 0x22 st (concat (map dump_char s) @ CHR 0x22 # r) l b =
     (Some (cstr (b @ s)), r, l, None)"
proof (induction s arbitrary: b)
  case (Cons c s)
  then show ?case by (simp only: list.map concat.simps append_assoc toml_unescape_dump_char) (simp add: cstring_def)
qed simp

lemma toml_parse_string_roundtrip [simp]:
  "cstring s \<Longrightarrow>
   toml_parse_string (ts (concat (map dump_char s) @ CHR 0x22 # r) l t p) CHR 0x22 = (Some s, ts r l t p)"
  using toml_string_loop_roundtrip [of s l r l "[]"] by (simp add: toml_parse_string_def)

section \<open>Keys\<close>

lemma parse_key_segment_roundtrip:
  assumes "cstring k" and "\<not> is_bare c"
  shows "parse_key_segment (ts (dump_path_key k @ c # r) l t p) = (Some k, ts (c # r) l t p)"
proof (cases "bare_safe_key k")
  case True
  then obtain a u where k: "k = a # u" and b: "is_bare a" by (cases k) (auto simp: bare_safe_key_def)
  then have "\<not> is_quote a" by (auto simp: is_bare_def is_quote_def isalnum_def isalpha_def isdigit_def)
  moreover have "takeWhile is_bare (k @ c # r) = k"
    using True assms(2) by (intro takeWhile_stop) (auto simp: bare_safe_key_def list_all_iff)
  ultimately show ?thesis
    using True b by (simp add: dump_path_key_def parse_key_segment_def parse_bare_key_def k)
next
  case False
  with assms(1) show ?thesis
    by (simp add: dump_path_key_def dump_string_def parse_key_segment_def is_quote_def)
qed

lemma not_bare [simp]: "\<not> is_bare CHR ''.''" "\<not> is_bare CHR '' ''" "\<not> is_bare CHR '']''"
  by (simp_all add: is_bare_def isalnum_def isalpha_def isdigit_def)

lemma toml_key_loop_roundtrip:
  assumes "segs \<noteq> []" and "list_all cstring segs" and "\<not> is_bare c" and "c \<noteq> CHR ''.''"
  shows "toml_key_loop (ts (join_with ''.'' (map dump_path_key segs) @ c # r) l t p) acc =
    (Some (acc @ segs), ts (c # r) l t p)"
  using assms
proof (induction "''.''" segs arbitrary: acc rule: join_with.induct)
  case (2 s)
  then show ?case
    by (simp add: toml_key_loop.simps [of "ts _ _ _ _"] parse_key_segment_roundtrip)
next
  case (3 s u ss)
  then show ?case
    by (simp add: toml_key_loop.simps [of "ts (_ @ _) _ _ _"] parse_key_segment_roundtrip)
qed simp

section \<open>Values\<close>

lemma toml_num_loop_ext:
  assumes "toml_num_loop t c f d = (c', f', d', [])"
  shows "toml_num_loop (t @ CHR 0x0A # r) c f d = (c', f', d', CHR 0x0A # r)"
  using assms
proof (induction t c f d rule: toml_num_loop.induct)
  case (1 c f d)
  then show ?case by (simp add: isdigit_def)
next
  case (2 x t c f d)
  have nl: "\<not> isdigit CHR 0x0A" by (simp add: isdigit_def)
  define us where "us \<longleftrightarrow> x = CHR ''_'' \<and> d > 0 \<and> t \<noteq> [] \<and> isdigit (hd t)"
  define ex where "ex \<longleftrightarrow> (x = CHR ''e'' \<or> x = CHR ''E'') \<and> d > 0"
  define sg where "sg \<longleftrightarrow> t \<noteq> [] \<and> (hd t = CHR ''+'' \<or> hd t = CHR ''-'')"
  have app: "(x = CHR ''_'' \<and> d > 0 \<and> t @ CHR 0x0A # r \<noteq> [] \<and> isdigit (hd (t @ CHR 0x0A # r))) = us"
    "(t @ CHR 0x0A # r \<noteq> [] \<and> (hd (t @ CHR 0x0A # r) = CHR ''+'' \<or> hd (t @ CHR 0x0A # r) = CHR ''-'')) = sg"
    "sg \<Longrightarrow> tl (t @ CHR 0x0A # r) = tl t @ CHR 0x0A # r \<and> hd (t @ CHR 0x0A # r) = hd t"
    using nl by (cases t; simp add: us_def sg_def)+
  show ?case
    using "2.prems" "2.IH" unfolding append_Cons toml_num_loop.simps app us_def [symmetric] ex_def [symmetric] sg_def [symmetric]
    using app(3) by (cases "isdigit x"; cases us; cases "x = CHR ''.''"; cases ex; cases sg) simp_all
qed

lemma toml_num_loop_digits:
  "list_all isdigit t \<Longrightarrow> length c + length t < 64 \<Longrightarrow>
   toml_num_loop t c f d = (c @ t, f, d + length t, [])"
  by (induction t arbitrary: c d) (auto simp: push_tok_def)

lemma parse_value_number:
  assumes "isdigit c \<or> c = CHR ''-''"
  shows "toml_parse_value (ts (c # r) l t p) = toml_parse_number (ts (c # r) l t p)"
proof -
  have "\<not> is_quote c" "c \<noteq> CHR ''[''" "c \<noteq> CHR ''t''" "c \<noteq> CHR ''f''"
    using assms by (auto simp: is_quote_def isdigit_def)
  then show ?thesis by (simp add: toml_parse_value_def bool_word_def)
qed

lemma parse_number_text:
  assumes "x \<noteq> []" and "sg \<longleftrightarrow> hd x = CHR ''-''" and "hd x \<noteq> CHR ''+''" and "length x < 64"
    and "toml_num_loop (if sg then tl x else x) (if sg then ''-'' else []) False 0 = (x, f, n, [])"
    and "n > 0"
  shows "toml_parse_number (ts (x @ CHR 0x0A # r) l t p) =
    (if f then
       (case strtod x of (d, k, _) \<Rightarrow>
          if k = 0 \<or> k \<noteq> length x then (None, parse_error ''invalid float'' (ts (CHR 0x0A # r) l t p))
          else (Some (TFloat d), ts (CHR 0x0A # r) l t p))
     else
       (case strtoll x of (iv, k, erange) \<Rightarrow>
          if erange \<or> k = 0 \<or> k \<noteq> length x then (None, parse_error ''invalid integer'' (ts (CHR 0x0A # r) l t p))
          else (Some (TInt iv), ts (CHR 0x0A # r) l t p)))"
proof -
  obtain c u where x: "x = c # u" using assms(1) by (cases x) auto
  have c: "tpeek (ts (x @ CHR 0x0A # r) l t p) CHR ''+'' \<or> tpeek (ts (x @ CHR 0x0A # r) l t p) CHR ''-'' \<longleftrightarrow> sg"
    using assms(2,3) by (simp add: x)
  have num: "toml_num_loop (if sg then tl (x @ CHR 0x0A # r) else x @ CHR 0x0A # r)
      (if sg then push_tok [] (hd (x @ CHR 0x0A # r)) else []) False 0 = (x, f, n, CHR 0x0A # r)"
    using toml_num_loop_ext [OF assms(5), of r] assms(2) by (cases sg) (simp_all add: x push_tok_def)
  show ?thesis
    unfolding toml_parse_number_def Let_def c toml_parser.select_convs num prod.case using assms(1,4,6)
    by (cases "strtod x"; cases "strtoll x"; cases f) simp_all
qed

lemma toml_value_int:
  assumes "- (2 ^ 63) \<le> i" and "i < 2 ^ 63"
  shows "toml_parse_value (ts (fmt_d i @ CHR 0x0A # r) l t p) = (Some (TInt i), ts (CHR 0x0A # r) l t p)"
proof -
  define a where "a = \<bar>i\<bar>"
  have a: "0 \<le> a" "a < 10 ^ Suc 18" using assms by (auto simp: a_def)
  obtain c u where s: "show_dec a = c # u" using show_dec_nonempty [OF a(1)] by (cases "show_dec a") auto
  have dg: "list_all isdigit (show_dec a)" using show_dec_digits [OF a(1)] by (simp add: list_all_iff)
  then have c: "isdigit c" by (simp add: s)
  have len: "length (show_dec a) \<le> 19" using show_dec_length [OF a] by simp
  have fmt: "fmt_d i = (if i < 0 then CHR ''-'' # show_dec a else show_dec a)"
    by (simp add: fmt_d_def a_def)
  have num: "toml_parse_number (ts (fmt_d i @ CHR 0x0A # r) l t p) = (Some (TInt i), ts (CHR 0x0A # r) l t p)"
    using strtoll_show [OF assms, of "[]"] c isdigit_not_sign [OF c] len dg s
    by (subst parse_number_text [where sg = "i < 0" and f = False and n = "length (show_dec a)"])
      (auto simp: fmt toml_num_loop_digits simp del: append_Cons)
  show ?thesis
    using c num parse_value_number [of "hd (fmt_d i)" "tl (fmt_d i) @ CHR 0x0A # r" l t p]
    by (auto simp: fmt s split: if_splits)
qed

lemma toml_value_float:
  assumes "toml_float_ok d"
  shows "toml_parse_value (ts (dump_float d @ CHR 0x0A # r) l t p) = (Some (TFloat d), ts (CHR 0x0A # r) l t p)"
proof -
  define x where "x = dump_float d"
  obtain k e where st: "strtod x = (d, k, e)" and k: "k = length x" and x: "x \<noteq> []" "length x < 64"
    and h: "hd x = CHR ''-'' \<or> isdigit (hd x)"
    using assms by (cases "strtod x") (auto simp: toml_float_ok_def Let_def x_def)
  obtain n where n: "n > 0" "toml_num_loop (if hd x = CHR ''-'' then tl x else x)
      (if hd x = CHR ''-'' then ''-'' else []) False 0 = (x, True, n, [])"
    using assms by (auto simp: toml_float_ok_def Let_def x_def [symmetric] split: prod.splits)
  have "hd x \<noteq> CHR ''+''" using h by (auto simp: isdigit_def)
  then have "toml_parse_number (ts (x @ CHR 0x0A # r) l t p) = (Some (TFloat d), ts (CHR 0x0A # r) l t p)"
    using x n st k
    by (subst parse_number_text [where sg = "hd x = CHR ''-''" and f = True and n = n]) simp_all
  with parse_value_number [of "hd x" "tl x @ CHR 0x0A # r" l t p] h x(1) show ?thesis
    by (cases x) (auto simp: x_def [symmetric])
qed

lemma ws_run_none: "\<not> is_toml_blank c \<Longrightarrow> c \<noteq> CHR ''#'' \<Longrightarrow> c \<noteq> CHR 0x0A \<Longrightarrow> toml_ws_run (c # r) l = (c # r, l)"
  by simp

lemma skip_ws_ts:
  "\<not> is_toml_blank c \<Longrightarrow> c \<noteq> CHR ''#'' \<Longrightarrow> c \<noteq> CHR 0x0A \<Longrightarrow> toml_skip_ws (ts (c # r) l t p) = ts (c # r) l t p"
  "\<not> is_toml_blank c \<Longrightarrow> c \<noteq> CHR ''#'' \<Longrightarrow> c \<noteq> CHR 0x0A \<Longrightarrow> toml_skip_ws (ts (CHR '' '' # c # r) l t p) = ts (c # r) l t p"
  by (simp_all add: toml_skip_ws_def is_toml_blank_def)

lemma toml_array_roundtrip:
  assumes "list_all cstring ss"
  shows "w \<in> {[], '' ''} \<Longrightarrow>
    toml_array_loop (ts ((if ss = [] then [] else w) @ join_with '', '' (map dump_string ss) @ CHR '']'' # r) l t p) items =
    (Some (TArr (items @ map TStr ss)), ts r l t p)"
  using assms
proof (induction "'', ''" ss arbitrary: items w rule: join_with.induct)
  case 1
  then show ?case by (simp add: toml_array_loop.simps [of "ts _ _ _ _"] skip_ws_ts is_toml_blank_def)
next
  case (2 s)
  then show ?case
    by (auto simp: toml_array_loop.simps [of "ts _ _ _ _"] skip_ws_ts is_toml_blank_def dump_string_def
        is_quote_def)
next
  case (3 s u ss)
  define y where "y = join_with '', '' (map dump_string (u # ss)) @ CHR '']'' # r"
  have IH: "toml_array_loop (ts (CHR '' '' # y) l t p) (items @ [TStr s]) =
      (Some (TArr ((items @ [TStr s]) @ map TStr (u # ss))), ts r l t p)"
    using "3.hyps" [of "'' ''" "items @ [TStr s]"] "3.prems" by (simp add: y_def)
  have "join_with '', '' (map dump_string (s # u # ss)) @ CHR '']'' # r =
      CHR 0x22 # concat (map dump_char s) @ CHR 0x22 # CHR '','' # CHR '' '' # y"
    by (simp add: y_def dump_string_def)
  with "3.prems" IH [unfolded list.map(2)] show ?case
    by (auto simp del: join_with.simps simp: toml_array_loop.simps [of "ts (CHR 0x22 # _) _ _ _"]
        toml_array_loop.simps [of "ts (CHR '' '' # CHR 0x22 # _) _ _ _"] skip_ws_ts is_toml_blank_def
        is_quote_def)
qed

lemma toml_value_roundtrip:
  assumes "toml_scalar_ok v"
  shows "toml_parse_value (ts (toml_dump_value v @ CHR 0x0A # r) l t p) = (Some v, ts (CHR 0x0A # r) l t p)"
proof (cases v)
  case (TStr s)
  with assms show ?thesis
    by (simp add: dump_string_def toml_parse_value_def is_quote_def toml_new_str_def)
next
  case (TBool b)
  have "\<not> isalnum CHR 0x0A" by (simp add: isalnum_def isalpha_def isdigit_def)
  then show ?thesis
    by (cases b) (simp_all add: TBool toml_parse_value_def is_quote_def bool_word_def toml_new_bool_def)
next
  case (TArr vs)
  have "list_all (\<lambda>v. case v of TStr s \<Rightarrow> cstring s | _ \<Rightarrow> False) vs" using assms by (simp add: TArr)
  then have "\<exists>ss. vs = map TStr ss \<and> list_all cstring ss"
  proof (induction vs)
    case (Cons x xs)
    then obtain ss where "xs = map TStr ss" "list_all cstring ss" by auto
    with Cons.prems show ?case by (auto split: toml_value.splits intro!: exI [of _ "_ # ss"])
  qed simp
  then obtain ss where ss: "vs = map TStr ss" "list_all cstring ss" by blast
  have "map toml_dump_value vs = map dump_string ss" by (simp add: ss)
  then show ?thesis
    using toml_array_roundtrip [OF ss(2), of "[]" "CHR 0x0A # r" l t p "[]"]
    by (simp add: TArr ss toml_parse_value_def is_quote_def comp_def)
qed (use assms in \<open>simp_all add: toml_value_int toml_value_float\<close>)

section \<open>Statements\<close>

lemma skip_line_end_nl [simp]: "toml_skip_line_end (ts (CHR 0x0A # r) l t p) = (0, ts (CHR 0x0A # r) l t p)"
  by (simp add: toml_skip_line_end_def is_toml_blank_def)

lemma dump_path_key_head:
  "\<exists>c u. dump_path_key k @ r = c # u \<and> (is_bare c \<or> c = CHR 0x22)"
  by (cases k) (auto simp: dump_path_key_def dump_string_def bare_safe_key_def)

lemma key_head_class:
  "is_bare c \<or> c = CHR 0x22 \<Longrightarrow> \<not> is_toml_blank c \<and> c \<noteq> CHR ''#'' \<and> c \<noteq> CHR 0x0A \<and> c \<noteq> CHR ''[''"
  by (auto simp: is_bare_def isalnum_def isalpha_def isdigit_def is_toml_blank_def)

lemma value_head:
  assumes "toml_scalar_ok v"
  shows "\<exists>c u. toml_dump_value v = c # u \<and> \<not> is_toml_blank c \<and> c \<noteq> CHR ''#'' \<and> c \<noteq> CHR 0x0A"
proof (cases v)
  case (TInt i)
  have "\<exists>c u. show_dec \<bar>i\<bar> = c # u \<and> isdigit c"
    using show_dec_props [of "\<bar>i\<bar>"] by (cases "show_dec \<bar>i\<bar>") auto
  then obtain c u where "fmt_d i = c # u" "isdigit c \<or> c = CHR ''-''"
    by (cases "i < 0") (auto simp: fmt_d_def)
  then show ?thesis by (auto simp: TInt is_toml_blank_def isdigit_def)
next
  case (TFloat d)
  then obtain c u where "dump_float d = c # u" "isdigit c \<or> c = CHR ''-''"
    using assms by (cases "dump_float d") (auto simp: toml_float_ok_def Let_def)
  then show ?thesis by (auto simp: TFloat is_toml_blank_def isdigit_def)
qed (use assms in \<open>auto simp: dump_string_def is_toml_blank_def\<close>)

lemma toml_assign_roundtrip:
  assumes "cstring k" and "toml_scalar_ok v"
    and "toml_enter root cur = Some root" and "toml_add_at root cur k v = (0, root')"
  shows "toml_assign (ts (dump_path_key k @ '' = '' @ toml_dump_value v @ CHR 0x0A # r) l root cur) =
    (True, ts (CHR 0x0A # r) l root' cur)"
proof -
  obtain c u where v: "toml_dump_value v = c # u" and c: "\<not> is_toml_blank c" "c \<noteq> CHR ''#''" "c \<noteq> CHR 0x0A"
    using value_head [OF assms(2)] by blast
  have key: "parse_key_path (ts (dump_path_key k @ '' = '' @ toml_dump_value v @ CHR 0x0A # r) l root cur) =
      (Some [k], ts ('' = '' @ toml_dump_value v @ CHR 0x0A # r) l root cur)"
    using toml_key_loop_roundtrip [of "[k]" "CHR '' ''"] assms(1) by (simp add: parse_key_path_def)
  have "toml_skip_ws (ts ('' = '' @ toml_dump_value v @ CHR 0x0A # r) l root cur) =
      ts (''= '' @ toml_dump_value v @ CHR 0x0A # r) l root cur"
    by (simp add: skip_ws_ts is_toml_blank_def)
  moreover have "toml_skip_ws (ts ('' '' @ toml_dump_value v @ CHR 0x0A # r) l root cur) =
      ts (toml_dump_value v @ CHR 0x0A # r) l root cur"
    using c by (simp add: v skip_ws_ts)
  ultimately show ?thesis
    using toml_value_roundtrip [OF assms(2), of r l root cur] assms(3,4)
    unfolding toml_assign_def key by (simp add: Let_def)
qed

lemma toml_header_roundtrip:
  assumes "list_all cstring segs" and "segs \<noteq> []" and "toml_enter root segs = Some root'"
  shows "toml_header (ts (dump_header segs @ r) l root cur) = (True, ts (CHR 0x0A # r) l root' segs)"
  using toml_key_loop_roundtrip [OF assms(2,1), of "CHR '']''"] assms(3)
  by (simp add: toml_header_def dump_header_def parse_key_path_def)

text \<open>The loop: a leading newline is skipped, and one statement makes one turn.\<close>

lemma toml_loop_nl: "toml_loop (ts (CHR 0x0A # r) l t p) = toml_loop (ts r (l + 1) t p)"
proof -
  have "toml_skip_ws (ts (CHR 0x0A # r) l t p) = toml_skip_ws (ts r (l + 1) t p)"
    by (simp add: toml_skip_ws_def is_toml_blank_def)
  then show ?thesis
    by (cases r) (simp_all add: toml_loop.simps [of "ts _ _ _ _"] toml_skip_ws_def Let_def)
qed

lemma toml_loop_statement:
  assumes "\<not> is_toml_blank c" and "c \<noteq> CHR ''#''" and "c \<noteq> CHR 0x0A"
    and "toml_statement (ts (c # r) l t p) = (True, ps')"
  shows "toml_loop (ts (c # r) l t p) = toml_loop ps'"
  using assms by (subst toml_loop.simps) (simp add: skip_ws_ts)

lemma toml_loop_assign:
  assumes "cstring k" and "toml_scalar_ok v"
    and "toml_enter root cur = Some root" and "toml_add_at root cur k v = (0, root')"
  shows "toml_loop (ts (dump_path_key k @ '' = '' @ toml_dump_value v @ CHR 0x0A # r) l root cur) =
    toml_loop (ts r (l + 1) root' cur)"
proof -
  obtain c u where cu: "dump_path_key k @ '' = '' @ toml_dump_value v @ CHR 0x0A # r = c # u"
    and c: "is_bare c \<or> c = CHR 0x22" using dump_path_key_head by blast
  have "toml_statement (ts (c # u) l root cur) = (True, ts (CHR 0x0A # r) l root' cur)"
    using toml_assign_roundtrip [OF assms, of r l] key_head_class [OF c]
    unfolding cu by (simp add: toml_statement_def)
  with key_head_class [OF c] show ?thesis
    unfolding cu by (simp add: toml_loop_statement toml_loop_nl)
qed

lemma toml_loop_header:
  assumes "list_all cstring segs" and "segs \<noteq> []" and "toml_enter root segs = Some root'"
  shows "toml_loop (ts (dump_header segs @ r) l root cur) = toml_loop (ts r (l + 1) root' segs)"
proof -
  obtain u where u: "dump_header segs @ r = CHR ''['' # u" by (simp add: dump_header_def)
  have "toml_statement (ts (CHR ''['' # u) l root cur) = (True, ts (CHR 0x0A # r) l root' segs)"
    using toml_header_roundtrip [OF assms, of r l cur] unfolding u by (simp add: toml_statement_def)
  then show ?thesis
    using toml_loop_statement [of "CHR ''[''" u l root cur]
    unfolding u by (simp add: is_toml_blank_def toml_loop_nl)
qed

section \<open>The tree\<close>

text \<open>
  \<open>table_ctx C path\<close>: the root \<open>C kvs\<close> has the table with members \<open>kvs\<close> at \<open>path\<close>, so that
  entering and adding below \<open>path\<close> act on \<open>kvs\<close> alone.
\<close>

definition table_ctx :: "((string \<times> toml_value) list \<Rightarrow> toml_value) \<Rightarrow> string list \<Rightarrow> bool" where
  "table_ctx C path \<longleftrightarrow>
     (\<forall>kvs ss kvs'. toml_enter (TTable kvs) ss = Some (TTable kvs') \<longrightarrow>
        toml_enter (C kvs) (path @ ss) = Some (C kvs')) \<and>
     (\<forall>kvs ss k v kvs'. toml_add_at (TTable kvs) ss k v = (0, TTable kvs') \<longrightarrow>
        toml_add_at (C kvs) (path @ ss) k v = (0, C kvs'))"

lemma table_ctx_root: "table_ctx TTable []"
  by (simp add: table_ctx_def)

lemma put_assoc_last: "k \<notin> fst ` set acc \<Longrightarrow> put_assoc k v (acc @ [(k, x)]) = acc @ [(k, v)]"
  by (induction acc) auto

lemma map_of_last: "k \<notin> fst ` set acc \<Longrightarrow> ([k \<mapsto> x] ++ map_of acc) k = Some x"
  by (simp add: map_add_def map_of_eq_None_iff [THEN iffD2])

lemma table_ctx_sub:
  assumes "table_ctx C path" and "k \<notin> fst ` set acc"
  shows "table_ctx (\<lambda>sub. C (acc @ [(k, TTable sub)])) (path @ [k])"
proof -
  have "toml_enter (TTable (acc @ [(k, TTable sub)])) (k # ss) = Some (TTable (acc @ [(k, TTable sub')]))"
    if "toml_enter (TTable sub) ss = Some (TTable sub')" for sub ss sub'
    using that assms(2) by (simp add: map_of_last put_assoc_last)
  moreover have "toml_add_at (TTable (acc @ [(k, TTable sub)])) (k # ss) k' v = (0, TTable (acc @ [(k, TTable sub')]))"
    if "toml_add_at (TTable sub) ss k' v = (0, TTable sub')" for sub ss sub' k' v
    using that assms(2) by (simp add: map_of_last put_assoc_last)
  ultimately show ?thesis
    using assms(1) unfolding table_ctx_def append_assoc append_Cons append_Nil by blast
qed

lemma table_ctx_use:
  assumes "table_ctx C path"
  shows "toml_enter (C kvs) path = Some (C kvs)"
    and "k \<notin> fst ` set kvs \<Longrightarrow> toml_add_at (C kvs) path k v = (0, C (kvs @ [(k, v)]))"
    and "k \<notin> fst ` set kvs \<Longrightarrow> toml_enter (C kvs) (path @ [k]) = Some (C (kvs @ [(k, TTable [])]))"
proof -
  have e: "toml_enter (TTable kvs) ss = Some (TTable kvs') \<Longrightarrow> toml_enter (C kvs) (path @ ss) = Some (C kvs')"
    and a: "toml_add_at (TTable kvs) ss k v = (0, TTable kvs') \<Longrightarrow> toml_add_at (C kvs) (path @ ss) k v = (0, C kvs')"
    for kvs ss kvs' k v
    using assms by (auto simp: table_ctx_def)
  show "toml_enter (C kvs) path = Some (C kvs)" using e [of kvs "[]"] by simp
  show "toml_add_at (C kvs) path k v = (0, C (kvs @ [(k, v)]))" if "k \<notin> fst ` set kvs"
    using a [of kvs "[]" k v] that by (simp add: toml_table_add_def)
  show "toml_enter (C kvs) (path @ [k]) = Some (C (kvs @ [(k, TTable [])]))" if "k \<notin> fst ` set kvs"
    using e [of kvs "[k]"] that by (simp add: map_of_eq_None_iff [THEN iffD2])
qed

abbreviation scalars :: "(string \<times> toml_value) list \<Rightarrow> (string \<times> toml_value) list" where
  "scalars \<equiv> filter (\<lambda>(k, v). \<not> is_table v)"

lemma members_ok_cons:
  "toml_members_ok ((k, v) # kvs) \<longleftrightarrow> cstring k \<and> k \<notin> fst ` set kvs \<and> toml_members_ok kvs \<and>
     (case v of TTable sub \<Rightarrow> toml_members_ok sub | _ \<Rightarrow> toml_scalar_ok v)"
  by (cases v) auto

lemma members_ok_distinct: "toml_members_ok kvs \<Longrightarrow> distinct (map fst kvs)"
  by (induction kvs) (force simp: members_ok_cons)+

lemma members_disjoint:
  assumes "toml_members_ok kvs"
  shows "fst ` set (scalars kvs) \<inter> fst ` set (filter (\<lambda>(k, v). is_table v) kvs) = {}"
  using eq_key_imp_eq_value [OF members_ok_distinct [OF assms]] by fastforce

lemma scalars_loop:
  assumes "toml_members_ok kvs" and "table_ctx C path" and "fst ` set acc \<inter> fst ` set kvs = {}"
  shows "\<exists>l'. toml_loop (ts (dump_scalars kvs @ r) l (C acc) path) =
    toml_loop (ts r l' (C (acc @ scalars kvs)) path)"
  using assms(1,3)
proof (induction kvs arbitrary: acc l)
  case (Cons kv kvs)
  obtain k v where kv: "kv = (k, v)" by (cases kv)
  show ?case
  proof (cases "is_table v")
    case True
    with Cons show ?thesis by (simp add: kv members_ok_cons)
  next
    case False
    then have v: "toml_scalar_ok v" and k: "cstring k" "k \<notin> fst ` set acc"
      using Cons.prems by (auto simp: kv members_ok_cons split: toml_value.splits)
    have "toml_loop (ts (dump_scalars (kv # kvs) @ r) l (C acc) path) =
        toml_loop (ts (dump_scalars kvs @ r) (l + 1) (C (acc @ [(k, v)])) path)"
      using toml_loop_assign [OF k(1) v table_ctx_use(1,2) [OF assms(2)] , of acc] assms(2) k(2) False
      by (simp add: kv table_ctx_use)
    moreover have "fst ` set (acc @ [(k, v)]) \<inter> fst ` set kvs = {}"
      using Cons.prems by (auto simp: kv members_ok_cons)
    ultimately show ?thesis
      using Cons.IH [of "acc @ [(k, v)]" "l + 1"] Cons.prems False by (simp add: kv members_ok_cons)
  qed
qed auto

lemma subtables_loop:
  assumes "dump_subtables kvs segs nl = Some out" and "toml_members_ok kvs" and "table_ctx C segs"
    and "fst ` set acc \<inter> fst ` set (filter (\<lambda>(k, v). is_table v) kvs) = {}" and "list_all cstring segs"
  shows "\<exists>l' cur'. toml_loop (ts (out @ r) l (C acc) cur) =
    toml_loop (ts r l' (C (acc @ table_members kvs)) cur')"
  using assms
proof (induction kvs segs nl arbitrary: out C acc r l cur rule: dump_subtables.induct)
  case (2 k sub kvs segs nl)
  then obtain inner rest where
    inner: "dump_subtables sub (segs @ [k]) (has_scalar sub) = Some inner" and
    rest: "dump_subtables kvs segs True = Some rest" and
    out: "out = (if nl then [CHR 0x0A] else []) @ dump_header (segs @ [k]) @ dump_scalars sub @ inner @ rest" and
    dep: "\<not> TOML_MAX_DEPTH - 1 \<le> length segs"
    by (auto split: if_splits option.splits)
  have k: "cstring k" "k \<notin> fst ` set acc" and sub: "toml_members_ok sub" and kvs: "toml_members_ok kvs"
    using "2.prems" by auto
  define D where "D = (\<lambda>sub. C (acc @ [(k, TTable sub)]))"
  have D: "table_ctx D (segs @ [k])" unfolding D_def using "2.prems"(3) k(2) by (rule table_ctx_sub)
  have segs: "list_all cstring (segs @ [k])" using "2.prems"(5) k by simp
  have dist: "fst ` set (scalars sub) \<inter> fst ` set (filter (\<lambda>(k, v). is_table v) sub) = {}"
    using sub by (rule members_disjoint)
  obtain l0 where "toml_loop (ts (out @ r) l (C acc) cur) =
      toml_loop (ts (dump_header (segs @ [k]) @ dump_scalars sub @ inner @ rest @ r) l0 (C acc) cur)"
    unfolding out by (cases nl) (auto simp: toml_loop_nl)
  also have "\<dots> = toml_loop (ts (dump_scalars sub @ inner @ rest @ r) (l0 + 1) (D []) (segs @ [k]))"
    unfolding D_def using toml_loop_header [OF segs _ table_ctx_use(3) [OF "2.prems"(3) k(2)]] by simp
  also obtain l1 where "\<dots> = toml_loop (ts (inner @ rest @ r) l1 (D (scalars sub)) (segs @ [k]))"
    using scalars_loop [OF sub D, of "[]"] by auto
  also obtain l2 cur2 where "\<dots> = toml_loop (ts (rest @ r) l2 (D (scalars sub @ table_members sub)) cur2)"
    using "2.IH"(1) [OF dep inner sub D dist segs] by blast
  also have "D (scalars sub @ table_members sub) =
      C (acc @ [(k, TTable (scalars sub @ table_members sub))])" by (simp add: D_def)
  also obtain l3 cur3 where "toml_loop (ts (rest @ r) l2 (C (acc @ [(k, TTable (scalars sub @ table_members sub))])) cur2) =
      toml_loop (ts r l3 (C ((acc @ [(k, TTable (scalars sub @ table_members sub))]) @ table_members kvs)) cur3)"
  proof -
    have "fst ` set (acc @ [(k, TTable (scalars sub @ table_members sub))]) \<inter>
        fst ` set (filter (\<lambda>(k, v). is_table v) kvs) = {}"
      using "2.prems"(2,4) by auto
    with "2.IH"(2) [OF dep inner rest kvs "2.prems"(3) _ "2.prems"(5)] that show ?thesis by blast
  qed
  finally show ?case by auto
qed (auto)

lemma toml_roundtrip_tree:
  assumes "toml_members_ok kvs" and "toml_dumps (Some (TTable kvs)) = Some text"
  shows "toml_parse text = Inr (TTable (scalars_first kvs))"
proof -
  obtain rest where rest: "dump_subtables kvs [] (has_scalar kvs) = Some rest"
    and text_eq: "text = dump_scalars kvs @ rest"
    using assms(2) by (auto simp: toml_dumps_def dump_table_def split: option.splits)
  have dist: "fst ` set (scalars kvs) \<inter> fst ` set (filter (\<lambda>(k, v). is_table v) kvs) = {}"
    using assms(1) by (rule members_disjoint)
  obtain l1 where 1: "toml_loop (ts (dump_scalars kvs @ rest) 1 (TTable []) []) =
      toml_loop (ts rest l1 (TTable (scalars kvs)) [])"
    using scalars_loop [OF assms(1) table_ctx_root, of "[]" rest 1] by auto
  obtain l2 cur where 2: "toml_loop (ts (rest @ []) l1 (TTable (scalars kvs)) []) =
      toml_loop (ts [] l2 (TTable (scalars kvs @ table_members kvs)) cur)"
    using subtables_loop [OF rest assms(1) table_ctx_root dist, of "[]" l1 "[]"] by auto
  have "toml_loop (toml_init text) = ts [] l2 (TTable (scalars_first kvs)) cur"
    using 1 2 by (simp add: toml_init_def text_eq scalars_first_def toml_loop.simps [of "ts [] _ _ _"])
  then show ?thesis by (simp add: toml_parse_def)
qed

text \<open>
  C5: \<open>toml_parse\<close> reads back every document \<open>toml_dumps\<close> writes: the tree is the same, with the
  members of each table in the order the writer puts them (values first, then tables). Strings and keys are
  arbitrary C strings, integers any 64-bit value; floats are those whose 15 digits denote them.
\<close>

theorem toml_roundtrip:
  assumes "toml_members_ok kvs" and "toml_dumps (Some (TTable kvs)) = Some text"
  shows "toml_parse text = Inr (TTable (scalars_first kvs))"
  using assms by (rule toml_roundtrip_tree)

theorem toml_roundtrip_witness:
  "toml_parse (the (toml_dumps (Some (TTable [(''t'', TTable [(''x y'', TFloat (dlit 1 10))]),
       (''a'', TInt (- 5)), (''s'', TStr [CHR 0x01, CHR 0x22])])))) =
   Inr (TTable [(''a'', TInt (- 5)), (''s'', TStr [CHR 0x01, CHR 0x22]),
       (''t'', TTable [(''x y'', TFloat (dlit 1 10))])])"
  (is "toml_parse (the (toml_dumps (Some (TTable ?kvs)))) = Inr (TTable ?kvs')")
proof -
  have "toml_members_ok ?kvs" by code_simp
  moreover have "toml_dumps (Some (TTable ?kvs)) \<noteq> None" by code_simp
  then have "toml_dumps (Some (TTable ?kvs)) = Some (the (toml_dumps (Some (TTable ?kvs))))"
    by (rule option.collapse [symmetric])
  ultimately have "toml_parse (the (toml_dumps (Some (TTable ?kvs)))) = Inr (TTable (scalars_first ?kvs))"
    by (rule toml_roundtrip)
  moreover have "scalars_first ?kvs = ?kvs'" by code_simp
  ultimately show ?thesis by simp
qed

text \<open>
  The 15 digits of the writer do not carry every double: 0.1 + 0.2 is written as \<open>0.3\<close> and
  parses to another double.
\<close>

theorem toml_float_15_digits_lossy:
  "toml_dumps (Some (TTable [(''x'', TFloat (dadd (dlit 1 10) (dlit 2 10)))])) =
     Some (''x = 0.3'' @ [CHR 0x0A]) \<and>
   toml_parse (''x = 0.3'' @ [CHR 0x0A]) = Inr (TTable [(''x'', TFloat (dlit 3 10))]) \<and>
   dlit 3 10 \<noteq> dadd (dlit 1 10) (dlit 2 10)"
proof (intro conjI)
  show "toml_dumps (Some (TTable [(''x'', TFloat (dadd (dlit 1 10) (dlit 2 10)))])) =
     Some (''x = 0.3'' @ [CHR 0x0A])" by code_simp
  show "toml_parse (''x = 0.3'' @ [CHR 0x0A]) = Inr (TTable [(''x'', TFloat (dlit 3 10))])" by code_simp
  show "dlit 3 10 \<noteq> dadd (dlit 1 10) (dlit 2 10)" by code_simp
qed

text \<open>
  A number token of more than 63 characters is cut, not rejected: seventy digits with a
  point in front of the last two read as a value ten million times too small.
\<close>

theorem toml_long_number_truncated:
  "toml_parse (''x = 1'' @ replicate 69 CHR ''0'' @ ''.0'') =
   toml_parse (''x = 1'' @ replicate 62 CHR ''0'' @ ''.0'')"
  by code_simp

end
