(* ===== verification/Toml_Correct.thy ===== *)
theory Toml_Correct
  imports Toml_Roundtrip
begin

text \<open>
  Invariants of the TOML parser: a parsed document is a table whose keys are distinct at every
  level and whose arrays hold strings only, and looking up a key that was just added finds it.
\<close>

fun toml_wf :: "toml_value \<Rightarrow> bool" where
  "toml_wf (TTable kvs) = (distinct (map fst kvs) \<and> list_all (\<lambda>(k, v). toml_wf v) kvs)"
| "toml_wf (TArr vs) = list_all (\<lambda>v. case v of TStr s \<Rightarrow> True | _ \<Rightarrow> False) vs"
| "toml_wf _ = True"

section \<open>Preservation\<close>

lemma toml_wf_put:
  "toml_wf (TTable kvs) \<Longrightarrow> toml_wf v \<Longrightarrow> toml_wf (TTable (put_assoc k v kvs))"
  using set_put_assoc_subset [of k v kvs] by (auto simp: list_all_iff intro: distinct_put_assoc)

lemma toml_wf_child: "toml_wf (TTable kvs) \<Longrightarrow> map_of kvs k = Some c \<Longrightarrow> toml_wf c"
  by (auto simp: list_all_iff dest: map_of_SomeD)

lemma toml_enter_wf:
  "toml_enter t ss = Some t' \<Longrightarrow> toml_wf t \<Longrightarrow> toml_wf t' \<and> (is_table t \<longrightarrow> is_table t')"
proof (induction t ss arbitrary: t' rule: toml_enter.induct)
  case (2 kvs s ss)
  show ?case
  proof (cases "map_of kvs s")
    case None
    then obtain c where c: "toml_enter (TTable []) ss = Some c" "t' = TTable (kvs @ [(s, c)])"
      using "2.prems"(1) by (auto split: option.splits)
    have "toml_wf c" using "2.IH"(1) [OF None c(1)] by simp
    moreover have "s \<notin> fst ` set kvs" using None by (simp add: map_of_eq_None_iff)
    ultimately show ?thesis using c(2) "2.prems"(2) by (simp add: list_all_iff)
  next
    case (Some ch)
    then obtain c where c: "is_table ch" "toml_enter ch ss = Some c" "t' = TTable (put_assoc s c kvs)"
      using "2.prems"(1) by (auto split: option.splits if_splits)
    have "toml_wf c" using "2.IH"(2) [OF Some c(1,2)] toml_wf_child [OF "2.prems"(2) Some] by simp
    with toml_wf_put [OF "2.prems"(2)] c(3) show ?thesis by simp
  qed
qed auto

lemma toml_add_at_wf:
  "toml_add_at t ss k v = (rc, t') \<Longrightarrow> toml_wf t \<Longrightarrow> toml_wf v \<Longrightarrow> toml_wf t' \<and> (is_table t \<longrightarrow> is_table t')"
proof (induction t ss k v arbitrary: rc t' rule: toml_add_at.induct)
  case (1 t key v)
  then show ?case by (auto simp: toml_table_add_def split: toml_value.splits if_splits)
next
  case (2 kvs s ss key v)
  show ?case
  proof (cases "map_of kvs s")
    case (Some c)
    with 2 toml_wf_child [OF "2.prems"(2) Some] show ?thesis
      by (auto intro!: toml_wf_put simp del: toml_wf.simps split: prod.splits)
  qed (use 2 in auto)
qed auto

lemma toml_array_wf:
  "toml_array_loop ps items = (Some v, ps') \<Longrightarrow> toml_wf (TArr items) \<Longrightarrow> toml_wf v"
proof (induction ps items rule: toml_array_loop.induct)
  case (1 ps0 items)
  define ps where "ps = toml_skip_ws ps0"
  obtain r ps1 where str: "toml_parse_string (tadv ps) (hd (tp_rest ps)) = (r, ps1)" by fastforce
  define ps2 where "ps2 = toml_skip_ws ps1"
  have rec: "toml_wf v"
    if "r = Some s" "\<not> tpeek ps CHR '']''" "tp_rest ps \<noteq> []" "is_quote (hd (tp_rest ps))" "tpeek ps2 CHR '',''"
      "toml_array_loop (tadv ps2) (items @ [TStr s]) = (Some v, ps')" for s
    using "1.IH" [OF ps_def that(2,3) _ str [symmetric] that(1) ps2_def refl that(5,6)] that(4) "1.prems"(2)
    by simp
  show ?case
    using "1.prems" rec
    unfolding toml_array_loop.simps [of ps0] Let_def ps_def [symmetric] str prod.case
    by (auto simp: ps2_def [symmetric] split: option.splits if_splits)
qed

lemma toml_value_wf:
  assumes "toml_parse_value ps = (Some v, ps')"
  shows "toml_wf v"
proof -
  have num: "toml_wf v" if "toml_parse_number ps = (Some v, ps')"
    using that unfolding toml_parse_number_def Let_def
    by (auto split: prod.splits if_splits)
  show ?thesis
    using assms num
    by (auto simp: toml_parse_value_def toml_new_str_def toml_new_bool_def dest: toml_array_wf
        split: list.splits option.splits prod.splits if_splits)
qed

section \<open>The parser\<close>

abbreviation root_ok :: "toml_parser \<Rightarrow> bool" where
  "root_ok ps \<equiv> toml_wf (tp_root ps) \<and> is_table (tp_root ps)"

lemma skip_line_end_keeps:
  "toml_skip_line_end ps = (rc, ps') \<Longrightarrow> tp_root ps' = tp_root ps \<and> tp_cur ps' = tp_cur ps \<and> tp_err ps' = tp_err ps"
  by (auto simp: toml_skip_line_end_def Let_def)

lemma toml_header_wf:
  assumes "toml_header ps = (go, ps')" and "root_ok ps"
  shows "root_ok ps'"
proof -
  obtain k ps1 where k: "parse_key_path (tadv ps) = (k, ps1)" by fastforce
  obtain rc ps2 where e: "toml_skip_line_end (tadv ps1) = (rc, ps2)" by fastforce
  have "tp_root ps1 = tp_root ps" "tp_root ps2 = tp_root ps"
    using parse_key_path_length [OF k] skip_line_end_keeps [OF e] by auto
  with assms show ?thesis
    unfolding toml_header_def k prod.case e
    by (auto dest: toml_enter_wf split: option.splits if_splits)
qed

lemma toml_assign_wf:
  assumes "toml_assign ps = (go, ps')" and "root_ok ps"
  shows "root_ok ps'"
proof -
  obtain k ps1 where k: "parse_key_path ps = (k, ps1)" by fastforce
  define ps2 where "ps2 = toml_skip_ws ps1"
  define ps3 where "ps3 = toml_skip_ws (tadv ps2)"
  have r: "tp_root ps1 = tp_root ps" "tp_root ps2 = tp_root ps" "tp_root ps3 = tp_root ps"
    using parse_key_path_length [OF k] by (simp_all add: ps2_def ps3_def)
  have val: "tp_root ps4 = r \<and> (v \<noteq> None \<longrightarrow> toml_wf (the v))"
    if "toml_parse_value (ps3\<lparr>tp_root := r\<rparr>) = (v, ps4)" for r v ps4
    using value_ok_value [of "ps3\<lparr>tp_root := r\<rparr>"] that toml_value_wf by (cases v) (auto simp: value_ok_def)
  show ?thesis
    using assms r unfolding toml_assign_def k prod.case Let_def ps2_def [symmetric] ps3_def [symmetric]
    by (auto dest!: val skip_line_end_keeps dest: toml_enter_wf toml_add_at_wf
        split: prod.splits option.splits if_splits)
qed

lemma toml_loop_wf: "root_ok ps \<Longrightarrow> root_ok (toml_loop ps)"
proof (induction ps rule: toml_loop.induct)
  case (1 ps0)
  define ps where "ps = toml_skip_ws ps0"
  obtain go ps' where s: "toml_statement ps = (go, ps')" by fastforce
  have "root_ok ps'"
    using s "1.prems" toml_header_wf [of ps go ps'] toml_assign_wf [of ps go ps']
    by (auto simp: toml_statement_def ps_def split: if_splits)
  with 1 s show ?case
    by (auto simp: toml_loop.simps [of ps0] Let_def ps_def split: bool.splits)
qed

lemma toml_parse_table: "toml_parse doc = Inr t \<Longrightarrow> \<exists>kvs. t = TTable kvs"
  using toml_loop_wf [of "toml_init doc"]
  by (cases t) (auto simp: toml_parse_def toml_init_def Let_def split: option.splits)

text \<open>
  C23: every document \<open>toml_parse\<close> accepts is a table whose keys are pairwise distinct at every
  level and whose arrays hold strings only.
\<close>

theorem toml_parse_wf:
  assumes "toml_parse text = Inr t"
  shows "is_table t \<and> toml_wf t"
  using assms toml_loop_wf [of "toml_init text"]
  by (auto simp: toml_parse_def toml_init_def Let_def split: option.splits)

theorem toml_parse_wf_witness:
  "\<exists>t. toml_parse (''[a.b]'' @ [CHR 0x0A] @ ''c = ['' @ [CHR 0x22, CHR ''x'', CHR 0x22] @ '']'') = Inr t \<and>
     is_table t \<and> toml_wf t"
proof -
  have p: "toml_parse (''[a.b]'' @ [CHR 0x0A] @ ''c = ['' @ [CHR 0x22, CHR ''x'', CHR 0x22] @ '']'') =
    Inr (TTable [(''a'', TTable [(''b'', TTable [(''c'', TArr [TStr ''x''])])])])" by code_simp
  from toml_parse_wf [OF this] p show ?thesis by blast
qed

end
