(* ===== verification/Config.thy ===== *)
theory Config
  imports Toml_Correct
begin

text \<open>
  \<^verbatim>\<open>tools/src/config.c\<close>: the user configuration, its key table, the merge of the files in
  precedence order, \<^verbatim>\<open>config set\<close> and the saved document.

  The file system is a parameter \<open>fs\<close>, the contents of a path if the file exists; \<^verbatim>\<open>HOME\<close> and
  \<^verbatim>\<open>LGMAGIC_CONFIG_ROOT\<close> are arguments. Warnings are not modelled. \<^verbatim>\<open>explicit_mask\<close> is part of the state.
\<close>

section \<open>State and keys\<close>

record config =
  imu_device :: "string option"
  hidraw_device :: "string option"
  default_calib :: "string option"
  cf_lpf_alpha :: cdouble
  mouse_scale :: cdouble
  madgwick_beta :: cdouble
  cf_alpha :: cdouble
  mouse_k :: cdouble
  gyro_scale_default :: cdouble
  accel_gate :: bool
  accel_gate_lo :: cdouble
  accel_gate_hi :: cdouble
  explicit_mask :: nat

definition key_bits :: "(string \<times> nat) list" where
  "key_bits = [(''imu_device'', 1), (''hidraw_device'', 2), (''default_calib'', 4), (''lpf_alpha'', 8),
     (''mouse_scale'', 16), (''madgwick_beta'', 32), (''alpha'', 64), (''mouse_k'', 128),
     (''gyro_scale_default'', 256), (''accel_gate'', 512), (''accel_gate_lo'', 1024),
     (''accel_gate_hi'', 2048)]"

definition key_bit :: "string \<Rightarrow> nat" where
  "key_bit key = (case map_of key_bits key of Some b \<Rightarrow> b | None \<Rightarrow> 0)"

definition mark_explicit :: "nat \<Rightarrow> config \<Rightarrow> config" where
  "mark_explicit kb cfg = cfg\<lparr>explicit_mask := explicit_mask cfg OR kb\<rparr>"

text \<open>The three string fields, the eight numbers and the boolean, by the bit of their key.\<close>

definition set_str :: "nat \<Rightarrow> string option \<Rightarrow> config \<Rightarrow> config" where
  "set_str kb s cfg =
     (if kb = 1 then cfg\<lparr>imu_device := s\<rparr>
      else if kb = 2 then cfg\<lparr>hidraw_device := s\<rparr>
      else cfg\<lparr>default_calib := s\<rparr>)"

definition set_num :: "nat \<Rightarrow> cdouble \<Rightarrow> config \<Rightarrow> config" where
  "set_num kb d cfg =
     (if kb = 8 then cfg\<lparr>cf_lpf_alpha := d\<rparr>
      else if kb = 16 then cfg\<lparr>mouse_scale := d\<rparr>
      else if kb = 32 then cfg\<lparr>madgwick_beta := d\<rparr>
      else if kb = 64 then cfg\<lparr>cf_alpha := d\<rparr>
      else if kb = 128 then cfg\<lparr>mouse_k := d\<rparr>
      else if kb = 1024 then cfg\<lparr>accel_gate_lo := d\<rparr>
      else if kb = 2048 then cfg\<lparr>accel_gate_hi := d\<rparr>
      else cfg\<lparr>gyro_scale_default := d\<rparr>)"

definition is_str_bit :: "nat \<Rightarrow> bool" where
  "is_str_bit kb \<longleftrightarrow> kb \<in> {1, 2, 4}"

text \<open>An empty string means \<^verbatim>\<open>auto\<close> and is stored as \<^verbatim>\<open>NULL\<close>.\<close>

definition str_or_null :: "string \<Rightarrow> string option" where
  "str_or_null s = (if s = [] then None else Some s)"

definition set_from_value :: "config \<Rightarrow> string \<Rightarrow> toml_value option \<Rightarrow> config" where
  "set_from_value cfg key v =
     (let kb = key_bit key
      in if kb = 0 then cfg
         else case v of
           None \<Rightarrow> cfg
         | Some x \<Rightarrow>
             if is_str_bit kb then
               (case x of TStr s \<Rightarrow> mark_explicit kb (set_str kb (str_or_null s) cfg) | _ \<Rightarrow> cfg)
             else if kb = 512 then
               (case x of
                  TBool b \<Rightarrow> mark_explicit kb (cfg\<lparr>accel_gate := b\<rparr>)
                | TInt i \<Rightarrow> mark_explicit kb (cfg\<lparr>accel_gate := (i \<noteq> 0)\<rparr>)
                | _ \<Rightarrow> cfg)
             else
               (case x of
                  TFloat d \<Rightarrow> mark_explicit kb (set_num kb d cfg)
                | TInt i \<Rightarrow> mark_explicit kb (set_num kb (of_int_d i) cfg)
                | _ \<Rightarrow> cfg))"

section \<open>Loading\<close>

definition merge_keys :: "string list" where
  "merge_keys = [''imu_device'', ''hidraw_device'', ''default_calib'', ''lpf_alpha'', ''mouse_scale'',
     ''madgwick_beta'', ''alpha'', ''mouse_k'', ''gyro_scale_default'', ''accel_gate'', ''accel_gate_lo'',
     ''accel_gate_hi'']"

definition merge_root :: "config \<Rightarrow> toml_value \<Rightarrow> config" where
  "merge_root cfg rt =
     foldl (\<lambda>c key. set_from_value c key (toml_table_get_short (Some rt) key)) cfg merge_keys"

text \<open>\<^verbatim>\<open>legacy_json_path\<close>, the path the migrate hint names; \<open>outsz\<close> is the buffer size.\<close>

definition legacy_json_path :: "string \<Rightarrow> nat \<Rightarrow> string option" where
  "legacy_json_path path outsz =
     (let n = length path
      in if n < 5 \<or> n \<ge> outsz \<or> drop (n - 5) path \<noteq> ''.toml'' then None
         else Some (take (n - 4) path @ ''json''))"

definition merge_file :: "(string \<Rightarrow> string option) \<Rightarrow> config \<Rightarrow> string \<Rightarrow> config" where
  "merge_file fs cfg path = (case fs path of
       None \<Rightarrow> cfg
     | Some text \<Rightarrow> (case toml_parse text of Inl e \<Rightarrow> cfg | Inr rt \<Rightarrow> merge_root cfg rt))"

definition set_defaults :: config where
  "set_defaults =
     \<lparr>imu_device = None, hidraw_device = None, default_calib = None, cf_lpf_alpha = dlit 2 10,
      mouse_scale = dlit 30 1, madgwick_beta = dlit 1 10, cf_alpha = dlit 2 10, mouse_k = dlit 5 10,
      gyro_scale_default = dlit 7 100, accel_gate = True, accel_gate_lo = dlit 60 1,
      accel_gate_hi = dlit 400 1, explicit_mask = 0\<rparr>"

text \<open>The paths are built with \<^verbatim>\<open>snprintf\<close> into 4096 bytes.\<close>

definition path_buf :: "string \<Rightarrow> string" where
  "path_buf s = take 4095 s"

definition config_system_path :: "string option \<Rightarrow> string" where
  "config_system_path env_root =
     path_buf ((case env_root of Some r \<Rightarrow> if r = [] then ''/etc/lgmagic'' else r | None \<Rightarrow> ''/etc/lgmagic'') @
       ''/config.toml'')"

definition config_load ::
  "(string \<Rightarrow> string option) \<Rightarrow> string option \<Rightarrow> string option \<Rightarrow> string option \<Rightarrow> config" where
  "config_load fs env_root home extra =
     (let c1 = merge_file fs set_defaults (config_system_path env_root);
          c2 = (case home of
                  Some h \<Rightarrow> merge_file fs c1 (path_buf (h @ ''/.config/lgmagic'' @ ''/config.toml''))
                | None \<Rightarrow> c1)
      in case extra of Some p \<Rightarrow> merge_file fs c2 p | None \<Rightarrow> c2)"

definition config_load_daemon :: "(string \<Rightarrow> string option) \<Rightarrow> string \<Rightarrow> config" where
  "config_load_daemon fs config_root = merge_file fs set_defaults (path_buf (config_root @ ''/config.toml''))"

section \<open>Saving, setting and asking\<close>

definition config_table :: "config \<Rightarrow> (string \<times> toml_value) list" where
  "config_table cfg =
     [(''imu_device'', toml_new_str (imu_device cfg)), (''hidraw_device'', toml_new_str (hidraw_device cfg)),
      (''default_calib'', toml_new_str (default_calib cfg)), (''lpf_alpha'', TFloat (cf_lpf_alpha cfg)),
      (''mouse_scale'', TFloat (mouse_scale cfg)), (''madgwick_beta'', TFloat (madgwick_beta cfg)),
      (''alpha'', TFloat (cf_alpha cfg)), (''mouse_k'', TFloat (mouse_k cfg)),
      (''gyro_scale_default'', TFloat (gyro_scale_default cfg)),
      (''accel_gate'', toml_new_bool (if accel_gate cfg then 1 else 0)),
      (''accel_gate_lo'', TFloat (accel_gate_lo cfg)), (''accel_gate_hi'', TFloat (accel_gate_hi cfg))]"

text \<open>The document \<^verbatim>\<open>config_save_user\<close> writes: the members are added one by one.\<close>

definition config_save_text :: "config \<Rightarrow> string option" where
  "config_save_text cfg =
     toml_dumps (foldl (\<lambda>t (k, v). snd (toml_table_add t k v)) (Some (TTable [])) (config_table cfg))"

definition config_set_key :: "config \<Rightarrow> string \<Rightarrow> string \<Rightarrow> string option \<times> config" where
  "config_set_key cfg key value =
     (let kb = key_bit key
      in if kb = 0 then (Some (''unknown config key '' @ [CHR 0x27] @ key @ [CHR 0x27]), cfg)
         else if is_str_bit kb then (None, mark_explicit kb (set_str kb (str_or_null value) cfg))
         else if kb = 512 then
           (if value = ''true'' \<or> value = ''1'' then (None, mark_explicit kb (cfg\<lparr>accel_gate := True\<rparr>))
            else if value = ''false'' \<or> value = ''0'' then
              (None, mark_explicit kb (cfg\<lparr>accel_gate := False\<rparr>))
            else (Some (''invalid value for '' @ key @ '': '' @ [CHR 0x27] @ value @ [CHR 0x27] @
                        '' (true/false)''), cfg))
         else (case strtod value of
                 (d, k, erange) \<Rightarrow>
                   if erange \<or> k = 0 \<or> k \<noteq> length value then
                     (Some (''invalid value for '' @ key @ '': '' @ [CHR 0x27] @ value @ [CHR 0x27]), cfg)
                   else (None, mark_explicit kb (set_num kb d cfg))))"

definition config_is_explicit :: "config \<Rightarrow> string \<Rightarrow> bool" where
  "config_is_explicit cfg key = (let kb = key_bit key in if kb = 0 then False else explicit_mask cfg AND kb \<noteq> 0)"

section \<open>Printing\<close>

definition pad20 :: "string \<Rightarrow> string" where
  "pad20 s = s @ replicate (20 - length s) CHR '' ''"

definition print_line :: "config \<Rightarrow> string \<Rightarrow> string \<Rightarrow> string" where
  "print_line cfg key v =
     pad20 key @ '' = '' @ v @ (if config_is_explicit cfg key then '' (from config)'' else '' (default)'') @
     [CHR 0x0A]"

definition print_num :: "config \<Rightarrow> string \<Rightarrow> cdouble \<Rightarrow> string" where
  "print_num cfg key v = print_line cfg key (fmt_g 6 v)"

definition print_str :: "config \<Rightarrow> string \<Rightarrow> string option \<Rightarrow> string" where
  "print_str cfg key v = print_line cfg key (case v of Some s \<Rightarrow> s | None \<Rightarrow> ''(auto)'')"

definition print_bool :: "config \<Rightarrow> string \<Rightarrow> bool \<Rightarrow> string" where
  "print_bool cfg key v = print_line cfg key (if v then ''true'' else ''false'')"

definition config_print :: "config \<Rightarrow> string" where
  "config_print cfg =
     print_str cfg ''imu_device'' (imu_device cfg) @ print_str cfg ''hidraw_device'' (hidraw_device cfg) @
     print_str cfg ''default_calib'' (default_calib cfg) @ print_num cfg ''lpf_alpha'' (cf_lpf_alpha cfg) @
     print_num cfg ''mouse_scale'' (mouse_scale cfg) @ print_num cfg ''madgwick_beta'' (madgwick_beta cfg) @
     print_num cfg ''alpha'' (cf_alpha cfg) @ print_num cfg ''mouse_k'' (mouse_k cfg) @
     print_num cfg ''gyro_scale_default'' (gyro_scale_default cfg) @ print_bool cfg ''accel_gate'' (accel_gate cfg) @
     print_num cfg ''accel_gate_lo'' (accel_gate_lo cfg) @ print_num cfg ''accel_gate_hi'' (accel_gate_hi cfg)"

end
