(* ===== verification/Config_Correct.thy ===== *)
theory Config_Correct
  imports Config
begin

text \<open>
  The configuration as a map from keys to values: \<open>cfg_abs\<close> abstracts the record, and every
  operation of \<^verbatim>\<open>config.c\<close> refines an update of that map. Precedence between the files is then map addition.
\<close>

unbundle bit_operations_syntax

section \<open>The abstract configuration\<close>

datatype cval = CStr "string option" | CNum cdouble | CBool bool

definition cfg_fields :: "config \<Rightarrow> (string \<times> cval) list" where
  "cfg_fields cfg =
     [(''imu_device'', CStr (imu_device cfg)), (''hidraw_device'', CStr (hidraw_device cfg)),
      (''default_calib'', CStr (default_calib cfg)), (''lpf_alpha'', CNum (cf_lpf_alpha cfg)),
      (''mouse_scale'', CNum (mouse_scale cfg)), (''madgwick_beta'', CNum (madgwick_beta cfg)),
      (''alpha'', CNum (cf_alpha cfg)), (''mouse_k'', CNum (mouse_k cfg)),
      (''gyro_scale_default'', CNum (gyro_scale_default cfg)), (''accel_gate'', CBool (accel_gate cfg)),
      (''accel_gate_lo'', CNum (accel_gate_lo cfg)), (''accel_gate_hi'', CNum (accel_gate_hi cfg))]"

definition cfg_abs :: "config \<Rightarrow> string \<Rightarrow> cval option" where
  "cfg_abs cfg = map_of (cfg_fields cfg)"

text \<open>What a TOML value means for a key, when its type fits.\<close>

definition norm_val :: "string \<Rightarrow> toml_value \<Rightarrow> cval option" where
  "norm_val key v =
     (let kb = key_bit key
      in if kb = 0 then None
         else if is_str_bit kb then (case v of TStr s \<Rightarrow> Some (CStr (str_or_null s)) | _ \<Rightarrow> None)
         else if kb = 512 then
           (case v of TBool b \<Rightarrow> Some (CBool b) | TInt i \<Rightarrow> Some (CBool (i \<noteq> 0)) | _ \<Rightarrow> None)
         else (case v of TFloat d \<Rightarrow> Some (CNum d) | TInt i \<Rightarrow> Some (CNum (of_int_d i)) | _ \<Rightarrow> None))"

definition doc_abs :: "toml_value \<Rightarrow> string \<Rightarrow> cval option" where
  "doc_abs rt key = Option.bind (toml_table_get_short (Some rt) key) (norm_val key)"

definition file_abs :: "(string \<Rightarrow> string option) \<Rightarrow> string \<Rightarrow> string \<Rightarrow> cval option" where
  "file_abs fs path = (case fs path of
       None \<Rightarrow> Map.empty
     | Some text \<Rightarrow> (case toml_parse text of Inl e \<Rightarrow> Map.empty | Inr rt \<Rightarrow> doc_abs rt))"

lemma key_cases:
  assumes "key_bit key \<noteq> 0"
  shows "key \<in> set merge_keys"
  using assms by (auto simp: key_bit_def key_bits_def merge_keys_def split: if_splits option.splits)

lemma norm_val_known: "norm_val key v = Some c \<Longrightarrow> key \<in> set merge_keys"
  by (auto simp: norm_val_def Let_def split: if_splits intro: key_cases)

lemma key_bit_simps [simp]:
  "key_bit ''imu_device'' = 1" "key_bit ''hidraw_device'' = 2" "key_bit ''default_calib'' = 4"
  "key_bit ''lpf_alpha'' = 8" "key_bit ''mouse_scale'' = 16" "key_bit ''madgwick_beta'' = 32"
  "key_bit ''alpha'' = 64" "key_bit ''mouse_k'' = 128" "key_bit ''gyro_scale_default'' = 256"
  "key_bit ''accel_gate'' = 512" "key_bit ''accel_gate_lo'' = 1024" "key_bit ''accel_gate_hi'' = 2048"
  by (simp_all add: key_bit_def key_bits_def)

lemma fields_mark [simp]: "cfg_fields (mark_explicit b cfg) = cfg_fields cfg"
  by (simp add: cfg_fields_def mark_explicit_def)

lemma fields_put:
  "cfg_fields (set_str 1 s cfg) = put_assoc ''imu_device'' (CStr s) (cfg_fields cfg)"
  "cfg_fields (set_str 2 s cfg) = put_assoc ''hidraw_device'' (CStr s) (cfg_fields cfg)"
  "cfg_fields (set_str 4 s cfg) = put_assoc ''default_calib'' (CStr s) (cfg_fields cfg)"
  "cfg_fields (set_num 8 d cfg) = put_assoc ''lpf_alpha'' (CNum d) (cfg_fields cfg)"
  "cfg_fields (set_num 16 d cfg) = put_assoc ''mouse_scale'' (CNum d) (cfg_fields cfg)"
  "cfg_fields (set_num 32 d cfg) = put_assoc ''madgwick_beta'' (CNum d) (cfg_fields cfg)"
  "cfg_fields (set_num 64 d cfg) = put_assoc ''alpha'' (CNum d) (cfg_fields cfg)"
  "cfg_fields (set_num 128 d cfg) = put_assoc ''mouse_k'' (CNum d) (cfg_fields cfg)"
  "cfg_fields (set_num 256 d cfg) = put_assoc ''gyro_scale_default'' (CNum d) (cfg_fields cfg)"
  "cfg_fields (cfg\<lparr>accel_gate := b\<rparr>) = put_assoc ''accel_gate'' (CBool b) (cfg_fields cfg)"
  "cfg_fields (set_num 1024 d cfg) = put_assoc ''accel_gate_lo'' (CNum d) (cfg_fields cfg)"
  "cfg_fields (set_num 2048 d cfg) = put_assoc ''accel_gate_hi'' (CNum d) (cfg_fields cfg)"
  by (simp_all add: cfg_fields_def set_str_def set_num_def)

lemma fields_set_str:
  "key_bit key = kb \<Longrightarrow> is_str_bit kb \<Longrightarrow> cfg_fields (set_str kb s cfg) = put_assoc key (CStr s) (cfg_fields cfg)"
  using key_cases [of key] unfolding merge_keys_def
  by (auto simp: is_str_bit_def fields_put fields_put(1) [unfolded One_nat_def])

lemma fields_set_num:
  assumes "key_bit key = kb" and "kb \<noteq> 0" and "\<not> is_str_bit kb" and "kb \<noteq> 512"
  shows "cfg_fields (set_num kb d cfg) = put_assoc key (CNum d) (cfg_fields cfg)"
proof -
  have "key \<in> set merge_keys" using assms by (intro key_cases) simp
  then show ?thesis
    using assms unfolding merge_keys_def list.set
    by (elim insertE emptyE) (simp_all add: is_str_bit_def fields_put)
qed

lemma key_512: "key_bit key = 512 \<Longrightarrow> key = ''accel_gate''"
proof -
  assume b: "key_bit key = 512"
  then have "key \<in> set merge_keys" by (intro key_cases) simp
  then show ?thesis
    using b unfolding merge_keys_def list.set by (elim insertE emptyE) simp_all
qed

lemma set_from_value_abs:
  "cfg_abs (set_from_value cfg key v) =
     (case Option.bind v (norm_val key) of None \<Rightarrow> cfg_abs cfg | Some c \<Rightarrow> (cfg_abs cfg)(key \<mapsto> c))"
proof (cases v)
  case None
  then show ?thesis by (simp add: set_from_value_def Let_def)
next
  case (Some x)
  define kb where "kb = key_bit key"
  show ?thesis
    unfolding set_from_value_def norm_val_def Let_def kb_def [symmetric] Some
    using fields_set_str [of key kb] fields_set_num [of key kb] key_512 [of key]
    by (auto simp: cfg_abs_def fields_put kb_def [symmetric] split: toml_value.split)
qed

section \<open>Files in order of precedence\<close>

lemma merge_fold_abs:
  "cfg_abs (foldl (\<lambda>c key. set_from_value c key (toml_table_get_short (Some rt) key)) cfg keys) =
     cfg_abs cfg ++ (\<lambda>k. if k \<in> set keys then doc_abs rt k else None)"
proof (induction keys arbitrary: cfg)
  case (Cons key keys)
  have "cfg_abs (set_from_value cfg key (toml_table_get_short (Some rt) key)) =
      cfg_abs cfg ++ (\<lambda>k. if k = key then doc_abs rt k else None)"
    by (auto simp: set_from_value_abs doc_abs_def [symmetric] map_add_def split: option.split)
  then show ?case
    by (simp add: Cons.IH fun_eq_iff) (simp add: map_add_def split: option.split)
qed (simp add: map_add_def)

lemma doc_abs_known: "k \<notin> set merge_keys \<Longrightarrow> doc_abs rt k = None"
  using norm_val_known by (cases "toml_table_get_short (Some rt) k") (fastforce simp: doc_abs_def)+

lemma merge_root_abs: "cfg_abs (merge_root cfg rt) = cfg_abs cfg ++ doc_abs rt"
proof -
  have "(\<lambda>k. if k \<in> set merge_keys then doc_abs rt k else None) = doc_abs rt"
    using doc_abs_known by auto
  then show ?thesis by (simp add: merge_root_def merge_fold_abs)
qed

lemma merge_file_abs: "cfg_abs (merge_file fs cfg path) = cfg_abs cfg ++ file_abs fs path"
  by (simp add: merge_file_def file_abs_def merge_root_abs split: option.split sum.split)

text \<open>
  C18: the effective configuration is the defaults overridden by the system file, then by the
  user file, then by the file given with \<^verbatim>\<open>--config\<close>, key by key; a file that does not parse and a
  value of the wrong type change nothing.
\<close>

theorem config_load_precedence:
  "cfg_abs (config_load fs env_root home extra) =
     cfg_abs set_defaults ++ file_abs fs (config_system_path env_root) ++
     (case home of None \<Rightarrow> Map.empty | Some h \<Rightarrow> file_abs fs (path_buf (h @ ''/.config/lgmagic'' @ ''/config.toml''))) ++
     (case extra of None \<Rightarrow> Map.empty | Some p \<Rightarrow> file_abs fs p)"
  by (simp add: config_load_def merge_file_abs Let_def split: option.split)

section \<open>Setting a key\<close>

lemma mark_explicit_is: "key_bit key \<noteq> 0 \<Longrightarrow> config_is_explicit (mark_explicit (key_bit key) cfg) key"
  by (simp add: config_is_explicit_def mark_explicit_def Let_def bit_eq_iff)
    (auto simp: bit_and_iff bit_or_iff bit_eq_iff)

text \<open>
  \<open>config_set_key\<close> either fails and changes nothing, or changes exactly the named key and
  marks it as explicitly set; a failure is an unknown key or a value that is not of the key's type.
\<close>

lemma config_set_key_spec:
  "case config_set_key cfg key value of
     (Some err, cfg') \<Rightarrow> cfg' = cfg
   | (None, cfg') \<Rightarrow> key_bit key \<noteq> 0 \<and> config_is_explicit cfg' key \<and>
       (\<exists>c. cfg_abs cfg' = (cfg_abs cfg)(key \<mapsto> c))"
proof -
  define kb where "kb = key_bit key"
  have m: "kb \<noteq> 0 \<Longrightarrow> config_is_explicit (mark_explicit kb c) key" for c
    using mark_explicit_is [of key c] by (simp add: kb_def)
  have s: "is_str_bit kb \<Longrightarrow> \<exists>c. cfg_abs (mark_explicit kb (set_str kb v cfg)) = (cfg_abs cfg)(key \<mapsto> c)" for v
    using fields_set_str [of key kb v cfg] by (auto simp: cfg_abs_def kb_def)
  have n: "kb \<noteq> 0 \<Longrightarrow> \<not> is_str_bit kb \<Longrightarrow> kb \<noteq> 512 \<Longrightarrow>
      \<exists>c. cfg_abs (mark_explicit kb (set_num kb d cfg)) = (cfg_abs cfg)(key \<mapsto> c)" for d
    using fields_set_num [of key kb d cfg] by (auto simp: cfg_abs_def kb_def)
  have g: "kb = 512 \<Longrightarrow> \<exists>c. cfg_abs (mark_explicit kb (cfg\<lparr>accel_gate := b\<rparr>)) = (cfg_abs cfg)(key \<mapsto> c)" for b
    using key_512 [of key] by (auto simp: cfg_abs_def kb_def fields_put)
  obtain d k e where sd: "strtod value = (d, k, e)" by (metis prod_cases3)
  show ?thesis
    unfolding config_set_key_def Let_def kb_def [symmetric] sd prod.case
    using m s n g by (cases "kb = 0"; cases "is_str_bit kb"; cases "kb = 512") simp_all
qed

section \<open>Saving\<close>

definition opt_cstring :: "string option \<Rightarrow> bool" where
  "opt_cstring s = (case s of None \<Rightarrow> True | Some x \<Rightarrow> cstring x \<and> x \<noteq> [])"

definition cfg_savable :: "config \<Rightarrow> bool" where
  "cfg_savable cfg \<longleftrightarrow>
     opt_cstring (imu_device cfg) \<and> opt_cstring (hidraw_device cfg) \<and> opt_cstring (default_calib cfg) \<and>
     toml_float_ok (cf_lpf_alpha cfg) \<and> toml_float_ok (mouse_scale cfg) \<and> toml_float_ok (madgwick_beta cfg) \<and>
     toml_float_ok (cf_alpha cfg) \<and> toml_float_ok (mouse_k cfg) \<and> toml_float_ok (gyro_scale_default cfg) \<and>
     toml_float_ok (accel_gate_lo cfg) \<and> toml_float_ok (accel_gate_hi cfg)"

lemma cstring_lit: "list_all (\<lambda>c. c \<noteq> CHR 0x00) s \<Longrightarrow> cstring s"
  by (auto simp: cstring_def list_all_iff)

lemma config_table_ok:
  assumes "cfg_savable cfg"
  shows "toml_members_ok (config_table cfg)"
proof -
  have o: "cstring (case s of None \<Rightarrow> [] | Some t \<Rightarrow> t)" if "opt_cstring s" for s
    using that by (auto simp: opt_cstring_def cstring_def split: option.splits)
  show ?thesis
    using assms by (simp add: cfg_savable_def config_table_def toml_new_str_def toml_new_bool_def o cstring_lit)
qed

lemma scalars_only:
  "list_all (\<lambda>(k, v). \<not> is_table v) kvs \<Longrightarrow> scalars_first kvs = kvs \<and> dump_subtables kvs segs nl = Some []"
proof (induction kvs)
  case (Cons kv kvs)
  then show ?case by (cases kv; cases "snd kv") (auto simp: scalars_first_def)
qed (simp add: scalars_first_def)

lemma config_members_fold:
  "foldl (\<lambda>t (k, v). snd (toml_table_add t k v)) (Some (TTable [])) (config_table cfg) =
   Some (TTable (config_table cfg))"
  by (simp add: config_table_def toml_table_add_def)

lemma config_text_parse:
  assumes "cfg_savable cfg"
  shows "\<exists>text. config_save_text cfg = Some text \<and> toml_parse text = Inr (TTable (config_table cfg))"
proof -
  have sc: "list_all (\<lambda>(k, v). \<not> is_table v) (config_table cfg)"
    by (simp add: config_table_def toml_new_str_def toml_new_bool_def)
  have dump: "toml_dumps (Some (TTable (config_table cfg))) = Some (dump_scalars (config_table cfg))"
    using scalars_only [OF sc] by (simp add: toml_dumps_def dump_table_def)
  from toml_roundtrip_tree [OF config_table_ok [OF assms] this] scalars_only [OF sc] dump show ?thesis
    by (simp add: config_save_text_def config_members_fold)
qed

lemma str_field_abs: "opt_cstring s \<Longrightarrow> str_or_null (case s of None \<Rightarrow> [] | Some t \<Rightarrow> t) = s"
  by (auto simp: opt_cstring_def str_or_null_def split: option.splits)

lemma config_table_abs:
  assumes "cfg_savable cfg"
  shows "doc_abs (TTable (config_table cfg)) = cfg_abs cfg"
proof
  fix k
  show "doc_abs (TTable (config_table cfg)) k = cfg_abs cfg k"
  proof (cases "k \<in> set merge_keys")
    case True
    then show ?thesis
      using assms unfolding merge_keys_def list.set
      by (elim insertE emptyE)
        (simp_all add: doc_abs_def toml_table_get_short_def config_table_def norm_val_def is_str_bit_def
          cfg_abs_def cfg_fields_def toml_new_str_def toml_new_bool_def str_field_abs cfg_savable_def)
  next
    case False
    then have "map_of (cfg_fields cfg) k = None"
      by (simp add: merge_keys_def cfg_fields_def)
    with False show ?thesis by (simp add: doc_abs_known cfg_abs_def)
  qed
qed

text \<open>
  Saving and loading again restores every key: merging the document \<open>config_save_user\<close>
  writes over any configuration gives the saved values.
\<close>

lemma config_save_load:
  assumes "cfg_savable cfg" and "config_save_text cfg = Some text" and "fs path = Some text"
  shows "cfg_abs (merge_file fs base path) = cfg_abs cfg"
proof -
  have "toml_parse text = Inr (TTable (config_table cfg))" using config_text_parse [OF assms(1)] assms(2) by auto
  then have "file_abs fs path = cfg_abs cfg"
    by (simp add: file_abs_def assms(3) config_table_abs [OF assms(1)])
  moreover have "cfg_abs base ++ cfg_abs cfg = cfg_abs cfg"
    unfolding fun_eq_iff map_add_def by (auto simp: cfg_abs_def cfg_fields_def split: option.split)
  ultimately show ?thesis by (simp add: merge_file_abs)
qed

end
