(* ===== verification/Pairing.thy ===== *)
theory Pairing
  imports CNumeric
begin

text \<open>
  \<^verbatim>\<open>tools/src/pairing.c\<close>: which evdev nodes are keyboards and IMUs of a remote, and which IMU belongs
  to which keyboard.

  Pointers into the array of devices are indices. \<open>imu_of_kbd\<close> holds \<open>None\<close> for the C value \<open>-1\<close>.
\<close>

record pairing_input_dev =
  pd_path :: "string option"
  pd_name :: "string option"
  pd_uniq :: "string option"
  pd_vendor :: int
  pd_product :: int

record paired_remote =
  pm_uniq :: string
  pm_keyboard :: nat
  pm_imu :: "nat option"

definition pairing_is_keyboard :: "pairing_input_dev \<Rightarrow> bool" where
  "pairing_is_keyboard d \<longleftrightarrow>
     pd_name d = Some ''LG Magic Remote'' \<and> pd_vendor d = 0x000f \<and> pd_product d = 0x3412"

definition pairing_is_imu :: "pairing_input_dev \<Rightarrow> bool" where
  "pairing_is_imu d \<longleftrightarrow> pd_name d = Some ''LG Magic Remote IMU''"

fun uniq_eq_loop :: "string \<Rightarrow> string \<Rightarrow> bool" where
  "uniq_eq_loop [] [] = True"
| "uniq_eq_loop [] (b # bs) = False"
| "uniq_eq_loop (a # as) [] = False"
| "uniq_eq_loop (a # as) (b # bs) = (tolower a = tolower b \<and> uniq_eq_loop as bs)"

abbreviation or_empty :: "string option \<Rightarrow> string" where
  "or_empty s \<equiv> (case s of None \<Rightarrow> [] | Some t \<Rightarrow> t)"

definition uniq_eq :: "string option \<Rightarrow> string option \<Rightarrow> bool" where
  "uniq_eq a b = uniq_eq_loop (or_empty a) (or_empty b)"

definition kbd_indices :: "pairing_input_dev list \<Rightarrow> nat list" where
  "kbd_indices devs = filter (\<lambda>i. pairing_is_keyboard (devs ! i)) [0..<length devs]"

text \<open>The loop over \<open>k\<close>: the free keyboards and those of them with the IMU's address.\<close>

definition free_kbds :: "nat option list \<Rightarrow> nat list" where
  "free_kbds imu_of = filter (\<lambda>k. imu_of ! k = None) [0..<length imu_of]"

definition match_kbds :: "pairing_input_dev list \<Rightarrow> nat list \<Rightarrow> nat option list \<Rightarrow> nat \<Rightarrow> nat list" where
  "match_kbds devs kbds imu_of i =
     (let u = pd_uniq (devs ! i)
      in if or_empty u = [] then []
         else filter (\<lambda>k. uniq_eq u (pd_uniq (devs ! (kbds ! k)))) (free_kbds imu_of))"

definition pair_imu ::
  "pairing_input_dev list \<Rightarrow> nat list \<Rightarrow> nat option list \<Rightarrow> nat \<Rightarrow> string + nat option list" where
  "pair_imu devs kbds imu_of i =
     (let m = match_kbds devs kbds imu_of i; f = free_kbds imu_of
      in if length m > 1 then
           Inl (''ambiguous IMU pairing: MAC '' @ [CHR 0x27] @ or_empty (pd_uniq (devs ! i)) @ [CHR 0x27] @
                '' matches '' @ show_dec (int (length m)) @ '' keyboards'')
         else if length m = 1 then Inr (imu_of[last m := Some i])
         else if length f = 1 then Inr (imu_of[last f := Some i])
         else if length f = 0 then Inr imu_of
         else Inl (''ambiguous IMU pairing: '' @ show_dec (int (length f)) @
                   '' keyboard candidates, no MAC match''))"

fun pair_loop ::
  "pairing_input_dev list \<Rightarrow> nat list \<Rightarrow> nat list \<Rightarrow> nat option list \<Rightarrow> string + nat option list" where
  "pair_loop devs kbds [] imu_of = Inr imu_of"
| "pair_loop devs kbds (i # is) imu_of =
     (if \<not> pairing_is_imu (devs ! i) then pair_loop devs kbds is imu_of
      else case pair_imu devs kbds imu_of i of
             Inl e \<Rightarrow> Inl e
           | Inr imu_of' \<Rightarrow> pair_loop devs kbds is imu_of')"

definition emit_remote :: "pairing_input_dev list \<Rightarrow> nat \<Rightarrow> nat option \<Rightarrow> paired_remote" where
  "emit_remote devs kbd imu =
     (let u = or_empty (pd_uniq (devs ! kbd));
          u' = (if u \<noteq> [] then u
                else case imu of None \<Rightarrow> [] | Some i \<Rightarrow> or_empty (pd_uniq (devs ! i)))
      in \<lparr>pm_uniq = take 63 u', pm_keyboard = kbd, pm_imu = imu\<rparr>)"

definition pairing_match :: "pairing_input_dev list \<Rightarrow> nat \<Rightarrow> string + paired_remote list" where
  "pairing_match devs outsz =
     (let kbds = kbd_indices devs
      in case (if kbds = [] then Inr [] else pair_loop devs kbds [0..<length devs] (replicate (length kbds) None)) of
           Inl e \<Rightarrow> Inl e
         | Inr imu_of \<Rightarrow> Inr (take outsz (map2 (emit_remote devs) kbds imu_of)))"

section \<open>Properties\<close>

lemma uniq_eq_iff: "uniq_eq a b \<longleftrightarrow> map tolower (or_empty a) = map tolower (or_empty b)"
proof -
  have "uniq_eq_loop x y \<longleftrightarrow> map tolower x = map tolower y" for x y
    by (induction x y rule: uniq_eq_loop.induct) auto
  then show ?thesis by (simp add: uniq_eq_def)
qed

lemma in_free: "k \<in> set (free_kbds imu_of) \<longleftrightarrow> k < length imu_of \<and> imu_of ! k = None"
  by (auto simp: free_kbds_def)

lemma match_subset: "set (match_kbds devs kbds imu_of i) \<subseteq> set (free_kbds imu_of)"
  by (auto simp: match_kbds_def Let_def)

text \<open>
  How an IMU gets its keyboard: a free keyboard with the same address, or the only free
  keyboard there was.
\<close>

definition pair_reason :: "pairing_input_dev list \<Rightarrow> nat list \<Rightarrow> nat option list \<Rightarrow> nat \<Rightarrow> nat \<Rightarrow> bool" where
  "pair_reason devs kbds imu_of k i \<longleftrightarrow>
     k \<in> set (free_kbds imu_of) \<and>
     (or_empty (pd_uniq (devs ! i)) \<noteq> [] \<and>
        map tolower (or_empty (pd_uniq (devs ! i))) = map tolower (or_empty (pd_uniq (devs ! (kbds ! k)))) \<or>
      free_kbds imu_of = [k])"

lemma length_1_last: "length xs = 1 \<Longrightarrow> xs = [last xs]"
  by (cases xs) auto

lemma pair_imu_cases:
  assumes "pair_imu devs kbds imu_of i = Inr imu_of'"
  shows "imu_of' = imu_of \<and> free_kbds imu_of = [] \<or>
    (\<exists>k. imu_of' = imu_of[k := Some i] \<and> pair_reason devs kbds imu_of k i)"
proof -
  define m where "m = match_kbds devs kbds imu_of i"
  define f where "f = free_kbds imu_of"
  have m_in: "x \<in> set m \<Longrightarrow> pair_reason devs kbds imu_of x i" for x
    by (auto simp: m_def match_kbds_def pair_reason_def uniq_eq_iff Let_def split: if_splits)
  consider "length m = 1" "imu_of' = imu_of[last m := Some i]"
    | "length f = 1" "imu_of' = imu_of[last f := Some i]" | "f = []" "imu_of' = imu_of"
    using assms unfolding pair_imu_def Let_def m_def [symmetric] f_def [symmetric]
    by (auto split: if_splits)
  then show ?thesis
  proof cases
    case 1
    then have "last m \<in> set m" by (intro last_in_set) auto
    with 1 m_in show ?thesis by blast
  next
    case 2
    have "f = [last f]" using 2(1) by (rule length_1_last)
    moreover from this have "last f \<in> set f" by (metis list.set_intros(1))
    ultimately have "pair_reason devs kbds imu_of (last f) i"
      by (simp add: pair_reason_def f_def)
    with 2 show ?thesis by blast
  qed (simp add: f_def)
qed

definition imus_distinct :: "nat option list \<Rightarrow> bool" where
  "imus_distinct imu_of \<longleftrightarrow>
     (\<forall>j < length imu_of. \<forall>k < length imu_of. imu_of ! j = imu_of ! k \<longrightarrow> imu_of ! j \<noteq> None \<longrightarrow> j = k)"

lemma pair_loop_inv:
  assumes "pair_loop devs kbds is imu_of = Inr imu_of'"
    and "distinct is" and "imus_distinct imu_of"
    and "\<forall>k < length imu_of. \<forall>i. imu_of ! k = Some i \<longrightarrow> i \<notin> set is \<and> pairing_is_imu (devs ! i)"
  shows "length imu_of' = length imu_of \<and> imus_distinct imu_of' \<and>
    (\<forall>k < length imu_of'. \<forall>i. imu_of' ! k = Some i \<longrightarrow> pairing_is_imu (devs ! i) \<and> (imu_of ! k = Some i \<or> i \<in> set is))"
  using assms
proof (induction "is" arbitrary: imu_of)
  case (Cons i "is")
  show ?case
  proof (cases "pairing_is_imu (devs ! i)")
    case False
    with Cons.prems Cons.IH [of imu_of] show ?thesis by auto
  next
    case True
    then obtain mid where mid: "pair_imu devs kbds imu_of i = Inr mid" "pair_loop devs kbds is mid = Inr imu_of'"
      using Cons.prems(1) by (auto split: sum.splits)
    have step: "mid = imu_of \<or> (\<exists>k < length imu_of. mid = imu_of[k := Some i])"
      using pair_imu_cases [OF mid(1)] by (auto simp: pair_reason_def in_free)
    then have len: "length mid = length imu_of" by auto
    have entry: "mid ! k = imu_of ! k \<or> mid ! k = Some i" if "k < length imu_of" for k
      using step that by (auto simp: nth_list_update)
    have d: "imus_distinct mid"
      using step
    proof
      assume "\<exists>k < length imu_of. mid = imu_of[k := Some i]"
      then obtain k where k: "k < length imu_of" "mid = imu_of[k := Some i]" by blast
      have "imu_of ! j \<noteq> Some i" if "j < length imu_of" for j using Cons.prems(4) that by fastforce
      with Cons.prems(3) k show ?thesis
        unfolding imus_distinct_def by (simp add: nth_list_update) metis
    qed (use Cons.prems(3) in simp)
    have b: "\<forall>k < length mid. \<forall>j. mid ! k = Some j \<longrightarrow> j \<notin> set is \<and> pairing_is_imu (devs ! j)"
    proof (intro allI impI)
      fix k j assume "k < length mid" "mid ! k = Some j"
      with entry [of k] len have "imu_of ! k = Some j \<or> j = i" by auto
      with \<open>k < length mid\<close> len Cons.prems(2,4) True show "j \<notin> set is \<and> pairing_is_imu (devs ! j)" by auto
    qed
    have fin: "length imu_of' = length mid" "imus_distinct imu_of'"
      "\<And>k j. k < length imu_of' \<Longrightarrow> imu_of' ! k = Some j \<Longrightarrow> pairing_is_imu (devs ! j) \<and> (mid ! k = Some j \<or> j \<in> set is)"
      using Cons.IH [OF mid(2) _ d b] Cons.prems(2) by auto
    have "pairing_is_imu (devs ! j) \<and> (imu_of ! k = Some j \<or> j \<in> set (i # is))"
      if "k < length imu_of'" "imu_of' ! k = Some j" for k j
      using fin(3) [OF that] entry [of k] that(1) fin(1) len by auto
    with fin(1,2) len show ?thesis by simp
  qed
qed simp


definition two_remotes :: "pairing_input_dev list" where
  "two_remotes =
     [\<lparr>pd_path = None, pd_name = Some ''LG Magic Remote'', pd_uniq = Some ''AA:01'', pd_vendor = 15, pd_product = 13330\<rparr>,
      \<lparr>pd_path = None, pd_name = Some ''LG Magic Remote'', pd_uniq = Some ''AA:02'', pd_vendor = 15, pd_product = 13330\<rparr>,
      \<lparr>pd_path = None, pd_name = Some ''LG Magic Remote IMU'', pd_uniq = Some ''aa:02'', pd_vendor = 0, pd_product = 0\<rparr>,
      \<lparr>pd_path = None, pd_name = Some ''LG Magic Remote IMU'', pd_uniq = Some ''aa:01'', pd_vendor = 0, pd_product = 0\<rparr>]"


text \<open>
  An IMU is only ever attached to a free keyboard with its own address (ignoring case) or, failing that,
  to the one keyboard left; with several keyboards left and no address to decide, pairing reports an error.
\<close>

theorem pair_imu_no_guess:
  "case pair_imu devs kbds imu_of i of
     Inl e \<Rightarrow> length (free_kbds imu_of) > 1
   | Inr imu_of' \<Rightarrow> imu_of' = imu_of \<and> free_kbds imu_of = [] \<or>
       (\<exists>k. imu_of' = imu_of[k := Some i] \<and> pair_reason devs kbds imu_of k i)"
proof (cases "pair_imu devs kbds imu_of i")
  case (Inl e)
  have "length (match_kbds devs kbds imu_of i) \<le> length (free_kbds imu_of)"
    by (simp add: match_kbds_def Let_def)
  then have "length (free_kbds imu_of) > 1"
    using Inl unfolding pair_imu_def Let_def
    by (auto simp del: length_0_conv length_greater_0_conv split: if_splits)
  then show ?thesis by (simp add: Inl)
next
  case (Inr x)
  then show ?thesis using pair_imu_cases [OF Inr] by (simp add: Inr)
qed

text \<open>
  Two missing addresses compare equal in \<open>uniq_eq\<close>, although its comment says they never match.
\<close>

theorem uniq_eq_empty_matches: "uniq_eq None (Some []) \<and> uniq_eq (Some []) (Some [])"
  by (simp add: uniq_eq_def)

end
