(* ===== verification/Keymap.thy ===== *)
theory Keymap
  imports Prelude
begin

text \<open>
  \<^verbatim>\<open>tools/src/keymap.c\<close>: the keycode names of the Linux input ABI, the LG button codes with their
  names, and the kernel's default decode of the LG buttons. The tables are transcribed entry by
  entry; a lookup is the first match of a linear search, \<open>-1\<close> or \<^verbatim>\<open>NULL\<close> (\<^const>\<open>None\<close>) on a miss.
\<close>

section \<open>Keycode names\<close>

definition key_names :: "(int \<times> string) list" where
  "key_names = [
     (28, ''KEY_ENTER''), (11, ''KEY_0''), (2, ''KEY_1''),
     (3, ''KEY_2''), (4, ''KEY_3''), (5, ''KEY_4''),
     (6, ''KEY_5''), (7, ''KEY_6''), (8, ''KEY_7''),
     (9, ''KEY_8''), (10, ''KEY_9''), (103, ''KEY_UP''),
     (108, ''KEY_DOWN''), (105, ''KEY_LEFT''), (106, ''KEY_RIGHT''),
     (116, ''KEY_POWER''), (142, ''KEY_SLEEP''), (115, ''KEY_VOLUMEUP''),
     (114, ''KEY_VOLUMEDOWN''), (113, ''KEY_MUTE''), (582, ''KEY_VOICECOMMAND''),
     (102, ''KEY_HOME''), (141, ''KEY_SETUP''), (158, ''KEY_BACK''),
     (139, ''KEY_MENU''), (395, ''KEY_LIST''), (362, ''KEY_PROGRAM''),
     (226, ''KEY_MEDIA''), (377, ''KEY_TV''), (438, ''KEY_CONTEXT_MENU''),
     (403, ''KEY_CHANNELDOWN''), (398, ''KEY_RED''), (399, ''KEY_GREEN''),
     (400, ''KEY_YELLOW''), (401, ''KEY_BLUE''), (393, ''KEY_VIDEO''),
     (207, ''KEY_PLAY''), (119, ''KEY_PAUSE''), (272, ''BTN_LEFT''),
     (273, ''BTN_RIGHT''), (274, ''BTN_MIDDLE''), (1, ''KEY_ESC''),
     (15, ''KEY_TAB''), (57, ''KEY_SPACE''), (128, ''KEY_STOP''),
     (352, ''KEY_OK''), (174, ''KEY_EXIT''), (407, ''KEY_NEXT''),
     (412, ''KEY_PREVIOUS''), (104, ''KEY_PAGEUP''), (109, ''KEY_PAGEDOWN'')]"

definition keymap_name_to_code :: "string option \<Rightarrow> int" where
  "keymap_name_to_code name = (case name of
       None \<Rightarrow> - 1
     | Some s \<Rightarrow> (case find (\<lambda>(c, n). n = s) key_names of
           Some (c, n) \<Rightarrow> c
         | None \<Rightarrow> - 1))"

definition keymap_code_to_name :: "int \<Rightarrow> string option" where
  "keymap_code_to_name code = (case find (\<lambda>(c, n). c = code) key_names of
       Some (c, n) \<Rightarrow> Some n
     | None \<Rightarrow> None)"

section \<open>LG button codes\<close>

definition lg_button_codes :: "(int \<times> string) list" where
  "lg_button_codes = [
     (0x0000, ''None''), (0x8000, ''POWER''), (0x8099, ''POWER2''), (0x8010, ''0''),
     (0x8011, ''1''), (0x8012, ''2''), (0x8013, ''3''), (0x8014, ''4''),
     (0x8015, ''5''), (0x8016, ''6''), (0x8017, ''7''), (0x8018, ''8''),
     (0x8019, ''9''), (0x8044, ''WHEEL_PRESS''), (0x8053, ''LIST''), (0x8045, ''...''),
     (0x8002, ''VOL+''), (0x8003, ''VOL-''), (0x8009, ''MUTE''), (0x808B, ''MIC''),
     (0x807C, ''HOME''), (0x8043, ''SETTINGS''), (0x8028, ''BACK''), (0x80AB, ''GUIDE''),
     (0x805D, ''STREAMING''), (0x800B, ''INPUT''), (0x8098, ''STB MENU''), (0x8001, ''CH-''),
     (0x8072, ''RED''), (0x8071, ''GREEN''), (0x8063, ''YELLOW''), (0x8061, ''BLUE''),
     (0x8081, ''MOVIES''), (0x80B0, ''PLAY''), (0x80BA, ''PAUSE''), (0x8040, ''UP''),
     (0x8041, ''DOWN''), (0x8006, ''RIGHT''), (0x8007, ''LEFT'')]"

definition keymap_lg_code_to_name :: "int \<Rightarrow> string option" where
  "keymap_lg_code_to_name code = (case find (\<lambda>(c, n). c = code) lg_button_codes of
       Some (c, n) \<Rightarrow> Some n
     | None \<Rightarrow> None)"

definition keymap_lg_name_to_code :: "string option \<Rightarrow> int" where
  "keymap_lg_name_to_code name = (case name of
       None \<Rightarrow> - 1
     | Some s \<Rightarrow> (case find (\<lambda>(c, n). n = s) lg_button_codes of
           Some (c, n) \<Rightarrow> c
         | None \<Rightarrow> - 1))"

section \<open>The kernel's default decode\<close>

definition default_map :: "(int \<times> int) list" where
  "default_map = [
     (0x8000, 116), (0x8099, 142), (0x8010, 11), (0x8011, 2), (0x8012, 3), (0x8013, 4),
     (0x8014, 5), (0x8015, 6), (0x8016, 7), (0x8017, 8), (0x8018, 9), (0x8019, 10),
     (0x8044, 28), (0x8053, 395), (0x8045, 139), (0x8002, 115), (0x8003, 114), (0x8009, 113),
     (0x808B, 582), (0x807C, 102), (0x8043, 141), (0x8028, 158), (0x80AB, 362), (0x805D, 226),
     (0x800B, 377), (0x8098, 438), (0x8001, 403), (0x8072, 398), (0x8071, 399), (0x8063, 400),
     (0x8061, 401), (0x8081, 393), (0x80B0, 207), (0x80BA, 119), (0x8040, 103), (0x8041, 108),
     (0x8006, 106), (0x8007, 105)]"

definition keymap_default_keycode :: "int \<Rightarrow> int" where
  "keymap_default_keycode lg_code = (case find (\<lambda>(c, k). c = lg_code) default_map of
       Some (c, k) \<Rightarrow> k
     | None \<Rightarrow> - 1)"

definition keymap_default_map :: "(int \<times> int) list \<times> nat" where
  "keymap_default_map = (default_map, length default_map)"

section \<open>Two-way tables\<close>

text \<open>
  The contract behind both name tables: codes and names are each unique, so the linear
  searches in the two directions are inverse to each other.
\<close>

locale two_way_table =
  fixes tab :: "(int \<times> string) list"
  assumes codes_distinct: "distinct (map fst tab)"
    and names_distinct: "distinct (map snd tab)"
begin

lemma find_code_iff: "find (\<lambda>(c, n). c = k) tab = Some (c, n) \<longleftrightarrow> c = k \<and> (k, n) \<in> set tab"
  using codes_distinct by (induction tab) force+

lemma find_name_iff: "find (\<lambda>(c, n). n = s) tab = Some (c, n) \<longleftrightarrow> n = s \<and> (c, s) \<in> set tab"
  using names_distinct by (induction tab) force+

lemma code_unique: "(c, n) \<in> set tab \<Longrightarrow> (c, n') \<in> set tab \<Longrightarrow> n = n'"
  using codes_distinct by (rule eq_key_imp_eq_value)

lemma name_unique: "(c, n) \<in> set tab \<Longrightarrow> (c', n) \<in> set tab \<Longrightarrow> c = c'"
  using names_distinct by (force simp: distinct_map inj_on_def)

lemma find_name_of_code:
  "find (\<lambda>(c, n). c = k) tab = Some (c, n) \<Longrightarrow> find (\<lambda>(c, n'). n' = n) tab = Some (c, n)"
  by (simp add: find_code_iff find_name_iff)

lemma find_code_of_name:
  "find (\<lambda>(c, n). n = s) tab = Some (c, n) \<Longrightarrow> find (\<lambda>(c', n). c' = c) tab = Some (c, n)"
  by (simp add: find_code_iff find_name_iff)

end

interpretation keys: two_way_table key_names
  by unfold_locales (simp_all add: key_names_def)

interpretation buttons: two_way_table lg_button_codes
  by unfold_locales (simp_all add: lg_button_codes_def)

lemma key_names_nonneg: "(c, n) \<in> set key_names \<Longrightarrow> 0 \<le> c"
  by (auto simp: key_names_def)

lemma keymap_code_to_name_iff: "keymap_code_to_name c = Some n \<longleftrightarrow> (c, n) \<in> set key_names"
  by (auto simp: keymap_code_to_name_def keys.find_code_iff split: option.splits
      dest: keys.find_code_iff [THEN iffD2, OF conjI, OF refl] keys.code_unique)

lemma keymap_name_to_code_iff:
  assumes "0 \<le> c"
  shows "keymap_name_to_code (Some n) = c \<longleftrightarrow> (c, n) \<in> set key_names"
  using assms
  by (auto simp: keymap_name_to_code_def keys.find_name_iff split: option.splits
      dest: keys.find_name_iff [THEN iffD2, OF conjI, OF refl] keys.name_unique)

lemmas keymap_iffs = keymap_code_to_name_iff keymap_name_to_code_iff

lemma keymap_name_to_code_known:
  "keymap_code_to_name c = Some n \<Longrightarrow> keymap_name_to_code (Some n) = c"
  using keymap_name_to_code_iff [of c n] key_names_nonneg [of c n]
  by (simp add: keymap_code_to_name_iff)

lemma keymap_code_to_name_known:
  "keymap_name_to_code (Some n) = c \<Longrightarrow> 0 \<le> c \<Longrightarrow> keymap_code_to_name c = Some n"
  by (simp add: keymap_name_to_code_iff keymap_code_to_name_iff)

end
