(* ===== verification/Profiles.thy ===== *)
theory Profiles
  imports Toml_Correct Keymap
begin

text \<open>
  \<^verbatim>\<open>tools/src/profiles.c\<close>: the profiles of a remote, their button maps, and the reading and
  writing of \<^verbatim>\<open>devices.d/<MAC>.toml\<close>.

  A function that fills \<^verbatim>\<open>err\<close> and returns \<open>-1\<close> yields \<open>Some message\<close>; \<open>None\<close> is success. As in C,
  a failing \<open>device_config_from_toml\<close> leaves the configuration it was filling half done.
\<close>

section \<open>Profile\<close>

record profile =
  pr_name :: string
  scroll_speed :: cdouble
  sensitivity :: cdouble
  pr_lpf_alpha :: cdouble
  has_scroll :: bool
  has_sens :: bool
  has_lpf :: bool
  pr_map :: "(int \<times> int) list"

record device_config =
  dc_profile :: string
  dc_calib :: "string option"
  dc_airmouse :: bool
  dc_has_airmouse :: bool
  dc_profiles :: "profile list"

definition profile_init :: "string \<Rightarrow> profile" where
  "profile_init name =
     \<lparr>pr_name = name, scroll_speed = dlit 1 1, sensitivity = dlit 30 1, pr_lpf_alpha = dlit (- 1) 1,
      has_scroll = False, has_sens = False, has_lpf = False, pr_map = []\<rparr>"

definition profile_set_button :: "profile \<Rightarrow> int \<Rightarrow> int \<Rightarrow> profile" where
  "profile_set_button p from to = p\<lparr>pr_map := put_assoc from to (pr_map p)\<rparr>"

definition profile_clear_buttons :: "profile \<Rightarrow> profile" where
  "profile_clear_buttons p = p\<lparr>pr_map := []\<rparr>"

fun validate_map :: "string \<Rightarrow> (int \<times> int) list \<Rightarrow> string option" where
  "validate_map name [] = None"
| "validate_map name ((from, to) # m) =
     (if keymap_code_to_name from = None then
        Some (''profile '' @ squote name @ '': unknown keycode '' @ fmt_d from @ '' in the button map'')
      else if keymap_code_to_name to = None then
        Some (''profile '' @ squote name @ '': unknown keycode '' @ fmt_d to @ '' in the button map'')
      else validate_map name m)"

definition profile_validate :: "profile \<Rightarrow> string option" where
  "profile_validate p =
     (if pr_name p = [] then Some ''profile name is empty''
      else if dle (scroll_speed p) d0 \<or> dgt (scroll_speed p) (dlit 100 1) then
        Some (''profile '' @ squote (pr_name p) @ '': scroll_speed '' @ fmt_g 6 (scroll_speed p) @
              '' out of range (0..100]'')
      else if dle (sensitivity p) d0 \<or> dgt (sensitivity p) (dlit 10000 1) then
        Some (''profile '' @ squote (pr_name p) @ '': sensitivity '' @ fmt_g 6 (sensitivity p) @
              '' out of range (0..10000]'')
      else if has_lpf p \<and> (dlt (pr_lpf_alpha p) d0 \<or> dgt (pr_lpf_alpha p) (dlit 1 1)) then
        Some (''profile '' @ squote (pr_name p) @ '': lpf_alpha '' @ fmt_g 6 (pr_lpf_alpha p) @
              '' out of range (0..1)'')
      else validate_map (pr_name p) (pr_map p))"

definition profile_merge :: "profile \<Rightarrow> profile \<Rightarrow> profile" where
  "profile_merge dst src =
     (let d1 = (if has_scroll src then dst\<lparr>scroll_speed := scroll_speed src\<rparr> else dst);
          d2 = (if has_sens src then d1\<lparr>sensitivity := sensitivity src\<rparr> else d1);
          d3 = (if has_lpf src then d2\<lparr>pr_lpf_alpha := pr_lpf_alpha src\<rparr> else d2)
      in foldl (\<lambda>d (from, to). profile_set_button d from to) d3 (pr_map src))"

definition profile_find :: "device_config \<Rightarrow> string \<Rightarrow> profile option" where
  "profile_find dc name = find (\<lambda>p. pr_name p = name) (dc_profiles dc)"

section \<open>Device configuration\<close>

definition device_config_init :: device_config where
  "device_config_init =
     \<lparr>dc_profile = ''default'', dc_calib = None, dc_airmouse = True, dc_has_airmouse = False,
      dc_profiles = []\<rparr>"

text \<open>\<^verbatim>\<open>num_field\<close> yields the value and the flag, or the error.\<close>

definition num_field ::
  "toml_value \<Rightarrow> string \<Rightarrow> cdouble \<Rightarrow> bool \<Rightarrow> string + (cdouble \<times> bool)" where
  "num_field t key out has = (case toml_table_get_short (Some t) key of
       None \<Rightarrow> Inr (out, has)
     | Some (TFloat d) \<Rightarrow> Inr (d, True)
     | Some (TInt i) \<Rightarrow> Inr (of_int_d i, True)
     | Some _ \<Rightarrow> Inl (squote key @ '' must be a number''))"

definition str_field :: "toml_value \<Rightarrow> string \<Rightarrow> string option \<Rightarrow> string + string option" where
  "str_field t key out = (case toml_table_get_short (Some t) key of
       None \<Rightarrow> Inr out
     | Some (TStr s) \<Rightarrow> Inr (Some s)
     | Some _ \<Rightarrow> Inl (squote key @ '' must be a string''))"

fun parse_button_map :: "(string \<times> toml_value) list \<Rightarrow> profile \<Rightarrow> string option \<times> profile" where
  "parse_button_map [] p = (None, p)"
| "parse_button_map ((key, v) # kvs) p = (case v of
       TStr s \<Rightarrow>
         (let from = keymap_name_to_code (Some key); to = keymap_name_to_code (Some s)
          in if from < 0 then (Some (''unknown keycode '' @ squote key @ '' in the button map''), p)
             else if to < 0 then (Some (''unknown keycode '' @ squote s @ '' in the button map''), p)
             else parse_button_map kvs (profile_set_button p from to))
     | _ \<Rightarrow> (Some ''button_map values must be strings'', p))"

definition profile_parse_fields :: "profile \<Rightarrow> toml_value \<Rightarrow> string option \<times> profile" where
  "profile_parse_fields p t =
     (case num_field t ''scroll_speed'' (scroll_speed p) (has_scroll p) of
        Inl e \<Rightarrow> (Some e, p)
      | Inr (d, h) \<Rightarrow>
          let p1 = p\<lparr>scroll_speed := d, has_scroll := h\<rparr>
          in case num_field t ''sensitivity'' (sensitivity p1) (has_sens p1) of
               Inl e \<Rightarrow> (Some e, p1)
             | Inr (d, h) \<Rightarrow>
                 let p2 = p1\<lparr>sensitivity := d, has_sens := h\<rparr>
                 in case num_field t ''lpf_alpha'' (pr_lpf_alpha p2) (has_lpf p2) of
                      Inl e \<Rightarrow> (Some e, p2)
                    | Inr (d, h) \<Rightarrow>
                        let p3 = p2\<lparr>pr_lpf_alpha := d, has_lpf := h\<rparr>
                        in case toml_table_get_short (Some t) ''button_map'' of
                             None \<Rightarrow> (None, p3)
                           | Some (TTable kvs) \<Rightarrow> parse_button_map kvs p3
                           | Some _ \<Rightarrow> (Some (squote ''button_map'' @ '' must be a table''), p3))"

fun parse_profiles :: "(string \<times> toml_value) list \<Rightarrow> device_config \<Rightarrow> string option \<times> device_config" where
  "parse_profiles [] dc = (None, dc)"
| "parse_profiles ((key, v) # kvs) dc =
     (if \<not> is_table v then (Some (''profile '' @ squote key @ '' must be a table''), dc)
      else if profile_find dc key \<noteq> None then (Some (''duplicate profile '' @ squote key), dc)
      else case profile_parse_fields (profile_init key) v of
             (Some e, p) \<Rightarrow> (Some e, dc)
           | (None, p) \<Rightarrow>
               (case profile_validate p of
                  Some e \<Rightarrow> (Some e, dc)
                | None \<Rightarrow> parse_profiles kvs (dc\<lparr>dc_profiles := dc_profiles dc @ [p]\<rparr>)))"

fun validate_profiles :: "profile list \<Rightarrow> string option" where
  "validate_profiles [] = None"
| "validate_profiles (p # ps) = (case profile_validate p of Some e \<Rightarrow> Some e | None \<Rightarrow> validate_profiles ps)"

definition device_config_validate :: "device_config \<Rightarrow> string option" where
  "device_config_validate dc =
     (if dc_profile dc = [] then Some ''active profile name is empty''
      else case validate_profiles (dc_profiles dc) of
             Some e \<Rightarrow> Some e
           | None \<Rightarrow>
               if dc_profile dc \<noteq> ''default'' \<and> profile_find dc (dc_profile dc) = None
               then Some (''active profile '' @ squote (dc_profile dc) @ '' is not defined'')
               else None)"

definition finish_profiles :: "string option \<times> device_config \<Rightarrow> string option \<times> device_config" where
  "finish_profiles r = (case r of
     (Some e, dc) \<Rightarrow> (Some e, dc) | (None, dc) \<Rightarrow> (device_config_validate dc, dc))"

definition device_config_from_toml ::
  "toml_value option \<Rightarrow> device_config \<Rightarrow> string option \<times> device_config" where
  "device_config_from_toml root dc = (case root of
       Some (TTable kvs) \<Rightarrow>
         (let t = TTable kvs; dc0 = dc\<lparr>dc_profiles := []\<rparr>
          in case str_field t ''profile'' (Some (dc_profile dc0)) of
               Inl e \<Rightarrow> (Some e, dc0)
             | Inr pn \<Rightarrow>
                 let dc1 = dc0\<lparr>dc_profile := the pn\<rparr>
                 in case str_field t ''calib'' (dc_calib dc1) of
                      Inl e \<Rightarrow> (Some e, dc1)
                    | Inr cl \<Rightarrow>
                        let dc2 = dc1\<lparr>dc_calib := (if cl = Some [] then None else cl)\<rparr>
                        in case toml_table_get_short (Some t) ''airmouse'' of
                             Some v \<Rightarrow>
                               (case v of
                                  TBool b \<Rightarrow>
                                    let dc3 = dc2\<lparr>dc_airmouse := b, dc_has_airmouse := True\<rparr>
                                    in case toml_table_get_short (Some t) ''profiles'' of
                                         None \<Rightarrow> (device_config_validate dc3, dc3)
                                       | Some (TTable ps) \<Rightarrow> finish_profiles (parse_profiles ps dc3)
                                       | Some _ \<Rightarrow> (Some (squote ''profiles'' @ '' must be a table''), dc3)
                                | _ \<Rightarrow> (Some (squote ''airmouse'' @ '' must be a boolean''), dc2))
                           | None \<Rightarrow>
                               (case toml_table_get_short (Some t) ''profiles'' of
                                  None \<Rightarrow> (device_config_validate dc2, dc2)
                                | Some (TTable ps) \<Rightarrow> finish_profiles (parse_profiles ps dc2)
                                | Some _ \<Rightarrow> (Some (squote ''profiles'' @ '' must be a table''), dc2)))
     | _ \<Rightarrow> (Some ''device config root is not a table'', dc))"

text \<open>
  \<open>file\<close> is what the path holds: \<open>None\<close> when it does not exist. Return 1 keeps the defaults.
\<close>

definition device_config_load_file ::
  "string \<Rightarrow> string option \<Rightarrow> device_config \<Rightarrow> int \<times> string option \<times> device_config" where
  "device_config_load_file path file dc = (case file of
       None \<Rightarrow> (1, None, dc)
     | Some text \<Rightarrow>
         (case toml_parse text of
            Inl (msg, line) \<Rightarrow>
              (- 1, Some (path @ '': '' @ msg @ '' (line '' @ show_dec (int line) @ '')''), dc)
          | Inr root \<Rightarrow>
              (case device_config_from_toml (Some root) dc of
                 (Some e, dc') \<Rightarrow> (- 1, Some e, dc')
               | (None, dc') \<Rightarrow> (0, None, dc'))))"

section \<open>Mutation and serialisation\<close>

text \<open>
  \<open>device_config_profile_ensure\<close> returns a pointer into the array; the model returns the index.
\<close>

fun find_index :: "('a \<Rightarrow> bool) \<Rightarrow> 'a list \<Rightarrow> nat option" where
  "find_index P [] = None"
| "find_index P (x # xs) = (if P x then Some 0 else map_option Suc (find_index P xs))"

definition device_config_profile_ensure :: "device_config \<Rightarrow> string \<Rightarrow> nat \<times> device_config" where
  "device_config_profile_ensure dc name =
     (case find_index (\<lambda>p. pr_name p = name) (dc_profiles dc) of
        Some i \<Rightarrow> (i, dc)
      | None \<Rightarrow> (length (dc_profiles dc), dc\<lparr>dc_profiles := dc_profiles dc @ [profile_init name]\<rparr>))"

text \<open>
  The \<open>goto oom\<close> of \<open>device_config_to_toml\<close>: an add that fails gives up the whole tree.
  A nested table is built before it is added; the C code adds it empty and fills it through
  the pointer.
\<close>

definition add_or_oom :: "string \<Rightarrow> toml_value \<Rightarrow> toml_value option \<Rightarrow> toml_value option" where
  "add_or_oom key v t = (case toml_table_add t key v of (rc, t') \<Rightarrow> if rc < 0 then None else t')"

definition add_if :: "bool \<Rightarrow> string \<Rightarrow> toml_value \<Rightarrow> toml_value option \<Rightarrow> toml_value option" where
  "add_if b key v t = (if b then add_or_oom key v t else t)"

fun map_to_toml :: "(int \<times> int) list \<Rightarrow> toml_value option \<Rightarrow> toml_value option" where
  "map_to_toml [] bm = bm"
| "map_to_toml ((from, to) # m) bm =
     (case (keymap_code_to_name from, keymap_code_to_name to) of
        (Some f, Some t) \<Rightarrow>
          (case add_or_oom f (toml_new_str (Some t)) bm of None \<Rightarrow> None | Some b \<Rightarrow> map_to_toml m (Some b))
      | _ \<Rightarrow> None)"

definition profile_to_toml :: "profile \<Rightarrow> toml_value option" where
  "profile_to_toml p =
     (let t = add_if (has_lpf p) ''lpf_alpha'' (TFloat (pr_lpf_alpha p))
               (add_if (has_sens p) ''sensitivity'' (TFloat (sensitivity p))
                 (add_if (has_scroll p) ''scroll_speed'' (TFloat (scroll_speed p)) (Some (TTable []))))
      in if pr_map p = [] then t
         else case map_to_toml (pr_map p) (Some (TTable [])) of
                None \<Rightarrow> None
              | Some bm \<Rightarrow> add_or_oom ''button_map'' bm t)"

fun profiles_to_toml :: "profile list \<Rightarrow> toml_value option \<Rightarrow> toml_value option" where
  "profiles_to_toml [] t = t"
| "profiles_to_toml (p # ps) t =
     (case profile_to_toml p of
        None \<Rightarrow> None
      | Some v \<Rightarrow> (case add_or_oom (pr_name p) v t of
                    None \<Rightarrow> None | Some t' \<Rightarrow> profiles_to_toml ps (Some t')))"

definition device_config_to_toml :: "device_config \<Rightarrow> toml_value option" where
  "device_config_to_toml dc =
     (let t0 = add_or_oom ''profile'' (toml_new_str (Some (dc_profile dc))) (Some (TTable []));
          t1 = add_if (dc_calib dc \<noteq> None) ''calib'' (toml_new_str (dc_calib dc)) t0;
          t2 = add_if (dc_has_airmouse dc) ''airmouse'' (toml_new_bool (if dc_airmouse dc then 1 else 0)) t1
      in if dc_profiles dc = [] then t2
         else case profiles_to_toml (dc_profiles dc) (Some (TTable [])) of
                None \<Rightarrow> None
              | Some ps \<Rightarrow> add_or_oom ''profiles'' ps t2)"

end
