(* ===== verification/Profiles_Correct.thy ===== *)
theory Profiles_Correct
  imports Profiles
begin

text \<open>
  Properties of the device configuration: the button map is a keyed store, merging profiles is
  a right-biased union, whatever is loaded is valid, and a saved configuration loads back unchanged.
\<close>

section \<open>The button map\<close>

interpretation bmap: keyed_store "\<lambda>p. map_of (pr_map p)" profile_set_button "\<lambda>p. distinct (map fst (pr_map p))"
  "\<lambda>_ _. True"
  by unfold_locales (auto simp: profile_set_button_def intro: distinct_put_assoc)

lemma all_valid [simp]: "list_all (\<lambda>(k, v). True) kvs"
  by (simp add: list_all_iff split_def)

lemma fold_buttons:
  "\<exists>m'. foldl (\<lambda>d (from, to). profile_set_button d from to) d m = d\<lparr>pr_map := m'\<rparr>"
proof (induction m arbitrary: d)
  case Nil
  show ?case by (rule exI [of _ "pr_map d"]) simp
next
  case (Cons e m)
  obtain f t where e: "e = (f, t)" by (cases e)
  show ?case
    using Cons.IH [of "profile_set_button d f t"] by (auto simp: e profile_set_button_def [of d])
qed

lemma profile_merge_flag: "has_lpf (profile_merge dst src) = has_lpf dst"
proof -
  define d where "d = (let d1 = (if has_scroll src then dst\<lparr>scroll_speed := scroll_speed src\<rparr> else dst);
          d2 = (if has_sens src then d1\<lparr>sensitivity := sensitivity src\<rparr> else d1)
      in (if has_lpf src then d2\<lparr>pr_lpf_alpha := pr_lpf_alpha src\<rparr> else d2))"
  obtain m' where "foldl (\<lambda>d (from, to). profile_set_button d from to) d (pr_map src) = d\<lparr>pr_map := m'\<rparr>"
    using fold_buttons by blast
  moreover have "profile_merge dst src = foldl (\<lambda>d (from, to). profile_set_button d from to) d (pr_map src)"
    by (simp add: profile_merge_def d_def Let_def)
  ultimately show ?thesis by (simp add: d_def Let_def)
qed

text \<open>
  Merging a profile into another takes the source's entry for every button it maps and the
  numbers it has set, and keeps everything else of the destination.
\<close>

lemma profile_merge_spec:
  assumes "distinct (map fst (pr_map dst))" and "distinct (map fst (pr_map src))"
    and "m = profile_merge dst src"
  shows "map_of (pr_map m) = map_of (pr_map dst) ++ map_of (pr_map src) \<and>
    distinct (map fst (pr_map m)) \<and>
    scroll_speed m = (if has_scroll src then scroll_speed src else scroll_speed dst) \<and>
    sensitivity m = (if has_sens src then sensitivity src else sensitivity dst) \<and>
    pr_lpf_alpha m = (if has_lpf src then pr_lpf_alpha src else pr_lpf_alpha dst) \<and>
    pr_name m = pr_name dst"
proof -
  define d where "d = (let d1 = (if has_scroll src then dst\<lparr>scroll_speed := scroll_speed src\<rparr> else dst);
          d2 = (if has_sens src then d1\<lparr>sensitivity := sensitivity src\<rparr> else d1)
      in (if has_lpf src then d2\<lparr>pr_lpf_alpha := pr_lpf_alpha src\<rparr> else d2))"
  define F where "F = foldl (\<lambda>d (from, to). profile_set_button d from to) d (pr_map src)"
  have m: "m = F" by (simp add: assms(3) profile_merge_def F_def d_def Let_def)
  obtain m' where F: "F = d\<lparr>pr_map := m'\<rparr>" unfolding F_def using fold_buttons by blast
  have dm: "pr_map d = pr_map dst" by (simp add: d_def Let_def)
  have inv: "distinct (map fst (pr_map d))" using assms(1) dm by simp
  have "map_of (pr_map F) k = (map_of (pr_map dst) ++ map_of (pr_map src)) k" for k
    unfolding F_def bmap.get_fold_distinct [OF inv all_valid assms(2)]
    by (simp add: dm map_add_def split: option.split)
  then have "map_of (pr_map m) = map_of (pr_map dst) ++ map_of (pr_map src)" by (auto simp: m)
  moreover have "distinct (map fst (pr_map m))"
    unfolding m F_def using bmap.inv_fold [OF inv all_valid] by simp
  moreover have "scroll_speed m = (if has_scroll src then scroll_speed src else scroll_speed dst)"
    "sensitivity m = (if has_sens src then sensitivity src else sensitivity dst)"
    "pr_lpf_alpha m = (if has_lpf src then pr_lpf_alpha src else pr_lpf_alpha dst)"
    "pr_name m = pr_name dst"
    by (simp_all add: m F d_def Let_def)
  ultimately show ?thesis by blast
qed

section \<open>What is loaded is valid\<close>

definition profile_ok :: "profile \<Rightarrow> bool" where
  "profile_ok p \<longleftrightarrow> profile_validate p = None \<and> distinct (map fst (pr_map p))"

lemma parse_button_map_keeps:
  "parse_button_map kvs p = (r, p') \<Longrightarrow> distinct (map fst (pr_map p)) \<Longrightarrow>
   distinct (map fst (pr_map p')) \<and> p' = p\<lparr>pr_map := pr_map p'\<rparr>"
proof (induction kvs p rule: parse_button_map.induct)
  case (2 key v kvs p)
  show ?case
  proof (cases "\<exists>s. v = TStr s \<and> 0 \<le> keymap_name_to_code (Some key) \<and> 0 \<le> keymap_name_to_code (Some s)")
    case True
    then obtain s where v: "v = TStr s" "\<not> keymap_name_to_code (Some key) < 0" "\<not> keymap_name_to_code (Some s) < 0"
      by auto
    from "2.IH" [OF v(1) refl refl v(2,3)] "2.prems" v show ?thesis
      by (auto simp: Let_def bmap.inv_put) (simp add: profile_set_button_def)
  next
    case False
    with "2.prems" show ?thesis
      by (cases v) (auto simp: Let_def split: if_splits)
  qed
qed simp

lemma profile_parse_fields_keeps:
  assumes "profile_parse_fields p t = (r, p')" and "distinct (map fst (pr_map p))"
  shows "distinct (map fst (pr_map p')) \<and> pr_name p' = pr_name p"
proof -
  define keeps where "keeps x \<longleftrightarrow> distinct (map fst (pr_map (snd x))) \<and> pr_name (snd x) = pr_name p"
    for x :: "string option \<times> profile"
  have bm: "keeps (parse_button_map kvs q)" if "pr_map q = pr_map p" "pr_name q = pr_name p" for kvs q
  proof -
    obtain r q' where q': "parse_button_map kvs q = (r, q')" by fastforce
    with parse_button_map_keeps [OF q'] that assms(2) have
      "distinct (map fst (pr_map q'))" "q' = q\<lparr>pr_map := pr_map q'\<rparr>" by auto
    from this(2) have "pr_name q' = pr_name (q\<lparr>pr_map := pr_map q'\<rparr>)" by (rule arg_cong)
    with \<open>distinct (map fst (pr_map q'))\<close> that show ?thesis by (simp add: keeps_def q')
  qed
  have fin: "keeps (e, q)" if "pr_map q = pr_map p" "pr_name q = pr_name p" for e q
    using that assms(2) by (simp add: keeps_def)
  have "keeps (profile_parse_fields p t)"
    unfolding profile_parse_fields_def Let_def
    by (auto split: sum.split prod.split option.split toml_value.split intro!: bm fin)
  then show ?thesis by (simp add: keeps_def assms(1))
qed

lemma find_none: "find P xs = None \<longleftrightarrow> (\<forall>x \<in> set xs. \<not> P x)"
  by (auto simp: find_None_iff)

lemma parse_profiles_ok:
  "parse_profiles kvs dc = (None, dc') \<Longrightarrow>
   (\<forall>p \<in> set (dc_profiles dc). profile_ok p) \<Longrightarrow> distinct (map pr_name (dc_profiles dc)) \<Longrightarrow>
   (\<forall>p \<in> set (dc_profiles dc'). profile_ok p) \<and> distinct (map pr_name (dc_profiles dc'))"
proof (induction kvs arbitrary: dc)
  case (Cons kv kvs)
  obtain key v where kv: "kv = (key, v)" by (cases kv)
  from Cons.prems(1) obtain p where v: "is_table v" "profile_find dc key = None"
    and p: "profile_parse_fields (profile_init key) v = (None, p)" "profile_validate p = None"
    and rest: "parse_profiles kvs (dc\<lparr>dc_profiles := dc_profiles dc @ [p]\<rparr>) = (None, dc')"
    by (auto simp: kv split: if_splits prod.splits option.splits)
  have ok: "profile_ok p" "pr_name p = key"
    using profile_parse_fields_keeps [OF p(1)] p(2) by (auto simp: profile_ok_def profile_init_def)
  have new: "key \<notin> pr_name ` set (dc_profiles dc)"
    using v(2) by (auto simp: profile_find_def find_none)
  show ?case
  proof (rule Cons.IH [OF rest])
    show "\<forall>q \<in> set (dc_profiles (dc\<lparr>dc_profiles := dc_profiles dc @ [p]\<rparr>)). profile_ok q"
      using ok(1) Cons.prems(2) by simp
    show "distinct (map pr_name (dc_profiles (dc\<lparr>dc_profiles := dc_profiles dc @ [p]\<rparr>)))"
      using ok(2) new Cons.prems(3) by simp
  qed
qed simp

text \<open>
  C31: a device file that loads gives a valid configuration: it passes validation, profile names
  are distinct, every button map is single-valued and only names known keycodes.
\<close>

theorem device_config_load_ok:
  assumes "device_config_load_file path (Some text) dc = (0, e, dc')"
  shows "device_config_validate dc' = None \<and> distinct (map pr_name (dc_profiles dc')) \<and>
    (\<forall>p \<in> set (dc_profiles dc'). distinct (map fst (pr_map p)) \<and> profile_validate p = None)"
proof -
  obtain root where from_toml: "device_config_from_toml (Some root) dc = (None, dc')"
    using assms by (auto simp: device_config_load_file_def split: sum.splits prod.splits option.splits)
  have fin: "finish_profiles (parse_profiles ps d) = (None, dc') \<Longrightarrow> dc_profiles d = [] \<Longrightarrow>
      device_config_validate dc' = None \<and> distinct (map pr_name (dc_profiles dc')) \<and>
      (\<forall>p \<in> set (dc_profiles dc'). profile_ok p)" for ps d
    using parse_profiles_ok [of ps d dc'] by (auto simp: finish_profiles_def split: prod.splits option.splits)
  have "device_config_validate dc' = None \<and> distinct (map pr_name (dc_profiles dc')) \<and>
      (\<forall>p \<in> set (dc_profiles dc'). profile_ok p)"
    using from_toml unfolding device_config_from_toml_def Let_def
    by (auto split: toml_value.splits sum.splits option.splits dest!: fin)
  then show ?thesis by (auto simp: profile_ok_def)
qed

theorem device_config_load_ok_witness:
  "\<exists>dc'. device_config_load_file ''x.toml''
       (Some (''airmouse = false'' @ [CHR 0x0A] @ ''[profiles.default]'' @ [CHR 0x0A] @ ''scroll_speed = 2''))
       device_config_init = (0, None, dc') \<and> device_config_validate dc' = None"
  (is "\<exists>dc'. ?load = (0, None, dc') \<and> _")
proof -
  have "fst ?load = 0 \<and> fst (snd ?load) = None" by code_simp
  then have "?load = (0, None, snd (snd ?load))" by (metis prod.collapse)
  from device_config_load_ok [OF this] this show ?thesis by blast
qed

section \<open>Saving and loading\<close>

text \<open>
  The configurations the daemon saves: valid, with distinct names, single-valued maps, and
  defaults in the fields that are not set.
\<close>

definition profile_storable :: "profile \<Rightarrow> bool" where
  "profile_storable p \<longleftrightarrow> profile_ok p \<and>
     (has_scroll p \<or> scroll_speed p = dlit 1 1) \<and> (has_sens p \<or> sensitivity p = dlit 30 1) \<and>
     (has_lpf p \<or> pr_lpf_alpha p = dlit (- 1) 1)"

definition dc_storable :: "device_config \<Rightarrow> bool" where
  "dc_storable dc \<longleftrightarrow> device_config_validate dc = None \<and> dc_calib dc \<noteq> Some [] \<and>
     (dc_has_airmouse dc \<or> dc_airmouse dc) \<and> distinct (map pr_name (dc_profiles dc)) \<and>
     list_all profile_storable (dc_profiles dc)"

definition key_name :: "int \<Rightarrow> string" where
  "key_name c = (case keymap_code_to_name c of Some n \<Rightarrow> n | None \<Rightarrow> [])"

definition map_members :: "(int \<times> int) list \<Rightarrow> (string \<times> toml_value) list" where
  "map_members m = map (\<lambda>(f, t). (key_name f, TStr (key_name t))) m"

definition profile_members :: "profile \<Rightarrow> (string \<times> toml_value) list" where
  "profile_members p =
     (if has_scroll p then [(''scroll_speed'', TFloat (scroll_speed p))] else []) @
     (if has_sens p then [(''sensitivity'', TFloat (sensitivity p))] else []) @
     (if has_lpf p then [(''lpf_alpha'', TFloat (pr_lpf_alpha p))] else []) @
     (if pr_map p = [] then [] else [(''button_map'', TTable (map_members (pr_map p)))])"

definition dc_members :: "device_config \<Rightarrow> (string \<times> toml_value) list" where
  "dc_members dc =
     [(''profile'', TStr (dc_profile dc))] @
     (case dc_calib dc of None \<Rightarrow> [] | Some c \<Rightarrow> [(''calib'', TStr c)]) @
     (if dc_has_airmouse dc then [(''airmouse'', TBool (dc_airmouse dc))] else []) @
     (if dc_profiles dc = [] then []
      else [(''profiles'', TTable (map (\<lambda>p. (pr_name p, TTable (profile_members p))) (dc_profiles dc)))])"

lemma validate_map_iff:
  "validate_map n m = None \<longleftrightarrow>
     (\<forall>(f, t) \<in> set m. keymap_code_to_name f \<noteq> None \<and> keymap_code_to_name t \<noteq> None)"
  by (induction n m rule: validate_map.induct) auto

lemma profile_ok_map:
  "profile_ok p \<Longrightarrow> (\<forall>(f, t) \<in> set (pr_map p). keymap_code_to_name f \<noteq> None \<and> keymap_code_to_name t \<noteq> None)"
  by (auto simp: profile_ok_def profile_validate_def validate_map_iff split: if_splits)

lemma key_name_known: "keymap_code_to_name c \<noteq> None \<Longrightarrow> keymap_code_to_name c = Some (key_name c)"
  by (auto simp: key_name_def)

lemma key_name_code: "keymap_code_to_name c \<noteq> None \<Longrightarrow> keymap_name_to_code (Some (key_name c)) = c \<and> 0 \<le> c"
proof -
  assume "keymap_code_to_name c \<noteq> None"
  then have k: "keymap_code_to_name c = Some (key_name c)" by (rule key_name_known)
  then have "0 \<le> c" using key_names_nonneg by (auto simp: keymap_code_to_name_iff)
  with keymap_name_to_code_known [OF k] show ?thesis by simp
qed

lemma key_name_inj:
  "keymap_code_to_name c \<noteq> None \<Longrightarrow> keymap_code_to_name c' \<noteq> None \<Longrightarrow> key_name c = key_name c' \<longleftrightarrow> c = c'"
  using key_name_code by metis

lemma add_or_oom_new [simp]:
  "k \<notin> fst ` set kvs \<Longrightarrow> add_or_oom k v (Some (TTable kvs)) = Some (TTable (kvs @ [(k, v)]))"
  by (simp add: add_or_oom_def toml_table_add_def)

lemma map_to_toml_members:
  assumes "\<forall>(f, t) \<in> set m. keymap_code_to_name f \<noteq> None \<and> keymap_code_to_name t \<noteq> None"
    and "distinct (map fst m)" and "\<forall>(f, t) \<in> set m. key_name f \<notin> fst ` set acc"
  shows "map_to_toml m (Some (TTable acc)) = Some (TTable (acc @ map_members m))"
  using assms
proof (induction m arbitrary: acc)
  case (Cons e m)
  obtain f t where e: "e = (f, t)" by (cases e)
  have known: "keymap_code_to_name f = Some (key_name f)" "keymap_code_to_name t = Some (key_name t)"
    using Cons.prems(1) key_name_known by (auto simp: e)
  have "\<forall>(f', t') \<in> set m. key_name f' \<notin> fst ` set (acc @ [(key_name f, TStr (key_name t))])"
  proof (safe del: notI, rule notI)
    fix f' t' assume ft: "(f', t') \<in> set m" and in_acc: "key_name f' \<in> fst ` set (acc @ [(key_name f, TStr (key_name t))])"
    from ft Cons.prems(2) have "f' \<noteq> f" by (force simp: e)
    moreover have "keymap_code_to_name f' \<noteq> None" "keymap_code_to_name f \<noteq> None"
      using Cons.prems(1) ft by (auto simp: e)
    ultimately have "key_name f' \<noteq> key_name f" using key_name_inj by blast
    with in_acc Cons.prems(3) ft show False by (auto simp: e)
  qed
  from Cons.IH [OF _ _ this] Cons.prems show ?case
    by (simp add: e known toml_new_str_def map_members_def)
qed (simp add: map_members_def)

lemma profile_to_toml_members:
  assumes "profile_ok p"
  shows "profile_to_toml p = Some (TTable (profile_members p))"
  using map_to_toml_members [OF profile_ok_map [OF assms], of "[]"] assms
  by (simp add: profile_to_toml_def profile_members_def add_if_def profile_ok_def Let_def)

lemma profiles_to_toml_members:
  assumes "list_all profile_ok ps" and "distinct (map pr_name ps)"
    and "fst ` set acc \<inter> pr_name ` set ps = {}"
  shows "profiles_to_toml ps (Some (TTable acc)) =
    Some (TTable (acc @ map (\<lambda>p. (pr_name p, TTable (profile_members p))) ps))"
  using assms
proof (induction ps arbitrary: acc)
  case (Cons p ps)
  have "fst ` set (acc @ [(pr_name p, TTable (profile_members p))]) \<inter> pr_name ` set ps = {}"
    using Cons.prems by auto
  moreover have "pr_name p \<notin> fst ` set acc" using Cons.prems(3) by auto
  ultimately show ?case
    using Cons.IH [of "acc @ [(pr_name p, TTable (profile_members p))]"] Cons.prems
    by (simp add: profile_to_toml_members)
qed simp

lemma dc_to_toml_members:
  assumes "dc_storable dc"
  shows "device_config_to_toml dc = Some (TTable (dc_members dc))"
proof -
  have "list_all profile_ok (dc_profiles dc)"
    using assms by (auto simp: dc_storable_def profile_storable_def list_all_iff)
  with profiles_to_toml_members [of "dc_profiles dc" "[]"] assms show ?thesis
    by (auto simp: device_config_to_toml_def dc_members_def dc_storable_def add_if_def
        toml_new_str_def toml_new_bool_def Let_def split: option.split)
qed

text \<open>Reading back.\<close>

lemma parse_button_map_members:
  assumes "\<forall>(f, t) \<in> set m. keymap_code_to_name f \<noteq> None \<and> keymap_code_to_name t \<noteq> None"
    and "distinct (map fst m)" and "fst ` set m \<inter> fst ` set (pr_map p) = {}"
  shows "parse_button_map (map_members m) p = (None, p\<lparr>pr_map := pr_map p @ m\<rparr>)"
  using assms
proof (induction m arbitrary: p)
  case (Cons e m)
  obtain f t where e: "e = (f, t)" by (cases e)
  have codes: "keymap_name_to_code (Some (key_name f)) = f" "keymap_name_to_code (Some (key_name t)) = t" "0 \<le> f" "0 \<le> t"
    using Cons.prems(1) key_name_code by (auto simp: e)
  have "put_assoc f t xs = xs @ [(f, t)]" if "f \<notin> fst ` set xs" for xs
    using that by (induction xs) auto
  then have put: "profile_set_button p f t = p\<lparr>pr_map := pr_map p @ [(f, t)]\<rparr>"
    using Cons.prems(3) by (simp add: profile_set_button_def e)
  have "fst ` set m \<inter> fst ` set (pr_map (p\<lparr>pr_map := pr_map p @ [(f, t)]\<rparr>)) = {}"
    using Cons.prems(2,3) by (auto simp: e)
  with Cons.IH [of "p\<lparr>pr_map := pr_map p @ [(f, t)]\<rparr>"] Cons.prems codes put show ?case
    by (simp add: e map_members_def)
qed (simp add: map_members_def)

lemma profile_fields_members:
  assumes "profile_storable p"
  shows "profile_parse_fields (profile_init (pr_name p)) (TTable (profile_members p)) = (None, p)"
proof -
  have ok: "profile_ok p" and d: "has_scroll p \<or> scroll_speed p = dlit 1 1"
    "has_sens p \<or> sensitivity p = dlit 30 1" "has_lpf p \<or> pr_lpf_alpha p = dlit (- 1) 1"
    using assms by (auto simp: profile_storable_def)
  have gets: "map_of (profile_members p) ''scroll_speed'' = (if has_scroll p then Some (TFloat (scroll_speed p)) else None)"
    "map_of (profile_members p) ''sensitivity'' = (if has_sens p then Some (TFloat (sensitivity p)) else None)"
    "map_of (profile_members p) ''lpf_alpha'' = (if has_lpf p then Some (TFloat (pr_lpf_alpha p)) else None)"
    "map_of (profile_members p) ''button_map'' = (if pr_map p = [] then None else Some (TTable (map_members (pr_map p))))"
    by (auto simp: profile_members_def)
  have bm: "parse_button_map (map_members (pr_map p)) q = (None, q\<lparr>pr_map := pr_map p\<rparr>)" if "pr_map q = []" for q
    using parse_button_map_members [OF profile_ok_map [OF ok], of q] ok that by (simp add: profile_ok_def)
  show ?thesis
    using d by (auto simp: profile_parse_fields_def num_field_def toml_table_get_short_def gets bm
        profile_init_def Let_def)
qed

lemma parse_profiles_members:
  assumes "list_all profile_storable ps" and "distinct (map pr_name ps)"
    and "pr_name ` set (dc_profiles dc) \<inter> pr_name ` set ps = {}"
  shows "parse_profiles (map (\<lambda>p. (pr_name p, TTable (profile_members p))) ps) dc =
    (None, dc\<lparr>dc_profiles := dc_profiles dc @ ps\<rparr>)"
  using assms
proof (induction ps arbitrary: dc)
  case (Cons p ps)
  have p: "profile_storable p" "profile_validate p = None"
    using Cons.prems(1) by (auto simp: profile_storable_def profile_ok_def)
  have none: "profile_find dc (pr_name p) = None"
    using Cons.prems(3) unfolding profile_find_def find_none by (auto simp del: image_eqI intro: rev_image_eqI)
  have "pr_name ` set (dc_profiles (dc\<lparr>dc_profiles := dc_profiles dc @ [p]\<rparr>)) \<inter> pr_name ` set ps = {}"
    using Cons.prems by auto
  from Cons.IH [OF _ _ this] Cons.prems(1,2)
  have "parse_profiles (map (\<lambda>p. (pr_name p, TTable (profile_members p))) ps) (dc\<lparr>dc_profiles := dc_profiles dc @ [p]\<rparr>) =
      (None, dc\<lparr>dc_profiles := dc_profiles dc @ p # ps\<rparr>)" by simp
  with none p profile_fields_members [OF p(1)] show ?case by simp
qed simp

lemma device_config_members:
  assumes "dc_storable dc"
  shows "device_config_from_toml (Some (TTable (dc_members dc))) device_config_init = (None, dc)"
proof -
  have gets: "map_of (dc_members dc) ''profile'' = Some (TStr (dc_profile dc))"
    "map_of (dc_members dc) ''calib'' = map_option TStr (dc_calib dc)"
    "map_of (dc_members dc) ''airmouse'' = (if dc_has_airmouse dc then Some (TBool (dc_airmouse dc)) else None)"
    "map_of (dc_members dc) ''profiles'' = (if dc_profiles dc = [] then None
       else Some (TTable (map (\<lambda>p. (pr_name p, TTable (profile_members p))) (dc_profiles dc))))"
    by (auto simp: dc_members_def split: option.splits)
  have ps: "parse_profiles (map (\<lambda>p. (pr_name p, TTable (profile_members p))) (dc_profiles dc)) d =
      (None, d\<lparr>dc_profiles := dc_profiles dc\<rparr>)" if "dc_profiles d = []" for d
    using parse_profiles_members [of "dc_profiles dc" d] assms that by (simp add: dc_storable_def)
  have v: "device_config_validate dc = None" and c: "dc_calib dc \<noteq> Some []"
    and a: "dc_has_airmouse dc \<or> dc_airmouse dc" using assms by (auto simp: dc_storable_def)
  have val: "device_config_validate d = None" if "dc_profile d = dc_profile dc" "dc_profiles d = dc_profiles dc" for d
    using v unfolding device_config_validate_def profile_find_def that .
  show ?thesis
    using c a
    by (cases "dc_calib dc")
      (auto simp: device_config_from_toml_def str_field_def toml_table_get_short_def gets ps
        finish_profiles_def device_config_init_def Let_def val)
qed

text \<open>
  A configuration the daemon saves loads back unchanged: reading the tree that
  \<open>device_config_to_toml\<close> writes into a fresh configuration succeeds and gives the original.
\<close>

theorem device_config_roundtrip:
  assumes "dc_storable dc"
  shows "\<exists>t. device_config_to_toml dc = Some t \<and>
    device_config_from_toml (Some t) device_config_init = (None, dc)"
  using device_config_members [OF assms] dc_to_toml_members [OF assms] by blast

theorem device_config_roundtrip_witness:
  "let dc = device_config_init\<lparr>dc_profile := ''tv'', dc_calib := Some ''/c.json'',
       dc_profiles := [(profile_init ''tv'')\<lparr>pr_map := [(28, 272)], has_sens := True, sensitivity := dlit 5 1\<rparr>]\<rparr>
   in \<exists>t. device_config_to_toml dc = Some t \<and> device_config_from_toml (Some t) device_config_init = (None, dc)"
  unfolding Let_def by (rule device_config_roundtrip) code_simp

end
