(* ===== verification/Evdev.thy ===== *)
theory Evdev
  imports Pairing
begin

text \<open>
  \<^verbatim>\<open>tools/src/evdev.c\<close>: opening the event nodes of a remote and assembling frames from their
  event streams.

  The kernel side is a parameter: \<open>nodes path\<close> is the result of \<^verbatim>\<open>open\<close> (the text of \<^verbatim>\<open>strerror\<close>,
  or the node with what its ioctls answer), \<open>dirs\<close> the entries of \<^verbatim>\<open>/dev/input\<close> in the order of \<^verbatim>\<open>readdir\<close>, and a
  device's reads are a list of results. A read that would block forever is \<open>None\<close>.
  \<open>ev_value\<close> is any \<^verbatim>\<open>s32\<close>; the sums of wheel steps are exact, a frame of steps that overflow an
  \<^verbatim>\<open>int\<close> is outside the model.
\<close>

section \<open>Devices\<close>

record evdev_imu =
  ev_fd :: int
  ev_name :: string
  ev_path :: string
  last_counter :: "32 word"
  have_frame :: bool
  ev_accel :: "int \<times> int \<times> int"
  ev_gyro :: "int \<times> int \<times> int"
  ev_vendor :: int
  ev_product :: int

record input_node =
  nd_fd :: int
  nd_name :: "string option"
  nd_id :: "(int \<times> int) option"
  nd_abs :: "int \<Rightarrow> int option"

type_synonym input_nodes = "string \<Rightarrow> string + input_node"

definition buf_str :: "nat \<Rightarrow> string \<Rightarrow> string" where
  "buf_str n s = take (n - 1) s"

definition open_probe :: "input_nodes \<Rightarrow> string \<Rightarrow> evdev_imu \<Rightarrow> (string + input_node) \<times> evdev_imu" where
  "open_probe nodes path dev = (case nodes path of
       Inl e \<Rightarrow> (Inl e, dev\<lparr>ev_fd := - 1\<rparr>)
     | Inr nd \<Rightarrow>
         (Inr nd, dev\<lparr>ev_fd := nd_fd nd,
              ev_name := buf_str 256 (case nd_name nd of None \<Rightarrow> [] | Some s \<Rightarrow> s),
              ev_path := buf_str 256 path,
              ev_vendor := (case nd_id nd of Some (v, p) \<Rightarrow> v | None \<Rightarrow> 0),
              ev_product := (case nd_id nd of Some (v, p) \<Rightarrow> p | None \<Rightarrow> 0)\<rparr>))"

definition abs_value :: "input_node \<Rightarrow> int \<Rightarrow> int" where
  "abs_value nd cd = (case nd_abs nd cd of None \<Rightarrow> 0 | Some v \<Rightarrow> v)"

definition open_imu :: "input_nodes \<Rightarrow> string \<Rightarrow> evdev_imu \<Rightarrow> string option \<times> evdev_imu" where
  "open_imu nodes path dev = (case open_probe nodes path dev of
       (Inl e, d) \<Rightarrow> (Some e, d)
     | (Inr nd, d) \<Rightarrow>
         (None, d\<lparr>ev_accel := (abs_value nd 0, abs_value nd 1, abs_value nd 2),
              ev_gyro := (abs_value nd 3, abs_value nd 4, abs_value nd 5),
              last_counter := 0, have_frame := False\<rparr>))"

definition evdev_probe :: "input_nodes \<Rightarrow> string \<Rightarrow> (string \<times> int \<times> int) option" where
  "evdev_probe nodes path = (case nodes path of
       Inl e \<Rightarrow> None
     | Inr nd \<Rightarrow>
         Some (buf_str 256 (case nd_name nd of None \<Rightarrow> [] | Some s \<Rightarrow> s),
               (case nd_id nd of Some (v, p) \<Rightarrow> v | None \<Rightarrow> 0),
               (case nd_id nd of Some (v, p) \<Rightarrow> p | None \<Rightarrow> 0)))"

definition evdev_close :: "evdev_imu \<Rightarrow> evdev_imu" where
  "evdev_close dev = (if ev_fd dev \<ge> 0 then dev\<lparr>ev_fd := - 1\<rparr> else dev)"

definition strstr :: "string \<Rightarrow> string \<Rightarrow> bool" where
  "strstr s sub \<longleftrightarrow> list_ex (\<lambda>i. take (length sub) (drop i s) = sub) [0..<Suc (length s)]"

definition is_event_node :: "string \<Rightarrow> bool" where
  "is_event_node name \<longleftrightarrow> take 5 name = ''event''"

text \<open>The search loops: the first event node with the wanted property stays open.\<close>

fun find_imu_scan :: "input_nodes \<Rightarrow> string list \<Rightarrow> evdev_imu \<Rightarrow> bool \<times> evdev_imu" where
  "find_imu_scan nodes [] dev = (False, dev)"
| "find_imu_scan nodes (n # ns) dev =
     (if \<not> is_event_node n then find_imu_scan nodes ns dev
      else case open_imu nodes (''/dev/input/'' @ n) dev of
             (Some e, d) \<Rightarrow> find_imu_scan nodes ns d
           | (None, d) \<Rightarrow>
               if strstr (ev_name d) ''IMU'' then (True, d) else find_imu_scan nodes ns (evdev_close d))"

definition evdev_find_imu ::
  "input_nodes \<Rightarrow> string + string list \<Rightarrow> string option \<Rightarrow> evdev_imu \<Rightarrow> string option \<times> evdev_imu" where
  "evdev_find_imu nodes dirs wanted dev = (case wanted of
       Some path \<Rightarrow>
         (case open_imu nodes path dev of
            (Some e, d) \<Rightarrow> (Some (''cannot open '' @ path @ '': '' @ e), d)
          | (None, d) \<Rightarrow> (None, d))
     | None \<Rightarrow>
         (case dirs of
            Inl e \<Rightarrow> (Some (''cannot scan /dev/input: '' @ e), dev)
          | Inr ns \<Rightarrow>
              (case find_imu_scan nodes ns dev of
                 (True, d) \<Rightarrow> (None, d)
               | (False, d) \<Rightarrow> (Some ''no IMU evdev device found in /dev/input/'', d))))"

definition kbd_candidate :: "evdev_imu \<Rightarrow> bool" where
  "kbd_candidate d = pairing_is_keyboard
     \<lparr>pd_path = Some (ev_path d), pd_name = Some (ev_name d), pd_uniq = Some [],
      pd_vendor = ev_vendor d, pd_product = ev_product d\<rparr>"

fun find_kbd_scan :: "input_nodes \<Rightarrow> string list \<Rightarrow> evdev_imu \<Rightarrow> bool \<times> evdev_imu" where
  "find_kbd_scan nodes [] dev = (False, dev)"
| "find_kbd_scan nodes (n # ns) dev =
     (if \<not> is_event_node n then find_kbd_scan nodes ns dev
      else case open_probe nodes (''/dev/input/'' @ n) dev of
             (Inl e, d) \<Rightarrow> find_kbd_scan nodes ns d
           | (Inr nd, d) \<Rightarrow> if kbd_candidate d then (True, d) else find_kbd_scan nodes ns (evdev_close d))"

definition evdev_find_keyboard ::
  "input_nodes \<Rightarrow> string + string list \<Rightarrow> string option \<Rightarrow> evdev_imu \<Rightarrow> string option \<times> evdev_imu" where
  "evdev_find_keyboard nodes dirs wanted dev = (case wanted of
       Some path \<Rightarrow>
         (case open_probe nodes path dev of
            (Inl e, d) \<Rightarrow> (Some (''cannot open '' @ path @ '': '' @ e), d)
          | (Inr nd, d) \<Rightarrow> (None, d))
     | None \<Rightarrow>
         (case dirs of
            Inl e \<Rightarrow> (Some (''cannot scan /dev/input: '' @ e), dev)
          | Inr ns \<Rightarrow>
              (case find_kbd_scan nodes ns dev of
                 (True, d) \<Rightarrow> (None, d)
               | (False, d) \<Rightarrow> (Some ''no LG keyboard evdev device found in /dev/input/'', d))))"

text \<open>
  \<^verbatim>\<open>evdev_read_uniq\<close>: \<open>links\<close> is \<^verbatim>\<open>readlink\<close> on sysfs, \<open>sysfs\<close> the contents of its files. The result is
  the error and the string left in the buffer.
\<close>

definition after_last_slash :: "string \<Rightarrow> string" where
  "after_last_slash s = rev (takeWhile (\<lambda>c. c \<noteq> CHR ''/'') (rev s))"

definition evdev_read_uniq ::
  "(string \<Rightarrow> string option) \<Rightarrow> (string \<Rightarrow> string option) \<Rightarrow> string \<Rightarrow> nat \<Rightarrow> string option \<times> string" where
  "evdev_read_uniq links sysfs path outsz =
     (if CHR ''/'' \<notin> set path \<or> \<not> is_event_node (after_last_slash path)
      then (Some (path @ '': not an evdev node''), [])
      else case links (''/sys/class/input/'' @ after_last_slash path @ ''/device'') of
             None \<Rightarrow> (None, [])
           | Some link \<Rightarrow>
               (case sysfs (''/sys/class/input/'' @ after_last_slash (take 4095 link) @ ''/uniq'') of
                  None \<Rightarrow> (None, [])
                | Some content \<Rightarrow>
                    (None, takeWhile (\<lambda>c. c \<noteq> CHR 0x00 \<and> c \<noteq> CHR 0x0A) (take (outsz - 1) content))))"

section \<open>Frames\<close>

record evdev_frame =
  fr_counter :: "32 word"
  fr_dt :: cdouble
  fr_accel :: "int \<times> int \<times> int"
  fr_gyro :: "int \<times> int \<times> int"
  fr_keys :: "(int \<times> int) list"
  fr_wheel :: int
  fr_hwheel :: int

definition frame_zero :: evdev_frame where
  "frame_zero = \<lparr>fr_counter = 0, fr_dt = d0, fr_accel = (0, 0, 0), fr_gyro = (0, 0, 0), fr_keys = [],
     fr_wheel = 0, fr_hwheel = 0\<rparr>"

record input_event =
  ev_type :: int
  ev_code :: int
  ev_value :: int

datatype read_res =
    REvent input_event
  | RIntr bool          \<comment> \<open>EINTR, with the value of \<open>g_stop\<close>\<close>
  | RFail string
  | REof
  | RPartial

definition EV_SYN :: int where "EV_SYN = 0"
definition EV_KEY :: int where "EV_KEY = 1"
definition EV_REL :: int where "EV_REL = 2"
definition EV_ABS :: int where "EV_ABS = 3"
definition EV_MSC :: int where "EV_MSC = 4"

lemmas ev_types = EV_SYN_def EV_KEY_def EV_REL_def EV_ABS_def EV_MSC_def

definition set_axis :: "int \<Rightarrow> int \<Rightarrow> evdev_imu \<Rightarrow> evdev_imu" where
  "set_axis cd v dev =
     (case (ev_accel dev, ev_gyro dev) of ((x, y, z), (rx, ry, rz)) \<Rightarrow>
        if cd = 0 then dev\<lparr>ev_accel := (v, y, z)\<rparr>
        else if cd = 1 then dev\<lparr>ev_accel := (x, v, z)\<rparr>
        else if cd = 2 then dev\<lparr>ev_accel := (x, y, v)\<rparr>
        else if cd = 3 then dev\<lparr>ev_gyro := (v, ry, rz)\<rparr>
        else if cd = 4 then dev\<lparr>ev_gyro := (rx, v, rz)\<rparr>
        else if cd = 5 then dev\<lparr>ev_gyro := (rx, ry, v)\<rparr>
        else dev)"

text \<open>An event other than \<^verbatim>\<open>EV_SYN\<close>: the frame's queue holds 16 keys, further ones are dropped.\<close>

definition frame_event :: "input_event \<Rightarrow> evdev_imu \<times> evdev_frame \<Rightarrow> evdev_imu \<times> evdev_frame" where
  "frame_event ev s = (case s of (dev, f) \<Rightarrow>
     (if ev_type ev = EV_KEY then
        (dev, if length (fr_keys f) < 16 then f\<lparr>fr_keys := fr_keys f @ [(ev_code ev, ev_value ev)]\<rparr> else f)
      else if ev_type ev = EV_REL then
        (dev, if ev_code ev = 8 then f\<lparr>fr_wheel := fr_wheel f + ev_value ev\<rparr>
              else if ev_code ev = 6 then f\<lparr>fr_hwheel := fr_hwheel f + ev_value ev\<rparr> else f)
      else if ev_type ev = EV_ABS then (set_axis (ev_code ev) (ev_value ev) dev, f)
      else if ev_type ev = EV_MSC then
        (dev, if ev_code ev = 0 then f\<lparr>fr_counter := word_of_int (ev_value ev)\<rparr> else f)
      else (dev, f)))"

definition frame_dt :: "32 word \<Rightarrow> 32 word \<Rightarrow> cdouble" where
  "frame_dt counter prev =
     dmul (ddiv (of_int_d (uint (counter - prev) mod 65536)) (dlit 256 1)) (dlit 2 100)"

definition frame_syn :: "evdev_imu \<times> evdev_frame \<Rightarrow> evdev_imu \<times> evdev_frame" where
  "frame_syn s = (case s of (dev, f) \<Rightarrow>
     (dev\<lparr>have_frame := True, last_counter := fr_counter f\<rparr>,
      f\<lparr>fr_dt := (if have_frame dev then frame_dt (fr_counter f) (last_counter dev) else DNaN),
        fr_accel := ev_accel dev, fr_gyro := ev_gyro dev\<rparr>))"

fun read_frame_loop ::
  "read_res list \<Rightarrow> evdev_imu \<times> evdev_frame \<Rightarrow> (int \<times> string option \<times> (evdev_imu \<times> evdev_frame) \<times> read_res list) option" where
  "read_frame_loop [] s = None"
| "read_frame_loop (RFail e # rs) s =
     Some (- 1, Some (''read error on '' @ ev_path (fst s) @ '': '' @ e), s, rs)"
| "read_frame_loop (RIntr stop # rs) s = (if stop then Some (- 1, None, s, rs) else read_frame_loop rs s)"
| "read_frame_loop (REof # rs) s = Some (0, None, s, rs)"
| "read_frame_loop (RPartial # rs) s = read_frame_loop rs s"
| "read_frame_loop (REvent ev # rs) s =
     (if ev_type ev = EV_SYN then Some (1, None, frame_syn s, rs)
      else read_frame_loop rs (frame_event ev s))"

definition evdev_read_frame_ext ::
  "read_res list \<Rightarrow> evdev_imu \<Rightarrow> (int \<times> string option \<times> (evdev_imu \<times> evdev_frame) \<times> read_res list) option" where
  "evdev_read_frame_ext rs dev = read_frame_loop rs (dev, frame_zero)"

section \<open>What a frame holds\<close>

text \<open>
  The reads of one frame: events before the \<^verbatim>\<open>EV_SYN\<close>, interrupted and partial reads that the
  loop skips.
\<close>

fun frame_read :: "read_res \<Rightarrow> bool" where
  "frame_read (REvent ev) = (ev_type ev \<noteq> EV_SYN)"
| "frame_read (RIntr stop) = (\<not> stop)"
| "frame_read RPartial = True"
| "frame_read _ = False"

fun events_of :: "read_res list \<Rightarrow> input_event list" where
  "events_of [] = []"
| "events_of (REvent ev # rs) = ev # events_of rs"
| "events_of (r # rs) = events_of rs"

definition typed :: "int \<Rightarrow> input_event list \<Rightarrow> (int \<times> int) list" where
  "typed t evs = map (\<lambda>ev. (ev_code ev, ev_value ev)) (filter (\<lambda>ev. ev_type ev = t) evs)"

definition last_of :: "(int \<times> int) list \<Rightarrow> int \<Rightarrow> int \<Rightarrow> int" where
  "last_of kvs k dflt = (case map_of (rev kvs) k of Some v \<Rightarrow> v | None \<Rightarrow> dflt)"

definition sum_of :: "(int \<times> int) list \<Rightarrow> int \<Rightarrow> int" where
  "sum_of kvs k = sum_list (map snd (filter (\<lambda>(c, v). c = k) kvs))"

lemma read_frame_skip:
  "list_all frame_read reads \<Longrightarrow>
   read_frame_loop (reads @ rs) s = read_frame_loop rs (foldl (\<lambda>s ev. frame_event ev s) s (events_of reads))"
proof (induction reads arbitrary: s)
  case (Cons r reads)
  then show ?case by (cases r) auto
qed simp

lemma typed_snoc:
  "typed t (evs @ [ev]) = typed t evs @ (if ev_type ev = t then [(ev_code ev, ev_value ev)] else [])"
  by (simp add: typed_def)

lemma last_of_snoc: "last_of (kvs @ [(c, v)]) k d = (if k = c then v else last_of kvs k d)"
  by (simp add: last_of_def)

lemma sum_of_snoc: "sum_of (kvs @ [(c, v)]) k = sum_of kvs k + (if c = k then v else 0)"
  by (simp add: sum_of_def)

lemma fold_queue:
  assumes "foldl (\<lambda>s ev. frame_event ev s) (dev, frame_zero) evs = (d, f)"
  shows "fr_keys f = take 16 (typed EV_KEY evs) \<and> fr_wheel f = sum_of (typed EV_REL evs) 8 \<and>
    fr_hwheel f = sum_of (typed EV_REL evs) 6 \<and> fr_counter f = word_of_int (last_of (typed EV_MSC evs) 0 0)"
  using assms
proof (induction evs arbitrary: d f rule: rev_induct)
  case Nil
  then show ?case by (auto simp: frame_zero_def typed_def sum_of_def last_of_def)
next
  case (snoc ev evs)
  obtain d0 f0 where 0: "foldl (\<lambda>s ev. frame_event ev s) (dev, frame_zero) evs = (d0, f0)" by fastforce
  have f: "f = snd (frame_event ev (d0, f0))" using snoc.prems 0 by simp
  consider "ev_type ev = 1" | "ev_type ev = 2" | "ev_type ev = 4" | "ev_type ev \<notin> {1, 2, 4}" by auto
  then show ?case
    using snoc.IH [OF 0] f
    by cases (auto simp: frame_event_def typed_snoc ev_types last_of_snoc sum_of_snoc min_def)
qed

lemma fold_axes:
  assumes "foldl (\<lambda>s ev. frame_event ev s) (dev, f0) evs = (d, f)"
    and "ev_accel dev = (x, y, z)" and "ev_gyro dev = (rx, ry, rz)"
  shows "(let L = last_of (typed EV_ABS evs)
     in d = dev\<lparr>ev_accel := (L 0 x, L 1 y, L 2 z), ev_gyro := (L 3 rx, L 4 ry, L 5 rz)\<rparr>)"
  using assms(1)
proof (induction evs arbitrary: d f rule: rev_induct)
  case Nil
  with assms(2,3) show ?case by (simp add: typed_def last_of_def)
next
  case (snoc ev evs)
  obtain d1 f1 where 1: "foldl (\<lambda>s ev. frame_event ev s) (dev, f0) evs = (d1, f1)" by fastforce
  have d: "d = (if ev_type ev = EV_ABS then set_axis (ev_code ev) (ev_value ev) d1 else d1)"
    using snoc.prems 1 by (auto simp: frame_event_def ev_types split: if_splits)
  show ?case
  proof (cases "ev_type ev = EV_ABS")
    case True
    define L where "L = last_of (typed EV_ABS evs)"
    have "d1 = dev\<lparr>ev_accel := (L 0 x, L 1 y, L 2 z), ev_gyro := (L 3 rx, L 4 ry, L 5 rz)\<rparr>"
      using snoc.IH [OF 1] by (simp add: Let_def L_def)
    with True d show ?thesis
      by (simp add: typed_snoc last_of_snoc set_axis_def Let_def L_def [symmetric])
  next
    case False
    with snoc.IH [OF 1] d show ?thesis by (simp add: typed_snoc)
  qed
qed

lemma counter_delta: "uint (c - l) mod 65536 = (uint c - uint l) mod 65536" for c l :: "32 word"
proof -
  have "uint (c - l) = (uint c - uint l) mod 2 ^ 32" by (simp add: uint_word_arith_bintrs take_bit_eq_mod)
  then show ?thesis by (simp add: mod_mod_cancel)
qed

text \<open>
  C24: a frame holds exactly what its events say, whatever interrupted or partial reads come in
  between: the first sixteen key events in order, the sums of the wheel steps, the last value of
  every axis (or the previous one) and the time step from the counter modulo 65536.
\<close>

theorem read_frame_spec:
  assumes "list_all frame_read reads" and "ev_type syn = EV_SYN"
    and "ev_accel dev = (x, y, z)" and "ev_gyro dev = (rx, ry, rz)"
    and "evs = events_of reads" and "L = last_of (typed EV_ABS evs)"
  shows "\<exists>d f. evdev_read_frame_ext (reads @ REvent syn # rs) dev = Some (1, None, (d, f), rs) \<and>
    fr_keys f = take 16 (typed EV_KEY evs) \<and>
    fr_wheel f = sum_of (typed EV_REL evs) 8 \<and> fr_hwheel f = sum_of (typed EV_REL evs) 6 \<and>
    fr_accel f = (L 0 x, L 1 y, L 2 z) \<and> fr_gyro f = (L 3 rx, L 4 ry, L 5 rz) \<and>
    fr_counter f = word_of_int (last_of (typed EV_MSC evs) 0 0) \<and> last_counter d = fr_counter f \<and>
    fr_dt f = (if have_frame dev
      then dmul (ddiv (of_int_d ((uint (fr_counter f) - uint (last_counter dev)) mod 65536)) (dlit 256 1)) (dlit 2 100)
      else DNaN)"
proof -
  obtain d f where df: "foldl (\<lambda>s ev. frame_event ev s) (dev, frame_zero) evs = (d, f)" by fastforce
  have "evdev_read_frame_ext (reads @ REvent syn # rs) dev = Some (1, None, frame_syn (d, f), rs)"
    using read_frame_skip [OF assms(1)] assms(2,5) df by (simp add: evdev_read_frame_ext_def)
  moreover have "d = dev\<lparr>ev_accel := (L 0 x, L 1 y, L 2 z), ev_gyro := (L 3 rx, L 4 ry, L 5 rz)\<rparr>"
    using fold_axes [OF df assms(3,4)] by (simp add: Let_def assms(6))
  ultimately show ?thesis
    using fold_queue [OF df] by (auto simp: frame_syn_def frame_dt_def counter_delta)
qed

definition sample_dev :: evdev_imu where
  "sample_dev = \<lparr>ev_fd = 3, ev_name = ''LG Magic Remote IMU'', ev_path = ''/dev/input/event3'',
     last_counter = 65000, have_frame = True, ev_accel = (1, 2, 3), ev_gyro = (4, 5, 6), ev_vendor = 15,
     ev_product = 13330\<rparr>"

theorem read_frame_spec_witness:
  "\<exists>d f. evdev_read_frame_ext
       ([REvent \<lparr>ev_type = EV_MSC, ev_code = 0, ev_value = 488\<rparr>, RIntr False,
         REvent \<lparr>ev_type = EV_ABS, ev_code = 1, ev_value = - 7\<rparr>, RPartial,
         REvent \<lparr>ev_type = EV_KEY, ev_code = 28, ev_value = 1\<rparr>] @
        REvent \<lparr>ev_type = EV_SYN, ev_code = 0, ev_value = 0\<rparr> # [REof]) sample_dev = Some (1, None, (d, f), [REof]) \<and>
     fr_accel f = (1, - 7, 3) \<and> fr_gyro f = (4, 5, 6) \<and> fr_keys f = [(28, 1)] \<and>
     fr_dt f = dmul (ddiv (of_int_d 1024) (dlit 256 1)) (dlit 2 100)"
  (is "\<exists>d f. evdev_read_frame_ext (?reads @ REvent ?syn # ?rs) _ = _ \<and> _")
proof -
  have 1: "list_all frame_read ?reads" "ev_type ?syn = EV_SYN" by (simp_all add: ev_types)
  have 2: "ev_accel sample_dev = (1, 2, 3)" "ev_gyro sample_dev = (4, 5, 6)" by (simp_all add: sample_dev_def)
  from read_frame_spec [OF 1 2 refl refl, of ?rs] show ?thesis
    by (auto simp: typed_def ev_types last_of_def sample_dev_def)
qed

end
