(* ===== verification/Pipeline.thy ===== *)
theory Pipeline
  imports Profiles_Correct Config Calib Evdev
begin

text \<open>
  \<^verbatim>\<open>tools/src/daemon_pipeline.c\<close>: key remapping with pinned presses, the wheel accumulator and
  the airmouse, configured from the device file and the global configuration.

  The writes to the virtual devices (\<^verbatim>\<open>uinput.c\<close>) are the list of events a step emits;
  whether a write succeeds is a parameter \<open>ok\<close>. A step is \<open>None\<close> where a cast of the C code is undefined.
\<close>

section \<open>State and outputs\<close>

datatype out_event =
    OKey int int        \<comment> \<open>EV\_KEY on the virtual keyboard\<close>
  | OScroll int int     \<comment> \<open>REL\_WHEEL and REL\_WHEEL\_HI\_RES on the virtual mouse\<close>
  | OMove int int       \<comment> \<open>REL\_X and REL\_Y on the virtual mouse\<close>

record pipeline =
  wheel_accum :: cdouble
  pl_active :: profile
  pl_cal :: calib
  have_cal :: bool
  airmouse_on :: bool
  pl_am :: airmouse
  gate_logged :: int
  held :: "(int \<times> int) list"

definition pipeline_init :: pipeline where
  "pipeline_init =
     \<lparr>wheel_accum = d0, pl_active = profile_init ''resolved'', pl_cal = calib_init_identity,
      have_cal = False, airmouse_on = False, pl_am = airmouse_zeroed, gate_logged = - 1, held = []\<rparr>"

section \<open>Configuration\<close>

text \<open>
  \<open>files\<close> gives the content of a calibration path; \<open>kbd\<close> says whether the virtual keyboard is
  open. The result is the error, the events and the new state.
\<close>

definition release_held :: "(int \<times> int) list \<Rightarrow> out_event list" where
  "release_held h = map (\<lambda>(phys, virt). OKey virt 0) (rev h)"

definition pipeline_configure ::
  "(string \<Rightarrow> string + string) \<Rightarrow> pipeline \<Rightarrow> device_config \<Rightarrow> string option \<Rightarrow> config \<Rightarrow> bool \<Rightarrow>
   string option \<times> out_event list \<times> pipeline" where
  "pipeline_configure files p dc calib_path gcfg kbd =
     (let out = (if kbd then release_held (held p) else []);
          p1 = (if kbd then p\<lparr>held := []\<rparr> else p);
          src = (case profile_find dc (dc_profile dc) of
                   Some s \<Rightarrow> Some s | None \<Rightarrow> profile_find dc ''default'');
          fresh = profile_init ''resolved'';
          p2 = p1\<lparr>pl_active := (case src of Some s \<Rightarrow> profile_merge fresh s | None \<Rightarrow> fresh)\<rparr>;
          finish = (\<lambda>q.
            let alpha = (if has_lpf (pl_active q) then pr_lpf_alpha (pl_active q) else cf_lpf_alpha gcfg);
                am = airmouse_gate_cfg (airmouse_init (pl_am q) alpha (sensitivity (pl_active q)))
                       (accel_gate gcfg) (accel_gate_lo gcfg) (accel_gate_hi gcfg)
            in (None, out, q\<lparr>pl_am := am, airmouse_on := dc_airmouse dc\<rparr>))
      in case calib_path of
           None \<Rightarrow> finish (p2\<lparr>have_cal := False\<rparr>)
         | Some path \<Rightarrow>
             if path = [] then finish (p2\<lparr>have_cal := False\<rparr>)
             else (case calib_load path (files path) of
                     (Some e, c) \<Rightarrow> (Some e, out, p2)
                   | (None, c) \<Rightarrow> finish (p2\<lparr>pl_cal := c, have_cal := True\<rparr>)))"

section \<open>Keyboard frames\<close>

text \<open>The search loop keeps the last entry with the physical code.\<close>

definition held_index :: "(int \<times> int) list \<Rightarrow> int \<Rightarrow> nat option" where
  "held_index h phys =
     foldl (\<lambda>found k. if fst (h ! k) = phys then Some k else found) None [0..<length h]"

definition map_key :: "profile \<Rightarrow> int \<Rightarrow> int" where
  "map_key prof phys = (case map_of (pr_map prof) phys of Some to \<Rightarrow> to | None \<Rightarrow> phys)"

definition pipeline_key :: "pipeline \<Rightarrow> int \<times> int \<Rightarrow> out_event \<times> pipeline" where
  "pipeline_key p kv =
     (let phys = fst kv; val = snd kv
      in case held_index (held p) phys of
           Some i \<Rightarrow>
             (OKey (snd (held p ! i)) val,
              if val = 0 then p\<lparr>held := butlast ((held p)[i := last (held p)])\<rparr> else p)
         | None \<Rightarrow>
             (OKey (map_key (pl_active p) phys) val,
              if val \<noteq> 0 \<and> length (held p) < 32
              then p\<lparr>held := held p @ [(phys, map_key (pl_active p) phys)]\<rparr> else p))"

fun pipeline_keys :: "pipeline \<Rightarrow> (int \<times> int) list \<Rightarrow> out_event list \<times> pipeline" where
  "pipeline_keys p [] = ([], p)"
| "pipeline_keys p (kv # kvs) =
     (case pipeline_key p kv of (e, p') \<Rightarrow>
        (case pipeline_keys p' kvs of (es, p'') \<Rightarrow> (e # es, p'')))"

definition pipeline_wheel :: "pipeline \<Rightarrow> int \<Rightarrow> (out_event list \<times> pipeline) option" where
  "pipeline_wheel p wheel =
     (if wheel = 0 then Some ([], p)
      else let acc = dadd (wheel_accum p) (dmul (of_int_d wheel) (scroll_speed (pl_active p)))
           in case d2int acc of
                None \<Rightarrow> None
              | Some clicks \<Rightarrow>
                  Some (if clicks = 0 then [] else [OScroll clicks (clicks * 120)],
                        p\<lparr>wheel_accum := dsub acc (of_int_d clicks)\<rparr>))"

definition pipeline_keyboard ::
  "(out_event \<Rightarrow> bool) \<Rightarrow> pipeline \<Rightarrow> evdev_frame \<Rightarrow> (int \<times> out_event list \<times> pipeline) option" where
  "pipeline_keyboard ok p f =
     (case pipeline_keys p (fr_keys f) of (es, p1) \<Rightarrow>
        (case pipeline_wheel p1 (fr_wheel f) of
           None \<Rightarrow> None
         | Some (ws, p2) \<Rightarrow> Some (if list_all ok (es @ ws) then 0 else - 1, es @ ws, p2)))"

section \<open>IMU frames\<close>

fun vec_of_ints :: "int \<times> int \<times> int \<Rightarrow> vec3" where
  "vec_of_ints (x, y, z) = (of_int_d x, of_int_d y, of_int_d z)"

definition pipeline_imu ::
  "(out_event \<Rightarrow> bool) \<Rightarrow> pipeline \<Rightarrow> evdev_frame \<Rightarrow> (int \<times> out_event list \<times> pipeline) option" where
  "pipeline_imu ok p f =
     (if \<not> airmouse_on p then Some (0, [], p)
      else let a_raw = vec_of_ints (fr_accel f); g_raw = vec_of_ints (fr_gyro f);
               g_out = (if have_cal p then snd (calib_apply (pl_cal p) a_raw g_raw) else g_raw)
           in case airmouse_process (pl_am p) g_out a_raw of
                (am, filt, Some dx, Some dy) \<Rightarrow>
                  if dx \<noteq> 0 \<or> dy \<noteq> 0
                  then Some (if ok (OMove dx dy) then 0 else - 1, [OMove dx dy], p\<lparr>pl_am := am\<rparr>)
                  else Some (0, [], p\<lparr>pl_am := am\<rparr>)
              | _ \<Rightarrow> None)"

section \<open>No virtual key stays down\<close>

text \<open>
  The keys down on the virtual keyboard after a sequence of its events.
\<close>

fun vkeys :: "int set \<Rightarrow> out_event list \<Rightarrow> int set" where
  "vkeys S [] = S"
| "vkeys S (OKey c v # es) = vkeys (if v = 0 then S - {c} else insert c S) es"
| "vkeys S (e # es) = vkeys S es"

lemma vkeys_append: "vkeys S (xs @ ys) = vkeys (vkeys S xs) ys"
  by (induction S xs rule: vkeys.induct) auto

lemma held_index_some:
  "held_index h phys = Some i \<Longrightarrow> i < length h \<and> fst (h ! i) = phys"
proof -
  have "foldl (\<lambda>found k. if fst (h ! k) = phys then Some k else found) z ks = Some i \<Longrightarrow>
      z = Some i \<or> i \<in> set ks \<and> fst (h ! i) = phys" for z ks
    by (induction ks arbitrary: z) (auto split: if_splits)
  then show "held_index h phys = Some i \<Longrightarrow> i < length h \<and> fst (h ! i) = phys"
    unfolding held_index_def by fastforce
qed

definition keys_covered :: "int set \<Rightarrow> pipeline \<Rightarrow> bool" where
  "keys_covered S p \<longleftrightarrow> S \<subseteq> snd ` set (held p)"

lemma butlast_move:
  assumes "i < length xs"
  shows "set xs \<subseteq> insert (xs ! i) (set (butlast (xs[i := last xs])))"
proof
  fix x assume "x \<in> set xs"
  then obtain j where j: "j < length xs" "x = xs ! j" by (auto simp: in_set_conv_nth)
  define n where "n = length xs - 1"
  have "xs \<noteq> []" using assms by auto
  then have l: "last xs = xs ! n" "length xs = Suc n" using assms by (auto simp: n_def last_conv_nth)
  consider "j = i" | "j \<noteq> i" "j < n" | "j \<noteq> i" "j = n" using j(1) l(2) by linarith
  then show "x \<in> insert (xs ! i) (set (butlast (xs[i := last xs])))"
  proof cases
    case 2
    then have "butlast (xs[i := last xs]) ! j = xs ! j" using l by (simp add: nth_butlast)
    with 2 l j(2) show ?thesis by (metis (no_types) insertI2 length_butlast length_list_update diff_Suc_1 nth_mem)
  next
    case 3
    then have "i < n" using assms l(2) by simp
    then have "butlast (xs[i := last xs]) ! i = xs ! n" using l by (simp add: nth_butlast)
    with 3 l j(2) \<open>i < n\<close> show ?thesis by (metis (no_types) insertI2 length_butlast length_list_update diff_Suc_1 nth_mem)
  qed (use j in simp)
qed

lemma pipeline_key_covered:
  assumes "keys_covered S p" and "pipeline_key p kv = (e, p')"
    and "length (held p) < 32 \<or> snd kv = 0 \<or> held_index (held p) (fst kv) \<noteq> None"
  shows "keys_covered (vkeys S [e]) p'"
proof (cases "held_index (held p) (fst kv)")
  case None
  define c where "c = map_key (pl_active p) (fst kv)"
  have S: "S \<subseteq> snd ` set (held p)" using assms(1) by (simp add: keys_covered_def)
  show ?thesis
  proof (cases "snd kv = 0")
    case True
    with None assms(2) have "e = OKey c 0" "p' = p" by (auto simp: pipeline_key_def c_def Let_def)
    with S show ?thesis by (auto simp: keys_covered_def)
  next
    case False
    with None assms(2,3) have "e = OKey c (snd kv)" "p' = p\<lparr>held := held p @ [(fst kv, c)]\<rparr>"
      by (auto simp: pipeline_key_def c_def Let_def)
    with S False show ?thesis by (auto simp: keys_covered_def)
  qed
next
  case (Some i)
  have i: "i < length (held p)" using held_index_some [OF Some] by simp
  show ?thesis
  proof (cases "snd kv = 0")
    case True
    have "S - {snd (held p ! i)} \<subseteq> snd ` set (butlast ((held p)[i := last (held p)]))"
      using assms(1) butlast_move [OF i] unfolding keys_covered_def by blast
    with assms(2) Some True show ?thesis by (auto simp: pipeline_key_def keys_covered_def Let_def)
  next
    case False
    with assms(1,2) Some i show ?thesis by (auto simp: pipeline_key_def keys_covered_def Let_def)
  qed
qed

text \<open>
  The daemon's use of a pipeline: key events (at most 32 keys held at once), wheel and IMU
  frames, and reconfiguration while the virtual keyboard is open, which may change the button map
  while keys are down.
\<close>

inductive pipe_reach :: "pipeline \<Rightarrow> int set \<Rightarrow> bool" where
  start: "pipe_reach pipeline_init {}"
| key: "pipe_reach p S \<Longrightarrow> pipeline_key p kv = (e, p') \<Longrightarrow>
    length (held p) < 32 \<or> snd kv = 0 \<or> held_index (held p) (fst kv) \<noteq> None \<Longrightarrow> pipe_reach p' (vkeys S [e])"
| wheel: "pipe_reach p S \<Longrightarrow> pipeline_wheel p w = Some (es, p') \<Longrightarrow> pipe_reach p' (vkeys S es)"
| imu: "pipe_reach p S \<Longrightarrow> pipeline_imu ok p f = Some (rc, es, p') \<Longrightarrow> pipe_reach p' (vkeys S es)"
| configure: "pipe_reach p S \<Longrightarrow> pipeline_configure files p dc path gcfg True = (err, es, p') \<Longrightarrow>
    pipe_reach p' (vkeys S es)"

lemma vkeys_release: "vkeys S (release_held h) = S - snd ` set h"
proof (induction h arbitrary: S rule: rev_induct)
  case (snoc e h)
  then show ?case by (cases e) (auto simp: release_held_def)
qed (simp add: release_held_def)

lemma configure_held:
  "pipeline_configure files p dc path gcfg True = (err, es, p') \<Longrightarrow> es = release_held (held p) \<and> held p' = []"
  by (auto simp: pipeline_configure_def Let_def split: option.splits if_splits prod.splits)

lemma wheel_imu_held:
  "pipeline_wheel p w = Some (es, p') \<Longrightarrow> held p' = held p \<and> vkeys S es = S"
  "pipeline_imu ok p f = Some (rc, es, p') \<Longrightarrow> held p' = held p \<and> vkeys S es = S"
  by (auto simp: pipeline_wheel_def pipeline_imu_def Let_def split: if_splits option.splits prod.splits)

lemma pipe_reach_covered: "pipe_reach p S \<Longrightarrow> keys_covered S p"
proof (induction rule: pipe_reach.induct)
  case start
  show ?case by (simp add: keys_covered_def)
next
  case (key p S kv e p')
  then show ?case by (intro pipeline_key_covered)
next
  case (wheel p S w es p')
  then show ?case using wheel_imu_held(1) [OF wheel.hyps(2)] by (simp add: keys_covered_def)
next
  case (imu p S ok f rc es p')
  then show ?case using wheel_imu_held(2) [OF imu.hyps(2)] by (simp add: keys_covered_def)
next
  case (configure p S files dc path gcfg err es p')
  then show ?case using configure_held [OF configure.hyps(2)] by (auto simp: keys_covered_def vkeys_release)
qed

text \<open>
  C3: no key gets stuck on the virtual keyboard: in every reachable state each virtual key that is down belongs to
  a physical key still held, even when the button map changed in between; so once all physical keys
  are up, or right after a reconfiguration, no virtual key is down.
\<close>

theorem pipeline_no_stuck_keys:
  assumes "pipe_reach p S"
  shows "S \<subseteq> snd ` set (held p) \<and> (held p = [] \<longrightarrow> S = {}) \<and>
    (\<forall>files dc path gcfg err es p'.
       pipeline_configure files p dc path gcfg True = (err, es, p') \<longrightarrow> vkeys S es = {})"
  using pipe_reach_covered [OF assms] configure_held
  by (fastforce simp: keys_covered_def vkeys_release)

theorem pipeline_no_stuck_keys_witness:
  "\<exists>p. pipe_reach p {28} \<and> {28} \<subseteq> snd ` set (held p)"
proof -
  have "pipeline_key pipeline_init (28, 1) = (OKey 28 1, pipeline_init\<lparr>held := [(28, 28)]\<rparr>)" by code_simp
  from pipe_reach.key [OF pipe_reach.start this]
  have "pipe_reach (pipeline_init\<lparr>held := [(28, 28)]\<rparr>) {28}" by (simp add: pipeline_init_def)
  with pipeline_no_stuck_keys [OF this] show ?thesis by blast
qed

text \<open>
  A release repeats the code its press was mapped to: after a press of a free key, any changes
  of the active profile and the release of that key, the events are a press and a release of the same
  virtual key.
\<close>

lemma pipeline_release_matches_press:
  assumes "held_index (held p) phys = None" and "length (held p) < 32" and "val \<noteq> 0"
    and "pipeline_key p (phys, val) = (e1, p1)" and "pipeline_key (p1\<lparr>pl_active := prof\<rparr>) (phys, 0) = (e2, p2)"
  shows "\<exists>c. e1 = OKey c val \<and> e2 = OKey c 0 \<and> held p2 = held p"
proof -
  define c where "c = map_key (pl_active p) phys"
  have p1: "e1 = OKey c val" "held p1 = held p @ [(phys, c)]"
    using assms by (auto simp: pipeline_key_def c_def Let_def)
  have "held_index (held p @ [(phys, c)]) phys = Some (length (held p))"
    by (simp add: held_index_def nth_append)
  then have "e2 = OKey c 0" "held p2 = held p"
    using assms(5) p1(2) by (auto simp: pipeline_key_def Let_def nth_append)
  with p1(1) show ?thesis by blast
qed

text \<open>
  The profile's low-pass gain never takes effect: whatever the device file sets, a successful
  configuration runs the airmouse with the global \<open>lpf_alpha\<close>, because merging does not carry the flag.
\<close>

lemma pipeline_ignores_profile_lpf:
  assumes "pipeline_configure files p dc path gcfg kbd = (None, es, p')"
  shows "am_alpha (pl_am p') = cf_lpf_alpha gcfg"
proof -
  have flag: "has_lpf (profile_merge (profile_init n) s) = False" for n s
    by (simp add: profile_merge_flag) (simp add: profile_init_def)
  have init: "has_lpf (profile_init n) = False" for n by (simp add: profile_init_def)
  show ?thesis
    using assms
    by (auto simp: pipeline_configure_def Let_def flag init airmouse_gate_cfg_def airmouse_init_def
        split: option.splits if_splits prod.splits)
qed

end
