(* ===== verification/Kernel_Driver.thy ===== *)
theory Kernel_Driver
  imports Calib Keymap
begin

text \<open>
  \<^verbatim>\<open>kernel/lgmagic_main.c\<close> and \<^verbatim>\<open>kernel/lgmagic_airmouse.c\<close>: the HID driver, from a 20-byte report
  to the input events it emits, the calibration firmware and the probe.

  The module parameters may change between reports, so they are an argument of each step.
  The input core, the HID core and the firmware loader are outside the sources: what they
  return is an argument, what is reported to them is the list of events. \<open>None\<close> is the
  conversion of an out-of-range \<^verbatim>\<open>float\<close> to \<^verbatim>\<open>s16\<close>.
\<close>

unbundle bit_operations_syntax

section \<open>State\<close>

record module_params =
  raw_only :: bool
  mp_airmouse :: bool
  airmouse_threshold :: int
  imu_evdev :: bool
  key_0x8000 :: int

record drvdata =
  input_hid :: bool
  input_imu :: bool
  last_keycode :: int
  last_btncode :: "16 word"
  gyro_acc :: vec3
  dr_mode :: bool
  dr_calib :: calib_blob

datatype kevent =
    KKey int int | KRel int int | KSyncHid
  | KMsc int | KAbs int int | KSyncImu

definition BTN_LEFT :: int where "BTN_LEFT = 0x110"
definition KEY_UP :: int where "KEY_UP = 103"
definition KEY_DOWN :: int where "KEY_DOWN = 108"
definition KEY_MAX :: int where "KEY_MAX = 0x2ff"
definition REL_X :: int where "REL_X = 0"
definition REL_Y :: int where "REL_Y = 1"
definition REL_WHEEL :: int where "REL_WHEEL = 8"

definition LGMAGIC_CODE_WHEEL :: int where "LGMAGIC_CODE_WHEEL = 0x8044"
definition LGMAGIC_CODE_MODELDEP :: int where "LGMAGIC_CODE_MODELDEP = 0x8000"

section \<open>Buttons\<close>

definition lgmagic_btn_keycode :: "module_params \<Rightarrow> int \<Rightarrow> int \<Rightarrow> int" where
  "lgmagic_btn_keycode mp cd keycode =
     (if cd = LGMAGIC_CODE_MODELDEP \<and> key_0x8000 mp \<ge> 0 \<and> key_0x8000 mp \<le> KEY_MAX
      then key_0x8000 mp else keycode)"

definition lg_btn_map :: "(int \<times> int) list" where
  "lg_btn_map = [
     (0x8000, 116), (0x8099, 142), (0x8010, 11), (0x8011, 2), (0x8012, 3), (0x8013, 4),
     (0x8014, 5), (0x8015, 6), (0x8016, 7), (0x8017, 8), (0x8018, 9), (0x8019, 10),
     (0x8044, 28), (0x8044, 0x110), (0x8053, 395), (0x8045, 139), (0x8002, 115), (0x8003, 114), (0x8009, 113),
     (0x808B, 582), (0x807C, 102), (0x8043, 141), (0x8028, 158), (0x80AB, 362), (0x805D, 226),
     (0x800B, 377), (0x8098, 438), (0x8001, 403), (0x8072, 398), (0x8071, 399), (0x8063, 400),
     (0x8061, 401), (0x8081, 393), (0x80B0, 207), (0x80BA, 119), (0x8040, 103), (0x8041, 108),
     (0x8006, 106), (0x8007, 105)]"

text \<open>The first block of \<^verbatim>\<open>raw_event\<close>: release the old key, press the new one.\<close>

definition report_buttons :: "module_params \<Rightarrow> drvdata \<Rightarrow> 16 word \<Rightarrow> kevent list \<times> drvdata" where
  "report_buttons mp d btn =
     (if btn = last_btncode d then ([], d)
      else
        let rel = [KKey (last_keycode d) 0];
            d1 = d\<lparr>last_keycode := 0, last_btncode := btn\<rparr>
        in if btn = 0 then (rel, d1)
           else case map_of lg_btn_map (uint btn) of
                  None \<Rightarrow> (rel, d1)
                | Some k \<Rightarrow>
                    if uint btn = LGMAGIC_CODE_WHEEL \<and> dr_mode d1 \<and> \<not> raw_only mp
                    then (rel @ [KKey BTN_LEFT 1], d1\<lparr>last_keycode := BTN_LEFT\<rparr>)
                    else let rk = lgmagic_btn_keycode mp (uint btn) k
                         in (rel @ [KKey rk 1], d1\<lparr>dr_mode := False, last_keycode := rk\<rparr>))"

definition report_wheel :: "module_params \<Rightarrow> drvdata \<Rightarrow> int \<Rightarrow> kevent list" where
  "report_wheel mp d wheel =
     (if wheel = 0 then []
      else if raw_only mp \<or> dr_mode d then [KRel REL_WHEEL wheel]
      else let k = (if wheel > 0 then KEY_UP else KEY_DOWN) in [KKey k 1, KKey k 0])"

section \<open>The in-kernel airmouse\<close>

abbreviation fsub :: "cdouble \<Rightarrow> cdouble \<Rightarrow> cdouble" where
  "fsub x y \<equiv> to_float (dsub x y)"

abbreviation fmul :: "cdouble \<Rightarrow> cdouble \<Rightarrow> cdouble" where
  "fmul x y \<equiv> to_float (dmul x y)"

definition lgmagic_fabs :: "cdouble \<Rightarrow> cdouble" where
  "lgmagic_fabs v = (if dlt v d0 then dneg v else v)"

definition lgmagic_validate_calib :: "calib_blob \<Rightarrow> int" where
  "lgmagic_validate_calib b =
     (if list_ex (\<lambda>i. dgt (lgmagic_fabs (bl_gyro_bias b ! i)) (dlit 100 1) \<or>
                      dgt (lgmagic_fabs (bl_gyro_scale b ! i)) (dlit 10 1)) [0, 1, 2] then 1
      else if dlt (bl_alpha b) d0 \<or> dgt (bl_alpha b) (dlit 1 1) then 1
      else if dlt (bl_mouse_k b) d0 \<or> dgt (bl_mouse_k b) (dlit 1 1) then 1
      else 0)"

definition gyro_step :: "calib_blob \<Rightarrow> nat \<Rightarrow> int \<Rightarrow> cdouble \<Rightarrow> cdouble" where
  "gyro_step c i g acc =
     (let corr = fmul (fsub (of_int_d g) (bl_gyro_bias c ! i)) (bl_gyro_scale c ! i)
      in to_float (dadd (fmul (bl_alpha c) corr) (dmul (dsub (dlit 1 1) (bl_alpha c)) acc)))"

text \<open>The result: whether the move is big, the filter state and the two \<^verbatim>\<open>s16\<close> movements.\<close>

definition lgmagic_calc_mouse ::
  "calib_blob \<Rightarrow> vec3 \<Rightarrow> int \<Rightarrow> int list \<Rightarrow> (bool \<times> vec3 \<times> int \<times> int) option" where
  "lgmagic_calc_mouse c acc threshold gyro =
     (case acc of (x, y, z) \<Rightarrow>
        let x' = gyro_step c 0 (gyro ! 0) x; y' = gyro_step c 1 (gyro ! 1) y; z' = gyro_step c 2 (gyro ! 2) z;
            t = of_int_d threshold
        in case (d2s16 (fmul z' (bl_mouse_k c)), d2s16 (fmul x' (bl_mouse_k c))) of
             (Some mx, Some my) \<Rightarrow>
               Some (dgt (lgmagic_fabs x') t \<or> dgt (lgmagic_fabs z') t, (x', y', z'), mx, my)
           | _ \<Rightarrow> None)"

text \<open>\<^verbatim>\<open>airmouse_threshold\<close> is passed as a \<^verbatim>\<open>u16\<close>.\<close>

definition report_airmouse ::
  "module_params \<Rightarrow> drvdata \<Rightarrow> int list \<Rightarrow> (kevent list \<times> bool \<times> drvdata) option" where
  "report_airmouse mp d imu =
     (if mp_airmouse mp \<and> \<not> raw_only mp then
        (case lgmagic_calc_mouse (dr_calib d) (gyro_acc d) (airmouse_threshold mp mod 2 ^ 16) imu of
           None \<Rightarrow> None
         | Some (bigmove, acc, mx, my) \<Rightarrow>
             let d1 = d\<lparr>gyro_acc := acc, dr_mode := (dr_mode d \<or> bigmove)\<rparr>
             in Some (if dr_mode d1 then [KRel REL_X mx, KRel REL_Y my] else [], mx \<noteq> 0 \<or> my \<noteq> 0, d1))
      else Some ([], False, d))"

section \<open>Reports\<close>

definition be16 :: "8 word list \<Rightarrow> nat \<Rightarrow> 16 word" where
  "be16 data i = push_bit 8 (ucast (data ! i)) OR ucast (data ! Suc i)"

definition le16 :: "8 word list \<Rightarrow> nat \<Rightarrow> 16 word" where
  "le16 data i = ucast (data ! i) OR push_bit 8 (ucast (data ! Suc i))"

definition imu_events :: "module_params \<Rightarrow> int \<Rightarrow> int list \<Rightarrow> kevent list" where
  "imu_events mp counter imu =
     (if \<not> imu_evdev mp \<and> \<not> raw_only mp then []
      else [KMsc counter, KAbs 0 (imu ! 3), KAbs 1 (imu ! 4), KAbs 2 (imu ! 5),
            KAbs 3 (imu ! 0), KAbs 4 (imu ! 1), KAbs 5 (imu ! 2), KSyncImu])"

definition lgmagic_raw_event ::
  "module_params \<Rightarrow> drvdata \<Rightarrow> 8 word list \<Rightarrow> (kevent list \<times> drvdata) option" where
  "lgmagic_raw_event mp d data =
     (if \<not> input_hid d \<or> \<not> input_imu d then Some ([], d)
      else if length data \<noteq> 20 \<or> data ! 0 \<noteq> 0xFD then Some ([], d)
      else
        let btn = be16 data 17;
            wheel = sint (data ! 19);
            counter = uint (le16 data 1);
            imu = map (\<lambda>i. sint (be16 data (5 + 2 * i))) [0..<6];
            (bev, d1) = report_buttons mp d btn;
            wev = report_wheel mp d1 wheel
        in case report_airmouse mp d1 imu of
             None \<Rightarrow> None
           | Some (aev, moved, d2) \<Rightarrow>
               Some (bev @ wev @ aev @
                     (if bev \<noteq> [] \<or> wev \<noteq> [] \<or> moved then [KSyncHid] else []) @
                     imu_events mp counter imu, d2))"

section \<open>Firmware and probe\<close>

definition float_of_word :: "32 word \<Rightarrow> cdouble" where
  "float_of_word w =
     (let u = uint w; s = (u \<ge> 2 ^ 31); x = (u div 2 ^ 23) mod 256; f = u mod 2 ^ 23
      in if x = 255 then (if f = 0 then DInf s else DNaN)
         else if x = 0 then round_dyadic s f (- 149)
         else round_dyadic s (2 ^ 23 + f) (x - 150))"

definition le32 :: "8 word list \<Rightarrow> nat \<Rightarrow> 32 word" where
  "le32 data i =
     ucast (data ! i) OR push_bit 8 (ucast (data ! (i + 1))) OR push_bit 16 (ucast (data ! (i + 2))) OR
     push_bit 24 (ucast (data ! (i + 3)))"

definition blob_of_bytes :: "8 word list \<Rightarrow> calib_blob" where
  "blob_of_bytes data =
     \<lparr>bl_gyro_bias = map (\<lambda>i. float_of_word (le32 data (4 * i))) [0, 1, 2],
      bl_gyro_scale = map (\<lambda>i. float_of_word (le32 data (12 + 4 * i))) [0, 1, 2],
      bl_alpha = float_of_word (le32 data 24), bl_mouse_k = float_of_word (le32 data 28)\<rparr>"

definition zero_blob :: calib_blob where
  "zero_blob = \<lparr>bl_gyro_bias = [d0, d0, d0], bl_gyro_scale = [d0, d0, d0], bl_alpha = d0, bl_mouse_k = d0\<rparr>"

text \<open>
  \<open>fw name\<close> is the result of \<^verbatim>\<open>request_firmware\<close>: an error code or the bytes of the file.
\<close>

definition lgmagic_load_fw ::
  "(string \<Rightarrow> int + 8 word list) \<Rightarrow> string \<Rightarrow> drvdata \<Rightarrow> int \<times> drvdata" where
  "lgmagic_load_fw fw name d = (case fw name of
       Inl ret \<Rightarrow> (ret, d)
     | Inr bytes \<Rightarrow>
         if length bytes \<ge> 32 then
           (let b = blob_of_bytes bytes
            in if lgmagic_validate_calib b = 0 then (0, d\<lparr>dr_calib := b\<rparr>)
               else (0, d\<lparr>dr_calib := zero_blob\<rparr>))
         else (0, d))"

definition lgmagic_sanitize_mac :: "string \<Rightarrow> string" where
  "lgmagic_sanitize_mac uniq = map (\<lambda>c. if c = CHR '':'' then CHR ''_'' else c) (take 17 uniq)"

definition drvdata_zero :: drvdata where
  "drvdata_zero =
     \<lparr>input_hid = False, input_imu = False, last_keycode = 0, last_btncode = 0, gyro_acc = vzero,
      dr_mode = False, dr_calib = zero_blob\<rparr>"

definition probe_calib :: "(string \<Rightarrow> int + 8 word list) \<Rightarrow> string \<Rightarrow> drvdata \<Rightarrow> drvdata" where
  "probe_calib fw uniq d =
     (if length uniq = 17 then
        (case lgmagic_load_fw fw (''lgmagic_calib_'' @ lgmagic_sanitize_mac uniq @ ''.bin'') d of
           (rc, d1) \<Rightarrow> if rc = 0 then d1 else snd (lgmagic_load_fw fw ''lgmagic_calib.bin'' d1))
      else snd (lgmagic_load_fw fw ''lgmagic_calib.bin'' d))"

definition probe_keybits :: "module_params \<Rightarrow> int list" where
  "probe_keybits mp = map (\<lambda>(c, k). lgmagic_btn_keycode mp c k) lg_btn_map"

text \<open>
  The probe with what the HID and input cores return at each step: \<open>Inl\<close> the error code, or
  the driver data and the keys declared for the keyboard device.
\<close>

definition lgmagic_probe ::
  "(string \<Rightarrow> int + 8 word list) \<Rightarrow> module_params \<Rightarrow> string \<Rightarrow> int \<Rightarrow> int \<Rightarrow> int \<Rightarrow> int \<Rightarrow> int + (drvdata \<times> int list)" where
  "lgmagic_probe fw mp uniq parse_ret start_ret reg_hid reg_imu =
     (if parse_ret \<noteq> 0 then Inl parse_ret
      else if start_ret \<noteq> 0 then Inl start_ret
      else let d = probe_calib fw uniq drvdata_zero
           in if reg_hid \<noteq> 0 then Inl reg_hid
              else if (imu_evdev mp \<or> raw_only mp) \<and> reg_imu \<noteq> 0 then Inl reg_imu
              else Inr (d\<lparr>input_hid := True, input_imu := True\<rparr>, probe_keybits mp))"

end
