(* ===== verification/Kernel_Correct.thy ===== *)
theory Kernel_Correct
  imports Kernel_Driver
begin

text \<open>
  Properties of the driver: at most one key is down and it is the recorded one, the raw decoder
  agrees with the tools' keycode table, declared and reported codes match, and the two validators of
  the calibration blob accept the same blobs.
\<close>

section \<open>Keys down\<close>

fun kkeys :: "int set \<Rightarrow> kevent list \<Rightarrow> int set" where
  "kkeys S [] = S"
| "kkeys S (KKey c v # es) = kkeys (if v = 0 then S - {c} else insert c S) es"
| "kkeys S (e # es) = kkeys S es"

lemma kkeys_append: "kkeys S (xs @ ys) = kkeys (kkeys S xs) ys"
  by (induction S xs rule: kkeys.induct) auto

definition keys_inv :: "int set \<Rightarrow> drvdata \<Rightarrow> bool" where
  "keys_inv S d \<longleftrightarrow> S \<subseteq> {last_keycode d} \<and> (last_btncode d = 0 \<longrightarrow> S = {})"

lemma report_buttons_inv:
  assumes "keys_inv S d" and "report_buttons mp d btn = (es, d')"
  shows "keys_inv (kkeys S es) d' \<and> last_btncode d' = btn"
  using assms by (auto simp: report_buttons_def keys_inv_def Let_def split: if_splits option.splits)

lemma report_wheel_keys: "kkeys S (report_wheel mp d w) \<subseteq> S"
  by (auto simp: report_wheel_def Let_def)

lemma report_airmouse_keys:
  "report_airmouse mp d imu = Some (es, m, d') \<Longrightarrow>
   kkeys S es = S \<and> last_keycode d' = last_keycode d \<and> last_btncode d' = last_btncode d"
  by (auto simp: report_airmouse_def Let_def split: if_splits option.splits)

lemma keys_inv_subset: "keys_inv S d \<Longrightarrow> S' \<subseteq> S \<Longrightarrow> last_keycode d' = last_keycode d \<Longrightarrow>
    last_btncode d' = last_btncode d \<Longrightarrow> keys_inv S' d'"
  by (auto simp: keys_inv_def)

lemma imu_events_keys: "kkeys S (imu_events mp c imu) = S"
  by (simp add: imu_events_def)

definition ours :: "drvdata \<Rightarrow> 8 word list \<Rightarrow> bool" where
  "ours d data \<longleftrightarrow> input_hid d \<and> input_imu d \<and> length data = 20 \<and> data ! 0 = 0xFD"

lemma raw_event_parts:
  assumes "lgmagic_raw_event mp d data = Some (es, d')" and "ours d data"
  obtains bev d1 aev m imu counter tl_ev where "report_buttons mp d (be16 data 17) = (bev, d1)"
    "report_airmouse mp d1 imu = Some (aev, m, d')" "tl_ev \<in> {[], [KSyncHid]}"
    "es = bev @ report_wheel mp d1 (sint (data ! 19)) @ aev @ tl_ev @ imu_events mp counter imu"
    "imu = map (\<lambda>i. sint (be16 data (5 + 2 * i))) [0..<6]"
proof -
  define imu where "imu = map (\<lambda>i. sint (be16 data (5 + 2 * i))) [0..<6]"
  obtain bev d1 where b: "report_buttons mp d (be16 data 17) = (bev, d1)" by fastforce
  from assms obtain aev m where a: "report_airmouse mp d1 imu = Some (aev, m, d')"
    and es: "es = bev @ report_wheel mp d1 (sint (data ! 19)) @ aev @
       (if bev \<noteq> [] \<or> report_wheel mp d1 (sint (data ! 19)) \<noteq> [] \<or> m then [KSyncHid] else []) @
       imu_events mp (uint (le16 data 1)) imu"
    unfolding lgmagic_raw_event_def ours_def Let_def b prod.case imu_def [symmetric]
    by (auto split: option.splits)
  show thesis by (rule that [OF b a _ es imu_def]) simp
qed

lemma raw_event_inv:
  assumes "keys_inv S d" and "lgmagic_raw_event mp d data = Some (es, d')"
  shows "keys_inv (kkeys S es) d' \<and> (ours d data \<longrightarrow> last_btncode d' = be16 data 17)"
proof (cases "ours d data")
  case True
  from assms(2) True obtain bev d1 aev m imu counter tl_ev where
    b: "report_buttons mp d (be16 data 17) = (bev, d1)" and
    a: "report_airmouse mp d1 imu = Some (aev, m, d')" and t: "tl_ev \<in> {[], [KSyncHid]}" and
    es: "es = bev @ report_wheel mp d1 (sint (data ! 19)) @ aev @ tl_ev @ imu_events mp counter imu"
    by (rule raw_event_parts)
  note bi = report_buttons_inv [OF assms(1) b]
  have "kkeys S es \<subseteq> kkeys S bev"
    using t report_wheel_keys [of "kkeys S bev" mp d1 "sint (data ! 19)"] report_airmouse_keys [OF a]
    by (auto simp: es kkeys_append imu_events_keys)
  with bi report_airmouse_keys [OF a] show ?thesis by (auto elim: keys_inv_subset)
next
  case False
  with assms show ?thesis by (auto simp: lgmagic_raw_event_def ours_def split: if_splits)
qed

text \<open>The driver after a probe and any reports, with parameters that may change at any time.\<close>

inductive drv_reach :: "drvdata \<Rightarrow> int set \<Rightarrow> bool" where
  probe: "lgmagic_probe fw mp uniq r1 r2 r3 r4 = Inr (d, bits) \<Longrightarrow> drv_reach d {}"
| report: "drv_reach d S \<Longrightarrow> lgmagic_raw_event mp d data = Some (es, d') \<Longrightarrow> drv_reach d' (kkeys S es)"

lemma probe_calib_keeps:
  "last_keycode (probe_calib fw uniq d) = last_keycode d \<and> last_btncode (probe_calib fw uniq d) = last_btncode d"
  by (auto simp: probe_calib_def lgmagic_load_fw_def Let_def split: sum.splits prod.splits)

lemma drv_reach_inv: "drv_reach d S \<Longrightarrow> keys_inv S d"
proof (induction rule: drv_reach.induct)
  case (probe fw mp uniq r1 r2 r3 r4 d bits)
  then show ?case by (auto simp: keys_inv_def)
next
  case (report d S mp data es d')
  then show ?case using raw_event_inv by blast
qed

text \<open>
  C16: the keyboard never holds more than the key of the last button code: in every reachable
  state at most one key is down and it is \<open>last_keycode\<close>; a report without a button leaves no key down,
  whatever parameters changed in between.
\<close>

theorem raw_event_single_key:
  assumes "drv_reach d S" and "lgmagic_raw_event mp d data = Some (es, d')"
  shows "kkeys S es \<subseteq> {last_keycode d'} \<and>
    (ours d data \<and> be16 data 17 = 0 \<longrightarrow> kkeys S es = {})"
  using raw_event_inv [OF drv_reach_inv [OF assms(1)] assms(2)] by (auto simp: keys_inv_def)

definition sample_params :: module_params where
  "sample_params = \<lparr>raw_only = True, mp_airmouse = True, airmouse_threshold = 300, imu_evdev = False, key_0x8000 = 116\<rparr>"

definition sample_report :: "8 word list" where
  "sample_report = [0xFD, 1, 0, 0, 0, 0, 1, 0xFF, 0xFF, 0, 0, 0, 0, 0, 0, 0, 0, 0x80, 0x44, 0]"

definition sample_drv :: drvdata where
  "sample_drv = drvdata_zero\<lparr>input_hid := True, input_imu := True\<rparr>"

lemma sample_probe: "lgmagic_probe (\<lambda>_. Inl (- 2)) sample_params [] 0 0 0 0 = Inr (sample_drv, probe_keybits sample_params)"
  by (simp add: lgmagic_probe_def probe_calib_def lgmagic_load_fw_def sample_drv_def)

lemma sample_event:
  "\<exists>es d'. lgmagic_raw_event sample_params sample_drv sample_report = Some (es, d') \<and> kkeys {} es = {28} \<and>
     KKey 28 1 \<in> set es"
  by (simp add: lgmagic_raw_event_def sample_params_def sample_drv_def sample_report_def drvdata_zero_def
      report_buttons_def report_wheel_def report_airmouse_def be16_def le16_def lg_btn_map_def
      lgmagic_btn_keycode_def LGMAGIC_CODE_WHEEL_def LGMAGIC_CODE_MODELDEP_def imu_events_def Let_def
      push_bit_eq_mult)

theorem raw_event_single_key_witness:
  "\<exists>es d'. lgmagic_raw_event sample_params sample_drv sample_report = Some (es, d') \<and>
     kkeys {} es = {28} \<and> kkeys {} es \<subseteq> {last_keycode d'}"
  using sample_event raw_event_single_key [OF drv_reach.probe [OF sample_probe]] by blast

section \<open>The raw decoder and the tools\<close>

lemma map_of_shadowed: "k \<in> fst ` set xs \<Longrightarrow> map_of (xs @ (k, v) # ys) = map_of (xs @ ys)"
  by (rule ext) (auto simp: map_add_def map_of_eq_None_iff split: option.split dest: map_of_SomeD intro: rev_image_eqI)

lemma lg_btn_map_default: "map_of lg_btn_map = map_of default_map"
proof -
  have s: "lg_btn_map = take 13 default_map @ (0x8044, 0x110) # drop 13 default_map"
    by (simp add: lg_btn_map_def default_map_def)
  have "(0x8044::int) \<in> fst ` set (take 13 default_map)" by (simp add: default_map_def)
  then have "map_of lg_btn_map = map_of (take 13 default_map @ drop 13 default_map)"
    unfolding s by (rule map_of_shadowed)
  then show ?thesis by (simp only: append_take_drop_id)
qed

lemma find_map_of: "find (\<lambda>(c, k). c = x) t = map_option (Pair x) (map_of t x)"
  by (induction t) auto

text \<open>
  C33: in raw mode with the standard model-dependent key the driver presses exactly the keycode
  the tools' table \<open>keymap_default_keycode\<close> lists for the button, and nothing for a button the table does not have.
\<close>

theorem raw_decoder_matches_keymap:
  assumes "raw_only mp" and "key_0x8000 mp = 116" and "btn \<noteq> 0" and "btn \<noteq> last_btncode d"
  shows "fst (report_buttons mp d btn) = KKey (last_keycode d) 0 #
    (if keymap_default_keycode (uint btn) < 0 then [] else [KKey (keymap_default_keycode (uint btn)) 1])"
proof -
  have k: "keymap_default_keycode x = (case map_of lg_btn_map x of Some k \<Rightarrow> k | None \<Rightarrow> - 1)" for x
    by (simp add: keymap_default_keycode_def find_map_of lg_btn_map_default split: option.split)
  have pos: "map_of lg_btn_map x = Some y \<Longrightarrow> 0 \<le> y \<and> (x = 0x8000 \<longrightarrow> y = 116)" for x y
    unfolding lg_btn_map_default by (auto simp: default_map_def split: if_splits)
  show ?thesis
    using assms pos [of "uint btn"]
    by (auto simp: report_buttons_def k lgmagic_btn_keycode_def LGMAGIC_CODE_MODELDEP_def KEY_MAX_def
        Let_def split: option.split)
qed

theorem raw_decoder_matches_keymap_witness:
  "fst (report_buttons sample_params sample_drv 0x8002) = [KKey 0 0, KKey 115 1]"
proof -
  have "keymap_default_keycode (uint (0x8002 :: 16 word)) = 115"
    by (simp add: keymap_default_keycode_def default_map_def)
  with raw_decoder_matches_keymap [of sample_params "0x8002" sample_drv] show ?thesis
    by (simp add: sample_params_def sample_drv_def drvdata_zero_def)
qed

text \<open>
  Every key the driver presses was declared in the probe, when the parameters are those of the probe.
\<close>

lemma pressed_keys_declared:
  assumes "lgmagic_raw_event mp d data = Some (es, d')" and "KKey c v \<in> set es" and "v \<noteq> 0"
  shows "c \<in> set (probe_keybits mp)"
proof -
  have "ours d data" using assms by (auto simp: lgmagic_raw_event_def ours_def split: if_splits)
  with assms(1) obtain bev d1 aev m imu counter tl_ev where
    b: "report_buttons mp d (be16 data 17) = (bev, d1)" and
    a: "report_airmouse mp d1 imu = Some (aev, m, d')" and t: "tl_ev \<in> {[], [KSyncHid]}" and
    es: "es = bev @ report_wheel mp d1 (sint (data ! 19)) @ aev @ tl_ev @ imu_events mp counter imu"
    by (rule raw_event_parts)
  have fixed: "BTN_LEFT \<in> set (probe_keybits mp)" "KEY_UP \<in> set (probe_keybits mp)" "KEY_DOWN \<in> set (probe_keybits mp)"
    by (simp_all add: probe_keybits_def lg_btn_map_def lgmagic_btn_keycode_def LGMAGIC_CODE_MODELDEP_def
        BTN_LEFT_def KEY_UP_def KEY_DOWN_def)
  have mapped: "lgmagic_btn_keycode mp x k \<in> set (probe_keybits mp)" if "map_of lg_btn_map x = Some k" for x k
    using map_of_SomeD [OF that] by (force simp: probe_keybits_def)
  have "KKey c v \<in> set bev \<or> KKey c v \<in> set (report_wheel mp d1 (sint (data ! 19)))"
    using assms(2) a t unfolding es
    by (auto simp: imu_events_def report_airmouse_def Let_def split: if_splits option.splits)
  then show ?thesis
  proof
    assume "KKey c v \<in> set bev"
    with b assms(3) fixed mapped show ?thesis
      by (auto simp: report_buttons_def Let_def split: if_splits option.splits)
  next
    assume "KKey c v \<in> set (report_wheel mp d1 (sint (data ! 19)))"
    with assms(3) fixed show ?thesis by (auto simp: report_wheel_def Let_def split: if_splits)
  qed
qed

text \<open>
  Raw mode reports no pointer movement, and the axes of the IMU device stay within the
  range declared for them.
\<close>

theorem raw_mode_imu_only:
  assumes "lgmagic_raw_event mp d data = Some (es, d')" and "raw_only mp"
  shows "(\<forall>c v. KRel c v \<in> set es \<longrightarrow> c = REL_WHEEL) \<and>
    (\<forall>axis v. KAbs axis v \<in> set es \<longrightarrow> - 32768 \<le> v \<and> v \<le> 32767)"
proof (cases "ours d data")
  case True
  with assms(1) obtain bev d1 aev m imu counter tl_ev where
    b: "report_buttons mp d (be16 data 17) = (bev, d1)" and
    a: "report_airmouse mp d1 imu = Some (aev, m, d')" and t: "tl_ev \<in> {[], [KSyncHid]}" and
    es: "es = bev @ report_wheel mp d1 (sint (data ! 19)) @ aev @ tl_ev @ imu_events mp counter imu" and
    imu: "imu = map (\<lambda>i. sint (be16 data (5 + 2 * i))) [0..<6]"
    by (rule raw_event_parts)
  have r: "- 32768 \<le> sint w \<and> sint w \<le> 32767" for w :: "16 word"
    using sint_greater_eq [of w] sint_less [of w] by simp
  have bev: "KRel c v \<notin> set bev \<and> KAbs c v \<notin> set bev" for c v
    using b by (auto simp: report_buttons_def Let_def split: if_splits option.splits)
  have aev: "aev = []" using a assms(2) by (auto simp: report_airmouse_def)
  have "\<forall>i < 6. - 32768 \<le> imu ! i \<and> imu ! i \<le> 32767" using r by (simp add: imu)
  then show ?thesis
    using t bev assms(2) unfolding es aev
    by (auto simp: report_wheel_def imu_events_def Let_def)
next
  case False
  with assms show ?thesis by (auto simp: lgmagic_raw_event_def ours_def split: if_splits)
qed

theorem raw_mode_imu_only_witness:
  "\<exists>es d'. lgmagic_raw_event sample_params sample_drv sample_report = Some (es, d') \<and>
     (\<forall>axis v. KAbs axis v \<in> set es \<longrightarrow> - 32768 \<le> v \<and> v \<le> 32767)"
proof -
  obtain es d' where r: "lgmagic_raw_event sample_params sample_drv sample_report = Some (es, d')"
    using sample_event by blast
  from raw_mode_imu_only [OF r] r show ?thesis by (auto simp: sample_params_def)
qed

section \<open>Calibration blobs\<close>

fun pos_mantissa :: "cdouble \<Rightarrow> bool" where
  "pos_mantissa (DFin s m e) = (0 \<le> m)"
| "pos_mantissa _ = True"

lemma round_ratio_pos: "0 \<le> n \<Longrightarrow> 0 < d \<Longrightarrow> pos_mantissa (round_ratio s n d)"
proof -
  assume n: "0 \<le> n" and d: "0 < d"
  define e where "e = max (- 1074) (ilog2 n d - 52)"
  define q where "q = (if e \<ge> 0 then n else n * 2 ^ nat (- e)) div (if e \<ge> 0 then d * 2 ^ nat e else d)"
  have "0 \<le> q" unfolding q_def using n d by (intro pos_imp_zdiv_nonneg_iff [THEN iffD2]) simp_all
  then show ?thesis
    unfolding round_ratio_def Let_def e_def [symmetric] q_def [symmetric] by simp
qed

lemma float_of_word_pos: "pos_mantissa (float_of_word w)"
proof -
  have "pos_mantissa (round_dyadic s n e)" if "0 \<le> n" for s n e
    using that by (auto simp: round_dyadic_def intro!: round_ratio_pos)
  then show ?thesis by (auto simp: float_of_word_def Let_def)
qed

text \<open>The driver's own absolute value keeps \<open>-0\<close> but no comparison can tell.\<close>

lemma fabs_gt:
  assumes "pos_mantissa x"
  shows "dgt (lgmagic_fabs x) t \<longleftrightarrow> dgt (dabs x) t"
proof (cases x)
  case (DFin s m e)
  have lt: "dlt x d0 \<longleftrightarrow> s \<and> 0 < m"
    using assms by (auto simp: DFin align_pos smant_def)
  have "dlt t (DFin True 0 e) = dlt t (DFin False 0 e)" by (cases t) (simp_all add: smant_def)
  then show ?thesis using assms unfolding lgmagic_fabs_def lt by (cases "m = 0"; cases s) (simp_all add: DFin)
qed (simp_all add: lgmagic_fabs_def)

text \<open>
  The tools and the kernel accept the same calibration blobs.
\<close>

lemma blob_validators_agree:
  "calib_validate_blob (blob_of_bytes data) = 0 \<longleftrightarrow> lgmagic_validate_calib (blob_of_bytes data) = 0"
proof -
  note f = fabs_gt [OF float_of_word_pos]
  show ?thesis
    unfolding calib_validate_blob_def lgmagic_validate_calib_def Let_def blob_of_bytes_def
    by (simp add: f)
qed

text \<open>
  The calibration the driver runs with passes its own range checks, or is all zero, whatever firmware was offered.
\<close>

lemma probe_calib_valid:
  assumes "lgmagic_probe fw mp uniq r1 r2 r3 r4 = Inr (d, bits)"
  shows "lgmagic_validate_calib (dr_calib d) = 0"
proof -
  have z: "lgmagic_validate_calib zero_blob = 0" by code_simp
  have load: "lgmagic_validate_calib (dr_calib (snd (lgmagic_load_fw fw n e))) = 0"
    if "lgmagic_validate_calib (dr_calib e) = 0" for n e
    using that z by (auto simp: lgmagic_load_fw_def Let_def split: sum.split)
  have "lgmagic_validate_calib (dr_calib (probe_calib fw uniq drvdata_zero)) = 0"
  proof -
    obtain rc d1 where l: "lgmagic_load_fw fw (''lgmagic_calib_'' @ lgmagic_sanitize_mac uniq @ ''.bin'') drvdata_zero = (rc, d1)"
      by fastforce
    have 0: "lgmagic_validate_calib (dr_calib drvdata_zero) = 0" using z by (simp add: drvdata_zero_def)
    then have "lgmagic_validate_calib (dr_calib d1) = 0" using load [OF 0] l by (metis snd_conv)
    then show ?thesis using load [of d1] load [OF 0] unfolding probe_calib_def l prod.case by auto
  qed
  then show ?thesis using assms by (auto simp: lgmagic_probe_def Let_def split: if_splits)
qed

text \<open>
  A firmware file that is too short counts as loaded: for a remote with an address of 17
  characters the generic calibration is then never tried and the airmouse runs on the zero blob.
\<close>

lemma short_firmware_blocks_fallback:
  assumes "length uniq = 17" and "fw (''lgmagic_calib_'' @ lgmagic_sanitize_mac uniq @ ''.bin'') = Inr bytes"
    and "length bytes < 32" and "fw ''lgmagic_calib.bin'' = Inr good"
  shows "dr_calib (probe_calib fw uniq drvdata_zero) = zero_blob"
  using assms by (simp add: probe_calib_def lgmagic_load_fw_def drvdata_zero_def)

end
