(* ===== verification/Daemon_Config.thy ===== *)
theory Daemon_Config
  imports Profiles_Correct Config
begin

text \<open>
  \<^verbatim>\<open>tools/src/daemon_config.c\<close>: where the daemon keeps its files, how the configuration of one
  remote is resolved (\<^verbatim>\<open>devices.d/<identity>.toml\<close>, then the profile override of \<^verbatim>\<open>state.toml\<close>)
  and how it is written back.

  The file system is a map from paths to contents (\<open>files\<close>); directories are only created,
  never read, so \<^verbatim>\<open>mkdir\<close> is an outcome per path. A write is a sequence of system calls, each a
  step of a trace of file systems: the trace is what a crash can leave behind. \<open>io_fault\<close> says
  which call of the sequence fails, with the text of \<^verbatim>\<open>strerror\<close>. Allocation does not fail.
\<close>

type_synonym files = "string \<Rightarrow> string option"

record daemon_config =
  dg_global :: config
  config_root :: string
  state_dir :: string

definition daemon_config_init :: "files \<Rightarrow> string \<Rightarrow> string \<Rightarrow> daemon_config" where
  "daemon_config_init fs croot sdir =
     \<lparr>dg_global = config_load_daemon fs croot, config_root = path_buf croot, state_dir = path_buf sdir\<rparr>"

section \<open>Paths\<close>

definition path_join :: "nat \<Rightarrow> string \<Rightarrow> string \<Rightarrow> string option" where
  "path_join outsz a b = (if length a + length b + 1 > outsz then None else Some (a @ b))"

definition device_path :: "daemon_config \<Rightarrow> string \<Rightarrow> string option" where
  "device_path dc identity =
     Option.bind (path_join 4096 (config_root dc) ''/devices.d/'') (\<lambda>p.
     Option.bind (path_join 4096 p identity) (\<lambda>p. path_join 4096 p ''.toml''))"

definition state_path :: "daemon_config \<Rightarrow> string option" where
  "state_path dc = path_join 4096 (state_dir dc) ''/state.toml''"

definition daemon_config_calib_path :: "daemon_config \<Rightarrow> device_config \<Rightarrow> string \<Rightarrow> nat \<Rightarrow> string" where
  "daemon_config_calib_path dc d identity outsz =
     (let r = (case dc_calib d of
            Some c \<Rightarrow> path_join outsz c []
          | None \<Rightarrow>
              Option.bind (path_join outsz (state_dir dc) ''/'') (\<lambda>p.
              Option.bind (path_join outsz p identity) (\<lambda>p. path_join outsz p ''/calibration.json'')))
      in case r of Some p \<Rightarrow> p | None \<Rightarrow> [])"

section \<open>Loading\<close>

definition toml_load_file :: "files \<Rightarrow> string \<Rightarrow> toml_value option" where
  "toml_load_file fs path = (case fs path of
       None \<Rightarrow> None
     | Some doc \<Rightarrow> (case toml_parse doc of Inl e \<Rightarrow> None | Inr t \<Rightarrow> Some t))"

text \<open>The override in the tree of \<^verbatim>\<open>state.toml\<close>; the identity is never split at dots.\<close>

definition state_profile_of :: "toml_value option \<Rightarrow> string \<Rightarrow> string option" where
  "state_profile_of root identity =
     (let devs = toml_table_get_short root ''devices'';
          dev = (case devs of Some (TTable ds) \<Rightarrow> toml_table_get_short devs identity | _ \<Rightarrow> None)
      in if dev = None then None else toml_table_get_str dev ''profile'' None)"

definition daemon_config_load_remote ::
  "daemon_config \<Rightarrow> files \<Rightarrow> string \<Rightarrow> string option \<times> device_config" where
  "daemon_config_load_remote dc fs identity = (case device_path dc identity of
       None \<Rightarrow> (Some ''device config path too long'', device_config_init)
     | Some path \<Rightarrow>
         (case device_config_load_file path (fs path) device_config_init of
            (rc, e, d) \<Rightarrow>
              if rc < 0 then (e, d)
              else case state_path dc of
                     None \<Rightarrow> (Some ''state path too long'', d)
                   | Some sp \<Rightarrow>
                       (case state_profile_of (toml_load_file fs sp) identity of
                          Some p \<Rightarrow> (None, d\<lparr>dc_profile := p\<rparr>)
                        | None \<Rightarrow> (None, d))))"

section \<open>Writing\<close>

datatype io_fault =
    NoFault
  | UnlinkFails string
  | OpenFails string
  | WriteFails nat string
  | CloseFails string
  | RenameFails string

record io_env =
  env_mkdir :: "string \<Rightarrow> string option"
  env_fault :: io_fault

text \<open>\<^verbatim>\<open>mkdir_p\<close> creates every proper prefix that ends before a slash, then the directory (which is not empty).\<close>

definition mkdir_prefixes :: "string \<Rightarrow> string list" where
  "mkdir_prefixes dir =
     (let t0 = path_buf dir;
          t = (if t0 \<noteq> [] \<and> last t0 = CHR ''/'' then butlast t0 else t0)
      in map (\<lambda>i. take i t) (filter (\<lambda>i. t ! i = CHR ''/'') [1..<length t]) @ [t])"

definition mkdir_p :: "io_env \<Rightarrow> string \<Rightarrow> string option" where
  "mkdir_p env dir = (case find (\<lambda>p. env_mkdir env p \<noteq> None) (mkdir_prefixes dir) of
       None \<Rightarrow> None
     | Some p \<Rightarrow> Some (''cannot create '' @ p @ '': '' @ the (env_mkdir env p)))"

text \<open>
  The states of the file system during \<^verbatim>\<open>atomic_write_file\<close>, the last one being what it leaves:
  a stale temporary file is removed, a new one is created empty and filled, then renamed. After
  a failed step the temporary file is unlinked.
\<close>

definition fill_states :: "files \<Rightarrow> string \<Rightarrow> string \<Rightarrow> nat \<Rightarrow> files list" where
  "fill_states fs tmp doc n = map (\<lambda>k. fs(tmp \<mapsto> take k doc)) [0..<Suc n]"

definition atomic_write_file ::
  "io_fault \<Rightarrow> string \<Rightarrow> string \<Rightarrow> files \<Rightarrow> string option \<times> files list" where
  "atomic_write_file fault path doc fs = (case path_join 4096 path ''.tmp'' of
       None \<Rightarrow> (Some ''state file path too long'', [fs])
     | Some tmp \<Rightarrow>
         let stale = (fs tmp \<noteq> None);
             base = fs(tmp := None);
             pre = (if stale then [fs, base] else [fs]);
             full = fill_states base tmp doc (length doc)
         in case fault of
              UnlinkFails m \<Rightarrow>
                if stale then (Some (''cannot open '' @ tmp @ '': '' @ m), [fs])
                else (None, pre @ full @ [base(path \<mapsto> doc)])
            | OpenFails m \<Rightarrow> (Some (''cannot open '' @ tmp @ '': '' @ m), pre)
            | WriteFails n m \<Rightarrow>
                (Some (''write error on '' @ tmp @ '': '' @ m),
                 pre @ fill_states base tmp doc (min n (length doc)) @ [base])
            | CloseFails m \<Rightarrow> (Some (''close error on '' @ tmp @ '': '' @ m), pre @ full @ [base])
            | RenameFails m \<Rightarrow>
                (Some (''cannot rename '' @ tmp @ '' to '' @ path @ '': '' @ m), pre @ full @ [base])
            | NoFault \<Rightarrow> (None, pre @ full @ [base(path \<mapsto> doc)]))"

text \<open>\<^verbatim>\<open>table_set_str\<close> on the members of a table.\<close>

definition table_set_str :: "(string \<times> toml_value) list \<Rightarrow> string \<Rightarrow> string \<Rightarrow> (string \<times> toml_value) list" where
  "table_set_str kvs key val = put_assoc key (toml_new_str (Some val)) kvs"

text \<open>
  The member \<open>key\<close> as a table, created empty when it is missing; adding over a member that is
  not a table fails.
\<close>

definition get_or_add_table ::
  "(string \<times> toml_value) list \<Rightarrow> string \<Rightarrow> ((string \<times> toml_value) list \<times> (string \<times> toml_value) list) option" where
  "get_or_add_table kvs key = (case toml_table_get_short (Some (TTable kvs)) key of
       Some (TTable sub) \<Rightarrow> Some (kvs, sub)
     | _ \<Rightarrow> (case toml_table_add (Some (TTable kvs)) key (TTable []) of
               (rc, Some (TTable kvs')) \<Rightarrow> if rc < 0 then None else Some (kvs', [])
             | _ \<Rightarrow> None))"

definition state_update ::
  "toml_value option \<Rightarrow> string \<Rightarrow> string \<Rightarrow> (string \<times> toml_value) list option" where
  "state_update loaded identity profile =
     (let kvs = (case loaded of Some (TTable kvs) \<Rightarrow> kvs | _ \<Rightarrow> [(''version'', TInt 2)])
      in case get_or_add_table kvs ''devices'' of
           None \<Rightarrow> None
         | Some (kvs1, devs) \<Rightarrow>
             (case get_or_add_table devs identity of
                None \<Rightarrow> None
              | Some (devs1, dev) \<Rightarrow>
                  Some (put_assoc ''devices''
                    (TTable (put_assoc identity (TTable (table_set_str dev ''profile'' profile)) devs1)) kvs1)))"

definition write_in_dir ::
  "io_env \<Rightarrow> string \<Rightarrow> string \<Rightarrow> string \<Rightarrow> files \<Rightarrow> string option \<times> files list" where
  "write_in_dir env dir path doc fs = (case mkdir_p env dir of
       Some e \<Rightarrow> (Some e, [fs])
     | None \<Rightarrow> atomic_write_file (env_fault env) path doc fs)"

definition daemon_config_save_profile ::
  "io_env \<Rightarrow> daemon_config \<Rightarrow> string \<Rightarrow> string \<Rightarrow> files \<Rightarrow> string option \<times> files list" where
  "daemon_config_save_profile env dc identity profile fs = (case state_path dc of
       None \<Rightarrow> (Some ''state path too long'', [fs])
     | Some path \<Rightarrow>
         (case state_update (toml_load_file fs path) identity profile of
            None \<Rightarrow> (Some ''out of memory'', [fs])
          | Some kvs \<Rightarrow>
              (case toml_dumps (Some (TTable kvs)) of
                 None \<Rightarrow> (Some ''out of memory'', [fs])
               | Some doc \<Rightarrow> write_in_dir env (state_dir dc) path doc fs)))"

definition daemon_config_save_device ::
  "io_env \<Rightarrow> daemon_config \<Rightarrow> device_config \<Rightarrow> string \<Rightarrow> files \<Rightarrow> string option \<times> files list" where
  "daemon_config_save_device env dc d identity fs = (case device_path dc identity of
       None \<Rightarrow> (Some ''device config path too long'', [fs])
     | Some path \<Rightarrow>
         (case toml_dumps (device_config_to_toml d) of
            None \<Rightarrow> (Some ''out of memory'', [fs])
          | Some doc \<Rightarrow>
              (case path_join 4096 (config_root dc) ''/devices.d'' of
                 None \<Rightarrow> (Some ''device config path too long'', [fs])
               | Some dir \<Rightarrow> write_in_dir env dir path doc fs)))"

end
