(* ===== verification/Daemon_Devices.thy ===== *)
theory Daemon_Devices
  imports Daemon_Config Pipeline
begin

text \<open>
  \<^verbatim>\<open>tools/src/daemon_devices.c\<close>: the remotes the daemon has taken over, their discovery (rescan), the
  poll set and the dispatch of ready descriptors, and the reload of the configuration.

  What the operating system answers is the record \<open>dev_env\<close>: directory entries, nodes as the scan probes them
  and as they are opened afterwards (a node may vanish in between), created virtual devices, sysfs, the files and the clock. Every operation on a descriptor is an entry of the trace it
  yields (\<open>dev_op\<close>), so that which descriptors are opened, grabbed and closed, and in which order, can be
  stated. Log lines are left out.
\<close>

section \<open>State\<close>

record daemon_remote =
  rm_identity :: string
  rm_kbd_path :: string
  rm_imu_path :: string
  rm_kbd :: evdev_imu
  rm_imu :: evdev_imu
  kbd_uinput :: int
  mouse_uinput :: int
  rm_dc :: device_config
  rm_pl :: pipeline

record daemon_devices =
  dd_remotes :: "daemon_remote list"
  dd_config :: daemon_config
  kbd_override :: "string option"
  no_uinput :: bool
  inotify_fd :: int
  inotify_wd :: int
  have_rescan :: bool
  rescan_due_ms :: int
  last_rescan_ms :: int

datatype dev_op =
    OpOpen int          \<comment> \<open>an event node was opened\<close>
  | OpGrab int          \<comment> \<open>EVIOCGRAB\<close>
  | OpClose int
  | OpUiCreate int      \<comment> \<open>a virtual device was created\<close>
  | OpUiClose int       \<comment> \<open>UI\_DEV\_DESTROY and close\<close>
  | OpOut out_event

record dev_env =
  de_dirs :: "string + string list"
  de_nodes :: input_nodes
  de_open :: input_nodes
  de_links :: "string \<Rightarrow> string option"
  de_sysfs :: "string \<Rightarrow> string option"
  de_uinput :: "string \<Rightarrow> string + int"
  de_watch :: int
  de_files :: files
  de_calib :: "string \<Rightarrow> string + string"
  de_now :: int

definition RESCAN_INTERVAL_MS :: int where "RESCAN_INTERVAL_MS = 2000"
definition RESCAN_DEBOUNCE_MS :: int where "RESCAN_DEBOUNCE_MS = 200"

section \<open>Scan\<close>

definition scan_add :: "dev_env \<Rightarrow> pairing_input_dev list \<Rightarrow> string \<Rightarrow> pairing_input_dev list" where
  "scan_add env entries path = (case evdev_probe (de_nodes env) path of
       None \<Rightarrow> entries
     | Some (name, vendor, product) \<Rightarrow>
         entries @ [\<lparr>pd_path = Some (buf_str 256 path), pd_name = Some name,
           pd_uniq = Some (snd (evdev_read_uniq (de_links env) (de_sysfs env) path 64)),
           pd_vendor = vendor, pd_product = product\<rparr>])"

definition scan_inputs :: "dev_env \<Rightarrow> string option \<Rightarrow> pairing_input_dev list option" where
  "scan_inputs env override = (case de_dirs env of
       Inl e \<Rightarrow> (if override \<noteq> None then Some [] else None)
     | Inr names \<Rightarrow>
         (let entries = foldl (\<lambda>es n. if is_event_node n then scan_add env es (''/dev/input/'' @ n) else es) [] names
          in case override of
               None \<Rightarrow> Some entries
             | Some p \<Rightarrow>
                 if list_ex (\<lambda>e. pd_path e = Some p) entries then Some entries
                 else Some (scan_add env entries p)))"

definition daemon_identity_valid :: "string option \<Rightarrow> bool" where
  "daemon_identity_valid s = (case s of
       None \<Rightarrow> False
     | Some t \<Rightarrow>
         t = ''unknown'' \<or>
         (length t = 17 \<and>
          list_all (\<lambda>i. if i mod 3 = 2 then t ! i = CHR '':'' else isxdigit (t ! i)) [0..<17]))"

section \<open>Opening and closing a remote\<close>

definition evdev_zero :: evdev_imu where
  "evdev_zero = \<lparr>ev_fd = - 1, ev_name = [], ev_path = [], last_counter = 0, have_frame = False,
     ev_accel = (0, 0, 0), ev_gyro = (0, 0, 0), ev_vendor = 0, ev_product = 0\<rparr>"

definition close_ops :: "evdev_imu \<Rightarrow> dev_op list" where
  "close_ops dev = (if ev_fd dev \<ge> 0 then [OpClose (ev_fd dev)] else [])"

definition uinput_close :: "int \<Rightarrow> dev_op list" where
  "uinput_close fd = (if fd < 0 then [] else [OpUiClose fd])"

text \<open>\<^verbatim>\<open>remote_free\<close> resets the two event descriptors but leaves the numbers of the virtual devices in place.\<close>

definition remote_free :: "daemon_remote \<Rightarrow> daemon_remote \<times> dev_op list" where
  "remote_free r =
     (r\<lparr>rm_kbd := evdev_close (rm_kbd r), rm_imu := evdev_close (rm_imu r)\<rparr>,
      close_ops (rm_kbd r) @ close_ops (rm_imu r) @ uinput_close (kbd_uinput r) @ uinput_close (mouse_uinput r))"

definition remote_uinput_open :: "dev_env \<Rightarrow> bool \<Rightarrow> daemon_remote \<Rightarrow> bool \<times> daemon_remote \<times> dev_op list" where
  "remote_uinput_open env no_ui r =
     (if no_ui then (True, r, [])
      else case de_uinput env (''lgmagicd keyboard '' @ rm_identity r) of
             Inl e \<Rightarrow> (False, r\<lparr>kbd_uinput := - 1\<rparr>, [])
           | Inr k \<Rightarrow>
               (case de_uinput env (''lgmagicd mouse '' @ rm_identity r) of
                  Inl e \<Rightarrow> (False, r\<lparr>kbd_uinput := - 1, mouse_uinput := - 1\<rparr>, OpUiCreate k # uinput_close k)
                | Inr m \<Rightarrow> (True, r\<lparr>kbd_uinput := k, mouse_uinput := m\<rparr>, [OpUiCreate k, OpUiCreate m])))"

definition remote_zero :: "string \<Rightarrow> string \<Rightarrow> string \<Rightarrow> daemon_remote" where
  "remote_zero identity kbd_path imu_path =
     \<lparr>rm_identity = buf_str 64 identity, rm_kbd_path = buf_str 256 kbd_path, rm_imu_path = buf_str 256 imu_path,
      rm_kbd = evdev_zero, rm_imu = evdev_zero, kbd_uinput = - 1, mouse_uinput = - 1,
      rm_dc = device_config_init, rm_pl = pipeline_init\<rparr>"

text \<open>The last part of \<^verbatim>\<open>remote_open\<close>: resolve the configuration and set up the pipeline.\<close>

definition remote_setup :: "dev_env \<Rightarrow> daemon_config \<Rightarrow> string \<Rightarrow> daemon_remote \<Rightarrow> daemon_remote \<times> dev_op list" where
  "remote_setup env dcf identity r =
     (let d = snd (daemon_config_load_remote dcf (de_files env) identity);
          path = daemon_config_calib_path dcf d identity 4096
      in case pipeline_configure (de_calib env) (rm_pl r) d (Some path) (dg_global dcf) (kbd_uinput r \<ge> 0) of
           (e, out, pl) \<Rightarrow> (r\<lparr>rm_dc := d, rm_pl := pl\<rparr>, map OpOut out))"

definition remote_open_imu :: "dev_env \<Rightarrow> string \<Rightarrow> daemon_remote \<Rightarrow> daemon_remote \<times> dev_op list" where
  "remote_open_imu env imu_path r =
     (if imu_path = [] then (r, [])
      else case evdev_find_imu (de_open env) (de_dirs env) (Some imu_path) (rm_imu r) of
             (Some e, i) \<Rightarrow> (r\<lparr>rm_imu := i\<lparr>ev_fd := - 1\<rparr>, rm_imu_path := []\<rparr>, [])
           | (None, i) \<Rightarrow> (r\<lparr>rm_imu := i\<rparr>, [OpOpen (ev_fd i)]))"

definition remote_open ::
  "dev_env \<Rightarrow> daemon_devices \<Rightarrow> string \<Rightarrow> string \<Rightarrow> string \<Rightarrow> bool \<times> daemon_remote \<times> dev_op list" where
  "remote_open env dd identity kbd_path imu_path =
     (case remote_uinput_open env (no_uinput dd) (remote_zero identity kbd_path imu_path) of
        (False, r, ops) \<Rightarrow> (case remote_free r of (r', fops) \<Rightarrow> (False, r', ops @ fops))
      | (True, r, ops) \<Rightarrow>
          (case evdev_find_keyboard (de_open env) (de_dirs env) (Some kbd_path) (rm_kbd r) of
             (Some e, k) \<Rightarrow> (case remote_free (r\<lparr>rm_kbd := k\<rparr>) of (r', fops) \<Rightarrow> (False, r', ops @ fops))
           | (None, k) \<Rightarrow>
               let r1 = r\<lparr>rm_kbd := k\<rparr>;
                   ops1 = ops @ [OpOpen (ev_fd k), OpGrab (ev_fd k)];
                   (r2, ops2) = remote_open_imu env imu_path r1;
                   (r3, ops3) = remote_setup env (dd_config dd) identity r2
               in (True, r3, ops1 @ ops2 @ ops3)))"

section \<open>Rescan\<close>

text \<open>A stolen slot is zeroed; its empty identity marks it.\<close>

definition stolen_slot :: "daemon_remote \<Rightarrow> daemon_remote" where
  "stolen_slot e = e\<lparr>rm_identity := [], rm_kbd_path := [], rm_imu_path := [], rm_kbd := evdev_zero,
     rm_imu := evdev_zero, kbd_uinput := - 1, mouse_uinput := - 1\<rparr>"

definition same_remote :: "string \<Rightarrow> string \<Rightarrow> string \<Rightarrow> daemon_remote \<Rightarrow> bool" where
  "same_remote identity kbd_path imu_path e \<longleftrightarrow>
     rm_identity e = identity \<and> rm_kbd_path e = kbd_path \<and> rm_imu_path e = imu_path"

fun steal :: "(daemon_remote \<Rightarrow> bool) \<Rightarrow> daemon_remote list \<Rightarrow> (daemon_remote \<times> daemon_remote list) option" where
  "steal P [] = None"
| "steal P (e # es) =
     (if P e then Some (e, stolen_slot e # es)
      else case steal P es of None \<Rightarrow> None | Some (r, es') \<Rightarrow> Some (r, e # es'))"

definition remote_identity :: "string \<Rightarrow> string" where
  "remote_identity uniq = buf_str 64 (if daemon_identity_valid (Some uniq) then uniq else ''unknown'')"

definition path_of :: "pairing_input_dev list \<Rightarrow> nat \<Rightarrow> string" where
  "path_of devs i = (case pd_path (devs ! i) of Some p \<Rightarrow> p | None \<Rightarrow> [])"

fun rebuild ::
  "dev_env \<Rightarrow> daemon_devices \<Rightarrow> pairing_input_dev list \<Rightarrow> paired_remote list \<Rightarrow> daemon_remote list \<Rightarrow>
   daemon_remote list \<times> daemon_remote list \<times> dev_op list" where
  "rebuild env dd devs [] old = ([], old, [])"
| "rebuild env dd devs (pr # prs) old =
     (let kbd_path = path_of devs (pm_keyboard pr);
          imu_path = (case pm_imu pr of Some i \<Rightarrow> path_of devs i | None \<Rightarrow> []);
          identity = remote_identity (pm_uniq pr)
      in if kbd_override dd \<noteq> None \<and> kbd_override dd \<noteq> Some kbd_path then rebuild env dd devs prs old
         else case steal (same_remote identity kbd_path imu_path) old of
                Some (r, old') \<Rightarrow>
                  (case rebuild env dd devs prs old' of (new, rest, ops) \<Rightarrow> (r # new, rest, ops))
              | None \<Rightarrow>
                  (case remote_open env dd identity kbd_path imu_path of
                     (True, r, ops) \<Rightarrow>
                       (case rebuild env dd devs prs old of (new, rest, ops') \<Rightarrow> (r # new, rest, ops @ ops'))
                   | (False, r, ops) \<Rightarrow>
                       (case rebuild env dd devs prs old of
                          (new, rest, ops') \<Rightarrow> (new, rest, ops @ snd (remote_free r) @ ops'))))"

definition free_all :: "daemon_remote list \<Rightarrow> dev_op list" where
  "free_all rs = concat (map (\<lambda>e. if rm_identity e \<noteq> [] then snd (remote_free e) else []) rs)"

definition daemon_devices_rescan :: "dev_env \<Rightarrow> daemon_devices \<Rightarrow> string option \<times> daemon_devices \<times> dev_op list" where
  "daemon_devices_rescan env dd0 =
     (let dd = dd0\<lparr>last_rescan_ms := de_now env, have_rescan := False,
                  inotify_wd := (if inotify_fd dd0 \<ge> 0 \<and> inotify_wd dd0 < 0 then de_watch env else inotify_wd dd0)\<rparr>
      in case scan_inputs env (kbd_override dd) of
           None \<Rightarrow> (Some ''cannot scan /dev/input'', dd, [])
         | Some devs \<Rightarrow>
             (case (if devs = [] then Inr [] else pairing_match devs (length devs)) of
                Inl e \<Rightarrow> (Some e, dd, [])
              | Inr prs \<Rightarrow>
                  (case rebuild env dd devs prs (dd_remotes dd) of
                     (new, rest, ops) \<Rightarrow> (None, dd\<lparr>dd_remotes := new\<rparr>, ops @ free_all rest))))"

section \<open>Poll set and dispatch\<close>

datatype poll_target = TInotify | TKbd nat | TImu nat

text \<open>The loop both \<^verbatim>\<open>daemon_devices_pollfds\<close> and \<^verbatim>\<open>daemon_devices_handle\<close> run over the open descriptors.\<close>

definition remote_targets :: "daemon_remote list \<Rightarrow> nat \<Rightarrow> poll_target list" where
  "remote_targets rs i =
     (if ev_fd (rm_kbd (rs ! i)) \<ge> 0 then [TKbd i] else []) @ (if ev_fd (rm_imu (rs ! i)) \<ge> 0 then [TImu i] else [])"

definition poll_targets :: "daemon_devices \<Rightarrow> poll_target list" where
  "poll_targets dd =
     (if inotify_fd dd \<ge> 0 then [TInotify] else []) @
     concat (map (remote_targets (dd_remotes dd)) [0..<length (dd_remotes dd)])"

fun target_fd :: "daemon_devices \<Rightarrow> poll_target \<Rightarrow> int" where
  "target_fd dd TInotify = inotify_fd dd"
| "target_fd dd (TKbd i) = ev_fd (rm_kbd (dd_remotes dd ! i))"
| "target_fd dd (TImu i) = ev_fd (rm_imu (dd_remotes dd ! i))"

definition daemon_devices_pollfds :: "daemon_devices \<Rightarrow> nat \<Rightarrow> int list" where
  "daemon_devices_pollfds dd nfds = take nfds (map (target_fd dd) (poll_targets dd))"

definition schedule_rescan :: "int \<Rightarrow> int \<Rightarrow> daemon_devices \<Rightarrow> daemon_devices" where
  "schedule_rescan now delay dd = dd\<lparr>rescan_due_ms := now + delay, have_rescan := True\<rparr>"

text \<open>\<open>dead\<close>: the drain ended with an error other than \<^verbatim>\<open>EAGAIN\<close>, the watch is gone.\<close>

definition drain_inotify :: "int \<Rightarrow> bool \<Rightarrow> daemon_devices \<Rightarrow> daemon_devices" where
  "drain_inotify now dead dd =
     schedule_rescan now RESCAN_DEBOUNCE_MS (if dead then dd\<lparr>inotify_wd := - 1\<rparr> else dd)"

text \<open>
  One frame of a device: \<open>reads\<close> is what its descriptor delivers, \<open>ok\<close> whether a write to a virtual
  device succeeds, \<open>stop\<close> is \<open>g_stop\<close>. \<open>None\<close>: the read blocks, or a cast of the pipeline is undefined.
\<close>

definition handle_kbd ::
  "read_res list \<Rightarrow> (out_event \<Rightarrow> bool) \<Rightarrow> bool \<Rightarrow> int \<Rightarrow> daemon_devices \<Rightarrow> nat \<Rightarrow> (int \<times> daemon_devices \<times> dev_op list) option" where
  "handle_kbd reads ok stop now dd i =
     (let r = dd_remotes dd ! i
      in case evdev_read_frame_ext reads (rm_kbd r) of
           None \<Rightarrow> None
         | Some (rv, e, (dev, f), rest) \<Rightarrow>
             let r1 = r\<lparr>rm_kbd := dev\<rparr>
             in if rv = 1 then
                  (case pipeline_keyboard ok (rm_pl r1) f of
                     None \<Rightarrow> None
                   | Some (rc, out, pl) \<Rightarrow>
                       Some (1, dd\<lparr>dd_remotes := (dd_remotes dd)[i := r1\<lparr>rm_pl := pl\<rparr>]\<rparr>, map OpOut out))
                else if stop then Some (0, dd\<lparr>dd_remotes := (dd_remotes dd)[i := r1]\<rparr>, [])
                else Some (- 1, schedule_rescan now 0
                       (dd\<lparr>dd_remotes := (dd_remotes dd)[i := r1\<lparr>rm_kbd := evdev_close dev\<rparr>]\<rparr>), close_ops dev))"

definition handle_imu ::
  "read_res list \<Rightarrow> (out_event \<Rightarrow> bool) \<Rightarrow> bool \<Rightarrow> int \<Rightarrow> daemon_devices \<Rightarrow> nat \<Rightarrow> (int \<times> daemon_devices \<times> dev_op list) option" where
  "handle_imu reads ok stop now dd i =
     (let r = dd_remotes dd ! i
      in case evdev_read_frame_ext reads (rm_imu r) of
           None \<Rightarrow> None
         | Some (rv, e, (dev, f), rest) \<Rightarrow>
             let r1 = r\<lparr>rm_imu := dev\<rparr>
             in if rv = 1 then
                  (case pipeline_imu ok (rm_pl r1) f of
                     None \<Rightarrow> None
                   | Some (rc, out, pl) \<Rightarrow>
                       let g = (if gate_open (pl_am pl) then 1 else 0);
                           pl' = (if airmouse_on pl \<and> gate_logged pl \<noteq> g then pl\<lparr>gate_logged := g\<rparr> else pl)
                       in Some (1, dd\<lparr>dd_remotes := (dd_remotes dd)[i := r1\<lparr>rm_pl := pl'\<rparr>]\<rparr>, map OpOut out))
                else if stop then Some (0, dd\<lparr>dd_remotes := (dd_remotes dd)[i := r1]\<rparr>, [])
                else Some (- 1, schedule_rescan now 0
                       (dd\<lparr>dd_remotes := (dd_remotes dd)[i := r1\<lparr>rm_imu := evdev_close dev\<rparr>]\<rparr>), close_ops dev))"

text \<open>\<open>reads fd\<close> is what descriptor \<open>fd\<close> delivers.\<close>

definition daemon_devices_handle ::
  "(int \<Rightarrow> read_res list) \<Rightarrow> (out_event \<Rightarrow> bool) \<Rightarrow> bool \<Rightarrow> bool \<Rightarrow> int \<Rightarrow> daemon_devices \<Rightarrow> nat \<Rightarrow>
   (int \<times> daemon_devices \<times> dev_op list) option" where
  "daemon_devices_handle reads ok stop dead now dd idx =
     (if idx < length (poll_targets dd) then
        (case poll_targets dd ! idx of
           TInotify \<Rightarrow> Some (0, drain_inotify now dead dd, [])
         | TKbd i \<Rightarrow> handle_kbd (reads (ev_fd (rm_kbd (dd_remotes dd ! i)))) ok stop now dd i
         | TImu i \<Rightarrow> handle_imu (reads (ev_fd (rm_imu (dd_remotes dd ! i)))) ok stop now dd i)
      else Some (0, dd, []))"

definition daemon_devices_rescan_delay_ms :: "daemon_devices \<Rightarrow> int \<Rightarrow> int" where
  "daemon_devices_rescan_delay_ms dd now =
     (let due = (if have_rescan dd then (if rescan_due_ms dd - now < 0 then 0 else rescan_due_ms dd - now) else - 1);
          f0 = last_rescan_ms dd + RESCAN_INTERVAL_MS - now;
          fallback = (if f0 < 0 then 0 else f0)
      in if due < 0 \<or> fallback < due then fallback else due)"

section \<open>Reload\<close>

definition reload_remote :: "dev_env \<Rightarrow> daemon_config \<Rightarrow> daemon_remote \<Rightarrow> daemon_remote \<times> dev_op list" where
  "reload_remote env dcf r = (case daemon_config_load_remote dcf (de_files env) (rm_identity r) of
       (Some e, nd) \<Rightarrow> (r, [])
     | (None, nd) \<Rightarrow>
         (case pipeline_configure (de_calib env) (rm_pl r) nd
                 (Some (daemon_config_calib_path dcf nd (rm_identity r) 4096)) (dg_global dcf) (kbd_uinput r \<ge> 0) of
            (e, out, pl) \<Rightarrow> (r\<lparr>rm_pl := pl, rm_dc := nd\<rparr>, map OpOut out)))"

definition daemon_devices_reload :: "dev_env \<Rightarrow> daemon_devices \<Rightarrow> daemon_devices \<times> dev_op list" where
  "daemon_devices_reload env dd =
     (let dcf = (dd_config dd)\<lparr>dg_global := config_load_daemon (de_files env) (config_root (dd_config dd))\<rparr>;
          rs = map (reload_remote env dcf) (dd_remotes dd)
      in (dd\<lparr>dd_config := dcf, dd_remotes := map fst rs\<rparr>, concat (map snd rs)))"

section \<open>Start and end\<close>

text \<open>\<open>ifd\<close> and \<open>iwd\<close> are the results of \<^verbatim>\<open>inotify_init1\<close> and of adding the watch.\<close>

definition daemon_devices_init :: "daemon_config \<Rightarrow> string option \<Rightarrow> bool \<Rightarrow> int \<Rightarrow> int \<Rightarrow> daemon_devices \<times> dev_op list" where
  "daemon_devices_init dcf override no_ui ifd iwd =
     (let dd = \<lparr>dd_remotes = [], dd_config = dcf, kbd_override = override, no_uinput = no_ui,
                inotify_fd = - 1, inotify_wd = - 1, have_rescan = False, rescan_due_ms = 0, last_rescan_ms = 0\<rparr>
      in if ifd < 0 then (dd, [])
         else if iwd < 0 then (dd, [OpOpen ifd, OpClose ifd])
         else (dd\<lparr>inotify_fd := ifd, inotify_wd := iwd\<rparr>, [OpOpen ifd]))"

definition daemon_devices_free :: "daemon_devices \<Rightarrow> dev_op list" where
  "daemon_devices_free dd =
     concat (map (\<lambda>r. snd (remote_free r)) (dd_remotes dd)) @
     (if inotify_fd dd \<ge> 0 then [OpClose (inotify_fd dd)] else [])"

end
