(* ===== verification/Daemon_Bus.thy ===== *)
theory Daemon_Bus
  imports Daemon_Devices
begin

text \<open>
  \<^verbatim>\<open>tools/src/daemon_bus.c\<close>: the methods of \<^verbatim>\<open>org.lgmagic.Manager\<close> and their authorization.

  A method receives its arguments (sd-bus has checked their signature against the vtable) and yields the reply, the new state and the trace of
  operations on virtual devices. The state is the device manager and the files. The answers of the message
  broker and of polkitd are the record \<open>pk_env\<close>; \<open>io_env\<close> decides the writes.
\<close>

section \<open>State and replies\<close>

record bus_state =
  bs_dd :: daemon_devices
  bs_files :: files

datatype reply =
    ReplyOk
  | ReplyStr string
  | ReplyStrs "string list"
  | ReplyError string string   \<comment> \<open>error name and message\<close>
  | ReplyErrno int             \<comment> \<open>a negative return value: sd-bus replies with the errno\<close>

definition LG_ERROR_NOT_AUTHORIZED :: string where "LG_ERROR_NOT_AUTHORIZED = ''org.lgmagic.Error.NotAuthorized''"
definition LG_ERROR_NOT_FOUND :: string where "LG_ERROR_NOT_FOUND = ''org.lgmagic.Error.NotFound''"
definition LG_ERROR_INVALID_ARGUMENTS :: string where "LG_ERROR_INVALID_ARGUMENTS = ''org.lgmagic.Error.InvalidArguments''"
definition LG_ERROR_FAILED :: string where "LG_ERROR_FAILED = ''org.lgmagic.Error.Failed''"

text \<open>\<^verbatim>\<open>fail\<close> formats into 256 bytes.\<close>

definition fail :: "string \<Rightarrow> string \<Rightarrow> reply" where
  "fail name msg = ReplyError name (buf_str 256 msg)"

section \<open>Authorization\<close>

datatype cred_val = CredU int | CredT int | CredOther

record pk_env =
  pk_creds :: "(string \<times> cred_val) list option"    \<comment> \<open>\<open>None\<close>: the call failed\<close>
  pk_proc :: "int \<Rightarrow> string option"                 \<comment> \<open>\<^verbatim>\<open>/proc/PID/stat\<close>\<close>
  pk_check :: "int \<Rightarrow> int \<Rightarrow> int \<Rightarrow> string \<Rightarrow> (bool \<times> bool) option"
    \<comment> \<open>CheckAuthorization for pid, start time, uid and action: is\_authorized, is\_challenge; \<open>None\<close> when it failed\<close>

record creds =
  cr_uid :: "int option"
  cr_pid :: "int option"
  cr_start :: "int option"

text \<open>The loop over the dictionary; \<open>None\<close> is the jump to \<^verbatim>\<open>parse_fail\<close> on a value of the wrong type.\<close>

fun read_creds :: "(string \<times> cred_val) list \<Rightarrow> creds \<Rightarrow> creds option" where
  "read_creds [] c = Some c"
| "read_creds ((key, v) # kvs) c =
     (if key = ''UnixUserID'' then
        (case v of CredU n \<Rightarrow> read_creds kvs (c\<lparr>cr_uid := Some n\<rparr>) | _ \<Rightarrow> None)
      else if key = ''ProcessID'' then
        (case v of CredU n \<Rightarrow> read_creds kvs (c\<lparr>cr_pid := Some n\<rparr>) | _ \<Rightarrow> None)
      else if key = ''ProcessStartTime'' then
        (case v of CredT n \<Rightarrow> read_creds kvs (c\<lparr>cr_start := Some n\<rparr>) | _ \<Rightarrow> None)
      else read_creds kvs c)"

definition strtoull :: "string \<Rightarrow> int \<times> nat" where
  "strtoull s0 =
     (let ws = length (takeWhile isspace s0);
          s1 = dropWhile isspace s0;
          sg = (s1 \<noteq> [] \<and> (hd s1 = CHR ''+'' \<or> hd s1 = CHR ''-''));
          neg = (s1 \<noteq> [] \<and> hd s1 = CHR ''-'');
          ds = takeWhile isdigit (if sg then tl s1 else s1);
          v = digits_val ds
      in if ds = [] then (0, 0)
         else (if v > 2 ^ 64 - 1 then 2 ^ 64 - 1 else if neg then (- v) mod 2 ^ 64 else v,
               ws + (if sg then 1 else 0) + length ds))"

fun stat_fields :: "nat \<Rightarrow> string \<Rightarrow> int \<Rightarrow> int option" where
  "stat_fields 0 p v = Some v"
| "stat_fields (Suc n) p v =
     (case strtoull p of (w, len) \<Rightarrow> if len = 0 then None else stat_fields n (drop len p) w)"

text \<open>
  \<^verbatim>\<open>read_pid_starttime\<close>: the text after the last closing parenthesis, two fields skipped, then the last of
  nineteen numbers. At most 1023 bytes are read; the kernel's line is never cut before the state letter.
\<close>

definition read_pid_starttime :: "(int \<Rightarrow> string option) \<Rightarrow> int \<Rightarrow> int option" where
  "read_pid_starttime proc pid = (case proc pid of
       None \<Rightarrow> None
     | Some content \<Rightarrow>
         (let buf = takeWhile (\<lambda>c. c \<noteq> CHR 0x00) (take 1023 content);
              tail = rev (takeWhile (\<lambda>c. c \<noteq> CHR '')'') (rev buf))
          in if content = [] \<or> CHR '')'' \<notin> set buf \<or> tail = [] \<or> hd tail \<noteq> CHR '' '' then None
             else stat_fields 19 (drop 3 tail) 0))"

definition polkit_authorized :: "pk_env \<Rightarrow> string \<Rightarrow> int" where
  "polkit_authorized pk action = (case pk_creds pk of
       None \<Rightarrow> - 1
     | Some kvs \<Rightarrow>
         (case read_creds kvs \<lparr>cr_uid = None, cr_pid = None, cr_start = None\<rparr> of
            None \<Rightarrow> - 1
          | Some c \<Rightarrow>
              (case (cr_uid c, cr_pid c) of
                 (Some uid, Some pid) \<Rightarrow>
                   if uid = 0 then 1
                   else (case (case cr_start c of Some t \<Rightarrow> Some t | None \<Rightarrow> read_pid_starttime (pk_proc pk) pid) of
                           None \<Rightarrow> - 1
                         | Some start \<Rightarrow>
                             (case pk_check pk pid start uid action of
                                None \<Rightarrow> - 1
                              | Some (is_auth, is_challenge) \<Rightarrow> if is_auth \<and> \<not> is_challenge then 1 else 0))
               | _ \<Rightarrow> - 1)))"

definition gate :: "pk_env \<Rightarrow> string \<Rightarrow> reply option" where
  "gate pk action =
     (let a = polkit_authorized pk action
      in if a = 1 then None
         else if a = 0 then Some (fail LG_ERROR_NOT_AUTHORIZED ''permission denied by polkit'')
         else Some (fail LG_ERROR_NOT_AUTHORIZED ''polkitd not running (refusing to authorize)''))"

section \<open>Changing a remote\<close>

definition find_remote :: "daemon_devices \<Rightarrow> string \<Rightarrow> nat option" where
  "find_remote dd mac = find_index (\<lambda>r. rm_identity r = mac) (dd_remotes dd)"

definition remote_apply :: "dev_env \<Rightarrow> daemon_devices \<Rightarrow> nat \<Rightarrow> daemon_devices \<times> dev_op list" where
  "remote_apply env dd i =
     (let r = dd_remotes dd ! i;
          path = daemon_config_calib_path (dd_config dd) (rm_dc r) (rm_identity r) 4096
      in case pipeline_configure (de_calib env) (rm_pl r) (rm_dc r) (Some path) (dg_global (dd_config dd)) (kbd_uinput r \<ge> 0) of
           (e, out, pl) \<Rightarrow> (dd\<lparr>dd_remotes := (dd_remotes dd)[i := r\<lparr>rm_pl := pl\<rparr>]\<rparr>, map OpOut out))"

definition set_dc :: "daemon_devices \<Rightarrow> nat \<Rightarrow> device_config \<Rightarrow> daemon_devices" where
  "set_dc dd i d = dd\<lparr>dd_remotes := (dd_remotes dd)[i := (dd_remotes dd ! i)\<lparr>rm_dc := d\<rparr>]\<rparr>"

text \<open>Reload the configuration of remote \<open>i\<close> from the files, keeping what was loaded before an error, and apply it.\<close>

definition reload_dc :: "dev_env \<Rightarrow> files \<Rightarrow> daemon_devices \<Rightarrow> nat \<Rightarrow> daemon_devices \<times> dev_op list" where
  "reload_dc env fs dd i =
     remote_apply env (set_dc dd i (snd (daemon_config_load_remote (dd_config dd) fs (rm_identity (dd_remotes dd ! i))))) i"

definition remote_rollback :: "dev_env \<Rightarrow> files \<Rightarrow> daemon_devices \<Rightarrow> nat \<Rightarrow> daemon_devices \<times> dev_op list" where
  "remote_rollback env fs dd i = reload_dc env fs dd i"

text \<open>The writes of \<^verbatim>\<open>mutate_and_save\<close>; the result is the error.\<close>

definition mutate_and_save ::
  "dev_env \<Rightarrow> io_env \<Rightarrow> bus_state \<Rightarrow> nat \<Rightarrow> (device_config \<Rightarrow> device_config) \<Rightarrow> string option \<times> bus_state \<times> dev_op list" where
  "mutate_and_save env io s i mutate =
     (let dd = bs_dd s; r = dd_remotes dd ! i; dd1 = set_dc dd i (mutate (rm_dc r))
      in case daemon_config_save_device io (dd_config dd) (mutate (rm_dc r)) (rm_identity r) (bs_files s) of
           (e, trace) \<Rightarrow>
             let fs = last trace;
                 (dd2, ops) = (if e \<noteq> None then remote_rollback env fs dd1 i else remote_apply env dd1 i)
             in (e, \<lparr>bs_dd = dd2, bs_files = fs\<rparr>, ops))"

definition mutate_map :: "int \<Rightarrow> int \<Rightarrow> device_config \<Rightarrow> device_config" where
  "mutate_map from to dc = (case device_config_profile_ensure dc (dc_profile dc) of
       (i, dc') \<Rightarrow> dc'\<lparr>dc_profiles := (dc_profiles dc')[i := profile_set_button (dc_profiles dc' ! i) from to]\<rparr>)"

definition mutate_reset :: "device_config \<Rightarrow> device_config" where
  "mutate_reset dc =
     (if profile_find dc (dc_profile dc) = None then dc
      else case device_config_profile_ensure dc (dc_profile dc) of
             (i, dc') \<Rightarrow> dc'\<lparr>dc_profiles := (dc_profiles dc')[i := profile_clear_buttons (dc_profiles dc' ! i)]\<rparr>)"

definition mutate_number :: "bool \<Rightarrow> cdouble \<Rightarrow> device_config \<Rightarrow> device_config" where
  "mutate_number is_scroll v dc = (case device_config_profile_ensure dc (dc_profile dc) of
       (i, dc') \<Rightarrow>
         let p = dc_profiles dc' ! i;
             p' = (if is_scroll then p\<lparr>scroll_speed := v, has_scroll := True\<rparr>
                   else p\<lparr>sensitivity := v, has_sens := True\<rparr>)
         in dc'\<lparr>dc_profiles := (dc_profiles dc')[i := p']\<rparr>)"

definition mutate_calib :: "string \<Rightarrow> device_config \<Rightarrow> device_config" where
  "mutate_calib path dc = dc\<lparr>dc_calib := (if path = [] then None else Some path)\<rparr>"

section \<open>Methods\<close>

datatype method_call =
    ListDevices
  | GetStatus string
  | SetProfile string string
  | MapButton string string string
  | ResetButtons string
  | SetScrollSpeed string cdouble
  | SetSensitivity string cdouble
  | SetCalibPath string string
  | Reload

text \<open>The checks every method on one remote makes, in the order of the code.\<close>

definition on_remote ::
  "bus_state \<Rightarrow> string \<Rightarrow> (nat \<Rightarrow> reply \<times> bus_state \<times> dev_op list) \<Rightarrow> reply \<times> bus_state \<times> dev_op list" where
  "on_remote s mac f =
     (if \<not> daemon_identity_valid (Some mac) then
        (fail LG_ERROR_INVALID_ARGUMENTS (''invalid device identity '' @ squote mac), s, [])
      else case find_remote (bs_dd s) mac of
             None \<Rightarrow> (fail LG_ERROR_NOT_FOUND (''no device '' @ squote mac), s, [])
           | Some i \<Rightarrow> f i)"

definition gated ::
  "pk_env \<Rightarrow> string \<Rightarrow> bus_state \<Rightarrow> reply \<times> bus_state \<times> dev_op list \<Rightarrow> reply \<times> bus_state \<times> dev_op list" where
  "gated pk action s res = (case gate pk action of Some r \<Rightarrow> (r, s, []) | None \<Rightarrow> res)"

definition save_reply :: "string option \<times> bus_state \<times> dev_op list \<Rightarrow> reply \<times> bus_state \<times> dev_op list" where
  "save_reply r = (case r of
       (Some e, s, ops) \<Rightarrow> (fail LG_ERROR_FAILED e, s, ops)
     | (None, s, ops) \<Rightarrow> (ReplyOk, s, ops))"

definition status_text :: "daemon_devices \<Rightarrow> daemon_remote \<Rightarrow> string" where
  "status_text dd r =
     (let pl = rm_pl r; nl = [CHR 0x0A]
      in ''identity: '' @ rm_identity r @ nl @
         ''profile: '' @ dc_profile (rm_dc r) @ nl @
         ''airmouse: '' @ (if airmouse_on pl then ''on'' else ''off'') @ nl @
         ''calibration: '' @ daemon_config_calib_path (dd_config dd) (rm_dc r) (rm_identity r) 4096 @ nl @
         ''calib_loaded: '' @ (if have_cal pl then ''yes'' else ''no'') @ nl @
         ''keyboard: '' @ rm_kbd_path r @ nl @
         ''imu: '' @ (if rm_imu_path r \<noteq> [] then rm_imu_path r else ''-'') @ nl @
         ''scroll_speed: '' @ fmt_g 6 (scroll_speed (pl_active pl)) @ nl @
         ''sensitivity: '' @ fmt_g 6 (sensitivity (pl_active pl)) @ nl @
         ''lpf_alpha: '' @ fmt_g 6 (if has_lpf (pl_active pl) then pr_lpf_alpha (pl_active pl)
                                  else cf_lpf_alpha (dg_global (dd_config dd))) @ nl @
         ''buttons: '' @ show_dec (int (length (pr_map (pl_active pl)))) @ nl)"

definition method_list_devices :: "bus_state \<Rightarrow> reply \<times> bus_state \<times> dev_op list" where
  "method_list_devices s = (ReplyStrs (map rm_identity (dd_remotes (bs_dd s))), s, [])"

definition method_get_status :: "bus_state \<Rightarrow> string \<Rightarrow> reply \<times> bus_state \<times> dev_op list" where
  "method_get_status s mac = on_remote s mac (\<lambda>i.
     let t = status_text (bs_dd s) (dd_remotes (bs_dd s) ! i)
     in (if length t \<ge> 1024 then ReplyErrno (- 12) else ReplyStr t, s, []))"

definition method_set_profile ::
  "dev_env \<Rightarrow> io_env \<Rightarrow> pk_env \<Rightarrow> bus_state \<Rightarrow> string \<Rightarrow> string \<Rightarrow> reply \<times> bus_state \<times> dev_op list" where
  "method_set_profile env io pk s mac profile = gated pk ''org.lgmagic.profile-set'' s (on_remote s mac (\<lambda>i.
     let dd = bs_dd s
     in if profile \<noteq> ''default'' \<and> profile_find (rm_dc (dd_remotes dd ! i)) profile = None then
          (fail LG_ERROR_INVALID_ARGUMENTS
             (''profile '' @ squote profile @ '' is not defined for '' @ squote mac), s, [])
        else case daemon_config_save_profile io (dd_config dd) mac profile (bs_files s) of
               (Some e, trace) \<Rightarrow> (fail LG_ERROR_FAILED e, s\<lparr>bs_files := last trace\<rparr>, [])
             | (None, trace) \<Rightarrow>
                 (case reload_dc env (last trace) dd i of
                    (dd', ops) \<Rightarrow> (ReplyOk, \<lparr>bs_dd = dd', bs_files = last trace\<rparr>, ops))))"

definition method_map_button ::
  "dev_env \<Rightarrow> io_env \<Rightarrow> pk_env \<Rightarrow> bus_state \<Rightarrow> string \<Rightarrow> string \<Rightarrow> string \<Rightarrow> reply \<times> bus_state \<times> dev_op list" where
  "method_map_button env io pk s mac from to =
     (let f = keymap_name_to_code (Some from); t = keymap_name_to_code (Some to)
      in if f < 0 \<or> t < 0 then
           (fail LG_ERROR_INVALID_ARGUMENTS (''unknown keycode ('' @ squote from @ '' or '' @ squote to @ '')''), s, [])
         else gated pk ''org.lgmagic.modify-input'' s (on_remote s mac (\<lambda>i.
           save_reply (mutate_and_save env io s i (mutate_map f t)))))"

definition method_reset_buttons ::
  "dev_env \<Rightarrow> io_env \<Rightarrow> pk_env \<Rightarrow> bus_state \<Rightarrow> string \<Rightarrow> reply \<times> bus_state \<times> dev_op list" where
  "method_reset_buttons env io pk s mac = gated pk ''org.lgmagic.modify-input'' s (on_remote s mac (\<lambda>i.
     save_reply (mutate_and_save env io s i mutate_reset)))"

definition method_set_number ::
  "dev_env \<Rightarrow> io_env \<Rightarrow> pk_env \<Rightarrow> bus_state \<Rightarrow> string \<Rightarrow> cdouble \<Rightarrow> bool \<Rightarrow> cdouble \<Rightarrow> cdouble \<Rightarrow> string \<Rightarrow>
   reply \<times> bus_state \<times> dev_op list" where
  "method_set_number env io pk s mac v is_scroll lo hi what = gated pk ''org.lgmagic.profile-set'' s (on_remote s mac (\<lambda>i.
     if dlt v lo \<or> dgt v hi then
       (fail LG_ERROR_INVALID_ARGUMENTS (what @ '' out of range ('' @ fmt_g 6 lo @ ''..'' @ fmt_g 6 hi @ '')''), s, [])
     else save_reply (mutate_and_save env io s i (mutate_number is_scroll v))))"

definition method_set_calib_path ::
  "dev_env \<Rightarrow> io_env \<Rightarrow> pk_env \<Rightarrow> bus_state \<Rightarrow> string \<Rightarrow> string \<Rightarrow> reply \<times> bus_state \<times> dev_op list" where
  "method_set_calib_path env io pk s mac path = gated pk ''org.lgmagic.modify-input'' s (on_remote s mac (\<lambda>i.
     save_reply (mutate_and_save env io s i (mutate_calib path))))"

definition method_reload :: "dev_env \<Rightarrow> pk_env \<Rightarrow> bus_state \<Rightarrow> reply \<times> bus_state \<times> dev_op list" where
  "method_reload env pk s = gated pk ''org.lgmagic.modify-input'' s
     (case daemon_devices_reload (env\<lparr>de_files := bs_files s\<rparr>) (bs_dd s) of
        (dd, ops) \<Rightarrow> (ReplyOk, s\<lparr>bs_dd := dd\<rparr>, ops))"

text \<open>The vtable.\<close>

fun bus_method :: "dev_env \<Rightarrow> io_env \<Rightarrow> pk_env \<Rightarrow> bus_state \<Rightarrow> method_call \<Rightarrow> reply \<times> bus_state \<times> dev_op list" where
  "bus_method env io pk s ListDevices = method_list_devices s"
| "bus_method env io pk s (GetStatus mac) = method_get_status s mac"
| "bus_method env io pk s (SetProfile mac profile) = method_set_profile env io pk s mac profile"
| "bus_method env io pk s (MapButton mac from to) = method_map_button env io pk s mac from to"
| "bus_method env io pk s (ResetButtons mac) = method_reset_buttons env io pk s mac"
| "bus_method env io pk s (SetScrollSpeed mac v) =
     method_set_number env io pk s mac v True d0 (dlit 100 1) ''scroll_speed''"
| "bus_method env io pk s (SetSensitivity mac v) =
     method_set_number env io pk s mac v False d0 (dlit 10000 1) ''sensitivity''"
| "bus_method env io pk s (SetCalibPath mac path) = method_set_calib_path env io pk s mac path"
| "bus_method env io pk s Reload = method_reload env pk s"

text \<open>The properties of the interface.\<close>

definition property_get_state :: "bus_state \<Rightarrow> reply" where
  "property_get_state s = ReplyStr ''running''"

definition property_get_api_version :: "bus_state \<Rightarrow> reply" where
  "property_get_api_version s = ReplyStr ''0.0''"

definition property_get_devices :: "bus_state \<Rightarrow> reply" where
  "property_get_devices s = ReplyStrs (map rm_identity (dd_remotes (bs_dd s)))"

text \<open>\<^verbatim>\<open>daemon_bus_events\<close> and \<^verbatim>\<open>daemon_bus_process\<close>: POLLIN is 1, POLLOUT 4, POLLERR 8, POLLHUP 16.\<close>

unbundle bit_operations_syntax

definition daemon_bus_events :: "int \<Rightarrow> int" where
  "daemon_bus_events events = (if events < 0 then 1 else if events = 0 then 1 else events)"

text \<open>\<open>flush\<close> and \<open>process\<close> are the results of the sd-bus calls.\<close>

definition daemon_bus_process :: "int \<Rightarrow> int \<Rightarrow> 16 word \<Rightarrow> int" where
  "daemon_bus_process flush process revents =
     (if revents AND 4 \<noteq> 0 \<and> flush < 0 then - 1
      else if revents AND (1 OR 16 OR 8) \<noteq> 0 \<and> process < 0 then - 1
      else 0)"

end
