(* ===== verification/Toml_Text.thy ===== *)
theory Toml_Text
  imports Toml_Roundtrip
begin

text \<open>
  Which trees \<open>toml_dumps\<close> writes at all (the nesting bound), and what a lookup returns in a
  tree that was written and read again. The clients that keep their state in a TOML file build
  on these lemmas.
\<close>

section \<open>The nesting bound\<close>

fun depth_ok :: "nat \<Rightarrow> (string \<times> toml_value) list \<Rightarrow> bool" where
  "depth_ok d [] = True"
| "depth_ok d ((k, TTable sub) # kvs) = (Suc d < TOML_MAX_DEPTH \<and> depth_ok (Suc d) sub \<and> depth_ok d kvs)"
| "depth_ok d ((k, v) # kvs) = depth_ok d kvs"

lemma depth_ok_Cons:
  "depth_ok d ((k, v) # kvs) \<longleftrightarrow>
     (case v of TTable sub \<Rightarrow> Suc d < TOML_MAX_DEPTH \<and> depth_ok (Suc d) sub | _ \<Rightarrow> True) \<and> depth_ok d kvs"
  by (cases v) auto

lemma depth_ok_iff:
  "depth_ok d kvs \<longleftrightarrow>
     (\<forall>(k, v) \<in> set kvs. case v of TTable sub \<Rightarrow> Suc d < TOML_MAX_DEPTH \<and> depth_ok (Suc d) sub | _ \<Rightarrow> True)"
proof (induction kvs)
  case (Cons kv kvs)
  then show ?case by (cases kv) (simp add: depth_ok_Cons)
qed simp

lemma dump_subtables_depth: "dump_subtables kvs segs nl \<noteq> None \<longleftrightarrow> depth_ok (length segs) kvs"
proof (induction kvs segs nl rule: dump_subtables.induct)
  case (2 k sub kvs segs nl)
  show ?case
  proof (cases "length segs \<ge> TOML_MAX_DEPTH - 1")
    case False
    have "dump_subtables sub (segs @ [k]) (has_scalar sub) \<noteq> None \<longleftrightarrow> depth_ok (Suc (length segs)) sub"
      using "2.IH"(1) [OF False] by simp
    moreover have "dump_subtables sub (segs @ [k]) (has_scalar sub) \<noteq> None \<Longrightarrow>
        dump_subtables kvs segs True \<noteq> None \<longleftrightarrow> depth_ok (length segs) kvs"
      using "2.IH"(2) [OF False] by auto
    ultimately show ?thesis using False by (auto split: option.splits)
  qed auto
qed simp_all

lemma toml_dumps_iff: "toml_dumps (Some (TTable kvs)) \<noteq> None \<longleftrightarrow> depth_ok 0 kvs"
  using dump_subtables_depth [of kvs "[]" "has_scalar kvs"]
  by (auto simp: toml_dumps_def dump_table_def split: option.splits)

section \<open>Lookups after a write and a read\<close>

fun reordered :: "toml_value \<Rightarrow> toml_value" where
  "reordered (TTable sub) = TTable (scalars_first sub)"
| "reordered v = v"

lemma map_of_filter_scalars:
  assumes "distinct (map fst kvs)"
  shows "map_of (filter (\<lambda>(k, v). \<not> is_table v) kvs) key =
    (case map_of kvs key of Some v \<Rightarrow> if is_table v then None else Some v | None \<Rightarrow> None)"
  using assms
proof (induction kvs)
  case (Cons kv kvs)
  obtain k v where kv: "kv = (k, v)" by (cases kv)
  from Cons.prems have "map_of kvs k = None" by (simp add: kv map_of_eq_None_iff)
  with Cons show ?case by (auto simp: kv)
qed simp

lemma map_of_table_members:
  "distinct (map fst kvs) \<Longrightarrow> map_of (table_members kvs) key =
    (case map_of kvs key of Some v \<Rightarrow> if is_table v then Some (reordered v) else None | None \<Rightarrow> None)"
proof (induction kvs)
  case (Cons kv kvs)
  obtain k v where kv: "kv = (k, v)" by (cases kv)
  from Cons.prems have "map_of kvs k = None" by (simp add: kv map_of_eq_None_iff)
  with Cons show ?case by (cases v) (auto simp: kv scalars_first_def)
qed simp

lemma map_of_scalars_first:
  assumes "distinct (map fst kvs)"
  shows "map_of (scalars_first kvs) key = map_option reordered (map_of kvs key)"
proof -
  have "reordered v = v" if "\<not> is_table v" for v using that by (cases v) auto
  then show ?thesis
    by (auto simp: scalars_first_def map_add_def map_of_filter_scalars [OF assms]
        map_of_table_members [OF assms] split: option.split)
qed

lemma table_members_keys: "fst ` set (table_members kvs) = fst ` {x \<in> set kvs. is_table (snd x)}"
proof (induction kvs)
  case (Cons kv kvs)
  obtain k v where kv: "kv = (k, v)" by (cases kv)
  have "{x \<in> set (kv # kvs). is_table (snd x)} =
      (if is_table v then {(k, v)} else {}) \<union> {x \<in> set kvs. is_table (snd x)}" by (auto simp: kv)
  with Cons show ?case by (cases v) (simp_all add: kv)
qed simp

lemma members_ok_append:
  "toml_members_ok (xs @ ys) \<longleftrightarrow> toml_members_ok xs \<and> toml_members_ok ys \<and> fst ` set xs \<inter> fst ` set ys = {}"
proof (induction xs)
  case (Cons kv xs)
  then show ?case by (cases kv) (auto simp: members_ok_cons)
qed simp

lemma members_ok_filter: "toml_members_ok kvs \<Longrightarrow> toml_members_ok (filter P kvs)"
proof (induction kvs)
  case (Cons kv kvs)
  then show ?case by (cases kv) (auto simp: members_ok_cons)
qed simp

lemma table_members_ok: "toml_members_ok kvs \<Longrightarrow> toml_members_ok (table_members kvs)"
proof (induction kvs rule: table_members.induct)
  case (2 k sub kvs)
  have "fst ` set (filter (\<lambda>(k, v). \<not> is_table v) sub) \<inter> fst ` set (table_members sub) = {}"
    unfolding table_members_keys using members_disjoint [of sub] 2(3) by (simp add: split_def)
  moreover have "k \<notin> fst ` set (table_members kvs)" unfolding table_members_keys using 2(3) by auto
  ultimately show ?case using 2 by (simp add: members_ok_append members_ok_filter)
qed simp_all

lemma scalars_first_members_ok: "toml_members_ok kvs \<Longrightarrow> toml_members_ok (scalars_first kvs)"
  using table_members_ok [of "[([], TTable kvs)]"]
  by (simp add: scalars_first_def cstring_def)

lemma table_members_depth: "depth_ok d kvs \<Longrightarrow> depth_ok d (table_members kvs)"
proof (induction kvs arbitrary: d rule: table_members.induct)
  case (2 k sub kvs)
  have "depth_ok (Suc d) (filter (\<lambda>(k, v). \<not> is_table v) sub @ table_members sub)"
    unfolding depth_ok_iff [of _ "_ @ _"] using 2 depth_ok_iff [of "Suc d" "table_members sub"]
    by (fastforce split: toml_value.split)
  with 2 show ?case by simp
qed simp_all

lemma scalars_first_depth: "depth_ok d kvs \<Longrightarrow> depth_ok d (scalars_first kvs)"
  using table_members_depth [of d kvs] depth_ok_iff [of d "table_members kvs"]
  unfolding scalars_first_def depth_ok_iff [of d "scalars kvs @ _"]
  by (fastforce split: toml_value.split)

lemma toml_text_exists:
  assumes "toml_members_ok kvs" and "depth_ok 0 kvs"
  shows "\<exists>doc. toml_dumps (Some (TTable kvs)) = Some doc \<and> toml_parse doc = Inr (TTable (scalars_first kvs))"
  using assms toml_dumps_iff [of kvs] toml_roundtrip_tree [OF assms(1)] by auto

end
