(* ===== verification/Daemon_Devices_Correct.thy ===== *)
theory Daemon_Devices_Correct
  imports Daemon_Devices Toml_Text "HOL-Library.Multiset"
begin

text \<open>
  The device manager: descriptors are neither leaked nor closed twice by a rescan (while no node
  vanishes between scan and open), a remote is grabbed only after its virtual pair exists, identities are safe path
  components, an idle rescan changes nothing, and when the next rescan is due.
\<close>

section \<open>Identities\<close>

lemma identity_chars:
  assumes "daemon_identity_valid (Some s)"
  shows "\<forall>c \<in> set s. isxdigit c \<or> c = CHR '':'' \<or> c \<in> set ''unkow''"
proof (cases "s = ''unknown''")
  case False
  with assms have l: "length s = 17"
    and a: "\<forall>i < 17. if i mod 3 = 2 then s ! i = CHR '':'' else isxdigit (s ! i)"
    by (auto simp: daemon_identity_valid_def list_all_iff)
  show ?thesis
  proof
    fix c assume "c \<in> set s"
    then obtain i where "i < 17" "c = s ! i" using l by (auto simp: in_set_conv_nth)
    with a show "isxdigit c \<or> c = CHR '':'' \<or> c \<in> set ''unkow''" by (auto split: if_splits)
  qed
qed simp

lemma identity_safe:
  assumes "daemon_identity_valid (Some s)"
  shows "CHR ''/'' \<notin> set s" and "CHR ''.'' \<notin> set s" and "CHR 0x00 \<notin> set s" and "s \<noteq> []" and "length s \<le> 17"
proof -
  have n: "\<not> (isxdigit c \<or> c = CHR '':'' \<or> c \<in> set ''unkow'')" if "c \<in> {CHR ''/'', CHR ''.'', CHR 0x00}" for c
    using that by (auto simp: isxdigit_def isdigit_def)
  show "CHR ''/'' \<notin> set s" "CHR ''.'' \<notin> set s" "CHR 0x00 \<notin> set s"
    using identity_chars [OF assms] n by blast+
  show "s \<noteq> []" "length s \<le> 17" using assms by (auto simp: daemon_identity_valid_def)
qed

lemma remote_identity_valid: "daemon_identity_valid (Some (remote_identity u))"
proof -
  have v: "daemon_identity_valid (Some (if daemon_identity_valid (Some u) then u else ''unknown''))"
    by (simp add: daemon_identity_valid_def)
  from identity_safe(5) [OF v] v show ?thesis by (simp add: remote_identity_def buf_str_def)
qed

section \<open>What a rescan opens and closes\<close>

fun fd_opens :: "dev_op list \<Rightarrow> int multiset" where
  "fd_opens [] = {#}"
| "fd_opens (OpOpen fd # ops) = add_mset fd (fd_opens ops)"
| "fd_opens (OpUiCreate fd # ops) = add_mset fd (fd_opens ops)"
| "fd_opens (op # ops) = fd_opens ops"

fun fd_closes :: "dev_op list \<Rightarrow> int multiset" where
  "fd_closes [] = {#}"
| "fd_closes (OpClose fd # ops) = add_mset fd (fd_closes ops)"
| "fd_closes (OpUiClose fd # ops) = add_mset fd (fd_closes ops)"
| "fd_closes (op # ops) = fd_closes ops"

lemma fd_append [simp]:
  "fd_opens (xs @ ys) = fd_opens xs + fd_opens ys" "fd_closes (xs @ ys) = fd_closes xs + fd_closes ys"
  by (induction xs rule: fd_opens.induct) auto

lemma fd_out [simp]: "fd_opens (map OpOut es) = {#}" "fd_closes (map OpOut es) = {#}"
  by (induction es) auto

definition open_fds :: "int list \<Rightarrow> int multiset" where
  "open_fds fds = mset (filter (\<lambda>fd. 0 \<le> fd) fds)"

definition remote_fds :: "daemon_remote \<Rightarrow> int multiset" where
  "remote_fds r = open_fds [ev_fd (rm_kbd r), ev_fd (rm_imu r), kbd_uinput r, mouse_uinput r]"

definition remotes_fds :: "daemon_remote list \<Rightarrow> int multiset" where
  "remotes_fds rs = sum_list (map remote_fds rs)"

lemma remote_free_fds [simp]:
  "fd_opens (snd (remote_free r)) = {#}" "fd_closes (snd (remote_free r)) = remote_fds r"
  by (auto simp: remote_free_def close_ops_def uinput_close_def remote_fds_def open_fds_def)

definition env_ok :: "dev_env \<Rightarrow> bool" where
  "env_ok env \<longleftrightarrow> (\<forall>p nd. de_open env p = Inr nd \<longrightarrow> 0 \<le> nd_fd nd) \<and> (\<forall>n k. de_uinput env n = Inr k \<longrightarrow> 0 \<le> k)"

lemma remote_setup_keeps:
  "remote_setup env dcf identity r = (r', ops) \<Longrightarrow>
   \<exists>d pl out. r' = r\<lparr>rm_dc := d, rm_pl := pl\<rparr> \<and> ops = map OpOut out"
  by (auto simp: remote_setup_def Let_def split: prod.splits)

lemma remote_uinput_open_fds:
  assumes "remote_uinput_open env nu (remote_zero identity k i) = (b, r, ops)" and "env_ok env"
  shows "fd_opens ops = remote_fds r + fd_closes ops \<and> rm_kbd r = evdev_zero \<and> rm_imu r = evdev_zero \<and>
    rm_identity r = buf_str 64 identity \<and> (\<not> b \<longrightarrow> kbd_uinput r < 0 \<and> mouse_uinput r < 0) \<and>
    (b \<and> \<not> nu \<longrightarrow> (\<exists>k m. ops = [OpUiCreate k, OpUiCreate m])) \<and> (\<forall>fd. OpGrab fd \<notin> set ops)"
proof -
  have ui: "0 \<le> k" if "de_uinput env n = Inr k" for n k using assms(2) that by (simp add: env_ok_def)
  show ?thesis
    using assms(1)
    by (auto simp: remote_uinput_open_def remote_zero_def evdev_zero_def remote_fds_def open_fds_def
        uinput_close_def dest: ui split: if_splits sum.splits)
qed

lemma remote_open_imu_fds:
  assumes "remote_open_imu env imu_path r = (r', ops)" and "env_ok env" and "ev_fd (rm_imu r) < 0"
  shows "fd_opens ops = open_fds [ev_fd (rm_imu r')] \<and> fd_closes ops = {#} \<and> kbd_uinput r' = kbd_uinput r \<and>
    mouse_uinput r' = mouse_uinput r \<and> rm_kbd r' = rm_kbd r \<and> rm_identity r' = rm_identity r \<and>
    (\<forall>fd. OpGrab fd \<notin> set ops)"
  using assms
  by (auto simp: remote_open_imu_def evdev_find_imu_def open_imu_def open_probe_def env_ok_def open_fds_def
      split: if_splits sum.splits prod.splits option.splits)

lemma remote_open_success:
  assumes "remote_open env dd identity k i = (True, r, ops)" and "env_ok env"
  obtains uops fd rest where "ops = uops @ [OpOpen fd, OpGrab fd] @ rest"
    and "\<not> no_uinput dd \<Longrightarrow> \<exists>k m. uops = [OpUiCreate k, OpUiCreate m]"
    and "\<forall>fd. OpGrab fd \<notin> set uops" and "\<forall>fd. OpGrab fd \<notin> set rest"
    and "fd_opens ops = remote_fds r + fd_closes ops" and "rm_identity r = buf_str 64 identity"
proof -
  obtain b r0 uops where u: "remote_uinput_open env (no_uinput dd) (remote_zero identity k i) = (b, r0, uops)"
    by (metis prod_cases3)
  note u' = remote_uinput_open_fds [OF u assms(2)]
  have b: "b" using assms(1) by (cases b) (auto simp: remote_open_def u split: prod.splits)
  obtain e kd where kd: "evdev_find_keyboard (de_open env) (de_dirs env) (Some k) (rm_kbd r0) = (e, kd)" by fastforce
  have e: "e = None" using assms(1) b by (cases e) (auto simp: remote_open_def u kd split: prod.splits)
  have kfd: "0 \<le> ev_fd kd"
    using kd e assms(2) by (auto simp: evdev_find_keyboard_def open_probe_def env_ok_def split: sum.splits prod.splits)
  obtain r2 ops2 where i2: "remote_open_imu env i (r0\<lparr>rm_kbd := kd\<rparr>) = (r2, ops2)" by fastforce
  have "ev_fd (rm_imu (r0\<lparr>rm_kbd := kd\<rparr>)) < 0" using u' by (simp add: evdev_zero_def)
  note imu = remote_open_imu_fds [OF i2 assms(2) this]
  obtain r3 ops3 where s: "remote_setup env (dd_config dd) identity r2 = (r3, ops3)" by fastforce
  from remote_setup_keeps [OF s] obtain d pl out where r3: "r3 = r2\<lparr>rm_dc := d, rm_pl := pl\<rparr>" "ops3 = map OpOut out"
    by blast
  have all: "r = r3" "ops = uops @ [OpOpen (ev_fd kd), OpGrab (ev_fd kd)] @ ops2 @ ops3"
    using assms(1) b by (auto simp: remote_open_def u kd e i2 s Let_def)
  show thesis
  proof (rule that [OF all(2)])
    show "fd_opens ops = remote_fds r + fd_closes ops"
      using u' imu kfd r3 by (simp add: all remote_fds_def open_fds_def evdev_zero_def)
  qed (use u' b imu r3 in \<open>auto simp: all\<close>)
qed

lemma remote_open_failure:
  assumes "remote_open env dd identity k i = (False, r, ops)" and "env_ok env"
  shows "fd_opens ops = fd_closes ops \<and> (\<forall>fd. OpGrab fd \<notin> set ops) \<and>
    (\<forall>nd. de_open env k = Inr nd \<longrightarrow> remote_fds r = {#})"
proof -
  obtain b r0 uops where u: "remote_uinput_open env (no_uinput dd) (remote_zero identity k i) = (b, r0, uops)"
    by (metis prod_cases3)
  note u' = remote_uinput_open_fds [OF u assms(2)]
  obtain e kd where kd: "evdev_find_keyboard (de_open env) (de_dirs env) (Some k) (rm_kbd r0) = (e, kd)" by fastforce
  have fail: "e \<noteq> None \<Longrightarrow> ev_fd kd = - 1 \<and> (\<forall>nd. de_open env k \<noteq> Inr nd)"
    using kd by (auto simp: evdev_find_keyboard_def open_probe_def split: sum.splits prod.splits)
  have g: "OpGrab fd \<notin> set (snd (remote_free q))" for fd q
    by (auto simp: remote_free_def close_ops_def uinput_close_def)
  show ?thesis
  proof (cases b)
    case True
    have e: "e \<noteq> None" using assms(1) True by (cases e) (auto simp: remote_open_def u kd Let_def split: prod.splits)
    with assms(1) True have "ops = uops @ snd (remote_free (r0\<lparr>rm_kbd := kd\<rparr>))"
      by (auto simp: remote_open_def u kd split: prod.splits)
    moreover have "remote_fds (r0\<lparr>rm_kbd := kd\<rparr>) = remote_fds r0"
      using fail [OF e] u' by (simp add: remote_fds_def open_fds_def evdev_zero_def)
    ultimately show ?thesis using u' g fail [OF e] by auto
  next
    case False
    with assms(1) have o: "ops = uops @ snd (remote_free r0)" "r = fst (remote_free r0)"
      by (auto simp: remote_open_def u split: prod.splits)
    have "remote_fds (fst (remote_free r0)) = {#}"
      using u' False by (simp add: remote_free_def remote_fds_def open_fds_def evdev_zero_def evdev_close_def)
    with o u' g show ?thesis by auto
  qed
qed

definition named_fds :: "daemon_remote list \<Rightarrow> int multiset" where
  "named_fds rs = remotes_fds (filter (\<lambda>e. rm_identity e \<noteq> []) rs)"

lemma free_all_fds: "fd_opens (free_all rs) = {#} \<and> fd_closes (free_all rs) = named_fds rs"
  by (induction rs) (auto simp: free_all_def named_fds_def remotes_fds_def)

lemma named_fds_Cons:
  "named_fds (e # es) = (if rm_identity e = [] then {#} else remote_fds e) + named_fds es"
  by (simp add: named_fds_def remotes_fds_def)

lemma steal_fds:
  "steal (same_remote identity k i) old = Some (r, old') \<Longrightarrow> identity \<noteq> [] \<Longrightarrow>
   rm_identity r = identity \<and> named_fds old = remote_fds r + named_fds old'"
proof (induction old arbitrary: r old')
  case (Cons e old)
  show ?case
  proof (cases "same_remote identity k i e")
    case True
    with Cons.prems have "r = e" "old' = stolen_slot e # old" "rm_identity e = identity"
      by (auto simp: same_remote_def)
    moreover have "rm_identity (stolen_slot e) = []" by (simp add: stolen_slot_def)
    ultimately show ?thesis using Cons.prems(2) by (simp add: named_fds_Cons)
  next
    case False
    with Cons.prems obtain es where es: "steal (same_remote identity k i) old = Some (r, es)" "old' = e # es"
      by (auto split: option.splits)
    from Cons.IH [OF es(1) Cons.prems(2)] show ?thesis by (simp add: es(2) named_fds_Cons)
  qed
qed simp

lemma remote_open_fds:
  assumes "remote_open env dd identity k i = (True, r, ops)" and "env_ok env"
  shows "fd_opens ops = remote_fds r + fd_closes ops" and "rm_identity r = buf_str 64 identity"
  using remote_open_success [OF assms] by metis+

text \<open>
  The grabs of a trace: each is right after the creation of the keyboard and the mouse of the remote
  and the opening of its node.
\<close>

definition grabs_ok :: "dev_op list \<Rightarrow> bool" where
  "grabs_ok ops \<longleftrightarrow> (\<forall>xs fd ys. ops = xs @ OpGrab fd # ys \<longrightarrow>
     (\<exists>zs k m. xs = zs @ [OpUiCreate k, OpUiCreate m, OpOpen fd]))"

lemma grabs_ok_none: "\<forall>fd. OpGrab fd \<notin> set ops \<Longrightarrow> grabs_ok ops"
  by (auto simp: grabs_ok_def)

lemma grabs_ok_append:
  assumes "grabs_ok xs" and "grabs_ok ys"
  shows "grabs_ok (xs @ ys)"
  unfolding grabs_ok_def
proof (intro allI impI)
  fix as fd bs assume "xs @ ys = as @ OpGrab fd # bs"
  then consider us where "xs = as @ OpGrab fd # us" | us where "as = xs @ us" "ys = us @ OpGrab fd # bs"
    by (auto simp: append_eq_append_conv2 append_eq_Cons_conv)
  then show "\<exists>zs k m. as = zs @ [OpUiCreate k, OpUiCreate m, OpOpen fd]"
  proof cases
    case 1
    then show ?thesis using assms(1) by (simp add: grabs_ok_def)
  next
    case 2
    then obtain zs k m where "us = zs @ [OpUiCreate k, OpUiCreate m, OpOpen fd]"
      using assms(2) unfolding grabs_ok_def by blast
    with 2 show ?thesis by (intro exI [of _ "xs @ zs"]) simp
  qed
qed

lemma remote_open_grabs:
  assumes "remote_open env dd identity k i = (True, r, ops)" and "env_ok env" and "\<not> no_uinput dd"
  shows "grabs_ok ops"
proof -
  obtain uops fd rest where o: "ops = uops @ [OpOpen fd, OpGrab fd] @ rest"
    and u: "\<not> no_uinput dd \<Longrightarrow> \<exists>k m. uops = [OpUiCreate k, OpUiCreate m]" and g: "\<forall>fd. OpGrab fd \<notin> set rest"
    using remote_open_success [OF assms(1,2)] by metis
  then obtain k m where uops: "uops = [OpUiCreate k, OpUiCreate m]" using assms(3) by blast
  have "grabs_ok [OpUiCreate k, OpUiCreate m, OpOpen fd, OpGrab fd]"
    by (auto simp: grabs_ok_def Cons_eq_append_conv)
  from grabs_ok_append [OF this grabs_ok_none [OF g]] show ?thesis by (simp add: o uops)
qed

lemma remote_free_no_grab: "OpGrab fd \<notin> set (snd (remote_free r))"
  by (auto simp: remote_free_def close_ops_def uinput_close_def)

lemma rebuild_grabs:
  assumes "env_ok env" and "\<not> no_uinput dd"
  shows "rebuild env dd devs prs old = (new, rest, ops) \<Longrightarrow> grabs_ok ops"
proof (induction prs arbitrary: old new rest ops)
  case Nil
  then show ?case by (simp add: grabs_ok_def)
next
  case (Cons pr prs)
  define k where "k = path_of devs (pm_keyboard pr)"
  define i where "i = (case pm_imu pr of Some j \<Rightarrow> path_of devs j | None \<Rightarrow> [])"
  define identity where "identity = remote_identity (pm_uniq pr)"
  note defs = k_def [symmetric] i_def [symmetric] identity_def [symmetric]
  show ?case
  proof (cases "kbd_override dd \<noteq> None \<and> kbd_override dd \<noteq> Some k")
    case True
    with Cons show ?thesis by (auto simp: Let_def defs)
  next
    case False
    show ?thesis
    proof (cases "steal (same_remote identity k i) old")
      case (Some p)
      with Cons False show ?thesis by (auto simp: Let_def defs split: prod.splits)
    next
      case None
      obtain b r os where o: "remote_open env dd identity k i = (b, r, os)" by (metis prod_cases3)
      obtain new' rest' ops' where rb: "rebuild env dd devs prs old = (new', rest', ops')" by (metis prod_cases3)
      have "ops = os @ (if b then [] else snd (remote_free r)) @ ops'"
        using Cons.prems False None o rb by (auto simp: Let_def defs split: bool.splits)
      moreover have "grabs_ok os"
        using o remote_open_grabs [OF _ assms] remote_open_failure [OF _ assms(1)] grabs_ok_none
        by (cases b) auto
      moreover have "grabs_ok (if b then [] else snd (remote_free r))"
        by (rule grabs_ok_none) (simp add: remote_free_no_grab)
      ultimately show ?thesis using Cons.IH [OF rb] by (simp add: grabs_ok_append)
    qed
  qed
qed

lemma rebuild_fds:
  assumes "env_ok env"
  shows "rebuild env dd devs prs old = (new, rest, ops) \<Longrightarrow>
    \<forall>pr \<in> set prs. \<exists>nd. de_open env (path_of devs (pm_keyboard pr)) = Inr nd \<Longrightarrow>
    named_fds old + fd_opens ops = remotes_fds new + named_fds rest + fd_closes ops"
proof (induction prs arbitrary: old new rest ops)
  case Nil
  then show ?case by (simp add: remotes_fds_def)
next
  case (Cons pr prs)
  define k where "k = path_of devs (pm_keyboard pr)"
  define i where "i = (case pm_imu pr of Some j \<Rightarrow> path_of devs j | None \<Rightarrow> [])"
  define identity where "identity = remote_identity (pm_uniq pr)"
  note defs = k_def [symmetric] i_def [symmetric] identity_def [symmetric]
  have ne: "identity \<noteq> []" unfolding identity_def using identity_safe(4) [OF remote_identity_valid] .
  obtain nd where nd: "de_open env k = Inr nd" using Cons.prems(2) by (auto simp: k_def)
  show ?case
  proof (cases "kbd_override dd \<noteq> None \<and> kbd_override dd \<noteq> Some k")
    case True
    with Cons show ?thesis by (auto simp: Let_def defs)
  next
    case False
    show ?thesis
    proof (cases "steal (same_remote identity k i) old")
      case (Some p)
      then obtain r old' where p: "steal (same_remote identity k i) old = Some (r, old')" by (cases p) simp
      obtain new' rest' ops' where rb: "rebuild env dd devs prs old' = (new', rest', ops')" by (metis prod_cases3)
      from Cons.prems(1) False p rb have "new = r # new'" "rest = rest'" "ops = ops'"
        by (auto simp: Let_def defs)
      with Cons.IH [OF rb] Cons.prems(2) steal_fds [OF p ne] show ?thesis
        by (simp add: remotes_fds_def)
    next
      case None
      obtain b r os where o: "remote_open env dd identity k i = (b, r, os)" by (metis prod_cases3)
      obtain new' rest' ops' where rb: "rebuild env dd devs prs old = (new', rest', ops')" by (metis prod_cases3)
      have all: "ops = os @ (if b then [] else snd (remote_free r)) @ ops'" "new = (if b then [r] else []) @ new'" "rest = rest'"
        using Cons.prems(1) False None o rb by (auto simp: Let_def defs split: bool.splits)
      have "fd_opens os = (if b then remote_fds r else {#}) + fd_closes os \<and> (\<not> b \<longrightarrow> remote_fds r = {#})"
        using o nd remote_open_fds(1) [OF _ assms, of dd identity k i r os]
          remote_open_failure [OF _ assms, of dd identity k i r os]
        by (cases b) auto
      with Cons.IH [OF rb] Cons.prems(2) show ?thesis by (auto simp: all remotes_fds_def)
    qed
  qed
qed

text \<open>
  A rescan neither leaks descriptors nor closes one twice: what was open before and what it
  opens is, counted with multiplicity, what the remotes hold afterwards and what it closes. This
  holds as long as no keyboard node vanishes between the scan and its opening.
\<close>

lemma rescan_balance:
  assumes "env_ok env" and "\<forall>r \<in> set (dd_remotes dd). rm_identity r \<noteq> []"
    and "scan_inputs env (kbd_override dd) = Some devs" and "pairing_match devs (length devs) = Inr prs"
    and "\<forall>pr \<in> set prs. \<exists>nd. de_open env (path_of devs (pm_keyboard pr)) = Inr nd"
    and "daemon_devices_rescan env dd = (err, dd', ops)"
  shows "remotes_fds (dd_remotes dd) + fd_opens ops = remotes_fds (dd_remotes dd') + fd_closes ops"
proof -
  have prs: "(if devs = [] then Inr [] else pairing_match devs (length devs)) = Inr prs' \<Longrightarrow>
      \<forall>pr \<in> set prs'. \<exists>nd. de_open env (path_of devs (pm_keyboard pr)) = Inr nd" for prs'
    using assms(4,5) by (auto split: if_splits)
  define dd1 where "dd1 = dd\<lparr>last_rescan_ms := de_now env, have_rescan := False,
      inotify_wd := (if inotify_fd dd \<ge> 0 \<and> inotify_wd dd < 0 then de_watch env else inotify_wd dd)\<rparr>"
  obtain prs' where p: "(if devs = [] then Inr [] else pairing_match devs (length devs)) = Inr prs'"
    using assms(4) by (cases "devs = []") auto
  obtain new rest os where rb: "rebuild env dd1 devs prs' (dd_remotes dd) = (new, rest, os)" by (metis prod_cases3)
  have r: "dd' = dd1\<lparr>dd_remotes := new\<rparr>" "ops = os @ free_all rest"
    using assms(3,6) p rb by (auto simp: daemon_devices_rescan_def dd1_def Let_def split: prod.splits)
  have "filter (\<lambda>e. rm_identity e \<noteq> []) (dd_remotes dd) = dd_remotes dd" using assms(2) by simp
  then have "named_fds (dd_remotes dd) = remotes_fds (dd_remotes dd)" by (simp add: named_fds_def)
  with rebuild_fds [OF assms(1) rb prs [OF p]] free_all_fds [of rest] show ?thesis
    by (simp add: r dd1_def)
qed

section \<open>A sample daemon\<close>

definition sample_nodes :: input_nodes where
  "sample_nodes p =
     (if p = ''/dev/input/event5'' then
        Inr \<lparr>nd_fd = 5, nd_name = Some ''LG Magic Remote'', nd_id = Some (15, 13330), nd_abs = (\<lambda>_. None)\<rparr>
      else Inl ''No such file or directory'')"

definition sample_env :: dev_env where
  "sample_env = \<lparr>de_dirs = Inr [''mice'', ''event5''], de_nodes = sample_nodes, de_open = sample_nodes,
     de_links = (\<lambda>_. None), de_sysfs = (\<lambda>_. None),
     de_uinput = (\<lambda>n. if n = ''lgmagicd keyboard unknown'' then Inr 7 else Inr 8), de_watch = 1,
     de_files = (\<lambda>_. None), de_calib = (\<lambda>_. Inl ''cannot open file''), de_now = 1000\<rparr>"

definition sample_dd :: daemon_devices where
  "sample_dd = fst (daemon_devices_init
     \<lparr>dg_global = set_defaults, config_root = ''/etc/lgmagic'', state_dir = ''/var/lib/lgmagic''\<rparr> None False 3 1)"

definition sample_kbd :: pairing_input_dev where
  "sample_kbd = \<lparr>pd_path = Some ''/dev/input/event5'', pd_name = Some ''LG Magic Remote'', pd_uniq = Some [],
     pd_vendor = 15, pd_product = 13330\<rparr>"

lemma sample_env_ok: "env_ok sample_env"
  by (auto simp: env_ok_def sample_env_def sample_nodes_def split: if_splits)

lemma sample_scan: "scan_inputs sample_env (kbd_override sample_dd) = Some [sample_kbd]"
  by code_simp

lemma sample_pairing:
  "pairing_match [sample_kbd] (length [sample_kbd]) = Inr [\<lparr>pm_uniq = [], pm_keyboard = 0, pm_imu = None\<rparr>]"
  by code_simp

lemma sample_rescan:
  "snd (snd (daemon_devices_rescan sample_env sample_dd)) = [OpUiCreate 7, OpUiCreate 8, OpOpen 5, OpGrab 5] \<and>
   fst (daemon_devices_rescan sample_env sample_dd) = None \<and>
   map (\<lambda>r. (rm_identity r, rm_kbd_path r, rm_imu_path r)) (dd_remotes (fst (snd (daemon_devices_rescan sample_env sample_dd)))) =
     [(''unknown'', ''/dev/input/event5'', [])]"
  by (intro conjI; code_simp)

lemma rescan_cases:
  assumes "daemon_devices_rescan env dd = (err, dd', ops)"
  obtains "dd_remotes dd' = dd_remotes dd" "ops = []" "dd_config dd' = dd_config dd"
  | devs prs new rest os dd1 where "rebuild env dd1 devs prs (dd_remotes dd) = (new, rest, os)"
    "no_uinput dd1 = no_uinput dd" "dd_remotes dd' = new" "ops = os @ free_all rest" "dd_config dd' = dd_config dd"
proof -
  define dd1 where "dd1 = dd\<lparr>last_rescan_ms := de_now env, have_rescan := False,
      inotify_wd := (if inotify_fd dd \<ge> 0 \<and> inotify_wd dd < 0 then de_watch env else inotify_wd dd)\<rparr>"
  have s: "dd_remotes dd1 = dd_remotes dd" "no_uinput dd1 = no_uinput dd" "dd_config dd1 = dd_config dd"
    by (simp_all add: dd1_def)
  show thesis
    using assms that s unfolding daemon_devices_rescan_def Let_def dd1_def [symmetric]
    by (auto split: option.splits sum.splits prod.splits)
qed

text \<open>
  C14: a remote is never taken over without an output: in every trace of a rescan, the grab of a
  keyboard comes right after the creation of its virtual keyboard and mouse and the opening of the node.
\<close>

theorem grab_after_virtual_pair:
  assumes "env_ok env" and "\<not> no_uinput dd" and "daemon_devices_rescan env dd = (err, dd', xs @ OpGrab fd # ys)"
  shows "\<exists>zs k m. xs = zs @ [OpUiCreate k, OpUiCreate m, OpOpen fd]"
proof -
  have "grabs_ok (xs @ OpGrab fd # ys)"
    using assms(3)
  proof (cases rule: rescan_cases)
    case (2 devs prs new rest os dd1)
    have "grabs_ok (free_all rest)"
      by (rule grabs_ok_none) (auto simp: free_all_def remote_free_no_grab split: if_splits)
    with rebuild_grabs [OF assms(1) _ 2(1)] 2(2,4) assms(2) show ?thesis by (simp add: grabs_ok_append)
  qed simp
  then show ?thesis unfolding grabs_ok_def by blast
qed

theorem grab_after_virtual_pair_witness:
  "\<exists>zs k m. [OpUiCreate 7, OpUiCreate 8, OpOpen 5] = zs @ [OpUiCreate k, OpUiCreate m, OpOpen 5]"
proof -
  have "daemon_devices_rescan sample_env sample_dd =
      (fst (daemon_devices_rescan sample_env sample_dd), fst (snd (daemon_devices_rescan sample_env sample_dd)),
       [OpUiCreate 7, OpUiCreate 8, OpOpen 5] @ OpGrab 5 # [])"
    using sample_rescan by (metis append.simps prod.collapse)
  moreover have "\<not> no_uinput sample_dd" by (simp add: sample_dd_def daemon_devices_init_def)
  ultimately show ?thesis using grab_after_virtual_pair [OF sample_env_ok] by blast
qed

lemma rebuild_identities:
  "env_ok env \<Longrightarrow> rebuild env dd devs prs old = (new, rest, ops) \<Longrightarrow>
   \<forall>r \<in> set new. daemon_identity_valid (Some (rm_identity r))"
proof (induction prs arbitrary: old new rest ops)
  case (Cons pr prs)
  define k where "k = path_of devs (pm_keyboard pr)"
  define i where "i = (case pm_imu pr of Some j \<Rightarrow> path_of devs j | None \<Rightarrow> [])"
  define identity where "identity = remote_identity (pm_uniq pr)"
  note defs = k_def [symmetric] i_def [symmetric] identity_def [symmetric]
  have v: "daemon_identity_valid (Some identity)" unfolding identity_def by (rule remote_identity_valid)
  have b: "buf_str 64 identity = identity" using identity_safe(5) [OF v] by (simp add: buf_str_def)
  have st: "rm_identity r = identity" if "steal (same_remote identity k i) old = Some (r, old')" for r old'
    using steal_fds [OF that identity_safe(4) [OF v]] by simp
  show ?case
    using Cons.prems(2) v
    by (auto simp: Let_def defs b dest!: st Cons.IH [OF Cons.prems(1)] remote_open_fds(2) [OF _ Cons.prems(1)]
        split: if_splits option.splits prod.splits bool.splits)
qed simp

text \<open>
  C25: the identities of the remotes are safe to build paths from: after any rescan they are
  addresses or the fallback name, so the device file lies directly in \<^verbatim>\<open>devices.d\<close>.
\<close>

theorem rescan_identities_safe:
  assumes "env_ok env" and "daemon_devices_rescan env dd = (err, dd', ops)"
    and "\<forall>r \<in> set (dd_remotes dd). daemon_identity_valid (Some (rm_identity r))" and "r \<in> set (dd_remotes dd')"
  shows "daemon_identity_valid (Some (rm_identity r)) \<and>
    (\<forall>p. device_path (dd_config dd') (rm_identity r) = Some p \<longrightarrow>
       (\<exists>name. p = config_root (dd_config dd') @ ''/devices.d/'' @ name \<and> CHR ''/'' \<notin> set name))"
proof -
  have v: "daemon_identity_valid (Some (rm_identity r))"
    using assms(2)
  proof (cases rule: rescan_cases)
    case 1
    then show ?thesis using assms(3,4) by simp
  next
    case (2 devs prs new rest os dd1)
    then show ?thesis using rebuild_identities [OF assms(1) 2(1)] assms(4) by simp
  qed
  have "\<exists>name. p = config_root (dd_config dd') @ ''/devices.d/'' @ name \<and> CHR ''/'' \<notin> set name"
    if "device_path (dd_config dd') (rm_identity r) = Some p" for p
    using that identity_safe(1) [OF v]
    by (intro exI [of _ "rm_identity r @ ''.toml''"])
      (auto simp: device_path_def path_join_def bind_eq_Some_conv split: if_splits)
  with v show ?thesis by blast
qed

theorem rescan_identities_safe_witness:
  "\<exists>r. dd_remotes (fst (snd (daemon_devices_rescan sample_env sample_dd))) = [r] \<and>
     daemon_identity_valid (Some (rm_identity r))"
proof -
  obtain r where r: "dd_remotes (fst (snd (daemon_devices_rescan sample_env sample_dd))) = [r]"
    using sample_rescan by (auto simp: map_eq_Cons_conv)
  have "\<forall>r \<in> set (dd_remotes sample_dd). daemon_identity_valid (Some (rm_identity r))"
    by (simp add: sample_dd_def daemon_devices_init_def)
  from rescan_identities_safe [OF sample_env_ok _ this, of _ "fst (snd (daemon_devices_rescan sample_env sample_dd))" _ r] r
  show ?thesis by (metis list.set_intros(1) prod.collapse)
qed

section \<open>Idle rescans\<close>

definition triple :: "daemon_remote \<Rightarrow> string \<times> string \<times> string" where
  "triple r = (rm_identity r, rm_kbd_path r, rm_imu_path r)"

definition pair_triple :: "pairing_input_dev list \<Rightarrow> paired_remote \<Rightarrow> string \<times> string \<times> string" where
  "pair_triple devs pr = (remote_identity (pm_uniq pr), path_of devs (pm_keyboard pr),
     case pm_imu pr of Some i \<Rightarrow> path_of devs i | None \<Rightarrow> [])"

lemma steal_head:
  assumes "list_all (\<lambda>e. rm_identity e = []) slots" and "triple r = (identity, k, i)" and "identity \<noteq> []"
  shows "steal (same_remote identity k i) (slots @ r # rs) = Some (r, slots @ stolen_slot r # rs)"
  using assms by (induction slots) (auto simp: same_remote_def triple_def)

lemma rebuild_idle:
  assumes "kbd_override dd = None"
  shows "map triple rs = map (pair_triple devs) prs \<Longrightarrow> list_all (\<lambda>e. rm_identity e = []) slots \<Longrightarrow>
    rebuild env dd devs prs (slots @ rs) = (rs, slots @ map stolen_slot rs, [])"
proof (induction prs arbitrary: rs slots)
  case (Cons pr prs)
  then obtain r rs' where rs: "rs = r # rs'" "triple r = pair_triple devs pr" "map triple rs' = map (pair_triple devs) prs"
    by (cases rs) auto
  have ne: "remote_identity (pm_uniq pr) \<noteq> []" using identity_safe(4) [OF remote_identity_valid] .
  have "list_all (\<lambda>e. rm_identity e = []) (slots @ [stolen_slot r])"
    using Cons.prems(2) by (simp add: stolen_slot_def)
  from Cons.IH [OF rs(3) this] steal_head [OF Cons.prems(2) rs(2) [unfolded pair_triple_def] ne, of rs'] assms
  show ?case by (simp add: rs(1) Let_def)
qed simp

text \<open>
  A rescan that finds what is already open leaves the remotes alone: no descriptor is opened, grabbed or closed, and
  every remote keeps its whole state (held keys and filter included).
\<close>

lemma rescan_idle:
  assumes "kbd_override dd = None" and "scan_inputs env None = Some devs" and "devs \<noteq> []"
    and "pairing_match devs (length devs) = Inr prs" and "map triple (dd_remotes dd) = map (pair_triple devs) prs"
    and "daemon_devices_rescan env dd = (err, dd', ops)"
  shows "err = None \<and> dd_remotes dd' = dd_remotes dd \<and> ops = []"
proof -
  have f: "free_all (map stolen_slot rs) = []" for rs
    by (induction rs) (auto simp: free_all_def stolen_slot_def)
  have "rebuild env d devs prs (dd_remotes dd) = (dd_remotes dd, map stolen_slot (dd_remotes dd), [])"
    if "kbd_override d = None" for d
    using rebuild_idle [OF that assms(5), of "[]"] by simp
  with assms f show ?thesis by (auto simp: daemon_devices_rescan_def Let_def)
qed

section \<open>Dispatch\<close>

lemma set_axis_fd [simp]: "ev_fd (set_axis c v dev) = ev_fd dev"
  by (simp add: set_axis_def split: prod.split)

lemma read_frame_fd:
  "read_frame_loop rs s = Some (rv, e, s', rest) \<Longrightarrow> ev_fd (fst s') = ev_fd (fst s)"
  by (induction rs s arbitrary: rv e s' rest rule: read_frame_loop.induct)
    (auto simp: frame_syn_def frame_event_def split: if_splits prod.splits)

lemma read_frame_ext_fd:
  "evdev_read_frame_ext rs dev = Some (rv, e, (dev', f), rest) \<Longrightarrow> ev_fd dev' = ev_fd dev"
  using read_frame_fd [of rs "(dev, frame_zero)"] by (simp add: evdev_read_frame_ext_def)

lemma targets_range: "t \<in> set (remote_targets rs j) \<Longrightarrow> t = TKbd j \<or> t = TImu j"
  by (auto simp: remote_targets_def split: if_splits)

lemma poll_targets_distinct: "distinct (poll_targets dd)"
proof -
  have d: "distinct (remote_targets rs j)" for rs j by (simp add: remote_targets_def)
  have "distinct (concat (map (remote_targets rs) xs))" if "distinct xs" for rs xs
    using that
  proof (induction xs)
    case (Cons x xs)
    have "set (remote_targets rs x) \<inter> set (concat (map (remote_targets rs) xs)) = {}"
      using Cons.prems by (fastforce dest: targets_range)
    with Cons d show ?case by simp
  qed simp
  moreover have "TInotify \<notin> set (remote_targets rs x)" for rs x
    by (auto dest: targets_range)
  ultimately show ?thesis by (simp add: poll_targets_def)
qed

lemma poll_target_index:
  "TKbd i \<in> set (poll_targets dd) \<Longrightarrow> i < length (dd_remotes dd)"
  "TImu i \<in> set (poll_targets dd) \<Longrightarrow> i < length (dd_remotes dd)"
  by (auto simp: poll_targets_def dest!: targets_range split: if_splits)

lemma filter_remove_nth:
  "distinct xs \<Longrightarrow> i < length xs \<Longrightarrow> filter (\<lambda>x. x \<noteq> xs ! i) xs = take i xs @ drop (Suc i) xs"
proof (induction xs arbitrary: i)
  case (Cons x xs)
  show ?case
  proof (cases i)
    case 0
    with Cons.prems show ?thesis by (auto simp: filter_id_conv)
  next
    case (Suc j)
    with Cons show ?thesis by (auto simp: in_set_conv_nth)
  qed
qed simp

lemma poll_targets_close:
  assumes "i < length (dd_remotes dd)" and "inotify_fd dd' = inotify_fd dd"
    and "dd_remotes dd' = (dd_remotes dd)[i := r]"
    and "t = TKbd i \<and> ev_fd (rm_kbd r) < 0 \<and> ev_fd (rm_imu r) = ev_fd (rm_imu (dd_remotes dd ! i)) \<or>
         t = TImu i \<and> ev_fd (rm_imu r) < 0 \<and> ev_fd (rm_kbd r) = ev_fd (rm_kbd (dd_remotes dd ! i))"
  shows "poll_targets dd' = filter (\<lambda>x. x \<noteq> t) (poll_targets dd)"
proof -
  have "remote_targets ((dd_remotes dd)[i := r]) j = filter (\<lambda>x. x \<noteq> t) (remote_targets (dd_remotes dd) j)"
    if "j < length (dd_remotes dd)" for j
    using assms(1,4) that by (cases "j = i") (auto simp: remote_targets_def)
  then have "concat (map (remote_targets ((dd_remotes dd)[i := r])) [0..<length (dd_remotes dd)]) =
      concat (map (\<lambda>j. filter (\<lambda>x. x \<noteq> t) (remote_targets (dd_remotes dd) j)) [0..<length (dd_remotes dd)])"
    by (intro arg_cong [where f = concat] map_cong) simp_all
  moreover have "t \<noteq> TInotify" using assms(4) by auto
  ultimately show ?thesis
    by (simp add: poll_targets_def assms(2,3) filter_concat o_def)
qed

lemma handle_closed:
  assumes "handle_kbd reads ok stop now dd i = Some (- 1, dd', ops) \<and> t = TKbd i \<or>
      handle_imu reads ok stop now dd i = Some (- 1, dd', ops) \<and> t = TImu i"
    and "i < length (dd_remotes dd)"
  shows "poll_targets dd' = filter (\<lambda>x. x \<noteq> t) (poll_targets dd) \<and> have_rescan dd' \<and> rescan_due_ms dd' = now"
proof -
  have c: "ev_fd (evdev_close d) < 0" for d by (simp add: evdev_close_def)
  from assms(1) show ?thesis
  proof
    assume h: "handle_kbd reads ok stop now dd i = Some (- 1, dd', ops) \<and> t = TKbd i"
    then obtain dev where dd': "dd' = schedule_rescan now 0
        (dd\<lparr>dd_remotes := (dd_remotes dd)[i := (dd_remotes dd ! i)\<lparr>rm_kbd := evdev_close dev\<rparr>]\<rparr>)"
      by (auto simp: handle_kbd_def Let_def split: option.splits prod.splits if_splits)
    show ?thesis
      using poll_targets_close [OF assms(2), of dd' _ t] h c by (simp add: dd' schedule_rescan_def)
  next
    assume h: "handle_imu reads ok stop now dd i = Some (- 1, dd', ops) \<and> t = TImu i"
    then obtain dev where dd': "dd' = schedule_rescan now 0
        (dd\<lparr>dd_remotes := (dd_remotes dd)[i := (dd_remotes dd ! i)\<lparr>rm_imu := evdev_close dev\<rparr>]\<rparr>)"
      by (auto simp: handle_imu_def Let_def split: option.splits prod.splits if_splits)
    show ?thesis
      using poll_targets_close [OF assms(2), of dd' _ t] h c by (simp add: dd' schedule_rescan_def)
  qed
qed

lemma devices_handle_closed:
  assumes "idx < length (poll_targets dd)" and "daemon_devices_handle reads ok stop dead now dd idx = Some (- 1, dd', ops)"
  shows "poll_targets dd' = take idx (poll_targets dd) @ drop (Suc idx) (poll_targets dd) \<and>
    have_rescan dd' \<and> rescan_due_ms dd' = now"
proof -
  define t where "t = poll_targets dd ! idx"
  have mem: "t \<in> set (poll_targets dd)" using assms(1) by (simp add: t_def)
  obtain i where "t = TKbd i \<or> t = TImu i" "i < length (dd_remotes dd)"
    using assms mem poll_target_index by (cases t) (auto simp: daemon_devices_handle_def t_def [symmetric])
  then have "poll_targets dd' = filter (\<lambda>x. x \<noteq> t) (poll_targets dd) \<and> have_rescan dd' \<and> rescan_due_ms dd' = now"
    using assms handle_closed [of "reads (ev_fd (rm_kbd (dd_remotes dd ! i)))" ok stop now dd i dd' ops t]
      handle_closed [of "reads (ev_fd (rm_imu (dd_remotes dd ! i)))" ok stop now dd i dd' ops t]
    by (auto simp: daemon_devices_handle_def t_def [symmetric])
  with filter_remove_nth [OF poll_targets_distinct assms(1)] show ?thesis by (simp add: t_def)
qed

text \<open>
  Closing a lost device shifts the dispatch: after \<^verbatim>\<open>daemon_devices_handle\<close> has closed the device at an index, every
  later index of the same poll round names the device after the one that was polled there.
\<close>

lemma handle_close_shifts:
  assumes "idx < length (poll_targets dd)" and "daemon_devices_handle reads ok stop dead now dd idx = Some (- 1, dd', ops)"
    and "idx < j" and "Suc j < length (poll_targets dd)"
  shows "poll_targets dd' ! j = poll_targets dd ! Suc j \<and> poll_targets dd' ! j \<noteq> poll_targets dd ! j"
proof -
  have "poll_targets dd' ! j = poll_targets dd ! Suc j"
    using devices_handle_closed [OF assms(1,2)] assms(3,4) by (simp add: nth_append)
  then show ?thesis using poll_targets_distinct [of dd] assms(4) by (simp add: nth_eq_iff_index_eq)
qed

section \<open>When the next rescan is due\<close>

text \<open>
  The poll timeout is the time to the scheduled rescan or to the polling fallback two seconds after the last
  one, whichever is earlier, and never negative.
\<close>

lemma rescan_delay_spec:
  "daemon_devices_rescan_delay_ms dd now =
     (let fallback = max 0 (last_rescan_ms dd + 2000 - now)
      in if have_rescan dd then min fallback (max 0 (rescan_due_ms dd - now)) else fallback)"
  by (auto simp: daemon_devices_rescan_delay_ms_def RESCAN_INTERVAL_MS_def Let_def)

text \<open>
  A lost device is looked for again at once: once a dispatch has closed a device, the main loop's
  timeout is zero, so the next iteration rescans.
\<close>

lemma lost_device_rescans_now:
  assumes "idx < length (poll_targets dd)" and "daemon_devices_handle reads ok stop dead now dd idx = Some (- 1, dd', ops)"
    and "now \<le> t"
  shows "daemon_devices_rescan_delay_ms dd' t = 0"
  using devices_handle_closed [OF assms(1,2)] assms(3)
  by (auto simp: daemon_devices_rescan_delay_ms_def Let_def)

text \<open>
  A keyboard that vanishes between the scan and its opening has its virtual devices closed twice: the failing
  \<^verbatim>\<open>remote_open\<close> frees the remote and the rescan frees it again.
\<close>

lemma vanished_keyboard_closed_twice:
  assumes "de_uinput env (''lgmagicd keyboard '' @ remote_identity (pm_uniq pr)) = Inr k" and "0 \<le> k"
    and "de_uinput env (''lgmagicd mouse '' @ remote_identity (pm_uniq pr)) = Inr m" and "0 \<le> m"
    and "de_open env (path_of devs (pm_keyboard pr)) = Inl e" and "\<not> no_uinput dd" and "kbd_override dd = None"
  shows "rebuild env dd devs [pr] [] =
    ([], [], [OpUiCreate k, OpUiCreate m, OpUiClose k, OpUiClose m, OpUiClose k, OpUiClose m])"
proof -
  have b: "buf_str 64 (remote_identity u) = remote_identity u" for u
    using identity_safe(5) [OF remote_identity_valid, of u] by (simp add: buf_str_def)
  show ?thesis
    using assms
    by (simp add: Let_def remote_open_def remote_uinput_open_def remote_zero_def b evdev_find_keyboard_def
        open_probe_def remote_free_def close_ops_def evdev_close_def evdev_zero_def uinput_close_def)
qed

end
