(* ===== verification/Daemon_Config_Correct.thy ===== *)
theory Daemon_Config_Correct
  imports Daemon_Config Toml_Text
begin

text \<open>
  The files of the daemon: a write is atomic whatever call fails and wherever it is cut off, a
  saved device configuration loads back, and \<^verbatim>\<open>state.toml\<close> is a keyed store of the active
  profiles (the interpretation \<open>st\<close>).
\<close>

section \<open>Atomic writes\<close>

lemma fill_states_elem:
  "s \<in> set (fill_states fs tmp doc n) \<Longrightarrow> \<exists>c. s = fs(tmp \<mapsto> c)"
  by (auto simp: fill_states_def)

lemma path_join_tmp: "path_join n path ''.tmp'' = Some tmp \<Longrightarrow> tmp = path @ ''.tmp''"
  by (simp add: path_join_def split: if_splits)

lemma atomic_write_states:
  assumes "atomic_write_file fault path doc fs = (res, trace)" and "s \<in> set trace"
  shows "(s path = fs path \<or> s path = Some doc) \<and>
    (\<forall>q. q \<noteq> path \<longrightarrow> q \<noteq> path @ ''.tmp'' \<longrightarrow> s q = fs q)"
proof (cases "path_join 4096 path ''.tmp''")
  case None
  with assms show ?thesis by (auto simp: atomic_write_file_def)
next
  case (Some tmp)
  have t: "tmp = path @ ''.tmp''" using path_join_tmp [OF Some] .
  define base where "base = fs(tmp := None)"
  from assms have "s = fs \<or> s = base \<or> (\<exists>c. s = base(tmp \<mapsto> c)) \<or> s = base(path \<mapsto> doc)"
    unfolding atomic_write_file_def Some option.case Let_def base_def [symmetric]
    by (auto dest!: fill_states_elem split: io_fault.splits if_splits)
  then show ?thesis by (auto simp: base_def t)
qed

text \<open>
  C8: a write of a file is atomic. At every moment, also when a call fails or the machine stops in
  between, the file has its old contents or the complete new ones, and no other file but
  the temporary one is touched.
\<close>

theorem atomic_write_crash_safe:
  assumes "atomic_write_file fault path doc fs = (res, trace)" and "s \<in> set trace"
  shows "(s path = fs path \<or> s path = Some doc) \<and>
    (\<forall>q. q \<noteq> path \<longrightarrow> q \<noteq> path @ ''.tmp'' \<longrightarrow> s q = fs q)"
  using assms by (rule atomic_write_states)

lemma sample_write_trace:
  "snd (atomic_write_file (WriteFails 1 ''No space left'') ''f'' ''ab'' (Map.empty(''f'' \<mapsto> ''old''))) =
   [Map.empty(''f'' \<mapsto> ''old''), Map.empty(''f'' \<mapsto> ''old'', ''f.tmp'' \<mapsto> []),
    Map.empty(''f'' \<mapsto> ''old'', ''f.tmp'' \<mapsto> ''a''), Map.empty(''f'' \<mapsto> ''old'')]"
proof -
  have "(Map.empty(''f'' \<mapsto> ''old''))(''f.tmp'' := None) = Map.empty(''f'' \<mapsto> ''old'')" by auto
  then show ?thesis by (simp add: atomic_write_file_def path_join_def fill_states_def Let_def)
qed

theorem atomic_write_crash_safe_witness:
  "Map.empty(''f'' \<mapsto> ''old'', ''f.tmp'' \<mapsto> ''a'') \<in>
     set (snd (atomic_write_file (WriteFails 1 ''No space left'') ''f'' ''ab'' (Map.empty(''f'' \<mapsto> ''old'')))) \<and>
   (Map.empty(''f'' \<mapsto> ''old'', ''f.tmp'' \<mapsto> ''a'')) ''f'' \<in> {Some ''old'', Some ''ab''}"
  (is "?s \<in> set (snd ?w) \<and> _")
proof -
  have s: "?s \<in> set (snd ?w)" unfolding sample_write_trace by simp
  from atomic_write_crash_safe [OF surjective_pairing s] s show ?thesis by simp
qed

lemma atomic_write_last:
  assumes "atomic_write_file fault path doc fs = (res, trace)"
  shows "if res = None then last trace = (fs(path @ ''.tmp'' := None))(path \<mapsto> doc)
    else last trace path = fs path"
proof (cases "path_join 4096 path ''.tmp''")
  case None
  with assms show ?thesis by (auto simp: atomic_write_file_def)
next
  case (Some tmp)
  have t: "tmp = path @ ''.tmp''" using path_join_tmp [OF Some] .
  then have "tmp \<noteq> path" by simp
  with assms show ?thesis
    unfolding atomic_write_file_def Some option.case Let_def t [symmetric]
    by (auto split: io_fault.splits if_splits)
qed

text \<open>
  The result code tells what is on disk: success means the new contents and no temporary file,
  an error means the old contents.
\<close>

theorem atomic_write_result:
  assumes "atomic_write_file fault path doc fs = (res, trace)"
  shows "if res = None then last trace = (fs(path @ ''.tmp'' := None))(path \<mapsto> doc)
    else last trace path = fs path"
  using assms by (rule atomic_write_last)

theorem atomic_write_result_witness:
  "\<exists>tr. atomic_write_file NoFault ''f'' ''ab'' (Map.empty(''f.tmp'' \<mapsto> ''stale'')) = (None, tr) \<and>
     last tr ''f'' = Some ''ab'' \<and> last tr ''f.tmp'' = None"
proof -
  obtain tr where "atomic_write_file NoFault ''f'' ''ab'' (Map.empty(''f.tmp'' \<mapsto> ''stale'')) = (None, tr)"
    by (simp add: atomic_write_file_def path_join_def Let_def)
  from atomic_write_result [OF this] this show ?thesis by auto
qed

lemma write_in_dir_ok:
  assumes "write_in_dir env dir path doc fs = (None, trace)"
  shows "last trace path = Some doc"
proof -
  have "atomic_write_file (env_fault env) path doc fs = (None, trace)"
    using assms by (simp add: write_in_dir_def split: option.splits)
  from atomic_write_last [OF this] show ?thesis by simp
qed

lemma atomic_write_trace_ne: "snd (atomic_write_file fault path doc fs) \<noteq> []"
  by (auto simp: atomic_write_file_def Let_def split: option.split io_fault.split)

lemma write_in_dir_last:
  assumes "write_in_dir env dir path doc fs = (res, trace)"
  shows "(res = None \<longrightarrow> last trace path = Some doc) \<and> (res \<noteq> None \<longrightarrow> last trace path = fs path) \<and>
    (\<forall>q. q \<noteq> path \<longrightarrow> q \<noteq> path @ ''.tmp'' \<longrightarrow> last trace q = fs q)"
proof (cases "mkdir_p env dir")
  case None
  with assms have w: "atomic_write_file (env_fault env) path doc fs = (res, trace)" by (simp add: write_in_dir_def)
  then have "trace \<noteq> []" using atomic_write_trace_ne by (metis snd_conv)
  then have "last trace \<in> set trace" by simp
  from atomic_write_states [OF w this] atomic_write_last [OF w] show ?thesis by (simp split: if_splits)
next
  case (Some e)
  with assms show ?thesis by (auto simp: write_in_dir_def)
qed

section \<open>Device files\<close>

lemma depth_scalars: "list_all (\<lambda>(k, v). \<not> is_table v) kvs \<Longrightarrow> depth_ok d kvs \<and> scalars_first kvs = kvs"
proof (induction kvs)
  case (Cons kv kvs)
  then show ?case by (cases kv; cases "snd kv") (auto simp: scalars_first_def)
qed (simp add: scalars_first_def)

lemma map_members_scalar: "list_all (\<lambda>(k, v). \<not> is_table v) (map_members m)"
  by (auto simp: map_members_def list_all_iff)

lemma profile_members_written:
  "scalars_first (profile_members p) = profile_members p \<and> (d < 61 \<longrightarrow> depth_ok d (profile_members p))"
  using depth_scalars [OF map_members_scalar [of "pr_map p"], of "Suc d"]
  by (auto simp: profile_members_def scalars_first_def TOML_MAX_DEPTH_def)

lemma profiles_written:
  "table_members (map (\<lambda>p. (pr_name p, TTable (profile_members p))) ps) =
     map (\<lambda>p. (pr_name p, TTable (profile_members p))) ps \<and>
   depth_ok 1 (map (\<lambda>p. (pr_name p, TTable (profile_members p))) ps) \<and>
   scalars (map (\<lambda>p. (pr_name p, TTable (profile_members p))) ps) = []"
proof (induction ps)
  case (Cons p ps)
  then show ?case
    using profile_members_written [of p 2]
    by (simp add: scalars_first_def [of "profile_members p"] TOML_MAX_DEPTH_def numeral_2_eq_2)
qed simp

lemma dc_members_written: "scalars_first (dc_members dc) = dc_members dc \<and> depth_ok 0 (dc_members dc)"
  using profiles_written [of "dc_profiles dc"]
  by (auto simp: dc_members_def scalars_first_def TOML_MAX_DEPTH_def split: option.split)

definition dc_savable :: "device_config \<Rightarrow> bool" where
  "dc_savable dc \<longleftrightarrow> dc_storable dc \<and> toml_members_ok (dc_members dc)"

lemma dc_text:
  assumes "dc_savable dc"
  shows "\<exists>doc. toml_dumps (device_config_to_toml dc) = Some doc \<and>
    device_config_load_file path (Some doc) device_config_init = (0, None, dc)"
proof -
  have st: "dc_storable dc" and ok: "toml_members_ok (dc_members dc)" using assms by (auto simp: dc_savable_def)
  obtain doc where d: "toml_dumps (Some (TTable (dc_members dc))) = Some doc"
    and p: "toml_parse doc = Inr (TTable (dc_members dc))"
    using toml_text_exists [OF ok] dc_members_written by auto
  have "device_config_from_toml (Some (TTable (dc_members dc))) device_config_init = (None, dc)"
    using device_config_members [OF st] .
  with d p dc_to_toml_members [OF st] show ?thesis by (simp add: device_config_load_file_def)
qed


definition sample_dcf :: daemon_config where
  "sample_dcf = \<lparr>dg_global = set_defaults, config_root = ''/etc/lgmagic'', state_dir = ''/var/lib/lgmagic''\<rparr>"

definition io_ok :: io_env where
  "io_ok = \<lparr>env_mkdir = \<lambda>_. None, env_fault = NoFault\<rparr>"

lemma mkdir_io_ok [simp]: "mkdir_p io_ok dir = None"
proof -
  have "find (\<lambda>p. False) xs = None" for xs :: "string list" by (induction xs) auto
  then show ?thesis by (simp add: mkdir_p_def io_ok_def)
qed

definition sample_dc :: device_config where
  "sample_dc = device_config_init\<lparr>dc_profile := ''tv'', dc_calib := Some ''/c.json'',
     dc_profiles := [(profile_init ''tv'')\<lparr>pr_map := [(28, 272)], has_sens := True, sensitivity := dlit 5 1\<rparr>]\<rparr>"

lemma sample_dc_savable: "dc_savable sample_dc"
  by code_simp

lemma sample_paths:
  "state_path sample_dcf = Some ''/var/lib/lgmagic/state.toml''"
  "device_path sample_dcf ''unknown'' = Some ''/etc/lgmagic/devices.d/unknown.toml''"
  "path_join 4096 (config_root sample_dcf) ''/devices.d'' = Some ''/etc/lgmagic/devices.d''"
  "path_join 4096 ''/etc/lgmagic/devices.d/unknown.toml'' ''.tmp'' = Some ''/etc/lgmagic/devices.d/unknown.toml.tmp''"
  by (simp_all add: sample_dcf_def state_path_def device_path_def path_join_def)


section \<open>The active profiles\<close>

text \<open>
  The \<^verbatim>\<open>state.toml\<close> files the daemon produces: the tree can be written again and every device
  entry is a table.
\<close>

definition state_tree_ok :: "(string \<times> toml_value) list \<Rightarrow> bool" where
  "state_tree_ok kvs \<longleftrightarrow> toml_members_ok kvs \<and> depth_ok 0 kvs \<and>
     (case map_of kvs ''devices'' of
        None \<Rightarrow> True
      | Some (TTable ds) \<Rightarrow> list_all (\<lambda>(k, v). is_table v) ds
      | Some _ \<Rightarrow> False)"

definition state_inv :: "daemon_config \<Rightarrow> files \<Rightarrow> bool" where
  "state_inv dcf fs \<longleftrightarrow> (\<exists>sp. state_path dcf = Some sp \<and> path_join 4096 sp ''.tmp'' \<noteq> None \<and>
     (case toml_load_file fs sp of Some (TTable kvs) \<Rightarrow> state_tree_ok kvs | _ \<Rightarrow> True))"

definition state_get :: "daemon_config \<Rightarrow> files \<Rightarrow> string \<Rightarrow> string option" where
  "state_get dcf fs identity =
     Option.bind (state_path dcf) (\<lambda>sp. state_profile_of (toml_load_file fs sp) identity)"

definition state_put :: "daemon_config \<Rightarrow> files \<Rightarrow> string \<Rightarrow> string \<Rightarrow> files" where
  "state_put dcf fs identity profile = last (snd (daemon_config_save_profile io_ok dcf identity profile fs))"

definition entry_ok :: "string \<Rightarrow> string \<Rightarrow> bool" where
  "entry_ok identity profile \<longleftrightarrow> cstring identity \<and> cstring profile"

lemma members_ok_put:
  assumes "toml_members_ok kvs" and "cstring k"
    and "case v of TTable sub \<Rightarrow> toml_members_ok sub | _ \<Rightarrow> toml_scalar_ok v"
  shows "toml_members_ok (put_assoc k v kvs)"
  using assms(1)
proof (induction kvs)
  case Nil
  with assms(2,3) show ?case by (simp add: members_ok_cons)
next
  case (Cons kv kvs)
  have "fst ` set (put_assoc k v kvs) \<subseteq> insert k (fst ` set kvs)"
    using set_put_assoc_subset [of k v kvs] by auto
  with Cons assms(2,3) show ?case by (cases kv) (auto simp: members_ok_cons)
qed

lemma depth_ok_put:
  assumes "depth_ok d kvs" and "case v of TTable sub \<Rightarrow> Suc d < TOML_MAX_DEPTH \<and> depth_ok (Suc d) sub | _ \<Rightarrow> True"
  shows "depth_ok d (put_assoc k v kvs)"
  using assms set_put_assoc_subset [of k v kvs] unfolding depth_ok_iff [of d] by fast

lemma members_ok_lookup:
  "toml_members_ok kvs \<Longrightarrow> map_of kvs k = Some (TTable sub) \<Longrightarrow> toml_members_ok sub"
proof (induction kvs)
  case (Cons kv kvs)
  then show ?case by (cases kv) (auto simp: members_ok_cons split: if_splits)
qed simp

lemma depth_ok_lookup:
  "depth_ok d kvs \<Longrightarrow> map_of kvs k = Some (TTable sub) \<Longrightarrow> depth_ok (Suc d) sub"
  using depth_ok_iff [of d kvs] by (fastforce dest: map_of_SomeD)

text \<open>A subtable, empty when it is missing.\<close>

definition sub_of :: "(string \<times> toml_value) list \<Rightarrow> string \<Rightarrow> (string \<times> toml_value) list" where
  "sub_of kvs k = (case map_of kvs k of Some (TTable sub) \<Rightarrow> sub | _ \<Rightarrow> [])"

lemma sub_of_ok:
  "toml_members_ok kvs \<Longrightarrow> toml_members_ok (sub_of kvs k)"
  "depth_ok d kvs \<Longrightarrow> depth_ok (Suc d) (sub_of kvs k)"
  by (auto simp: sub_of_def dest: members_ok_lookup depth_ok_lookup split: option.split toml_value.split)

lemma put_assoc_new: "k \<notin> fst ` set kvs \<Longrightarrow> put_assoc k v kvs = kvs @ [(k, v)] \<and> put_assoc k v (kvs @ [(k, w)]) = kvs @ [(k, v)]"
  by (induction kvs) auto

lemma get_or_add_table_spec:
  assumes "case map_of kvs k of None \<Rightarrow> True | Some v \<Rightarrow> is_table v"
  shows "\<exists>kvs1. get_or_add_table kvs k = Some (kvs1, sub_of kvs k) \<and>
    (\<forall>v. put_assoc k v kvs1 = put_assoc k v kvs)"
proof (cases "map_of kvs k")
  case None
  then have "k \<notin> fst ` set kvs" by (simp add: map_of_eq_None_iff)
  with None put_assoc_new [OF this] show ?thesis
    by (simp add: get_or_add_table_def toml_table_get_short_def toml_table_add_def sub_of_def)
next
  case (Some v)
  with assms show ?thesis
    by (cases v) (simp_all add: get_or_add_table_def toml_table_get_short_def sub_of_def)
qed

definition state_tree :: "(string \<times> toml_value) list \<Rightarrow> string \<Rightarrow> string \<Rightarrow> (string \<times> toml_value) list" where
  "state_tree kvs identity profile =
     (let devs = sub_of kvs ''devices''
      in put_assoc ''devices'' (TTable (put_assoc identity
           (TTable (put_assoc ''profile'' (TStr profile) (sub_of devs identity))) devs)) kvs)"

lemma devices_tables:
  assumes "state_tree_ok kvs"
  shows "case map_of kvs ''devices'' of None \<Rightarrow> True | Some v \<Rightarrow> is_table v"
    and "list_all (\<lambda>(k, v). is_table v) (sub_of kvs ''devices'')"
  using assms by (auto simp: state_tree_ok_def sub_of_def split: option.splits toml_value.splits)

lemma state_update_tree:
  assumes "state_tree_ok kvs" and "loaded = Some (TTable kvs) \<or> loaded = None \<and> kvs = [(''version'', TInt 2)]"
  shows "state_update loaded identity profile = Some (state_tree kvs identity profile)"
proof -
  define devs where "devs = sub_of kvs ''devices''"
  have "case map_of devs identity of None \<Rightarrow> True | Some v \<Rightarrow> is_table v"
    using devices_tables(2) [OF assms(1)] by (auto simp: devs_def list_all_iff split: option.split dest: map_of_SomeD)
  then obtain devs1 where 2: "get_or_add_table devs identity = Some (devs1, sub_of devs identity)"
    "\<And>v. put_assoc identity v devs1 = put_assoc identity v devs"
    using get_or_add_table_spec by blast
  obtain kvs1 where 1: "get_or_add_table kvs ''devices'' = Some (kvs1, devs)"
    "\<And>v. put_assoc ''devices'' v kvs1 = put_assoc ''devices'' v kvs"
    unfolding devs_def using get_or_add_table_spec [OF devices_tables(1) [OF assms(1)]] by blast
  have "(case loaded of Some (TTable kvs) \<Rightarrow> kvs | _ \<Rightarrow> [(''version'', TInt 2)]) = kvs"
    using assms(2) by auto
  with 1 2 show ?thesis
    by (simp add: state_update_def state_tree_def table_set_str_def toml_new_str_def Let_def devs_def [symmetric])
qed

lemma list_all_put: "list_all (\<lambda>(k, v). P v) kvs \<Longrightarrow> P v \<Longrightarrow> list_all (\<lambda>(k, v). P v) (put_assoc k v kvs)"
  using set_put_assoc_subset [of k v kvs] by (fastforce simp: list_all_iff)

lemma state_tree_ok_update:
  assumes "state_tree_ok kvs" and "entry_ok identity profile"
  shows "state_tree_ok (state_tree kvs identity profile)"
proof -
  define devs where "devs = sub_of kvs ''devices''"
  define dev where "dev = put_assoc ''profile'' (TStr profile) (sub_of devs identity)"
  have m: "toml_members_ok kvs" and d: "depth_ok 0 kvs" using assms(1) by (auto simp: state_tree_ok_def)
  have c: "cstring identity" "cstring profile" "cstring ''devices''" "cstring ''profile''"
    using assms(2) by (auto simp: entry_ok_def cstring_def)
  have "toml_members_ok dev" "depth_ok 2 dev"
    using sub_of_ok(1) [OF sub_of_ok(1) [OF m]] sub_of_ok(2) [OF sub_of_ok(2) [OF d]] c
    by (auto simp: dev_def devs_def numeral_2_eq_2 intro!: members_ok_put depth_ok_put)
  then have "toml_members_ok (put_assoc identity (TTable dev) devs)" "depth_ok 1 (put_assoc identity (TTable dev) devs)"
    using sub_of_ok(1) [OF m] sub_of_ok(2) [OF d] c
    by (auto simp: devs_def TOML_MAX_DEPTH_def numeral_2_eq_2 intro!: members_ok_put depth_ok_put)
  then have "toml_members_ok (state_tree kvs identity profile)" "depth_ok 0 (state_tree kvs identity profile)"
    using m d c
    by (auto simp: state_tree_def Let_def devs_def [symmetric] dev_def [symmetric] TOML_MAX_DEPTH_def
        intro!: members_ok_put depth_ok_put)
  moreover have "list_all (\<lambda>(k, v). is_table v) (put_assoc identity (TTable dev) devs)"
    using devices_tables(2) [OF assms(1)] by (auto simp: devs_def intro!: list_all_put)
  ultimately show ?thesis
    unfolding state_tree_ok_def by (simp add: state_tree_def Let_def devs_def dev_def)
qed

lemma toml_table_get_profile: "toml_table_get (Some (TTable dev)) ''profile'' = map_of dev ''profile''"
proof -
  have "path_segment ''profile'' = Some (''profile'', [])" by code_simp
  then show ?thesis
    by (simp add: toml_table_get.simps toml_table_get_short_def split: option.split)
qed

lemma state_profile_of_tree:
  "state_profile_of (Some (TTable kvs)) identity =
     (case map_of (sub_of kvs ''devices'') identity of
        Some (TTable dev) \<Rightarrow> (case map_of dev ''profile'' of Some (TStr s) \<Rightarrow> Some s | _ \<Rightarrow> None)
      | _ \<Rightarrow> None)"
proof (cases "map_of (sub_of kvs ''devices'') identity")
  case None
  then show ?thesis
    by (auto simp: state_profile_of_def sub_of_def toml_table_get_short_def Let_def
        split: option.splits toml_value.splits)
next
  case (Some v)
  then have "state_profile_of (Some (TTable kvs)) identity = toml_table_get_str (Some v) ''profile'' None"
    by (auto simp: state_profile_of_def sub_of_def toml_table_get_short_def Let_def
        split: option.splits toml_value.splits)
  with Some show ?thesis
    by (cases v) (simp_all add: toml_table_get_str_def toml_table_get_profile toml_table_get.simps [of "Some (TStr _)"]
        toml_table_get.simps [of "Some (TInt _)"] toml_table_get.simps [of "Some (TFloat _)"]
        toml_table_get.simps [of "Some (TBool _)"] toml_table_get.simps [of "Some (TArr _)"])
qed

lemma state_profile_of_update:
  "state_profile_of (Some (TTable (state_tree kvs identity profile))) k =
     (if k = identity then Some profile else state_profile_of (Some (TTable kvs)) k)"
  unfolding state_profile_of_tree by (simp add: state_tree_def Let_def sub_of_def [of "put_assoc _ _ _"])

lemma state_profile_of_reordered:
  assumes "toml_members_ok kvs"
  shows "state_profile_of (Some (TTable (scalars_first kvs))) k = state_profile_of (Some (TTable kvs)) k"
proof -
  have l: "map_of (scalars_first xs) j = map_option reordered (map_of xs j)" if "toml_members_ok xs" for xs j
    using map_of_scalars_first [OF members_ok_distinct [OF that]] .
  have sub: "sub_of (scalars_first kvs) ''devices'' = scalars_first (sub_of kvs ''devices'')"
    using l [OF assms, of "''devices''"]
    by (auto simp: sub_of_def scalars_first_def [of "[]"] split: option.split toml_value.split)
  have d: "toml_members_ok (sub_of kvs ''devices'')" using assms by (rule sub_of_ok)
  show ?thesis
  proof (cases "\<exists>dev. map_of (sub_of kvs ''devices'') k = Some (TTable dev)")
    case True
    then obtain dev where dev: "map_of (sub_of kvs ''devices'') k = Some (TTable dev)" by blast
    have "toml_members_ok dev" using members_ok_lookup [OF d dev] .
    from l [OF this, of "''profile''"] dev l [OF d, of k] show ?thesis
      unfolding state_profile_of_tree sub by (auto split: option.split toml_value.split)
  next
    case False
    with l [OF d, of k] show ?thesis
      unfolding state_profile_of_tree sub by (auto split: option.split toml_value.split)
  qed
qed

lemma state_tree_ok_reordered:
  assumes "state_tree_ok kvs"
  shows "state_tree_ok (scalars_first kvs)"
proof -
  have m: "toml_members_ok kvs" using assms by (simp add: state_tree_ok_def)
  have "list_all (\<lambda>(k, v). is_table v) (scalars_first ds)" if "list_all (\<lambda>(k, v). is_table v) ds" for ds
  proof -
    have "list_all (\<lambda>(k, v). is_table v) (table_members ds)"
      by (induction ds rule: table_members.induct) auto
    moreover have "scalars ds = []" using that by (auto simp: list_all_iff filter_empty_conv)
    ultimately show ?thesis by (simp add: scalars_first_def)
  qed
  with assms map_of_scalars_first [OF members_ok_distinct [OF m], of "''devices''"] show ?thesis
    by (auto simp: state_tree_ok_def scalars_first_members_ok scalars_first_depth
        split: option.splits toml_value.splits)
qed

lemma state_file_tree:
  assumes "state_inv dcf fs" and "state_path dcf = Some sp"
  obtains kvs where "state_tree_ok kvs"
    and "toml_load_file fs sp = Some (TTable kvs) \<or> toml_load_file fs sp = None \<and> kvs = [(''version'', TInt 2)]"
    and "\<And>k. state_get dcf fs k = state_profile_of (Some (TTable kvs)) k"
proof (cases "toml_load_file fs sp")
  case None
  have "state_tree_ok [(''version'', TInt 2)]" by code_simp
  moreover have "state_profile_of (Some (TTable [(''version'', TInt 2)])) k = state_get dcf fs k" for k
    unfolding state_profile_of_tree state_get_def assms(2) by (simp add: None sub_of_def state_profile_of_def toml_table_get_short_def)
  ultimately show ?thesis using that [of "[(''version'', TInt 2)]"] None by simp
next
  case (Some t)
  then obtain doc where "toml_parse doc = Inr t" by (auto simp: toml_load_file_def split: option.splits sum.splits)
  then obtain kvs where t: "t = TTable kvs" using toml_parse_table by blast
  with Some assms have "state_tree_ok kvs" by (auto simp: state_inv_def)
  with that [of kvs] Some assms(2) show ?thesis by (simp add: t state_get_def)
qed

lemma save_profile_effect:
  assumes "state_inv dcf fs" and "entry_ok identity profile" and "state_path dcf = Some sp"
  obtains kvs where "state_tree_ok kvs"
    and "toml_load_file (state_put dcf fs identity profile) sp = Some (TTable kvs)"
    and "\<And>k. state_profile_of (Some (TTable kvs)) k = (if k = identity then Some profile else state_get dcf fs k)"
proof -
  obtain old where old: "state_tree_ok old" and ld: "toml_load_file fs sp = Some (TTable old) \<or>
      toml_load_file fs sp = None \<and> old = [(''version'', TInt 2)]"
    and get: "\<And>k. state_get dcf fs k = state_profile_of (Some (TTable old)) k"
    using state_file_tree [OF assms(1,3)] by blast
  define new where "new = state_tree old identity profile"
  have ok: "state_tree_ok new" unfolding new_def using state_tree_ok_update [OF old assms(2)] .
  then have m: "toml_members_ok new" and "depth_ok 0 new" by (auto simp: state_tree_ok_def)
  then obtain doc where doc: "toml_dumps (Some (TTable new)) = Some doc" "toml_parse doc = Inr (TTable (scalars_first new))"
    using toml_text_exists by blast
  obtain tmp where "path_join 4096 sp ''.tmp'' = Some tmp" using assms(1,3) by (auto simp: state_inv_def)
  then have "write_in_dir io_ok (state_dir dcf) sp doc fs =
      (None, snd (write_in_dir io_ok (state_dir dcf) sp doc fs))"
    by (simp add: write_in_dir_def atomic_write_file_def io_ok_def [THEN arg_cong [where f = env_fault]] Let_def)
  from write_in_dir_ok [OF this] have "state_put dcf fs identity profile sp = Some doc"
    using state_update_tree [OF old ld, of identity profile] doc(1)
    by (simp add: state_put_def daemon_config_save_profile_def assms(3) new_def)
  then have "toml_load_file (state_put dcf fs identity profile) sp = Some (TTable (scalars_first new))"
    by (simp add: toml_load_file_def doc(2))
  moreover have "state_profile_of (Some (TTable (scalars_first new))) k =
      (if k = identity then Some profile else state_get dcf fs k)" for k
    unfolding state_profile_of_reordered [OF m] get by (simp add: new_def state_profile_of_update)
  ultimately show ?thesis using that state_tree_ok_reordered [OF ok] by blast
qed

interpretation st: keyed_store "state_get dcf" "state_put dcf" "state_inv dcf" entry_ok for dcf
proof
  fix fs identity profile k
  assume inv: "state_inv dcf fs" and ok: "entry_ok identity profile"
  obtain sp where sp: "state_path dcf = Some sp" using inv by (auto simp: state_inv_def)
  obtain kvs where kvs: "state_tree_ok kvs" "toml_load_file (state_put dcf fs identity profile) sp = Some (TTable kvs)"
    "\<And>k. state_profile_of (Some (TTable kvs)) k = (if k = identity then Some profile else state_get dcf fs k)"
    using save_profile_effect [OF inv ok sp] by blast
  then show "state_get dcf (state_put dcf fs identity profile) k = (if k = identity then Some profile else state_get dcf fs k)"
    by (simp add: state_get_def sp)
  show "state_inv dcf (state_put dcf fs identity profile)"
    using inv kvs sp by (auto simp: state_inv_def)
qed

text \<open>
  C21: after any sequence of profile changes, each device has the profile set last, and a
  device that was not changed keeps the one it had.
\<close>

theorem save_profile_sequence:
  assumes "state_inv dcf fs" and "list_all (\<lambda>(identity, profile). entry_ok identity profile) changes"
  shows "state_get dcf (foldl (\<lambda>fs (identity, profile). state_put dcf fs identity profile) fs changes) k =
    (case map_of (rev changes) k of Some profile \<Rightarrow> Some profile | None \<Rightarrow> state_get dcf fs k)"
  using assms by (rule st.get_fold)

theorem save_profile_sequence_witness:
  "state_get sample_dcf (foldl (\<lambda>fs (identity, profile). state_put sample_dcf fs identity profile) (\<lambda>_. None)
      [(''AA:BB:CC:DD:EE:FF'', ''tv''), (''unknown'', ''game''), (''AA:BB:CC:DD:EE:FF'', ''default'')])
     ''AA:BB:CC:DD:EE:FF'' = Some ''default''"
proof -
  have "state_inv sample_dcf (\<lambda>_. None)"
    unfolding state_inv_def sample_paths by (simp add: path_join_def toml_load_file_def)
  moreover have "list_all (\<lambda>(identity, profile). entry_ok identity profile)
      [(''AA:BB:CC:DD:EE:FF'', ''tv''), (''unknown'', ''game''), (''AA:BB:CC:DD:EE:FF'', ''default'')]" by code_simp
  ultimately show ?thesis
    by (subst save_profile_sequence) simp_all
qed

end
