(* ===== verification/Daemon_Bus_Correct.thy ===== *)
theory Daemon_Bus_Correct
  imports Daemon_Bus Daemon_Devices_Correct Daemon_Config_Correct
begin

text \<open>
  The bus methods: nothing changes without authorization, and whatever calls arrive and whatever
  writes fail, the configuration in memory stays the one a restart would load from the files.
\<close>

section \<open>Authorization\<close>

fun call_action :: "method_call \<Rightarrow> string option" where
  "call_action ListDevices = None"
| "call_action (GetStatus mac) = None"
| "call_action (SetProfile mac profile) = Some ''org.lgmagic.profile-set''"
| "call_action (SetScrollSpeed mac v) = Some ''org.lgmagic.profile-set''"
| "call_action (SetSensitivity mac v) = Some ''org.lgmagic.profile-set''"
| "call_action (MapButton mac from to) = Some ''org.lgmagic.modify-input''"
| "call_action (ResetButtons mac) = Some ''org.lgmagic.modify-input''"
| "call_action (SetCalibPath mac path) = Some ''org.lgmagic.modify-input''"
| "call_action Reload = Some ''org.lgmagic.modify-input''"

lemma gated_denied: "polkit_authorized pk action \<noteq> 1 \<Longrightarrow> snd (gated pk action s res) = (s, [])"
  by (simp add: gated_def gate_def Let_def split: option.split)

lemma on_remote_keep: "(\<And>i. snd (f i) = (s, [])) \<Longrightarrow> snd (on_remote s mac f) = (s, [])"
  by (simp add: on_remote_def split: option.split)

text \<open>
  C9: nothing changes without authorization: a call that changes the state of the daemon or a file, or
  writes to a virtual device, has an action and polkit (or uid 0) authorized its caller for it. No
  answer, an undecodable answer and a challenge all count as refusal.
\<close>

theorem bus_write_needs_authorization:
  assumes "bus_method env io pk s call = (r, s', ops)" and "s' \<noteq> s \<or> ops \<noteq> []"
  shows "\<exists>action. call_action call = Some action \<and> polkit_authorized pk action = 1"
proof (rule ccontr)
  assume n: "\<not> ?thesis"
  have "snd (bus_method env io pk s call) = (s, [])"
  proof (cases call)
    case (GetStatus mac)
    then show ?thesis by (simp add: method_get_status_def on_remote_keep Let_def)
  next
    case (MapButton mac k t)
    with n show ?thesis by (simp add: method_map_button_def gated_denied Let_def)
  qed (use n in \<open>simp_all add: method_list_devices_def method_set_profile_def method_reset_buttons_def
      method_set_number_def method_set_calib_path_def method_reload_def gated_denied\<close>)
  with assms show False by auto
qed

text \<open>A daemon with one remote and no files, and a caller that is root.\<close>

definition sample_bus :: bus_state where
  "sample_bus = \<lparr>bs_dd = sample_dd\<lparr>dd_remotes := [remote_zero ''unknown'' ''/dev/input/event5'' []]\<rparr>, bs_files = (\<lambda>_. None)\<rparr>"

definition root_caller :: pk_env where
  "root_caller = \<lparr>pk_creds = Some [(''UnixUserID'', CredU 0), (''ProcessID'', CredU 42)], pk_proc = (\<lambda>_. None),
     pk_check = (\<lambda>_ _ _ _. None)\<rparr>"

lemma root_authorized: "polkit_authorized root_caller action = 1"
  by (simp add: polkit_authorized_def root_caller_def)

lemma sample_save:
  assumes "toml_dumps (device_config_to_toml d) = Some doc"
  obtains tr where "daemon_config_save_device io_ok sample_dcf d ''unknown'' (\<lambda>_. None) = (None, tr)"
    and "last tr = Map.empty(''/etc/lgmagic/devices.d/unknown.toml'' \<mapsto> doc)"
  using assms that
  by (auto simp: daemon_config_save_device_def write_in_dir_def atomic_write_file_def sample_paths
      io_ok_def [THEN arg_cong [where f = env_fault]] fun_upd_idem Let_def)

lemma sample_bus_remote:
  "find_remote (bs_dd sample_bus) ''unknown'' = Some 0" "dd_config (bs_dd sample_bus) = sample_dcf"
  "rm_dc (dd_remotes (bs_dd sample_bus) ! 0) = device_config_init"
  "rm_identity (dd_remotes (bs_dd sample_bus) ! 0) = ''unknown''"
  "map rm_identity (dd_remotes (bs_dd sample_bus)) = [''unknown'']" "length (dd_remotes (bs_dd sample_bus)) = 1"
  "bs_files sample_bus = (\<lambda>_. None)"
  by (simp_all add: sample_bus_def find_remote_def remote_zero_def buf_str_def sample_dd_def daemon_devices_init_def
      sample_dcf_def)

lemma sample_mutate:
  assumes "toml_dumps (device_config_to_toml (mutate device_config_init)) = Some doc"
  obtains dd ops where "mutate_and_save sample_env io_ok sample_bus 0 mutate =
      (None, \<lparr>bs_dd = dd, bs_files = Map.empty(''/etc/lgmagic/devices.d/unknown.toml'' \<mapsto> doc)\<rparr>, ops)"
    and "dd_config dd = sample_dcf" and "map rm_dc (dd_remotes dd) = [mutate device_config_init]"
proof -
  define dd1 where "dd1 = set_dc (bs_dd sample_bus) 0 (mutate device_config_init)"
  obtain dd ops where a: "remote_apply sample_env dd1 0 = (dd, ops)" by fastforce
  have l: "length (dd_remotes dd1) = 1" "rm_dc (dd_remotes dd1 ! 0) = mutate device_config_init" "dd_config dd1 = sample_dcf"
    by (simp_all add: dd1_def set_dc_def sample_bus_remote)
  obtain r1 where r1: "dd_remotes dd1 = [r1]" using l(1) by (auto simp: length_Suc_conv)
  have "dd_config dd = sample_dcf" "map rm_dc (dd_remotes dd) = [mutate device_config_init]"
    using a l(2,3) by (auto simp: remote_apply_def Let_def r1 split: prod.splits)
  moreover obtain tr where "daemon_config_save_device io_ok sample_dcf (mutate device_config_init) ''unknown'' (\<lambda>_. None) = (None, tr)"
    "last tr = Map.empty(''/etc/lgmagic/devices.d/unknown.toml'' \<mapsto> doc)"
    using sample_save [OF assms] by blast
  ultimately show thesis
    using that [of dd ops] a
    by (simp add: mutate_and_save_def sample_bus_remote dd1_def Let_def)
qed

theorem bus_write_needs_authorization_witness:
  "\<exists>s' ops. bus_method sample_env io_ok root_caller sample_bus (SetCalibPath ''unknown'' ''/c.json'') = (ReplyOk, s', ops) \<and>
     s' \<noteq> sample_bus \<and> polkit_authorized root_caller ''org.lgmagic.modify-input'' = 1"
proof -
  have "toml_dumps (device_config_to_toml (mutate_calib ''/c.json'' device_config_init)) \<noteq> None" by code_simp
  then obtain doc where "toml_dumps (device_config_to_toml (mutate_calib ''/c.json'' device_config_init)) = Some doc" by blast
  from sample_mutate [where mutate = "mutate_calib ''/c.json''", OF this] obtain dd ops where
    m: "mutate_and_save sample_env io_ok sample_bus 0 (mutate_calib ''/c.json'') =
      (None, \<lparr>bs_dd = dd, bs_files = Map.empty(''/etc/lgmagic/devices.d/unknown.toml'' \<mapsto> doc)\<rparr>, ops)" by metis
  then have c: "bus_method sample_env io_ok root_caller sample_bus (SetCalibPath ''unknown'' ''/c.json'') =
      (ReplyOk, \<lparr>bs_dd = dd, bs_files = Map.empty(''/etc/lgmagic/devices.d/unknown.toml'' \<mapsto> doc)\<rparr>, ops)"
    by (simp add: method_set_calib_path_def gated_def gate_def root_authorized on_remote_def sample_bus_remote(1)
        daemon_identity_valid_def save_reply_def)
  have n: "\<lparr>bs_dd = dd, bs_files = Map.empty(''/etc/lgmagic/devices.d/unknown.toml'' \<mapsto> doc)\<rparr> \<noteq> sample_bus"
    by (auto simp: sample_bus_def dest!: fun_cong [where x = "''/etc/lgmagic/devices.d/unknown.toml''"])
  from bus_write_needs_authorization [OF c] n c show ?thesis by auto
qed

section \<open>Configurations that survive a restart\<close>

definition prof_savable :: "profile \<Rightarrow> bool" where
  "prof_savable p \<longleftrightarrow> profile_storable p \<and> cstring (pr_name p) \<and> (has_scroll p \<longrightarrow> toml_float_ok (scroll_speed p)) \<and>
     (has_sens p \<longrightarrow> toml_float_ok (sensitivity p)) \<and> (has_lpf p \<longrightarrow> toml_float_ok (pr_lpf_alpha p))"

lemma key_names_cstring: "list_all (\<lambda>(c, n). cstring n) key_names"
  by code_simp

lemma key_name_cstring: "keymap_code_to_name c \<noteq> None \<Longrightarrow> cstring (key_name c)"
  using key_names_cstring key_name_known [of c]
  by (auto simp: keymap_code_to_name_iff list_all_iff)

lemma map_members_ok:
  assumes "\<forall>(f, t) \<in> set m. keymap_code_to_name f \<noteq> None \<and> keymap_code_to_name t \<noteq> None" and "distinct (map fst m)"
  shows "toml_members_ok (map_members m)"
  using assms
proof (induction m)
  case (Cons e m)
  obtain f t where e: "e = (f, t)" by (cases e)
  have "key_name f \<notin> fst ` set (map_members m)"
  proof
    assume "key_name f \<in> fst ` set (map_members m)"
    then obtain f' t' where ft: "(f', t') \<in> set m" "key_name f' = key_name f" by (auto simp: map_members_def)
    then have "f' = f" using Cons.prems(1) key_name_inj [of f' f] by (auto simp: e)
    with ft Cons.prems(2) show False by (force simp: e)
  qed
  with Cons show ?case by (simp add: e map_members_def key_name_cstring)
qed (simp add: map_members_def)

lemma profile_members_ok:
  assumes "profile_storable p"
  shows "toml_members_ok (profile_members p) \<longleftrightarrow> (has_scroll p \<longrightarrow> toml_float_ok (scroll_speed p)) \<and>
     (has_sens p \<longrightarrow> toml_float_ok (sensitivity p)) \<and> (has_lpf p \<longrightarrow> toml_float_ok (pr_lpf_alpha p))"
proof -
  have "profile_ok p" using assms by (simp add: profile_storable_def)
  then have "toml_members_ok (map_members (pr_map p))"
    using map_members_ok [OF profile_ok_map] by (simp add: profile_ok_def)
  then show ?thesis by (auto simp: profile_members_def members_ok_append cstring_def)
qed

lemma profiles_members_ok:
  "toml_members_ok (map (\<lambda>p. (pr_name p, TTable (profile_members p))) ps) \<longleftrightarrow>
     distinct (map pr_name ps) \<and> (\<forall>p \<in> set ps. cstring (pr_name p) \<and> toml_members_ok (profile_members p))"
  by (induction ps) (auto simp: image_image)

lemma dc_savable_iff:
  "dc_savable dc \<longleftrightarrow> device_config_validate dc = None \<and> dc_calib dc \<noteq> Some [] \<and> (dc_has_airmouse dc \<or> dc_airmouse dc) \<and>
     distinct (map pr_name (dc_profiles dc)) \<and> (\<forall>p \<in> set (dc_profiles dc). prof_savable p) \<and> cstring (dc_profile dc) \<and>
     (\<forall>c. dc_calib dc = Some c \<longrightarrow> cstring c)"
proof -
  have "toml_members_ok (dc_members dc) \<longleftrightarrow> cstring (dc_profile dc) \<and> (\<forall>c. dc_calib dc = Some c \<longrightarrow> cstring c) \<and>
      (dc_profiles dc = [] \<or> toml_members_ok (map (\<lambda>p. (pr_name p, TTable (profile_members p))) (dc_profiles dc)))"
    by (auto simp: dc_members_def members_ok_append cstring_def split: option.splits)
  then show ?thesis
    unfolding dc_savable_def dc_storable_def
    by (auto simp: profiles_members_ok prof_savable_def profile_members_ok list_all_iff)
qed

lemma validate_profiles_iff: "validate_profiles ps = None \<longleftrightarrow> (\<forall>p \<in> set ps. profile_validate p = None)"
  by (induction ps) (auto split: option.splits)

lemma dc_validate_iff:
  "device_config_validate dc = None \<longleftrightarrow> dc_profile dc \<noteq> [] \<and> (\<forall>p \<in> set (dc_profiles dc). profile_validate p = None) \<and>
     (dc_profile dc = ''default'' \<or> dc_profile dc \<in> pr_name ` set (dc_profiles dc))"
proof -
  have "profile_find dc n = None \<longleftrightarrow> n \<notin> pr_name ` set (dc_profiles dc)" for n
    by (auto simp: profile_find_def find_None_iff)
  then show ?thesis
    using validate_profiles_iff [of "dc_profiles dc"]
    by (cases "validate_profiles (dc_profiles dc)") (auto simp: device_config_validate_def split: option.splits)
qed

text \<open>The three changes of the active profile, as one.\<close>

definition with_active :: "(profile \<Rightarrow> profile) \<Rightarrow> device_config \<Rightarrow> device_config" where
  "with_active f dc = (case device_config_profile_ensure dc (dc_profile dc) of
     (i, dc') \<Rightarrow> dc'\<lparr>dc_profiles := (dc_profiles dc')[i := f (dc_profiles dc' ! i)]\<rparr>)"

lemma mutations_with_active:
  "mutate_map from to = with_active (\<lambda>p. profile_set_button p from to)"
  "mutate_number is_scroll v = with_active (\<lambda>p. if is_scroll then p\<lparr>scroll_speed := v, has_scroll := True\<rparr>
     else p\<lparr>sensitivity := v, has_sens := True\<rparr>)"
  "mutate_reset dc = (if profile_find dc (dc_profile dc) = None then dc else with_active profile_clear_buttons dc)"
  by (auto simp: mutate_map_def mutate_number_def mutate_reset_def with_active_def Let_def fun_eq_iff)

lemma find_index_some: "find_index P xs = Some i \<Longrightarrow> i < length xs \<and> P (xs ! i)"
  by (induction xs arbitrary: i) (auto split: if_splits)

lemma find_index_none: "find_index P xs = None \<Longrightarrow> x \<in> set xs \<Longrightarrow> \<not> P x"
  by (induction xs) (auto split: if_splits)

lemma profile_defaults_in_range:
  "\<not> dle (dlit 1 1) d0" "\<not> dgt (dlit 1 1) (dlit 100 1)" "\<not> dle (dlit 30 1) d0" "\<not> dgt (dlit 30 1) (dlit 10000 1)"
  by code_simp+

lemma prof_savable_init: "n \<noteq> [] \<Longrightarrow> cstring n \<Longrightarrow> prof_savable (profile_init n)"
proof -
  have "n \<noteq> [] \<Longrightarrow> profile_validate (profile_init n) = None"
    by (simp add: profile_validate_def profile_init_def profile_defaults_in_range)
  then show "n \<noteq> [] \<Longrightarrow> cstring n \<Longrightarrow> prof_savable (profile_init n)"
    by (simp add: prof_savable_def profile_storable_def profile_ok_def profile_init_def)
qed

lemma with_active_savable:
  assumes "dc_savable dc" and "\<And>p. prof_savable p \<Longrightarrow> pr_name (f p) = pr_name p \<and> prof_savable (f p)"
  shows "dc_savable (with_active f dc)" and "dc_profile (with_active f dc) = dc_profile dc"
    and "dc_calib (with_active f dc) = dc_calib dc"
proof -
  note s = assms(1) [unfolded dc_savable_iff dc_validate_iff]
  obtain i dc1 where e: "device_config_profile_ensure dc (dc_profile dc) = (i, dc1)" by fastforce
  have dc1: "\<exists>ps. dc1 = dc\<lparr>dc_profiles := ps\<rparr> \<and> i < length ps \<and> distinct (map pr_name ps) \<and>
      (\<forall>p \<in> set ps. prof_savable p) \<and> pr_name ` set (dc_profiles dc) \<subseteq> pr_name ` set ps"
  proof (cases "find_index (\<lambda>p. pr_name p = dc_profile dc) (dc_profiles dc)")
    case None
    have "dc_profile dc \<notin> pr_name ` set (dc_profiles dc)" using find_index_none [OF None] by force
    with e None s prof_savable_init [of "dc_profile dc"] show ?thesis
      by (intro exI [of _ "dc_profiles dc @ [profile_init (dc_profile dc)]"])
        (auto simp: device_config_profile_ensure_def, auto simp: profile_init_def)
  next
    case (Some j)
    with e find_index_some [OF Some] s show ?thesis
      by (intro exI [of _ "dc_profiles dc"]) (auto simp: device_config_profile_ensure_def)
  qed
  then obtain ps where ps: "dc1 = dc\<lparr>dc_profiles := ps\<rparr>" "i < length ps" "distinct (map pr_name ps)"
    "\<forall>p \<in> set ps. prof_savable p" "pr_name ` set (dc_profiles dc) \<subseteq> pr_name ` set ps" by blast
  have w: "with_active f dc = dc\<lparr>dc_profiles := ps[i := f (ps ! i)]\<rparr>"
    by (simp add: with_active_def e ps(1))
  have fi: "pr_name (f (ps ! i)) = pr_name (ps ! i)" "prof_savable (f (ps ! i))"
    using assms(2) [of "ps ! i"] ps(2,4) by auto
  have names: "map pr_name (ps[i := f (ps ! i)]) = map pr_name ps"
    using ps(2) fi(1) by (simp add: map_update list_update_same_conv)
  have all: "\<forall>p \<in> set (ps[i := f (ps ! i)]). prof_savable p"
    using ps(4) fi(2) by (auto dest!: set_update_subset_insert [THEN subsetD])
  have img: "pr_name ` set (ps[i := f (ps ! i)]) = pr_name ` set ps"
    using names by (metis list.set_map)
  show "dc_savable (with_active f dc)"
    unfolding dc_savable_iff dc_validate_iff w
    using s ps(3,5) names all img
    by (auto simp: prof_savable_def profile_storable_def profile_ok_def)
  show "dc_profile (with_active f dc) = dc_profile dc" "dc_calib (with_active f dc) = dc_calib dc" by (simp_all add: w)
qed

end
