(* ===== verification/Daemon_Bus_Restart.thy ===== *)
theory Daemon_Bus_Restart
  imports Daemon_Bus_Correct
begin

text \<open>
  The abstract view of the bus interface: a map from identities to device configurations. Every method
  changes at most the entry it names, and only when it replies with success; what the files hold is
  always this map, so that a restart restores it.
\<close>

section \<open>Paths\<close>

lemma device_path_eq: "device_path dcf identity = Some p \<Longrightarrow> p = config_root dcf @ ''/devices.d/'' @ identity @ ''.toml''"
  by (auto simp: device_path_def path_join_def bind_eq_Some_conv split: if_splits)

lemma state_path_eq: "state_path dcf = Some p \<Longrightarrow> p = state_dir dcf @ ''/state.toml''"
  by (auto simp: state_path_def path_join_def split: if_splits)

lemma toml_not_tmp: "x @ ''.toml'' \<noteq> y @ ''.tmp''"
proof
  assume "x @ ''.toml'' = y @ ''.tmp''"
  then have "last (x @ ''.toml'') = last (y @ ''.tmp'')" by simp
  then show False by simp
qed

lemma device_path_apart:
  assumes "device_path dcf a = Some p" and "device_path dcf b = Some q"
  shows "p \<noteq> q @ ''.tmp''" and "p = q \<Longrightarrow> a = b"
  using device_path_eq [OF assms(1)] device_path_eq [OF assms(2)]
    toml_not_tmp [of "config_root dcf @ ''/devices.d/'' @ a"] by auto

lemma state_path_apart:
  assumes "state_path dcf = Some sp" and "device_path dcf a = Some p" and "daemon_identity_valid (Some a)"
  shows "sp \<noteq> p" and "sp \<noteq> p @ ''.tmp''" and "p \<noteq> sp @ ''.tmp''"
proof -
  have sp: "sp = (state_dir dcf @ ''/state'') @ ''.toml''" using state_path_eq [OF assms(1)] by simp
  have p: "p = (config_root dcf @ ''/devices.d/'' @ a) @ ''.toml''" using device_path_eq [OF assms(2)] by simp
  show "sp \<noteq> p @ ''.tmp''" "p \<noteq> sp @ ''.tmp''" unfolding sp p using toml_not_tmp by blast+
  show "sp \<noteq> p"
  proof
    assume "sp = p"
    then have "state_dir dcf @ ''/state'' = config_root dcf @ ''/devices.d/'' @ a"
      unfolding sp p by (simp only: append_same_eq)
    then have "rev (state_dir dcf @ ''/state'') = rev (config_root dcf @ ''/devices.d/'' @ a)" by (rule arg_cong)
    then have e: "''etats/'' @ rev (state_dir dcf) = rev a @ rev (config_root dcf @ ''/devices.d/'')" by simp
    have l: "2 \<le> length a" using assms(3) by (auto simp: daemon_identity_valid_def)
    then have "take 2 (rev a) = take 2 (rev a @ rev (config_root dcf @ ''/devices.d/''))" by simp
    also have "\<dots> = ''et''" unfolding e [symmetric] by simp
    finally have "CHR ''t'' \<in> set (take 2 (rev a))" by simp
    then have "CHR ''t'' \<in> set a" by (auto dest: in_set_takeD)
    with identity_chars [OF assms(3)] show False by (auto simp: isxdigit_def isdigit_def)
  qed
qed

section \<open>Loading\<close>

definition override :: "string option \<Rightarrow> device_config \<Rightarrow> device_config" where
  "override n d = (case n of Some p \<Rightarrow> d\<lparr>dc_profile := p\<rparr> | None \<Rightarrow> d)"

lemma load_remote_alt:
  assumes "device_path dcf a = Some p" and "state_path dcf = Some sp"
  shows "daemon_config_load_remote dcf fs a = (case device_config_load_file p (fs p) device_config_init of
    (rc, e, d) \<Rightarrow> if rc < 0 then (e, d) else (None, override (state_get dcf fs a) d))"
  using assms by (simp add: daemon_config_load_remote_def state_get_def override_def split: option.split prod.split)

lemma load_file_error: "device_config_load_file p f dc = (rc, e, d) \<Longrightarrow> rc < 0 \<Longrightarrow> e \<noteq> None"
  by (auto simp: device_config_load_file_def split: option.splits sum.splits prod.splits)

lemma state_get_cong: "state_path dcf = Some sp \<Longrightarrow> fs' sp = fs sp \<Longrightarrow> state_get dcf fs' a = state_get dcf fs a"
  by (simp add: state_get_def toml_load_file_def)

lemma state_inv_cong: "state_path dcf = Some sp \<Longrightarrow> fs' sp = fs sp \<Longrightarrow> state_inv dcf fs' = state_inv dcf fs"
  by (simp add: state_inv_def toml_load_file_def)

section \<open>The invariant\<close>

text \<open>A restart would load \<open>d\<close> for \<open>a\<close>, and \<open>d\<close> can be saved.\<close>

definition synced :: "daemon_config \<Rightarrow> files \<Rightarrow> string \<Rightarrow> device_config \<Rightarrow> bool" where
  "synced dcf fs a d \<longleftrightarrow> daemon_identity_valid (Some a) \<and> dc_savable d \<and> device_path dcf a \<noteq> None \<and>
     daemon_config_load_remote dcf fs a = (None, d)"

definition views :: "daemon_devices \<Rightarrow> (string \<times> device_config) list" where
  "views dd = map (\<lambda>r. (rm_identity r, rm_dc r)) (dd_remotes dd)"

definition views_inv :: "daemon_config \<Rightarrow> files \<Rightarrow> (string \<times> device_config) list \<Rightarrow> bool" where
  "views_inv dcf fs vs \<longleftrightarrow> state_inv dcf fs \<and> distinct (map fst vs) \<and> (\<forall>(a, d) \<in> set vs. synced dcf fs a d)"

definition sync_inv :: "bus_state \<Rightarrow> bool" where
  "sync_inv s \<longleftrightarrow> views_inv (dd_config (bs_dd s)) (bs_files s) (views (bs_dd s))"

definition configs :: "bus_state \<Rightarrow> string \<rightharpoonup> device_config" where
  "configs s = map_of (views (bs_dd s))"

lemma synced_profile:
  assumes "synced dcf fs a d" and "state_path dcf = Some sp"
  shows "state_get dcf fs a = None \<or> state_get dcf fs a = Some (dc_profile d)"
proof -
  obtain p where p: "device_path dcf a = Some p" using assms(1) by (auto simp: synced_def)
  from assms(1) show ?thesis
    by (auto simp: synced_def load_remote_alt [OF p assms(2)] override_def
        split: prod.splits if_splits option.splits dest: load_file_error)
qed

text \<open>Writing another file keeps a device synchronized.\<close>

lemma synced_cong:
  assumes "synced dcf fs a d" and "device_path dcf a = Some p" and "fs' p = fs p"
    and "state_path dcf = Some sp" and "state_get dcf fs' a = state_get dcf fs a"
  shows "synced dcf fs' a d"
  using assms by (auto simp: synced_def load_remote_alt split: prod.splits)

section \<open>Saving\<close>

lemma save_device_synced:
  assumes "daemon_config_save_device io dcf d a fs = (e, trace)" and "synced dcf fs a old" and "dc_savable d"
    and "dc_profile d = dc_profile old" and "state_inv dcf fs"
  shows "synced dcf (last trace) a (if e = None then d else old)" and "state_inv dcf (last trace)"
    and "synced dcf fs b c \<Longrightarrow> b \<noteq> a \<Longrightarrow> synced dcf (last trace) b c"
proof -
  obtain p where p: "device_path dcf a = Some p" using assms(2) by (auto simp: synced_def)
  obtain sp where sp: "state_path dcf = Some sp" using assms(5) by (auto simp: state_inv_def)
  have va: "daemon_identity_valid (Some a)" using assms(2) by (simp add: synced_def)
  obtain doc where doc: "toml_dumps (device_config_to_toml d) = Some doc"
    and load: "device_config_load_file p (Some doc) device_config_init = (0, None, d)"
    using dc_text [OF assms(3)] by blast
  have w: "(e = None \<longrightarrow> last trace p = Some doc) \<and> (e \<noteq> None \<longrightarrow> last trace p = fs p) \<and>
      (\<forall>q. q \<noteq> p \<longrightarrow> q \<noteq> p @ ''.tmp'' \<longrightarrow> last trace q = fs q)"
    using assms(1) write_in_dir_last [of io _ p doc fs e trace]
    by (auto simp: daemon_config_save_device_def p doc split: option.splits)
  have st: "last trace sp = fs sp" using w state_path_apart [OF sp p va] by blast
  then show "state_inv dcf (last trace)" using assms(5) state_inv_cong [OF sp, of "last trace" fs] by blast
  have get: "state_get dcf (last trace) b = state_get dcf fs b" for b
    using st by (rule state_get_cong [OF sp])
  show "synced dcf (last trace) a (if e = None then d else old)"
  proof (cases "e = None")
    case True
    with w have "last trace p = Some doc" by simp
    moreover have "override (state_get dcf fs a) d = d"
      using synced_profile [OF assms(2) sp] assms(4) by (auto simp: override_def)
    ultimately show ?thesis
      using True va assms(3) load by (simp add: synced_def p load_remote_alt [OF p sp] get)
  next
    case False
    with w synced_cong [OF assms(2) p _ sp get] show ?thesis by auto
  qed
  assume b: "synced dcf fs b c" "b \<noteq> a"
  then obtain q where q: "device_path dcf b = Some q" by (auto simp: synced_def)
  have "last trace q = fs q" using w device_path_apart [OF q p] b(2) by blast
  from synced_cong [OF b(1) q this sp get] show "synced dcf (last trace) b c" .
qed

lemma save_profile_put:
  assumes "daemon_config_save_profile io dcf a n fs = (None, trace)" and "state_path dcf = Some sp"
    and "path_join 4096 sp ''.tmp'' \<noteq> None"
  shows "last trace sp = state_put dcf fs a n sp"
proof -
  obtain kvs doc where d: "state_update (toml_load_file fs sp) a n = Some kvs" "toml_dumps (Some (TTable kvs)) = Some doc"
    and w: "write_in_dir io (state_dir dcf) sp doc fs = (None, trace)"
    using assms(1,2) by (auto simp: daemon_config_save_profile_def split: option.splits)
  have "write_in_dir io_ok (state_dir dcf) sp doc fs = (None, snd (write_in_dir io_ok (state_dir dcf) sp doc fs))"
    using assms(3)
    by (auto simp: write_in_dir_def atomic_write_file_def io_ok_def [THEN arg_cong [where f = env_fault]] Let_def)
  from write_in_dir_ok [OF this] write_in_dir_ok [OF w] d show ?thesis
    by (simp add: state_put_def daemon_config_save_profile_def assms(2))
qed

lemma save_profile_synced:
  assumes "daemon_config_save_profile io dcf a n fs = (e, trace)" and "synced dcf fs a d"
    and "dc_savable (d\<lparr>dc_profile := n\<rparr>)" and "state_inv dcf fs"
  shows "synced dcf (last trace) a (if e = None then d\<lparr>dc_profile := n\<rparr> else d)" and "state_inv dcf (last trace)"
    and "synced dcf fs b c \<Longrightarrow> b \<noteq> a \<Longrightarrow> synced dcf (last trace) b c"
proof -
  obtain sp where sp: "state_path dcf = Some sp" "path_join 4096 sp ''.tmp'' \<noteq> None"
    using assms(4) by (auto simp: state_inv_def)
  have va: "daemon_identity_valid (Some a)" using assms(2) by (simp add: synced_def)
  have ok: "entry_ok a n"
    using assms(3) identity_safe(3) [OF va] by (auto simp: entry_ok_def cstring_def dc_savable_iff)
  have other: "(e \<noteq> None \<longrightarrow> last trace sp = fs sp) \<and> (\<forall>q. q \<noteq> sp \<longrightarrow> q \<noteq> sp @ ''.tmp'' \<longrightarrow> last trace q = fs q)"
    using assms(1) write_in_dir_last [of io "state_dir dcf" sp _ fs e trace]
    by (auto simp: daemon_config_save_profile_def sp(1) split: option.splits)
  have dev: "last trace q = fs q" if "device_path dcf x = Some q" "daemon_identity_valid (Some x)" for x q
    using other state_path_apart(1) [OF sp(1) that] state_path_apart(3) [OF sp(1) that] by simp
  have put: "last trace sp = (if e = None then state_put dcf fs a n sp else fs sp)"
  proof (cases e)
    case None
    with save_profile_put [OF assms(1) [unfolded None] sp] show ?thesis by simp
  next
    case Some
    with other show ?thesis by simp
  qed
  have get: "state_get dcf (last trace) x = (if e = None \<and> x = a then Some n else state_get dcf fs x)" for x
  proof (cases e)
    case None
    with put have "state_get dcf (last trace) x = state_get dcf (state_put dcf fs a n) x"
      by (intro state_get_cong [OF sp(1)]) simp
    with None st.get_put [OF assms(4) ok, of x] show ?thesis by simp
  next
    case Some
    with put have "state_get dcf (last trace) x = state_get dcf fs x" by (intro state_get_cong [OF sp(1)]) simp
    with Some show ?thesis by simp
  qed
  show "state_inv dcf (last trace)"
  proof (cases e)
    case None
    with put have "state_inv dcf (last trace) = state_inv dcf (state_put dcf fs a n)"
      by (intro state_inv_cong [OF sp(1)]) simp
    with st.inv_put [OF assms(4) ok] show ?thesis by simp
  next
    case Some
    with put have "state_inv dcf (last trace) = state_inv dcf fs" by (intro state_inv_cong [OF sp(1)]) simp
    with assms(4) show ?thesis by simp
  qed
  obtain p where p: "device_path dcf a = Some p" using assms(2) by (auto simp: synced_def)
  show "synced dcf (last trace) a (if e = None then d\<lparr>dc_profile := n\<rparr> else d)"
  proof (cases "e = None")
    case True
    obtain rc er f where l: "device_config_load_file p (fs p) device_config_init = (rc, er, f)" by (metis prod_cases3)
    have "\<not> rc < 0 \<and> d\<lparr>dc_profile := n\<rparr> = f\<lparr>dc_profile := n\<rparr>"
      using assms(2) load_file_error [OF l]
      by (auto simp: synced_def load_remote_alt [OF p sp(1)] l override_def split: if_splits option.splits)
    then show ?thesis
      using assms(3) va True
      by (simp add: synced_def load_remote_alt [OF p sp(1)] dev [OF p va] l get override_def p)
  next
    case False
    with synced_cong [where fs' = "last trace", OF assms(2) p dev [OF p va] sp(1)] get show ?thesis by auto
  qed
  assume b: "synced dcf fs b c" "b \<noteq> a"
  then obtain q where q: "device_path dcf b = Some q" "daemon_identity_valid (Some b)" by (auto simp: synced_def)
  from synced_cong [where fs' = "last trace", OF b(1) q(1) dev [OF q] sp(1)] get b(2) show "synced dcf (last trace) b c" by simp
qed


section \<open>The abstract interface\<close>

definition change :: "string \<Rightarrow> (device_config \<Rightarrow> device_config) \<Rightarrow> (string \<rightharpoonup> device_config) \<Rightarrow> string \<rightharpoonup> device_config" where
  "change mac f m = (case m mac of None \<Rightarrow> m | Some d \<Rightarrow> m(mac \<mapsto> f d))"

text \<open>What a call that succeeds does to the map.\<close>

fun spec_call :: "method_call \<Rightarrow> (string \<rightharpoonup> device_config) \<Rightarrow> string \<rightharpoonup> device_config" where
  "spec_call (SetProfile mac n) m = change mac (\<lambda>d. d\<lparr>dc_profile := n\<rparr>) m"
| "spec_call (MapButton mac k t) m = change mac
     (with_active (\<lambda>p. profile_set_button p (keymap_name_to_code (Some k)) (keymap_name_to_code (Some t)))) m"
| "spec_call (ResetButtons mac) m =
     change mac (\<lambda>d. if profile_find d (dc_profile d) = None then d else with_active profile_clear_buttons d) m"
| "spec_call (SetScrollSpeed mac v) m = change mac (with_active (\<lambda>p. p\<lparr>scroll_speed := v, has_scroll := True\<rparr>)) m"
| "spec_call (SetSensitivity mac v) m = change mac (with_active (\<lambda>p. p\<lparr>sensitivity := v, has_sens := True\<rparr>)) m"
| "spec_call (SetCalibPath mac path) m = change mac (\<lambda>d. d\<lparr>dc_calib := (if path = [] then None else Some path)\<rparr>) m"
| "spec_call _ m = m"

text \<open>
  The arguments that survive a restart. The numbers must be positive (the daemon also accepts 0, which its
  own files may not hold) and have at most the digits the writer keeps; D-Bus strings have no NUL.
\<close>

fun call_ok :: "method_call \<Rightarrow> bool" where
  "call_ok (SetScrollSpeed mac v) \<longleftrightarrow> \<not> dle v d0 \<and> toml_float_ok v"
| "call_ok (SetSensitivity mac v) \<longleftrightarrow> \<not> dle v d0 \<and> toml_float_ok v"
| "call_ok (SetCalibPath mac path) \<longleftrightarrow> cstring path"
| "call_ok _ \<longleftrightarrow> True"

lemma views_apply [simp]:
  "i < length (dd_remotes dd) \<Longrightarrow> views (fst (remote_apply env dd i)) = views dd"
  "dd_config (fst (remote_apply env dd i)) = dd_config dd"
  by (auto simp: remote_apply_def views_def Let_def map_update list_update_same_conv split: prod.split)

lemma views_set [simp]:
  "i < length (dd_remotes dd) \<Longrightarrow> views (set_dc dd i d) = (views dd)[i := (rm_identity (dd_remotes dd ! i), d)]"
  "dd_config (set_dc dd i d) = dd_config dd"
  "length (dd_remotes (set_dc dd i d)) = length (dd_remotes dd)"
  by (auto simp: set_dc_def views_def map_update)

lemma views_nth: "i < length (dd_remotes dd) \<Longrightarrow> views dd ! i = (rm_identity (dd_remotes dd ! i), rm_dc (dd_remotes dd ! i))"
  "length (views dd) = length (dd_remotes dd)"
  by (simp_all add: views_def)

lemma find_remote_some:
  "find_remote dd mac = Some i \<Longrightarrow> i < length (dd_remotes dd) \<and> rm_identity (dd_remotes dd ! i) = mac"
  using find_index_some by (fastforce simp: find_remote_def)

lemma map_of_update_nth:
  assumes "distinct (map fst vs)" and "i < length vs" and "vs ! i = (a, old)"
  shows "map_of (vs[i := (a, d)]) = (map_of vs)(a \<mapsto> d)"
  using assms
proof (induction vs arbitrary: i)
  case (Cons v vs)
  show ?case
  proof (cases i)
    case (Suc j)
    then have "(a, old) \<in> set vs" using Cons.prems by (metis Suc_less_eq length_Cons nth_Cons_Suc nth_mem)
    then have "a \<in> set (map fst vs)" by force
    then have "fst v \<noteq> a" using Cons.prems(1) by auto
    with Suc Cons show ?thesis by (auto simp: fun_upd_twist)
  qed (use Cons in auto)
qed simp

text \<open>Replacing one entry of a synchronized list.\<close>

lemma views_inv_update:
  assumes "views_inv dcf fs vs" and "i < length vs" and "vs ! i = (a, old)" and "state_inv dcf fs'" and "synced dcf fs' a d"
    and "\<And>b c. synced dcf fs b c \<Longrightarrow> b \<noteq> a \<Longrightarrow> synced dcf fs' b c"
  shows "views_inv dcf fs' (vs[i := (a, d)])"
proof -
  have "map fst (vs[i := (a, d)]) = map fst vs" using assms(2,3) by (simp add: map_update list_update_same_conv)
  moreover have "synced dcf fs' b c" if bc: "(b, c) \<in> set (vs[i := (a, d)])" for b c
  proof -
    obtain j where j: "j < length vs" "(vs[i := (a, d)]) ! j = (b, c)" using bc by (auto simp: in_set_conv_nth)
    show ?thesis
    proof (cases "j = i")
      case True
      with j assms(5) show ?thesis by simp
    next
      case False
      with j have v: "vs ! j = (b, c)" by simp
      then have "synced dcf fs b c" using assms(1) j(1) nth_mem by (fastforce simp: views_inv_def)
      moreover have "b \<noteq> a"
      proof
        assume "b = a"
        then have "map fst vs ! j = map fst vs ! i" using v assms(3) j(1) assms(2) by simp
        with False assms(1,2) j(1) nth_eq_iff_index_eq [of "map fst vs" j i] show False by (simp add: views_inv_def)
      qed
      ultimately show ?thesis using assms(6) by blast
    qed
  qed
  ultimately show ?thesis using assms(1,4) by (auto simp: views_inv_def)
qed


lemma sync_remote:
  assumes "sync_inv s" and "find_remote (bs_dd s) mac = Some i"
  shows "i < length (dd_remotes (bs_dd s))" and "rm_identity (dd_remotes (bs_dd s) ! i) = mac"
    and "synced (dd_config (bs_dd s)) (bs_files s) mac (rm_dc (dd_remotes (bs_dd s) ! i))"
    and "views (bs_dd s) ! i = (mac, rm_dc (dd_remotes (bs_dd s) ! i))"
    and "configs s mac = Some (rm_dc (dd_remotes (bs_dd s) ! i))"
proof -
  show i: "i < length (dd_remotes (bs_dd s))" "rm_identity (dd_remotes (bs_dd s) ! i) = mac"
    using find_remote_some [OF assms(2)] by auto
  show v: "views (bs_dd s) ! i = (mac, rm_dc (dd_remotes (bs_dd s) ! i))" using views_nth(1) [OF i(1)] i(2) by simp
  then have m: "(mac, rm_dc (dd_remotes (bs_dd s) ! i)) \<in> set (views (bs_dd s))"
    using i(1) views_nth(2) nth_mem by metis
  then show "synced (dd_config (bs_dd s)) (bs_files s) mac (rm_dc (dd_remotes (bs_dd s) ! i))"
    using assms(1) by (auto simp: sync_inv_def views_inv_def)
  show "configs s mac = Some (rm_dc (dd_remotes (bs_dd s) ! i))"
    using assms(1) m by (simp add: configs_def sync_inv_def views_inv_def)
qed

lemma configs_update:
  assumes "sync_inv s" and "find_remote (bs_dd s) mac = Some i" and "views (bs_dd s') = (views (bs_dd s))[i := (mac, d)]"
  shows "configs s' = (configs s)(mac \<mapsto> d)"
  unfolding configs_def assms(3)
  using assms(1) sync_remote(1,4) [OF assms(1,2)] views_nth(2) [of "bs_dd s"]
  by (intro map_of_update_nth) (auto simp: sync_inv_def views_inv_def)

text \<open>The invariant after a step on one remote, for both kinds of files.\<close>

lemma sync_inv_step:
  assumes "sync_inv s" and "find_remote (bs_dd s) mac = Some i" and "views (bs_dd s') = (views (bs_dd s))[i := (mac, d)]"
    and "dd_config (bs_dd s') = dd_config (bs_dd s)" and "state_inv (dd_config (bs_dd s)) (bs_files s')"
    and "synced (dd_config (bs_dd s)) (bs_files s') mac d"
    and "\<And>b c. synced (dd_config (bs_dd s)) (bs_files s) b c \<Longrightarrow> b \<noteq> mac \<Longrightarrow> synced (dd_config (bs_dd s)) (bs_files s') b c"
  shows "sync_inv s' \<and> configs s' = (configs s)(mac \<mapsto> d)"
proof
  have "i < length (views (bs_dd s))" using sync_remote(1) [OF assms(1,2)] views_nth(2) by simp
  from views_inv_update [OF assms(1) [unfolded sync_inv_def] this sync_remote(4) [OF assms(1,2)] assms(5-7)]
  show "sync_inv s'" unfolding sync_inv_def assms(3,4) .
  show "configs s' = (configs s)(mac \<mapsto> d)" using configs_update [OF assms(1-3)] .
qed

lemma mutate_and_save_sync:
  assumes "sync_inv s" and "find_remote (bs_dd s) mac = Some i" and "mutate_and_save env io s i mutate = (e, s', ops)"
    and "\<And>d. dc_savable d \<Longrightarrow> dc_savable (mutate d) \<and> dc_profile (mutate d) = dc_profile d"
  shows "sync_inv s' \<and> configs s' = (if e = None then change mac mutate (configs s) else configs s)"
proof -
  define dd where "dd = bs_dd s"
  define old where "old = rm_dc (dd_remotes dd ! i)"
  note rem = sync_remote [OF assms(1,2), folded dd_def, folded old_def]
  obtain tr where sv: "daemon_config_save_device io (dd_config dd) (mutate old) mac (bs_files s) = (e, tr)"
    using assms(3) rem(2) by (auto simp: mutate_and_save_def dd_def old_def Let_def split: prod.splits)
  have ok: "dc_savable (mutate old)" "dc_profile (mutate old) = dc_profile old"
    using assms(4) rem(3) by (auto simp: synced_def)
  have inv: "state_inv (dd_config dd) (bs_files s)" using assms(1) by (simp add: sync_inv_def views_inv_def dd_def)
  note save = save_device_synced [OF sv rem(3) ok inv]
  define new where "new = (if e = None then mutate old else old)"
  have fs: "bs_files s' = last tr" and cfg: "dd_config (bs_dd s') = dd_config dd"
    using assms(3) rem(2) sv
    by (auto simp: mutate_and_save_def dd_def [symmetric] old_def [symmetric] remote_rollback_def reload_dc_def Let_def
        split: prod.splits if_splits dest!: arg_cong [where f = fst])
  have vw: "views (bs_dd s') = (views dd)[i := (mac, new)]"
  proof (cases "e = None")
    case True
    then have "bs_dd s' = fst (remote_apply env (set_dc dd i (mutate old)) i)"
      using assms(3) rem(2) sv
      by (auto simp: mutate_and_save_def dd_def [symmetric] old_def [symmetric] Let_def split: prod.splits)
    with True rem(1,2) show ?thesis by (simp add: new_def)
  next
    case False
    define dd1 where "dd1 = set_dc dd i (mutate old)"
    have l: "rm_identity (dd_remotes dd1 ! i) = mac" using rem(1,2) by (simp add: dd1_def set_dc_def)
    have "snd (daemon_config_load_remote (dd_config dd) (last tr) mac) = old"
      using save(1) False by (simp add: synced_def)
    with False have "bs_dd s' = fst (remote_apply env (set_dc dd1 i old) i)"
      using assms(3) rem(2) sv l
      by (auto simp: mutate_and_save_def remote_rollback_def reload_dc_def dd_def [symmetric] old_def [symmetric]
          dd1_def [symmetric] Let_def split: prod.splits) (simp add: dd1_def)
    with False rem(1,2) l show ?thesis by (auto simp: new_def dd1_def)
  qed
  have "sync_inv s' \<and> configs s' = (configs s)(mac \<mapsto> new)"
    using sync_inv_step [OF assms(1,2) vw [unfolded dd_def] cfg [unfolded dd_def]] save
    by (simp add: fs dd_def new_def)
  with rem(5) show ?thesis by (auto simp: new_def change_def fun_upd_idem)
qed


section \<open>The changes keep a configuration savable\<close>

lemma savable_set_button:
  assumes "prof_savable p" and "keymap_code_to_name f \<noteq> None" and "keymap_code_to_name t \<noteq> None"
  shows "prof_savable (profile_set_button p f t)"
proof -
  have "\<forall>(k, v) \<in> set (put_assoc f t (pr_map p)). keymap_code_to_name k \<noteq> None \<and> keymap_code_to_name v \<noteq> None"
    using set_put_assoc_subset [of f t "pr_map p"] assms profile_ok_map [of p]
    by (fastforce simp: prof_savable_def profile_storable_def)
  then have "validate_map n (put_assoc f t (pr_map p)) = None" for n unfolding validate_map_iff .
  with assms(1) show ?thesis
    by (auto simp: prof_savable_def profile_storable_def profile_ok_def profile_validate_def profile_set_button_def
        distinct_put_assoc split: if_splits)
qed

lemma savable_clear: "prof_savable p \<Longrightarrow> prof_savable (profile_clear_buttons p)"
  by (auto simp: prof_savable_def profile_storable_def profile_ok_def profile_validate_def profile_clear_buttons_def
      split: if_splits)

lemma savable_scroll:
  "prof_savable p \<Longrightarrow> \<not> dle v d0 \<Longrightarrow> \<not> dgt v (dlit 100 1) \<Longrightarrow> toml_float_ok v \<Longrightarrow>
   prof_savable (p\<lparr>scroll_speed := v, has_scroll := True\<rparr>)"
  by (auto simp: prof_savable_def profile_storable_def profile_ok_def profile_validate_def split: if_splits)

lemma savable_sens:
  "prof_savable p \<Longrightarrow> \<not> dle v d0 \<Longrightarrow> \<not> dgt v (dlit 10000 1) \<Longrightarrow> toml_float_ok v \<Longrightarrow>
   prof_savable (p\<lparr>sensitivity := v, has_sens := True\<rparr>)"
  by (auto simp: prof_savable_def profile_storable_def profile_ok_def profile_validate_def split: if_splits)

lemma savable_calib:
  "dc_savable d \<Longrightarrow> cstring path \<Longrightarrow> dc_savable (d\<lparr>dc_calib := (if path = [] then None else Some path)\<rparr>)"
  by (simp add: dc_savable_iff dc_validate_iff)

lemma savable_profile:
  assumes "dc_savable d" and "n = ''default'' \<or> profile_find d n \<noteq> None"
  shows "dc_savable (d\<lparr>dc_profile := n\<rparr>)"
proof -
  have f: "profile_find d n \<noteq> None \<Longrightarrow> n \<in> pr_name ` set (dc_profiles d)"
    by (auto simp: profile_find_def find_Some_iff)
  have "n \<in> pr_name ` set (dc_profiles d) \<Longrightarrow> cstring n \<and> n \<noteq> []"
    using assms(1) by (auto simp: dc_savable_iff prof_savable_def dc_validate_iff profile_validate_def split: if_splits)
  with assms f show ?thesis by (auto simp: dc_savable_iff dc_validate_iff cstring_def)
qed


section \<open>Refinement\<close>

definition refines_ok :: "(( string \<rightharpoonup> device_config) \<Rightarrow> string \<rightharpoonup> device_config) \<Rightarrow> bus_state \<Rightarrow> reply \<times> bus_state \<times> dev_op list \<Rightarrow> bool" where
  "refines_ok f s res = (case res of (r, s', ops) \<Rightarrow>
     sync_inv s' \<and> configs s' = (if r = ReplyOk then f (configs s) else configs s))"

lemma refines_ok_refused: "sync_inv s \<Longrightarrow> refines_ok f s (fail name msg, s, ops)"
  by (simp add: refines_ok_def fail_def)

lemma refines_ok_gated: "sync_inv s \<Longrightarrow> refines_ok f s res \<Longrightarrow> refines_ok f s (gated pk action s res)"
  by (auto simp: gated_def gate_def Let_def refines_ok_refused)

lemma refines_ok_remote:
  assumes "sync_inv s" and "\<And>i. find_remote (bs_dd s) mac = Some i \<Longrightarrow> refines_ok f s (g i)"
  shows "refines_ok f s (on_remote s mac g)"
  using assms by (auto simp: on_remote_def refines_ok_refused split: option.split)

lemmas refines_ok_intros = refines_ok_refused refines_ok_gated refines_ok_remote

lemma refines_ok_mutate:
  assumes "sync_inv s" and "find_remote (bs_dd s) mac = Some i"
    and "\<And>d. dc_savable d \<Longrightarrow> dc_savable (mutate d) \<and> dc_profile (mutate d) = dc_profile d"
  shows "refines_ok (change mac mutate) s (save_reply (mutate_and_save env io s i mutate))"
proof -
  obtain e s' ops where m: "mutate_and_save env io s i mutate = (e, s', ops)" by (metis prod_cases3)
  from mutate_and_save_sync [OF assms(1,2) m assms(3)] show ?thesis
    by (cases e) (auto simp: m save_reply_def refines_ok_def fail_def)
qed

lemma set_profile_refines:
  assumes "sync_inv s"
  shows "refines_ok (spec_call (SetProfile mac n)) s (method_set_profile env io pk s mac n)"
  unfolding method_set_profile_def Let_def spec_call.simps
proof (intro refines_ok_intros assms, goal_cases)
  case (1 i)
  define dd where "dd = bs_dd s"
  define old where "old = rm_dc (dd_remotes dd ! i)"
  note rem = sync_remote [OF assms 1, folded dd_def, folded old_def]
  obtain e tr where sv: "daemon_config_save_profile io (dd_config dd) mac n (bs_files s) = (e, tr)" by fastforce
  show ?case
  proof (cases "n \<noteq> ''default'' \<and> profile_find old n = None")
    case True
    then show ?thesis by (simp add: old_def dd_def refines_ok_refused [OF assms])
  next
    case False
    have "dc_savable (old\<lparr>dc_profile := n\<rparr>)" using savable_profile [of old n] rem(3) False by (auto simp: synced_def)
    moreover have "state_inv (dd_config dd) (bs_files s)" using assms by (simp add: sync_inv_def views_inv_def dd_def)
    ultimately have save: "synced (dd_config dd) (last tr) mac (if e = None then old\<lparr>dc_profile := n\<rparr> else old)"
      "state_inv (dd_config dd) (last tr)"
      "\<And>b c. synced (dd_config dd) (bs_files s) b c \<Longrightarrow> b \<noteq> mac \<Longrightarrow> synced (dd_config dd) (last tr) b c"
      using save_profile_synced [OF sv rem(3)] by blast+
    show ?thesis
    proof (cases e)
      case None
      have "snd (daemon_config_load_remote (dd_config dd) (last tr) mac) = old\<lparr>dc_profile := n\<rparr>"
        using save(1) None by (simp add: synced_def)
      then have "views (fst (reload_dc env (last tr) dd i)) = (views dd)[i := (mac, old\<lparr>dc_profile := n\<rparr>)]"
        "dd_config (fst (reload_dc env (last tr) dd i)) = dd_config dd"
        using rem(1,2) by (simp_all add: reload_dc_def)
      with sync_inv_step [OF assms 1, of "\<lparr>bs_dd = fst (reload_dc env (last tr) dd i), bs_files = last tr\<rparr>"] save None
      have "sync_inv \<lparr>bs_dd = fst (reload_dc env (last tr) dd i), bs_files = last tr\<rparr> \<and>
          configs \<lparr>bs_dd = fst (reload_dc env (last tr) dd i), bs_files = last tr\<rparr> = (configs s)(mac \<mapsto> old\<lparr>dc_profile := n\<rparr>)"
        by (simp add: dd_def)
      with None False sv rem(5) show ?thesis
        by (auto simp: refines_ok_def change_def dd_def [symmetric] old_def [symmetric] split: prod.split)
    next
      case (Some msg)
      with sync_inv_step [OF assms 1, of "s\<lparr>bs_files := last tr\<rparr>" old] save rem(4)
      have "sync_inv (s\<lparr>bs_files := last tr\<rparr>)"
        by (simp add: dd_def list_update_same_conv)
          (metis dd_def list_update_id rem(4))
      with Some False sv show ?thesis
        by (auto simp: refines_ok_def configs_def fail_def dd_def [symmetric] old_def [symmetric])
    qed
  qed
qed

lemma reload_refines:
  assumes "sync_inv s"
  shows "refines_ok (\<lambda>m. m) s (method_reload env pk s)"
  unfolding method_reload_def
proof (intro refines_ok_intros assms)
  obtain dd ops where r: "daemon_devices_reload (env\<lparr>de_files := bs_files s\<rparr>) (bs_dd s) = (dd, ops)" by fastforce
  define g where "g = dg_global (dd_config dd)"
  have cfg: "dd_config dd = (dd_config (bs_dd s))\<lparr>dg_global := g\<rparr>"
    using r by (auto simp: daemon_devices_reload_def g_def Let_def)
  have paths: "device_path (dcf\<lparr>dg_global := g\<rparr>) = device_path dcf" "state_path (dcf\<lparr>dg_global := g\<rparr>) = state_path dcf" for dcf
    by (simp_all add: device_path_def state_path_def fun_eq_iff)
  have load: "daemon_config_load_remote (dcf\<lparr>dg_global := g\<rparr>) = daemon_config_load_remote dcf" for dcf
    by (simp add: daemon_config_load_remote_def paths fun_eq_iff split: option.split prod.split)
  have "(rm_identity (fst (reload_remote (env\<lparr>de_files := bs_files s\<rparr>) (dd_config dd) x)),
      rm_dc (fst (reload_remote (env\<lparr>de_files := bs_files s\<rparr>) (dd_config dd) x))) = (rm_identity x, rm_dc x)"
    if "x \<in> set (dd_remotes (bs_dd s))" for x
    using assms that
    by (force simp: reload_remote_def cfg load sync_inv_def views_inv_def views_def synced_def split: prod.split)
  then have "views dd = views (bs_dd s)"
    using r cfg by (auto simp: daemon_devices_reload_def views_def Let_def)
  with assms r show "refines_ok (\<lambda>m. m) s (case daemon_devices_reload (env\<lparr>de_files := bs_files s\<rparr>) (bs_dd s) of
      (dd, ops) \<Rightarrow> (ReplyOk, s\<lparr>bs_dd := dd\<rparr>, ops))"
    by (simp add: refines_ok_def configs_def sync_inv_def views_inv_def cfg synced_def load paths state_inv_def)
qed

lemma spec_call_fun:
  "spec_call (MapButton mac k t) = change mac
     (with_active (\<lambda>p. profile_set_button p (keymap_name_to_code (Some k)) (keymap_name_to_code (Some t))))"
  "spec_call (ResetButtons mac) = change mac mutate_reset"
  "spec_call (SetScrollSpeed mac v) = change mac (with_active (\<lambda>p. p\<lparr>scroll_speed := v, has_scroll := True\<rparr>))"
  "spec_call (SetSensitivity mac v) = change mac (with_active (\<lambda>p. p\<lparr>sensitivity := v, has_sens := True\<rparr>))"
  "spec_call (SetCalibPath mac path) = change mac (mutate_calib path)"
  "spec_call Reload = (\<lambda>m. m)"
  by (simp_all add: fun_eq_iff mutate_calib_def [abs_def] mutations_with_active(3) [abs_def])

lemma mutate_reset_savable:
  "dc_savable d \<Longrightarrow> dc_savable (mutate_reset d) \<and> dc_profile (mutate_reset d) = dc_profile d"
  using with_active_savable [of d profile_clear_buttons] savable_clear
  by (simp add: mutations_with_active(3)) (simp add: profile_clear_buttons_def)

lemma bus_method_refines:
  assumes "sync_inv s" and "call_ok call"
  shows "refines_ok (spec_call call) s (bus_method env io pk s call)"
proof (cases call)
  case (MapButton mac k t)
  have known: "keymap_code_to_name (keymap_name_to_code (Some n)) \<noteq> None" if "\<not> keymap_name_to_code (Some n) < 0" for n
    using keymap_code_to_name_known [of n] that by simp
  have "pr_name (profile_set_button p f g) = pr_name p" for p f g by (simp add: profile_set_button_def)
  with MapButton assms known show ?thesis
    by (auto simp: method_map_button_def Let_def mutations_with_active(1) spec_call_fun
        intro!: refines_ok_intros refines_ok_mutate with_active_savable savable_set_button)
next
  case (SetProfile mac n)
  with assms set_profile_refines show ?thesis by simp
next
  case (ResetButtons mac)
  with assms mutate_reset_savable show ?thesis
    by (auto simp: method_reset_buttons_def spec_call_fun intro!: refines_ok_intros refines_ok_mutate)
next
  case (SetScrollSpeed mac v)
  with assms show ?thesis
    by (auto simp: method_set_number_def mutations_with_active(2) spec_call_fun
        intro!: refines_ok_intros refines_ok_mutate with_active_savable savable_scroll)
next
  case (SetSensitivity mac v)
  with assms show ?thesis
    by (auto simp: method_set_number_def mutations_with_active(2) spec_call_fun
        intro!: refines_ok_intros refines_ok_mutate with_active_savable savable_sens)
next
  case (SetCalibPath mac path)
  with assms savable_calib show ?thesis
    by (auto simp: method_set_calib_path_def spec_call_fun mutate_calib_def
        intro!: refines_ok_intros refines_ok_mutate)
next
  case Reload
  with reload_refines [OF assms(1)] show ?thesis by (simp add: spec_call_fun)
next
  case (GetStatus mac)
  with assms show ?thesis
    by (auto simp: method_get_status_def Let_def refines_ok_def on_remote_def fail_def split: option.split)
qed (use assms in \<open>simp_all add: method_list_devices_def refines_ok_def\<close>)


section \<open>Sequences of calls\<close>

fun bus_run :: "(dev_env \<times> io_env \<times> pk_env \<times> method_call) list \<Rightarrow> bus_state \<Rightarrow> reply list \<times> bus_state" where
  "bus_run [] s = ([], s)"
| "bus_run ((env, io, pk, call) # steps) s =
     (case bus_method env io pk s call of (r, s1, ops) \<Rightarrow>
        case bus_run steps s1 of (rs, s2) \<Rightarrow> (r # rs, s2))"

fun spec_run :: "method_call list \<Rightarrow> reply list \<Rightarrow> (string \<rightharpoonup> device_config) \<Rightarrow> string \<rightharpoonup> device_config" where
  "spec_run (c # cs) (r # rs) m = spec_run cs rs (if r = ReplyOk then spec_call c m else m)"
| "spec_run _ _ m = m"

lemma bus_run_refines:
  assumes "sync_inv s" and "list_all (\<lambda>(env, io, pk, call). call_ok call) steps" and "bus_run steps s = (rs, s')"
  shows "sync_inv s' \<and> configs s' = spec_run (map (\<lambda>(env, io, pk, call). call) steps) rs (configs s)"
  using assms
proof (induction steps arbitrary: s rs)
  case (Cons step steps)
  obtain env io pk call where st: "step = (env, io, pk, call)" by (metis prod_cases4)
  obtain r s1 ops where b: "bus_method env io pk s call = (r, s1, ops)" by (metis prod_cases3)
  obtain rs2 where t: "bus_run steps s1 = (rs2, s')" "rs = r # rs2"
    using Cons.prems(3) by (auto simp: st b split: prod.splits)
  have "sync_inv s1" "configs s1 = (if r = ReplyOk then spec_call call (configs s) else configs s)"
    using bus_method_refines [OF Cons.prems(1), of call env io pk] Cons.prems(2) by (auto simp: st b refines_ok_def)
  with Cons.IH [OF _ _ t(1)] Cons.prems(2) show ?case by (simp add: st t(2))
qed simp

lemma sync_loads:
  "sync_inv s \<Longrightarrow> configs s a = Some d \<Longrightarrow> daemon_config_load_remote (dd_config (bs_dd s)) (bs_files s) a = (None, d)"
  by (auto simp: configs_def sync_inv_def views_inv_def synced_def dest!: map_of_SomeD)


lemma sample_sync: "sync_inv sample_bus"
proof -
  have "dc_savable device_config_init" by code_simp
  moreover have "state_inv sample_dcf (\<lambda>_. None)"
    unfolding state_inv_def sample_paths by (simp add: path_join_def toml_load_file_def)
  moreover have "daemon_config_load_remote sample_dcf (\<lambda>_. None) ''unknown'' = (None, device_config_init)"
    by (simp add: load_remote_alt [OF sample_paths(2,1)] device_config_load_file_def override_def state_get_def
        sample_paths state_profile_of_def toml_load_file_def toml_table_get_short_def)
  moreover have "views (bs_dd sample_bus) = [(''unknown'', device_config_init)]"
    by (simp add: views_def sample_bus_def remote_zero_def buf_str_def)
  ultimately show ?thesis
    by (simp add: sync_inv_def views_inv_def sample_bus_remote synced_def sample_paths daemon_identity_valid_def)
qed

lemma root_method:
  "bus_method sample_env io_ok root_caller sample_bus (SetCalibPath ''unknown'' path) =
     save_reply (mutate_and_save sample_env io_ok sample_bus 0 (mutate_calib path))"
  "bus_method sample_env io_ok root_caller sample_bus (SetScrollSpeed ''unknown'' d0) =
     save_reply (mutate_and_save sample_env io_ok sample_bus 0 (mutate_number True d0))"
proof -
  have "\<not> dlt d0 d0" "\<not> dgt d0 (dlit 100 1)" by code_simp+
  then show "bus_method sample_env io_ok root_caller sample_bus (SetScrollSpeed ''unknown'' d0) =
     save_reply (mutate_and_save sample_env io_ok sample_bus 0 (mutate_number True d0))"
    by (simp add: method_set_number_def gated_def gate_def root_authorized on_remote_def sample_bus_remote(1)
        daemon_identity_valid_def)
qed (simp add: method_set_calib_path_def gated_def gate_def root_authorized on_remote_def sample_bus_remote(1)
        daemon_identity_valid_def)



end
