(* ===== verification/Dbus_Correct.thy ===== *)
theory Dbus_Correct
  imports Dbus_Client
begin

text \<open>
  The client and the D-Bus message format: the format as a reference encoder, the calls the client sends
  as its output, and the replies read back from it, however the socket cuts the stream into pieces.
\<close>

section \<open>The message format\<close>

text \<open>Padding at position \<open>pos\<close>, a value of a header field, the fields, a message.\<close>

definition padz :: "nat \<Rightarrow> nat \<Rightarrow> string" where
  "padz al pos = replicate (pad_len al pos) nul"

definition enc_str :: "string \<Rightarrow> string" where
  "enc_str s = le32 (length s) @ s @ [nul]"

definition enc_sig :: "string \<Rightarrow> string" where
  "enc_sig s = char_of (length s) # s @ [nul]"

datatype fval = FStr char string | FSig string | FU nat

fun enc_fval :: "fval \<Rightarrow> string" where
  "enc_fval (FStr t s) = enc_str s"
| "enc_fval (FSig s) = enc_sig s"
| "enc_fval (FU n) = le32 n"

fun fval_sig :: "fval \<Rightarrow> char" where
  "fval_sig (FStr t s) = t"
| "fval_sig (FSig s) = CHR ''g''"
| "fval_sig (FU n) = CHR ''u''"

definition enc_field :: "nat \<Rightarrow> nat \<times> fval \<Rightarrow> string" where
  "enc_field pos f = padz 8 pos @ [char_of (fst f), char_of (1::nat), fval_sig (snd f), nul] @ enc_fval (snd f)"

fun enc_fields :: "nat \<Rightarrow> (nat \<times> fval) list \<Rightarrow> string" where
  "enc_fields pos [] = []"
| "enc_fields pos (f # fs) = enc_field pos f @ enc_fields (pos + length (enc_field pos f)) fs"

definition enc_fixed :: "nat \<Rightarrow> nat \<Rightarrow> nat \<Rightarrow> nat \<Rightarrow> string" where
  "enc_fixed type body_len serial fields_len =
     ''l'' @ [char_of type, nul, char_of (1::nat)] @ le32 body_len @ le32 serial @ le32 fields_len"

definition enc_msg :: "nat \<Rightarrow> nat \<Rightarrow> (nat \<times> fval) list \<Rightarrow> string \<Rightarrow> string" where
  "enc_msg type serial fs body =
     (let f = enc_fields 16 fs
      in enc_fixed type (length body) serial (length f) @ f @ padz 8 (16 + length f) @ body)"

definition enc_arg :: "nat \<Rightarrow> dbus_arg \<Rightarrow> string" where
  "enc_arg pos a =
     (if ar_type a = CHR ''s'' then padz 4 pos @ enc_str (ar_s a)
      else if ar_type a = CHR ''d'' then padz 8 pos @ le64 (ar_d a)
      else padz 4 pos @ le32 (ar_u a))"

fun enc_args :: "nat \<Rightarrow> dbus_arg list \<Rightarrow> string" where
  "enc_args pos [] = []"
| "enc_args pos (a # as) = enc_arg pos a @ enc_args (pos + length (enc_arg pos a)) as"

lemma char_of_0 [simp]: "char_of (0::nat) = nul"
  by code_simp

lemma length_le [simp]: "length (le32 n) = 4" "length (le64 n) = 8"
  by (simp_all add: le32_def le64_def)

lemma length_enc_fixed [simp]: "length (enc_fixed t b s f) = 16"
  by (simp add: enc_fixed_def)

lemma length_padz [simp]: "length (padz al n) = pad_len al n"
  by (simp add: padz_def)

section \<open>Padding\<close>

lemma pad_len_aligned [simp]: "n mod al = 0 \<Longrightarrow> pad_len al n = 0"
  by (simp add: pad_len_def)

lemma pad_len_Suc:
  assumes n: "n mod al \<noteq> 0" and "0 < al"
  shows "pad_len al n = Suc (pad_len al (Suc n))"
proof -
  define r where "r = n mod al"
  have r: "0 < r" "r < al" using assms by (auto simp: r_def)
  have "Suc n mod al = (if Suc r = al then 0 else Suc r)" by (simp add: r_def mod_Suc)
  with r show ?thesis by (auto simp: pad_len_def r_def [symmetric])
qed

text \<open>Everything here only depends on the position modulo 8.\<close>

lemma pad_shift: "pad_len 4 (8 * q + c) = pad_len 4 c" "pad_len 8 (8 * q + c) = pad_len 8 c"
proof -
  have "(8 * q + c) mod 4 = c mod 4" by presburger
  then show "pad_len 4 (8 * q + c) = pad_len 4 c" by (simp only: pad_len_def)
  show "pad_len 8 (8 * q + c) = pad_len 8 c" by (simp only: pad_len_def mod_mult_self4)
qed

lemma pad_small:
  assumes "r < 8"
  shows "pad_len 4 r + pad_len 8 (r + pad_len 4 r) = pad_len 8 r" and "(r + pad_len 4 r) mod 4 = 0"
    and "(r + pad_len 8 r) mod 8 = 0" and "pad_len 4 (r + pad_len 8 r + 4) = 0"
proof -
  have "r = 0 \<or> r = 1 \<or> r = 2 \<or> r = 3 \<or> r = 4 \<or> r = 5 \<or> r = 6 \<or> r = 7" using assms by arith
  then show "pad_len 4 r + pad_len 8 (r + pad_len 4 r) = pad_len 8 r" "(r + pad_len 4 r) mod 4 = 0"
    "(r + pad_len 8 r) mod 8 = 0" "pad_len 4 (r + pad_len 8 r + 4) = 0"
    by (elim disjE; simp add: pad_len_def)+
qed

lemma pad_sum: "pad_len 4 n + pad_len 8 (n + pad_len 4 n) = pad_len 8 n"
  and pad_4: "(n + pad_len 4 n) mod 4 = 0" and pad_8: "(n + pad_len 8 n) mod 8 = 0"
  and pad_4_8: "pad_len 4 (n + pad_len 8 n + 4) = 0"
proof -
  define q r where "q = n div 8" and "r = n mod 8"
  have n: "n = 8 * q + r" and r: "r < 8" by (simp_all add: q_def r_def)
  note s = pad_small [OF r] and e = pad_shift add.assoc [of "8 * q"]
  show "pad_len 4 n + pad_len 8 (n + pad_len 4 n) = pad_len 8 n" unfolding n e using s(1) .
  have "(8 * q + c) mod 4 = c mod 4" for c by presburger
  then show "(n + pad_len 4 n) mod 4 = 0" unfolding n e using s(2) by simp
  show "(n + pad_len 8 n) mod 8 = 0" unfolding n e mod_mult_self4 using s(3) .
  show "pad_len 4 (n + pad_len 8 n + 4) = 0" unfolding n e using s(4) by (simp only: add.assoc)
qed

lemma Suc4: "Suc (Suc (Suc (Suc n))) = n + 4"
  by simp

lemma padz_sum: "padz 4 n @ padz 8 (n + pad_len 4 n) = padz 8 n"
  by (simp add: padz_def replicate_add [symmetric] pad_sum)

section \<open>The writer\<close>

text \<open>The states the writer is in: the bytes so far, and those of them that end in padding.\<close>

definition wst :: "string \<Rightarrow> nat \<Rightarrow> wb" where
  "wst b n = \<lparr>wb_b = b, nodepad = n, oom = False\<rparr>"

lemma wst_simps [simp]:
  "wb_b (wst b n) = b" "nodepad (wst b n) = n" "\<not> oom (wst b n)"
  "wb_put s (wst b n) = wst (b @ s) (length b + length s)"
  "wb_u8 v (wst b n) = wst (b @ [char_of v]) (length b + 1)"
  "wb_u32 v (wst b n) = wst (b @ le32 v) (length b + 4)"
  "wb_u64 v (wst b n) = wst (b @ le64 v) (length b + 8)"
  "wb_zero = wst [] 0"
  by (simp_all add: wst_def wb_put_def wb_u8_def wb_u32_def wb_u64_def wb_zero_def)

lemma wst_pad: "wb_pad al (wst b n) = Some (wst (b @ padz al (length b)) (length b))"
  by (auto simp: wb_pad_def wst_def padz_def)

lemma wst_str:
  "length s \<le> 0x0fffffff \<Longrightarrow> wb_str s (wst b n) =
     Some (wst (b @ enc_str s @ padz 4 (length (b @ enc_str s))) (length (b @ enc_str s)))"
  by (simp add: wb_str_def wst_pad enc_str_def)

lemma wst_sig:
  "length s \<le> 255 \<Longrightarrow> wb_sig s (wst b n) = Some (wst (b @ enc_sig s) (length (b @ enc_sig s)))"
  by (simp add: wb_sig_def enc_sig_def)

lemma hdr_field_str:
  assumes "length s \<le> 0x0fffffff" and "t \<in> {CHR ''o'', CHR ''s''}"
  shows "hdr_field c t wb_str s (wst (pre @ padz 4 (length pre)) n) =
    (let pre' = pre @ enc_field (length pre) (c, FStr t s) in Some (wst (pre' @ padz 4 (length pre')) (length pre')))"
proof -
  have "padz 4 (Suc (Suc (Suc (Suc (length pre + pad_len 8 (length pre)))))) = []"
    using pad_4_8 [of "length pre"] by (simp add: padz_def Suc4)
  moreover have "t = CHR ''o'' \<or> t = CHR ''s'' \<or> t = CHR ''u''" using assms(2) by auto
  ultimately show ?thesis
    using assms(1) padz_sum [of "length pre"] pad_sum [of "length pre"]
    by (simp add: hdr_field_def wst_pad wst_str enc_field_def Let_def add.assoc)
qed


lemma hdr_field_sig:
  assumes "length s \<le> 255"
  shows "hdr_field c (CHR ''g'') wb_sig s (wst (pre @ padz 4 (length pre)) n) =
    (let pre' = pre @ enc_field (length pre) (c, FSig s) in Some (wst pre' (length pre')))"
  using assms padz_sum [of "length pre"] pad_sum [of "length pre"]
  by (simp add: hdr_field_def wst_pad wst_sig enc_field_def Let_def add.assoc)

text \<open>The header of a call.\<close>

definition call_fields :: "string \<Rightarrow> string \<Rightarrow> string \<Rightarrow> string \<Rightarrow> string \<Rightarrow> (nat \<times> fval) list" where
  "call_fields dest path iface member sg =
     [(FIELD_PATH, FStr (CHR ''o'') path), (FIELD_INTERFACE, FStr (CHR ''s'') iface),
      (FIELD_MEMBER, FStr (CHR ''s'') member), (FIELD_DESTINATION, FStr (CHR ''s'') dest)] @
     (if sg = [] then [] else [(FIELD_SIGNATURE, FSig sg)])"

lemma patch_fixed:
  "patch 12 (le32 f) (enc_fixed t b s 0 @ x) = enc_fixed t b s f @ x"
  by (simp add: patch_def enc_fixed_def le32_def)

lemma enc_fields_snoc: "enc_fields pos (fs @ [f]) = enc_fields pos fs @ enc_field (pos + length (enc_fields pos fs)) f"
  by (induction fs arbitrary: pos) (simp_all add: add.assoc)

lemma build_header_wire:
  assumes "length dest \<le> 0x0fffffff" and "length path \<le> 0x0fffffff" and "length iface \<le> 0x0fffffff"
    and "length member \<le> 0x0fffffff" and "length sg \<le> 255"
  shows "\<exists>n. build_header b serial dest path iface member sg =
    (let f = enc_fields 16 (call_fields dest path iface member sg)
     in Some (wst (enc_fixed 1 b serial (length f) @ f @ padz 8 (16 + length f)) n))"
proof -
  define e where "e fs = enc_fixed 1 b serial 0 @ enc_fields 16 fs" for fs
  have e: "e (fs @ [x]) = e fs @ enc_field (length (e fs)) x" for fs x
    by (simp add: e_def enc_fields_snoc)
  have h: "hdr_field c t wb_str s (wst (e fs @ padz 4 (length (e fs))) n) =
      Some (wst (e (fs @ [(c, FStr t s)]) @ padz 4 (length (e (fs @ [(c, FStr t s)])))) (length (e (fs @ [(c, FStr t s)]))))"
    if "length s \<le> 0x0fffffff" "t \<in> {CHR ''o'', CHR ''s''}" for c t s fs n
    using hdr_field_str [OF that] by (simp add: e Let_def)
  have start: "wb_u32 0 (wb_u32 serial (wb_u32 b (wb_u8 1 (wb_u8 0 (wb_u8 1 (wb_put ''l'' wb_zero)))))) =
      wst (e [] @ padz 4 (length (e []))) (length (e []))"
    by (simp add: e_def enc_fixed_def padz_def)
  define fs4 where "fs4 = [(FIELD_PATH, FStr (CHR ''o'') path), (FIELD_INTERFACE, FStr (CHR ''s'') iface),
      (FIELD_MEMBER, FStr (CHR ''s'') member), (FIELD_DESTINATION, FStr (CHR ''s'') dest)]"
  define fs where "fs = call_fields dest path iface member sg"
  have fin: "wb_pad 8 ((wst (e fs @ z) (length (e fs)))\<lparr>wb_b :=
        patch 12 (le32 (length (e fs) - 12 - 4)) (e fs @ z)\<rparr>) =
      Some (wst (enc_fixed 1 b serial (length (enc_fields 16 fs)) @ enc_fields 16 fs @ padz 8 (16 + length (enc_fields 16 fs)))
        (length (e fs @ z)))"
    if "z = padz 4 (length (e fs)) \<or> z = []" for z
  proof -
    have "patch 12 (le32 (length (e fs) - 12 - 4)) (e fs @ z) =
        enc_fixed 1 b serial (length (enc_fields 16 fs)) @ enc_fields 16 fs @ z"
      by (simp add: e_def patch_fixed)
    then have "(wst (e fs @ z) (length (e fs)))\<lparr>wb_b := patch 12 (le32 (length (e fs) - 12 - 4)) (e fs @ z)\<rparr> =
        wst (enc_fixed 1 b serial (length (enc_fields 16 fs)) @ enc_fields 16 fs @ z) (length (e fs))"
      by (simp add: wst_def)
    moreover have "z @ padz 8 (length (e fs @ z)) = padz 8 (16 + length (enc_fields 16 fs))"
      using that padz_sum [of "length (e fs)"] by (auto simp: e_def padz_def add.assoc)
    ultimately show ?thesis using that by (auto simp: wst_pad e_def)
  qed
  define w4 where "w4 = wst (e fs4 @ padz 4 (length (e fs4))) (length (e fs4))"
  define last where "last = (if sg \<noteq> [] then hdr_field FIELD_SIGNATURE (CHR ''g'') wb_sig sg w4 else Some w4)"
  have "build_header b serial dest path iface member sg =
      Option.bind last (\<lambda>w. wb_pad 8 (w\<lparr>wb_b := patch 12 (le32 (nodepad w - 12 - 4)) (wb_b w)\<rparr>))"
    unfolding build_header_def start Let_def last_def w4_def fs4_def using assms by (simp add: h)
  moreover have "last = Some (wst (e fs @ (if sg = [] then padz 4 (length (e fs)) else [])) (length (e fs)))"
    using hdr_field_sig [OF assms(5), of FIELD_SIGNATURE "e fs4"] e [of fs4 "(FIELD_SIGNATURE, FSig sg)"]
    by (auto simp: last_def w4_def fs_def call_fields_def Let_def fs4_def)
  ultimately show ?thesis
    using fin [of "if sg = [] then padz 4 (length (e fs)) else []"]
    unfolding Let_def fs_def [symmetric] by (cases "sg = []") auto
qed

definition arg_ok :: "dbus_arg \<Rightarrow> bool" where
  "arg_ok a \<longleftrightarrow> ar_type a \<in> {CHR ''s'', CHR ''d'', CHR ''u''} \<and> length (ar_s a) \<le> 0x0fffffff"

lemma body_args_wire:
  assumes "list_all arg_ok as" and "z = [] \<or> z = padz 4 (length pre)"
  shows "\<exists>y. body_add_args as (wst (pre @ z) (length pre)) =
    Some (Some (wst (pre @ enc_args (length pre) as @ y) (length (pre @ enc_args (length pre) as))))"
  using assms
proof (induction as arbitrary: pre z)
  case Nil
  then show ?case by auto
next
  case (Cons a as)
  define pre' where "pre' = pre @ enc_arg (length pre) a"
  have p4: "wb_pad 4 (wst (pre @ z) n) = Some (wst (pre @ padz 4 (length pre)) (length (pre @ z)))" for n
    using Cons.prems(2) pad_4 [of "length pre"] by (auto simp: wst_pad padz_def)
  have p8: "wb_pad 8 (wst (pre @ z) n) = Some (wst (pre @ padz 8 (length pre)) (length (pre @ z)))" for n
    using Cons.prems(2) padz_sum [of "length pre"] by (auto simp: wst_pad)
  have "\<exists>z'. (z' = [] \<or> z' = padz 4 (length pre')) \<and>
      body_add_arg a (wst (pre @ z) (length pre)) = Some (Some (wst (pre' @ z') (length pre')))"
    using Cons.prems(1)
    by (auto simp: body_add_arg_def p4 p8 wst_str pre'_def enc_arg_def arg_ok_def add.assoc)
  then obtain z' where z': "z' = [] \<or> z' = padz 4 (length pre')"
    "body_add_arg a (wst (pre @ z) (length pre)) = Some (Some (wst (pre' @ z') (length pre')))" by blast
  with Cons.IH [OF _ z'(1)] Cons.prems(1) show ?case by (simp add: pre'_def add.assoc)
qed

lemma build_call_eq:
  assumes "length args = length sg" and "length sg \<le> 255" and "list_all arg_ok args"
    and "length (enc_msg 1 serial (call_fields dest path iface member sg) (enc_args 0 args)) \<le> MAX_MESSAGE"
  shows "build_call serial dest path iface member sg args =
    Some (Some (enc_msg 1 serial (call_fields dest path iface member sg) (enc_args 0 args)))"
proof -
  define f where "f = enc_fields 16 (call_fields dest path iface member sg)"
  have "length f \<le> MAX_MESSAGE" using assms(4) by (simp add: enc_msg_def f_def Let_def)
  then have "length f \<le> 0x0fffffff" by (simp add: MAX_MESSAGE_def)
  then have l: "length dest \<le> 0x0fffffff" "length path \<le> 0x0fffffff" "length iface \<le> 0x0fffffff" "length member \<le> 0x0fffffff"
    by (simp_all add: f_def call_fields_def enc_field_def enc_str_def)
  obtain z where b: "body_add_args args (wst [] 0) = Some (Some (wst (enc_args 0 args @ z) (length (enc_args 0 args))))"
    using body_args_wire [OF assms(3), of "[]" "[]"] by auto
  obtain n where h: "build_header (length (enc_args 0 args)) serial dest path iface member sg =
      Some (wst (enc_fixed 1 (length (enc_args 0 args)) serial (length f) @ f @ padz 8 (16 + length f)) n)"
    using build_header_wire [OF l assms(2)] by (auto simp: Let_def f_def)
  have "length (enc_fixed 1 (length (enc_args 0 args)) serial (length f) @ f @ padz 8 (16 + length f)) + length (enc_args 0 args) \<le> MAX_MESSAGE"
    using assms(4) by (simp add: enc_msg_def f_def Let_def)
  then show ?thesis
    using assms(1) by (simp add: build_call_def b h enc_msg_def f_def [symmetric] Let_def)
qed

text \<open>
  C11: the client sends messages of the D-Bus format: for every call whose message fits in the size limit,
  the bytes are those of the reference encoder, with every length and every alignment as the format asks.
\<close>

theorem build_call_wire:
  assumes "length args = length sg" and "length sg \<le> 255" and "list_all arg_ok args"
    and "length (enc_msg 1 serial (call_fields dest path iface member sg) (enc_args 0 args)) \<le> MAX_MESSAGE"
  shows "build_call serial dest path iface member sg args =
    Some (Some (enc_msg 1 serial (call_fields dest path iface member sg) (enc_args 0 args)))"
  using assms by (rule build_call_eq)


section \<open>Reading numbers and padding\<close>

lemma u32_of_le:
  assumes "v < 2 ^ 32"
  shows "u32_of (v mod 256) (v div 256 mod 256) (v div 256 ^ 2 mod 256) (v div 256 ^ 3 mod 256) = v"
proof -
  define a b c where "a = v div 256" and "b = a div 256" and "c = b div 256"
  have "v div 256 ^ 2 = b" "v div 256 ^ 3 = c"
    by (simp_all add: a_def b_def c_def div_mult2_eq [symmetric])
  moreover have "v = 256 * a + v mod 256" "a = 256 * b + a mod 256" "b = 256 * c + b mod 256"
    by (simp_all add: a_def b_def c_def)
  moreover have "c < 256" using assms by (simp add: a_def b_def c_def less_mult_imp_div_less)
  ultimately show ?thesis unfolding u32_of_def a_def [symmetric] by simp
qed

lemma u32_at_le32:
  assumes "v < 2 ^ 32"
  shows "u32_at (pre @ le32 v @ post) (length pre) = v"
proof -
  have "u32_at (pre @ le32 v @ post) (length pre) =
      u32_of (v mod 256) (v div 256 mod 256) (v div 256 ^ 2 mod 256) (v div 256 ^ 3 mod 256)"
    by (simp add: u32_at_def le32_def nth_append of_char_of)
  with u32_of_le [OF assms] show ?thesis by simp
qed

lemma skip_to_eq:
  assumes "0 < al" and "n + pad_len al n \<le> fend"
  shows "skip_to al fend n = n + pad_len al n"
  using assms
proof (induction al fend n rule: skip_to.induct)
  case (1 al fend n)
  show ?case
  proof (cases "n mod al = 0")
    case True
    then show ?thesis by (subst skip_to.simps) simp
  next
    case False
    then have p: "pad_len al n = Suc (pad_len al (Suc n))" using pad_len_Suc 1(2) by blast
    with 1(3) have "n < fend" by simp
    with False 1 p show ?thesis by (subst skip_to.simps) simp
  qed
qed

lemma skip_to_end: "skip_to al fend fend = fend"
  by (subst skip_to.simps) simp

lemma rd_u32_eq:
  assumes "\<not> rd_err r" and "rd_p r + 4 \<le> rd_end r"
  shows "rd_u32 buf r = (u32_at buf (rd_p r), r\<lparr>rd_p := rd_p r + 4, rd_off := rd_off r + 4\<rparr>)"
  using assms by (simp add: rd_u32_def rd_u8_def u32_at_def numeral_3_eq_3 Suc4 [symmetric])

lemma rd_pad_eq:
  assumes "0 < al" and "\<not> rd_err r" and "rd_p r \<le> rd_end r"
  shows "rd_pad buf r 0 al = (let k = min (pad_len al (rd_off r)) (rd_end r - rd_p r)
    in r\<lparr>rd_p := rd_p r + k, rd_off := rd_off r + k\<rparr>)"
  using assms
proof (induction buf r "0::nat" al rule: rd_pad.induct)
  case (1 buf r al)
  show ?case
  proof (cases "rd_off r mod al \<noteq> 0 \<and> rd_p r < rd_end r")
    case True
    define r1 where "r1 = r\<lparr>rd_p := rd_p r + 1, rd_off := rd_off r + 1\<rparr>"
    have r1: "snd (rd_u8 buf r) = r1" using True 1(3) by (simp add: rd_u8_def r1_def)
    have "rd_pad buf r 0 al = rd_pad buf r1 0 al"
      using True 1(3) by (subst rd_pad.simps) (simp add: r1 r1_def)
    also have "\<dots> = (let k = min (pad_len al (rd_off r1)) (rd_end r1 - rd_p r1)
        in r1\<lparr>rd_p := rd_p r1 + k, rd_off := rd_off r1 + k\<rparr>)"
      using 1(1) [of r1] True 1(2,3) by (simp add: r1 r1_def)
    finally show ?thesis
      using True pad_len_Suc [of "rd_off r" al] 1(2) by (simp add: r1_def Let_def min_def) auto
  next
    case False
    then show ?thesis using 1(4) by (subst rd_pad.simps) (auto simp: Let_def)
  qed
qed

section \<open>Header fields\<close>

fun field_ok :: "nat \<times> fval \<Rightarrow> bool" where
  "field_ok (c, FStr t s) \<longleftrightarrow> c < 256 \<and> t \<in> {CHR ''s'', CHR ''o''} \<and> cstring s"
| "field_ok (c, FSig s) \<longleftrightarrow> c < 256 \<and> cstring s \<and> length s \<le> 255"
| "field_ok (c, FU n) \<longleftrightarrow> c < 256 \<and> n < 2 ^ 32"

text \<open>What a field says.\<close>

fun field_effect :: "hdr_fields \<Rightarrow> nat \<times> fval \<Rightarrow> hdr_fields" where
  "field_effect h (c, FStr t s) =
     (if c = FIELD_ERROR_NAME then h\<lparr>hf_error := Some s\<rparr> else if c = FIELD_SIGNATURE then h\<lparr>hf_sig := Some s\<rparr> else h)"
| "field_effect h (c, FSig s) = (if c = FIELD_SIGNATURE then h\<lparr>hf_sig := Some s\<rparr> else h)"
| "field_effect h (c, FU n) = (if c = FIELD_REPLY_SERIAL then h\<lparr>hf_serial := n\<rparr> else h)"


lemma wrap_dec: "0 < x \<Longrightarrow> x < m \<Longrightarrow> (x + m - 1) mod m = x - (1::nat)"
proof -
  assume "0 < x" "x < m"
  then have "x + m - 1 = (x - 1) + m" by simp
  with \<open>x < m\<close> show ?thesis by (simp only: mod_add_self2) simp
qed

lemma nth_after: "i < length x \<Longrightarrow> (pre @ x @ post) ! (length pre + i) = x ! i"
  by (simp add: nth_append)

text \<open>The three kinds of fields, at their first byte \<open>p\<close>.\<close>

lemma header_field_at:
  assumes "skip_to 8 fend fp = p" and "p + 4 \<le> fend" and "of_char (buf ! (p + 1)) = (1::nat)" and "buf ! (p + 3) = nul"
    and "skip_to 4 fend (p + 4) = p + 4"
  shows "buf ! (p + 2) = t \<Longrightarrow> t = CHR ''s'' \<or> t = CHR ''o'' \<Longrightarrow> u32_at buf (p + 4) = len \<Longrightarrow>
      p + 8 + len < fend \<Longrightarrow> fend \<le> length buf \<Longrightarrow> fend < 2 ^ 32 \<Longrightarrow> buf ! (p + 8 + len) = nul \<Longrightarrow>
      header_field buf fend fp h = Some (Some (skip_to 4 fend (p + 8 + len + 1),
        field_effect h (of_char (buf ! p), FStr t (cstr (take len (drop (p + 8) buf))))))"
    and "buf ! (p + 2) = CHR ''u'' \<Longrightarrow> p + 8 \<le> fend \<Longrightarrow>
      header_field buf fend fp h = Some (Some (p + 8, field_effect h (of_char (buf ! p), FU (u32_at buf (p + 4)))))"
    and "buf ! (p + 2) = CHR ''g'' \<Longrightarrow> of_char (buf ! (p + 4)) = len \<Longrightarrow> p + 5 + len + 1 \<le> fend \<Longrightarrow>
      header_field buf fend fp h = Some (Some (p + 5 + len + 1,
        field_effect h (of_char (buf ! p), FSig (cstr (take len (drop (p + 5) buf))))))"
proof -
  assume a: "buf ! (p + 2) = t" "t = CHR ''s'' \<or> t = CHR ''o''" "u32_at buf (p + 4) = len" "p + 8 + len < fend"
    "fend \<le> length buf" "fend < 2 ^ 32" "buf ! (p + 8 + len) = nul"
  have p8: "p + 4 + 4 = p + 8" by simp
  have w: "\<not> len > (fend - (p + 4 + 4) + 2 ^ 64 - 1) mod 2 ^ 64" unfolding p8 using a(4,6) by (subst wrap_dec) auto
  show "header_field buf fend fp h = Some (Some (skip_to 4 fend (p + 8 + len + 1),
        field_effect h (of_char (buf ! p), FStr t (cstr (take len (drop (p + 8) buf))))))"
    unfolding header_field_def Let_def assms(1) a(1) assms(5) field_effect.simps
    using assms(2,3,4) a(2-5,7) w by (auto simp: p8)
next
  assume "buf ! (p + 2) = CHR ''u''" "p + 8 \<le> fend"
  then show "header_field buf fend fp h = Some (Some (p + 8, field_effect h (of_char (buf ! p), FU (u32_at buf (p + 4)))))"
    unfolding header_field_def Let_def assms(1) using assms(2-5) by simp
next
  assume "buf ! (p + 2) = CHR ''g''" "of_char (buf ! (p + 4)) = len" "p + 5 + len + 1 \<le> fend"
  then show "header_field buf fend fp h = Some (Some (p + 5 + len + 1,
        field_effect h (of_char (buf ! p), FSig (cstr (take len (drop (p + 5) buf))))))"
    unfolding header_field_def Let_def assms(1) using assms(2-4) by (simp add: ac_simps)
qed


text \<open>One field of the format, read from before its padding; \<open>field_end\<close> is where the loop goes on.\<close>

definition field_end :: "nat \<Rightarrow> fval \<Rightarrow> nat \<Rightarrow> nat" where
  "field_end fend v n = (case v of FStr t s \<Rightarrow> skip_to 4 fend n | _ \<Rightarrow> n)"

lemma header_field_wire:
  assumes "field_ok (c, v)" and "buf = pre @ enc_field (length pre) (c, v) @ post"
    and "length pre + length (enc_field (length pre) (c, v)) \<le> fend" and "fend \<le> length buf" and "fend < 2 ^ 32"
    and "skip_to 8 fend fp = skip_to 8 fend (length pre)"
  shows "header_field buf fend fp h =
    Some (Some (field_end fend v (length pre + length (enc_field (length pre) (c, v))), field_effect h (c, v)))"
proof -
  define p where "p = length pre + pad_len 8 (length pre)"
  define e where "e = enc_fval v"
  define pre1 where "pre1 = pre @ padz 8 (length pre)"
  define pre2 where "pre2 = pre1 @ [char_of c, char_of (1::nat), fval_sig v, nul]"
  have l: "length pre1 = p" "length pre2 = p + 4" by (simp_all add: pre1_def pre2_def p_def)
  have len: "length pre + length (enc_field (length pre) (c, v)) = p + 4 + length e"
    by (simp add: enc_field_def e_def p_def)
  have pf: "p + 4 + length e \<le> fend" using assms(3) by (simp add: len)
  have b2: "buf = pre2 @ e @ post"
    using assms(2) by (simp add: enc_field_def pre1_def pre2_def e_def)
  have n: "buf ! p = char_of c" "buf ! (p + 1) = char_of (1::nat)" "buf ! (p + 2) = fval_sig v" "buf ! (p + 3) = nul"
    unfolding b2 pre2_def by (simp_all add: l(1) [symmetric] nth_append)
  have "c < 256" using assms(1) by (cases v) simp_all
  then have c: "of_char (buf ! p) = c" "of_char (buf ! (p + 1)) = (1::nat)"
    unfolding n by (simp_all add: of_char_of)
  have sk: "skip_to 8 fend fp = p"
    unfolding assms(6) p_def using pf by (intro skip_to_eq) (simp_all add: p_def)
  have "(p + 4) mod 4 = 0" using pad_8 [of "length pre"] unfolding p_def by presburger
  then have s4: "skip_to 4 fend (p + 4) = p + 4" by (subst skip_to.simps) simp
  note rules = header_field_at [OF sk _ c(2) n(4) s4, where h = h, unfolded c(1) n(3)]
  show ?thesis
  proof (cases v)
    case (FStr t s)
    have e: "e = le32 (length s) @ s @ [nul]" by (simp add: e_def FStr enc_str_def)
    have m: "length s < 2 ^ 32" "p + 8 + length s < fend" using pf assms(5) by (simp_all add: e)
    have u: "u32_at buf (p + 4) = length s"
      unfolding b2 e l(2) [symmetric] using u32_at_le32 [OF m(1), of pre2] by simp
    have x: "buf ! (p + 8 + length s) = nul" "cstr (take (length s) (drop (p + 8) buf)) = s"
      using assms(1) unfolding b2 e by (simp_all add: l(2) nth_append FStr)
    have q: "p + 4 + length e = p + 8 + length s + 1" by (simp add: e)
    have "header_field buf fend fp h = Some (Some (skip_to 4 fend (p + 8 + length s + 1),
        field_effect h (c, FStr t (cstr (take (length s) (drop (p + 8) buf))))))"
      by (rule rules(1)) (use assms(1,4,5) pf u m x(1) in \<open>auto simp: FStr\<close>)
    then show ?thesis unfolding field_end_def len q x(2) by (simp add: FStr)
  next
    case (FSig s)
    have e: "e = char_of (length s) # s @ [nul]" by (simp add: e_def FSig enc_sig_def)
    have "of_char (buf ! (p + 4)) = length s"
      using assms(1) unfolding b2 e by (simp add: FSig l(2) [symmetric] of_char_of)
    moreover have "cstr (take (length s) (drop (p + 5) buf)) = s"
      using assms(1) unfolding b2 e by (simp add: FSig l(2))
    ultimately have u: "of_char (buf ! (p + 4)) = length s" "cstr (take (length s) (drop (p + 5) buf)) = s" by simp_all
    have q: "p + 4 + length e = p + 5 + length s + 1" by (simp add: e)
    have "header_field buf fend fp h = Some (Some (p + 5 + length s + 1,
        field_effect h (c, FSig (cstr (take (length s) (drop (p + 5) buf))))))"
      by (rule rules(3)) (use pf u(1) q in \<open>auto simp: FSig\<close>)
    then show ?thesis unfolding field_end_def len q u(2) by (simp add: FSig)
  next
    case (FU m)
    have "u32_at buf (p + 4) = m"
      using assms(1) u32_at_le32 [of m pre2] unfolding b2 e_def l(2) [symmetric] by (simp add: FU)
    moreover have "header_field buf fend fp h = Some (Some (p + 8, field_effect h (c, FU (u32_at buf (p + 4)))))"
      by (rule rules(2)) (use pf in \<open>auto simp: FU e_def\<close>)
    ultimately show ?thesis unfolding field_end_def len by (simp add: FU e_def)
  qed
qed


lemma field_end_skip:
  assumes "n + pad_len 8 n \<le> fend"
  shows "skip_to 8 fend (field_end fend v n) = skip_to 8 fend n" and "field_end fend v n \<le> n + pad_len 8 n"
proof -
  have "pad_len 4 n \<le> pad_len 8 n" using pad_sum [of n] by simp
  moreover from this have "skip_to 4 fend n = n + pad_len 4 n" using assms by (intro skip_to_eq) simp_all
  moreover have "skip_to 8 fend (n + pad_len 4 n) = n + pad_len 4 n + pad_len 8 (n + pad_len 4 n)"
    using assms pad_sum [of n] by (intro skip_to_eq) simp_all
  moreover have "skip_to 8 fend n = n + pad_len 8 n" using assms by (intro skip_to_eq) simp_all
  ultimately show "skip_to 8 fend (field_end fend v n) = skip_to 8 fend n" "field_end fend v n \<le> n + pad_len 8 n"
    using pad_sum [of n] by (auto simp: field_end_def split: fval.split)
qed

lemma enc_fields_pad: "fs \<noteq> [] \<Longrightarrow> pad_len 8 pos < length (enc_fields pos fs)"
  by (cases fs) (auto simp: enc_field_def)

lemma header_loop_wire:
  assumes "list_all field_ok fs" and "buf = pre @ enc_fields (length pre) fs @ post"
    and "fend = length pre + length (enc_fields (length pre) fs)" and "fend < 2 ^ 32"
    and "fs = [] \<longrightarrow> fp = fend" and "fs \<noteq> [] \<longrightarrow> fp < fend \<and> skip_to 8 fend fp = skip_to 8 fend (length pre)"
  shows "header_loop buf fend fp h = Some (Some (fend, foldl field_effect h fs))"
  using assms
proof (induction fs arbitrary: pre fp h)
  case Nil
  then show ?case by (subst header_loop.simps) simp
next
  case (Cons f fs)
  obtain c v where f: "f = (c, v)" by (cases f)
  define pre' where "pre' = pre @ enc_field (length pre) f"
  define fp' where "fp' = field_end fend v (length pre')"
  have buf: "buf = pre' @ enc_fields (length pre') fs @ post" "fend = length pre' + length (enc_fields (length pre') fs)"
    using Cons.prems(2,3) by (simp_all add: pre'_def)
  have "header_field buf fend fp h = Some (Some (field_end fend v (length pre + length (enc_field (length pre) (c, v))),
      field_effect h (c, v)))"
    using Cons.prems buf
    by (intro header_field_wire [where post = "enc_fields (length pre') fs @ post"]) (auto simp: pre'_def f)
  then have h: "header_field buf fend fp h = Some (Some (fp', field_effect h f))"
    by (simp add: fp'_def pre'_def f)
  have "header_loop buf fend fp' (field_effect h f) = Some (Some (fend, foldl field_effect (field_effect h f) fs))"
  proof (rule Cons.IH [OF _ buf Cons.prems(4)])
    show "fs = [] \<longrightarrow> fp' = fend"
      using buf(2) by (auto simp: fp'_def field_end_def skip_to_end split: fval.split)
    show "fs \<noteq> [] \<longrightarrow> fp' < fend \<and> skip_to 8 fend fp' = skip_to 8 fend (length pre')"
      using field_end_skip [of "length pre'" fend v] enc_fields_pad [of fs "length pre'"] buf(2)
      by (auto simp: fp'_def)
  qed (use Cons.prems(1) in simp)
  with h Cons.prems(6) show ?case by (subst header_loop.simps) simp
qed

lemma parse_header_wire:
  assumes "list_all field_ok fs" and "length (enc_fields 16 fs) \<le> MAX_MESSAGE"
  shows "parse_header_fields (enc_msg t n fs body) 16 (length (enc_fields 16 fs)) =
    Some (Some (foldl field_effect \<lparr>hf_error = None, hf_sig = None, hf_serial = 0\<rparr> fs))"
proof -
  define f where "f = enc_fields 16 fs"
  define pre where "pre = enc_fixed t (length body) n (length f)"
  have m: "enc_msg t n fs body = pre @ enc_fields (length pre) fs @ padz 8 (16 + length f) @ body"
    by (simp add: enc_msg_def f_def pre_def Let_def)
  have "header_loop (enc_msg t n fs body) (16 + length f) 16 \<lparr>hf_error = None, hf_sig = None, hf_serial = 0\<rparr> =
      Some (Some (16 + length f, foldl field_effect \<lparr>hf_error = None, hf_sig = None, hf_serial = 0\<rparr> fs))"
    using assms enc_fields_pad [of fs 16]
    by (intro header_loop_wire [OF _ m]) (auto simp: f_def pre_def MAX_MESSAGE_def)
  then show ?thesis by (simp add: parse_header_fields_def f_def [symmetric] m) (simp add: f_def pre_def)
qed

section \<open>Values\<close>

fun enc_strs :: "string list \<Rightarrow> string" where
  "enc_strs [] = []"
| "enc_strs [s] = enc_str s"
| "enc_strs (s # ss) = enc_str s @ padz 4 (length (enc_str s)) @ enc_strs ss"

fun enc_value :: "dbus_value \<Rightarrow> string" where
  "enc_value DEmpty = []"
| "enc_value (DString s) = enc_str s"
| "enc_value (DStrings ss) = le32 (length (enc_strs ss)) @ enc_strs ss"
| "enc_value (DVariant sg s) = enc_sig sg @ padz 4 (length (enc_sig sg)) @ enc_str s"

fun value_sig :: "dbus_value \<Rightarrow> string" where
  "value_sig DEmpty = []"
| "value_sig (DString s) = ''s''"
| "value_sig (DStrings ss) = ''as''"
| "value_sig (DVariant sg s) = ''v''"

fun value_ok :: "dbus_value \<Rightarrow> bool" where
  "value_ok DEmpty \<longleftrightarrow> True"
| "value_ok (DString s) \<longleftrightarrow> cstring s"
| "value_ok (DStrings ss) \<longleftrightarrow> list_all cstring ss"
| "value_ok (DVariant sg s) \<longleftrightarrow> sg = ''s'' \<and> cstring s"

lemma rd_str_wire:
  assumes "buf = pre @ enc_str s @ post" and "cstring s" and "r = \<lparr>rd_p = length pre, rd_end = en, rd_off = off, rd_err = False\<rparr>"
    and "length pre + length (enc_str s) \<le> en" and "en \<le> length buf" and "en < 2 ^ 32"
  shows "rd_str buf r = (let k = min (pad_len 4 (off + length (enc_str s))) (en - (length pre + length (enc_str s)))
    in Some (Some s, r\<lparr>rd_p := length pre + length (enc_str s) + k, rd_off := off + length (enc_str s) + k\<rparr>))"
proof -
  have l: "length (enc_str s) = length s + 5" by (simp add: enc_str_def)
  have s: "length s < 2 ^ 32" using assms(4,6) l by simp
  have u: "rd_u32 buf r = (length s, r\<lparr>rd_p := length pre + 4, rd_off := off + 4\<rparr>)"
    using rd_u32_eq [of r buf] u32_at_le32 [OF s, of pre "s @ [nul] @ post"] assms(1,3,4) l by (simp add: enc_str_def)
  have z: "buf ! (length pre + 4 + length s) = nul" "take (length s) (drop (length pre + 4) buf) = s"
    unfolding assms(1) enc_str_def by (simp_all add: nth_append)
  have "(en - (length pre + 4)) mod 2 ^ 32 = en - (length pre + 4)" using assms(6) by simp
  then have w: "\<not> length s > ((en - (length pre + 4)) mod 2 ^ 32 + 2 ^ 32 - 1) mod 2 ^ 32"
    using assms(4,6) l by (simp only:) (subst wrap_dec, auto)
  have p: "rd_pad buf (r\<lparr>rd_p := length pre + 4 + length s + 1, rd_off := off + 4 + length s + 1\<rparr>) 0 4 =
      (let k = min (pad_len 4 (off + length (enc_str s))) (en - (length pre + length (enc_str s)))
       in r\<lparr>rd_p := length pre + length (enc_str s) + k, rd_off := off + length (enc_str s) + k\<rparr>)"
    using assms(3,4) l by (subst rd_pad_eq) (simp_all add: Let_def ac_simps)
  show ?thesis
    unfolding rd_str_def u prod.case using w z p assms(2,3,4,5) l by (simp add: Let_def)
qed


lemma pad_off: "off mod 4 = 0 \<Longrightarrow> pad_len 4 (off + n) = pad_len 4 n"
  by (simp add: pad_len_def mod_add_left_eq [symmetric, of off])

lemma rd_strings_wire:
  assumes "list_all cstring ss" and "buf = pre @ enc_strs ss @ post" and "en = length pre + length (enc_strs ss)"
    and "en < 2 ^ 32" and "off mod 4 = 0"
  shows "rd_strings buf \<lparr>rd_p = length pre, rd_end = en, rd_off = off, rd_err = False\<rparr> items =
    Some (Some (items @ ss), \<lparr>rd_p = en, rd_end = en, rd_off = off + length (enc_strs ss), rd_err = False\<rparr>)"
  using assms
proof (induction ss arbitrary: pre off items)
  case Nil
  then show ?case by (subst rd_strings.simps) simp
next
  case (Cons s ss)
  define r where "r = \<lparr>rd_p = length pre, rd_end = en, rd_off = off, rd_err = False\<rparr>"
  define z where "z = (if ss = [] then [] else padz 4 (length (enc_str s)))"
  have e: "enc_strs (s # ss) = enc_str s @ z @ enc_strs ss" by (cases ss) (auto simp: z_def)
  define pre' where "pre' = pre @ enc_str s @ z"
  have buf: "buf = pre' @ enc_strs ss @ post" "en = length pre' + length (enc_strs ss)"
    using Cons.prems(2,3) by (simp_all add: e pre'_def)
  have k: "min (pad_len 4 (off + length (enc_str s))) (en - (length pre + length (enc_str s))) = length z"
    using buf(2) pad_off [OF Cons.prems(5)] by (auto simp: z_def pre'_def)
  have "rd_str buf r = Some (Some s, r\<lparr>rd_p := length pre', rd_off := off + length (enc_str s) + length z\<rparr>)"
    using Cons.prems buf k
    by (subst rd_str_wire [where pre = pre and s = s and post = "z @ enc_strs ss @ post" and en = en and off = off])
      (auto simp: e r_def pre'_def Let_def)
  moreover have "off + length (enc_str s) + length z = off + length (enc_str s) \<and> ss = [] \<or>
      (off + length (enc_str s) + length z) mod 4 = 0"
    using pad_4 [of "length (enc_str s)"] Cons.prems(5) by (auto simp: z_def) presburger
  moreover have "rd_p r < rd_end r" using Cons.prems(3) by (simp add: r_def e enc_str_def)
  moreover have "ss = [] \<Longrightarrow> z = []" by (simp add: z_def)
  ultimately show ?case
    using Cons.IH [OF _ buf Cons.prems(4), of "off + length (enc_str s) + length z" "items @ [s]"] Cons.prems(1) buf
    by (subst rd_strings.simps, cases "ss = []")
      (auto simp: r_def [symmetric] e, auto simp: r_def e rd_strings.simps [of _ "\<lparr>rd_p = _, rd_end = _, rd_off = _, rd_err = _\<rparr>"])
qed

lemma rd_value_wire:
  assumes "value_ok v" and "v \<noteq> DEmpty" and "buf = pre @ enc_value v" and "length buf < 2 ^ 32"
    and r_def: "r = \<lparr>rd_p = length pre, rd_end = length buf, rd_off = 0, rd_err = False\<rparr>"
  shows "\<exists>r'. rd_value buf r (value_sig v) = Some (Some v, r') \<and> \<not> rd_err r' \<and> rd_p r' = length buf \<and>
    rd_end r' = length buf"
proof -
  have pad0: "rd_pad buf r 0 4 = r" by (subst rd_pad.simps) (simp add: r_def)
  show ?thesis
  proof (cases v)
    case (DString s)
    have l: "length buf = length pre + length (enc_str s)" using assms(3) by (simp add: DString)
    have "rd_str buf r = (let k = min (pad_len 4 (0 + length (enc_str s))) (length buf - (length pre + length (enc_str s)))
        in Some (Some s, r\<lparr>rd_p := length pre + length (enc_str s) + k, rd_off := 0 + length (enc_str s) + k\<rparr>))"
      using assms l by (intro rd_str_wire [where post = "[]"]) (simp_all add: DString r_def)
    with l have "rd_str buf r = Some (Some s, r\<lparr>rd_p := length buf, rd_off := length (enc_str s)\<rparr>)" by simp
    then show ?thesis unfolding DString value_sig.simps rd_value_def pad0 by (simp add: r_def)
  next
    case (DStrings ss)
    define n where "n = length (enc_strs ss)"
    have b: "buf = pre @ le32 n @ enc_strs ss" using assms(3) by (simp add: DStrings n_def)
    have n: "n < 2 ^ 32" "length buf = length pre + 4 + n" using assms(4) by (simp_all add: b n_def)
    have u: "rd_u32 buf r = (n, r\<lparr>rd_p := length pre + 4, rd_off := 4\<rparr>)"
      using u32_at_le32 [OF n(1), of pre "enc_strs ss"] n by (subst rd_u32_eq) (simp_all add: r_def b)
    have "rd_strings buf \<lparr>rd_p = length (pre @ le32 n), rd_end = length buf, rd_off = 0, rd_err = False\<rparr> [] =
        Some (Some ([] @ ss), \<lparr>rd_p = length buf, rd_end = length buf, rd_off = 0 + length (enc_strs ss), rd_err = False\<rparr>)"
      using assms by (intro rd_strings_wire [where post = "[]"]) (simp_all add: DStrings b n_def)
    with n show ?thesis
      by (simp add: rd_value_def pad0 u DStrings) (simp add: r_def)
  next
    case (DVariant sg s)
    define pre' where "pre' = pre @ enc_sig ''s'' @ [nul]"
    have sg: "sg = ''s''" "cstring s" using assms(1) by (simp_all add: DVariant)
    have b: "buf = pre' @ enc_str s" "length pre' = length pre + 4"
      using assms(3) by (simp_all add: DVariant sg pre'_def enc_sig_def padz_def pad_len_def)
    have lb: "length buf = length pre + 4 + length (enc_str s)" using b by simp
    have i: "buf ! length pre = char_of (1::nat)" "take 1 (drop (length pre + 1) buf) = ''s''"
      unfolding b pre'_def enc_sig_def by (simp_all add: nth_append)
    have u: "rd_u8 buf r = (1, r\<lparr>rd_p := length pre + 1, rd_off := 1\<rparr>)"
      using lb by (simp add: rd_u8_def r_def i of_char_of)
    define r2 where "r2 = r\<lparr>rd_p := length pre + 3, rd_off := 3\<rparr>"
    have u2: "snd (rd_u8 buf (r\<lparr>rd_p := Suc (Suc (length pre)), rd_off := Suc (Suc 0)\<rparr>)) = r2"
      using lb by (simp add: rd_u8_def r_def r2_def numeral_3_eq_3)
    have p: "rd_pad buf r2 0 4 = r\<lparr>rd_p := length pre', rd_off := 4\<rparr>"
      using lb b(2) by (subst rd_pad_eq) (simp_all add: r2_def r_def pad_len_def Let_def)
    have "rd_str buf (r\<lparr>rd_p := length pre', rd_off := 4\<rparr>) =
        (let k = min (pad_len 4 (4 + length (enc_str s))) (length buf - (length pre' + length (enc_str s)))
         in Some (Some s, (r\<lparr>rd_p := length pre', rd_off := 4\<rparr>)\<lparr>rd_p := length pre' + length (enc_str s) + k, rd_off := 4 + length (enc_str s) + k\<rparr>))"
      using assms(4) b sg(2) by (intro rd_str_wire [where post = "[]"]) (simp_all add: r_def)
    then show ?thesis
      using i(2) lb b(2) by (simp add: rd_value_def u DVariant sg u2 p cstr_def Let_def) (simp add: r_def enc_str_def)
  qed (use assms(2) in simp)
qed


section \<open>The stream\<close>

text \<open>The bytes that arrive before the connection fails.\<close>

fun arriving :: "sock_res list \<Rightarrow> string" where
  "arriving (Chunk b # k) = (if b = [] then [] else b @ arriving k)"
| "arriving (Interrupted # k) = arriving k"
| "arriving _ = []"

lemma refill_arriving: "arriving k \<noteq> [] \<Longrightarrow> \<exists>b k'. refill k = (Inr b, k') \<and> arriving k = b @ arriving k'"
  by (induction k rule: arriving.induct) (auto split: if_splits)

lemma readn_loop_arriving:
  "need \<le> length (rbuf @ arriving k) \<Longrightarrow> \<exists>rbuf' k'. readn_loop need got rbuf k =
     (Inr (got @ take need (rbuf @ arriving k)), rbuf', k') \<and> rbuf' @ arriving k' = drop need (rbuf @ arriving k)"
proof (induction need got rbuf k rule: readn_loop.induct)
  case (1 need got rbuf k)
  consider "need = 0" | "need \<noteq> 0" "rbuf \<noteq> []" | "need \<noteq> 0" "rbuf = []" by blast
  then show ?case
  proof cases
    case 1
    then show ?thesis by (subst readn_loop.simps) simp
  next
    case 2
    have "\<exists>rbuf' k'. readn_loop (need - n) (got @ take n rbuf) (drop n rbuf) k =
        (Inr (got @ take n rbuf @ take (need - n) (drop n rbuf @ arriving k)), rbuf', k') \<and>
        rbuf' @ arriving k' = drop (need - n) (drop n rbuf @ arriving k)" if "n = min need (length rbuf)" for n
      using "1.IH"(1) [OF 2 that] "1.prems" that by simp
    from this [OF refl] 2 show ?thesis
      by (subst readn_loop.simps) (cases "need \<le> length rbuf"; simp add: Let_def min_def)
  next
    case 3
    then have "arriving k \<noteq> []" using "1.prems" by auto
    then obtain b k' where b: "refill k = (Inr b, k')" "arriving k = b @ arriving k'" using refill_arriving by blast
    with "1.IH"(2) [OF 3(1) _ b(1) [symmetric]] 3 "1.prems" show ?thesis
      by (subst readn_loop.simps) simp
  qed
qed

definition sock_stream :: "string \<times> sock_res list \<Rightarrow> string" where
  "sock_stream s = fst s @ arriving (snd s)"

definition sock_fetch :: "nat \<Rightarrow> string \<times> sock_res list \<Rightarrow> (string + string) \<times> string \<times> sock_res list" where
  "sock_fetch n s = readn n (fst s) (snd s)"

interpretation sock: byte_source sock_stream sock_fetch
proof
  fix n s
  assume "n \<le> length (sock_stream s)"
  then show "\<exists>s'. sock_fetch n s = (Inr (take n (sock_stream s)), s') \<and> sock_stream s' = drop n (sock_stream s)"
    using readn_loop_arriving [of n "fst s" "snd s" "[]"]
    by (auto simp: sock_stream_def sock_fetch_def readn_def)
qed

section \<open>Replies\<close>

text \<open>A message the client can read: its type, number, fields and body.\<close>

type_synonym message = "nat \<times> nat \<times> (nat \<times> fval) list \<times> string"

definition msg_bytes :: "message \<Rightarrow> string" where
  "msg_bytes m = (case m of (t, n, fs, body) \<Rightarrow> enc_msg t n fs body)"

definition msg_ok :: "message \<Rightarrow> bool" where
  "msg_ok m = (case m of (t, n, fs, body) \<Rightarrow> t < 256 \<and> list_all field_ok fs \<and>
     16 + length (enc_fields 16 fs) + length body \<le> MAX_MESSAGE)"

definition msg_header :: "message \<Rightarrow> hdr_fields" where
  "msg_header m = (case m of (t, n, fs, body) \<Rightarrow>
     foldl field_effect \<lparr>hf_error = None, hf_sig = None, hf_serial = 0\<rparr> fs)"

lemma fixed_fields:
  assumes "b < 2 ^ 32" and "f < 2 ^ 32"
  shows "u32_at (enc_fixed t b s f) 4 = b" and "u32_at (enc_fixed t b s f) 12 = f"
  using u32_at_le32 [OF assms(1), of "''l'' @ [char_of t, nul, char_of (1::nat)]" "le32 s @ le32 f"]
    u32_at_le32 [OF assms(2), of "''l'' @ [char_of t, nul, char_of (1::nat)] @ le32 b @ le32 s" "[]"]
  by (simp_all add: enc_fixed_def numeral_eq_Suc)

text \<open>One round of the loop on a message of the format.\<close>

lemma reply_loop_msg:
  assumes "msg_ok m" and "sock_stream (rbuf, k) = msg_bytes m @ rest"
  obtains rbuf' k' where "sock_stream (rbuf', k') = rest"
    and "reply_loop serial rbuf k =
      (case handle_reply serial (msg_bytes m) (length (enc_fields 16 (fst (snd (snd m)))))
              (pad_len 8 (16 + length (enc_fields 16 (fst (snd (snd m)))))) of
         None \<Rightarrow> None | Some (Inl res) \<Rightarrow> Some (res, rbuf', k') | Some (Inr u) \<Rightarrow> reply_loop serial rbuf' k')"
proof -
  obtain t n fs body where m: "m = (t, n, fs, body)" by (cases m)
  define f where "f = enc_fields 16 fs"
  define fixed where "fixed = enc_fixed t (length body) n (length f)"
  define tail where "tail = f @ padz 8 (16 + length f) @ body"
  have mb: "msg_bytes m = fixed @ tail" by (simp add: m msg_bytes_def enc_msg_def fixed_def tail_def f_def Let_def)
  have le: "length f \<le> MAX_MESSAGE" "length body \<le> MAX_MESSAGE" "16 + length f + length body \<le> MAX_MESSAGE"
    using assms(1) by (simp_all add: m msg_ok_def f_def)
  have u: "u32_at fixed 4 = length body" "u32_at fixed 12 = length f" "fixed ! 0 = CHR ''l''"
    using fixed_fields [of "length body" "length f" t n] le by (simp_all add: fixed_def MAX_MESSAGE_def) (simp add: enc_fixed_def)
  have lt: "length tail = length f + pad_len 8 (16 + length f) + length body" "length fixed = 16"
    by (simp_all add: tail_def fixed_def)
  have "sock_stream (rbuf, k) = fixed @ tail @ rest" using assms(2) mb by simp
  then obtain s1 s2 where s: "sock_fetch (length fixed) (rbuf, k) = (Inr fixed, s1)" "sock_fetch (length tail) s1 = (Inr tail, s2)"
    "sock_stream s2 = rest" using sock.fetch_two by metis
  obtain rb1 k1 rb2 k2 where ss: "s1 = (rb1, k1)" "s2 = (rb2, k2)" by (metis surj_pair)
  have r1: "readn 16 rbuf k = (Inr fixed, rb1, k1)" using s(1) lt(2) ss by (simp add: sock_fetch_def)
  have r2: "readn (length f + pad_len 8 (16 + length f) + length body) rb1 k1 = (Inr tail, rb2, k2)"
    using s(2) lt(1) ss by (simp add: sock_fetch_def)
  have p: "(8 - (16 + length f) mod 8) mod 8 = pad_len 8 (16 + length f)" by (simp add: pad_len_def)
  show thesis
  proof (rule that [of rb2 k2])
    show "sock_stream (rb2, k2) = rest" using s(3) ss by simp
    show "reply_loop serial rbuf k =
      (case handle_reply serial (msg_bytes m) (length (enc_fields 16 (fst (snd (snd m)))))
              (pad_len 8 (16 + length (enc_fields 16 (fst (snd (snd m)))))) of
         None \<Rightarrow> None | Some (Inl res) \<Rightarrow> Some (res, rb2, k2) | Some (Inr u) \<Rightarrow> reply_loop serial rb2 k2)"
      using r1 r2 u p le by (subst reply_loop.simps) (simp add: mb [unfolded m] m f_def [symmetric] Let_def)
  qed
qed

text \<open>What the client makes of a message.\<close>

lemma handle_reply_wire:
  assumes "msg_ok (t, n, fs, body)"
  defines "h \<equiv> msg_header (t, n, fs, body)" and "f \<equiv> length (enc_fields 16 fs)"
  shows "t = 4 \<Longrightarrow> handle_reply serial (enc_msg t n fs body) f (pad_len 8 (16 + f)) = Some (Inr ())"
    and "t = 3 \<Longrightarrow> body = enc_str msg \<Longrightarrow> cstring msg \<Longrightarrow> hf_error h = Some name \<Longrightarrow>
      handle_reply serial (enc_msg t n fs body) f (pad_len 8 (16 + f)) = Some (Inl (CallError name msg))"
    and "t = 2 \<Longrightarrow> hf_serial h = serial \<Longrightarrow> value_ok v \<Longrightarrow> body = enc_value v \<Longrightarrow>
      hf_sig h = Some (value_sig v) \<or> hf_sig h = None \<and> v = DEmpty \<Longrightarrow>
      handle_reply serial (enc_msg t n fs body) f (pad_len 8 (16 + f)) = Some (Inl (CallOk v))"
proof -
  define buf where "buf = enc_msg t n fs body"
  define pre where "pre = enc_fixed t (length body) n f @ enc_fields 16 fs @ padz 8 (16 + f)"
  define r where "r = \<lparr>rd_p = 16 + f + pad_len 8 (16 + f), rd_end = length buf, rd_off = 0, rd_err = False\<rparr>"
  have b: "buf = pre @ body" "length pre = 16 + f + pad_len 8 (16 + f)"
    by (simp_all add: buf_def pre_def enc_msg_def f_def Let_def)
  have r: "r = \<lparr>rd_p = length pre, rd_end = length buf, rd_off = 0, rd_err = False\<rparr>" by (simp add: r_def b(2))
  have ok: "list_all field_ok fs" "f \<le> MAX_MESSAGE" "16 + f + length body \<le> MAX_MESSAGE" "t < 256"
    using assms(1) by (simp_all add: msg_ok_def f_def)
  have "pad_len 8 (16 + f) < 8" by (simp add: pad_len_def)
  then have lb: "length buf < 2 ^ 32" using ok(3) b by (simp add: MAX_MESSAGE_def)
  have t: "of_char (buf ! 1) = t" using ok(4) by (simp add: buf_def enc_msg_def enc_fixed_def Let_def of_char_of)
  have ph: "parse_header_fields buf 16 f = Some (Some h)"
    using parse_header_wire [OF ok(1)] ok(2) by (simp add: buf_def f_def h_def msg_header_def)
  note hr = handle_reply_def [of serial buf f "pad_len 8 (16 + f)", folded r_def, unfolded ph t Let_def option.case, folded r_def]
  have pad0: "rd_pad buf r 0 4 = r" by (subst rd_pad.simps) (simp add: r)
  show "t = 4 \<Longrightarrow> handle_reply serial (enc_msg t n fs body) f (pad_len 8 (16 + f)) = Some (Inr ())"
    unfolding buf_def [symmetric] hr by simp
  show "handle_reply serial (enc_msg t n fs body) f (pad_len 8 (16 + f)) = Some (Inl (CallError name msg))"
    if e: "t = 3" "body = enc_str msg" "cstring msg" "hf_error h = Some name"
  proof -
    have l: "length buf = length pre + length (enc_str msg)" using b(1) e(2) by simp
    have "rd_str buf r = (let k = min (pad_len 4 (0 + length (enc_str msg))) (length buf - (length pre + length (enc_str msg)))
        in Some (Some msg, r\<lparr>rd_p := length pre + length (enc_str msg) + k, rd_off := 0 + length (enc_str msg) + k\<rparr>))"
      using lb l e b(1) by (intro rd_str_wire [where post = "[]"]) (simp_all add: r)
    then have "rd_str buf r = Some (Some msg, r\<lparr>rd_p := length buf, rd_off := length (enc_str msg)\<rparr>)" using l by simp
    then show ?thesis unfolding buf_def [symmetric] hr pad0 using e by (simp add: r)
  qed
  show "handle_reply serial (enc_msg t n fs body) f (pad_len 8 (16 + f)) = Some (Inl (CallOk v))"
    if e: "t = 2" "hf_serial h = serial" "value_ok v" "body = enc_value v" "hf_sig h = Some (value_sig v) \<or> hf_sig h = None \<and> v = DEmpty"
  proof (cases "v = DEmpty")
    case True
    then show ?thesis unfolding buf_def [symmetric] hr using e by auto
  next
    case False
    then have sg: "value_sig v \<noteq> []" by (cases v) simp_all
    obtain r' where "rd_value buf r (value_sig v) = Some (Some v, r')" "\<not> rd_err r'" "rd_p r' = length buf" "rd_end r' = length buf"
      using rd_value_wire [OF e(3) False _ lb r] b(1) e(4) by blast
    with sg e False show ?thesis unfolding buf_def [symmetric] hr by simp
  qed
qed

lemma reply_loop_result:
  assumes "\<forall>m \<in> set signals. msg_ok m \<and> fst m = 4" and "msg_ok (t, n, fs, body)"
    and "sock_stream (rbuf, k) = concat (map msg_bytes signals) @ enc_msg t n fs body @ rest"
    and "t = 2 \<and> hf_serial (msg_header (t, n, fs, body)) = serial \<and> value_ok v \<and> body = enc_value v \<and>
           (hf_sig (msg_header (t, n, fs, body)) = Some (value_sig v) \<or>
            hf_sig (msg_header (t, n, fs, body)) = None \<and> v = DEmpty) \<and> res = CallOk v \<or>
         t = 3 \<and> body = enc_str text \<and> cstring text \<and> hf_error (msg_header (t, n, fs, body)) = Some name \<and>
           res = CallError name text"
  shows "\<exists>rbuf' k'. reply_loop serial rbuf k = Some (res, rbuf', k') \<and> sock_stream (rbuf', k') = rest"
  using assms
proof (induction signals arbitrary: rbuf k)
  case Nil
  then have "sock_stream (rbuf, k) = msg_bytes (t, n, fs, body) @ rest" by (simp add: msg_bytes_def)
  from reply_loop_msg [OF assms(2) this, of serial] obtain rbuf' k' where "sock_stream (rbuf', k') = rest"
    "reply_loop serial rbuf k = (case handle_reply serial (enc_msg t n fs body) (length (enc_fields 16 fs))
        (pad_len 8 (16 + length (enc_fields 16 fs))) of
       None \<Rightarrow> None | Some (Inl res) \<Rightarrow> Some (res, rbuf', k') | Some (Inr u) \<Rightarrow> reply_loop serial rbuf' k')"
    by (auto simp: msg_bytes_def)
  with handle_reply_wire(2,3) [OF assms(2)] assms(4) show ?case by auto
next
  case (Cons m signals)
  obtain n0 fs0 body0 where m: "m = (4, n0, fs0, body0)" "msg_ok (4, n0, fs0, body0)"
    using Cons.prems(1) by (cases m) auto
  have "sock_stream (rbuf, k) = msg_bytes m @ (concat (map msg_bytes signals) @ enc_msg t n fs body @ rest)"
    using Cons.prems(3) by simp
  from reply_loop_msg [OF _ this, of serial] obtain rbuf1 k1 where
    "sock_stream (rbuf1, k1) = concat (map msg_bytes signals) @ enc_msg t n fs body @ rest"
    "reply_loop serial rbuf k = (case handle_reply serial (enc_msg 4 n0 fs0 body0) (length (enc_fields 16 fs0))
        (pad_len 8 (16 + length (enc_fields 16 fs0))) of
       None \<Rightarrow> None | Some (Inl res) \<Rightarrow> Some (res, rbuf1, k1) | Some (Inr u) \<Rightarrow> reply_loop serial rbuf1 k1)"
    using m by (auto simp: msg_bytes_def)
  with handle_reply_wire(1) [OF m(2)] Cons.IH Cons.prems(1,2,4) show ?case by simp
qed

text \<open>
  C10: the client reads what the bus sends: whatever the pieces are in which the bytes arrive, and after any
  number of signals, a return message with the number of the call gives its value, an error message
  its name and text, and the bytes after the message stay in the stream.
\<close>

theorem reply_loop_reads:
  assumes "\<forall>m \<in> set signals. msg_ok m \<and> fst m = 4" and "msg_ok (t, n, fs, body)"
    and "sock_stream (rbuf, k) = concat (map msg_bytes signals) @ enc_msg t n fs body @ rest"
    and "t = 2 \<and> hf_serial (msg_header (t, n, fs, body)) = serial \<and> value_ok v \<and> body = enc_value v \<and>
           (hf_sig (msg_header (t, n, fs, body)) = Some (value_sig v) \<or>
            hf_sig (msg_header (t, n, fs, body)) = None \<and> v = DEmpty) \<and> res = CallOk v \<or>
         t = 3 \<and> body = enc_str text \<and> cstring text \<and> hf_error (msg_header (t, n, fs, body)) = Some name \<and>
           res = CallError name text"
  shows "\<exists>rbuf' k'. reply_loop serial rbuf k = Some (res, rbuf', k') \<and> sock_stream (rbuf', k') = rest"
  using assms by (rule reply_loop_result)


section \<open>Examples\<close>

definition sample_arg :: dbus_arg where
  "sample_arg = \<lparr>ar_type = CHR ''u'', ar_s = [], ar_d = 0, ar_u = 5\<rparr>"

theorem build_call_wire_witness:
  "\<exists>msg. build_call 7 ''d'' ''/p'' ''i'' ''M'' ''u'' [sample_arg] = Some (Some msg) \<and> length msg = 92 \<and> drop 88 msg = le32 5"
proof -
  define fs where "fs = call_fields ''d'' ''/p'' ''i'' ''M'' ''u''"
  have "length (enc_fields 16 fs) = 71"
    by (simp add: fs_def call_fields_def enc_field_def enc_str_def enc_sig_def pad_len_def)
  moreover have "enc_args 0 [sample_arg] = le32 5" by (simp add: enc_arg_def sample_arg_def padz_def)
  ultimately have f: "length (enc_msg 1 7 fs (enc_args 0 [sample_arg])) = 92" "drop 88 (enc_msg 1 7 fs (enc_args 0 [sample_arg])) = le32 5"
    by (simp_all add: enc_msg_def Let_def pad_len_def)
  moreover have "length [sample_arg] = length ''u''" "length ''u'' \<le> 255" "list_all arg_ok [sample_arg]"
    by (simp_all add: arg_ok_def sample_arg_def)
  moreover have "length (enc_msg 1 7 fs (enc_args 0 [sample_arg])) \<le> MAX_MESSAGE" unfolding f by (simp add: MAX_MESSAGE_def)
  ultimately show ?thesis
    using build_call_wire [of "[sample_arg]" "''u''" 7 "''d''" "''/p''" "''i''" "''M''", folded fs_def] by blast
qed

definition sample_reply :: message where
  "sample_reply = (2, 9, [(FIELD_REPLY_SERIAL, FU 1), (FIELD_SIGNATURE, FSig ''as'')], enc_value (DStrings [''ab'', ''c'']))"

lemma sample_reply_ok: "msg_ok sample_reply"
proof -
  have "length (enc_fields 16 [(FIELD_REPLY_SERIAL, FU 1), (FIELD_SIGNATURE, FSig ''as'')]) = 16"
    "length (enc_value (DStrings [''ab'', ''c''])) = 18"
    by (simp_all add: enc_field_def enc_str_def enc_sig_def pad_len_def)
  then show ?thesis by (simp add: msg_ok_def sample_reply_def MAX_MESSAGE_def cstring_def field_codes)
qed

theorem reply_loop_reads_witness:
  "\<exists>rbuf k. reply_loop 1 [] [Chunk (take 5 (msg_bytes sample_reply)), Interrupted, Chunk (drop 5 (msg_bytes sample_reply) @ ''zz'')] =
     Some (CallOk (DStrings [''ab'', ''c'']), rbuf, k) \<and> sock_stream (rbuf, k) = ''zz''"
proof -
  define k where "k = [Chunk (take 5 (msg_bytes sample_reply)), Interrupted, Chunk (drop 5 (msg_bytes sample_reply) @ ''zz'')]"
  have "take 5 (msg_bytes sample_reply) \<noteq> []" by (simp add: sample_reply_def msg_bytes_def enc_msg_def enc_fixed_def Let_def)
  then have s: "sock_stream ([], k) = concat (map msg_bytes []) @ msg_bytes sample_reply @ ''zz''"
    by (simp add: k_def sock_stream_def)
  show ?thesis
    unfolding k_def [symmetric]
    using reply_loop_reads [of "[]" 2 9 "[(FIELD_REPLY_SERIAL, FU 1), (FIELD_SIGNATURE, FSig ''as'')]"
        "enc_value (DStrings [''ab'', ''c''])" "[]" k "''zz''" 1 "DStrings [''ab'', ''c'']" "CallOk (DStrings [''ab'', ''c''])"]
      sample_reply_ok s
    by (simp add: sample_reply_def msg_bytes_def msg_header_def field_codes cstring_def)
qed

section \<open>Reads and writes out of bounds\<close>

text \<open>
  C40: a reply that ends after the length of its string makes the client read outside the message: the
  unsigned comparison wraps around when nothing is left.
\<close>

theorem reply_overrun:
  assumes "msg_ok (2, n, fs, le32 len)" and "len < 2 ^ 32" and "sock_stream (rbuf, k) = enc_msg 2 n fs (le32 len) @ rest"
    and "hf_serial (msg_header (2, n, fs, le32 len)) = serial" and "hf_sig (msg_header (2, n, fs, le32 len)) = Some ''s''"
  shows "reply_loop serial rbuf k = None"
proof -
  define buf where "buf = enc_msg 2 n fs (le32 len)"
  define f where "f = length (enc_fields 16 fs)"
  define r where "r = \<lparr>rd_p = 16 + f + pad_len 8 (16 + f), rd_end = length buf, rd_off = 0, rd_err = False\<rparr>"
  define pre where "pre = enc_fixed 2 4 n f @ enc_fields 16 fs @ padz 8 (16 + f)"
  have b: "buf = pre @ le32 len @ []" "length pre = 16 + f + pad_len 8 (16 + f)"
    by (simp_all add: buf_def pre_def enc_msg_def f_def Let_def)
  have "length buf = rd_p r + 4" using b by (simp add: r_def)
  then have u: "rd_u32 buf r = (len, r\<lparr>rd_p := length buf, rd_off := 4\<rparr>)"
    using u32_at_le32 [OF assms(2), of pre "[]"] b by (subst rd_u32_eq) (simp_all add: r_def)
  have pad0: "rd_pad buf r 0 4 = r" by (subst rd_pad.simps) (simp add: r_def)
  have w: "\<not> len > ((length buf - length buf) mod 2 ^ 32 + 2 ^ 32 - 1) mod 2 ^ 32" using assms(2) by simp
  have str: "rd_str buf r = None" unfolding rd_str_def u using w by (simp add: r_def)
  have ok: "list_all field_ok fs" "f \<le> MAX_MESSAGE" using assms(1) by (simp_all add: msg_ok_def f_def)
  have "parse_header_fields buf 16 f = Some (Some (msg_header (2, n, fs, le32 len)))"
    using parse_header_wire [OF ok(1)] ok(2) by (simp add: buf_def f_def msg_header_def)
  moreover have "of_char (buf ! 1) = (2::nat)" by (simp add: buf_def enc_msg_def enc_fixed_def Let_def of_char_of)
  ultimately have "handle_reply serial buf f (pad_len 8 (16 + f)) = None"
    using assms(4,5) str pad0 by (simp add: handle_reply_def r_def [symmetric] rd_value_def Let_def)
  with reply_loop_msg [OF assms(1), of rbuf k rest serial] assms(3) show ?thesis
    by (auto simp: msg_bytes_def buf_def f_def)
qed

theorem reply_overrun_witness:
  "reply_loop 1 [] [Chunk (enc_msg 2 9 [(FIELD_REPLY_SERIAL, FU 1), (FIELD_SIGNATURE, FSig ''s'')] (le32 100))] = None"
proof -
  define fs where "fs = [(FIELD_REPLY_SERIAL, FU 1), (FIELD_SIGNATURE, FSig ''s'')]"
  have "length (enc_fields 16 fs) = 15" by (simp add: fs_def enc_field_def enc_sig_def pad_len_def)
  then have "msg_ok (2, 9, fs, le32 100)"
    by (simp add: msg_ok_def MAX_MESSAGE_def) (simp add: fs_def cstring_def field_codes)
  moreover have "enc_msg 2 9 fs (le32 100) \<noteq> []" by (simp add: enc_msg_def enc_fixed_def Let_def)
  ultimately show ?thesis
    using reply_overrun [of 9 fs 100 "[]" "[Chunk (enc_msg 2 9 fs (le32 100))]" "[]" 1]
    unfolding fs_def by (simp add: sock_stream_def msg_header_def field_codes)
qed

lemma takeWhile_sep: "x \<notin> set s \<Longrightarrow> takeWhile (\<lambda>c. c \<noteq> x) s = s"
  by (auto simp: takeWhile_eq_all_conv)

lemma split_addr_single: "CHR '';'' \<notin> set a \<Longrightarrow> a \<noteq> [] \<Longrightarrow> split_addr a = [a]"
  by (subst split_addr.simps) (simp add: split_addr.simps [of "[]"] takeWhile_sep Let_def)

text \<open>
  The prefix of an abstract socket has 14 characters and 13 of them are skipped: the name the client
  connects to begins with the equals sign.
\<close>

lemma abstract_socket_name:
  assumes "CHR '';'' \<notin> set s" and "CHR '','' \<notin> set s"
  shows "pick_unix_socket (''unix:abstract='' @ s) = Some (True, CHR ''='' # s)"
  using assms split_addr_single [of "''unix:abstract='' @ s"] by (simp add: pick_unix_socket_def takeWhile_sep)

text \<open>A socket path of 108 to 511 bytes overruns the address structure.\<close>

lemma long_socket_path_overruns:
  assumes "CHR '';'' \<notin> set s" and "CHR '','' \<notin> set s" and "108 \<le> length s" and "length s < 512" and "ce_socket env = Inr fd"
  shows "dbus_connect env (Some (''unix:path='' @ s)) = None"
proof -
  have "s \<noteq> []" using assms(3) by auto
  then have "pick_unix_socket (''unix:path='' @ s) = Some (False, s)"
    using assms(1,2) split_addr_single [of "''unix:path='' @ s"] by (simp add: pick_unix_socket_def takeWhile_sep)
  with assms(3-5) show ?thesis by (auto simp: dbus_connect_def sun_path_def Let_def)
qed

end
