(* ===== verification/Csv.thy ===== *)
theory Csv
  imports CNumeric
begin

text \<open>
  The IMU recordings of \<^verbatim>\<open>csv.c\<close>: rows \<open>counter,dt,ax,ay,az,gx,gy,gz\<close> with CRLF ends. What the C library gives
  for the file is the argument of the two operations: \<open>csv_src\<close> for reading, \<open>csv_dst\<close> for writing.
\<close>

record imu_sample =
  s_counter :: "32 word"
  s_dt :: cdouble
  s_accel :: "cdouble list"
  s_gyro :: "cdouble list"

section \<open>Reading\<close>

text \<open>The file cannot be opened (with the error text), sought or read in full, or has these bytes.\<close>

datatype csv_src = NoOpen string | NoSeek | ShortRead | Bytes string

definition CSV_MAX_FIELDS :: nat where "CSV_MAX_FIELDS = 64"

text \<open>\<open>strtok_r\<close> with the separator newline: the pieces between newlines that are not empty.\<close>

function strtok_lines :: "string \<Rightarrow> string list" where
  "strtok_lines s =
     (let t = dropWhile (\<lambda>c. c = CHR 0x0A) s
      in if t = [] then []
         else takeWhile (\<lambda>c. c \<noteq> CHR 0x0A) t # strtok_lines (dropWhile (\<lambda>c. c \<noteq> CHR 0x0A) t))"
  by auto
termination
proof (relation "measure length")
  fix s t :: string
  assume t: "t = dropWhile (\<lambda>c. c = CHR 0x0A) s" "t \<noteq> []"
  obtain c u where c: "t = c # u" using t(2) by (meson neq_Nil_conv)
  then have "c \<noteq> CHR 0x0A" using hd_dropWhile [of "\<lambda>c. c = CHR 0x0A" s] t by simp
  with c have "length (dropWhile (\<lambda>c. c \<noteq> CHR 0x0A) t) \<le> length u" by simp
  moreover have "length t \<le> length s" using t(1) by simp
  ultimately show "(dropWhile (\<lambda>c. c \<noteq> CHR 0x0A) t, s) \<in> measure length" using c by simp
qed simp

declare strtok_lines.simps [simp del]

definition strip_cr :: "string \<Rightarrow> string" where
  "strip_cr l = (if l \<noteq> [] \<and> last l = CHR 0x0D then butlast l else l)"

text \<open>The splitting loop: at most 64 fields are taken from the line.\<close>

function csv_fields :: "nat \<Rightarrow> string \<Rightarrow> string list" where
  "csv_fields nfields s =
     (if nfields \<ge> CSV_MAX_FIELDS then []
      else case dropWhile (\<lambda>c. c \<noteq> CHR '','') s of
             [] \<Rightarrow> [s]
           | c # rest \<Rightarrow> takeWhile (\<lambda>c. c \<noteq> CHR '','') s # csv_fields (nfields + 1) rest)"
  by auto
termination by (relation "measure (\<lambda>(n, s). CSV_MAX_FIELDS - n)") auto

declare csv_fields.simps [simp del]

text \<open>A conversion that has to take the whole field: \<open>errno != 0 || end == field || *end\<close>.\<close>

definition whole_double :: "string \<Rightarrow> cdouble option" where
  "whole_double f = (case strtod f of (d, k, er) \<Rightarrow> if er \<or> k = 0 \<or> k \<noteq> length f then None else Some d)"

fun whole_doubles :: "string list \<Rightarrow> cdouble list option" where
  "whole_doubles [] = Some []"
| "whole_doubles (f # fs) = (case whole_double f of
       None \<Rightarrow> None
     | Some d \<Rightarrow> (case whole_doubles fs of None \<Rightarrow> None | Some ds \<Rightarrow> Some (d # ds)))"

text \<open>One line: the sample, or \<^const>\<open>None\<close> where the loop goes on with the next line.\<close>

definition csv_row :: "string \<Rightarrow> imu_sample option" where
  "csv_row line0 =
     (let line = strip_cr line0; fields = csv_fields 0 line
      in if line = [] then None
         else if length fields = CSV_MAX_FIELDS \<or> length fields < 8 then None
         else case strtoul (fields ! 0) of (counter, k, er) \<Rightarrow>
           if er \<or> k = 0 \<or> k \<noteq> length (fields ! 0) then None
           else case (if fields ! 1 = [] then Some DNaN else whole_double (fields ! 1)) of
             None \<Rightarrow> None
           | Some dt \<Rightarrow>
               (case whole_doubles (take 6 (drop 2 fields)) of
                  None \<Rightarrow> None
                | Some ds \<Rightarrow> Some \<lparr>s_counter = ucast counter, s_dt = dt, s_accel = take 3 ds, s_gyro = drop 3 ds\<rparr>))"

definition csv_read :: "string \<Rightarrow> csv_src \<Rightarrow> string + imu_sample list" where
  "csv_read path file = (case file of
       NoOpen m \<Rightarrow> Inl (''cannot open '' @ path @ '': '' @ m)
     | NoSeek \<Rightarrow> Inl (''cannot read '' @ path)
     | ShortRead \<Rightarrow> Inl (''cannot read '' @ path)
     | Bytes b \<Rightarrow> Inr (List.map_filter csv_row (strtok_lines (cstr b))))"

section \<open>Writing\<close>

abbreviation crlf :: string where
  "crlf \<equiv> [CHR 0x0D, CHR 0x0A]"

definition csv_header :: string where
  "csv_header = ''counter,dt,ax,ay,az,gx,gy,gz'' @ crlf"

definition dt_text :: "cdouble \<Rightarrow> string" where
  "dt_text dt = (if isnan dt then [] else take 31 (fmt_g 9 dt))"

definition csv_body :: "imu_sample \<Rightarrow> string" where
  "csv_body s =
     show_dec (uint (s_counter s)) @ '','' @ dt_text (s_dt s) @ '','' @
     fmt_f 0 (s_accel s ! 0) @ '','' @ fmt_f 0 (s_accel s ! 1) @ '','' @ fmt_f 0 (s_accel s ! 2) @ '','' @
     fmt_f 0 (s_gyro s ! 0) @ '','' @ fmt_f 0 (s_gyro s ! 1) @ '','' @ fmt_f 0 (s_gyro s ! 2)"

definition csv_line :: "imu_sample \<Rightarrow> string" where
  "csv_line s = csv_body s @ crlf"

text \<open>The file cannot be created, a write or the final close fails, or all is written.\<close>

datatype csv_dst = NoCreate string | WriteError string | Written

definition csv_write :: "string \<Rightarrow> csv_dst \<Rightarrow> imu_sample list \<Rightarrow> string option \<times> string option" where
  "csv_write path out samples = (case out of
       NoCreate m \<Rightarrow> (Some (''cannot open '' @ path @ '': '' @ m), None)
     | WriteError m \<Rightarrow> (Some (''write error on '' @ path @ '': '' @ m), None)
     | Written \<Rightarrow> (None, Some (csv_header @ concat (map csv_line samples))))"

section \<open>Lines are read one by one\<close>

lemma strtok_nil [simp]: "strtok_lines [] = []"
  by (subst strtok_lines.simps) simp

lemma strtok_blank: "strtok_lines (dropWhile (\<lambda>c. c = CHR 0x0A) s) = strtok_lines s"
  by (subst (1 2) strtok_lines.simps) simp

lemma takeWhile_upto: "takeWhile (\<lambda>c. c \<noteq> x) (s @ x # t) = takeWhile (\<lambda>c. c \<noteq> x) s"
  by (induction s) auto

lemma dropWhile_upto: "dropWhile (\<lambda>c. c \<noteq> x) (s @ x # t) = dropWhile (\<lambda>c. c \<noteq> x) s @ x # t"
  by (induction s) auto

lemma strtok_lines_append:
  "strtok_lines (a @ CHR 0x0A # b) = strtok_lines a @ strtok_lines b"
proof (induction a rule: strtok_lines.induct)
  case (1 a)
  define t where "t = dropWhile (\<lambda>c. c = CHR 0x0A) a"
  show ?case
  proof (cases "t = []")
    case True
    then have "\<forall>c \<in> set a. c = CHR 0x0A" by (simp add: t_def)
    then have "dropWhile (\<lambda>c. c = CHR 0x0A) (a @ CHR 0x0A # b) = dropWhile (\<lambda>c. c = CHR 0x0A) b"
      "dropWhile (\<lambda>c. c = CHR 0x0A) a = []" by simp_all
    then show ?thesis by (metis strtok_blank strtok_nil append_Nil)
  next
    case False
    then obtain x where "x \<in> set a" "x \<noteq> CHR 0x0A" by (auto simp: t_def)
    then have d: "dropWhile (\<lambda>c. c = CHR 0x0A) (a @ CHR 0x0A # b) = t @ CHR 0x0A # b"
      unfolding t_def by (rule dropWhile_append1)
    note tw = takeWhile_upto [of "CHR 0x0A" t b] and dw = dropWhile_upto [of "CHR 0x0A" t b]
    have "strtok_lines (a @ CHR 0x0A # b) =
        takeWhile (\<lambda>c. c \<noteq> CHR 0x0A) t # strtok_lines (dropWhile (\<lambda>c. c \<noteq> CHR 0x0A) t @ CHR 0x0A # b)"
      using False by (subst strtok_lines.simps) (simp add: d tw dw Let_def)
    moreover have "strtok_lines a = takeWhile (\<lambda>c. c \<noteq> CHR 0x0A) t # strtok_lines (dropWhile (\<lambda>c. c \<noteq> CHR 0x0A) t)"
      using False by (subst strtok_lines.simps) (simp add: t_def Let_def)
    ultimately show ?thesis using 1 [OF t_def False] by simp
  qed
qed

lemma strtok_lines_single: "l \<noteq> [] \<Longrightarrow> CHR 0x0A \<notin> set l \<Longrightarrow> strtok_lines l = [l]"
proof -
  assume l: "l \<noteq> []" "CHR 0x0A \<notin> set l"
  then have "dropWhile (\<lambda>c. c = CHR 0x0A) l = l" "takeWhile (\<lambda>c. c \<noteq> CHR 0x0A) l = l" "dropWhile (\<lambda>c. c \<noteq> CHR 0x0A) l = []"
    by (cases l; auto simp: takeWhile_eq_all_conv)+
  with l(1) show ?thesis by (subst strtok_lines.simps) (simp only: Let_def if_False strtok_nil)
qed

definition csv_rows :: "string \<Rightarrow> imu_sample list" where
  "csv_rows s = List.map_filter csv_row (strtok_lines s)"

lemma csv_rows_append: "csv_rows (a @ CHR 0x0A # b) = csv_rows a @ csv_rows b"
  by (simp add: csv_rows_def strtok_lines_append map_filter_def)

lemma csv_rows_nil [simp]: "csv_rows [] = []"
  by (simp add: csv_rows_def map_filter_def)

section \<open>Fields\<close>

lemma csv_fields_last: "n < CSV_MAX_FIELDS \<Longrightarrow> CHR '','' \<notin> set s \<Longrightarrow> csv_fields n s = [s]"
proof -
  assume "n < CSV_MAX_FIELDS" "CHR '','' \<notin> set s"
  moreover from this(2) have "dropWhile (\<lambda>c. c \<noteq> CHR '','') s = []" by auto
  ultimately show ?thesis using csv_fields.simps [of n s] by (simp only: not_le [symmetric] if_False list.case)
qed

lemma csv_fields_cons:
  "n < CSV_MAX_FIELDS \<Longrightarrow> CHR '','' \<notin> set f \<Longrightarrow> csv_fields n (f @ CHR '','' # rest) = f # csv_fields (n + 1) rest"
proof -
  assume n: "n < CSV_MAX_FIELDS" and f: "CHR '','' \<notin> set f"
  then have "dropWhile (\<lambda>c. c \<noteq> CHR '','') (f @ CHR '','' # rest) = CHR '','' # rest"
    "takeWhile (\<lambda>c. c \<noteq> CHR '','') (f @ CHR '','' # rest) = f"
    by (auto intro: dropWhile_run takeWhile_run)
  with n show ?thesis by (subst csv_fields.simps) simp
qed

section \<open>Integers written with no decimals\<close>

lemma fmt_f0_int:
  assumes "\<bar>i\<bar> < 2 ^ 53"
  shows "fmt_f 0 (of_int_d i) = fmt_d i"
proof (cases "i = 0")
  case False
  then obtain p where p: "round_ratio (i < 0) \<bar>i\<bar> 1 = DFin (i < 0) (\<bar>i\<bar> * 2 ^ p) (- int p)"
    using round_ratio_int [of "\<bar>i\<bar>"] assms by auto
  have l: "Suc 0 - length (show_dec \<bar>i\<bar>) = 0" using show_dec_nonempty [of "\<bar>i\<bar>"] by (cases "show_dec \<bar>i\<bar>") auto
  have "(if - int p \<ge> 0 then \<bar>i\<bar> * 2 ^ p * 2 ^ nat (- int p) else round_half_even (\<bar>i\<bar> * 2 ^ p) (2 ^ nat (- (- int p)))) = \<bar>i\<bar>"
    by (cases "p = 0") (simp_all add: round_half_even_def Let_def)
  then have "fmt_f 0 (of_int_d i) = sign_str (i < 0) @ show_dec \<bar>i\<bar>"
    unfolding of_int_d_def p fmt_f.simps Let_def power_0 mult_1_right by (simp only: pad0_def l) (simp add: pad0_def l)
  then show ?thesis by (simp add: fmt_d_def sign_str_def)
qed (simp add: of_int_d_def Let_def fmt_d_def sign_str_def pad0_def round_half_even_def show_dec.simps)

lemma strtod_digits:
  assumes "0 \<le> n" and "n < 2 ^ 53"
  shows "strtod_dec neg (show_dec n) = Some (round_ratio neg n 1, length (show_dec n), False)"
proof -
  have tw: "takeWhile isdigit (show_dec n) = show_dec n" "dropWhile isdigit (show_dec n) = []"
    using show_dec_digits [OF assms(1)] by (simp_all add: takeWhile_eq_all_conv)
  have er: "\<not> dec_erange (round_ratio neg n 1) n 1"
  proof (cases "n = 0")
    case False
    then obtain p where "round_ratio neg n 1 = DFin neg (n * 2 ^ p) (- int p)" "2 ^ 52 \<le> n * 2 ^ p"
      using round_ratio_int [of n neg] assms by auto
    then show ?thesis by (simp add: dec_erange_def)
  qed (simp add: dec_erange_def)
  show ?thesis
    using assms(1) er by (simp add: strtod_dec_def tw dec_exponent_def round_dec_def Let_def)
qed

lemma show_dec_digit_start:
  assumes "0 \<le> n"
  obtains c cs where "show_dec n = c # cs" "isdigit c" "list_all isdigit cs"
  using show_dec_digits [OF assms] show_dec_nonempty [OF assms] by (cases "show_dec n") (auto simp: list_all_iff)

lemma strtod_int:
  assumes "\<bar>i\<bar> < 2 ^ 53"
  shows "strtod (fmt_d i) = (of_int_d i, length (fmt_d i), False)"
proof -
  obtain c cs where c: "show_dec \<bar>i\<bar> = c # cs" "isdigit c" "list_all isdigit cs"
    using show_dec_digit_start [of "\<bar>i\<bar>"] by auto
  have hex: "\<not> lower_starts ''0x'' (show_dec \<bar>i\<bar>)"
    using c by (cases cs) (auto simp: lower_starts_def tolower_def isdigit_def)
  have body: "strtod_body neg k (show_dec \<bar>i\<bar>) = (round_ratio neg \<bar>i\<bar> 1, k + length (show_dec \<bar>i\<bar>), False)" for neg k
    using strtod_digits [of "\<bar>i\<bar>" neg] assms hex by (simp add: strtod_body_def)
  have "\<not> isspace c" "c \<noteq> CHR ''-''" "c \<noteq> CHR ''+''" using isdigit_not_sign [OF c(2)] by blast+
  moreover have "\<not> isspace CHR ''-''" by (simp add: isspace_def)
  ultimately show ?thesis
    using body c(1) by (cases "i < 0") (simp_all add: strtod_def fmt_d_def of_int_d_def Let_def)
qed

lemma whole_double_int: "\<bar>i\<bar> < 2 ^ 53 \<Longrightarrow> whole_double (fmt_d i) = Some (of_int_d i)"
  using strtod_int [of i] by (simp add: whole_double_def fmt_d_def)

section \<open>Round trip\<close>

text \<open>The characters of a number never end a field or a line.\<close>

definition num_text :: "string \<Rightarrow> bool" where
  "num_text t \<longleftrightarrow> set t \<inter> {CHR '','', CHR 0x0D, CHR 0x0A, CHR 0x00} = {}"

lemma num_text_append [simp]: "num_text (s @ t) \<longleftrightarrow> num_text s \<and> num_text t"
  by (auto simp: num_text_def)

lemma num_text_cons [simp]: "num_text (c # t) \<longleftrightarrow> c \<notin> {CHR '','', CHR 0x0D, CHR 0x0A, CHR 0x00} \<and> num_text t"
  by (auto simp: num_text_def)

lemma num_text_nil [simp]: "num_text []"
  by (simp add: num_text_def)

lemma num_text_subset: "num_text t \<Longrightarrow> set u \<subseteq> set t \<Longrightarrow> num_text u"
  by (auto simp: num_text_def)

lemma num_text_digits: "\<forall>c \<in> set t. isdigit c \<Longrightarrow> num_text t"
  by (force simp: num_text_def isdigit_def)

lemma num_text_replicate [simp]: "c \<notin> {CHR '','', CHR 0x0D, CHR 0x0A, CHR 0x00} \<Longrightarrow> num_text (replicate n c)"
  by (auto simp: num_text_def)

lemma num_text_show_dec [simp]: "num_text (show_dec n)"
proof (cases "0 \<le> n")
  case True
  then show ?thesis using num_text_digits show_dec_digits by blast
next
  case False
  then have "show_dec n = show_dec 0" by (simp add: show_dec.simps [of n] show_dec.simps [of 0] digit_char_def)
  then show ?thesis using num_text_digits show_dec_digits [of 0] by simp
qed

lemma num_text_fmt_d [simp]: "num_text (fmt_d i)"
  by (simp add: fmt_d_def)

lemma num_text_frac [simp]: "num_text f \<Longrightarrow> num_text (frac_str f)"
proof -
  assume f: "num_text f"
  have "set (strip_zeros f) \<subseteq> set f" by (auto simp: strip_zeros_def dest: set_dropWhileD)
  with f num_text_subset show ?thesis by (auto simp: frac_str_def Let_def)
qed

lemma num_text_take_drop [simp]: "num_text t \<Longrightarrow> num_text (take n t)" "num_text t \<Longrightarrow> num_text (drop n t)"
  using num_text_subset set_take_subset set_drop_subset by metis+

lemma num_text_sign [simp]: "num_text (sign_str s)"
  by (simp add: sign_str_def)

lemma num_text_pad0 [simp]: "num_text t \<Longrightarrow> num_text (pad0 w t)"
  by (simp add: pad0_def)

lemma num_text_let: "(\<And>v. v = a \<Longrightarrow> num_text (f v)) \<Longrightarrow> num_text (Let a f)"
  by (simp add: Let_def)

lemma num_text_if: "num_text s \<Longrightarrow> num_text t \<Longrightarrow> num_text (if b then s else t)"
  by simp

lemma num_text_fmt_g [simp]: "num_text (fmt_g P x)"
proof (cases x)
  case (DFin s m e)
  show ?thesis
    unfolding DFin fmt_g.simps
    by (intro num_text_if num_text_let num_text_append [THEN iffD2] conjI num_text_frac num_text_take_drop) (simp_all split del: if_split)
qed simp_all

lemma num_text_dt [simp]: "num_text (dt_text dt)"
  by (simp add: dt_text_def)

lemma whole_double_nil [simp]: "whole_double [] = None"
  by code_simp

definition int_axis :: "cdouble \<Rightarrow> bool" where
  "int_axis d \<longleftrightarrow> (case dtrunc d of None \<Rightarrow> False | Some i \<Rightarrow> \<bar>i\<bar> < 2 ^ 53 \<and> d = of_int_d i)"

definition sample_ok :: "imu_sample \<Rightarrow> bool" where
  "sample_ok s \<longleftrightarrow> length (s_accel s) = 3 \<and> length (s_gyro s) = 3 \<and> list_all int_axis (s_accel s @ s_gyro s) \<and>
     (isnan (s_dt s) \<or> whole_double (dt_text (s_dt s)) \<noteq> None)"

definition sample_rounded :: "imu_sample \<Rightarrow> imu_sample" where
  "sample_rounded s = s\<lparr>s_dt := if isnan (s_dt s) then DNaN else the (whole_double (dt_text (s_dt s)))\<rparr>"

lemma int_axis_of_int:
  assumes "\<bar>i\<bar> < 2 ^ 53" shows "int_axis (of_int_d i)"
proof (cases "i = 0")
  case False
  then obtain p where p: "round_ratio (i < 0) \<bar>i\<bar> 1 = DFin (i < 0) (\<bar>i\<bar> * 2 ^ p) (- int p)"
    using round_ratio_int [of "\<bar>i\<bar>"] assms by auto
  then have "dtrunc (of_int_d i) = Some i" unfolding of_int_d_def p by (cases "p = 0") (simp_all add: Let_def)
  then show ?thesis using assms by (simp add: int_axis_def)
qed (simp add: int_axis_def of_int_d_def round_ratio_def)

lemma int_axis_text:
  "int_axis d \<Longrightarrow> whole_double (fmt_f 0 d) = Some d \<and> num_text (fmt_f 0 d)"
  by (auto simp: int_axis_def fmt_f0_int whole_double_int split: option.splits)

lemma sample_okE:
  assumes "sample_ok s"
  obtains a b c x y z where "s_accel s = [a, b, c]" and "s_gyro s = [x, y, z]" and "list_all int_axis [a, b, c, x, y, z]"
  using assms by (auto simp: sample_ok_def numeral_3_eq_3 length_Suc_conv)

lemma counter_cast: "ucast (ucast c :: 64 word) = (c :: 32 word)"
  by transfer (simp add: take_bit_take_bit)

lemma csv_row_line:
  assumes "sample_ok s"
  shows "csv_row (csv_body s @ [CHR 0x0D]) = Some (sample_rounded s)"
proof -
  obtain a b c x y z where a: "s_accel s = [a, b, c]" and x: "s_gyro s = [x, y, z]" and ax: "list_all int_axis [a, b, c, x, y, z]"
    using sample_okE [OF assms] by blast
  define n where "n = show_dec (uint (s_counter s))"
  note t = int_axis_text [of a] int_axis_text [of b] int_axis_text [of c]
    int_axis_text [of x] int_axis_text [of y] int_axis_text [of z]
  have body: "csv_body s = n @ CHR '','' # dt_text (s_dt s) @ CHR '','' # fmt_f 0 a @ CHR '','' # fmt_f 0 b @ CHR '','' #
      fmt_f 0 c @ CHR '','' # fmt_f 0 x @ CHR '','' # fmt_f 0 y @ CHR '','' # fmt_f 0 z"
    by (simp add: csv_body_def a x n_def numeral_2_eq_2)
  have sep: "CHR '','' \<notin> set u" if "num_text u" for u using that by (auto simp: num_text_def)
  have nt: "num_text n" "num_text (fmt_f 0 a)" "num_text (fmt_f 0 b)" "num_text (fmt_f 0 c)"
    "num_text (fmt_f 0 x)" "num_text (fmt_f 0 y)" "num_text (fmt_f 0 z)"
    using t ax by (simp_all add: n_def)
  have f: "csv_fields 0 (csv_body s) = [n, dt_text (s_dt s), fmt_f 0 a, fmt_f 0 b, fmt_f 0 c, fmt_f 0 x, fmt_f 0 y, fmt_f 0 z]"
    unfolding body using nt [THEN sep] sep [OF num_text_dt]
    by (simp add: csv_fields_cons csv_fields_last CSV_MAX_FIELDS_def)
  have wd: "whole_doubles [fmt_f 0 a, fmt_f 0 b, fmt_f 0 c, fmt_f 0 x, fmt_f 0 y, fmt_f 0 z] = Some [a, b, c, x, y, z]"
    using t ax by simp
  have dt: "(if dt_text (s_dt s) = [] then Some DNaN else whole_double (dt_text (s_dt s))) = Some (s_dt (sample_rounded s))"
    using assms by (cases "isnan (s_dt s)") (auto simp: sample_ok_def sample_rounded_def dt_text_def)
  have "0 \<le> uint (s_counter s)" "uint (s_counter s) < 2 ^ 64" using uint_lt2p [of "s_counter s"] by simp_all
  from strtoul_show [OF this] have n: "strtoul n = (ucast (s_counter s), length n, False)" "n \<noteq> []"
    by (simp_all add: n_def unsigned_ucast_eq)
  have st: "strip_cr (csv_body s @ [CHR 0x0D]) = csv_body s" "csv_body s \<noteq> []" 
    by (simp add: strip_cr_def) (simp add: body)
  define fs where "fs = [n, dt_text (s_dt s), fmt_f 0 a, fmt_f 0 b, fmt_f 0 c, fmt_f 0 x, fmt_f 0 y, fmt_f 0 z]"
  have ix: "fs ! 0 = n" "fs ! 1 = dt_text (s_dt s)" "length fs = 8"
    "take 6 (drop 2 fs) = [fmt_f 0 a, fmt_f 0 b, fmt_f 0 c, fmt_f 0 x, fmt_f 0 y, fmt_f 0 z]" by (simp_all add: fs_def)
  define dt' where "dt' = s_dt (sample_rounded s)"
  have "csv_row (csv_body s @ [CHR 0x0D]) = Some \<lparr>s_counter = s_counter s, s_dt = dt', s_accel = [a, b, c], s_gyro = [x, y, z]\<rparr>"
    unfolding csv_row_def st(1) f [folded fs_def] Let_def ix dt [folded dt'_def] wd using st(2) n
    by (simp add: CSV_MAX_FIELDS_def counter_cast)
  moreover have "sample_rounded s = \<lparr>s_counter = s_counter s, s_dt = dt', s_accel = [a, b, c], s_gyro = [x, y, z]\<rparr>"
    using a x by (cases s) (simp add: dt'_def sample_rounded_def)
  ultimately show ?thesis by simp
qed

lemma csv_body_chars: "sample_ok s \<Longrightarrow> CHR 0x0A \<notin> set (csv_body s) \<and> CHR 0x00 \<notin> set (csv_body s)"
proof -
  assume "sample_ok s"
  then obtain a b c x y z where s: "s_accel s = [a, b, c]" "s_gyro s = [x, y, z]" "list_all int_axis [a, b, c, x, y, z]"
    by (rule sample_okE)
  then have "num_text (fmt_f 0 d)" if "d \<in> {a, b, c, x, y, z}" for d using that int_axis_text by auto
  then show ?thesis
    using num_text_dt [of "s_dt s"] num_text_show_dec [of "uint (s_counter s)"] s(1,2)
    by (auto simp: csv_body_def num_text_def numeral_2_eq_2)
qed

lemma csv_rows_lines: "list_all sample_ok ss \<Longrightarrow> csv_rows (concat (map csv_line ss)) = map sample_rounded ss"
proof (induction ss)
  case (Cons s ss)
  then have "CHR 0x0A \<notin> set (csv_body s @ [CHR 0x0D])" using csv_body_chars by simp
  then have "csv_rows (csv_body s @ [CHR 0x0D]) = [sample_rounded s]"
    using csv_row_line [of s] Cons.prems by (simp add: csv_rows_def strtok_lines_single map_filter_def)
  with Cons csv_rows_append [of "csv_body s @ [CHR 0x0D]"] show ?case by (simp add: csv_line_def)
qed simp

text \<open>
  A recording is read back as it was written: every sample in order, with its counter and its six axis values,
  and the time step rounded to nine digits; the header line is not taken for a sample.
\<close>

lemma csv_read_written:
  assumes "list_all sample_ok samples" and "csv_write path Written samples = (None, Some doc)"
  shows "csv_read path (Bytes doc) = Inr (map sample_rounded samples)"
proof -
  have h: "csv_header = ''counter,dt,ax,ay,az,gx,gy,gz'' @ [CHR 0x0D] @ CHR 0x0A # []" by (simp add: csv_header_def)
  have "csv_row (''counter,dt,ax,ay,az,gx,gy,gz'' @ [CHR 0x0D]) = None" by code_simp
  then have "csv_rows (''counter,dt,ax,ay,az,gx,gy,gz'' @ [CHR 0x0D]) = []"
    by (simp add: csv_rows_def strtok_lines_single map_filter_def)
  moreover have "csv_rows doc = csv_rows (''counter,dt,ax,ay,az,gx,gy,gz'' @ [CHR 0x0D]) @ csv_rows (concat (map csv_line samples))"
    using assms(2) csv_rows_append [of "''counter,dt,ax,ay,az,gx,gy,gz'' @ [CHR 0x0D]" "concat (map csv_line samples)"]
    by (simp add: csv_write_def h)
  moreover have "cstring doc"
  proof -
    have "CHR 0x00 \<notin> set (concat (map csv_line samples))"
      using assms(1) csv_body_chars by (auto simp: csv_line_def list_all_iff)
    then show ?thesis using assms(2) by (auto simp: csv_write_def cstring_def csv_header_def)
  qed
  ultimately show ?thesis using csv_rows_lines [OF assms(1)] by (simp add: csv_read_def csv_rows_def)
qed

end
