(* ===== verification/Hidraw.thy ===== *)
theory Hidraw
  imports Kernel_Driver
begin

text \<open>
  The raw report printer of \<^verbatim>\<open>hidraw.c\<close>: decoding and printing of reports, the read loop, the search for the remote's
  node under \<^verbatim>\<open>/dev\<close> and its identity from sysfs. Standard output is the returned text. The environment is what
  the calls of \<^verbatim>\<open>read\<close> give, in order (\<open>hid_read\<close>), and the nodes with what \<^verbatim>\<open>open\<close> and the ioctl give for them.
\<close>

abbreviation newline :: char where
  "newline \<equiv> CHR 0x0A"

section \<open>Formats\<close>

definition hex_char :: "bool \<Rightarrow> int \<Rightarrow> char" where
  "hex_char up n = (if n < 10 then char_of (nat n + 48) else char_of (nat n + (if up then 55 else 87)))"

function show_hex :: "bool \<Rightarrow> int \<Rightarrow> string" where
  "show_hex up n = (if n < 16 then [hex_char up n] else show_hex up (n div 16) @ [hex_char up (n mod 16)])"
  by auto
termination by (relation "measure (\<lambda>(up, n). nat n)") auto

declare show_hex.simps [simp del]

definition rjust :: "nat \<Rightarrow> string \<Rightarrow> string" where
  "rjust w s = replicate (w - length s) CHR '' '' @ s"

section \<open>Decoding and printing\<close>

definition expected_size :: "8 word \<Rightarrow> nat" where
  "expected_size report_id =
     (if report_id = 0xFD then 20 else if report_id = 0xF9 then 29 else if report_id = 0x01 then 29 else 15)"

definition button_codes :: "(int \<times> string) list" where
  "button_codes = [
    (0x0000, ''None''),
    (0x8000, ''POWER''),
    (0x8099, ''POWER2''),
    (0x8010, ''0''),
    (0x8011, ''1''),
    (0x8012, ''2''),
    (0x8013, ''3''),
    (0x8014, ''4''),
    (0x8015, ''5''),
    (0x8016, ''6''),
    (0x8017, ''7''),
    (0x8018, ''8''),
    (0x8019, ''9''),
    (0x8044, ''WHEEL_PRESS''),
    (0x8053, ''LIST''),
    (0x8045, ''...''),
    (0x8002, ''VOL+''),
    (0x8003, ''VOL-''),
    (0x8009, ''MUTE''),
    (0x808B, ''MIC''),
    (0x807C, ''HOME''),
    (0x8043, ''SETTINGS''),
    (0x8028, ''BACK''),
    (0x80AB, ''GUIDE''),
    (0x805D, ''STREAMING''),
    (0x800B, ''INPUT''),
    (0x8098, ''STB MENU''),
    (0x8001, ''CH-''),
    (0x8072, ''RED''),
    (0x8071, ''GREEN''),
    (0x8063, ''YELLOW''),
    (0x8061, ''BLUE''),
    (0x8081, ''MOVIES''),
    (0x80B0, ''PLAY''),
    (0x80BA, ''PAUSE''),
    (0x8040, ''UP''),
    (0x8041, ''DOWN''),
    (0x8006, ''RIGHT''),
    (0x8007, ''LEFT'')]"

definition button_name :: "int \<Rightarrow> string" where
  "button_name c = (case find (\<lambda>(k, n). k = c) button_codes of
       Some (k, n) \<Rightarrow> n
     | None \<Rightarrow> take 31 (''UNKNOWN_'' @ pad0 4 (show_hex True c)))"

definition hexstr :: "8 word list \<Rightarrow> string" where
  "hexstr data = concat (map (\<lambda>b. pad0 2 (show_hex False (uint b))) data)"

definition hid_le16 :: "8 word list \<Rightarrow> nat \<Rightarrow> int" where
  "hid_le16 p i = uint (p ! i) + 256 * uint (p ! (i + 1))"

definition hid_be16 :: "8 word list \<Rightarrow> nat \<Rightarrow> int" where
  "hid_be16 p i = 256 * uint (p ! i) + uint (p ! (i + 1))"

text \<open>The cast to \<^verbatim>\<open>signed short\<close>.\<close>

definition s16_of :: "int \<Rightarrow> int" where
  "s16_of v = (if v \<ge> 2 ^ 15 then v - 2 ^ 16 else v)"

definition hid_be16s :: "8 word list \<Rightarrow> nat \<Rightarrow> int" where
  "hid_be16s p i = s16_of (hid_be16 p i)"

definition sep2 :: "string list \<Rightarrow> string" where
  "sep2 ws = concat (map (\<lambda>(i, w). (if i = 0 then [] else ''  '') @ w) (enumerate 0 ws))"

text \<open>What is printed for a button report with these values; \<open>pos\<close> is the wheel position after it.\<close>

definition fd_print :: "8 word list \<Rightarrow> int \<Rightarrow> int \<Rightarrow> int \<Rightarrow> int \<Rightarrow> int list \<Rightarrow> int \<Rightarrow> string" where
  "fd_print d btn wheel counter const points pos =
     (''Button: '' @ button_name btn @ '' ('' @ show_dec btn @ '')  Wheel='' @ fmt_d wheel @ [newline] @
      ''[0xFD] Buttons raw: '' @ hexstr d @ [newline] @
      sep2 (rjust 8 ''Counter'' # map (rjust 6) [''Const'', ''POI1'', ''POI2'', ''POI3'', ''ACCEL_X'', ''ACCEL_Y'', ''ACCEL_Z'']) @ [newline] @
      sep2 (rjust 8 (fmt_d counter) # rjust 6 (''0x'' @ show_hex False const) # map (\<lambda>v. rjust 6 (fmt_d v)) points) @ [newline] @
      ''Button: '' @ button_name btn @ '' ('' @ pad0 4 (show_hex True btn) @ '')  Wheel='' @ fmt_d wheel @
      '' Wheel Pos = '' @ fmt_d pos @ [newline])"

definition parse_fd :: "8 word list \<Rightarrow> int \<Rightarrow> string \<times> int" where
  "parse_fd d wheel_pos =
     (if length d < 20 then (''[0xFD] short payload: '' @ hexstr d @ [newline], wheel_pos)
      else let wheel = sint (d ! 19); pos = wheel_pos + wheel
           in (fd_print d (hid_be16 d 17) wheel (hid_le16 d 1) (hid_le16 d 3)
                 (map (\<lambda>i. hid_be16s d (5 + 2 * i)) [0..<6]) pos, pos))"

definition parse_f9 :: "8 word list \<Rightarrow> string" where
  "parse_f9 d = ''[0xF9] Extra control raw: '' @ hexstr d @ [newline]"

fun gyro_values :: "8 word list \<Rightarrow> nat \<Rightarrow> string" where
  "gyro_values (a # b # d) i =
     (if i = 0 then [] else '', '') @ fmt_d (s16_of (hid_le16 [a, b] 0)) @ gyro_values d (i + 2)"
| "gyro_values d i = []"

definition parse_01 :: "8 word list \<Rightarrow> string" where
  "parse_01 d =
     (if length d mod 2 = 0 then ''[0x01] Gyro values: ('' @ gyro_values d 0 @ '')'' @ [newline]
      else ''[0x01] Odd-size gyro packet: '' @ hexstr d @ [newline])"

section \<open>The read loop\<close>

text \<open>
  What a call of \<^verbatim>\<open>read\<close> gives. A hidraw node delivers one report per call: when the report is longer than the
  buffer, the rest of it is gone. \<open>HData []\<close> and the end of the list are the end of the file.
\<close>

datatype hid_read = HData "8 word list" | HIntr | HError string

text \<open>The inner loop: read until \<open>sz\<close> bytes are there.\<close>

fun read_report :: "nat \<Rightarrow> 8 word list \<Rightarrow> hid_read list \<Rightarrow> (string + 8 word list) \<times> hid_read list" where
  "read_report sz buf [] = (Inr buf, [])"
| "read_report sz buf (HError m # k) = (Inl m, k)"
| "read_report sz buf (HIntr # k) = (Inr buf, k)"
| "read_report sz buf (HData bs # k) =
     (let b = take (sz - length buf) bs
      in if b = [] then (Inr buf, k)
         else if length (buf @ b) < sz then read_report sz (buf @ b) k
         else (Inr (buf @ b), k))"

definition print_report :: "8 word \<Rightarrow> 8 word list \<Rightarrow> int \<Rightarrow> string \<times> int" where
  "print_report report_id buf wheel_pos =
     (if report_id = 0xFD then parse_fd buf wheel_pos
      else if report_id = 0xF9 then (parse_f9 buf, wheel_pos)
      else if report_id = 0x01 then (parse_01 buf, wheel_pos)
      else (''[0x'' @ pad0 2 (show_hex True (uint report_id)) @ ''] Unknown len='' @ show_dec (int (length buf)) @
            '': '' @ hexstr buf @ [newline], wheel_pos))"

lemma read_report_shorter: "length (snd (read_report sz buf k)) \<le> length k"
  by (induction sz buf k rule: read_report.induct) (auto simp: Let_def le_SucI)

text \<open>The outer loop; the result is the return value, what was printed, and the message on standard error.\<close>

definition read_error :: "string \<Rightarrow> string \<Rightarrow> string" where
  "read_error path m = ''lgmagic: read error on '' @ path @ '': '' @ m"

function hidraw_loop :: "string \<Rightarrow> int \<Rightarrow> hid_read list \<Rightarrow> int \<times> string \<times> string option" where
  "hidraw_loop path wheel_pos [] = (0, [], None)"
| "hidraw_loop path wheel_pos (HIntr # k) = (0, [], None)"
| "hidraw_loop path wheel_pos (HError m # k) = (- 1, [], Some (read_error path m))"
| "hidraw_loop path wheel_pos (HData [] # k) = (0, [], None)"
| "hidraw_loop path wheel_pos (HData (report_id # lost) # k) =
     (case read_report (expected_size report_id) [] k of
        (Inl m, k') \<Rightarrow> (- 1, [], Some (read_error path m))
      | (Inr buf, k') \<Rightarrow>
          (case print_report report_id buf wheel_pos of
             (out, pos) \<Rightarrow>
               if length buf < expected_size report_id then (0, out, None)
               else (case hidraw_loop path pos k' of (rc, out', e) \<Rightarrow> (rc, out @ out', e))))"
  by pat_completeness auto
termination
  by (relation "measure (\<lambda>(path, p, k). length k)")
    (simp_all add: le_imp_less_Suc read_report_shorter [THEN order_trans] flip: snd_conv, metis le_imp_less_Suc read_report_shorter snd_conv)

definition hidraw_run :: "string \<Rightarrow> string option \<Rightarrow> hid_read list \<Rightarrow> int \<times> string \<times> string option" where
  "hidraw_run path no_open reads = (case no_open of
       Some m \<Rightarrow> (- 1, [], Some (''lgmagic: cannot open '' @ path @ '': '' @ m))
     | None \<Rightarrow> hidraw_loop path 0 reads)"

section \<open>Finding the remote\<close>

definition LGMAGIC_VID :: "32 word" where "LGMAGIC_VID = 0x000f"
definition LGMAGIC_PID :: "32 word" where "LGMAGIC_PID = 0x3412"

text \<open>
  An entry of \<^verbatim>\<open>/dev\<close>: \<^const>\<open>None\<close> when it cannot be opened, \<open>Some None\<close> when the ioctl fails, otherwise vendor and product,
  which are signed 16-bit numbers converted to \<^verbatim>\<open>unsigned\<close>.
\<close>

type_synonym hid_node = "string \<times> (16 word \<times> 16 word) option option"

fun scan_remotes :: "(string \<Rightarrow> 'c \<Rightarrow> bool \<times> 'c) \<Rightarrow> 'c \<Rightarrow> nat \<Rightarrow> hid_node list \<Rightarrow> nat \<times> 'c" where
  "scan_remotes cb ctx found [] = (found, ctx)"
| "scan_remotes cb ctx found ((name, Some (Some (vendor, product))) # nodes) =
     (if starts_with ''hidraw'' name \<and> scast vendor = LGMAGIC_VID \<and> scast product = LGMAGIC_PID then
        (case cb (''/dev/'' @ name) ctx of
           (True, ctx') \<Rightarrow> (found + 1, ctx')
         | (False, ctx') \<Rightarrow> scan_remotes cb ctx' (found + 1) nodes)
      else scan_remotes cb ctx found nodes)"
| "scan_remotes cb ctx found (node # nodes) = scan_remotes cb ctx found nodes"

definition scan_dev :: "(string \<Rightarrow> 'c \<Rightarrow> bool \<times> 'c) \<Rightarrow> 'c \<Rightarrow> hid_node list option \<Rightarrow> nat \<times> 'c" where
  "scan_dev cb ctx dir = (case dir of None \<Rightarrow> (0, ctx) | Some nodes \<Rightarrow> scan_remotes cb ctx 0 nodes)"

definition pick_first :: "string \<Rightarrow> string \<Rightarrow> bool \<times> string" where
  "pick_first path ctx = (True, take 255 path)"

definition print_one :: "string \<Rightarrow> string \<Rightarrow> bool \<times> string" where
  "print_one path out = (False, out @ path @ [newline])"

definition hidraw_find_remote :: "nat \<Rightarrow> hid_node list option \<Rightarrow> string + string" where
  "hidraw_find_remote pathsz dir = (case scan_dev pick_first [] dir of (found, buf) \<Rightarrow>
     if found = 0 then
       Inl (''no LG Magic Remote hidraw device found (VID '' @ pad0 4 (show_hex False (uint LGMAGIC_VID)) @
            '' PID '' @ pad0 4 (show_hex False (uint LGMAGIC_PID)) @ '')'')
     else Inr (take (pathsz - 1) buf))"

definition hidraw_list_remotes :: "hid_node list option \<Rightarrow> string" where
  "hidraw_list_remotes dir = (case scan_dev print_one [] dir of (found, out) \<Rightarrow>
     if found = 0 then out @ ''no LG Magic Remote hidraw devices found'' @ [newline] else out)"

text \<open>The part of a path after its last slash, and the identity file of sysfs (\<open>sys\<close> gives a file's bytes).\<close>

definition basename :: "string \<Rightarrow> string" where
  "basename path = rev (takeWhile (\<lambda>c. c \<noteq> CHR ''/'') (rev path))"

definition strip_eol :: "string \<Rightarrow> string" where
  "strip_eol s = rev (dropWhile (\<lambda>c. c = CHR 0x0A \<or> c = CHR 0x0D) (rev s))"

definition hidraw_get_uniq :: "(string \<Rightarrow> string option) \<Rightarrow> string \<Rightarrow> nat \<Rightarrow> int \<times> string" where
  "hidraw_get_uniq sys path bufsz =
     (if bufsz = 0 then (- 1, [])
      else let syspath = ''/sys/class/hidraw/'' @ basename path @ ''/device/uniq''
           in if length syspath \<ge> 256 then (- 1, [])
              else case sys syspath of
                     None \<Rightarrow> (- 1, [])
                   | Some bytes \<Rightarrow> (0, cstr (strip_eol (take (bufsz - 1) bytes))))"

section \<open>Bounds\<close>

text \<open>
  The report buffer has 64 bytes and the buffer of its hexadecimal form 128: a report never has more bytes than
  were asked for, at most 29.
\<close>

lemma read_report_bound: "read_report sz buf k = (Inr b, k') \<Longrightarrow> length buf \<le> sz \<Longrightarrow> length b \<le> sz"
  by (induction sz buf k rule: read_report.induct) (auto simp: Let_def split: if_splits)

lemma expected_size_le: "expected_size report_id \<le> 29"
  by (simp add: expected_size_def)

lemma hex_len: "0 \<le> n \<Longrightarrow> n < 256 \<Longrightarrow> length (pad0 2 (show_hex up n)) = 2"
proof (cases "n < 16")
  case False
  assume "0 \<le> n" "n < 256"
  then have "show_hex up n = [hex_char up (n div 16), hex_char up (n mod 16)]"
  proof -
    have "n div 16 < 16" using \<open>n < 256\<close> by linarith
    with False show ?thesis by (simp add: show_hex.simps [of up n] show_hex.simps [of up "n div 16"])
  qed
  then show ?thesis by (simp add: pad0_def)
qed (simp add: pad0_def show_hex.simps [of up n])

lemma hexstr_length: "length (hexstr data) = 2 * length data"
proof -
  have "length (pad0 2 (show_hex False (uint b))) = 2" for b :: "8 word"
    using uint_lt2p [of b] by (intro hex_len) simp_all
  then show ?thesis by (simp add: hexstr_def length_concat comp_def sum_list_triv)
qed

lemma hid_buffers:
  assumes "read_report (expected_size report_id) [] k = (Inr buf, k')"
  shows "length buf \<le> 64 \<and> length (hexstr buf) + 1 \<le> 128"
  using read_report_bound [OF assms] expected_size_le [of report_id] by (simp add: hexstr_length)

section \<open>The same decoding as the driver\<close>

lemma or_bytes:
  fixes a b :: "8 word"
  shows "uint (push_bit 8 (ucast a) OR ucast b :: 16 word) = 256 * uint a + uint b"
proof -
  have ub: "uint (ucast b :: 16 word) = uint b" "uint (ucast a :: 16 word) = uint a"
    using uint_lt2p [of b] uint_lt2p [of a] by (simp_all add: unsigned_ucast_eq take_bit_int_eq_self)
  have "uint (push_bit 8 (ucast a) :: 16 word) = take_bit 16 (push_bit 8 (uint a))"
    unfolding unsigned_push_bit_eq ub(2) by simp
  also have "\<dots> = push_bit 8 (uint a)"
    using uint_lt2p [of a] by (intro take_bit_int_eq_self) (simp_all add: push_bit_eq_mult)
  finally have u: "uint (push_bit 8 (ucast a) :: 16 word) = push_bit 8 (uint a)" .
  have "push_bit 8 (uint a) AND uint b = 0"
  proof (rule bit_eqI)
    fix n
    have "\<not> bit (uint b) n" if "8 \<le> n" using that by (simp add: bit_uint_iff)
    then show "bit (push_bit 8 (uint a) AND uint b) n = bit 0 n" by (auto simp: bit_and_iff bit_push_bit_iff)
  qed
  then have "push_bit 8 (uint a) OR uint b = push_bit 8 (uint a) + uint b" by (simp flip: disjunctive_add_eq_or)
  then show ?thesis unfolding unsigned_or_eq u ub(1) by (simp add: push_bit_eq_mult)
qed

lemma hid_be16_kernel: "hid_be16 d i = uint (be16 d i)"
  by (simp add: hid_be16_def be16_def or_bytes)

lemma hid_le16_kernel: "hid_le16 d i = uint (le16 d i)"
  by (simp add: hid_le16_def le16_def or_bytes or.commute [of "ucast (d ! i)"])

lemma s16_of_uint: "s16_of (uint (w :: 16 word)) = sint w"
proof -
  have w: "0 \<le> uint w" "uint w < 65536" using uint_lt2p [of w] by simp_all
  have "sint w = (uint w + 32768) mod 65536 - 32768"
    by (simp add: sint_uint signed_take_bit_eq_take_bit_shift take_bit_eq_mod)
  also have "\<dots> = s16_of (uint w)" 
  proof (cases "uint w < 32768")
    case True
    with w(1) show ?thesis by (simp add: s16_of_def)
  next
    case False
    have "(uint w + 32768) mod 65536 = (uint w - 32768) mod 65536"
      using mod_add_self2 [of "uint w - 32768" 65536] by (simp add: add.commute)
    also have "\<dots> = uint w - 32768" using False w(2) by simp
    finally show ?thesis using False by (simp add: s16_of_def)
  qed
  finally show ?thesis by simp
qed

lemma hid_be16s_kernel: "hid_be16s d i = sint (be16 d i)"
  by (simp add: hid_be16s_def hid_be16_kernel s16_of_uint)

text \<open>The names are those of the table the other tools use.\<close>

lemma button_name_keymap:
  "button_name c = (case keymap_lg_code_to_name c of Some n \<Rightarrow> n | None \<Rightarrow> take 31 (''UNKNOWN_'' @ pad0 4 (show_hex True c)))"
proof -
  have "button_codes = lg_button_codes" by (simp add: button_codes_def lg_button_codes_def)
  then show ?thesis by (simp add: button_name_def keymap_lg_code_to_name_def split: option.split)
qed

lemma parse_fd_kernel:
  "length d = 20 \<Longrightarrow> parse_fd d pos =
     (fd_print d (uint (be16 d 17)) (sint (d ! 19)) (uint (le16 d 1)) (uint (le16 d 3))
        (map (\<lambda>i. sint (be16 d (5 + 2 * i))) [0..<6]) (pos + sint (d ! 19)), pos + sint (d ! 19))"
  unfolding parse_fd_def hid_be16_kernel hid_le16_kernel hid_be16s_kernel by (simp add: Let_def)

section \<open>Half of the reports\<close>

text \<open>
  What is printed when the node delivers the button reports \<open>rs\<close>, one per call of \<^verbatim>\<open>read\<close>: the first call takes the first byte
  of a report and the rest of that report is gone, the second call takes the whole next report.
\<close>

fun fd_prints :: "8 word list list \<Rightarrow> int \<Rightarrow> string" where
  "fd_prints (r # d # rs) pos =
     fd_print d (uint (be16 d 17)) (sint (d ! 19)) (uint (le16 d 1)) (uint (le16 d 3))
       (map (\<lambda>i. sint (be16 d (5 + 2 * i))) [0..<6]) (pos + sint (d ! 19)) @ fd_prints rs (pos + sint (d ! 19))"
| "fd_prints [r] pos = ''[0xFD] short payload: '' @ [newline]"
| "fd_prints [] pos = []"

definition fd_report :: "8 word list \<Rightarrow> bool" where
  "fd_report r \<longleftrightarrow> length r = 20 \<and> r ! 0 = 0xFD"

lemma hidraw_loop_fd:
  "list_all fd_report rs \<Longrightarrow> hidraw_loop path pos (map HData rs) = (0, fd_prints rs pos, None)"
proof (induction rs pos rule: fd_prints.induct)
  case (1 r d rs pos)
  then obtain lost where r: "r = 0xFD # lost" and d: "length d = 20" "d \<noteq> []"
    by (cases r; cases d) (auto simp: fd_report_def)
  have sz: "expected_size 0xFD = 20" by (simp add: expected_size_def)
  have "read_report 20 [] (map HData (d # rs)) = (Inr d, map HData rs)" using d by simp
  with 1 d r show ?case by (simp add: sz print_report_def parse_fd_kernel)
next
  case (2 r pos)
  then obtain lost where "r = 0xFD # lost" by (cases r) (auto simp: fd_report_def)
  then show ?case by (simp add: expected_size_def print_report_def parse_fd_def hexstr_def)
qed simp

text \<open>
  C37: on a hidraw node, which delivers one report per call of \<^verbatim>\<open>read\<close>, the tool prints every second report and loses
  the others; what it prints for a report are the button, wheel, counter and axis values the kernel driver reads
  from the same bytes, and the wheel position is the sum over the printed reports only.
\<close>

theorem hidraw_every_second_report:
  assumes "list_all fd_report rs"
  shows "hidraw_run path None (map HData rs) = (0, fd_prints rs 0, None)"
  by (simp add: hidraw_run_def hidraw_loop_fd [OF assms])

definition report_power :: "8 word list" where
  "report_power = [0xFD, 1, 0, 0, 0xFD, 0, 0, 0, 0, 0, 0, 0, 0, 0, 0, 0, 0, 0x80, 0, 0]"

theorem hidraw_every_second_report_witness:
  "hidraw_run ''/dev/hidraw0'' None (map HData [report_power, report_power]) = (0, fd_prints [report_power, report_power] 0, None)"
proof -
  have "list_all fd_report [report_power, report_power]" by (simp add: fd_report_def report_power_def)
  then show ?thesis by (rule hidraw_every_second_report)
qed

text \<open>A complete gyro report has 29 bytes, so its values are never printed: the size is odd.\<close>

lemma gyro_never_decoded:
  "length d = expected_size 0x01 \<Longrightarrow> parse_01 d = ''[0x01] Odd-size gyro packet: '' @ hexstr d @ [newline]"
  by (simp add: parse_01_def expected_size_def)

section \<open>The first matching node\<close>

definition is_remote :: "hid_node \<Rightarrow> bool" where
  "is_remote n = (case snd n of
       Some (Some (v, p)) \<Rightarrow> starts_with ''hidraw'' (fst n) \<and> scast v = LGMAGIC_VID \<and> scast p = LGMAGIC_PID
     | _ \<Rightarrow> False)"

lemma scan_pick_first:
  "scan_remotes pick_first ctx found nodes = (case find is_remote nodes of
       None \<Rightarrow> (found, ctx)
     | Some n \<Rightarrow> (found + 1, take 255 (''/dev/'' @ fst n)))"
  by (induction pick_first ctx found nodes rule: scan_remotes.induct) (auto simp: is_remote_def pick_first_def)

lemma scan_print:
  "scan_remotes print_one out found nodes =
     (found + length (filter is_remote nodes), out @ concat (map (\<lambda>n. ''/dev/'' @ fst n @ [newline]) (filter is_remote nodes)))"
  by (induction print_one out found nodes rule: scan_remotes.induct) (auto simp: is_remote_def print_one_def)

lemma find_remote_first:
  "(\<exists>p. hidraw_find_remote 256 (Some nodes) = Inr p) \<longleftrightarrow> (\<exists>n \<in> set nodes. is_remote n)"
  by (auto simp: hidraw_find_remote_def scan_dev_def scan_pick_first find_None_iff find_Some_iff split: option.splits)

end
