(* ===== verification/CMath.thy ===== *)
theory CMath
  imports CDouble Complex_Main
begin

text \<open>
  \<^verbatim>\<open>sqrt\<close> of the C library on doubles (correctly rounded, as IEEE 754 asks), and the order of doubles: C's \<open><\<close> is the order of
  the real values, so it is transitive and irreflexive.
\<close>

section \<open>Square root\<close>

function isqrt :: "int \<Rightarrow> int" where
  "isqrt n = (if n \<le> 0 then 0 else let s = 2 * isqrt (n div 4) in if (s + 1) * (s + 1) \<le> n then s + 1 else s)"
  by auto
termination by (relation "measure nat") auto

declare isqrt.simps [simp del]

text \<open>
  The significand is scaled to at least 110 bits with an even exponent; the root has at least 55 bits and a last bit says whether
  it is exact, which is enough to round correctly.
\<close>

fun dsqrt :: "cdouble \<Rightarrow> cdouble" where
  "dsqrt DNaN = DNaN"
| "dsqrt (DInf s) = (if s then DNaN else DInf False)"
| "dsqrt (DFin s m e) =
     (if m = 0 then DFin s 0 (- 1074)
      else if s then DNaN
      else let sh = 110 + (if even e then 0 else 1);
               n = m * 2 ^ nat sh;
               q = isqrt n
           in round_dyadic False (2 * q + (if q * q = n then 0 else 1)) ((e - sh) div 2 - 1))"

lemma isqrt_spec: "0 \<le> n \<Longrightarrow> 0 \<le> isqrt n \<and> isqrt n * isqrt n \<le> n \<and> n < (isqrt n + 1) * (isqrt n + 1)"
proof (induction n rule: isqrt.induct)
  case (1 n)
  show ?case
  proof (cases "n = 0")
    case True
    then show ?thesis by (simp add: isqrt.simps)
  next
    case False
    define r where "r = isqrt (n div 4)"
    have ih: "0 \<le> r" "r * r \<le> n div 4" "n div 4 < (r + 1) * (r + 1)"
      using 1 False by (simp_all add: r_def)
    have n: "(2 * r) * (2 * r) \<le> n" "n < (2 * r + 2) * (2 * r + 2)"
    proof -
      have "4 * (r * r) \<le> n" using ih(2) by linarith
      then show "(2 * r) * (2 * r) \<le> n" by simp
      have "n < 4 * ((r + 1) * (r + 1))" using ih(3) by linarith
      then show "n < (2 * r + 2) * (2 * r + 2)" by (simp add: algebra_simps)
    qed
    have "isqrt n = (if (2 * r + 1) * (2 * r + 1) \<le> n then 2 * r + 1 else 2 * r)"
      using 1 False by (subst isqrt.simps) (simp add: r_def Let_def)
    with ih(1) n show ?thesis by (auto simp: algebra_simps)
  qed
qed

text \<open>The root of a nonnegative double is never a NaN and never negative.\<close>

lemma round_ratio_sign: "\<exists>b m e. round_ratio s n d = (if b then DInf s else DFin s m e)"
proof (cases "n = 0")
  case True
  then have "round_ratio s n d = (if False then DInf s else DFin s 0 (- 1074))" by simp
  then show ?thesis by blast
next
  case False
  show ?thesis
    by (simp only: round_ratio_def Let_def False if_False) (intro exI, rule refl)
qed

lemma round_dyadic_not_nan: "\<not> isnan (round_dyadic s n e)"
  using round_ratio_sign [of s] unfolding round_dyadic_def by (metis isnan.simps(2,3))

lemma dsqrt_not_nan: "\<not> isnan (dsqrt (DFin False m e))"
  by (simp add: Let_def round_dyadic_not_nan del: isnan.simps) simp

section \<open>The order of doubles\<close>

fun dreal :: "cdouble \<Rightarrow> real" where
  "dreal (DFin s m e) = of_int (smant s m) * 2 powi e"
| "dreal _ = 0"

lemma powi_split: "k \<le> e \<Longrightarrow> (2::real) powi e = 2 ^ nat (e - k) * 2 powi k"
proof -
  assume "k \<le> e"
  then have "(2::real) ^ nat (e - k) = 2 powi (e - k)" by (simp add: power_int_def)
  then show ?thesis using power_int_add [of "2::real" "e - k" k] by simp
qed

lemma align_real: "of_int (align m e f) * 2 powi (min e f) = (of_int m * 2 powi e :: real)"
  using powi_split [of "min e f" e] by (simp add: align_def)

lemma dlt_fin: "dlt (DFin s m e) (DFin t n f) \<longleftrightarrow> dreal (DFin s m e) < dreal (DFin t n f)"
proof -
  have pos: "(0::real) < 2 powi (min e f)" by (simp add: zero_less_power_int)
  have "dreal (DFin s m e) = of_int (align (smant s m) e f) * 2 powi (min e f)"
    "dreal (DFin t n f) = of_int (align (smant t n) f e) * 2 powi (min e f)"
    using align_real [of "smant s m" e f] align_real [of "smant t n" f e] by (simp_all add: min.commute)
  then show ?thesis using pos by (simp add: mult_less_cancel_right_pos)
qed

lemma dlt_irrefl [simp]: "\<not> dlt x x"
  by (cases x) auto

lemma dlt_trans: "dlt x y \<Longrightarrow> dlt y z \<Longrightarrow> dlt x z"
proof (cases "isfin x \<and> isfin y \<and> isfin z")
  case True
  then obtain s m e t n f u k g where "x = DFin s m e" "y = DFin t n f" "z = DFin u k g"
    by (metis isfin.elims(2))
  then show "dlt x y \<Longrightarrow> dlt y z \<Longrightarrow> dlt x z" using dlt_fin by (metis less_trans)
next
  case False
  then show "dlt x y \<Longrightarrow> dlt y z \<Longrightarrow> dlt x z" by (cases x; cases y; cases z) auto
qed

end
