(* ===== verification/Lm.thy ===== *)
theory Lm
  imports CMath
begin

text \<open>
  The Levenberg-Marquardt fit of the accelerometer calibration (\<^verbatim>\<open>lm.c\<close>): twelve parameters, the bias and the rows of a
  matrix, in a list \<open>x\<close>. Arrays are lists; every sum is evaluated in the order of the loops.
\<close>

section \<open>Loops over arrays\<close>

definition LM_G :: cdouble where "LM_G = dlit 980665 100000"
definition LM_N :: nat where "LM_N = 12"
definition LM_MAX_ITER :: nat where "LM_MAX_ITER = 100"
definition LM_MIN_IMPROV :: cdouble where "LM_MIN_IMPROV = dlit 1 (10 ^ 10)"
definition LM_NRM_GUARD :: cdouble where "LM_NRM_GUARD = dlit 1 (10 ^ 9)"

text \<open>\<open>s = 0.0; for (...) s += e\<close>.\<close>

definition dsum :: "cdouble list \<Rightarrow> cdouble" where
  "dsum es = foldl dadd d0 es"

section \<open>Residuals and Jacobian\<close>

definition calc_v :: "cdouble list \<Rightarrow> cdouble list \<Rightarrow> cdouble list \<times> cdouble list" where
  "calc_v a x =
     (let d = map (\<lambda>j. dsub (a ! j) (x ! j)) [0..<3]
      in (d, map (\<lambda>k. dsum (map (\<lambda>j. dmul (x ! (3 + 3 * k + j)) (d ! j)) [0..<3])) [0..<3]))"

definition norm3 :: "cdouble list \<Rightarrow> cdouble" where
  "norm3 v = dsqrt (dadd (dadd (dmul (v ! 0) (v ! 0)) (dmul (v ! 1) (v ! 1))) (dmul (v ! 2) (v ! 2)))"

definition resid_one :: "cdouble list \<Rightarrow> cdouble list \<Rightarrow> cdouble" where
  "resid_one a x = (case calc_v a x of (d, v) \<Rightarrow> dsub (norm3 v) LM_G)"

definition lm_residuals :: "cdouble list list \<Rightarrow> cdouble list \<Rightarrow> cdouble list" where
  "lm_residuals samples x = map (\<lambda>a. resid_one a x) samples"

definition jacobian_row :: "cdouble list \<Rightarrow> cdouble list \<Rightarrow> cdouble list" where
  "jacobian_row a x = (case calc_v a x of (d, v) \<Rightarrow>
     let nrm = norm3 v
     in if dlt nrm LM_NRM_GUARD then replicate LM_N d0
        else map (\<lambda>j. ddiv (dneg (dsum (map (\<lambda>k. dmul (v ! k) (x ! (3 + 3 * k + j))) [0..<3]))) nrm) [0..<3] @
             concat (map (\<lambda>k. map (\<lambda>j. ddiv (dmul (d ! j) (v ! k)) nrm) [0..<3]) [0..<3]))"

definition lm_jacobian :: "cdouble list list \<Rightarrow> cdouble list \<Rightarrow> cdouble list list" where
  "lm_jacobian samples x = map (\<lambda>a. jacobian_row a x) samples"

definition mean_cost :: "cdouble list \<Rightarrow> cdouble" where
  "mean_cost r = ddiv (dsum (map (\<lambda>v. dmul v v) r)) (of_int_d (int (length r)))"

section \<open>Gauss elimination\<close>

text \<open>The row of the largest pivot below row \<open>k\<close> in column \<open>k\<close>, and its absolute value.\<close>

definition find_pivot :: "cdouble list list \<Rightarrow> nat \<Rightarrow> nat \<times> cdouble" where
  "find_pivot m k = foldl (\<lambda>(piv, maxv) i. if dgt (dabs (m ! i ! k)) maxv then (i, dabs (m ! i ! k)) else (piv, maxv))
     (k, dabs (m ! k ! k)) [Suc k..<LM_N]"

text \<open>Exchange of two rows from column \<open>k\<close> on, and elimination of row \<open>i\<close> with row \<open>k\<close>.\<close>

definition swap_rows :: "nat \<Rightarrow> nat \<Rightarrow> cdouble list list \<Rightarrow> cdouble list list" where
  "swap_rows k piv m =
     (if piv = k then m
      else m[k := take k (m ! k) @ drop k (m ! piv), piv := take k (m ! piv) @ drop k (m ! k)])"

definition eliminate :: "nat \<Rightarrow> nat \<Rightarrow> cdouble list list \<Rightarrow> cdouble list list" where
  "eliminate k i m =
     (let f = ddiv (m ! i ! k) (m ! k ! k)
      in m[i := take k (m ! i) @ [d0] @ map (\<lambda>j. dsub (m ! i ! j) (dmul f (m ! k ! j))) [Suc k..<Suc LM_N]])"

fun gauss_down :: "nat list \<Rightarrow> cdouble list list \<Rightarrow> cdouble list list option" where
  "gauss_down [] m = Some m"
| "gauss_down (k # ks) m = (case find_pivot m k of (piv, maxv) \<Rightarrow>
     if dlt maxv (dlit 1 (10 ^ 15)) then None
     else gauss_down ks (foldl (\<lambda>m i. eliminate k i m) (swap_rows k piv m) [Suc k..<LM_N]))"

text \<open>Back substitution: \<open>x\<close> holds the components after \<open>i\<close>.\<close>

fun gauss_up :: "nat \<Rightarrow> cdouble list list \<Rightarrow> cdouble list \<Rightarrow> cdouble list" where
  "gauss_up 0 m x = x"
| "gauss_up (Suc i) m x =
     gauss_up i m
       (ddiv (foldl (\<lambda>s j. dsub s (dmul (m ! i ! j) (x ! (j - Suc i)))) (m ! i ! LM_N) [Suc i..<LM_N]) (m ! i ! i) # x)"

definition gauss_solve :: "cdouble list list \<Rightarrow> cdouble list \<Rightarrow> cdouble list option" where
  "gauss_solve a b = (case gauss_down [0..<LM_N] (map2 (\<lambda>row v. row @ [v]) a b) of
       None \<Rightarrow> None
     | Some m \<Rightarrow> Some (gauss_up LM_N m []))"

section \<open>The fit\<close>

definition lm_start :: "cdouble list list \<Rightarrow> cdouble list" where
  "lm_start samples =
     map (\<lambda>j. ddiv (dsum (map (\<lambda>a. a ! j) samples)) (of_int_d (int (length samples)))) [0..<3] @
     concat (map (\<lambda>k. map (\<lambda>j. if k = j then dlit 1 1 else d0) [0..<3]) [0..<3])"

definition normal_matrix :: "cdouble list list \<Rightarrow> cdouble list list" where
  "normal_matrix jac = map (\<lambda>j. map (\<lambda>k. dsum (map (\<lambda>row. dmul (row ! j) (row ! k)) jac)) [0..<LM_N]) [0..<LM_N]"

definition gradient :: "cdouble list list \<Rightarrow> cdouble list \<Rightarrow> cdouble list" where
  "gradient jac r = map (\<lambda>j. dsum (map2 (\<lambda>row v. dmul (row ! j) v) jac r)) [0..<LM_N]"

definition damped :: "cdouble \<Rightarrow> cdouble list list \<Rightarrow> cdouble list list" where
  "damped lam a = map (\<lambda>j. (a ! j)[j := dadd (a ! j ! j)
     (dmul lam (if dgt (a ! j ! j) d0 then a ! j ! j else dlit 1 1))]) [0..<LM_N]"

text \<open>The inner loop: \<open>Some (x, converged)\<close> for an accepted step, \<^const>\<open>None\<close> when ten values of lambda were tried in vain.\<close>

fun lm_tries :: "nat \<Rightarrow> cdouble \<Rightarrow> cdouble list list \<Rightarrow> cdouble list list \<Rightarrow> cdouble list \<Rightarrow> cdouble list \<Rightarrow> cdouble \<Rightarrow> (cdouble list \<times> bool) option" where
  "lm_tries 0 lam samples a ng x cost_old = None"
| "lm_tries (Suc tries) lam samples a ng x cost_old = (case gauss_solve (damped lam a) ng of
       None \<Rightarrow> lm_tries tries (dmul lam (dlit 10 1)) samples a ng x cost_old
     | Some d \<Rightarrow>
         let x_new = map2 dadd x d;
             cost_new = mean_cost (lm_residuals samples x_new)
         in if dlt cost_new cost_old then
              Some (x_new, dlt (dabs (dsub cost_old cost_new)) LM_MIN_IMPROV)
            else lm_tries tries (dmul lam (dlit 10 1)) samples a ng x cost_old)"

fun lm_loop :: "nat \<Rightarrow> cdouble list list \<Rightarrow> cdouble list \<Rightarrow> cdouble list" where
  "lm_loop 0 samples x = x"
| "lm_loop (Suc iter) samples x =
     (let r = lm_residuals samples x; jac = lm_jacobian samples x
      in case lm_tries 10 (dlit 1 1000) samples (normal_matrix jac) (map dneg (gradient jac r)) x (mean_cost r) of
           None \<Rightarrow> x
         | Some (x', converged) \<Rightarrow> if converged then x' else lm_loop iter samples x')"

definition lm_fit_accel :: "cdouble list list \<Rightarrow> (cdouble list \<times> cdouble list list \<times> cdouble) option" where
  "lm_fit_accel samples =
     (if length samples < 6 then None
      else let x = lm_loop LM_MAX_ITER samples (lm_start samples)
           in Some (take 3 x, map (\<lambda>k. take 3 (drop (3 + 3 * k) x)) [0..<3], mean_cost (lm_residuals samples x)))"

section \<open>The fit never gets worse\<close>

text \<open>
  What an optimizer that only accepts improvements promises: where it ends, the cost is that of the start, unchanged, or
  strictly smaller.
\<close>

locale descent =
  fixes cost :: "'x \<Rightarrow> cdouble"
    and improve :: "'x \<Rightarrow> ('x \<times> bool) option"
  assumes improve_less: "improve x = Some (x', stop) \<Longrightarrow> dlt (cost x') (cost x)"
begin

fun iterate :: "nat \<Rightarrow> 'x \<Rightarrow> 'x" where
  "iterate 0 x = x"
| "iterate (Suc n) x = (case improve x of None \<Rightarrow> x | Some (x', stop) \<Rightarrow> if stop then x' else iterate n x')"

lemma iterate_no_worse: "iterate n x = x \<or> dlt (cost (iterate n x)) (cost x)"
proof (induction n arbitrary: x)
  case (Suc n)
  show ?case
  proof (cases "improve x")
    case (Some r)
    obtain x' stop where r: "r = (x', stop)" by (cases r)
    then have "dlt (cost x') (cost x)" using improve_less Some by blast
    with Suc [of x'] Some r show ?thesis by (auto intro: dlt_trans)
  qed simp
qed simp

end

definition lm_cost :: "cdouble list list \<Rightarrow> cdouble list \<Rightarrow> cdouble" where
  "lm_cost samples x = mean_cost (lm_residuals samples x)"

definition lm_step :: "cdouble list list \<Rightarrow> cdouble list \<Rightarrow> (cdouble list \<times> bool) option" where
  "lm_step samples x =
     (let r = lm_residuals samples x; jac = lm_jacobian samples x
      in lm_tries 10 (dlit 1 1000) samples (normal_matrix jac) (map dneg (gradient jac r)) x (mean_cost r))"

lemma lm_tries_less:
  "lm_tries t lam samples a ng x c = Some (x', stop) \<Longrightarrow> dlt (lm_cost samples x') c"
  by (induction t lam samples a ng x c rule: lm_tries.induct)
    (auto simp: lm_cost_def Let_def split: option.splits if_splits)

interpretation lm: descent "lm_cost samples" "lm_step samples" for samples
  by unfold_locales (auto simp: lm_step_def lm_cost_def [of samples x for samples x, symmetric] Let_def intro: lm_tries_less)

lemma lm_loop_iterate: "lm_loop n samples x = lm.iterate samples n x"
  by (induction n arbitrary: x) (auto simp: lm_step_def Let_def split: option.splits)

text \<open>
  C29: the fit never makes the calibration worse: the reported cost is that of the returned bias and matrix, and either they are the
  starting point (the mean of the samples and the identity) or their mean squared residual is strictly smaller. It refuses
  fewer than six samples and always returns for six or more.
\<close>

theorem lm_fit_no_worse:
  "case lm_fit_accel samples of
     None \<Rightarrow> length samples < 6
   | Some (bias, m, cost) \<Rightarrow>
       6 \<le> length samples \<and>
       (\<exists>x. bias = take 3 x \<and> m = map (\<lambda>k. take 3 (drop (3 + 3 * k) x)) [0..<3] \<and> cost = lm_cost samples x \<and>
          (x = lm_start samples \<or> dlt cost (lm_cost samples (lm_start samples))))"
  using lm.iterate_no_worse [of samples LM_MAX_ITER "lm_start samples"]
  by (auto simp: lm_fit_accel_def Let_def lm_cost_def [symmetric] lm_loop_iterate)

end
