(* ===== verification/Uinput.thy ===== *)
theory Uinput
  imports Pipeline "HOL-Library.Word"
begin

unbundle bit_operations_syntax

text \<open>
  The virtual input devices of \<^verbatim>\<open>uinput.c\<close>: a device is described by capability bits (\<open>uinput_spec\<close>), created with a sequence of
  ioctls, and fed with events. The numbers of \<^verbatim>\<open>linux/input.h\<close> are written out. The environment says what \<^verbatim>\<open>open\<close> gives
  for the two nodes, which ioctl fails and what \<^verbatim>\<open>write\<close> returns; the result carries the ioctls that were made, in order.
\<close>

definition KEY_CNT :: nat where "KEY_CNT = 0x300"
definition REL_CNT :: nat where "REL_CNT = 0x10"
definition ABS_CNT :: nat where "ABS_CNT = 0x40"

section \<open>Specifications\<close>

record uinput_spec =
  us_name :: string
  us_bustype :: "16 word"
  us_vendor :: "32 word"
  us_product :: "32 word"
  keybits :: "8 word list"
  relbits :: "8 word list"
  absbits :: "8 word list"

definition BUS_USB :: "16 word" where "BUS_USB = 3"

definition uinput_spec_init :: "string \<Rightarrow> uinput_spec" where
  "uinput_spec_init name =
     \<lparr>us_name = name, us_bustype = BUS_USB, us_vendor = 0, us_product = 0,
      keybits = replicate ((KEY_CNT + 7) div 8) 0, relbits = replicate ((REL_CNT + 7) div 8) 0,
      absbits = replicate ((ABS_CNT + 7) div 8) 0\<rparr>"

text \<open>\<open>bits[code / 8] |= 1u << (code % 8)\<close>, and the test of a bit.\<close>

definition put_bit :: "nat \<Rightarrow> 8 word list \<Rightarrow> 8 word list" where
  "put_bit c bits = bits[c div 8 := (bits ! (c div 8)) OR push_bit (c mod 8) 1]"

definition get_bit :: "8 word list \<Rightarrow> nat \<Rightarrow> bool" where
  "get_bit bits c \<longleftrightarrow> bit (bits ! (c div 8)) (c mod 8)"

definition uinput_spec_key :: "nat \<Rightarrow> uinput_spec \<Rightarrow> uinput_spec" where
  "uinput_spec_key c s = (if c < KEY_CNT then s\<lparr>keybits := put_bit c (keybits s)\<rparr> else s)"

definition uinput_spec_rel :: "nat \<Rightarrow> uinput_spec \<Rightarrow> uinput_spec" where
  "uinput_spec_rel c s = (if c < REL_CNT then s\<lparr>relbits := put_bit c (relbits s)\<rparr> else s)"

definition uinput_spec_abs :: "nat \<Rightarrow> uinput_spec \<Rightarrow> uinput_spec" where
  "uinput_spec_abs c s = (if c < ABS_CNT then s\<lparr>absbits := put_bit c (absbits s)\<rparr> else s)"

definition any_bits :: "8 word list \<Rightarrow> bool" where
  "any_bits bits = list_ex (\<lambda>b. b \<noteq> 0) bits"

section \<open>Creating a device\<close>

datatype ui_op =
    UiEvbit int
  | UiKeybit nat
  | UiRelbit nat
  | UiAbsbit nat
  | UiSetup string "16 word" "16 word" "16 word"
  | UiCreate

datatype errno_t = ENOENT | EACCES | OtherError string

record uinput_env =
  ui_open :: "string \<Rightarrow> errno_t + int"
  ui_fails :: "ui_op \<Rightarrow> string option"

definition uinput_open_node :: "uinput_env \<Rightarrow> string + int" where
  "uinput_open_node env = (case ui_open env ''/dev/uinput'' of
       Inr fd \<Rightarrow> Inr fd
     | Inl _ \<Rightarrow>
         (case ui_open env ''/dev/input/uinput'' of
            Inr fd \<Rightarrow> Inr fd
          | Inl ENOENT \<Rightarrow> Inl (''no /dev/uinput device - run '' @ squote ''modprobe uinput'' @ '' first'')
          | Inl EACCES \<Rightarrow> Inl ''/dev/uinput: permission denied - run as root or join the input group''
          | Inl (OtherError m) \<Rightarrow> Inl (''cannot open /dev/uinput: '' @ m)))"

text \<open>The ioctls of \<open>uinput_create\<close>, in order.\<close>

definition create_ops :: "uinput_spec \<Rightarrow> ui_op list" where
  "create_ops spec =
     (if any_bits (keybits spec) then [UiEvbit 1] else []) @
     (if any_bits (relbits spec) then [UiEvbit 2] else []) @
     (if any_bits (absbits spec) then [UiEvbit 3] else []) @
     map UiKeybit (filter (get_bit (keybits spec)) [0..<KEY_CNT]) @
     map UiRelbit (filter (get_bit (relbits spec)) [0..<REL_CNT]) @
     map UiAbsbit (filter (get_bit (absbits spec)) [0..<ABS_CNT]) @
     [UiSetup (take 79 (us_name spec)) (us_bustype spec) (ucast (us_vendor spec)) (ucast (us_product spec)), UiCreate]"

text \<open>They are made until one fails.\<close>

fun run_ops :: "(ui_op \<Rightarrow> string option) \<Rightarrow> ui_op list \<Rightarrow> ui_op list \<times> string option" where
  "run_ops fails [] = ([], None)"
| "run_ops fails (op # ops) = (case fails op of
       Some m \<Rightarrow> ([op], Some m)
     | None \<Rightarrow> (case run_ops fails ops of (made, e) \<Rightarrow> (op # made, e)))"

definition uinput_create :: "uinput_env \<Rightarrow> uinput_spec \<Rightarrow> (string + int) \<times> ui_op list" where
  "uinput_create env spec = (case uinput_open_node env of
       Inl e \<Rightarrow> (Inl e, [])
     | Inr fd \<Rightarrow>
         (case run_ops (ui_fails env) (create_ops spec) of
            (made, Some m) \<Rightarrow> (Inl (''uinput setup for '' @ squote (us_name spec) @ '' failed: '' @ m), made)
          | (made, None) \<Rightarrow> (Inr fd, made)))"

section \<open>Events\<close>

definition syn_report :: input_event where
  "syn_report = \<lparr>ev_type = EV_SYN, ev_code = 0, ev_value = 0\<rparr>"

text \<open>The events of one call; the code of a key is converted to 16 bits.\<close>

definition uinput_key :: "int \<Rightarrow> int \<Rightarrow> input_event list" where
  "uinput_key c v = [\<lparr>ev_type = EV_KEY, ev_code = c mod 2 ^ 16, ev_value = v\<rparr>, syn_report]"

definition uinput_scroll :: "int \<Rightarrow> int \<Rightarrow> input_event list" where
  "uinput_scroll wheel hi_res =
     (if wheel \<noteq> 0 then [\<lparr>ev_type = EV_REL, ev_code = 8, ev_value = wheel\<rparr>] else []) @
     (if hi_res \<noteq> 0 then [\<lparr>ev_type = EV_REL, ev_code = 11, ev_value = hi_res\<rparr>] else []) @ [syn_report]"

definition uinput_move :: "int \<Rightarrow> int \<Rightarrow> input_event list" where
  "uinput_move dx dy =
     [\<lparr>ev_type = EV_REL, ev_code = 0, ev_value = dx\<rparr>, \<lparr>ev_type = EV_REL, ev_code = 1, ev_value = dy\<rparr>, syn_report]"

text \<open>\<^verbatim>\<open>struct input_event\<close> has 24 bytes; a short write is a failure.\<close>

definition uinput_write :: "(nat \<Rightarrow> int) \<Rightarrow> input_event list \<Rightarrow> int" where
  "uinput_write wr ev = (if wr (length ev * 24) = int (length ev * 24) then 0 else - 1)"

text \<open>The \<open>imu --mouse\<close> device.\<close>

definition uinput_open :: "uinput_env \<Rightarrow> (string + int) \<times> ui_op list" where
  "uinput_open env =
     (let s = (uinput_spec_init ''lgmagic mouse'')\<lparr>us_vendor := 1, us_product := 1\<rparr>
      in uinput_create env
           (uinput_spec_key 0x111 (uinput_spec_key 0x110 (uinput_spec_rel 1 (uinput_spec_rel 0 s)))))"

text \<open>The pair of the daemon (\<^verbatim>\<open>remote_uinput_open\<close>).\<close>

definition kbd_spec :: "string \<Rightarrow> uinput_spec" where
  "kbd_spec identity = fold uinput_spec_key [0..<KEY_CNT] (uinput_spec_init (''lgmagicd keyboard '' @ identity))"

definition mouse_spec :: "string \<Rightarrow> uinput_spec" where
  "mouse_spec identity =
     fold uinput_spec_key [0x110, 0x111, 0x112]
       (fold uinput_spec_rel [0, 1, 8, 11, 6] (uinput_spec_init (''lgmagicd mouse '' @ identity)))"

section \<open>Bits\<close>

lemma length_put_bit [simp]: "length (put_bit c bits) = length bits"
  by (simp add: put_bit_def)

lemma get_put_bit:
  assumes "c div 8 < length bits"
  shows "get_bit (put_bit c bits) d \<longleftrightarrow> d = c \<or> get_bit bits d"
proof (cases "d div 8 = c div 8")
  case True
  have "d mod 8 < 8" "c mod 8 < 8" by simp_all
  moreover have "d = c \<longleftrightarrow> d mod 8 = c mod 8" using True by (metis div_mod_decomp)
  ultimately show ?thesis
    using assms True by (auto simp: get_bit_def put_bit_def bit_or_iff bit_exp_iff)
next
  case False
  then show ?thesis by (auto simp: get_bit_def put_bit_def)
qed

lemma fold_put_bit:
  "\<forall>c \<in> set cs. c div 8 < length bits \<Longrightarrow> get_bit (fold put_bit cs bits) d \<longleftrightarrow> d \<in> set cs \<or> get_bit bits d"
  by (induction cs arbitrary: bits) (auto simp: get_put_bit)

lemma any_bits_iff: "any_bits bits \<longleftrightarrow> (\<exists>c < 8 * length bits. get_bit bits c)"
proof
  assume "any_bits bits"
  then obtain i where i: "i < length bits" "bits ! i \<noteq> 0" by (auto simp: any_bits_def list_ex_length)
  then obtain n where n: "bit (bits ! i) n" by (auto simp: bit_eq_iff)
  then have "n < 8" using bit_imp_le_length by fastforce
  with i n have "get_bit bits (8 * i + n)" "8 * i + n < 8 * length bits" by (auto simp: get_bit_def)
  then show "\<exists>c < 8 * length bits. get_bit bits c" by blast
next
  assume "\<exists>c < 8 * length bits. get_bit bits c"
  then obtain c where c: "c < 8 * length bits" "get_bit bits c" by blast
  then have "c div 8 < length bits" "bits ! (c div 8) \<noteq> 0" by (auto simp: get_bit_def)
  then show "any_bits bits" by (auto simp: any_bits_def list_ex_length)
qed

lemma get_bit_zero [simp]: "c div 8 < n \<Longrightarrow> \<not> get_bit (replicate n 0) c"
  by (simp add: get_bit_def)

lemma fold_spec_key:
  "fold uinput_spec_key cs s = s\<lparr>keybits := fold put_bit (filter (\<lambda>c. c < KEY_CNT) cs) (keybits s)\<rparr>"
  by (induction cs arbitrary: s) (simp_all add: uinput_spec_key_def)

lemma fold_spec_rel:
  "fold uinput_spec_rel cs s = s\<lparr>relbits := fold put_bit (filter (\<lambda>c. c < REL_CNT) cs) (relbits s)\<rparr>"
  by (induction cs arbitrary: s) (simp_all add: uinput_spec_rel_def)

lemma length_fold_put_bit [simp]: "length (fold put_bit cs bits) = length bits"
  by (induction cs arbitrary: bits) simp_all

text \<open>The bits of a specification built from two lists of codes.\<close>

lemma spec_bits:
  fixes name :: string
  assumes "s = fold uinput_spec_key cs (fold uinput_spec_rel rs (uinput_spec_init name))"
  shows "c < KEY_CNT \<Longrightarrow> get_bit (keybits s) c \<longleftrightarrow> c \<in> set cs"
    and "c < REL_CNT \<Longrightarrow> get_bit (relbits s) c \<longleftrightarrow> c \<in> set rs"
    and "any_bits (keybits s) \<longleftrightarrow> (\<exists>c \<in> set cs. c < KEY_CNT)"
    and "any_bits (relbits s) \<longleftrightarrow> (\<exists>c \<in> set rs. c < REL_CNT)"
    and "\<not> any_bits (absbits s)"
proof -
  have k: "keybits s = fold put_bit (filter (\<lambda>c. c < KEY_CNT) cs) (replicate 96 0)"
    and r: "relbits s = fold put_bit (filter (\<lambda>c. c < REL_CNT) rs) (replicate 2 0)"
    and a: "absbits s = replicate 8 0"
    unfolding assms fold_spec_key fold_spec_rel uinput_spec_init_def by (simp_all add: KEY_CNT_def REL_CNT_def ABS_CNT_def)
  have gk: "get_bit (keybits s) c \<longleftrightarrow> c \<in> set cs" if "c < KEY_CNT" for c
    unfolding k using that by (subst fold_put_bit) (auto simp: KEY_CNT_def less_mult_imp_div_less)
  have gr: "get_bit (relbits s) c \<longleftrightarrow> c \<in> set rs" if "c < REL_CNT" for c
    unfolding r using that by (subst fold_put_bit) (auto simp: REL_CNT_def less_mult_imp_div_less)
  show "c < KEY_CNT \<Longrightarrow> get_bit (keybits s) c \<longleftrightarrow> c \<in> set cs" by (rule gk)
  show "c < REL_CNT \<Longrightarrow> get_bit (relbits s) c \<longleftrightarrow> c \<in> set rs" by (rule gr)
  have "8 * length (keybits s) = KEY_CNT" "8 * length (relbits s) = REL_CNT" by (simp_all add: k r KEY_CNT_def REL_CNT_def)
  then show "any_bits (keybits s) \<longleftrightarrow> (\<exists>c \<in> set cs. c < KEY_CNT)" "any_bits (relbits s) \<longleftrightarrow> (\<exists>c \<in> set rs. c < REL_CNT)"
    using gk gr unfolding any_bits_iff by auto
  show "\<not> any_bits (absbits s)" by (simp add: a any_bits_def list_ex_iff)
qed

section \<open>What is written was declared\<close>

definition declared :: "uinput_spec \<Rightarrow> input_event \<Rightarrow> bool" where
  "declared spec e \<longleftrightarrow>
     ev_type e = EV_SYN \<or>
     ev_type e = EV_KEY \<and> 0 \<le> ev_code e \<and> UiEvbit 1 \<in> set (create_ops spec) \<and> UiKeybit (nat (ev_code e)) \<in> set (create_ops spec) \<or>
     ev_type e = EV_REL \<and> 0 \<le> ev_code e \<and> UiEvbit 2 \<in> set (create_ops spec) \<and> UiRelbit (nat (ev_code e)) \<in> set (create_ops spec)"

text \<open>The device an event of the pipeline goes to, and the events written there.\<close>

fun emit_spec :: "string \<Rightarrow> out_event \<Rightarrow> uinput_spec" where
  "emit_spec identity (OKey c v) = kbd_spec identity"
| "emit_spec identity _ = mouse_spec identity"

fun emit_events :: "out_event \<Rightarrow> input_event list" where
  "emit_events (OKey c v) = uinput_key c v"
| "emit_events (OScroll w h) = uinput_scroll w h"
| "emit_events (OMove dx dy) = uinput_move dx dy"

definition key_code :: "int \<Rightarrow> bool" where
  "key_code c \<longleftrightarrow> 0 \<le> c \<and> c < int KEY_CNT"

definition codes_ok :: "pipeline \<Rightarrow> bool" where
  "codes_ok p \<longleftrightarrow> list_all (\<lambda>(a, b). key_code b) (pr_map (pl_active p)) \<and> list_all (\<lambda>(a, b). key_code b) (held p)"

lemma spec_declares:
  assumes "s = fold uinput_spec_key cs (fold uinput_spec_rel rs (uinput_spec_init name))"
  shows "0 \<le> c \<Longrightarrow> nat c < KEY_CNT \<Longrightarrow> nat c \<in> set cs \<Longrightarrow> declared s \<lparr>ev_type = EV_KEY, ev_code = c, ev_value = v\<rparr>"
    and "0 \<le> c \<Longrightarrow> nat c < REL_CNT \<Longrightarrow> nat c \<in> set rs \<Longrightarrow> declared s \<lparr>ev_type = EV_REL, ev_code = c, ev_value = v\<rparr>"
  using spec_bits [OF assms] by (auto simp: declared_def create_ops_def)

lemma kbd_declares: "key_code c \<Longrightarrow> declared (kbd_spec identity) \<lparr>ev_type = EV_KEY, ev_code = c, ev_value = v\<rparr>"
  by (rule spec_declares(1) [of _ "[0..<KEY_CNT]" "[]" "''lgmagicd keyboard '' @ identity"]) (auto simp: kbd_spec_def key_code_def)

lemma mouse_declares: "c \<in> {0, 1, 8, 11} \<Longrightarrow> declared (mouse_spec identity) \<lparr>ev_type = EV_REL, ev_code = c, ev_value = v\<rparr>"
  by (rule spec_declares(2) [of _ "[0x110, 0x111, 0x112]" "[0, 1, 8, 11, 6]" "''lgmagicd mouse '' @ identity"])
    (auto simp: mouse_spec_def REL_CNT_def)

lemma emit_declared:
  assumes "\<And>c v. e = OKey c v \<Longrightarrow> key_code c"
  shows "list_all (declared (emit_spec identity e)) (emit_events e)"
proof (cases e)
  case (OKey c v)
  then have c: "key_code c" using assms by blast
  then have "c mod 65536 = c" by (simp add: key_code_def KEY_CNT_def)
  with OKey kbd_declares [OF c] show ?thesis by (simp add: uinput_key_def) (simp add: declared_def syn_report_def)
next
  case (OScroll w h)
  then show ?thesis using mouse_declares by (simp add: uinput_scroll_def) (simp add: declared_def syn_report_def)
next
  case (OMove dx dy)
  then show ?thesis using mouse_declares by (simp add: uinput_move_def) (simp add: declared_def syn_report_def)
qed

lemma map_key_code: "list_all (\<lambda>(a, b). key_code b) (pr_map prof) \<Longrightarrow> key_code phys \<Longrightarrow> key_code (map_key prof phys)"
  by (auto simp: map_key_def list_all_iff split: option.split dest: map_of_SomeD)

lemma pipeline_key_codes:
  assumes "codes_ok p" and "key_code (fst kv)" and "pipeline_key p kv = (e, p')"
  shows "codes_ok p' \<and> (\<forall>c v. e = OKey c v \<longrightarrow> key_code c)"
proof (cases "held_index (held p) (fst kv)")
  case None
  have "key_code (map_key (pl_active p) (fst kv))" using assms map_key_code by (simp add: codes_ok_def)
  with None assms show ?thesis by (auto simp: pipeline_key_def codes_ok_def Let_def)
next
  case (Some i)
  have i: "i < length (held p)" using held_index_some [OF Some] by simp
  have h: "\<forall>x \<in> set (held p). key_code (snd x)" using assms(1) by (auto simp: codes_ok_def list_all_iff)
  have "set (butlast ((held p)[i := last (held p)])) \<subseteq> set (held p)"
  proof
    fix x
    assume "x \<in> set (butlast ((held p)[i := last (held p)]))"
    then have "x \<in> insert (last (held p)) (set (held p))"
      by (meson in_set_butlastD set_update_subset_insert subsetD)
    moreover have "last (held p) \<in> set (held p)" using i by (intro last_in_set) auto
    ultimately show "x \<in> set (held p)" by blast
  qed
  with h assms Some i show ?thesis
    by (auto simp: pipeline_key_def codes_ok_def list_all_iff Let_def split: if_splits)
qed

lemma pipeline_keys_codes:
  "codes_ok p \<Longrightarrow> list_all (\<lambda>kv. key_code (fst kv)) kvs \<Longrightarrow> pipeline_keys p kvs = (es, p') \<Longrightarrow>
   codes_ok p' \<and> (\<forall>c v. OKey c v \<in> set es \<longrightarrow> key_code c)"
proof (induction kvs arbitrary: p es p')
  case (Cons kv kvs)
  obtain e p1 where e: "pipeline_key p kv = (e, p1)" by fastforce
  obtain es1 p2 where es: "pipeline_keys p1 kvs = (es1, p2)" by fastforce
  have "codes_ok p1 \<and> (\<forall>c v. e = OKey c v \<longrightarrow> key_code c)"
    using pipeline_key_codes [OF Cons.prems(1) _ e] Cons.prems(2) by simp
  moreover from this have "codes_ok p2 \<and> (\<forall>c v. OKey c v \<in> set es1 \<longrightarrow> key_code c)"
    using Cons.IH [OF _ _ es] Cons.prems(2) by simp
  moreover have "es = e # es1" "p' = p2" using Cons.prems(3) e es by simp_all
  ultimately show ?case by (metis set_ConsD)
qed auto



section \<open>Creation\<close>

lemma run_ops_all: "run_ops fails ops = (made, None) \<Longrightarrow> made = ops"
  by (induction ops arbitrary: made) (auto split: option.splits prod.splits)

lemma run_ops_prefix: "\<exists>rest. ops = fst (run_ops fails ops) @ rest"
  by (induction ops) (auto split: option.splits prod.splits)

text \<open>A device that was created got all its declarations; one that failed was never created.\<close>

lemma uinput_create_complete:
  "uinput_create env spec = (Inr fd, made) \<Longrightarrow> made = create_ops spec"
  by (auto simp: uinput_create_def split: sum.splits prod.splits option.splits dest: run_ops_all)

end
