(* ===== verification/Commands.thy ===== *)
theory Commands
  imports Daemon_Config Dbus_Client Csv
begin

text \<open>
  The commands of \<^verbatim>\<open>lgmagic\<close> that talk to the daemon: \<^verbatim>\<open>cmd_bus.c\<close>, \<^verbatim>\<open>cmd_device.c\<close>, \<^verbatim>\<open>cmd_profile.c\<close>, \<^verbatim>\<open>cmd_button.c\<close>, \<^verbatim>\<open>cmd_scroll.c\<close>,
  and the dispatch of \<^verbatim>\<open>main.c\<close>. The state of a command is its bus client and what it wrote to its two output streams; an
  operation that can reach undefined behaviour of the client returns an option. \<open>cmd_env\<close> holds the connection, the environment
  variables for the two directories and the files.
\<close>

record cli =
  cli_bus :: dbus_client
  cli_out :: string
  cli_err :: string

record cmd_env =
  cm_conn :: conn_env
  cm_config_root :: "string option"   \<comment> \<open>\<^verbatim>\<open>LGMAGIC_CONFIG_ROOT\<close>\<close>
  cm_state_dir :: "string option"     \<comment> \<open>\<^verbatim>\<open>LGMAGIC_STATE_DIR\<close>\<close>
  cm_files :: files

abbreviation nl :: string where
  "nl \<equiv> [CHR 0x0A]"

definition say :: "string \<Rightarrow> cli \<Rightarrow> cli" where
  "say s k = k\<lparr>cli_out := cli_out k @ s\<rparr>"

definition complain :: "string \<Rightarrow> cli \<Rightarrow> cli" where
  "complain s k = k\<lparr>cli_err := cli_err k @ s\<rparr>"

section \<open>Shared plumbing\<close>

definition not_running :: string where
  "not_running = ''lgmagic: lgmagicd is not running - try: sudo systemctl enable --now lgmagicd'' @ nl"

definition cmd_bus_connect :: "cmd_env \<Rightarrow> cli \<Rightarrow> (bool \<times> cli) option" where
  "cmd_bus_connect env k = map_option (\<lambda>(e, c). case e of
       None \<Rightarrow> (True, k\<lparr>cli_bus := c\<rparr>)
     | Some m \<Rightarrow> (False, complain (''lgmagic: '' @ take 255 m @ nl @ not_running) (k\<lparr>cli_bus := c\<rparr>)))
     (dbus_connect (cm_conn env) None)"

text \<open>The message for a call that did not succeed.\<close>

fun call_message :: "call_res \<Rightarrow> string" where
  "call_message (CallOk v) = []"
| "call_message (CallError name msg) =
     (if name = ''org.lgmagic.Error.NotAuthorized'' then ''lgmagic: permission denied (polkit)'' @ nl
      else if msg \<noteq> [] then ''lgmagic: '' @ msg @ nl
      else ''lgmagic: '' @ name @ nl)"
| "call_message (CallFail e) = ''lgmagic: '' @ take 255 e @ nl @ not_running"

definition cmd_bus_call ::
  "string \<Rightarrow> string \<Rightarrow> dbus_arg list option \<Rightarrow> cli \<Rightarrow> (dbus_value option \<times> cli) option" where
  "cmd_bus_call method sg args k = map_option (\<lambda>(res, c).
     let k' = k\<lparr>cli_bus := c\<rparr>
     in case res of CallOk v \<Rightarrow> (Some v, k') | _ \<Rightarrow> (None, complain (call_message res) k'))
     (dbus_call method sg args (cli_bus k))"

fun value_items :: "dbus_value \<Rightarrow> string list" where
  "value_items (DStrings xs) = xs"
| "value_items _ = []"

fun comma_list :: "string list \<Rightarrow> string" where
  "comma_list [] = []"
| "comma_list [x] = x"
| "comma_list (x # xs) = x @ '', '' @ comma_list xs"

definition cmd_bus_resolve_mac :: "string option \<Rightarrow> cli \<Rightarrow> (string option \<times> cli) option" where
  "cmd_bus_resolve_mac given k = (case given of
       Some m \<Rightarrow> Some (Some (take 63 m), k)
     | None \<Rightarrow> map_option (\<lambda>(out, k'). case out of
            None \<Rightarrow> (None, k')
          | Some v \<Rightarrow>
              (let items = value_items v
               in if items = [] then (None, complain (''lgmagic: no devices (is the remote connected?)'' @ nl) k')
                  else if length items > 1 then
                    (None, complain (''lgmagic: multiple devices, specify a MAC: '' @ comma_list items @ nl) k')
                  else (Some (take 63 (hd items)), k')))
          (cmd_bus_call ''ListDevices'' [] None k))"

definition cmd_config_root :: "cmd_env \<Rightarrow> string" where
  "cmd_config_root env = (case cm_config_root env of Some r \<Rightarrow> if r \<noteq> [] then r else ''/etc/lgmagic'' | None \<Rightarrow> ''/etc/lgmagic'')"

definition cmd_state_dir :: "cmd_env \<Rightarrow> string" where
  "cmd_state_dir env = (case cm_state_dir env of Some r \<Rightarrow> if r \<noteq> [] then r else ''/var/lib/lgmagic'' | None \<Rightarrow> ''/var/lib/lgmagic'')"

definition jpath :: "nat \<Rightarrow> string \<Rightarrow> string \<Rightarrow> string option" where
  "jpath outsz a b = (if length a + length b + 1 > outsz then None else Some (a @ b))"

definition cmd_load_device :: "cmd_env \<Rightarrow> string \<Rightarrow> string option \<times> device_config" where
  "cmd_load_device env mac =
     (case Option.bind (jpath 4096 (cmd_config_root env) ''/devices.d/'') (\<lambda>p.
           Option.bind (jpath 4096 p mac) (\<lambda>p. jpath 4096 p ''.toml'')) of
        None \<Rightarrow> (Some ''device config path too long'', device_config_init)
      | Some path \<Rightarrow>
          (case device_config_load_file path (cm_files env path) device_config_init of
             (rc, e, dc) \<Rightarrow>
               if rc < 0 then (e, dc)
               else case jpath 4096 (cmd_state_dir env) ''/state.toml'' of
                      None \<Rightarrow> (Some ''state path too long'', dc)
                    | Some sp \<Rightarrow>
                        (case toml_load_file (cm_files env) sp of
                           None \<Rightarrow> (None, dc)
                         | Some root \<Rightarrow>
                             let devs = toml_table_get_short (Some root) ''devices'';
                                 dev = (case devs of Some (TTable ds) \<Rightarrow> toml_table_get_short devs mac | _ \<Rightarrow> None);
                                 profile = (if dev = None then None else toml_table_get_str dev ''profile'' None)
                             in case profile of
                                  Some p \<Rightarrow> (None, dc\<lparr>dc_profile := p\<rparr>)
                                | None \<Rightarrow> (None, dc))))"

section \<open>\<^verbatim>\<open>lgmagic device\<close>\<close>

abbreviation arg_s :: "string \<Rightarrow> dbus_arg" where
  "arg_s s \<equiv> \<lparr>ar_type = CHR ''s'', ar_s = s, ar_d = 0, ar_u = 0\<rparr>"

definition is_help :: "string \<Rightarrow> bool" where
  "is_help a \<longleftrightarrow> a = ''--help'' \<or> a = ''-h''"

definition device_usage :: string where
  "device_usage = ''Usage: lgmagic device list'' @ nl @ ''       lgmagic device status [MAC]'' @ nl"

text \<open>\<open>usage (stderr)\<close> returns 1, \<open>usage (stdout)\<close> returns 0; the first argument of a command is its name.\<close>

definition bad_usage :: "string \<Rightarrow> cli \<Rightarrow> (int \<times> cli) option" where
  "bad_usage u k = Some (1, complain u k)"

definition good_usage :: "string \<Rightarrow> cli \<Rightarrow> (int \<times> cli) option" where
  "good_usage u k = Some (0, say u k)"

definition disconnect :: "cli \<Rightarrow> cli" where
  "disconnect k = k\<lparr>cli_bus := dbus_disconnect (cli_bus k)\<rparr>"

definition with_bus :: "cmd_env \<Rightarrow> (cli \<Rightarrow> (int \<times> cli) option) \<Rightarrow> cli \<Rightarrow> (int \<times> cli) option" where
  "with_bus env body k = (case cmd_bus_connect env k of
       None \<Rightarrow> None
     | Some (False, k1) \<Rightarrow> Some (1, k1)
     | Some (True, k1) \<Rightarrow> body k1)"

definition cmd_device :: "cmd_env \<Rightarrow> string list \<Rightarrow> cli \<Rightarrow> (int \<times> cli) option" where
  "cmd_device env argv k =
     (if length argv < 2 then bad_usage device_usage k
      else if is_help (argv ! 1) then good_usage device_usage k
      else if argv ! 1 = ''list'' then
        (if length argv \<noteq> 2 then bad_usage device_usage k
         else with_bus env (\<lambda>k1. map_option (\<lambda>(out, k2). case out of
                None \<Rightarrow> (1, disconnect k2)
              | Some v \<Rightarrow> (0, disconnect (say (concat (map (\<lambda>i. i @ nl) (value_items v))) k2)))
              (cmd_bus_call ''ListDevices'' [] None k1)) k)
      else if argv ! 1 = ''status'' then
        (if length argv > 3 then bad_usage device_usage k
         else with_bus env (\<lambda>k1. case cmd_bus_resolve_mac (if length argv = 3 then Some (argv ! 2) else None) k1 of
                None \<Rightarrow> None
              | Some (None, k2) \<Rightarrow> Some (1, disconnect k2)
              | Some (Some mac, k2) \<Rightarrow>
                  (case cmd_bus_call ''GetStatus'' ''s'' (Some [arg_s mac]) k2 of
                     None \<Rightarrow> None
                   | Some (None, k3) \<Rightarrow> Some (1, disconnect k3)
                   | Some (Some (DString t), k3) \<Rightarrow> Some (0, disconnect (say t k3))
                   | Some (Some v, k3) \<Rightarrow> None)) k)
      else bad_usage device_usage k)"

section \<open>\<^verbatim>\<open>lgmagic button\<close>\<close>

definition button_usage :: string where
  "button_usage = ''Usage: lgmagic button list [MAC]'' @ nl @ ''       lgmagic button map MAC KEY_FROM KEY_TO'' @ nl @
     ''       lgmagic button reset MAC'' @ nl"

definition key_label :: "int \<Rightarrow> string" where
  "key_label c = (case keymap_code_to_name c of Some n \<Rightarrow> n | None \<Rightarrow> ''?'')"

definition map_lines :: "string \<Rightarrow> (int \<times> int) list \<Rightarrow> string" where
  "map_lines indent m = concat (map (\<lambda>(a, b). indent @ key_label a @ '' -> '' @ key_label b @ nl) m)"

definition button_do_list :: "cmd_env \<Rightarrow> string \<Rightarrow> cli \<Rightarrow> int \<times> cli" where
  "button_do_list env mac k = (case cmd_load_device env mac of
       (Some e, dc) \<Rightarrow> (1, complain (''lgmagic: '' @ mac @ '': '' @ e @ nl) k)
     | (None, dc) \<Rightarrow>
         (case profile_find dc (dc_profile dc) of
            None \<Rightarrow> (0, say (''(no buttons mapped in profile '' @ squote (dc_profile dc) @ '')'' @ nl) k)
          | Some p \<Rightarrow>
              if pr_map p = [] then (0, say (''(no buttons mapped in profile '' @ squote (dc_profile dc) @ '')'' @ nl) k)
              else (0, say (map_lines [] (pr_map p)) k)))"

text \<open>A call whose value is not used: the return code of the command.\<close>

definition call_rc :: "string \<Rightarrow> string \<Rightarrow> dbus_arg list \<Rightarrow> cli \<Rightarrow> (int \<times> cli) option" where
  "call_rc method sg args k = map_option (\<lambda>(out, k'). (if out = None then 1 else 0, k')) (cmd_bus_call method sg (Some args) k)"

definition and_disconnect :: "(int \<times> cli) option \<Rightarrow> (int \<times> cli) option" where
  "and_disconnect r = map_option (\<lambda>(rc, k). (rc, disconnect k)) r"

definition cmd_button :: "cmd_env \<Rightarrow> string list \<Rightarrow> cli \<Rightarrow> (int \<times> cli) option" where
  "cmd_button env argv k =
     (if length argv < 2 then bad_usage button_usage k
      else if is_help (argv ! 1) then good_usage button_usage k
      else with_bus env (\<lambda>k1.
        if argv ! 1 = ''list'' then
          (if length argv > 3 then bad_usage button_usage k1
           else case cmd_bus_resolve_mac (if length argv = 3 then Some (argv ! 2) else None) k1 of
                  None \<Rightarrow> None
                | Some (None, k2) \<Rightarrow> Some (1, disconnect k2)
                | Some (Some mac, k2) \<Rightarrow> and_disconnect (Some (button_do_list env mac k2)))
        else if argv ! 1 = ''map'' then
          (if length argv \<noteq> 5 then bad_usage button_usage k1
           else and_disconnect (call_rc ''MapButton'' ''sss'' [arg_s (argv ! 2), arg_s (argv ! 3), arg_s (argv ! 4)] k1))
        else if argv ! 1 = ''reset'' then
          (if length argv \<noteq> 3 then bad_usage button_usage k1
           else and_disconnect (call_rc ''ResetButtons'' ''s'' [arg_s (argv ! 2)] k1))
        else and_disconnect (bad_usage button_usage k1)) k)"

section \<open>\<^verbatim>\<open>lgmagic scroll\<close>\<close>

definition scroll_usage :: string where
  "scroll_usage = ''Usage: lgmagic scroll speed MAC VALUE'' @ nl @ ''       lgmagic scroll sensitivity MAC VALUE'' @ nl @
     ''       lgmagic scroll reset MAC'' @ nl"

text \<open>The bits of a double; there is one NaN.\<close>

fun double_bits :: "cdouble \<Rightarrow> nat" where
  "double_bits DNaN = 0x7ff8000000000000"
| "double_bits (DInf s) = (if s then 2 ^ 63 else 0) + 0x7ff0000000000000"
| "double_bits (DFin s m e) =
     (if s then 2 ^ 63 else 0) + (if m < 2 ^ 52 then nat m else nat (e + 1075) * 2 ^ 52 + nat (m - 2 ^ 52))"

definition do_set :: "string \<Rightarrow> string \<Rightarrow> string \<Rightarrow> cli \<Rightarrow> (int \<times> cli) option" where
  "do_set method mac txt k = (case whole_double txt of
       None \<Rightarrow> Some (1, complain (''lgmagic: invalid number '' @ squote txt @ nl) k)
     | Some v \<Rightarrow> call_rc method ''sd'' [arg_s mac, \<lparr>ar_type = CHR ''d'', ar_s = [], ar_d = double_bits v, ar_u = 0\<rparr>] k)"

definition cmd_scroll :: "cmd_env \<Rightarrow> string list \<Rightarrow> cli \<Rightarrow> (int \<times> cli) option" where
  "cmd_scroll env argv k =
     (if length argv < 2 then bad_usage scroll_usage k
      else if is_help (argv ! 1) then good_usage scroll_usage k
      else if length argv < 3 \<or> is_help (argv ! 2) then bad_usage scroll_usage k
      else with_bus env (\<lambda>k1.
        if argv ! 1 = ''speed'' then
          (if length argv \<noteq> 4 then bad_usage scroll_usage k1
           else and_disconnect (do_set ''SetScrollSpeed'' (argv ! 2) (argv ! 3) k1))
        else if argv ! 1 = ''sensitivity'' then
          (if length argv \<noteq> 4 then bad_usage scroll_usage k1
           else and_disconnect (do_set ''SetSensitivity'' (argv ! 2) (argv ! 3) k1))
        else if argv ! 1 = ''reset'' then
          (if length argv \<noteq> 3 then bad_usage scroll_usage k1
           else and_disconnect (case do_set ''SetScrollSpeed'' (argv ! 2) ''1.0'' k1 of
                  None \<Rightarrow> None
                | Some (rc, k2) \<Rightarrow> if rc = 0 then do_set ''SetSensitivity'' (argv ! 2) ''30.0'' k2 else Some (rc, k2)))
        else and_disconnect (bad_usage scroll_usage k1)) k)"

section \<open>\<^verbatim>\<open>lgmagic profile\<close>\<close>

definition profile_usage :: string where
  "profile_usage = ''Usage: lgmagic profile list'' @ nl @ ''       lgmagic profile show [MAC]'' @ nl @
     ''       lgmagic profile set MAC PROFILE'' @ nl"

definition profile_line :: "string \<Rightarrow> device_config \<Rightarrow> string" where
  "profile_line mac dc = mac @ '':'' @ (if dc_profiles dc = [] then '' default'' else []) @
     concat (map (\<lambda>p. '' '' @ pr_name p @ (if pr_name p = dc_profile dc then '' (active)'' else [])) (dc_profiles dc)) @ nl"

fun profile_list_items :: "cmd_env \<Rightarrow> string list \<Rightarrow> cli \<Rightarrow> cli" where
  "profile_list_items env [] k = k"
| "profile_list_items env (mac # macs) k = profile_list_items env macs (case cmd_load_device env mac of
       (Some e, dc) \<Rightarrow> complain (''lgmagic: '' @ mac @ '': '' @ e @ nl) k
     | (None, dc) \<Rightarrow> say (profile_line mac dc) k)"

definition profile_do_list :: "cmd_env \<Rightarrow> cli \<Rightarrow> (int \<times> cli) option" where
  "profile_do_list env k = map_option (\<lambda>(out, k'). case out of
       None \<Rightarrow> (1, k')
     | Some v \<Rightarrow> (0, profile_list_items env (value_items v) k')) (cmd_bus_call ''ListDevices'' [] None k)"

definition print_buttons :: "profile \<Rightarrow> string \<Rightarrow> string" where
  "print_buttons p indent =
     (if pr_map p = [] then indent @ ''  buttons: (none)'' @ nl else map_lines (indent @ ''  '') (pr_map p))"

definition show_profile :: "device_config \<Rightarrow> profile \<Rightarrow> string" where
  "show_profile dc p =
     ''  '' @ pr_name p @ (if pr_name p = dc_profile dc then '' (active)'' else []) @ nl @
     ''    scroll_speed: '' @ fmt_g 6 (scroll_speed p) @ (if has_scroll p then [] else '' (default)'') @ nl @
     ''    sensitivity: '' @ fmt_g 6 (sensitivity p) @ (if has_sens p then [] else '' (default)'') @ nl @
     (if has_lpf p then ''    lpf_alpha: '' @ fmt_g 6 (pr_lpf_alpha p) @ nl else ''    lpf_alpha: (global)'' @ nl) @
     print_buttons p ''   ''"

definition show_device :: "string \<Rightarrow> device_config \<Rightarrow> string" where
  "show_device mac dc =
     ''device: '' @ mac @ nl @ ''profile: '' @ dc_profile dc @ nl @
     ''airmouse: '' @ (if dc_has_airmouse dc then (if dc_airmouse dc then ''on'' else ''off'') else ''on (default)'') @ nl @
     ''calib: '' @ (case dc_calib dc of Some c \<Rightarrow> c | None \<Rightarrow> ''- (per-device default)'') @ nl @
     ''profiles:'' @ nl @ (if dc_profiles dc = [] then ''  default (active)'' @ nl else []) @
     concat (map (show_profile dc) (dc_profiles dc))"

definition profile_do_show :: "cmd_env \<Rightarrow> string \<Rightarrow> cli \<Rightarrow> int \<times> cli" where
  "profile_do_show env mac k = (case cmd_load_device env mac of
       (Some e, dc) \<Rightarrow> (1, complain (''lgmagic: '' @ mac @ '': '' @ e @ nl) k)
     | (None, dc) \<Rightarrow> (0, say (show_device mac dc) k))"

definition cmd_profile :: "cmd_env \<Rightarrow> string list \<Rightarrow> cli \<Rightarrow> (int \<times> cli) option" where
  "cmd_profile env argv k =
     (if length argv < 2 then bad_usage profile_usage k
      else if is_help (argv ! 1) then good_usage profile_usage k
      else with_bus env (\<lambda>k1.
        if argv ! 1 = ''list'' then
          (if length argv \<noteq> 2 then bad_usage profile_usage k1 else and_disconnect (profile_do_list env k1))
        else if argv ! 1 = ''show'' then
          (if length argv > 3 then bad_usage profile_usage k1
           else case cmd_bus_resolve_mac (if length argv = 3 then Some (argv ! 2) else None) k1 of
                  None \<Rightarrow> None
                | Some (None, k2) \<Rightarrow> Some (1, disconnect k2)
                | Some (Some mac, k2) \<Rightarrow> and_disconnect (Some (profile_do_show env mac k2)))
        else if argv ! 1 = ''set'' then
          (if length argv \<noteq> 4 then bad_usage profile_usage k1
           else and_disconnect (call_rc ''SetProfile'' ''ss'' [arg_s (argv ! 2), arg_s (argv ! 3)] k1))
        else and_disconnect (bad_usage profile_usage k1)) k)"

section \<open>\<^verbatim>\<open>main\<close>\<close>

text \<open>The global flags are taken out of the command line, wherever they stand; \<^const>\<open>None\<close>: \<open>--config\<close> without a file.\<close>

fun global_flags :: "string list \<Rightarrow> string option \<Rightarrow> string list \<Rightarrow> (string option \<times> string list) option" where
  "global_flags [] extra rest = Some (extra, rest)"
| "global_flags (a # as) extra rest =
     (if a = ''--config'' then (case as of [] \<Rightarrow> None | f # as' \<Rightarrow> global_flags as' (Some f) rest)
      else if starts_with ''--config='' a then global_flags as (Some (drop 9 a)) rest
      else global_flags as extra (rest @ [a]))"

definition commands :: "string list" where
  "commands = [''analyze'', ''imu'', ''calibrate'', ''calib2bin'', ''config'', ''setup'', ''device'', ''profile'', ''button'', ''scroll'', ''diagnose'']"

datatype main_res =
    MainError string            \<comment> \<open>exit code 1\<close>
  | MainUsage int               \<comment> \<open>the help text, with the exit code\<close>
  | MainVersion
  | MainUnknown string
  | MainRun string "string option" "string list"   \<comment> \<open>the command, the extra configuration, its arguments\<close>

definition main :: "string list \<Rightarrow> main_res" where
  "main args = (case global_flags args None [] of
       None \<Rightarrow> MainError ''lgmagic: --config needs a file argument''
     | Some (extra, rest) \<Rightarrow>
         if rest = [] then MainUsage 1
         else if is_help (hd rest) then MainUsage 0
         else if hd rest = ''--version'' then MainVersion
         else if hd rest \<in> set commands then MainRun (hd rest) extra rest
         else MainUnknown (hd rest))"

end
