(* ===== verification/Commands_Correct.thy ===== *)
theory Commands_Correct
  imports Commands Dbus_Correct Daemon_Bus_Restart
begin

text \<open>
  The command line tool and the daemon together: a command sends the bytes of the call, reads the daemon's reply back, and the configuration
  the tool reads from the files is the one the daemon would load.
\<close>

section \<open>The files\<close>

text \<open>The tool resolves the configuration of a remote as the daemon with the same directories does.\<close>

lemma cmd_load_device_eq:
  assumes "config_root dcf = cmd_config_root env" and "state_dir dcf = cmd_state_dir env"
  shows "cmd_load_device env mac = daemon_config_load_remote dcf (cm_files env) mac"
proof -
  have j: "jpath = path_join" by (simp add: fun_eq_iff jpath_def path_join_def)
  have n: "state_profile_of None mac = None" by (simp add: state_profile_of_def toml_table_get_short_def)
  show ?thesis
    unfolding cmd_load_device_def daemon_config_load_remote_def device_path_def state_path_def assms j Let_def
      state_profile_of_def [of "Some root" for root, unfolded Let_def, symmetric]
    by (simp add: n split: option.split prod.split)
qed

section \<open>Methods on the wire\<close>

text \<open>Name, input signature and arguments of the methods of the daemon's vtable.\<close>

fun method_member :: "method_call \<Rightarrow> string" where
  "method_member ListDevices = ''ListDevices''"
| "method_member (GetStatus mac) = ''GetStatus''"
| "method_member (SetProfile mac p) = ''SetProfile''"
| "method_member (MapButton mac a b) = ''MapButton''"
| "method_member (ResetButtons mac) = ''ResetButtons''"
| "method_member (SetScrollSpeed mac v) = ''SetScrollSpeed''"
| "method_member (SetSensitivity mac v) = ''SetSensitivity''"
| "method_member (SetCalibPath mac p) = ''SetCalibPath''"
| "method_member Reload = ''Reload''"

fun method_sig :: "method_call \<Rightarrow> string" where
  "method_sig ListDevices = []"
| "method_sig (GetStatus mac) = ''s''"
| "method_sig (SetProfile mac p) = ''ss''"
| "method_sig (MapButton mac a b) = ''sss''"
| "method_sig (ResetButtons mac) = ''s''"
| "method_sig (SetScrollSpeed mac v) = ''sd''"
| "method_sig (SetSensitivity mac v) = ''sd''"
| "method_sig (SetCalibPath mac p) = ''ss''"
| "method_sig Reload = []"

abbreviation arg_d :: "cdouble \<Rightarrow> dbus_arg" where
  "arg_d v \<equiv> \<lparr>ar_type = CHR ''d'', ar_s = [], ar_d = double_bits v, ar_u = 0\<rparr>"

fun method_args :: "method_call \<Rightarrow> dbus_arg list" where
  "method_args ListDevices = []"
| "method_args (GetStatus mac) = [arg_s mac]"
| "method_args (SetProfile mac p) = [arg_s mac, arg_s p]"
| "method_args (MapButton mac a b) = [arg_s mac, arg_s a, arg_s b]"
| "method_args (ResetButtons mac) = [arg_s mac]"
| "method_args (SetScrollSpeed mac v) = [arg_s mac, arg_d v]"
| "method_args (SetSensitivity mac v) = [arg_s mac, arg_d v]"
| "method_args (SetCalibPath mac p) = [arg_s mac, arg_s p]"
| "method_args Reload = []"

text \<open>The message of a call, and the message that answers it: a return with its value or an error with its text.\<close>

definition call_wire :: "nat \<Rightarrow> method_call \<Rightarrow> string" where
  "call_wire serial m = enc_msg 1 serial
     (call_fields ''org.lgmagic'' ''/org/lgmagic/Manager'' ''org.lgmagic.Manager'' (method_member m) (method_sig m))
     (enc_args 0 (method_args m))"

fun reply_value :: "reply \<Rightarrow> dbus_value" where
  "reply_value (ReplyStr s) = DString s"
| "reply_value (ReplyStrs ss) = DStrings ss"
| "reply_value _ = DEmpty"

fun reply_msg :: "nat \<Rightarrow> nat \<Rightarrow> reply \<Rightarrow> message" where
  "reply_msg n serial (ReplyError name msg) =
     (3, n, [(FIELD_REPLY_SERIAL, FU serial), (FIELD_ERROR_NAME, FStr (CHR ''s'') name), (FIELD_SIGNATURE, FSig ''s'')], enc_str msg)"
| "reply_msg n serial r =
     (2, n, (FIELD_REPLY_SERIAL, FU serial) #
        (if reply_value r = DEmpty then [] else [(FIELD_SIGNATURE, FSig (value_sig (reply_value r)))]), enc_value (reply_value r))"

text \<open>Replies that are messages of the format: D-Bus strings have no NUL. An errno is turned into a name by sd-bus.\<close>

fun reply_ok :: "reply \<Rightarrow> bool" where
  "reply_ok (ReplyError name msg) \<longleftrightarrow> cstring msg"
| "reply_ok (ReplyErrno e) \<longleftrightarrow> False"
| "reply_ok r \<longleftrightarrow> value_ok (reply_value r)"

fun reply_result :: "reply \<Rightarrow> call_res" where
  "reply_result (ReplyError name msg) = CallError name msg"
| "reply_result r = CallOk (reply_value r)"

lemma method_args_sig [simp]: "length (method_args m) = length (method_sig m)" "length (method_sig m) \<le> 255"
  by (cases m; simp)+

lemma method_sig_types: "\<not> (\<exists>t \<in> set (method_sig m). t \<noteq> CHR ''s'' \<and> t \<noteq> CHR ''d'' \<and> t \<noteq> CHR ''u'')"
  by (cases m) auto

lemma enc_args_strings: "a \<in> set as \<Longrightarrow> ar_type a = CHR ''s'' \<Longrightarrow> length (ar_s a) \<le> length (enc_args pos as)"
proof (induction as arbitrary: pos)
  case (Cons b as)
  then have "a = b \<or> length (ar_s a) \<le> length (enc_args (pos + length (enc_arg pos b)) as)" by auto
  with Cons.prems(2) show ?case by (auto simp: enc_arg_def enc_str_def)
qed simp

lemma call_args_ok:
  assumes "length (call_wire serial m) \<le> MAX_MESSAGE"
  shows "list_all arg_ok (method_args m)"
proof -
  have "length (enc_args 0 (method_args m)) \<le> MAX_MESSAGE"
    using assms by (simp add: call_wire_def enc_msg_def Let_def)
  then have "ar_type a = CHR ''s'' \<Longrightarrow> length (ar_s a) \<le> 0x0fffffff" if "a \<in> set (method_args m)" for a
    using enc_args_strings [OF that, of 0] by (simp add: MAX_MESSAGE_def)
  moreover have "ar_type a = CHR ''s'' \<or> ar_type a = CHR ''d'' \<and> ar_s a = []" if "a \<in> set (method_args m)" for a
    using that by (cases m) auto
  ultimately show ?thesis by (force simp: list_all_iff arg_ok_def)
qed

section \<open>A call\<close>

text \<open>One call of the client: what it sends, and the reply at the end of it.\<close>

definition bus_wire :: "string \<Rightarrow> string \<Rightarrow> string \<Rightarrow> string \<Rightarrow> string \<Rightarrow> dbus_arg list \<Rightarrow> nat \<Rightarrow> string" where
  "bus_wire dest path iface member sg as serial = enc_msg 1 serial (call_fields dest path iface member sg) (enc_args 0 as)"

definition call_shape :: "string \<Rightarrow> dbus_arg list \<Rightarrow> bool" where
  "call_shape sg as \<longleftrightarrow> length as = length sg \<and> length sg \<le> 255 \<and> set sg \<subseteq> {CHR ''s'', CHR ''d'', CHR ''u''} \<and> list_all arg_ok as"

text \<open>The reply of a call with number \<open>serial\<close> in a stream: any signals, the message, the rest.\<close>

definition replies :: "nat \<Rightarrow> reply \<Rightarrow> string \<Rightarrow> string \<Rightarrow> bool" where
  "replies serial r stream rest \<longleftrightarrow> reply_ok r \<and>
     (\<exists>signals n. list_all (\<lambda>g. msg_ok g \<and> fst g = 4) signals \<and> msg_ok (reply_msg n serial r) \<and>
        stream = concat (map msg_bytes signals) @ msg_bytes (reply_msg n serial r) @ rest)"

lemma reply_loop_reply:
  assumes "replies serial r (sock_stream (rbuf, k)) rest"
  shows "\<exists>rbuf' k'. reply_loop serial rbuf k = Some (reply_result r, rbuf', k') \<and> sock_stream (rbuf', k') = rest"
proof -
  obtain signals n where a: "list_all (\<lambda>g. msg_ok g \<and> fst g = 4) signals" "msg_ok (reply_msg n serial r)" "reply_ok r"
    "sock_stream (rbuf, k) = concat (map msg_bytes signals) @ msg_bytes (reply_msg n serial r) @ rest"
    using assms by (auto simp: replies_def)
  obtain t n' fs body where rm: "reply_msg n serial r = (t, n', fs, body)" by (metis prod_cases4)
  have s: "\<forall>g \<in> set signals. msg_ok g \<and> fst g = 4" using a(1) by (simp add: list_all_iff)
  have st: "sock_stream (rbuf, k) = concat (map msg_bytes signals) @ enc_msg t n' fs body @ rest"
    using a(4) by (simp add: rm msg_bytes_def)
  show ?thesis
  proof (cases "\<exists>name tx. r = ReplyError name tx")
    case True
    then obtain name tx where r: "r = ReplyError name tx" by blast
    show ?thesis
      by (rule reply_loop_result [of _ _ _ _ _ _ _ _ _ DEmpty _ tx name, OF s a(2) [unfolded rm] st])
        (use rm a(3) in \<open>auto simp: r msg_header_def field_codes\<close>)
  next
    case False
    then have m: "reply_msg n serial r = (2, n, (FIELD_REPLY_SERIAL, FU serial) #
          (if reply_value r = DEmpty then [] else [(FIELD_SIGNATURE, FSig (value_sig (reply_value r)))]), enc_value (reply_value r))" "reply_result r = CallOk (reply_value r)" "value_ok (reply_value r)"
      using a(3) by (cases r; simp)+
    show ?thesis
      by (rule reply_loop_result [of _ _ _ _ _ _ _ _ _ "reply_value r" _ "[]" "[]", OF s a(2) [unfolded rm] st])
        (use rm in \<open>cases "reply_value r = DEmpty"; auto simp: m msg_header_def field_codes\<close>)
  qed
qed

lemma bus_call_reply:
  assumes "0 \<le> cl_fd c" and "serial = (cl_serial c + 1) mod 2 ^ 32" and "sk_wr (cl_sock c) = []" and "call_shape sg as"
    and "length (bus_wire dest path iface member sg as serial) \<le> MAX_MESSAGE"
    and "replies serial r (sock_stream (cl_rbuf c, sk_in (cl_sock c))) rest"
    and "args = Some as \<or> as = [] \<and> args = None"
  shows "\<exists>c'. bus_call dest path iface member sg args c = Some (reply_result r, c') \<and>
     sk_out (cl_sock c') = sk_out (cl_sock c) @ [bus_wire dest path iface member sg as serial] \<and> cl_fd c' = cl_fd c \<and>
     cl_serial c' = serial \<and> sk_wr (cl_sock c') = [] \<and> sock_stream (cl_rbuf c', sk_in (cl_sock c')) = rest"
proof -
  define w where "w = bus_wire dest path iface member sg as serial"
  define k where "k = (cl_sock c)\<lparr>sk_out := sk_out (cl_sock c) @ [w]\<rparr>"
  have b: "build_call serial dest path iface member sg as = Some (Some w)"
    unfolding w_def bus_wire_def using assms(4,5) by (intro build_call_eq) (simp_all add: bus_wire_def call_shape_def)
  have wr: "write_all w (cl_sock c) = (None, k)" using assms(3) by (simp add: write_all_def k_def)
  obtain rbuf kin where l: "reply_loop serial (cl_rbuf c) (sk_in (cl_sock c)) = Some (reply_result r, rbuf, kin)"
    "sock_stream (rbuf, kin) = rest" using reply_loop_reply [OF assms(6)] by blast
  have types: "\<not> (\<exists>t \<in> set sg. t \<noteq> CHR ''s'' \<and> t \<noteq> CHR ''d'' \<and> t \<noteq> CHR ''u'')"
    using assms(4) by (auto simp: call_shape_def)
  have args: "\<not> (sg \<noteq> [] \<and> args = None)" "(case args of Some a \<Rightarrow> a | None \<Rightarrow> []) = as"
    using assms(4,7) by (auto simp: call_shape_def)
  have ser: "Suc (cl_serial c) mod 4294967296 = serial" using assms(2) by simp
  have "bus_call dest path iface member sg args c = Some (reply_result r,
      case reply_result r of
        CallError n m \<Rightarrow> c\<lparr>cl_err_name := Some n, cl_err_msg := Some m, cl_serial := serial, cl_rbuf := rbuf, cl_sock := k\<lparr>sk_in := kin\<rparr>\<rparr>
      | _ \<Rightarrow> c\<lparr>cl_err_name := None, cl_err_msg := None, cl_serial := serial, cl_rbuf := rbuf, cl_sock := k\<lparr>sk_in := kin\<rparr>\<rparr>)"
    unfolding bus_call_def Let_def if_not_P [OF types] if_not_P [OF args(1)] args(2)
    using assms(1) by (cases "reply_result r") (simp_all add: ser b wr, simp_all add: k_def l(1))
  then show ?thesis using l(2) assms(3) by (auto simp: k_def w_def split: call_res.split)
qed

lemma call_wire_shape:
  assumes "length (call_wire serial m) \<le> MAX_MESSAGE"
  shows "call_shape (method_sig m) (method_args m)"
  using call_args_ok [OF assms] method_sig_types [of m] by (auto simp: call_shape_def)

lemma dbus_call_daemon:
  assumes "0 \<le> cl_fd c" and "serial = (cl_serial c + 1) mod 2 ^ 32" and "sk_wr (cl_sock c) = []"
    and "length (call_wire serial m) \<le> MAX_MESSAGE"
    and "replies serial r (sock_stream (cl_rbuf c, sk_in (cl_sock c))) rest"
    and "args = Some (method_args m) \<or> method_args m = [] \<and> args = None"
  shows "\<exists>c'. dbus_call (method_member m) (method_sig m) args c = Some (reply_result r, c') \<and>
     sk_out (cl_sock c') = sk_out (cl_sock c) @ [call_wire serial m] \<and> cl_fd c' = cl_fd c \<and>
     cl_serial c' = serial \<and> sk_wr (cl_sock c') = [] \<and> sock_stream (cl_rbuf c', sk_in (cl_sock c')) = rest"
  using bus_call_reply [OF assms(1-3) call_wire_shape [OF assms(4)] _ assms(5,6)] assms(4)
  by (simp add: dbus_call_def call_wire_def bus_wire_def)

section \<open>Connecting\<close>

lemma read_line_arriving:
  assumes "rbuf @ arriving k = line @ CHR 0x0A # rest" and "CHR 0x0A \<notin> set line" and "length got + length line < bufsz - 1"
  shows "\<exists>rbuf' k'. read_line bufsz got rbuf k =
      (Inr (let all = got @ line in if all \<noteq> [] \<and> last all = CHR 0x0D then butlast all else all), rbuf', k') \<and>
    rbuf' @ arriving k' = rest"
  using assms
proof (induction bufsz got rbuf k arbitrary: line rule: read_line.induct)
  case (1 bufsz got rbuf k)
  consider "rbuf = []" | "rbuf \<noteq> []" "CHR 0x0A \<in> set rbuf" | "rbuf \<noteq> []" "CHR 0x0A \<notin> set rbuf" by blast
  then show ?case
  proof cases
    case 1
    then have "arriving k \<noteq> []" using "1.prems"(1) by auto
    then obtain b k' where b: "refill k = (Inr b, k')" "arriving k = b @ arriving k'" using refill_arriving by blast
    with "1.IH"(1) [OF 1 b(1) [symmetric] refl, of line] 1 "1.prems" show ?thesis by (subst read_line.simps) simp
  next
    case 2
    have t: "takeWhile (\<lambda>c. c \<noteq> CHR 0x0A) rbuf = takeWhile (\<lambda>c. c \<noteq> CHR 0x0A) (rbuf @ arriving k)"
      using 2(2) by (simp add: takeWhile_append1 [of "CHR 0x0A"])
    also have "\<dots> = line" unfolding "1.prems"(1) using "1.prems"(2) by (subst takeWhile_append2) auto
    finally have t: "takeWhile (\<lambda>c. c \<noteq> CHR 0x0A) rbuf = line" .
    have l: "length line < length rbuf"
      using 2(2) t "1.prems"(2) takeWhile_dropWhile_id [of "\<lambda>c. c \<noteq> CHR 0x0A" rbuf]
      by (metis append_Nil2 length_append length_greater_0_conv less_add_same_cancel1)
    have "drop (length line + 1) (rbuf @ arriving k) = rest" unfolding "1.prems"(1) by simp
    then have "drop (length line + 1) rbuf @ arriving k = rest" using l by simp
    with 2 t l "1.prems"(3) show ?thesis by (subst read_line.simps) (simp add: Let_def)
  next
    case 3
    have t: "takeWhile (\<lambda>c. c \<noteq> CHR 0x0A) rbuf = rbuf" using 3(2) by (auto simp: takeWhile_eq_all_conv)
    obtain line' where l: "line = rbuf @ line'" "arriving k = line' @ CHR 0x0A # rest"
      using "1.prems"(1) 3(2) by (auto simp: append_eq_append_conv2 append_eq_Cons_conv Cons_eq_append_conv)
    with "1.IH"(2) [OF 3(1) t [symmetric], of line'] 3 "1.prems" show ?thesis
      by (subst read_line.simps) (simp add: Let_def t)
  qed
qed

text \<open>The name of the client in a Hello reply; the line that accepts the authentication; what the client says.\<close>

definition accept_line :: "string \<Rightarrow> string" where
  "accept_line guid = ''OK '' @ guid @ [CHR 0x0D, CHR 0x0A]"

definition hello_wire :: string where
  "hello_wire = bus_wire ''org.freedesktop.DBus'' ''/org/freedesktop/DBus'' ''org.freedesktop.DBus'' ''Hello'' [] [] 1"

definition guid_ok :: "string \<Rightarrow> bool" where
  "guid_ok guid \<longleftrightarrow> length guid \<le> 500 \<and> list_all (\<lambda>c. c \<noteq> CHR 0x0A \<and> c \<noteq> nul) guid"

lemma hello_length: "length hello_wire \<le> MAX_MESSAGE"
  by (simp add: hello_wire_def bus_wire_def enc_msg_def call_fields_def enc_field_def enc_str_def MAX_MESSAGE_def pad_len_def Let_def)

lemma dbus_auth_handshake:
  assumes "guid_ok guid" and "0 \<le> cl_fd c" and "cl_serial c = 0" and "sk_wr (cl_sock c) = []"
    and "sock_stream (cl_rbuf c, sk_in (cl_sock c)) = accept_line guid @ stream"
    and "replies 1 (ReplyStr name) stream rest"
  shows "\<exists>c'. dbus_auth uid c = Some (None, c') \<and> cl_fd c' = cl_fd c \<and> cl_serial c' = 1 \<and> sk_wr (cl_sock c') = [] \<and>
    sk_out (cl_sock c') = sk_out (cl_sock c) @ [auth_line uid, ''BEGIN'' @ [CHR 0x0D, CHR 0x0A], hello_wire] \<and>
    sock_stream (cl_rbuf c', sk_in (cl_sock c')) = rest"
proof -
  define line where "line = ''OK '' @ guid"
  have s: "cl_rbuf c @ arriving (sk_in (cl_sock c)) = (line @ [CHR 0x0D]) @ CHR 0x0A # stream"
    using assms(5) by (simp add: sock_stream_def accept_line_def line_def)
  obtain rbuf kin where r: "read_line 512 [] (cl_rbuf c) (sk_in (cl_sock c)) = (Inr line, rbuf, kin)" "rbuf @ arriving kin = stream"
    using read_line_arriving [OF s, of "[]" 512] assms(1) by (auto simp: guid_ok_def line_def list_all_iff)
  have ln: "cstr line = line" using assms(1) by (auto simp: line_def guid_ok_def list_all_iff cstr_def takeWhile_eq_all_conv)
  define c1 where "c1 = c\<lparr>cl_rbuf := rbuf, cl_sock := \<lparr>sk_in = kin, sk_wr = [],
    sk_out = sk_out (cl_sock c) @ [auth_line uid, ''BEGIN'' @ [CHR 0x0D, CHR 0x0A]]\<rparr>\<rparr>"
  have "dbus_auth uid c = say_hello c1"
    using assms(4) r(1) ln
    by (cases "cl_sock c") (simp add: dbus_auth_def write_all_def Let_def c1_def, simp add: line_def)
  moreover obtain c2 where "bus_call ''org.freedesktop.DBus'' ''/org/freedesktop/DBus'' ''org.freedesktop.DBus'' ''Hello'' [] None c1 =
      Some (reply_result (ReplyStr name), c2)" "cl_fd c2 = cl_fd c1" "cl_serial c2 = 1" "sk_wr (cl_sock c2) = []"
    "sk_out (cl_sock c2) = sk_out (cl_sock c1) @ [hello_wire]" "sock_stream (cl_rbuf c2, sk_in (cl_sock c2)) = rest"
    using bus_call_reply [of c1 1 "[]" "[]" "''org.freedesktop.DBus''" "''/org/freedesktop/DBus''" "''org.freedesktop.DBus''"
        "''Hello''" "ReplyStr name" rest None, folded hello_wire_def] assms(2,3,6) hello_length r(2)
    by (auto simp: c1_def call_shape_def sock_stream_def)
  ultimately show ?thesis by (simp add: say_hello_def c1_def)
qed

text \<open>What a command makes of it: the value of a return, or the text of an error on the error stream.\<close>

fun reply_stderr :: "reply \<Rightarrow> string" where
  "reply_stderr (ReplyError name msg) = call_message (CallError name msg)"
| "reply_stderr r = []"

definition reply_rc :: "reply \<Rightarrow> int" where
  "reply_rc r = (case r of ReplyError name msg \<Rightarrow> 1 | _ \<Rightarrow> 0)"

text \<open>A client that is connected, has nothing in the way of its next write, and the bytes the bus is going to send it.\<close>

definition ready :: "cli \<Rightarrow> string \<Rightarrow> bool" where
  "ready k stream \<longleftrightarrow> 0 \<le> cl_fd (cli_bus k) \<and> sk_wr (cl_sock (cli_bus k)) = [] \<and>
     sock_stream (cl_rbuf (cli_bus k), sk_in (cl_sock (cli_bus k))) = stream"

definition next_serial :: "cli \<Rightarrow> nat" where
  "next_serial k = (cl_serial (cli_bus k) + 1) mod 2 ^ 32"

definition sent :: "cli \<Rightarrow> string list" where
  "sent k = sk_out (cl_sock (cli_bus k))"

text \<open>The stream that answers call \<open>m\<close> of the client with \<open>r\<close>.\<close>

definition answers :: "cli \<Rightarrow> method_call \<Rightarrow> reply \<Rightarrow> string \<Rightarrow> string \<Rightarrow> bool" where
  "answers k m r stream rest \<longleftrightarrow> length (call_wire (next_serial k) m) \<le> MAX_MESSAGE \<and> replies (next_serial k) r stream rest"

lemma cmd_bus_call_daemon:
  assumes "ready k stream" and "answers k m r stream rest"
    and "args = Some (method_args m) \<or> method_args m = [] \<and> args = None"
  shows "\<exists>k'. cmd_bus_call (method_member m) (method_sig m) args k =
      Some (case r of ReplyError name msg \<Rightarrow> None | _ \<Rightarrow> Some (reply_value r), k') \<and>
    sent k' = sent k @ [call_wire (next_serial k) m] \<and> ready k' rest \<and>
    cli_out k' = cli_out k \<and> cli_err k' = cli_err k @ reply_stderr r"
proof -
  note c = assms(1) [unfolded ready_def] and a = assms(2) [unfolded answers_def]
  obtain c' where "dbus_call (method_member m) (method_sig m) args (cli_bus k) = Some (reply_result r, c')"
    "sk_out (cl_sock c') = sk_out (cl_sock (cli_bus k)) @ [call_wire (next_serial k) m]" "cl_fd c' = cl_fd (cli_bus k)"
    "sk_wr (cl_sock c') = []" "sock_stream (cl_rbuf c', sk_in (cl_sock c')) = rest"
    using dbus_call_daemon [OF _ next_serial_def [of k] _ _ _ assms(3)] c a by blast
  then show ?thesis using c
    by (cases r) (simp_all add: cmd_bus_call_def Let_def ready_def sent_def complain_def split: if_splits)
qed

lemma call_rc_daemon:
  assumes "ready k stream" and "answers k m r stream rest"
  shows "\<exists>k'. call_rc (method_member m) (method_sig m) (method_args m) k = Some (reply_rc r, k') \<and>
    sent k' = sent k @ [call_wire (next_serial k) m] \<and> ready k' rest \<and>
    cli_out k' = cli_out k \<and> cli_err k' = cli_err k @ reply_stderr r"
  using cmd_bus_call_daemon [OF assms, of "Some (method_args m)"]
  by (auto simp: call_rc_def reply_rc_def split: reply.splits)

text \<open>
  A bus that accepts the client at the default address and names it; \<open>stream\<close> is what it sends after the handshake.
\<close>

definition bus_session :: "conn_env \<Rightarrow> string \<Rightarrow> bool" where
  "bus_session ce stream \<longleftrightarrow> (ce_addr ce = None \<or> ce_addr ce = Some []) \<and> (\<exists>fd \<ge> 0. ce_socket ce = Inr fd) \<and>
     ce_connect ce (''/run/dbus/system_bus_socket'' @ [nul]) = None \<and> sk_wr (ce_sock ce) = [] \<and>
     (\<exists>guid name s1. guid_ok guid \<and> sock_stream ([], sk_in (ce_sock ce)) = accept_line guid @ s1 \<and>
        replies 1 (ReplyStr name) s1 stream)"

lemma default_address: "pick_unix_socket ''unix:path=/run/dbus/system_bus_socket'' = Some (False, ''/run/dbus/system_bus_socket'')"
  using split_addr_single [of "''unix:path=/run/dbus/system_bus_socket''"] by (simp add: pick_unix_socket_def)

lemma cmd_bus_connect_session:
  assumes "bus_session (cm_conn env) stream"
  shows "\<exists>k'. cmd_bus_connect env k = Some (True, k') \<and> ready k' stream \<and> next_serial k' = 2 \<and>
    sent k' = sk_out (ce_sock (cm_conn env)) @ [auth_line (ce_uid (cm_conn env)), ''BEGIN'' @ [CHR 0x0D, CHR 0x0A], hello_wire] \<and>
    cli_out k' = cli_out k \<and> cli_err k' = cli_err k"
proof -
  obtain fd guid name s1 where e: "ce_addr (cm_conn env) = None \<or> ce_addr (cm_conn env) = Some []" "ce_socket (cm_conn env) = Inr fd" "0 \<le> fd"
    "ce_connect (cm_conn env) (''/run/dbus/system_bus_socket'' @ [nul]) = None" "sk_wr (ce_sock (cm_conn env)) = []" "guid_ok guid"
    "sock_stream ([], sk_in (ce_sock (cm_conn env))) = accept_line guid @ s1" "replies 1 (ReplyStr name) s1 stream"
    using assms by (auto simp: bus_session_def)
  define c where "c = client_zero\<lparr>cl_fd := fd, cl_sock := ce_sock (cm_conn env)\<rparr>"
  obtain c' where a: "dbus_auth (ce_uid (cm_conn env)) c = Some (None, c')" "cl_fd c' = fd" "cl_serial c' = 1" "sk_wr (cl_sock c') = []"
    "sk_out (cl_sock c') = sk_out (ce_sock (cm_conn env)) @ [auth_line (ce_uid (cm_conn env)), ''BEGIN'' @ [CHR 0x0D, CHR 0x0A], hello_wire]"
    "sock_stream (cl_rbuf c', sk_in (cl_sock c')) = stream"
    using dbus_auth_handshake [OF e(6), of c s1 name stream "ce_uid (cm_conn env)"] e by (auto simp: c_def client_zero_def)
  have "(let a = (case None of Some x \<Rightarrow> Some x | None \<Rightarrow> ce_addr (cm_conn env))
      in if a = None \<or> a = Some [] then ''unix:path=/run/dbus/system_bus_socket'' else the a) = ''unix:path=/run/dbus/system_bus_socket''"
    using e(1) by auto
  then have "dbus_connect (cm_conn env) None = Some (None, c')"
    unfolding dbus_connect_def Let_def using e(2,4) a(1) by (simp add: default_address sun_path_def c_def)
  then show ?thesis using a e(3)
    by (auto simp: cmd_bus_connect_def ready_def next_serial_def sent_def)
qed

section \<open>Mapping a button\<close>

lemma put_assoc_mem: "(a, b) \<in> set (put_assoc a b m)"
  by (induction m) auto

lemma find_index_first: "find_index P xs = Some i \<Longrightarrow> j < i \<Longrightarrow> \<not> P (xs ! j)"
  by (induction xs arbitrary: i j) (auto simp: nth_Cons split: if_splits nat.splits)

lemma with_active_find:
  assumes "\<And>p. pr_name (f p) = pr_name p"
  obtains p where "profile_find (with_active f d) (dc_profile d) = Some (f p)"
proof -
  obtain i d1 where e: "device_config_profile_ensure d (dc_profile d) = (i, d1)" by fastforce
  have "i < length (dc_profiles d1) \<and> pr_name (dc_profiles d1 ! i) = dc_profile d \<and>
      (\<forall>j < i. pr_name (dc_profiles d1 ! j) \<noteq> dc_profile d)"
  proof (cases "find_index (\<lambda>p. pr_name p = dc_profile d) (dc_profiles d)")
    case None
    with e find_index_none [OF None] nth_mem show ?thesis
      by (fastforce simp: device_config_profile_ensure_def profile_init_def nth_append)
  next
    case (Some j)
    with e find_index_some [OF Some] find_index_first [OF Some] show ?thesis by (auto simp: device_config_profile_ensure_def)
  qed
  then have "find (\<lambda>p. pr_name p = dc_profile d) ((dc_profiles d1)[i := f (dc_profiles d1 ! i)]) = Some (f (dc_profiles d1 ! i))"
    using assms by (auto simp: find_Some_iff nth_list_update intro!: exI [of _ i])
  then show thesis using that by (simp add: with_active_def e profile_find_def)
qed

lemma map_button_config:
  "dd_config (bs_dd (fst (snd (method_map_button env io pk s mac from to)))) = dd_config (bs_dd s)"
  by (auto simp: method_map_button_def gated_def on_remote_def save_reply_def mutate_and_save_def remote_rollback_def reload_dc_def Let_def
      split: option.split prod.split if_splits dest!: arg_cong [where f = fst])

lemma map_button_lists:
  assumes "sync_inv s" and "bus_method env io pk s (MapButton mac from to) = (ReplyOk, s', ops)"
    and "config_root (dd_config (bs_dd s)) = cmd_config_root cenv" and "state_dir (dd_config (bs_dd s)) = cmd_state_dir cenv"
    and "cm_files cenv = bs_files s'"
  shows "\<exists>pre post. button_do_list cenv mac k =
    (0, say (pre @ key_label (keymap_name_to_code (Some from)) @ '' -> '' @ key_label (keymap_name_to_code (Some to)) @ nl @ post) k)"
proof -
  define f where "f = (\<lambda>p. profile_set_button p (keymap_name_to_code (Some from)) (keymap_name_to_code (Some to)))"
  have r: "sync_inv s'" "configs s' = change mac (with_active f) (configs s)"
    using bus_method_refines [OF assms(1), of "MapButton mac from to" env io pk] assms(2)
    by (simp_all add: refines_ok_def f_def)
  obtain i where "find_remote (bs_dd s) mac = Some i"
    using assms(2) by (auto simp: method_map_button_def Let_def gated_def gate_def on_remote_def fail_def split: if_splits option.splits)
  then obtain d where d: "configs s' mac = Some (with_active f d)"
    using sync_remote(5) [OF assms(1)] r(2) by (simp add: change_def)
  have prof: "dc_profile (with_active f d) = dc_profile d" by (auto simp: with_active_def device_config_profile_ensure_def split: option.split)
  obtain p where p: "profile_find (with_active f d) (dc_profile d) = Some (f p)"
    by (rule with_active_find [of f d]) (simp add: f_def profile_set_button_def)
  have "dd_config (bs_dd s') = dd_config (bs_dd s)"
    using map_button_config [of env io pk s mac "from" to] assms(2) by simp
  then have load: "cmd_load_device cenv mac = (None, with_active f d)"
    using cmd_load_device_eq [of "dd_config (bs_dd s')" cenv mac] sync_loads [OF r(1) d] assms(3-5) by simp
  have m: "(keymap_name_to_code (Some from), keymap_name_to_code (Some to)) \<in> set (pr_map (f p))"
    by (simp add: f_def profile_set_button_def put_assoc_mem)
  then obtain xs ys where "pr_map (f p) = xs @ (keymap_name_to_code (Some from), keymap_name_to_code (Some to)) # ys"
    by (meson split_list)
  then show ?thesis
    by (intro exI [of _ "map_lines [] xs"] exI [of _ "map_lines [] ys"])
      (simp add: button_do_list_def load prof p map_lines_def)
qed

text \<open>
  C1: mapping a button from end to end. On a bus that accepts the client and carries the daemon's reply, with any
  signals before it and in any pieces, \<open>lgmagic button map\<close> sends the handshake and the call with the arguments it was given,
  and exits with 0 exactly when the daemon has stored the
  mapping, and \<open>lgmagic button list\<close>, which reads the daemon's files, then prints it; otherwise it exits with 1,
  prints the daemon's error, and the configurations are unchanged.
\<close>

theorem button_map_end_to_end:
  assumes "sync_inv s" and "bus_method env io pk s (MapButton mac from to) = (r, s', ops)"
    and "config_root (dd_config (bs_dd s)) = cmd_config_root cenv" and "state_dir (dd_config (bs_dd s)) = cmd_state_dir cenv"
    and "bus_session (cm_conn cenv) stream" and "length (call_wire 2 (MapButton mac from to)) \<le> MAX_MESSAGE"
    and "replies 2 r stream rest"
  shows "\<exists>k'. cmd_button cenv [''button'', ''map'', mac, from, to] k = Some (if r = ReplyOk then 0 else 1, k') \<and>
    cli_err k' = cli_err k @ reply_stderr r \<and>
    sent k' = sk_out (ce_sock (cm_conn cenv)) @ [auth_line (ce_uid (cm_conn cenv)), ''BEGIN'' @ [CHR 0x0D, CHR 0x0A], hello_wire,
      call_wire 2 (MapButton mac from to)] \<and>
    (if r = ReplyOk
     then \<exists>pre post. button_do_list (cenv\<lparr>cm_files := bs_files s'\<rparr>) mac k' = (0, say (pre @
       key_label (keymap_name_to_code (Some from)) @ '' -> '' @ key_label (keymap_name_to_code (Some to)) @ nl @ post) k')
     else configs s' = configs s)"
proof -
  let ?m = "MapButton mac from to"
  obtain k1 where k1: "cmd_bus_connect cenv k = Some (True, k1)" "ready k1 stream" "next_serial k1 = 2" "cli_err k1 = cli_err k"
    "sent k1 = sk_out (ce_sock (cm_conn cenv)) @ [auth_line (ce_uid (cm_conn cenv)), ''BEGIN'' @ [CHR 0x0D, CHR 0x0A], hello_wire]"
    using cmd_bus_connect_session [OF assms(5)] by blast
  have "answers k1 ?m r stream rest" using assms(6,7) k1(3) by (simp add: answers_def)
  from call_rc_daemon [OF k1(2) this] obtain k2 where k2: "call_rc ''MapButton'' ''sss'' [arg_s mac, arg_s from, arg_s to] k1 = Some (reply_rc r, k2)"
    "cli_err k2 = cli_err k @ reply_stderr r" "sent k2 = sent k1 @ [call_wire 2 ?m]" using k1(3,4) by auto
  have c: "cmd_button cenv [''button'', ''map'', mac, from, to] k = Some (reply_rc r, disconnect k2)"
    using k1(1) k2(1) by (simp add: cmd_button_def is_help_def with_bus_def and_disconnect_def)
  have "reply_ok r" using assms(7) by (simp add: replies_def)
  then have rc: "reply_rc r = (if r = ReplyOk then 0 else 1)"
    using assms(2) by (auto simp: reply_rc_def method_map_button_def Let_def gated_def gate_def on_remote_def fail_def save_reply_def
        split: if_splits option.splits prod.splits)
  have "r \<noteq> ReplyOk \<Longrightarrow> configs s' = configs s"
    using bus_method_refines [OF assms(1), of ?m env io pk] assms(2) by (simp add: refines_ok_def)
  moreover have "r = ReplyOk \<Longrightarrow> \<exists>pre post. button_do_list (cenv\<lparr>cm_files := bs_files s'\<rparr>) mac (disconnect k2) = (0, say (pre @
       key_label (keymap_name_to_code (Some from)) @ '' -> '' @ key_label (keymap_name_to_code (Some to)) @ nl @ post) (disconnect k2))"
    using map_button_lists [OF assms(1) _ , of env io pk mac "from" to s' ops "cenv\<lparr>cm_files := bs_files s'\<rparr>"] assms(2-4)
    by (simp add: cmd_config_root_def cmd_state_dir_def)
  moreover have "sent (disconnect k2) = sent k2" "cli_err (disconnect k2) = cli_err k2"
    by (simp_all add: sent_def disconnect_def dbus_disconnect_def)
  ultimately show ?thesis using c rc k1(5) k2(2,3) by simp
qed

section \<open>Examples\<close>

text \<open>A bus that answers the authentication, names the client \<open>:1.7\<close> and carries an empty reply to the call.\<close>

definition sample_stream :: string where
  "sample_stream = msg_bytes (reply_msg 6 2 ReplyOk)"

definition sample_conn :: conn_env where
  "sample_conn = \<lparr>ce_addr = None, ce_uid = 1000, ce_socket = Inr 3, ce_connect = (\<lambda>_. None),
     ce_sock = \<lparr>sk_in = [Chunk (accept_line ''0123abcd''), Chunk (msg_bytes (reply_msg 5 1 (ReplyStr '':1.7'')) @ sample_stream)],
       sk_wr = [], sk_out = []\<rparr>\<rparr>"

definition sample_cmd :: cmd_env where
  "sample_cmd = \<lparr>cm_conn = sample_conn, cm_config_root = None, cm_state_dir = Some [], cm_files = (\<lambda>_. None)\<rparr>"

definition sample_cli :: cli where
  "sample_cli = \<lparr>cli_bus = client_zero, cli_out = [], cli_err = []\<rparr>"

lemma enc_msg_nonempty: "enc_msg t n fs body \<noteq> []"
  by (simp add: enc_msg_def enc_fixed_def Let_def)

lemma sample_replies: "replies 1 (ReplyStr '':1.7'') (msg_bytes (reply_msg 5 1 (ReplyStr '':1.7'')) @ sample_stream) sample_stream"
  "replies 2 ReplyOk sample_stream []"
proof -
  have "msg_ok (reply_msg 5 1 (ReplyStr '':1.7''))"
    by (simp add: msg_ok_def field_codes cstring_def enc_field_def enc_str_def enc_sig_def pad_len_def MAX_MESSAGE_def)
  then show "replies 1 (ReplyStr '':1.7'') (msg_bytes (reply_msg 5 1 (ReplyStr '':1.7'')) @ sample_stream) sample_stream"
    unfolding replies_def by (intro conjI exI [of _ "[]"] exI [of _ 5]) (simp_all add: cstring_def)
  have "msg_ok (reply_msg 6 2 ReplyOk)" by (simp add: msg_ok_def field_codes enc_field_def pad_len_def MAX_MESSAGE_def)
  then show "replies 2 ReplyOk sample_stream []"
    unfolding replies_def sample_stream_def by (intro conjI exI [of _ "[]"] exI [of _ 6]) simp_all
qed

lemma sample_session: "bus_session sample_conn sample_stream"
proof -
  have "sock_stream ([], sk_in (ce_sock sample_conn)) = accept_line ''0123abcd'' @ msg_bytes (reply_msg 5 1 (ReplyStr '':1.7'')) @ sample_stream"
    by (simp add: sock_stream_def sample_conn_def accept_line_def msg_bytes_def enc_msg_nonempty)
  moreover have "guid_ok ''0123abcd''" by (simp add: guid_ok_def)
  moreover have "\<exists>fd \<ge> 0. ce_socket sample_conn = Inr fd" by (simp add: sample_conn_def)
  ultimately show ?thesis
    unfolding bus_session_def using sample_replies(1) by (simp add: sample_conn_def) blast
qed

theorem button_map_end_to_end_witness:
  "\<exists>s' ops k' pre post. bus_method sample_env io_ok root_caller sample_bus (MapButton ''unknown'' ''KEY_OK'' ''KEY_ENTER'') = (ReplyOk, s', ops) \<and>
     cmd_button sample_cmd [''button'', ''map'', ''unknown'', ''KEY_OK'', ''KEY_ENTER''] sample_cli = Some (0, k') \<and> cli_err k' = [] \<and>
     button_do_list (sample_cmd\<lparr>cm_files := bs_files s'\<rparr>) ''unknown'' k' = (0, say (pre @ ''KEY_OK -> KEY_ENTER'' @ nl @ post) k')"
proof -
  have codes: "keymap_name_to_code (Some ''KEY_OK'') = 352" "keymap_name_to_code (Some ''KEY_ENTER'') = 28" by code_simp+
  have labels: "key_label 352 = ''KEY_OK''" "key_label 28 = ''KEY_ENTER''" by code_simp+
  have "toml_dumps (device_config_to_toml (mutate_map 352 28 device_config_init)) \<noteq> None" by code_simp
  then obtain doc where "toml_dumps (device_config_to_toml (mutate_map 352 28 device_config_init)) = Some doc" by blast
  from sample_mutate [where mutate = "mutate_map 352 28", OF this] obtain s' ops where
    "mutate_and_save sample_env io_ok sample_bus 0 (mutate_map 352 28) = (None, s', ops)" by metis
  then have m: "bus_method sample_env io_ok root_caller sample_bus (MapButton ''unknown'' ''KEY_OK'' ''KEY_ENTER'') = (ReplyOk, s', ops)"
    by (simp add: method_map_button_def codes gated_def gate_def root_authorized on_remote_def sample_bus_remote(1)
        daemon_identity_valid_def save_reply_def)
  have w: "length (call_wire 2 (MapButton ''unknown'' ''KEY_OK'' ''KEY_ENTER'')) \<le> MAX_MESSAGE"
    by (simp add: call_wire_def enc_msg_def call_fields_def enc_field_def enc_str_def enc_sig_def enc_arg_def MAX_MESSAGE_def pad_len_def Let_def)
  show ?thesis
    using button_map_end_to_end [OF sample_sync m, of sample_cmd sample_stream "[]" sample_cli] m w sample_session sample_replies(2)
    by (simp add: sample_bus_remote sample_dcf_def cmd_config_root_def cmd_state_dir_def sample_cmd_def sample_cli_def codes labels)
      blast
qed

end
