(* ===== verification/Blob.thy ===== *)
theory Blob
  imports Kernel_Driver
begin

text \<open>
  The calibration blob as bytes: the eight little-endian \<^verbatim>\<open>float\<close>s of \<^verbatim>\<open>struct lgmagic_airmouse_calib\<close>, as the tool writes
  them and the kernel driver reads them.
\<close>

unbundle bit_operations_syntax

section \<open>Bytes of a float\<close>

text \<open>The encoding of a \<^verbatim>\<open>float\<close>, kept as the double it denotes; there is one NaN.\<close>

fun float_bits :: "cdouble \<Rightarrow> nat" where
  "float_bits DNaN = 0x7fc00000"
| "float_bits (DInf s) = (if s then 2 ^ 31 else 0) + 0x7f800000"
| "float_bits (DFin s m e) =
     (let k = max (- 149) (nbits m + e - 24);
          q = (if k \<le> e then m * 2 ^ nat (e - k) else m div 2 ^ nat (k - e))
      in (if s then 2 ^ 31 else 0) + nat (if q < 2 ^ 23 then q else (k + 150) * 2 ^ 23 + (q - 2 ^ 23)))"

definition float_bytes :: "cdouble \<Rightarrow> 8 word list" where
  "float_bytes x = map (\<lambda>i. word_of_nat (drop_bit (8 * i) (float_bits x))) [0, 1, 2, 3]"

definition blob_floats :: "calib_blob \<Rightarrow> cdouble list" where
  "blob_floats b = [bl_gyro_bias b ! 0, bl_gyro_bias b ! 1, bl_gyro_bias b ! 2,
     bl_gyro_scale b ! 0, bl_gyro_scale b ! 1, bl_gyro_scale b ! 2, bl_alpha b, bl_mouse_k b]"

definition blob_bytes :: "calib_blob \<Rightarrow> 8 word list" where
  "blob_bytes b = concat (map float_bytes (blob_floats b))"

section \<open>Exact values\<close>

lemma nbits_unique:
  assumes "2 ^ p \<le> n" and "n < 2 ^ Suc p"
  shows "nbits n = int p + 1"
proof -
  have n: "0 < n" using assms(1) by (smt (verit) zero_less_power)
  have "nbits n \<le> int p + 1" using nbits_le [OF n, of "Suc p"] assms(2) by simp
  moreover have "\<not> nbits n \<le> int p"
  proof
    assume "nbits n \<le> int p"
    then have "(2::int) ^ nat (nbits n) \<le> 2 ^ p" by (intro power_increasing) simp_all
    with nbits_bounds [OF n] assms(1) show False by linarith
  qed
  ultimately show ?thesis by simp
qed

lemma nbits_shift: "0 < n \<Longrightarrow> nbits (n * 2 ^ j) = nbits n + int j"
proof -
  assume n: "0 < n"
  define p where "p = nat (nbits n - 1)"
  have p: "nbits n = int p + 1" "2 ^ p \<le> n" "n < 2 ^ Suc p"
    using nbits_bounds [OF n] by (simp_all add: p_def) (metis One_nat_def Suc_nat_eq_nat_zadd1 add.commute diff_add_cancel int_one_le_iff_zero_less power_Suc zle_diff1_eq zless_imp_add1_zle)
  then have "2 ^ (p + j) \<le> n * 2 ^ j" "n * 2 ^ j < 2 ^ Suc (p + j)" by (simp_all add: power_add)
  from nbits_unique [OF this] p(1) show ?thesis by simp
qed

lemma nbits_pow2 [simp]: "nbits (2 ^ j) = int j + 1"
  by (rule nbits_unique) simp_all

lemma ilog2_dyadic:
  assumes "0 < n"
  shows "ilog2 (n * 2 ^ j) 1 = nbits n + int j - 1" and "ilog2 n (2 ^ j) = nbits n - int j - 1"
proof -
  have b: "0 < nbits n" "2 ^ nat (nbits n - 1) \<le> n" using nbits_bounds [OF assms] by blast+
  have "2 ^ nat (nbits n + int j - 1) = (2::int) ^ nat (nbits n - 1) * 2 ^ j"
    using b(1) by (simp add: power_add [symmetric] nat_add_distrib [symmetric] algebra_simps)
  with b(2) have "2 ^ nat (nbits n + int j - 1) \<le> n * 2 ^ j" by simp
  then show "ilog2 (n * 2 ^ j) 1 = nbits n + int j - 1"
    using b(1) nbits_shift [OF assms, of j] by (simp add: ilog2_def Let_def)
  show "ilog2 n (2 ^ j) = nbits n - int j - 1"
  proof (cases "0 \<le> nbits n - int j - 1")
    case True
    then have "j + nat (nbits n - int j - 1) = nat (nbits n - 1)" by linarith
    then have "2 ^ j * 2 ^ nat (nbits n - int j - 1) = (2::int) ^ nat (nbits n - 1)" by (metis power_add)
    with b(2) True show ?thesis by (simp add: ilog2_def Let_def diff_diff_eq)
  next
    case False
    then have "j = nat (nbits n - 1) + nat (- (nbits n - int j - 1))" using b(1) by linarith
    then have "2 ^ j = (2::int) ^ nat (nbits n - 1) * 2 ^ nat (- (nbits n - int j - 1))" by (metis power_add)
    with b(2) have "2 ^ j \<le> n * 2 ^ nat (- (nbits n - int j - 1))" by simp
    with False show ?thesis by (simp add: ilog2_def Let_def algebra_simps)
  qed
qed

text \<open>A value of at most 53 bits in the range of the exponents is represented exactly.\<close>

lemma round_ratio_exact:
  assumes "0 < q" and "q < 2 ^ 53" and "ex = max (- 1074) (ilog2 n d - 52)" and "ex \<le> 971" and "0 < n" and "0 < d"
    and "if 0 \<le> ex then n = q * (d * 2 ^ nat ex) else n * 2 ^ nat (- ex) = q * d"
  shows "round_ratio s n d = DFin s q ex"
proof (cases "0 \<le> ex")
  case True
  then have "n div (d * 2 ^ nat ex) = q" "n mod (d * 2 ^ nat ex) = 0" using assms(6,7) by simp_all
  with True assms(1-5) show ?thesis
    unfolding round_ratio_def Let_def assms(3) [symmetric] using assms(6) by (auto simp: mult_less_0_iff)
next
  case False
  then have "n * 2 ^ nat (- ex) div d = q" "n * 2 ^ nat (- ex) mod d = 0" using assms(6,7) by simp_all
  with False assms(1-5) show ?thesis
    unfolding round_ratio_def Let_def assms(3) [symmetric] using assms(6) by auto
qed

lemma pow2_join: "a \<le> b \<Longrightarrow> b \<le> c \<Longrightarrow> (2::int) ^ nat (c - b) * 2 ^ nat (b - a) = 2 ^ nat (c - a)"
  by (simp add: power_add [symmetric] nat_add_distrib [symmetric])

lemma round_dyadic_exact:
  assumes "0 < n" and "n < 2 ^ 53" and "- 1074 \<le> e" and "nbits n + e \<le> 1024" and ex: "ex = max (- 1074) (nbits n + e - 53)"
  shows "round_dyadic s n e = DFin s (n * 2 ^ nat (e - ex)) ex"
proof -
  have le: "nbits n \<le> 53" using nbits_le [of n 53] assms(1,2) by simp
  have ee: "ex \<le> e" "ex \<le> 971" using le assms(3,4) ex by auto
  have "n < 2 ^ nat (nbits n)" "0 < nbits n" using nbits_bounds [OF assms(1)] by blast+
  then have "n * 2 ^ nat (e - ex) < 2 ^ nat (nbits n) * 2 ^ nat (e - ex)" by simp
  also have "\<dots> = 2 ^ nat (nbits n + (e - ex))" using \<open>0 < nbits n\<close> ee by (simp add: power_add [symmetric] nat_add_distrib)
  also have "\<dots> \<le> 2 ^ 53" using ex by (intro power_increasing) auto
  finally have q: "0 < n * 2 ^ nat (e - ex)" "n * 2 ^ nat (e - ex) < 2 ^ 53" using assms(1) by simp_all
  show ?thesis
  proof (cases "0 \<le> e")
    case True
    have l: "ex = max (- 1074) (ilog2 (n * 2 ^ nat e) 1 - 52)"
      using ilog2_dyadic(1) [OF assms(1), of "nat e"] True ex by simp
    have "if 0 \<le> ex then n * 2 ^ nat e = n * 2 ^ nat (e - ex) * (1 * 2 ^ nat ex)
        else n * 2 ^ nat e * 2 ^ nat (- ex) = n * 2 ^ nat (e - ex) * 1"
      using pow2_join [of 0 ex e] pow2_join [of ex 0 e] True ee by (simp add: mult.assoc)
    from round_ratio_exact [OF q l ee(2) _ _ this] assms(1) True show ?thesis by (simp add: round_dyadic_def)
  next
    case False
    have l: "ex = max (- 1074) (ilog2 n (2 ^ nat (- e)) - 52)"
      using ilog2_dyadic(2) [OF assms(1), of "nat (- e)"] False ex by simp
    have "2 ^ nat (e - ex) * 2 ^ nat (- e) = (2::int) ^ nat (- ex)"
      using False ee(1) by (simp add: power_add [symmetric] nat_add_distrib [symmetric])
    then have "if 0 \<le> ex then n = n * 2 ^ nat (e - ex) * (2 ^ nat (- e) * 2 ^ nat ex)
        else n * 2 ^ nat (- ex) = n * 2 ^ nat (e - ex) * 2 ^ nat (- e)"
      using False ee(1) by (simp add: mult.assoc)
    from round_ratio_exact [OF q l ee(2) _ _ this] assms(1) False show ?thesis by (simp add: round_dyadic_def)
  qed
qed

section \<open>Floats survive the file\<close>

text \<open>The values of a \<^verbatim>\<open>float\<close>: \<open>q * 2 ^ k\<close> with 24 bits, normalized or with the least exponent.\<close>

definition float_parts :: "int \<Rightarrow> int \<Rightarrow> bool" where
  "float_parts q k \<longleftrightarrow> 0 < q \<and> q < 2 ^ 24 \<and> - 149 \<le> k \<and> nbits q + k \<le> 128 \<and> (2 ^ 23 \<le> q \<or> k = - 149)"

definition float_val :: "cdouble \<Rightarrow> bool" where
  "float_val x \<longleftrightarrow> x = DNaN \<or> (\<exists>s. x = DInf s \<or> x = DFin s 0 (- 1074) \<or> (\<exists>q k. float_parts q k \<and> x = round_dyadic s q k))"

lemma float_parts_round:
  assumes "float_parts q k"
  obtains ex where "round_dyadic s q k = DFin s (q * 2 ^ nat (k - ex)) ex" and "ex < k" and "max (- 149) (nbits q + k - 24) = k"
proof -
  have q: "0 < q" "q < 2 ^ 24" "- 149 \<le> k" "nbits q + k \<le> 128" "2 ^ 23 \<le> q \<or> k = - 149"
    using assms by (simp_all add: float_parts_def)
  have n: "nbits q \<le> 24" using nbits_le [of q 24] q(1,2) by simp
  define ex where "ex = max (- 1074) (nbits q + k - 53)"
  have "round_dyadic s q k = DFin s (q * 2 ^ nat (k - ex)) ex"
    using q by (intro round_dyadic_exact [OF q(1) _ _ _ ex_def]) simp_all
  moreover have "ex < k" using n q(3) by (auto simp: ex_def)
  moreover have "2 ^ 23 \<le> q \<Longrightarrow> nbits q = 24" using nbits_unique [of 23 q] q(2) by simp
  then have "max (- 149) (nbits q + k - 24) = k" using q(3,5) n by auto
  ultimately show thesis using that by blast
qed

lemma float_bits_parts:
  assumes "float_parts q k"
  shows "float_bits (round_dyadic s q k) =
    (if s then 2 ^ 31 else 0) + nat (if q < 2 ^ 23 then q else (k + 150) * 2 ^ 23 + (q - 2 ^ 23))"
proof -
  obtain ex where r: "round_dyadic s q k = DFin s (q * 2 ^ nat (k - ex)) ex" "ex < k" "max (- 149) (nbits q + k - 24) = k"
    using float_parts_round [OF assms] by blast
  have "0 < q" using assms by (simp add: float_parts_def)
  then have "nbits (q * 2 ^ nat (k - ex)) + ex = nbits q + k" using nbits_shift [of q "nat (k - ex)"] r(2) by simp
  then have "max (- 149) (nbits (q * 2 ^ nat (k - ex)) + ex - 24) = k" using r(3) by simp
  with r(2) show ?thesis unfolding r(1) float_bits.simps Let_def by simp
qed

lemma float_fields:
  assumes "0 \<le> x" and "x < 256" and "0 \<le> f" and "f < 2 ^ 23" and "u = (if s then 2 ^ 31 else 0) + (x * 2 ^ 23 + f)"
  shows "u \<ge> 2 ^ 31 \<longleftrightarrow> s" and "(u div 2 ^ 23) mod 256 = (x::int)" and "u mod 2 ^ 23 = f" and "0 \<le> u" and "u < 2 ^ 32"
proof -
  define y where "y = (if s then 256 else 0) + x"
  have u: "u = f + y * 2 ^ 23" using assms(5) by (simp add: y_def)
  show "u mod 2 ^ 23 = f" unfolding u using assms(3,4) by simp
  have "u div 2 ^ 23 = y" unfolding u using assms(3,4) by (subst div_mult_self1) auto
  then show "(u div 2 ^ 23) mod 256 = x" using assms(1,2) by (simp add: y_def)
  show "u \<ge> 2 ^ 31 \<longleftrightarrow> s" "0 \<le> u" "u < 2 ^ 32" using assms by (auto split: if_splits)
qed

lemma float_word_fields:
  assumes "0 \<le> x" and "x < 256" and "0 \<le> f" and "f < 2 ^ 23" and "n = (if s then 2 ^ 31 else 0) + nat (x * 2 ^ 23 + f)"
  shows "float_of_word (word_of_nat n) =
    (if x = 255 then (if f = 0 then DInf s else DNaN)
     else if x = 0 then round_dyadic s f (- 149) else round_dyadic s (2 ^ 23 + f) (x - 150))"
proof -
  define u where "u = (if s then 2 ^ 31 else 0) + (x * 2 ^ 23 + f)"
  note u = float_fields [OF assms(1-4) u_def]
  have "int n = u" using assms(1,3,5) by (simp add: u_def)
  then have "uint (word_of_nat n :: 32 word) = u" using u(4,5) by (simp add: unsigned_of_nat take_bit_int_eq_self flip: take_bit_of_nat)
  then show ?thesis by (simp only: float_of_word_def Let_def u(1-3))
qed

lemma float_word_bits:
  assumes "float_val x"
  shows "float_of_word (word_of_nat (float_bits x)) = x"
proof -
  consider "x = DNaN" | s where "x = DInf s" | s where "x = DFin s 0 (- 1074)" | s q k where "float_parts q k" "x = round_dyadic s q k"
    using assms by (auto simp: float_val_def)
  then show ?thesis
  proof cases
    case 1
    then show ?thesis using float_word_fields [of 255 "2 ^ 22" "0x7fc00000" False] by simp
  next
    case 2
    then show ?thesis using float_word_fields [of 255 0 "float_bits (DInf s)" s] by simp
  next
    case 3
    then show ?thesis using float_word_fields [of 0 0 "float_bits x" s] by simp
  next
    case 4
    have q: "0 < q" "q < 2 ^ 24" "- 149 \<le> k" "nbits q + k \<le> 128" "2 ^ 23 \<le> q \<or> k = - 149"
      using 4(1) by (simp_all add: float_parts_def)
    show ?thesis
    proof (cases "q < 2 ^ 23")
      case True
      then show ?thesis
        using float_word_fields [of 0 q "float_bits x" s] float_bits_parts [OF 4(1), of s] q 4(2) by simp
    next
      case False
      have "nbits q = 24" using nbits_unique [of 23 q] q(2) False by simp
      then show ?thesis
        using float_word_fields [of "k + 150" "q - 2 ^ 23" "float_bits x" s] float_bits_parts [OF 4(1), of s] q False 4(2) by simp
    qed
  qed
qed

lemma to_float_val:
  assumes "wf_double d"
  shows "float_val (to_float d)"
proof (cases d)
  case (DFin s m e)
  show ?thesis
  proof (cases "m = 0")
    case False
    define x where "x = max (- 149) (nbits m - 1 + e - 23)"
    define j where "j = nat (x - e)"
    define q where "q = m div 2 ^ j"
    define q1 where "q1 = (if 2 * (m mod 2 ^ j) > 2 ^ j \<or> (2 * (m mod 2 ^ j) = 2 ^ j \<and> odd q) then q + 1 else q)"
    have m: "0 < m" "m < 2 ^ 53" "- 1074 \<le> e" "2 ^ 52 \<le> m \<or> e = - 1074" using assms False by (simp_all add: DFin)
    have nb: "0 < nbits m" "2 ^ nat (nbits m - 1) \<le> m" "m < 2 ^ nat (nbits m)" using nbits_bounds [OF m(1)] by blast+
    have "2 ^ 52 \<le> m \<Longrightarrow> nbits m = 53" using nbits_unique [of 52 m] m(2) by simp
    then have ex: "e < x" using m(3,4) by (auto simp: x_def)
    have t: "to_float d = (if nbits q1 + x > 128 then DInf s else round_dyadic s q1 x)"
      unfolding DFin to_float.simps Let_def x_def [symmetric] j_def [symmetric] q_def [symmetric] q1_def [symmetric]
      using False ex by simp
    have "m < 2 ^ (24 + j)"
    proof -
      have "nbits m \<le> 24 + int j" using ex by (auto simp: j_def x_def)
      then have "(2::int) ^ nat (nbits m) \<le> 2 ^ (24 + j)" by (intro power_increasing) auto
      with nb(3) show ?thesis by linarith
    qed
    then have m24: "m < 2 ^ 24 * 2 ^ j" by (simp add: power_add)
    have mq: "m = q * 2 ^ j + m mod 2 ^ j" "0 \<le> m mod 2 ^ j" "m mod 2 ^ j < 2 ^ j"
      using div_mult_mod_eq [of m "2 ^ j"] by (simp_all add: q_def)
    have q: "0 \<le> q" "q < 2 ^ 24"
    proof -
      show "0 \<le> q" using m(1) by (simp add: q_def pos_imp_zdiv_nonneg_iff)
      show "q < 2 ^ 24"
      proof (rule ccontr)
        assume "\<not> q < 2 ^ 24"
        then have "2 ^ 24 * 2 ^ j \<le> q * 2 ^ j" by (intro mult_right_mono) simp_all
        with m24 mq(1,2) show False by linarith
      qed
    qed
    have big: "2 ^ 23 \<le> q \<or> x = - 149"
    proof (rule disjCI)
      assume "x \<noteq> - 149"
      then have xe: "x = nbits m - 1 + e - 23" by (auto simp: x_def)
      then have "nat (nbits m - 1) = 23 + j" using ex by (auto simp: j_def)
      with nb(2) have "2 ^ 23 * 2 ^ j \<le> m" by (simp add: power_add)
      show "2 ^ 23 \<le> q"
      proof (rule ccontr)
        assume "\<not> 2 ^ 23 \<le> q"
        then have "q * 2 ^ j \<le> (2 ^ 23 - 1) * 2 ^ j" by (intro mult_right_mono) simp_all
        then have "q * 2 ^ j \<le> 2 ^ 23 * 2 ^ j - 2 ^ j" by (simp add: algebra_simps)
        with \<open>2 ^ 23 * 2 ^ j \<le> m\<close> mq(1,3) show False by linarith
      qed
    qed
    have q1: "q1 = q \<or> q1 = q + 1" by (simp add: q1_def)
    consider "q1 = 0" | "q1 = 2 ^ 24" | "0 < q1" "q1 < 2 ^ 24" using q q1 by fastforce
    then show ?thesis
    proof cases
      case 1
      then show ?thesis by (auto simp: t float_val_def)
    next
      case 2
      have "round_dyadic s q1 x = round_dyadic s (2 ^ 23) (x + 1)" if "nbits q1 + x \<le> 128"
      proof -
        have x: "- 149 \<le> x" "nbits q1 = 25" using nbits_pow2 [of 24] by (simp_all add: x_def 2)
        define ex where "ex = max (- 1074) (25 + x - 53)"
        have "round_dyadic s q1 x = DFin s (q1 * 2 ^ nat (x - ex)) ex"
          using x that nbits_pow2 [of 24] by (intro round_dyadic_exact) (simp_all add: 2 ex_def)
        moreover have "round_dyadic s (2 ^ 23) (x + 1) = DFin s (2 ^ 23 * 2 ^ nat (x + 1 - ex)) ex"
          using x that nbits_pow2 [of 23] by (intro round_dyadic_exact) (simp_all add: ex_def)
        moreover have "nat (x + 1 - ex) = Suc (nat (x - ex))" using x(1) by (simp add: ex_def max_def)
        ultimately show ?thesis by (simp add: 2)
      qed
      moreover have "nbits q1 + x \<le> 128 \<Longrightarrow> float_parts (2 ^ 23) (x + 1)"
        using nbits_pow2 [of 23] nbits_pow2 [of 24] by (simp add: float_parts_def 2 x_def)
      ultimately show ?thesis unfolding t float_val_def by (cases "nbits q1 + x \<le> 128") (simp_all, blast+)
    next
      case 3
      then have "nbits q1 + x \<le> 128 \<Longrightarrow> float_parts q1 x" using big q1 by (auto simp: float_parts_def x_def)
      then show ?thesis unfolding t float_val_def by (cases "nbits q1 + x \<le> 128") (simp_all, blast+)
    qed
  qed (auto simp: DFin float_val_def)
qed (auto simp: float_val_def)

section \<open>Bytes\<close>

lemma le32_float_bytes: "le32 (pre @ float_bytes x @ post) (length pre) = word_of_nat (float_bits x)"
proof (rule bit_word_eqI)
  fix n
  assume "n < LENGTH(32)"
  then have n: "n < 32" by simp
  consider "n < 8" | "8 \<le> n" "n < 16" | "16 \<le> n" "n < 24" | "24 \<le> n" using n by linarith
  then show "bit (le32 (pre @ float_bytes x @ post) (length pre)) n = bit (word_of_nat (float_bits x) :: 32 word) n"
    by cases (use n in \<open>auto simp: le32_def float_bytes_def nth_append bit_simps dest: bit_imp_possible_bit\<close>)
qed

lemma length_float_bytes [simp]: "length (float_bytes x) = 4"
  by (simp add: float_bytes_def)

definition blob_ok :: "calib_blob \<Rightarrow> bool" where
  "blob_ok b \<longleftrightarrow> length (bl_gyro_bias b) = 3 \<and> length (bl_gyro_scale b) = 3 \<and> list_all float_val (blob_floats b)"

text \<open>The kernel reads the blob the tool wrote.\<close>

lemma blob_of_blob_bytes:
  assumes "blob_ok b"
  shows "blob_of_bytes (blob_bytes b) = b" and "length (blob_bytes b) = 32"
proof -
  have len: "length (concat (map float_bytes xs)) = 4 * length xs" for xs by (induction xs) simp_all
  have n: "length (blob_floats b) = 8" by (simp add: blob_floats_def)
  show "length (blob_bytes b) = 32" by (simp add: blob_bytes_def len n del: length_concat)
  have f: "float_of_word (le32 (blob_bytes b) (4 * i)) = blob_floats b ! i" if "i < 8" for i
  proof -
    define pre post where "pre = concat (map float_bytes (take i (blob_floats b)))"
      and "post = concat (map float_bytes (drop (Suc i) (blob_floats b)))"
    have "blob_bytes b = concat (map float_bytes (take i (blob_floats b) @ blob_floats b ! i # drop (Suc i) (blob_floats b)))"
      using that n by (simp add: blob_bytes_def id_take_nth_drop [symmetric] del: take_append map_append)
    then have "blob_bytes b = pre @ float_bytes (blob_floats b ! i) @ post" by (simp add: pre_def post_def)
    moreover have "length pre = 4 * i" using that n unfolding pre_def len by simp
    ultimately have "le32 (blob_bytes b) (4 * i) = word_of_nat (float_bits (blob_floats b ! i))"
      using le32_float_bytes [of pre "blob_floats b ! i" post] by simp
    moreover have "float_val (blob_floats b ! i)" using assms that n by (simp add: blob_ok_def list_all_length)
    ultimately show ?thesis by (simp add: float_word_bits)
  qed
  have three: "xs = [xs ! 0, xs ! 1, xs ! 2]" if "length xs = 3" for xs :: "cdouble list"
    using that by (auto simp: length_Suc_conv numeral_3_eq_3)
  show "blob_of_bytes (blob_bytes b) = b"
    using f [of 0] f [of 1] f [of 2] f [of 3] f [of 4] f [of 5] f [of 6] f [of 7] assms
      three [of "bl_gyro_bias b"] three [of "bl_gyro_scale b"]
    by (simp add: blob_of_bytes_def blob_floats_def blob_ok_def)
qed

end
