(* ===== verification/Modprobe.thy ===== *)
theory Modprobe
  imports Evdev Daemon_Config
begin

text \<open>
  \<^verbatim>\<open>tools/src/modprobe_helpers.c\<close>, with what the C library and the system do for the commands of the tool: lines read with
  \<^verbatim>\<open>fgets\<close>, files written with \<^verbatim>\<open>fopen\<close> and \<^verbatim>\<open>fclose\<close>, commands run through \<^verbatim>\<open>popen\<close>. The outcome of a system call
  is a parameter; the result of an operation has the error text and, for those that run commands, the commands in order.
\<close>

section \<open>Input and output\<close>

text \<open>
  \<^verbatim>\<open>fgets\<close> with a buffer of \<open>n\<close> bytes: the string in the buffer and the input after it, \<^const>\<open>None\<close> at the end of the
  input.
\<close>

definition fgets_line :: "nat \<Rightarrow> string \<Rightarrow> string" where
  "fgets_line n input =
     (let l = take (n - 1) input; line = takeWhile (\<lambda>c. c \<noteq> CHR 0x0A) l
      in if length line < length l then line @ [CHR 0x0A] else line)"

definition fgets :: "nat \<Rightarrow> string \<Rightarrow> (string \<times> string) option" where
  "fgets n input =
     (if input = [] then None
      else let l = fgets_line n input in Some (cstr l, drop (length l) input))"

text \<open>Writing a whole file: it cannot be created, the first bytes are written before an error, or all of it is.\<close>

datatype out_res = OutNoOpen string | OutShort nat | OutDone

fun write_out :: "out_res \<Rightarrow> string \<Rightarrow> string \<Rightarrow> files \<Rightarrow> files" where
  "write_out (OutNoOpen e) path content fs = fs"
| "write_out (OutShort n) path content fs = fs(path \<mapsto> take n content)"
| "write_out OutDone path content fs = fs(path \<mapsto> content)"

section \<open>Commands\<close>

text \<open>\<^verbatim>\<open>popen\<close> fails, or the command prints something and \<^verbatim>\<open>pclose\<close> gives its status.\<close>

datatype popen_res = PopenFails string | PopenDone string int

type_synonym shell = "string \<Rightarrow> popen_res"

definition module_is_loaded :: "(string \<Rightarrow> bool) \<Rightarrow> string \<Rightarrow> bool" where
  "module_is_loaded present name = present (buf_str 256 (''/sys/module/'' @ name))"

definition trim_eol :: "string \<Rightarrow> string" where
  "trim_eol s = rev (dropWhile (\<lambda>c. c = CHR 0x0A \<or> c = CHR 0x0D) (rev s))"

definition run_cmd :: "shell \<Rightarrow> string \<Rightarrow> nat \<Rightarrow> string \<Rightarrow> string option" where
  "run_cmd sh cmd errsz what = (case sh cmd of
       PopenFails m \<Rightarrow> Some (buf_str errsz (''cannot run '' @ what @ '': '' @ m))
     | PopenDone out rc \<Rightarrow>
         if rc \<noteq> 0 then
           let b = trim_eol (take 511 out)
           in Some (buf_str errsz (what @ '' failed: '' @ (if b \<noteq> [] then cstr b else ''unknown error'')))
         else None)"

definition module_load :: "shell \<Rightarrow> string \<Rightarrow> nat \<Rightarrow> string option \<times> string list" where
  "module_load sh name errsz =
     (let cmd = buf_str 512 (''modprobe '' @ name @ '' 2>&1'') in (run_cmd sh cmd errsz ''modprobe'', [cmd]))"

definition module_reload :: "shell \<Rightarrow> string \<Rightarrow> nat \<Rightarrow> string option \<times> string list" where
  "module_reload sh name errsz =
     (let cmd = buf_str 512 (''rmmod '' @ name @ '' 2>&1'')
      in case run_cmd sh cmd errsz ''rmmod'' of
           Some e \<Rightarrow> (Some e, [cmd])
         | None \<Rightarrow> (case module_load sh name errsz of (e, cmds) \<Rightarrow> (e, cmd # cmds)))"

definition modprobe_conf :: string where
  "modprobe_conf = ''/etc/modprobe.d/lgmagic.conf''"

text \<open>\<open>mk\<close> is the error of \<^verbatim>\<open>mkdir\<close>, other than that the directory exists.\<close>

definition module_write_conf ::
  "(string \<Rightarrow> string option) \<Rightarrow> (string \<Rightarrow> out_res) \<Rightarrow> string \<Rightarrow> string \<Rightarrow> nat \<Rightarrow> files \<Rightarrow> string option \<times> files" where
  "module_write_conf mk wr name params errsz fs = (case mk ''/etc/modprobe.d'' of
       Some e \<Rightarrow> (Some (buf_str errsz (''cannot create /etc/modprobe.d: '' @ e)), fs)
     | None \<Rightarrow>
         (case wr modprobe_conf of
            OutNoOpen e \<Rightarrow> (Some (buf_str errsz (''cannot write /etc/modprobe.d/lgmagic.conf: '' @ e @ '' (are you root?)'')), fs)
          | OutShort n \<Rightarrow> (Some (buf_str errsz ''write error on /etc/modprobe.d/lgmagic.conf''),
              write_out (OutShort n) modprobe_conf (''options '' @ name @ '' '' @ params @ [CHR 0x0A]) fs)
          | OutDone \<Rightarrow> (None, fs(modprobe_conf \<mapsto> ''options '' @ name @ '' '' @ params @ [CHR 0x0A]))))"

text \<open>The kernel log: \<^const>\<open>None\<close> when \<^verbatim>\<open>popen\<close> fails. The lines are read in pieces of 1023 bytes.\<close>

function log_contains :: "string \<Rightarrow> string \<Rightarrow> bool" where
  "log_contains needle text0 = (case fgets 1024 text0 of
       None \<Rightarrow> False
     | Some (line, rest) \<Rightarrow> strstr line needle \<or> log_contains needle rest)"
  by auto

lemma fgets_line_length: "1 < n \<Longrightarrow> input \<noteq> [] \<Longrightarrow> 0 < length (fgets_line n input) \<and> length (fgets_line n input) \<le> length input"
proof -
  assume a: "1 < n" "input \<noteq> []"
  define l where "l = take (n - 1) input"
  have l: "l \<noteq> []" "length l \<le> length input" using a by (auto simp: l_def)
  have f: "fgets_line n input = (let line = takeWhile (\<lambda>c. c \<noteq> CHR 0x0A) l
      in if length line < length l then line @ [CHR 0x0A] else line)" by (simp add: fgets_line_def l_def)
  have "0 < length (fgets_line n input) \<and> length (fgets_line n input) \<le> length l"
    unfolding f Let_def using l(1) length_takeWhile_le [of "\<lambda>c. c \<noteq> CHR 0x0A" l] by auto
  with l(2) show "0 < length (fgets_line n input) \<and> length (fgets_line n input) \<le> length input" by linarith
qed

lemma fgets_shorter: "1 < n \<Longrightarrow> fgets n input = Some (l, rest) \<Longrightarrow> length rest < length input"
  using fgets_line_length [of n input] by (auto simp: fgets_def Let_def split: if_splits)

termination log_contains
  by (relation "measure (\<lambda>(needle, input). length input)") (auto dest!: fgets_shorter [rotated])

declare log_contains.simps [simp del]

definition dmesg_contains :: "string option \<Rightarrow> string \<Rightarrow> int" where
  "dmesg_contains log needle = (case log of None \<Rightarrow> - 1 | Some t \<Rightarrow> if log_contains needle t then 1 else 0)"

end
