(* ===== verification/Cmd_Calib.thy ===== *)
theory Cmd_Calib
  imports Blob Modprobe Csv Lm Commands Calib
begin

text \<open>
  \<^verbatim>\<open>lgmagic calib2bin\<close> and \<^verbatim>\<open>lgmagic calibrate\<close>: \<^verbatim>\<open>tools/src/cmd_calib2bin.c\<close> and \<^verbatim>\<open>cmd_calibrate.c\<close>. A
  command yields its exit code and the files; what it prints is not modelled. A file of bytes is a string. Reading a file can
  fail with a reason (\<open>rd\<close>), writing one in the ways of \<^typ>\<open>out_res\<close>.
\<close>

definition bytes_text :: "8 word list \<Rightarrow> string" where
  "bytes_text bs = map (\<lambda>b. char_of (unat b)) bs"

definition text_bytes :: "string \<Rightarrow> 8 word list" where
  "text_bytes s = map (\<lambda>c. word_of_nat (of_char c)) s"

definition load_text :: "(string \<Rightarrow> string option) \<Rightarrow> files \<Rightarrow> string \<Rightarrow> string + string" where
  "load_text rd fs path = (case rd path of
       Some e \<Rightarrow> Inl e
     | None \<Rightarrow> (case fs path of None \<Rightarrow> Inl ''No such file or directory'' | Some t \<Rightarrow> Inr t))"

section \<open>\<^verbatim>\<open>calib2bin\<close>\<close>

definition check_len3 :: "json_value option \<Rightarrow> bool" where
  "check_len3 v = (case v of
       Some (JArr xs) \<Rightarrow> length xs = 3 \<and> list_all (\<lambda>x. case x of JNum d \<Rightarrow> True | _ \<Rightarrow> False) xs
     | _ \<Rightarrow> False)"

text \<open>The arguments after the name: the two numbers and the positional ones; \<^const>\<open>None\<close> for an unexpected one.\<close>

fun calib2bin_args :: "string list \<Rightarrow> cdouble \<Rightarrow> cdouble \<Rightarrow> string list \<Rightarrow> (cdouble \<times> cdouble \<times> string list) option" where
  "calib2bin_args [] alpha k pos = Some (alpha, k, pos)"
| "calib2bin_args (a # as) alpha k pos =
     (if a = ''--alpha'' \<and> as \<noteq> [] then calib2bin_args (tl as) (fst (strtod (hd as))) k pos
      else if starts_with ''--alpha='' a then calib2bin_args as (fst (strtod (drop 8 a))) k pos
      else if a = ''--mouse_k'' \<and> as \<noteq> [] then calib2bin_args (tl as) alpha (fst (strtod (hd as))) pos
      else if starts_with ''--mouse_k='' a then calib2bin_args as alpha (fst (strtod (drop 10 a))) pos
      else if length pos < 2 then calib2bin_args as alpha k (pos @ [a])
      else None)"

definition calib2bin_blob :: "calib \<Rightarrow> cdouble \<Rightarrow> cdouble \<Rightarrow> string" where
  "calib2bin_blob c alpha k = bytes_text (blob_bytes (calib_to_blob c (to_float alpha) (to_float k)))"

definition calib2bin_run ::
  "(string \<Rightarrow> string option) \<Rightarrow> (string \<Rightarrow> out_res) \<Rightarrow> string \<Rightarrow> string \<Rightarrow> cdouble \<Rightarrow> cdouble \<Rightarrow> files \<Rightarrow> int \<times> files" where
  "calib2bin_run rd wr json_path out_path alpha k fs = (case load_text rd fs json_path of
       Inl e \<Rightarrow> (1, fs)
     | Inr text \<Rightarrow>
         (case json_parse text of
            POk jr p \<Rightarrow>
              (let gyro = json_obj_get (Some jr) ''gyro''
               in if \<not> check_len3 (json_obj_get gyro ''bias'') \<or> \<not> check_len3 (json_obj_get gyro ''scale'') then (1, fs)
                  else case calib_load json_path (Inr text) of
                         (Some e, c) \<Rightarrow> (1, fs)
                       | (None, c) \<Rightarrow>
                           (if wr out_path = OutDone then 0 else 1, write_out (wr out_path) out_path (calib2bin_blob c alpha k) fs))
          | _ \<Rightarrow> (1, fs)))"

definition cmd_calib2bin ::
  "(string \<Rightarrow> string option) \<Rightarrow> (string \<Rightarrow> out_res) \<Rightarrow> config \<Rightarrow> string list \<Rightarrow> files \<Rightarrow> int \<times> files" where
  "cmd_calib2bin rd wr cfg argv fs =
     (if length argv \<ge> 2 \<and> is_help (argv ! 1) then (0, fs)
      else case calib2bin_args (tl argv) (cf_alpha cfg) (mouse_k cfg) [] of
             Some (alpha, k, [json_path, out_path]) \<Rightarrow> calib2bin_run rd wr json_path out_path alpha k fs
           | _ \<Rightarrow> (1, fs))"

section \<open>\<^verbatim>\<open>calibrate\<close>\<close>

fun calibrate_args :: "string list \<Rightarrow> bool \<Rightarrow> bool \<Rightarrow> string list \<Rightarrow> (bool \<times> bool \<times> string list) option" where
  "calibrate_args [] ac gy pos = Some (ac, gy, pos)"
| "calibrate_args (a # as) ac gy pos =
     (if a = ''--accel'' then calibrate_args as True gy pos
      else if a = ''--gyro'' then calibrate_args as ac True pos
      else if length pos < 2 then calibrate_args as ac gy (pos @ [a])
      else None)"

definition gyro_mean :: "imu_sample list \<Rightarrow> nat \<Rightarrow> cdouble" where
  "gyro_mean s j =
     (let t = foldl (\<lambda>acc x. dadd acc (s_gyro x ! j)) d0 s
      in if s = [] then t else ddiv t (of_int_d (int (length s))))"

definition csv_source :: "(string \<Rightarrow> string option) \<Rightarrow> files \<Rightarrow> string \<Rightarrow> csv_src" where
  "csv_source rd fs path = (case load_text rd fs path of Inl e \<Rightarrow> NoOpen e | Inr t \<Rightarrow> Bytes t)"

definition calibrate_fit :: "bool \<Rightarrow> imu_sample list \<Rightarrow> calib option" where
  "calibrate_fit do_accel s =
     (if do_accel then
        (case lm_fit_accel (map s_accel s) of
           None \<Rightarrow> None
         | Some (bias, mat, cost) \<Rightarrow> Some (calib_init_identity\<lparr>accel_bias := bias, accel_matrix := mat\<rparr>))
      else Some (calib_init_identity\<lparr>gyro_bias := [gyro_mean s 0, gyro_mean s 1, gyro_mean s 2]\<rparr>))"

text \<open>The bytes of \<open>calib_save_json\<close> in the file.\<close>

definition save_calib :: "(string \<Rightarrow> out_res) \<Rightarrow> calib \<Rightarrow> string \<Rightarrow> files \<Rightarrow> int \<times> files" where
  "save_calib wr c path fs = (case calib_save_json c of
       None \<Rightarrow> (- 1, fs)
     | Some text \<Rightarrow> (if wr path = OutDone then 0 else - 1, write_out (wr path) path text fs))"

definition cmd_calibrate ::
  "(string \<Rightarrow> string option) \<Rightarrow> (string \<Rightarrow> out_res) \<Rightarrow> string list \<Rightarrow> files \<Rightarrow> int \<times> files" where
  "cmd_calibrate rd wr argv fs =
     (if length argv \<ge> 2 \<and> is_help (argv ! 1) then (0, fs)
      else case calibrate_args (tl argv) False False [] of
             Some (ac, gy, [csv_path, out_path]) \<Rightarrow>
               if \<not> ac \<and> \<not> gy then (1, fs)
               else (case csv_read csv_path (csv_source rd fs csv_path) of
                       Inl e \<Rightarrow> (1, fs)
                     | Inr s \<Rightarrow>
                         (case calibrate_fit ac s of
                            None \<Rightarrow> (1, fs)
                          | Some c \<Rightarrow> (case save_calib wr c out_path fs of (rc, fs') \<Rightarrow> (if rc < 0 then 1 else 0, fs'))))
           | _ \<Rightarrow> (1, fs))"

section \<open>The blob in the kernel\<close>

lemma text_bytes_bytes_text [simp]: "text_bytes (bytes_text bs) = bs"
proof -
  have "word_of_nat (of_char (char_of (unat b) :: char)) = b" for b :: "8 word"
    using unsigned_less [of b, where ?'a = nat] by (simp add: of_char_of)
  then show ?thesis by (simp add: text_bytes_def bytes_text_def map_idI)
qed

definition calib_finite :: "calib \<Rightarrow> bool" where
  "calib_finite c \<longleftrightarrow> list_all wf_double (gyro_bias c) \<and> list_all wf_double (gyro_scale c) \<and> length (gyro_bias c) = 3 \<and>
     length (gyro_scale c) = 3"

lemma calib_blob_ok:
  assumes "calib_finite c" and "wf_double alpha" and "wf_double k"
  shows "blob_ok (calib_to_blob c (to_float alpha) (to_float k))"
proof -
  have "wf_double (gyro_bias c ! i)" "wf_double (gyro_scale c ! i)" if "i < 3" for i
    using assms(1) that by (simp_all add: calib_finite_def list_all_length)
  with assms(2,3) show ?thesis
    by (simp add: blob_ok_def calib_to_blob_def blob_floats_def to_float_val)
qed

text \<open>The driver that is given the bytes of a blob of the tool holds the blob, or zeros when it is out of range.\<close>

lemma load_fw_blob:
  assumes "fw name = Inr (text_bytes (calib2bin_blob c alpha k))" and "calib_finite c" and "wf_double alpha" and "wf_double k"
  defines "b \<equiv> calib_to_blob c (to_float alpha) (to_float k)"
  shows "lgmagic_load_fw fw name d = (0, d\<lparr>dr_calib := if lgmagic_validate_calib b = 0 then b else zero_blob\<rparr>)"
  using blob_of_blob_bytes [OF calib_blob_ok [OF assms(2-4)]] assms(1)
  by (simp add: lgmagic_load_fw_def calib2bin_blob_def b_def)

end
