(* ===== verification/Cmd_Config.thy ===== *)
theory Cmd_Config
  imports Config_Correct Modprobe Commands Calib
begin

text \<open>
  \<^verbatim>\<open>lgmagic config\<close>: \<^verbatim>\<open>tools/src/cmd_config.c\<close> and \<^verbatim>\<open>config_save_user\<close> of \<^verbatim>\<open>config.c\<close>. The outcomes of
  the system calls are \<open>cfg_env\<close>; a command yields its exit code, the configuration, the files and what it printed.
\<close>

record cfg_env =
  cc_stat :: "string \<Rightarrow> string option"     \<comment> \<open>an error of \<^verbatim>\<open>stat\<close> other than \<^verbatim>\<open>ENOENT\<close>\<close>
  cc_read :: "string \<Rightarrow> string option"     \<comment> \<open>why an existing file cannot be read\<close>
  cc_write :: "string \<Rightarrow> out_res"
  cc_mkdir :: "string \<Rightarrow> string option"
  cc_home :: "string option"
  cc_root :: "string option"

record cfg_res =
  cr_rc :: int
  cr_config :: config
  cr_files :: files
  cr_out :: string
  cr_err :: string

section \<open>Saving the user configuration\<close>

text \<open>\<^verbatim>\<open>mkdir_p\<close>: the error of the first directory that cannot be created.\<close>

definition make_dirs :: "(string \<Rightarrow> string option) \<Rightarrow> string \<Rightarrow> string option" where
  "make_dirs mk dir = Option.bind (find (\<lambda>p. mk p \<noteq> None) (mkdir_prefixes dir)) mk"

definition config_save_user :: "cfg_env \<Rightarrow> config \<Rightarrow> nat \<Rightarrow> files \<Rightarrow> string option \<times> files" where
  "config_save_user env cfg errsz fs = (case cc_home env of
       None \<Rightarrow> (Some (buf_str errsz ''HOME is not set; cannot save user config''), fs)
     | Some home \<Rightarrow>
         (let dir = path_buf (home @ ''/.config/lgmagic''); path = take 4108 (dir @ ''/config.toml'')
          in case make_dirs (cc_mkdir env) dir of
               Some e \<Rightarrow> (Some (buf_str errsz (''cannot create '' @ dir @ '': '' @ e)), fs)
             | None \<Rightarrow>
                 (case config_save_text cfg of
                    None \<Rightarrow> (Some (buf_str errsz ''out of memory''), fs)
                  | Some text \<Rightarrow>
                      (case cc_write env path of
                         OutNoOpen e \<Rightarrow> (Some (buf_str errsz (''cannot open '' @ path @ '': '' @ e)), fs)
                       | OutShort n \<Rightarrow> (Some (buf_str errsz (''write error on '' @ path)), write_out (OutShort n) path text fs)
                       | OutDone \<Rightarrow> (None, fs(path \<mapsto> text))))))"

section \<open>Migration\<close>

definition migrate_keys :: "string list" where
  "migrate_keys = [''imu_device'', ''hidraw_device'', ''default_calib'', ''lpf_alpha'', ''mouse_scale'', ''madgwick_beta'',
     ''alpha'', ''mouse_k'', ''gyro_scale_default'']"

definition migrate_value :: "json_value \<Rightarrow> toml_value option" where
  "migrate_value v = (case v of JStr s \<Rightarrow> Some (TStr s) | JNum d \<Rightarrow> Some (TFloat d) | _ \<Rightarrow> None)"

text \<open>The members of the table, and the keys that are skipped.\<close>

definition migrate_members :: "json_value \<Rightarrow> (string \<times> toml_value) list" where
  "migrate_members jr = List.map_filter (\<lambda>k. map_option (Pair k) (Option.bind (json_obj_get (Some jr) k) migrate_value)) migrate_keys"

definition migrate_skipped :: "json_value \<Rightarrow> string list" where
  "migrate_skipped jr = filter (\<lambda>k. case json_obj_get (Some jr) k of Some v \<Rightarrow> migrate_value v = None | None \<Rightarrow> False) migrate_keys"

definition mig :: string where
  "mig = ''lgmagic config migrate: ''"

definition toml_twin :: "string \<Rightarrow> string" where
  "toml_twin json_path = take (length json_path - 4) json_path @ ''toml''"

text \<open>\<^verbatim>\<open>migrate_one\<close>: the result, the files, the two outputs.\<close>

definition migrate_write :: "cfg_env \<Rightarrow> string \<Rightarrow> json_value \<Rightarrow> files \<Rightarrow> int \<times> files \<times> string \<times> string" where
  "migrate_write env json_path jr fs =
     (let toml_path = toml_twin json_path;
          skipped = concat (map (\<lambda>k. mig @ ''skipping '' @ squote k @ '': unsupported JSON value'' @ nl) (migrate_skipped jr))
      in case toml_dumps (Some (TTable (migrate_members jr))) of
           None \<Rightarrow> (1, fs, [], skipped @ mig @ ''out of memory'' @ nl)
         | Some text \<Rightarrow>
             (case cc_write env toml_path of
                OutNoOpen e \<Rightarrow> (1, fs, [], skipped @ mig @ ''cannot open '' @ toml_path @ '': '' @ e @ nl)
              | OutShort n \<Rightarrow> (1, write_out (OutShort n) toml_path text fs, [], skipped @ mig @ ''write error on '' @ toml_path @ nl)
              | OutDone \<Rightarrow> (0, fs(toml_path \<mapsto> text), ''migrated '' @ json_path @ '' -> '' @ toml_path @ nl, skipped)))"

definition migrate_one :: "cfg_env \<Rightarrow> string \<Rightarrow> files \<Rightarrow> int \<times> files \<times> string \<times> string" where
  "migrate_one env json_path fs =
     (let len = length json_path; toml_path = toml_twin json_path
      in if len < 5 \<or> drop (len - 5) json_path \<noteq> ''.json'' then
           (1, fs, [], mig @ squote json_path @ '' does not end in .json'' @ nl)
         else if len + 1 \<ge> 4096 then (1, fs, [], mig @ ''path too long: '' @ json_path @ nl)
         else case cc_stat env json_path of
                Some e \<Rightarrow> (1, fs, [], mig @ json_path @ '': '' @ e @ nl)
              | None \<Rightarrow>
                  (case fs json_path of
                     None \<Rightarrow> (0, fs, ''skip '' @ json_path @ '': no v1 config'' @ nl, [])
                   | Some content \<Rightarrow>
                       if cc_stat env toml_path = None \<and> fs toml_path \<noteq> None then
                         (0, fs, ''skip '' @ json_path @ '': '' @ toml_path @ '' already exists'' @ nl, [])
                       else if cc_read env json_path \<noteq> None then
                         (1, fs, [], mig @ json_path @ '': '' @ the (cc_read env json_path) @ '' (byte 0)'' @ nl)
                       else (case json_parse content of
                               POk jr p \<Rightarrow>
                                 if is_obj (Some jr) then migrate_write env json_path jr fs
                                 else (1, fs, [], mig @ json_path @ '': root is not an object'' @ nl)
                             | PErr msg off \<Rightarrow> (1, fs, [], mig @ json_path @ '': '' @ msg @ '' (byte '' @ show_dec (int off) @ '')'' @ nl)
                             | PFuel \<Rightarrow> (1, fs, [], mig @ json_path @ '': '' @ nl))))"

section \<open>The command\<close>

definition config_usage :: string where
  "config_usage =
     ''Usage: lgmagic config [show|set KEY VALUE|path|migrate [FILE]]'' @ nl @ nl @
     ''  (no argument)    print the effective configuration'' @ nl @
     ''  set KEY VALUE    set one key and save it to'' @ nl @
     ''                   ~/.config/lgmagic/config.toml'' @ nl @
     ''  path             print the config file locations'' @ nl @
     ''  migrate [FILE]   convert a v1 config.json to TOML'' @ nl @
     ''                   (the JSON source is kept)'' @ nl @ nl @
     ''Keys (strings): imu_device, hidraw_device, default_calib'' @ nl @
     ''Keys (bool):    accel_gate (true/false)'' @ nl @
     ''Keys (numbers): lpf_alpha, mouse_scale, madgwick_beta,'' @ nl @
     ''                alpha, mouse_k, gyro_scale_default,'' @ nl @
     ''                accel_gate_lo, accel_gate_hi'' @ nl"

definition config_print_paths :: "cfg_env \<Rightarrow> string" where
  "config_print_paths env =
     ''system: '' @ config_system_path (cc_root env) @ nl @
     ''user:   '' @ (case cc_home env of Some h \<Rightarrow> h | None \<Rightarrow> ''$HOME'') @ ''/.config/lgmagic/config.toml'' @ nl"

definition res :: "int \<Rightarrow> config \<Rightarrow> files \<Rightarrow> string \<Rightarrow> string \<Rightarrow> cfg_res" where
  "res rc cfg fs out err = \<lparr>cr_rc = rc, cr_config = cfg, cr_files = fs, cr_out = out, cr_err = err\<rparr>"

definition config_set :: "cfg_env \<Rightarrow> string \<Rightarrow> string \<Rightarrow> config \<Rightarrow> files \<Rightarrow> cfg_res" where
  "config_set env key value cfg fs = (case config_set_key cfg key value of
       (Some e, cfg') \<Rightarrow> res 1 cfg' fs [] (''lgmagic: '' @ buf_str 256 e @ nl)
     | (None, cfg') \<Rightarrow>
         (case config_save_user env cfg' 256 fs of
            (Some e, fs') \<Rightarrow> res 1 cfg' fs' [] (''lgmagic: '' @ e @ nl)
          | (None, fs') \<Rightarrow> res 0 cfg' fs' (key @ '' = '' @ value @ nl) []))"

text \<open>The C operator \<open>||\<close> gives 0 or 1, and skips the second file when the first one failed.\<close>

definition config_migrate :: "cfg_env \<Rightarrow> config \<Rightarrow> files \<Rightarrow> cfg_res" where
  "config_migrate env cfg fs = (case migrate_one env ''/etc/lgmagic/config.json'' fs of
       (rc, fs1, out1, err1) \<Rightarrow>
         (case cc_home env of
            None \<Rightarrow> res rc cfg fs1 (out1 @ ''skip user config: HOME is not set'' @ nl) err1
          | Some home \<Rightarrow>
              (let path = home @ ''/.config/lgmagic/config.json''
               in if length path \<ge> 4096 then
                    res (if rc \<noteq> 0 then rc else 1) cfg fs1 out1 (err1 @ mig @ ''HOME path too long'' @ nl)
                  else if rc \<noteq> 0 then res 1 cfg fs1 out1 err1
                  else case migrate_one env path fs1 of
                         (rc2, fs2, out2, err2) \<Rightarrow> res (if rc2 \<noteq> 0 then 1 else 0) cfg fs2 (out1 @ out2) (err1 @ err2))))"

definition cmd_config :: "cfg_env \<Rightarrow> string list \<Rightarrow> config \<Rightarrow> files \<Rightarrow> cfg_res" where
  "cmd_config env argv cfg fs =
     (if length argv \<ge> 2 \<and> is_help (argv ! 1) then res 0 cfg fs config_usage []
      else if length argv = 1 then res 0 cfg fs (config_print cfg) []
      else if argv ! 1 = ''show'' then
        (if length argv \<noteq> 2 then res 1 cfg fs [] config_usage else res 0 cfg fs (config_print cfg) [])
      else if argv ! 1 = ''path'' then
        (if length argv \<noteq> 2 then res 1 cfg fs [] config_usage else res 0 cfg fs (config_print_paths env) [])
      else if argv ! 1 = ''set'' then
        (if length argv \<noteq> 4 then res 1 cfg fs [] (''usage: lgmagic config set KEY VALUE'' @ nl)
         else config_set env (argv ! 2) (argv ! 3) cfg fs)
      else if argv ! 1 = ''migrate'' then
        (if length argv > 3 then res 1 cfg fs [] (''usage: lgmagic config migrate [FILE]'' @ nl)
         else if length argv = 3 then
           (case migrate_one env (argv ! 2) fs of (rc, fs', out, err) \<Rightarrow> res rc cfg fs' out err)
         else config_migrate env cfg fs)
      else res 1 cfg fs [] (''lgmagic config: unknown argument '' @ squote (argv ! 1) @ nl @ nl @ config_usage))"

section \<open>Setting a key\<close>

lemma user_path: "length home < 4000 \<Longrightarrow> take 4108 (path_buf (home @ ''/.config/lgmagic'') @ ''/config.toml'') =
    path_buf (home @ ''/.config/lgmagic'' @ ''/config.toml'')"
  by (simp add: path_buf_def)

lemma config_save_user_writes:
  assumes "config_save_user env cfg errsz fs = (None, fs')" and "cc_home env = Some home" and "length home < 4000"
  shows "\<exists>text. config_save_text cfg = Some text \<and> fs' = fs(path_buf (home @ ''/.config/lgmagic'' @ ''/config.toml'') \<mapsto> text)"
  using assms(1,2) user_path [OF assms(3)]
  by (auto simp: config_save_user_def Let_def split: option.splits out_res.splits)


definition sample_cfg_env :: cfg_env where
  "sample_cfg_env = \<lparr>cc_stat = (\<lambda>_. None), cc_read = (\<lambda>_. None), cc_write = (\<lambda>_. OutDone), cc_mkdir = (\<lambda>_. None),
     cc_home = Some ''/home/u'', cc_root = None\<rparr>"


section \<open>Migrating\<close>

text \<open>The migration touches no file but the new one, never replaces an existing one, and keeps the source.\<close>

lemma migrate_one_safe:
  assumes "migrate_one env json_path fs = (rc, fs', out, err)"
  shows "p \<noteq> toml_twin json_path \<Longrightarrow> fs' p = fs p" and "fs (toml_twin json_path) \<noteq> None \<Longrightarrow> cc_stat env (toml_twin json_path) = None \<Longrightarrow> fs' = fs"
  using assms
  by (auto simp: migrate_one_def migrate_write_def Let_def split: if_splits option.splits presult.splits out_res.splits)

text \<open>What the JSON file says, key by key: a string for a string key, a number for a numeric one.\<close>

definition json_abs :: "json_value \<Rightarrow> string \<Rightarrow> cval option" where
  "json_abs jr key = (case json_obj_get (Some jr) key of
       Some (JStr s) \<Rightarrow> if key \<in> {''imu_device'', ''hidraw_device'', ''default_calib''} then Some (CStr (str_or_null s)) else None
     | Some (JNum d) \<Rightarrow> if key \<in> {''lpf_alpha'', ''mouse_scale'', ''madgwick_beta'', ''alpha'', ''mouse_k'', ''gyro_scale_default''}
         then Some (CNum d) else None
     | _ \<Rightarrow> None)"

lemma map_of_map_filter:
  "distinct ks \<Longrightarrow> map_of (List.map_filter (\<lambda>k. map_option (Pair k) (f k)) ks) k = (if k \<in> set ks then f k else None)"
  by (induction ks) (auto simp: map_filter_simps split: option.splits)

lemma migrate_members_abs: "doc_abs (TTable (migrate_members jr)) = json_abs jr"
proof
  fix k
  have d: "distinct migrate_keys" by (simp add: migrate_keys_def)
  have "doc_abs (TTable (migrate_members jr)) k =
      Option.bind (if k \<in> set migrate_keys then Option.bind (json_obj_get (Some jr) k) migrate_value else None) (norm_val k)"
    by (simp add: doc_abs_def toml_table_get_short_def migrate_members_def map_of_map_filter [OF d])
  also have "\<dots> = json_abs jr k"
  proof (cases "k \<in> set migrate_keys")
    case True
    then show ?thesis
      unfolding migrate_keys_def list.set
      by (elim insertE emptyE)
        (simp_all add: json_abs_def migrate_keys_def migrate_value_def norm_val_def is_str_bit_def split: option.split json_value.split)
  next
    case False
    then show ?thesis by (auto simp: json_abs_def migrate_keys_def split: option.split json_value.split)
  qed
  finally show "doc_abs (TTable (migrate_members jr)) k = json_abs jr k" .
qed

lemma migrate_value_scalar: "migrate_value j = Some v \<Longrightarrow> \<not> is_table v"
  by (auto simp: migrate_value_def split: json_value.splits)

lemma migrate_scalars: "list_all (\<lambda>(k, v). \<not> is_table v) (migrate_members jr)"
  by (auto simp: migrate_members_def list_all_iff List.map_filter_def bind_eq_Some_conv dest: migrate_value_scalar)

lemma json_not_twin:
  assumes "5 \<le> length json_path" and "drop (length json_path - 5) json_path = ''.json''"
  shows "json_path \<noteq> toml_twin json_path"
proof
  assume "json_path = toml_twin json_path"
  then have "last json_path = CHR ''l''" by (metis last_appendR last.simps list.distinct(1) toml_twin_def)
  moreover have "last json_path = last ''.json''" using assms by (metis last_drop diff_less length_greater_0_conv le_zero_eq not_numeral_le_zero zero_less_numeral list.size(3))
  ultimately show False by simp
qed



end
