(* ===== verification/Setup.thy ===== *)
theory Setup
  imports Cmd_Calib Cmd_Config Hidraw Uinput Airmouse
begin

text \<open>
  \<^verbatim>\<open>lgmagic setup\<close>, the configuration and calibration wizard: \<^verbatim>\<open>tools/src/cmd_setup.c\<close>. The state of the wizard is its
  two flags, the standard input, what the IMU node delivers, the files it has written, the shell commands it has run
  and the configuration; \<open>setup_env\<close> holds the outcome of every system call. What it prints is not modelled. A step that
  waits forever for the device yields \<^const>\<open>None\<close>.
\<close>

unbundle bit_operations_syntax

record wizard =
  non_interactive :: bool
  stdin_closed :: bool
  wz_in :: string
  g_stop :: bool
  wz_reads :: "read_res list"
  wz_recs :: nat                  \<comment> \<open>recordings made so far\<close>
  wz_files :: files
  wz_cmds :: "string list"
  wz_calls :: "(string \<times> call_res option) list"   \<comment> \<open>calls to the daemon; \<^const>\<open>None\<close>: no connection\<close>
  wz_cfg :: config

record setup_env =
  se_euid :: int
  se_access :: "string \<Rightarrow> bool"
  se_shell :: shell
  se_system :: "string \<Rightarrow> int"
  se_nodes :: "nat \<Rightarrow> input_nodes \<times> (string + string list)"   \<comment> \<open>the event nodes at each search\<close>
  se_dev :: evdev_imu                                        \<comment> \<open>the structure before it is filled\<close>
  se_hidraw :: "hid_node list option"
  se_sysfs :: "string \<Rightarrow> string option"
  se_mkdir :: "string \<Rightarrow> string option"
  se_write :: "string \<Rightarrow> out_res"
  se_clock :: "nat \<Rightarrow> nat \<Rightarrow> cdouble"        \<comment> \<open>seconds from the first frame of a recording to the given frame\<close>
  se_signal :: "nat \<Rightarrow> bool"                 \<comment> \<open>a signal came before the check with this number\<close>
  se_conn :: conn_env
  se_dmesg :: "nat \<Rightarrow> string option"
  se_uinput :: uinput_env
  se_am :: airmouse
  se_home :: "string option"
  se_sudo_user :: "string option"
  se_passwd :: "string \<Rightarrow> string option"       \<comment> \<open>the home directory of a user\<close>

definition ACCEL_SECONDS :: cdouble where "ACCEL_SECONDS = dlit 60 1"
definition GYRO_SECONDS :: cdouble where "GYRO_SECONDS = dlit 30 1"
definition GYRO_SKIP_SECONDS :: cdouble where "GYRO_SKIP_SECONDS = dlit 3 1"
definition MOUSE_TEST_SECONDS :: cdouble where "MOUSE_TEST_SECONDS = dlit 8 1"
definition GOOD_RMS :: cdouble where "GOOD_RMS = dlit 2 10"
definition GOOD_SPREAD :: cdouble where "GOOD_SPREAD = dlit 15 100"
definition GYRO_STD_WARN :: cdouble where "GYRO_STD_WARN = dlit 100 1"
definition MODULE_NAME :: string where "MODULE_NAME = ''lgmagic''"
definition CALIB_JSON :: string where "CALIB_JSON = ''/etc/lgmagic/calib.json''"
definition FW_DIR :: string where "FW_DIR = ''/lib/firmware''"
definition FW_GENERIC :: string where "FW_GENERIC = ''lgmagic_calib.bin''"
definition STATE_DIR :: string where "STATE_DIR = ''/var/lib/lgmagic''"
definition DEVICES_D_DIR :: string where "DEVICES_D_DIR = ''/etc/lgmagic/devices.d''"

section \<open>Questions\<close>

definition trimnl :: "string \<Rightarrow> string" where
  "trimnl s = rev (dropWhile (\<lambda>c. c = CHR 0x0A \<or> c = CHR 0x0D) (rev s))"

definition ask :: "string \<Rightarrow> nat \<Rightarrow> wizard \<Rightarrow> string \<times> wizard" where
  "ask def bufsz w =
     (if non_interactive w \<or> stdin_closed w then (buf_str bufsz def, w)
      else case fgets bufsz (wz_in w) of
             None \<Rightarrow> (buf_str bufsz def, w\<lparr>stdin_closed := True\<rparr>)
           | Some (line, rest) \<Rightarrow>
               (let b = trimnl line in (if b = [] then buf_str bufsz def else b, w\<lparr>wz_in := rest\<rparr>)))"

definition ask_yn :: "bool \<Rightarrow> wizard \<Rightarrow> bool \<times> wizard" where
  "ask_yn def w = (case ask (if def then ''y'' else ''n'') 64 w of
     (b, w') \<Rightarrow> (b \<noteq> [] \<and> (hd b = CHR ''y'' \<or> hd b = CHR ''Y''), w'))"

definition ask_number :: "cdouble \<Rightarrow> cdouble \<Rightarrow> cdouble \<Rightarrow> wizard \<Rightarrow> cdouble \<times> wizard" where
  "ask_number def lo hi w = (case ask (buf_str 64 (fmt_g 4 def)) 64 w of
     (b, w') \<Rightarrow> (let v = fst (strtod b) in (if dlt v lo \<or> dgt v hi then def else v, w')))"

section \<open>Recording\<close>

fun vec_of_ints :: "int \<times> int \<times> int \<Rightarrow> vec3" where
  "vec_of_ints (x, y, z) = (of_int_d x, of_int_d y, of_int_d z)"

definition sample_of :: "evdev_frame \<Rightarrow> imu_sample" where
  "sample_of f = \<lparr>s_counter = fr_counter f, s_dt = fr_dt f, s_accel = vlist (vec_of_ints (fr_accel f)),
     s_gyro = vlist (vec_of_ints (fr_gyro f))\<rparr>"

lemma read_frame_shorter: "read_frame_loop rs s = Some (rv, e, s', rs') \<Longrightarrow> length rs' < length rs"
  by (induction rs s rule: read_frame_loop.induct) (auto split: if_splits)

text \<open>The samples, or \<^const>\<open>None\<close> for an error; with the value of \<open>g_stop\<close>, the device and the reads after it.\<close>

function record_loop ::
  "(nat \<Rightarrow> cdouble) \<Rightarrow> cdouble \<Rightarrow> bool \<Rightarrow> read_res list \<Rightarrow> evdev_imu \<Rightarrow> imu_sample list \<Rightarrow>
   (imu_sample list option \<times> bool \<times> evdev_imu \<times> read_res list) option" where
  "record_loop clk seconds stop rs dev s = (case evdev_read_frame_ext rs dev of
       None \<Rightarrow> None
     | Some (rv, e, (d, f), rs') \<Rightarrow>
         if rv < 0 then (let stop' = (stop \<or> e = None) in Some (if stop' then Some s else None, stop', d, rs'))
         else if rv = 0 then Some (Some s, stop, d, rs')
         else let s' = s @ [sample_of f]
              in if dle seconds (clk (length s')) then Some (Some s', stop, d, rs')
                 else record_loop clk seconds stop rs' d s')"
  by auto
termination
  by (relation "measure (\<lambda>(clk, seconds, stop, rs, dev, s). length rs)") (auto simp: evdev_read_frame_ext_def dest!: read_frame_shorter)

declare record_loop.simps [simp del]

definition record_samples ::
  "setup_env \<Rightarrow> cdouble \<Rightarrow> evdev_imu \<Rightarrow> wizard \<Rightarrow> (imu_sample list option \<times> evdev_imu \<times> wizard) option" where
  "record_samples env seconds dev w =
     map_option (\<lambda>(s, stop, d, rs). (s, d, w\<lparr>g_stop := stop, wz_reads := rs, wz_recs := wz_recs w + 1\<rparr>))
       (record_loop (se_clock env (wz_recs w)) seconds (g_stop w) (wz_reads w) dev [])"

section \<open>Steps 1 to 3\<close>

definition run_shell :: "string option \<times> string list \<Rightarrow> wizard \<Rightarrow> string option \<times> wizard" where
  "run_shell r w = (fst r, w\<lparr>wz_cmds := wz_cmds w @ snd r\<rparr>)"

definition find_imu :: "setup_env \<Rightarrow> nat \<Rightarrow> evdev_imu \<Rightarrow> wizard \<Rightarrow> string option \<times> evdev_imu" where
  "find_imu env i dev w = evdev_find_imu (fst (se_nodes env i)) (snd (se_nodes env i)) (imu_device (wz_cfg w)) dev"

text \<open>The path of the remote's hidraw node; the device is opened to see that it is there.\<close>

definition step_environment :: "setup_env \<Rightarrow> wizard \<Rightarrow> (string option \<times> evdev_imu) \<times> wizard" where
  "step_environment env w =
     (if se_euid env \<noteq> 0 then ((None, se_dev env), w)
      else let w1 = (if \<not> module_is_loaded (se_access env) MODULE_NAME
                     then snd (run_shell (module_load (se_shell env) MODULE_NAME 256) w) else w)
           in case find_imu env 0 (se_dev env) w1 of
                (Some e, dev) \<Rightarrow> ((None, dev), w1)
              | (None, dev) \<Rightarrow>
                  (case hidraw_device (wz_cfg w1) of
                     Some p \<Rightarrow> ((Some (buf_str 256 p), evdev_close dev), w1)
                   | None \<Rightarrow>
                       (case hidraw_find_remote 256 (se_hidraw env) of
                          Inl e \<Rightarrow> ((None, evdev_close dev), w1)
                        | Inr p \<Rightarrow> ((Some p, evdev_close dev), w1))))"

definition sanitize_mac :: "string \<Rightarrow> nat \<Rightarrow> string option" where
  "sanitize_mac uniq outsz =
     (if length uniq + 1 > outsz then None else Some (map (\<lambda>c. if c = CHR '':'' then CHR ''_'' else c) uniq))"

definition ask_mode :: "wizard \<Rightarrow> bool \<times> wizard" where
  "ask_mode w = (if non_interactive w then (True, w) else ask_yn True w)"

definition module_params_text :: "bool \<Rightarrow> string" where
  "module_params_text daemon_mode = (if daemon_mode then ''raw_only=1 imu_evdev=1'' else ''raw_only=0 airmouse=1 imu_evdev=1'')"

definition enable_daemon :: string where
  "enable_daemon = ''systemctl enable --now lgmagicd >/dev/null 2>&1''"

definition step_module_params :: "setup_env \<Rightarrow> bool \<Rightarrow> wizard \<Rightarrow> wizard" where
  "step_module_params env daemon_mode w =
     (case module_write_conf (se_mkdir env) (se_write env) MODULE_NAME (module_params_text daemon_mode) 256 (wz_files w) of
        (Some e, fs) \<Rightarrow> w\<lparr>wz_files := fs\<rparr>
      | (None, fs) \<Rightarrow>
          (let w1 = snd (run_shell (module_reload (se_shell env) MODULE_NAME 256) (w\<lparr>wz_files := fs\<rparr>))
           in if daemon_mode \<and> se_access env ''/usr/bin/systemctl'' then w1\<lparr>wz_cmds := wz_cmds w1 @ [enable_daemon]\<rparr> else w1))"

section \<open>Steps 4 and 5: calibration\<close>

definition axis_range :: "imu_sample list \<Rightarrow> nat \<Rightarrow> cdouble" where
  "axis_range s j =
     (let mn = foldl (\<lambda>m x. if dlt (s_accel x ! j) m then s_accel x ! j else m) (dlit (10 ^ 30) 1) s;
          mx = foldl (\<lambda>m x. if dgt (s_accel x ! j) m then s_accel x ! j else m) (dneg (dlit (10 ^ 30) 1)) s
      in dsub mx mn)"

definition sample_norm :: "imu_sample \<Rightarrow> cdouble" where
  "sample_norm x = dsqrt (foldl (\<lambda>n j. dadd n (dmul (s_accel x ! j) (s_accel x ! j))) d0 [0, 1, 2])"

definition accel_spread :: "imu_sample list \<Rightarrow> cdouble" where
  "accel_spread s =
     (let maxnorm = foldl (\<lambda>m x. if dgt (sample_norm x) m then sample_norm x else m) d0 s;
          best = foldl (\<lambda>b j. if dgt (axis_range s j) b then axis_range s j else b) d0 [0, 1, 2]
      in if dgt maxnorm (dlit 1 1) then ddiv best maxnorm else d0)"

definition save_csv :: "setup_env \<Rightarrow> string \<Rightarrow> imu_sample list \<Rightarrow> wizard \<Rightarrow> wizard" where
  "save_csv env path s w =
     w\<lparr>wz_files := write_out (se_write env path) path (csv_header @ concat (map csv_line s)) (wz_files w)\<rparr>"

text \<open>The question after a bad recording; at the end of the input it is not asked.\<close>

definition ask_again :: "wizard \<Rightarrow> bool \<times> wizard" where
  "ask_again w = (if stdin_closed w then (False, w) else ask_yn True w)"

fun accel_attempts ::
  "setup_env \<Rightarrow> string \<Rightarrow> nat \<Rightarrow> evdev_imu \<Rightarrow> calib \<Rightarrow> wizard \<Rightarrow> (int \<times> calib \<times> evdev_imu \<times> wizard) option" where
  "accel_attempts env path 0 dev c w = Some (0, c, dev, w)"
| "accel_attempts env path (Suc n) dev c w =
     (case record_samples env ACCEL_SECONDS dev (snd (ask_yn True w)) of
        None \<Rightarrow> None
      | Some (None, d, w1) \<Rightarrow> Some (- 1, c, d, w1)
      | Some (Some s, d, w1) \<Rightarrow>
          if g_stop w1 then Some (- 1, c, d, w1)
          else if length s < 6 then
            (case ask_again w1 of
               (False, w2) \<Rightarrow> Some (- 1, c, d, w2)
             | (True, w2) \<Rightarrow> accel_attempts env path n d c w2)
          else
            (case lm_fit_accel (map s_accel s) of
               None \<Rightarrow> None
             | Some (bias, mat, cost) \<Rightarrow>
                 let w2 = save_csv env path s w1;
                     c' = c\<lparr>accel_bias := bias, accel_matrix := mat\<rparr>
                 in if dle (dsqrt cost) GOOD_RMS \<and> dle GOOD_SPREAD (accel_spread s) then Some (0, c', d, w2)
                    else case ask_again w2 of
                           (False, w3) \<Rightarrow> Some (0, c', d, w3)
                         | (True, w3) \<Rightarrow> accel_attempts env path n d c' w3))"

definition step_accel_calib :: "setup_env \<Rightarrow> evdev_imu \<Rightarrow> calib \<Rightarrow> string \<Rightarrow> wizard \<Rightarrow> (int \<times> calib \<times> evdev_imu \<times> wizard) option" where
  "step_accel_calib env dev c rec_dir w = accel_attempts env (buf_str 160 (rec_dir @ ''/calib_accel.csv'')) 3 dev c w"

text \<open>The first sample after the skipped time; 0 when the recording is shorter.\<close>

fun skip_index :: "cdouble \<Rightarrow> 32 word list \<Rightarrow> 32 word \<Rightarrow> cdouble \<Rightarrow> nat \<Rightarrow> nat option" where
  "skip_index skip [] prev acc i = None"
| "skip_index skip (k # ks) prev acc i =
     (let acc' = dadd acc (of_int_d (uint ((k - prev) AND 0xffff)))
      in if dle skip acc' then Some i else skip_index skip ks k acc' (i + 1))"

definition gyro_first :: "imu_sample list \<Rightarrow> nat" where
  "gyro_first s = (case skip_index (dmul GYRO_SKIP_SECONDS (dlit 12800 1)) (map s_counter s) (s_counter (hd s)) d0 0 of
     Some i \<Rightarrow> i | None \<Rightarrow> 0)"

definition gyro_std :: "imu_sample list \<Rightarrow> nat \<Rightarrow> cdouble \<Rightarrow> cdouble" where
  "gyro_std s j bias =
     dsqrt (ddiv (foldl (\<lambda>acc x. dadd acc (dmul (dsub (s_gyro x ! j) bias) (dsub (s_gyro x ! j) bias))) d0 s) (of_int_d (int (length s))))"

fun gyro_attempts ::
  "setup_env \<Rightarrow> string \<Rightarrow> nat \<Rightarrow> evdev_imu \<Rightarrow> calib \<Rightarrow> wizard \<Rightarrow> (int \<times> calib \<times> evdev_imu \<times> wizard) option" where
  "gyro_attempts env path 0 dev c w = Some (0, c, dev, w)"
| "gyro_attempts env path (Suc n) dev c w =
     (case record_samples env GYRO_SECONDS dev (snd (ask_yn True w)) of
        None \<Rightarrow> None
      | Some (None, d, w1) \<Rightarrow> Some (- 1, c, d, w1)
      | Some (Some s, d, w1) \<Rightarrow>
          if g_stop w1 \<or> s = [] then Some (- 1, c, d, w1)
          else
            let w2 = save_csv env path s w1;
                t = drop (gyro_first s) s;
                bias = map (gyro_mean t) [0, 1, 2];
                c' = c\<lparr>gyro_bias := bias\<rparr>
            in if \<not> list_ex (\<lambda>j. dgt (gyro_std t j (bias ! j)) GYRO_STD_WARN) [0, 1, 2] then Some (0, c', d, w2)
               else case ask_again w2 of
                      (False, w3) \<Rightarrow> Some (0, c', d, w3)
                    | (True, w3) \<Rightarrow> gyro_attempts env path n d c' w3)"

definition step_gyro_calib :: "setup_env \<Rightarrow> evdev_imu \<Rightarrow> calib \<Rightarrow> string \<Rightarrow> wizard \<Rightarrow> (int \<times> calib \<times> evdev_imu \<times> wizard) option" where
  "step_gyro_calib env dev c rec_dir w = gyro_attempts env (buf_str 160 (rec_dir @ ''/calib_gyro.csv'')) 3 dev c w"

section \<open>Steps 6 and 7: tuning and the firmware blob\<close>

definition ask_tuning :: "calib \<Rightarrow> cdouble \<Rightarrow> cdouble \<Rightarrow> wizard \<Rightarrow> (calib \<times> cdouble \<times> cdouble) \<times> wizard" where
  "ask_tuning c alpha k w =
     (case ask_number (gyro_scale_default (wz_cfg w)) (dlit 1 1000) (dlit 10 1) w of
        (sc, w1) \<Rightarrow>
          (case ask_number alpha d0 (dlit 1 1) w1 of
             (alpha', w2) \<Rightarrow>
               (case ask_number k d0 (dlit 1 1) w2 of
                  (k', w3) \<Rightarrow> ((c\<lparr>gyro_scale := [sc, sc, sc]\<rparr>, alpha', k'), w3))))"

definition write_blob_file :: "setup_env \<Rightarrow> string \<Rightarrow> string \<Rightarrow> wizard \<Rightarrow> bool \<times> wizard" where
  "write_blob_file env name blob w =
     (let path = buf_str 256 (FW_DIR @ ''/'' @ name)
      in (se_write env path = OutDone, w\<lparr>wz_files := write_out (se_write env path) path blob (wz_files w)\<rparr>))"

definition step_blob :: "setup_env \<Rightarrow> calib \<Rightarrow> cdouble \<Rightarrow> cdouble \<Rightarrow> string \<Rightarrow> wizard \<Rightarrow> int \<times> wizard" where
  "step_blob env c alpha k uniq w =
     (if se_mkdir env FW_DIR \<noteq> None then (- 1, w)
      else let blob = calib2bin_blob c alpha k;
               generic = (\<lambda>w. case write_blob_file env FW_GENERIC blob w of (ok, w') \<Rightarrow> (if ok then 0 else - 1, w'))
           in if length uniq = 17 then
                (case sanitize_mac uniq 18 of
                   None \<Rightarrow> (- 1, w)
                 | Some mac \<Rightarrow>
                     (case write_blob_file env (buf_str 128 (''lgmagic_calib_'' @ mac @ ''.bin'')) blob w of
                        (False, w1) \<Rightarrow> (- 1, w1)
                      | (True, w1) \<Rightarrow> generic w1))
              else generic w)"

section \<open>Step 8: the state of the daemon\<close>

definition dir_of :: "string \<Rightarrow> nat \<Rightarrow> string" where
  "dir_of path outsz =
     (if CHR ''/'' \<notin> set path then buf_str outsz ''.''
      else let n = length path - length (after_last_slash path) - 1
           in if n = 0 then buf_str outsz ''/'' else take (outsz - 1) (take n path))"

definition setup_mkdir_p :: "(string \<Rightarrow> string option) \<Rightarrow> string \<Rightarrow> bool" where
  "setup_mkdir_p mk dir =
     (let t = buf_str 128 dir
      in list_all (\<lambda>p. mk p = None) (map (\<lambda>i. take i t) (filter (\<lambda>i. t ! i = CHR ''/'') [1..<length t]) @ [t]))"

definition device_toml :: "string \<Rightarrow> bool \<Rightarrow> string" where
  "device_toml calib_path daemon_mode =
     ''# Written by '' @ squote ''lgmagic setup'' @ ''.'' @ nl @
     ''profile = '' @ [CHR 0x22] @ ''default'' @ [CHR 0x22] @ nl @
     ''calib = '' @ [CHR 0x22] @ calib_path @ [CHR 0x22] @ nl @
     ''airmouse = '' @ (if daemon_mode then ''true'' else ''false'') @ nl"

text \<open>A call without arguments; \<^const>\<open>None\<close>: undefined behaviour of the client.\<close>

definition bus_query :: "setup_env \<Rightarrow> string \<Rightarrow> wizard \<Rightarrow> (call_res option \<times> wizard) option" where
  "bus_query env method w = (case dbus_connect (se_conn env) None of
       None \<Rightarrow> None
     | Some (Some e, c) \<Rightarrow> Some (None, w\<lparr>wz_calls := wz_calls w @ [(method, None)]\<rparr>)
     | Some (None, c) \<Rightarrow>
         map_option (\<lambda>(r, c'). (Some r, w\<lparr>wz_calls := wz_calls w @ [(method, Some r)]\<rparr>)) (dbus_call method [] None c))"

definition write_device_toml :: "setup_env \<Rightarrow> bool \<Rightarrow> string \<Rightarrow> string \<Rightarrow> wizard \<Rightarrow> int \<times> wizard" where
  "write_device_toml env daemon_mode calib_path toml_path w =
     (if toml_path = [] then (0, w)
      else if se_mkdir env DEVICES_D_DIR \<noteq> None then (- 1, w)
      else (if se_write env toml_path = OutDone then 0 else - 1,
            w\<lparr>wz_files := write_out (se_write env toml_path) toml_path (device_toml calib_path daemon_mode) (wz_files w)\<rparr>))"

definition step_daemon_state ::
  "setup_env \<Rightarrow> calib \<Rightarrow> bool \<Rightarrow> string \<Rightarrow> string \<Rightarrow> wizard \<Rightarrow> (int \<times> wizard) option" where
  "step_daemon_state env c daemon_mode calib_path toml_path w =
     (let path = buf_str 128 calib_path;
          dir = (if CHR ''/'' \<in> set path then take (length path - length (after_last_slash path) - 1) path else path)
      in if se_mkdir env STATE_DIR \<noteq> None \<or> se_mkdir env dir \<noteq> None then Some (- 1, w)
         else case save_calib (se_write env) c calib_path (wz_files w) of
                (rc, fs) \<Rightarrow>
                  if rc < 0 then Some (- 1, w\<lparr>wz_files := fs\<rparr>)
                  else case write_device_toml env daemon_mode calib_path toml_path (w\<lparr>wz_files := fs\<rparr>) of
                         (rc, w1) \<Rightarrow>
                           if rc < 0 then Some (- 1, w1)
                           else if daemon_mode then map_option (\<lambda>(r, w2). (0, w2)) (bus_query env ''Reload'' w1)
                           else Some (0, w1))"

section \<open>Steps 9 to 11\<close>

fun dmesg_poll :: "setup_env \<Rightarrow> nat list \<Rightarrow> int \<Rightarrow> int" where
  "dmesg_poll env [] rc = rc"
| "dmesg_poll env (i # is) rc =
     (let rc' = dmesg_contains (se_dmesg env i) ''Loading LG Magic calibration'' in if rc' = 1 then 1 else dmesg_poll env is rc')"

text \<open>The result of the search of the kernel log, \<open>- 2\<close> when the module could not be reloaded.\<close>

definition step_reload_verify :: "setup_env \<Rightarrow> wizard \<Rightarrow> int \<times> wizard" where
  "step_reload_verify env w = (case run_shell (module_reload (se_shell env) MODULE_NAME 256) w of
       (Some e, w1) \<Rightarrow> (- 2, w1)
     | (None, w1) \<Rightarrow> (dmesg_poll env [0..<20] (- 2), w1))"

text \<open>The movements sent to the virtual mouse, \<open>g_stop\<close>, the device and the reads after the test.\<close>

function mouse_loop ::
  "(nat \<Rightarrow> cdouble) \<Rightarrow> calib \<Rightarrow> nat \<Rightarrow> airmouse \<Rightarrow> evdev_imu \<Rightarrow> read_res list \<Rightarrow> (int \<times> int) list \<Rightarrow>
   ((int \<times> int) list \<times> bool \<times> evdev_imu \<times> read_res list) option" where
  "mouse_loop clk c n am dev rs moves = (case evdev_read_frame_ext rs dev of
       None \<Rightarrow> None
     | Some (rv, e, (d, f), rs') \<Rightarrow>
         if rv \<le> 0 then Some (moves, rv < 0 \<and> e = None, d, rs')
         else if dle MOUSE_TEST_SECONDS (clk (n + 1)) then Some (moves, False, d, rs')
         else (case calib_apply c (vec_of_ints (fr_accel f)) (vec_of_ints (fr_gyro f)) of
                 (a_corr, g_corr) \<Rightarrow>
                   (case airmouse_process am g_corr (vec_of_ints (fr_accel f)) of
                      (am', filt, Some dx, Some dy) \<Rightarrow> mouse_loop clk c (n + 1) am' d rs' (moves @ [(dx, dy)])
                    | _ \<Rightarrow> None)))"
  by pat_completeness auto
termination
  by (relation "measure (\<lambda>(clk, c, n, am, dev, rs, moves). length rs)") (auto simp: evdev_read_frame_ext_def dest!: read_frame_shorter)

declare mouse_loop.simps [simp del]

definition mouse_test :: "setup_env \<Rightarrow> evdev_imu \<Rightarrow> calib \<Rightarrow> wizard \<Rightarrow> ((int \<times> int) list \<times> evdev_imu \<times> wizard) option" where
  "mouse_test env dev c w = (case find_imu env 2 (evdev_close dev) w of
       (Some e, d) \<Rightarrow> Some ([], d, w)
     | (None, d) \<Rightarrow>
         (case fst (uinput_open (se_uinput env)) of
            Inl e \<Rightarrow> Some ([], evdev_close d, w)
          | Inr fd \<Rightarrow>
              (let cfg = wz_cfg w;
                   am = airmouse_gate_cfg (airmouse_init (se_am env) (cf_lpf_alpha cfg) (mouse_scale cfg)) (accel_gate cfg)
                          (accel_gate_lo cfg) (accel_gate_hi cfg)
               in map_option (\<lambda>(moves, stop, d', rs). (moves, d', w\<lparr>g_stop := stop, wz_reads := rs, wz_recs := wz_recs w + 1\<rparr>))
                    (mouse_loop (se_clock env (wz_recs w)) c 0 am d (wz_reads w) []))))"

definition step_mouse_test ::
  "setup_env \<Rightarrow> evdev_imu \<Rightarrow> calib \<Rightarrow> bool \<Rightarrow> wizard \<Rightarrow> ((int \<times> int) list \<times> evdev_imu \<times> wizard) option" where
  "step_mouse_test env dev c daemon_mode w =
     (let standalone = (\<lambda>w. case ask_yn True w of (yes, w1) \<Rightarrow> if yes then mouse_test env dev c w1 else Some ([], dev, w1))
      in if non_interactive w then Some ([], dev, w)
         else if daemon_mode then
           (case bus_query env ''ListDevices'' w of
              None \<Rightarrow> None
            | Some (Some (CallOk v), w1) \<Rightarrow> Some ([], dev, w1)
            | Some (r, w1) \<Rightarrow> standalone w1)
         else standalone w)"

text \<open>Under \<^verbatim>\<open>sudo\<close> the file goes to the home of the calling user.\<close>

definition step_save_user_config :: "setup_env \<Rightarrow> cdouble \<Rightarrow> cdouble \<Rightarrow> string \<Rightarrow> wizard \<Rightarrow> wizard" where
  "step_save_user_config env alpha k calib_path w =
     (let cfg1 = snd (config_set_key (wz_cfg w) ''default_calib'' calib_path);
          cfg2 = snd (config_set_key cfg1 ''alpha'' (buf_str 64 (fmt_g 4 alpha)));
          cfg3 = snd (config_set_key cfg2 ''mouse_k'' (buf_str 64 (fmt_g 4 k)));
          home = (case Option.bind (se_sudo_user env) (se_passwd env) of Some h \<Rightarrow> Some h | None \<Rightarrow> se_home env);
          cenv = \<lparr>cc_stat = (\<lambda>_. None), cc_read = (\<lambda>_. None), cc_write = se_write env, cc_mkdir = se_mkdir env,
                  cc_home = home, cc_root = None\<rparr>
      in w\<lparr>wz_cfg := cfg3, wz_files := snd (config_save_user cenv cfg3 256 (wz_files w))\<rparr>)"

section \<open>The wizard\<close>

text \<open>The calibration file and the device file of a remote.\<close>

definition setup_paths :: "bool \<Rightarrow> string \<Rightarrow> string \<times> string" where
  "setup_paths daemon_mode uniq = (case (if length uniq = 17 then sanitize_mac uniq 18 else None) of
       Some mac \<Rightarrow>
         (buf_str 128 (buf_str 64 (STATE_DIR @ ''/'' @ mac) @ ''/calibration.json''), buf_str 128 (DEVICES_D_DIR @ ''/'' @ mac @ ''.toml''))
     | None \<Rightarrow> (if daemon_mode then STATE_DIR @ ''/unknown/calibration.json'' else CALIB_JSON, []))"

fun setup_args :: "string list \<Rightarrow> bool \<Rightarrow> bool + int" where
  "setup_args [] ni = Inl ni"
| "setup_args (a # as) ni =
     (if a = ''--non-interactive'' then setup_args as True
      else if is_help a then Inr 0 else Inr 1)"

definition interrupted :: "setup_env \<Rightarrow> nat \<Rightarrow> wizard \<Rightarrow> bool" where
  "interrupted env i w \<longleftrightarrow> g_stop w \<or> se_signal env i"

text \<open>From the calibration on.\<close>

definition setup_finish ::
  "setup_env \<Rightarrow> evdev_imu \<Rightarrow> calib \<Rightarrow> bool \<Rightarrow> string \<Rightarrow> string \<Rightarrow> string \<Rightarrow> wizard \<Rightarrow> (int \<times> wizard) option" where
  "setup_finish env dev c daemon_mode uniq calib_path toml_path w =
     (case ask_tuning c (cf_alpha (wz_cfg w)) (mouse_k (wz_cfg w)) w of
        ((c1, alpha, k), w1) \<Rightarrow>
          (case (if daemon_mode then (0, w1) else step_blob env c1 alpha k uniq w1) of
             (rc, w2) \<Rightarrow>
               if rc < 0 then Some (1, w2)
               else case step_daemon_state env c1 daemon_mode calib_path toml_path w2 of
                      None \<Rightarrow> None
                    | Some (rc, w3) \<Rightarrow>
                        if rc < 0 then Some (1, w3)
                        else case step_mouse_test env dev c1 daemon_mode (snd (step_reload_verify env w3)) of
                               None \<Rightarrow> None
                             | Some (moves, d, w4) \<Rightarrow> Some (0, step_save_user_config env alpha k calib_path w4)))"

definition setup_calibrate ::
  "setup_env \<Rightarrow> evdev_imu \<Rightarrow> bool \<Rightarrow> string \<Rightarrow> wizard \<Rightarrow> (int \<times> wizard) option" where
  "setup_calibrate env dev daemon_mode uniq w = (case setup_paths daemon_mode uniq of
       (calib_path, toml_path) \<Rightarrow>
         (let rec_dir = dir_of calib_path 128
          in if \<not> setup_mkdir_p (se_mkdir env) rec_dir then Some (1, w)
             else case step_accel_calib env dev calib_init_identity rec_dir w of
                    None \<Rightarrow> None
                  | Some (rc, c, d, w1) \<Rightarrow>
                      if rc < 0 \<or> interrupted env 4 w1 then Some (1, w1)
                      else case step_gyro_calib env d c rec_dir w1 of
                             None \<Rightarrow> None
                           | Some (rc, c', d', w2) \<Rightarrow>
                               if rc < 0 \<or> interrupted env 5 w2 then Some (1, w2)
                               else setup_finish env d' c' daemon_mode uniq calib_path toml_path w2))"

definition cmd_setup :: "setup_env \<Rightarrow> string list \<Rightarrow> wizard \<Rightarrow> (int \<times> wizard) option" where
  "cmd_setup env argv w0 = (case setup_args (tl argv) (non_interactive w0) of
       Inr rc \<Rightarrow> Some (rc, w0)
     | Inl ni \<Rightarrow>
         (case step_environment env (w0\<lparr>non_interactive := ni\<rparr>) of
            ((None, dev), w) \<Rightarrow> Some (1, w)
          | ((Some hid, dev), w) \<Rightarrow>
              if interrupted env 1 w then Some (1, w)
              else case ask_mode w of
                     (daemon_mode, w1) \<Rightarrow>
                       if interrupted env 2 w1 then Some (1, w1)
                       else let w2 = step_module_params env daemon_mode w1
                            in if interrupted env 3 w2 \<or> se_mkdir env ''/etc/lgmagic'' \<noteq> None then Some (1, w2)
                               else case find_imu env 1 dev w2 of
                                      (Some e, d) \<Rightarrow> Some (1, w2)
                                    | (None, d) \<Rightarrow>
                                        setup_calibrate env d daemon_mode (snd (hidraw_get_uniq (se_sysfs env) hid 64)) w2))"

end
