(* ===== verification/Setup_Correct.thy ===== *)
theory Setup_Correct
  imports Setup Daemon_Bus_Restart Kernel_Correct
begin

text \<open>
  What the wizard leaves behind: the firmware blob the kernel driver loads, and the files of the daemon's state, which the daemon
  looks for under other names.
\<close>

section \<open>Paths\<close>

lemma sanitized:
  assumes "length uniq = 17"
  obtains mac where "sanitize_mac uniq 18 = Some mac" and "length mac = 17" and "CHR '':'' \<notin> set mac"
    and "mac = lgmagic_sanitize_mac uniq"
  using assms that by (simp add: sanitize_mac_def lgmagic_sanitize_mac_def) fastforce

lemma setup_paths_mac:
  assumes "length uniq = 17"
  shows "setup_paths dm uniq = (''/var/lib/lgmagic/'' @ lgmagic_sanitize_mac uniq @ ''/calibration.json'',
    ''/etc/lgmagic/devices.d/'' @ lgmagic_sanitize_mac uniq @ ''.toml'')"
  by (rule sanitized [OF assms]) (simp add: setup_paths_def assms buf_str_def STATE_DIR_def DEVICES_D_DIR_def)

text \<open>An identity of the daemon keeps its colons.\<close>

lemma identity_not_sanitized: "daemon_identity_valid (Some a) \<Longrightarrow> length uniq = 17 \<Longrightarrow> lgmagic_sanitize_mac uniq \<noteq> a"
proof
  assume a: "daemon_identity_valid (Some a)" "length uniq = 17" "lgmagic_sanitize_mac uniq = a"
  have l: "length (lgmagic_sanitize_mac uniq) = 17" using a(2) by (simp add: lgmagic_sanitize_mac_def)
  then have "a \<noteq> ''unknown''" using a(3) by auto
  then have c: "a ! 2 = CHR '':''" "2 < length a" using a(1) by (auto simp: daemon_identity_valid_def list_all_iff)
  have "CHR '':'' \<notin> set (lgmagic_sanitize_mac uniq)" by (auto simp: lgmagic_sanitize_mac_def)
  with c a(3) show False using nth_mem by metis
qed

section \<open>The daemon does not read the wizard's files\<close>

text \<open>What the wizard writes for the daemon.\<close>

lemma daemon_state_files:
  assumes "step_daemon_state env c dm calib_path toml_path w = Some (rc, w')"
    and "p \<noteq> calib_path" and "p \<noteq> toml_path"
  shows "wz_files w' p = wz_files w p"
proof -
  have wo: "write_out o' q t fs p = fs p" if "p \<noteq> q" for o' q t fs using that by (cases o') simp_all
  have q: "wz_files w2 = wz_files w1" if "bus_query env m w1 = Some (r, w2)" for m w1 r w2
    using that by (auto simp: bus_query_def split: option.splits prod.splits)
  have s: "snd (save_calib (se_write env) c calib_path fs) p = fs p" for fs
    using assms(2) by (simp add: save_calib_def wo split: option.split)
  have d: "wz_files (snd (write_device_toml env dm calib_path toml_path w1)) p = wz_files w1 p" for w1
    using assms(3) by (simp add: write_device_toml_def wo)
  obtain rc1 fs where sc: "save_calib (se_write env) c calib_path (wz_files w) = (rc1, fs)" by fastforce
  obtain rc2 w1 where wt: "write_device_toml env dm calib_path toml_path (w\<lparr>wz_files := fs\<rparr>) = (rc2, w1)" by fastforce
  have "w' = w \<or> w' = w\<lparr>wz_files := fs\<rparr> \<or> wz_files w' = wz_files w1"
    using assms(1) q unfolding step_daemon_state_def Let_def sc wt prod.case
    by (auto split: if_splits option.splits)
  moreover have "fs p = wz_files w p" using s [of "wz_files w"] by (simp add: sc)
  moreover have "wz_files w1 p = fs p" using d [of "w\<lparr>wz_files := fs\<rparr>"] by (simp add: wt)
  ultimately show ?thesis by auto
qed

text \<open>
  C36: the wizard's per-device files are never read: for a remote with a MAC address the wizard replaces the colons in the names of the
  device file and of the calibration file, the daemon does not, and so no remote, under any identity, is configured by what
  the wizard wrote for the daemon, and no default calibration file is among it.
\<close>

theorem wizard_state_not_read:
  assumes "length uniq = 17" and "setup_paths dm uniq = (calib_path, toml_path)"
    and "step_daemon_state env c dm calib_path toml_path w = Some (0, w')"
    and "config_root dcf = ''/etc/lgmagic''" and "state_dir dcf = ''/var/lib/lgmagic''" and "daemon_identity_valid (Some a)"
  shows "daemon_config_load_remote dcf (wz_files w') a = daemon_config_load_remote dcf (wz_files w) a \<and>
    wz_files w' (daemon_config_calib_path dcf device_config_init a 4096) =
    wz_files w (daemon_config_calib_path dcf device_config_init a 4096)"
proof -
  let ?mac = "lgmagic_sanitize_mac uniq"
  have p: "calib_path = ''/var/lib/lgmagic/'' @ ?mac @ ''/calibration.json''" "toml_path = ''/etc/lgmagic/devices.d/'' @ ?mac @ ''.toml''"
    using assms(1,2) setup_paths_mac by simp_all
  note same = daemon_state_files [OF assms(3)]
  have l: "length ?mac = 17" "?mac \<noteq> a" using assms(1,6) identity_not_sanitized by (auto simp: lgmagic_sanitize_mac_def)
  have la: "length a = 7 \<or> length a = 17" using assms(6) by (auto simp: daemon_identity_valid_def)
  have dp: "device_path dcf a = Some (''/etc/lgmagic/devices.d/'' @ a @ ''.toml'')"
    using la assms(4) by (auto simp: device_path_def path_join_def)
  have sp: "state_path dcf = Some ''/var/lib/lgmagic/state.toml''" using assms(5) by (simp add: state_path_def path_join_def)
  have cp: "daemon_config_calib_path dcf device_config_init a 4096 = ''/var/lib/lgmagic/'' @ a @ ''/calibration.json''"
    using la assms(5) by (auto simp: daemon_config_calib_path_def path_join_def device_config_init_def)
  have 1: "wz_files w' (''/etc/lgmagic/devices.d/'' @ a @ ''.toml'') = wz_files w (''/etc/lgmagic/devices.d/'' @ a @ ''.toml'')"
    using l(2) by (intro same) (auto simp: p)
  have 2: "wz_files w' ''/var/lib/lgmagic/state.toml'' = wz_files w ''/var/lib/lgmagic/state.toml''"
    using l(1) by (intro same) (auto simp: p dest!: arg_cong [where f = length])
  have 3: "wz_files w' (''/var/lib/lgmagic/'' @ a @ ''/calibration.json'') = wz_files w (''/var/lib/lgmagic/'' @ a @ ''/calibration.json'')"
    using l(2) by (intro same) (auto simp: p)
  have "daemon_config_load_remote dcf (wz_files w') a = daemon_config_load_remote dcf (wz_files w) a"
    unfolding load_remote_alt [OF dp sp] 1 state_get_cong [where fs' = "wz_files w'" and fs = "wz_files w", OF sp 2] ..
  with 3 cp show ?thesis by simp
qed

section \<open>The kernel reads the wizard's blob\<close>

text \<open>The firmware loader of the kernel on the files of the wizard.\<close>

definition firmware :: "files \<Rightarrow> string \<Rightarrow> int + 8 word list" where
  "firmware fs name = (case fs (''/lib/firmware/'' @ name) of None \<Rightarrow> Inl (- 2) | Some t \<Rightarrow> Inr (text_bytes t))"

text \<open>
  C7: in kernel mode the wizard's calibration reaches the driver: after \<open>step_blob\<close> succeeded, a probe of the remote finds the blob
  under the name it asks for, whether the remote has a MAC address or not, and the driver holds exactly the numbers the wizard
  computed, as \<^verbatim>\<open>float\<close>s, or all zeros when they are outside the range the driver accepts.
\<close>

theorem wizard_blob_reaches_kernel:
  assumes "step_blob env c alpha k uniq w = (0, w')" and "calib_finite c" and "wf_double alpha" and "wf_double k"
  defines "b \<equiv> calib_to_blob c (to_float alpha) (to_float k)"
  shows "dr_calib (probe_calib (firmware (wz_files w')) uniq d) = (if lgmagic_validate_calib b = 0 then b else zero_blob)"
proof -
  let ?blob = "calib2bin_blob c alpha k"
  have wr: "wz_files w2 = (wz_files w1)(''/lib/firmware/'' @ name \<mapsto> ?blob)"
    if "write_blob_file env name ?blob w1 = (True, w2)" "length name \<le> 200" for name w1 w2
    using that by (auto simp: write_blob_file_def Let_def FW_DIR_def buf_str_def)
  have load: "lgmagic_load_fw (firmware fs) name d = (0, d\<lparr>dr_calib := if lgmagic_validate_calib b = 0 then b else zero_blob\<rparr>)"
    if "fs (''/lib/firmware/'' @ name) = Some ?blob" for fs name
    unfolding b_def by (rule load_fw_blob) (use that assms(2-4) in \<open>simp_all add: firmware_def\<close>)
  have gen: "wz_files w2 (''/lib/firmware/lgmagic_calib.bin'') = Some ?blob \<and>
      (\<forall>p. p \<noteq> ''/lib/firmware/lgmagic_calib.bin'' \<longrightarrow> wz_files w2 p = wz_files w1 p)"
    if "(case write_blob_file env FW_GENERIC ?blob w1 of (ok, w'') \<Rightarrow> (if ok then 0 else - 1, w'')) = (0::int, w2)" for w1 w2
    using that wr [of FW_GENERIC w1 w2] by (auto simp: FW_GENERIC_def split: prod.splits if_splits)
  show ?thesis
  proof (cases "length uniq = 17")
    case True
    obtain mac where mac: "sanitize_mac uniq 18 = Some mac" "length mac = 17" "mac = lgmagic_sanitize_mac uniq"
      using sanitized [OF True] by blast
    define name where "name = ''lgmagic_calib_'' @ mac @ ''.bin''"
    have n: "buf_str 128 name = name" "length name \<le> 200" using mac(2) by (simp_all add: name_def buf_str_def)
    obtain w1 where w1: "write_blob_file env name ?blob w = (True, w1)"
      "(case write_blob_file env FW_GENERIC ?blob w1 of (ok, w'') \<Rightarrow> (if ok then 0 else - 1, w'')) = (0::int, w')"
      using assms(1) True mac(1) n(1) by (auto simp: step_blob_def Let_def name_def split: if_splits prod.splits bool.splits)
    have "''/lib/firmware/'' @ name \<noteq> ''/lib/firmware/lgmagic_calib.bin''" using mac(2) by (auto simp: name_def)
    then have "wz_files w' (''/lib/firmware/'' @ name) = Some ?blob" using gen [OF w1(2)] wr [OF w1(1) n(2)] by simp
    from load [of "wz_files w'" name, OF this] True show ?thesis by (simp add: probe_calib_def name_def mac(3))
  next
    case False
    have "(case write_blob_file env FW_GENERIC ?blob w of (ok, w'') \<Rightarrow> (if ok then 0 else - 1, w'')) = (0::int, w')"
      using assms(1) False by (simp add: step_blob_def Let_def split: if_splits)
    from gen [OF this] load [of "wz_files w'" "''lgmagic_calib.bin''"] False show ?thesis by (simp add: probe_calib_def)
  qed
qed

section \<open>Examples\<close>

text \<open>Every system call succeeds, and there is no bus.\<close>

definition sample_senv :: setup_env where
  "sample_senv = \<lparr>se_euid = 0, se_access = (\<lambda>_. False), se_shell = (\<lambda>_. PopenDone [] 0), se_system = (\<lambda>_. 0),
     se_nodes = (\<lambda>_. (\<lambda>_. Inl ''x'', Inr [])), se_dev = sample_dev, se_hidraw = None, se_sysfs = (\<lambda>_. None), se_mkdir = (\<lambda>_. None),
     se_write = (\<lambda>_. OutDone), se_clock = (\<lambda>_ _. d0), se_signal = (\<lambda>_. False),
     se_conn = \<lparr>ce_addr = None, ce_uid = 0, ce_socket = Inl ''x'', ce_connect = (\<lambda>_. None), ce_sock = \<lparr>sk_in = [], sk_wr = [], sk_out = []\<rparr>\<rparr>,
     se_dmesg = (\<lambda>_. None), se_uinput = \<lparr>ui_open = (\<lambda>_. Inl ENOENT), ui_fails = (\<lambda>_. None)\<rparr>, se_am = airmouse_zeroed,
     se_home = None, se_sudo_user = None, se_passwd = (\<lambda>_. None)\<rparr>"

definition sample_wizard :: wizard where
  "sample_wizard = \<lparr>non_interactive = True, stdin_closed = False, wz_in = [], g_stop = False, wz_reads = [REof, REof, REof], wz_recs = 0,
     wz_files = (\<lambda>_. None), wz_cmds = [], wz_calls = [], wz_cfg = set_defaults\<rparr>"

definition sample_mac :: string where
  "sample_mac = ''aa:bb:cc:dd:ee:ff''"

lemma default_bus: "dbus_connect (se_conn sample_senv) None = Some (Some ''cannot create a socket: x'', client_zero)"
proof -
  have "pick_unix_socket ''unix:path=/run/dbus/system_bus_socket'' = Some (False, ''/run/dbus/system_bus_socket'')"
    by (simp add: pick_unix_socket_def split_addr.simps)
  then show ?thesis by (simp add: dbus_connect_def sample_senv_def)
qed

theorem wizard_state_not_read_witness:
  "\<exists>w'. step_daemon_state sample_senv calib_init_identity True ''/var/lib/lgmagic/aa_bb_cc_dd_ee_ff/calibration.json''
       ''/etc/lgmagic/devices.d/aa_bb_cc_dd_ee_ff.toml'' sample_wizard = Some (0, w') \<and>
     wz_files w' ''/etc/lgmagic/devices.d/aa_bb_cc_dd_ee_ff.toml'' \<noteq> None \<and>
     daemon_config_load_remote sample_dcf (wz_files w') sample_mac = daemon_config_load_remote sample_dcf (\<lambda>_. None) sample_mac"
proof -
  let ?c = "''/var/lib/lgmagic/aa_bb_cc_dd_ee_ff/calibration.json''" and ?t = "''/etc/lgmagic/devices.d/aa_bb_cc_dd_ee_ff.toml''"
  have "calib_save_json calib_init_identity \<noteq> None" by code_simp
  then obtain js where js: "calib_save_json calib_init_identity = Some js" by blast
  have l: "length sample_mac = 17" by (simp add: sample_mac_def)
  have v: "daemon_identity_valid (Some sample_mac)" unfolding sample_mac_def by code_simp
  have p: "setup_paths True sample_mac = (?c, ?t)" unfolding sample_mac_def by code_simp
  have env: "se_mkdir sample_senv q = None" "se_write sample_senv q = OutDone" for q by (simp_all add: sample_senv_def)
  obtain w' where w: "step_daemon_state sample_senv calib_init_identity True ?c ?t sample_wizard = Some (0, w')" "wz_files w' ?t \<noteq> None"
    by (simp add: step_daemon_state_def Let_def env save_calib_def js write_device_toml_def bus_query_def default_bus)
  have d: "config_root sample_dcf = ''/etc/lgmagic''" "state_dir sample_dcf = ''/var/lib/lgmagic''" by (simp_all add: sample_dcf_def)
  from wizard_state_not_read [OF l p w(1) d v] w show ?thesis by (auto simp: sample_wizard_def)
qed

theorem wizard_blob_reaches_kernel_witness:
  "\<exists>w'. step_blob sample_senv calib_init_identity (dlit 2 10) (dlit 5 10) sample_mac sample_wizard = (0, w') \<and>
     dr_calib (probe_calib (firmware (wz_files w')) sample_mac drvdata_zero) =
       \<lparr>bl_gyro_bias = [d0, d0, d0], bl_gyro_scale = [dlit 1 1, dlit 1 1, dlit 1 1], bl_alpha = to_float (dlit 2 10), bl_mouse_k = dlit 5 10\<rparr>"
proof -
  have l: "length sample_mac = 17" by (simp add: sample_mac_def)
  have "\<exists>w'. step_blob sample_senv calib_init_identity (dlit 2 10) (dlit 5 10) sample_mac sample_wizard = (0, w')"
    by (rule sanitized [OF l]) (simp add: step_blob_def l write_blob_file_def Let_def, simp add: sample_senv_def)
  then obtain w' where w: "step_blob sample_senv calib_init_identity (dlit 2 10) (dlit 5 10) sample_mac sample_wizard = (0, w')" by blast
  have f: "calib_finite calib_init_identity" "wf_double (dlit 2 10)" "wf_double (dlit 5 10)" by code_simp+
  have b: "calib_to_blob calib_init_identity (to_float (dlit 2 10)) (to_float (dlit 5 10)) =
      \<lparr>bl_gyro_bias = [d0, d0, d0], bl_gyro_scale = [dlit 1 1, dlit 1 1, dlit 1 1], bl_alpha = to_float (dlit 2 10), bl_mouse_k = dlit 5 10\<rparr>"
    by code_simp
  have "lgmagic_validate_calib (calib_to_blob calib_init_identity (to_float (dlit 2 10)) (to_float (dlit 5 10))) = 0" by code_simp
  with wizard_blob_reaches_kernel [OF w f, of drvdata_zero] w b show ?thesis by auto
qed

section \<open>Answers and attempts\<close>

text \<open>Text that is not a number counts as 0, and NaN passes every range check.\<close>

lemma ask_number_text:
  "fst (ask_number (dlit 2 10) d0 (dlit 1 1) (sample_wizard\<lparr>non_interactive := False, wz_in := ''yes'' @ nl\<rparr>)) = d0"
  "fst (ask_number (dlit 2 10) d0 (dlit 1 1) (sample_wizard\<lparr>non_interactive := False, wz_in := ''nan'' @ nl\<rparr>)) = DNaN"
  unfolding sample_wizard_def by code_simp+

text \<open>Three empty recordings in a row are accepted without any fit.\<close>

lemma accel_short_accepted:
  "map_option (\<lambda>(rc, c, dev, w). (rc, c)) (step_accel_calib sample_senv sample_dev calib_init_identity ''/r'' sample_wizard) =
     Some (0, calib_init_identity)"
  by (simp add: step_accel_calib_def numeral_3_eq_3 record_samples_def record_loop.simps evdev_read_frame_ext_def sample_wizard_def
      ask_yn_def ask_def ask_again_def buf_str_def)

text \<open>Without questions the standard input is not read.\<close>

lemma ask_non_interactive:
  assumes "non_interactive w"
  shows "ask def n w = (buf_str n def, w)" and "ask_yn b w = (b, w)" and "snd (ask_number x lo hi w) = w" and "ask_mode w = (True, w)"
  using assms by (simp_all add: ask_def ask_yn_def ask_number_def ask_mode_def buf_str_def Let_def)


text \<open>
  The wizard cannot switch the IMU on: it writes the module parameters in its third step, but its first step already ends it when
  there is no IMU node, which is the state with the default parameter \<^verbatim>\<open>imu_evdev=0\<close>. No file is written then.
\<close>

lemma setup_needs_imu:
  assumes "setup_args (tl argv) (non_interactive w) = Inl ni"
    and "fst (evdev_find_imu (fst (se_nodes env 0)) (snd (se_nodes env 0)) (imu_device (wz_cfg w)) (se_dev env)) \<noteq> None"
  shows "\<exists>w'. cmd_setup env argv w = Some (1, w') \<and> wz_files w' = wz_files w"
proof -
  define w0 where "w0 = w\<lparr>non_interactive := ni\<rparr>"
  define w1 where "w1 = (if \<not> module_is_loaded (se_access env) MODULE_NAME
      then snd (run_shell (module_load (se_shell env) MODULE_NAME 256) w0) else w0)"
  have w1: "wz_cfg w1 = wz_cfg w" "wz_files w1 = wz_files w" by (simp_all add: w1_def w0_def run_shell_def)
  obtain e dev where "find_imu env 0 (se_dev env) w1 = (Some e, dev)"
    using assms(2) by (cases "find_imu env 0 (se_dev env) w1") (auto simp: find_imu_def w1)
  then have "\<exists>d w'. step_environment env w0 = ((None, d), w') \<and> wz_files w' = wz_files w"
    unfolding step_environment_def Let_def w1_def [symmetric] by (simp add: w1 w0_def)
  then obtain d w' where "step_environment env (w\<lparr>non_interactive := ni\<rparr>) = ((None, d), w')" "wz_files w' = wz_files w"
    unfolding w0_def by blast
  then show ?thesis by (simp add: cmd_setup_def assms(1))
qed

end
