(* ===== verification/Daemon_Main.thy ===== *)
theory Daemon_Main
  imports Daemon_Bus_Correct
begin

unbundle bit_operations_syntax

text \<open>
  \<^verbatim>\<open>tools/src/daemon_main.c\<close> and the start and end of the bus connection (\<^verbatim>\<open>daemon_bus.c\<close>): the options, the start, the
  main loop and the clean-up of \<^verbatim>\<open>lgmagicd\<close>.

  One iteration of the loop is a function of the daemon's state and of a \<open>turn\<close>: the signal flags, the files as an editor
  left them, the clock, what \<^verbatim>\<open>poll\<close> answers to the descriptors and the timeout it is given, what the descriptors
  deliver and which message sd-bus dispatches. A run is a list of turns. The result of a loop that cannot go on, because a read
  blocks, is \<open>None\<close>. Log lines are left out.
\<close>

section \<open>Options\<close>

record daemon_args =
  da_keyboard :: "string option"
  da_config_root :: string
  da_state_dir :: string
  da_no_uinput :: bool
  da_debug :: bool

definition DEFAULT_CONFIG_ROOT :: string where "DEFAULT_CONFIG_ROOT = ''/etc/lgmagic''"
definition DEFAULT_STATE_DIR :: string where "DEFAULT_STATE_DIR = ''/var/lib/lgmagic''"

definition daemon_defaults :: daemon_args where
  "daemon_defaults = \<lparr>da_keyboard = None, da_config_root = DEFAULT_CONFIG_ROOT, da_state_dir = DEFAULT_STATE_DIR,
     da_no_uinput = False, da_debug = False\<rparr>"

text \<open>\<open>Inl\<close>: the exit status after the usage text.\<close>

fun daemon_options :: "string list \<Rightarrow> daemon_args \<Rightarrow> int + daemon_args" where
  "daemon_options [] da = Inr da"
| "daemon_options (a # as) da =
     (if a = ''--keyboard'' \<and> as \<noteq> [] then daemon_options (tl as) (da\<lparr>da_keyboard := Some (hd as)\<rparr>)
      else if take 11 a = ''--keyboard='' then daemon_options as (da\<lparr>da_keyboard := Some (drop 11 a)\<rparr>)
      else if a = ''--config-root'' \<and> as \<noteq> [] then daemon_options (tl as) (da\<lparr>da_config_root := hd as\<rparr>)
      else if take 14 a = ''--config-root='' then daemon_options as (da\<lparr>da_config_root := drop 14 a\<rparr>)
      else if a = ''--state-dir'' \<and> as \<noteq> [] then daemon_options (tl as) (da\<lparr>da_state_dir := hd as\<rparr>)
      else if take 12 a = ''--state-dir='' then daemon_options as (da\<lparr>da_state_dir := drop 12 a\<rparr>)
      else if a = ''--debug'' then daemon_options as (da\<lparr>da_debug := True\<rparr>)
      else if a = ''--no-uinput'' then daemon_options as (da\<lparr>da_no_uinput := True\<rparr>)
      else if a = ''--help'' \<or> a = ''-h'' then Inl 0
      else Inl 1)"

section \<open>The bus connection\<close>

text \<open>\<open>opened\<close>, \<open>vtable\<close> and \<open>name\<close> are the results of the three sd-bus calls, \<open>strerr\<close> is \<^verbatim>\<open>strerror\<close>.\<close>

definition daemon_bus_open :: "int \<Rightarrow> int \<Rightarrow> int \<Rightarrow> (int \<Rightarrow> string) \<Rightarrow> string option" where
  "daemon_bus_open opened vtable name strerr =
     (if opened < 0 then Some (''cannot open the system bus: '' @ strerr (- opened))
      else if vtable < 0 then Some (''bus setup failed: '' @ strerr (- vtable))
      else if name < 0 then Some (''bus setup failed: '' @ strerr (- name))
      else None)"

definition daemon_bus_fd :: "int \<Rightarrow> int" where
  "daemon_bus_fd fd = (if fd < 0 then - 1 else fd)"

section \<open>One iteration\<close>

record daemon =
  dm_bs :: bus_state
  dm_bus :: bool
  dm_nfds :: nat

datatype poll_res = PollError | PollTimeout | PollReady "nat \<Rightarrow> 16 word"

record turn =
  tn_stop :: bool
  tn_reload :: bool
  tn_files :: "files option"
  tn_env :: dev_env
  tn_realloc :: bool
  tn_bus_fd :: int
  tn_bus_events :: int
  tn_now :: int
  tn_poll :: "(int \<times> int) list \<Rightarrow> int \<Rightarrow> poll_res"
  tn_reads :: "int \<Rightarrow> read_res list"
  tn_writes :: "out_event \<Rightarrow> bool"
  tn_stopping :: bool
  tn_dead :: bool
  tn_flush :: int
  tn_process :: int
  tn_call :: "(io_env \<times> pk_env \<times> method_call) option"

text \<open>The environment of a turn, with the files of the daemon's state.\<close>

definition turn_env :: "turn \<Rightarrow> daemon \<Rightarrow> dev_env" where
  "turn_env t d = (tn_env t)\<lparr>de_files := bs_files (dm_bs d)\<rparr>"

definition with_dd :: "daemon_devices \<Rightarrow> daemon \<Rightarrow> daemon" where
  "with_dd dd d = d\<lparr>dm_bs := (dm_bs d)\<lparr>bs_dd := dd\<rparr>\<rparr>"

definition dm_dd :: "daemon \<Rightarrow> daemon_devices" where
  "dm_dd d = bs_dd (dm_bs d)"

definition found_files :: "turn \<Rightarrow> daemon \<Rightarrow> daemon" where
  "found_files t d = (case tn_files t of None \<Rightarrow> d | Some fs \<Rightarrow> d\<lparr>dm_bs := (dm_bs d)\<lparr>bs_files := fs\<rparr>\<rparr>)"

definition reload_turn :: "turn \<Rightarrow> daemon \<Rightarrow> daemon \<times> dev_op list" where
  "reload_turn t d =
     (if tn_reload t then (case daemon_devices_reload (turn_env t d) (dm_dd d) of (dd, ops) \<Rightarrow> (with_dd dd d, ops)) else (d, []))"

definition poll_need :: "daemon \<Rightarrow> nat" where
  "poll_need d = 1 + 2 * length (dd_remotes (dm_dd d)) + (if dm_bus d then 1 else 0)"

definition poll_array :: "turn \<Rightarrow> daemon \<Rightarrow> (int \<times> int) list" where
  "poll_array t d =
     (let devs = map (\<lambda>fd. (fd, 1)) (daemon_devices_pollfds (dm_dd d) (dm_nfds d));
          bfd = (if dm_bus d then daemon_bus_fd (tn_bus_fd t) else - 1)
      in if 0 \<le> bfd \<and> length devs < dm_nfds d then devs @ [(bfd, daemon_bus_events (tn_bus_events t))] else devs)"

definition rescan_turn :: "turn \<Rightarrow> daemon \<Rightarrow> daemon \<times> dev_op list" where
  "rescan_turn t d = (case daemon_devices_rescan (turn_env t d) (dm_dd d) of (e, dd, ops) \<Rightarrow> (with_dd dd d, ops))"

text \<open>sd-bus dispatches at most one message per call, and only when the flush before it went through.\<close>

definition bus_turn :: "turn \<Rightarrow> 16 word \<Rightarrow> daemon \<Rightarrow> daemon \<times> dev_op list" where
  "bus_turn t revents d =
     (let dispatched = (\<not> (revents AND 4 \<noteq> 0 \<and> tn_flush t < 0) \<and> revents AND (1 OR 16 OR 8) \<noteq> 0);
          (s, ops) = (case tn_call t of
              Some (io, pk, m) \<Rightarrow> if dispatched then snd (bus_method (turn_env t d) io pk (dm_bs d) m) else (dm_bs d, [])
            | None \<Rightarrow> (dm_bs d, []))
      in (d\<lparr>dm_bs := s, dm_bus := 0 \<le> daemon_bus_process (tn_flush t) (tn_process t) revents\<rparr>, ops))"

definition handle_turn :: "turn \<Rightarrow> nat \<Rightarrow> daemon \<Rightarrow> (daemon \<times> dev_op list) option" where
  "handle_turn t i d =
     (case daemon_devices_handle (tn_reads t) (tn_writes t) (tn_stopping t) (tn_dead t) (tn_now t) (dm_dd d) i of
        None \<Rightarrow> None
      | Some (rc, dd, ops) \<Rightarrow> Some (with_dd dd d, ops))"

definition dispatch_one :: "turn \<Rightarrow> nat \<Rightarrow> nat \<times> 16 word \<Rightarrow> daemon \<Rightarrow> (daemon \<times> dev_op list) option" where
  "dispatch_one t ndev e d = (case e of (i, revents) \<Rightarrow>
     if dm_bus d \<and> i = ndev \<and> revents \<noteq> 0 then Some (bus_turn t revents d)
     else if revents AND (1 OR 16 OR 8) \<noteq> 0 then handle_turn t i d
     else Some (d, []))"

fun dispatch :: "turn \<Rightarrow> nat \<Rightarrow> (nat \<times> 16 word) list \<Rightarrow> daemon \<Rightarrow> (daemon \<times> dev_op list) option" where
  "dispatch t ndev [] d = Some (d, [])"
| "dispatch t ndev (e # es) d =
     (case dispatch_one t ndev e d of
        None \<Rightarrow> None
      | Some (d1, ops1) \<Rightarrow>
          (case dispatch t ndev es d1 of None \<Rightarrow> None | Some (d2, ops2) \<Rightarrow> Some (d2, ops1 @ ops2)))"

text \<open>From the filled poll array on. The timeout is the cast of a \<^verbatim>\<open>long long\<close> to \<^verbatim>\<open>int\<close>.\<close>

definition poll_turn :: "turn \<Rightarrow> daemon \<Rightarrow> (daemon \<times> dev_op list) option" where
  "poll_turn t d =
     (let delay = daemon_devices_rescan_delay_ms (dm_dd d) (tn_now t); fds = poll_array t d
      in if delay \<le> 0 then Some (rescan_turn t d)
         else case tn_poll t fds (sint (word_of_int delay :: 32 word)) of
                PollError \<Rightarrow> Some (d, [])
              | PollTimeout \<Rightarrow> Some (d, [])
              | PollReady revents \<Rightarrow>
                  dispatch t (length (daemon_devices_pollfds (dm_dd d) (dm_nfds d)))
                    (map (\<lambda>i. (i, revents i)) [0..<length fds]) d)"

text \<open>The first component is the exit status when the loop is left.\<close>

definition daemon_turn :: "turn \<Rightarrow> daemon \<Rightarrow> (int option \<times> daemon \<times> dev_op list) option" where
  "daemon_turn t d =
     (if tn_stop t then Some (Some 0, d, [])
      else case reload_turn t (found_files t d) of
             (d1, ops1) \<Rightarrow>
               if dm_nfds d1 < poll_need d1 \<and> \<not> tn_realloc t then Some (Some 1, d1, ops1)
               else map_option (\<lambda>(d2, ops2). (None, d2, ops1 @ ops2))
                      (poll_turn t (d1\<lparr>dm_nfds := max (dm_nfds d1) (poll_need d1)\<rparr>)))"

fun main_loop :: "turn list \<Rightarrow> daemon \<Rightarrow> (int option \<times> daemon \<times> dev_op list) option" where
  "main_loop [] d = Some (None, d, [])"
| "main_loop (t # turns) d =
     (case daemon_turn t d of
        None \<Rightarrow> None
      | Some (Some rc, d1, ops1) \<Rightarrow> Some (Some rc, d1, ops1)
      | Some (None, d1, ops1) \<Rightarrow>
          (case main_loop turns d1 of None \<Rightarrow> None | Some (rc, d2, ops2) \<Rightarrow> Some (rc, d2, ops1 @ ops2)))"

section \<open>The program\<close>

record boot =
  bt_env :: dev_env
  bt_inotify :: int
  bt_watch :: int
  bt_bus :: "int \<times> int \<times> int"
  bt_strerror :: "int \<Rightarrow> string"

definition daemon_start :: "boot \<Rightarrow> daemon_args \<Rightarrow> daemon \<times> dev_op list" where
  "daemon_start bt a =
     (let fs = de_files (bt_env bt);
          dcf = daemon_config_init fs (da_config_root a) (da_state_dir a);
          (dd0, ops0) = daemon_devices_init dcf (da_keyboard a) (da_no_uinput a) (bt_inotify bt) (bt_watch bt);
          (e, dd1, ops1) = daemon_devices_rescan (bt_env bt) dd0;
          (opened, vtable, name) = bt_bus bt
      in (\<lparr>dm_bs = \<lparr>bs_dd = dd1, bs_files = fs\<rparr>, dm_bus = daemon_bus_open opened vtable name (bt_strerror bt) = None,
           dm_nfds = 0\<rparr>, ops0 @ ops1))"

text \<open>The exit status (none while the daemon runs), its files and everything it did to descriptors.\<close>

definition daemon_main :: "boot \<Rightarrow> string list \<Rightarrow> turn list \<Rightarrow> (int option \<times> files \<times> dev_op list) option" where
  "daemon_main bt argv turns =
     (case daemon_options (tl argv) daemon_defaults of
        Inl rc \<Rightarrow> Some (Some rc, de_files (bt_env bt), [])
      | Inr a \<Rightarrow>
          (case daemon_start bt a of
             (ds, ops0) \<Rightarrow>
               (case main_loop turns ds of
                  None \<Rightarrow> None
                | Some (None, d, ops) \<Rightarrow> Some (None, bs_files (dm_bs d), ops0 @ ops)
                | Some (Some rc, d, ops) \<Rightarrow>
                    Some (Some rc, bs_files (dm_bs d), ops0 @ ops @ daemon_devices_free (dm_dd d)))))"

end
