(* ===== verification/Daemon_Main_Correct.thy ===== *)
theory Daemon_Main_Correct
  imports Daemon_Main
begin

text \<open>
  The daemon as a whole: over every run, from the start to the clean-up, with any order of rescans, frames, lost devices,
  reloads and bus calls, each descriptor that was opened is closed exactly once; and the loop always waits for every open
  descriptor, neither spinning nor sleeping past the next rescan.
\<close>

section \<open>Conservation of descriptors by every operation\<close>

text \<open>
  The contract every operation of the daemon keeps: what is held before and what the trace acquires is what is held after and
  what the trace releases, counted with multiplicity. It composes along traces, and a run that starts and ends with
  nothing has released exactly what it acquired.
\<close>

locale ledger =
  fixes holding :: "'s \<Rightarrow> 'r multiset" and acquired :: "'o list \<Rightarrow> 'r multiset" and released :: "'o list \<Rightarrow> 'r multiset"
  assumes acquired_append: "acquired (xs @ ys) = acquired xs + acquired ys"
    and released_append: "released (xs @ ys) = released xs + released ys"
begin

lemma compose:
  assumes "holding s + acquired xs = holding s' + released xs" and "holding s' + acquired ys = holding s'' + released ys"
  shows "holding s + acquired (xs @ ys) = holding s'' + released (xs @ ys)"
proof -
  have "holding s + (acquired xs + acquired ys) = holding s' + acquired ys + released xs"
    by (simp only: assms(1) add.assoc [symmetric]) (simp only: ac_simps)
  also have "\<dots> = holding s'' + (released xs + released ys)" by (simp only: assms(2)) (simp only: ac_simps)
  finally show ?thesis by (simp only: acquired_append released_append)
qed

lemma settled_at_end:
  assumes "acquired xs = holding s + released xs" and "holding s + acquired ys = holding s' + released ys"
    and "acquired zs = {#}" and "released zs = holding s'"
  shows "acquired (xs @ ys @ zs) = released (xs @ ys @ zs)"
proof -
  have "acquired xs + acquired ys = holding s + acquired ys + released xs" by (simp only: assms(1) ac_simps)
  also have "\<dots> = released xs + released ys + holding s'" by (simp only: assms(2)) (simp only: ac_simps)
  finally show ?thesis by (simp add: acquired_append released_append assms(3,4) ac_simps)
qed

end

definition dd_fds :: "daemon_devices \<Rightarrow> int multiset" where
  "dd_fds dd = remotes_fds (dd_remotes dd) + open_fds [inotify_fd dd]"

interpretation fds: ledger dd_fds fd_opens fd_closes
  by unfold_locales simp_all

definition named :: "daemon_devices \<Rightarrow> bool" where
  "named dd \<longleftrightarrow> (\<forall>r \<in> set (dd_remotes dd). rm_identity r \<noteq> [])"

definition balanced :: "daemon_devices \<Rightarrow> dev_op list \<Rightarrow> daemon_devices \<Rightarrow> bool" where
  "balanced dd ops dd' \<longleftrightarrow> dd_fds dd + fd_opens ops = dd_fds dd' + fd_closes ops \<and> named dd' \<and>
     kbd_override dd' = kbd_override dd"

lemma balanced_refl: "named dd \<Longrightarrow> balanced dd [] dd"
  by (simp add: balanced_def)

lemma balanced_trans:
  assumes "balanced dd ops dd'" and "balanced dd' ops' dd''"
  shows "balanced dd (ops @ ops') dd''"
  using assms fds.compose [of dd ops dd' ops' dd''] unfolding balanced_def by simp

text \<open>Operations that keep the descriptors and names of the remotes and only write events.\<close>

definition slots :: "daemon_devices \<Rightarrow> (string \<times> int multiset) list" where
  "slots dd = map (\<lambda>r. (rm_identity r, remote_fds r)) (dd_remotes dd)"

definition events_only :: "daemon_devices \<Rightarrow> dev_op list \<Rightarrow> daemon_devices \<Rightarrow> bool" where
  "events_only dd ops dd' \<longleftrightarrow> slots dd' = slots dd \<and> inotify_fd dd' = inotify_fd dd \<and>
     kbd_override dd' = kbd_override dd \<and> fd_opens ops = {#} \<and> fd_closes ops = {#}"

lemma slots_fds: "remotes_fds (dd_remotes dd) = sum_list (map snd (slots dd))"
  by (simp add: remotes_fds_def slots_def o_def)

lemma slots_named: "named dd \<longleftrightarrow> (\<forall>s \<in> set (slots dd). fst s \<noteq> [])"
  by (auto simp: named_def slots_def)

lemma events_only_balanced: "events_only dd ops dd' \<Longrightarrow> named dd \<Longrightarrow> balanced dd ops dd'"
  by (simp add: events_only_def balanced_def dd_fds_def slots_fds slots_named)

lemma events_only_refl: "events_only dd [] dd"
  by (simp add: events_only_def)

lemma slots_update:
  "rm_identity r = rm_identity (dd_remotes dd ! i) \<Longrightarrow> remote_fds r = remote_fds (dd_remotes dd ! i) \<Longrightarrow>
   map (\<lambda>r. (rm_identity r, remote_fds r)) ((dd_remotes dd)[i := r]) = slots dd"
  by (cases "i < length (dd_remotes dd)") (auto simp: slots_def map_update list_eq_iff_nth_eq nth_list_update)

lemma events_only_set_dc: "events_only (set_dc dd i d) ops dd' \<longleftrightarrow> events_only dd ops dd'"
proof -
  have "slots (set_dc dd i d) = slots dd"
    using slots_update [of "(dd_remotes dd ! i)\<lparr>rm_dc := d\<rparr>" dd i]
    by (simp add: set_dc_def slots_def [of "_\<lparr>dd_remotes := _\<rparr>"] remote_fds_def)
  then show ?thesis by (simp add: events_only_def set_dc_def)
qed

lemma remote_apply_events:
  assumes "remote_apply env dd i = (dd', ops)" shows "events_only dd ops dd'"
proof -
  obtain out pl where r: "dd' = dd\<lparr>dd_remotes := (dd_remotes dd)[i := (dd_remotes dd ! i)\<lparr>rm_pl := pl\<rparr>]\<rparr>" "ops = map OpOut out"
    using assms by (auto simp: remote_apply_def Let_def split: prod.splits)
  have "slots dd' = slots dd"
    using slots_update [of "(dd_remotes dd ! i)\<lparr>rm_pl := pl\<rparr>" dd i] by (simp add: r slots_def [of "_\<lparr>dd_remotes := _\<rparr>"] remote_fds_def)
  then show ?thesis by (simp add: events_only_def r)
qed

lemma reload_dc_events: "reload_dc env fs dd i = (dd', ops) \<Longrightarrow> events_only dd ops dd'"
  unfolding reload_dc_def by (rule events_only_set_dc [THEN iffD1, OF remote_apply_events])

lemma reload_events:
  assumes "daemon_devices_reload env dd = (dd', ops)" shows "events_only dd ops dd'"
proof -
  have one: "rm_identity (fst (reload_remote env dcf r)) = rm_identity r \<and>
      remote_fds (fst (reload_remote env dcf r)) = remote_fds r \<and> (\<exists>es. snd (reload_remote env dcf r) = map OpOut es)" for dcf r
    by (auto simp: reload_remote_def remote_fds_def split: prod.splits option.splits)
  have "fd_opens (concat (map (\<lambda>r. snd (reload_remote env dcf r)) rs)) = {#} \<and>
      fd_closes (concat (map (\<lambda>r. snd (reload_remote env dcf r)) rs)) = {#}" for dcf rs
  proof (induction rs)
    case (Cons r rs)
    with one [of dcf r] show ?case by auto
  qed simp
  with assms one show ?thesis
    by (auto simp: daemon_devices_reload_def Let_def events_only_def slots_def o_def)
qed

section \<open>Bus calls\<close>

definition bus_events :: "bus_state \<Rightarrow> reply \<times> bus_state \<times> dev_op list \<Rightarrow> bool" where
  "bus_events s res \<longleftrightarrow> events_only (bs_dd s) (snd (snd res)) (bs_dd (fst (snd res)))"

lemma bus_events_same: "bus_events s (r, s, [])"
  by (simp add: bus_events_def events_only_refl)

lemma bus_events_gated: "bus_events s res \<Longrightarrow> bus_events s (gated pk action s res)"
  by (simp add: gated_def bus_events_same split: option.split)

lemma bus_events_remote: "(\<And>i. bus_events s (f i)) \<Longrightarrow> bus_events s (on_remote s mac f)"
  by (simp add: on_remote_def bus_events_same split: option.split)

lemma bus_events_save: "bus_events s (save_reply (mutate_and_save env io s i f))"
proof -
  obtain e trace where sv: "daemon_config_save_device io (dd_config (bs_dd s)) (f (rm_dc (dd_remotes (bs_dd s) ! i)))
      (rm_identity (dd_remotes (bs_dd s) ! i)) (bs_files s) = (e, trace)" by (metis surj_pair)
  define dd1 where "dd1 = set_dc (bs_dd s) i (f (rm_dc (dd_remotes (bs_dd s) ! i)))"
  obtain dd2 ops where ap: "(if e \<noteq> None then remote_rollback env (last trace) dd1 i else remote_apply env dd1 i) = (dd2, ops)"
    by (metis surj_pair)
  have "events_only dd1 ops dd2"
    using ap by (auto simp: remote_rollback_def reload_dc_events remote_apply_events split: if_splits)
  then have "events_only (bs_dd s) ops dd2" by (simp add: dd1_def events_only_set_dc)
  moreover have "mutate_and_save env io s i f = (e, \<lparr>bs_dd = dd2, bs_files = last trace\<rparr>, ops)"
    unfolding mutate_and_save_def Let_def dd1_def [symmetric] sv prod.case ap ..
  ultimately show ?thesis by (cases e) (simp_all add: save_reply_def bus_events_def)
qed

lemmas bus_events_intros = bus_events_same bus_events_gated bus_events_remote bus_events_save

lemma reload_dc_reply:
  "bus_events s (case reload_dc env fs (bs_dd s) i of (dd', ops) \<Rightarrow> (ReplyOk, \<lparr>bs_dd = dd', bs_files = fs\<rparr>, ops))"
  by (auto simp: bus_events_def reload_dc_events split: prod.split)

lemma set_profile_events: "bus_events s (method_set_profile env io pk s mac p)"
proof -
  have "bus_events s (case daemon_config_save_profile io c mac p fs of
       (Some e, trace) \<Rightarrow> (fail LG_ERROR_FAILED e, s\<lparr>bs_files := last trace\<rparr>, [])
     | (None, trace) \<Rightarrow> (case reload_dc env (last trace) (bs_dd s) i of
          (dd', ops) \<Rightarrow> (ReplyOk, \<lparr>bs_dd = dd', bs_files = last trace\<rparr>, ops)))" for c fs i
  proof (cases "daemon_config_save_profile io c mac p fs")
    case (Pair e trace)
    then show ?thesis by (cases e) (simp add: reload_dc_reply, simp add: bus_events_def events_only_refl)
  qed
  then show ?thesis unfolding method_set_profile_def Let_def
    by (intro bus_events_gated bus_events_remote) (simp add: bus_events_same)
qed

lemma reload_method_events: "bus_events s (method_reload env pk s)"
proof -
  have "bus_events s (case daemon_devices_reload e (bs_dd s) of (dd, ops) \<Rightarrow> (ReplyOk, s\<lparr>bs_dd := dd\<rparr>, ops))" for e
    by (auto simp: bus_events_def reload_events split: prod.split)
  then show ?thesis unfolding method_reload_def by (rule bus_events_gated)
qed

lemma bus_method_events: "bus_events s (bus_method env io pk s m)"
proof (cases m)
  case (GetStatus mac)
  then show ?thesis by (auto simp: method_get_status_def Let_def intro!: bus_events_intros)
next
  case (MapButton mac f t)
  then show ?thesis by (auto simp: method_map_button_def Let_def intro!: bus_events_intros)
next
  case (SetScrollSpeed mac v)
  then show ?thesis by (auto simp: method_set_number_def intro!: bus_events_intros)
next
  case (SetSensitivity mac v)
  then show ?thesis by (auto simp: method_set_number_def intro!: bus_events_intros)
qed (simp_all add: method_list_devices_def method_reset_buttons_def method_set_calib_path_def
  set_profile_events reload_method_events bus_events_intros)


section \<open>Frames\<close>

lemma remotes_fds_update:
  "i < length rs \<Longrightarrow> remotes_fds (rs[i := r]) + remote_fds (rs ! i) = remotes_fds rs + remote_fds r"
proof (induction rs arbitrary: i)
  case (Cons x rs)
  show ?case
  proof (cases i)
    case (Suc j)
    with Cons.IH [of j] Cons.prems show ?thesis by (simp add: remotes_fds_def ac_simps)
  qed (simp add: remotes_fds_def ac_simps)
qed simp

lemma balanced_update:
  assumes "i < length (dd_remotes dd)" and "named dd" and "rm_identity r = rm_identity (dd_remotes dd ! i)"
    and c: "remote_fds (dd_remotes dd ! i) = remote_fds r + fd_closes ops" and "fd_opens ops = {#}"
    and "dd_remotes dd' = (dd_remotes dd)[i := r]" and "inotify_fd dd' = inotify_fd dd" and "kbd_override dd' = kbd_override dd"
  shows "balanced dd ops dd'"
proof -
  have "remotes_fds ((dd_remotes dd)[i := r]) + fd_closes ops + remote_fds r = remotes_fds (dd_remotes dd) + remote_fds r"
    using remotes_fds_update [OF assms(1), of r] by (simp add: c ac_simps)
  then have "remotes_fds (dd_remotes dd) = remotes_fds ((dd_remotes dd)[i := r]) + fd_closes ops" by simp
  moreover have "rm_identity r \<noteq> []" using assms(2,3) nth_mem [OF assms(1)] by (simp add: named_def)
  then have "named dd'"
    using assms(2,6) by (auto simp: named_def dest!: set_update_subset_insert [THEN subsetD])
  ultimately show ?thesis using assms(5-8) by (simp add: balanced_def dd_fds_def)
qed

lemma close_kbd_fds:
  "ev_fd dev = ev_fd (rm_kbd r) \<Longrightarrow> remote_fds r = remote_fds (r\<lparr>rm_kbd := evdev_close dev\<rparr>) + fd_closes (close_ops dev)"
  by (simp add: remote_fds_def open_fds_def evdev_close_def close_ops_def)

lemma close_imu_fds:
  "ev_fd dev = ev_fd (rm_imu r) \<Longrightarrow> remote_fds r = remote_fds (r\<lparr>rm_imu := evdev_close dev\<rparr>) + fd_closes (close_ops dev)"
  by (simp add: remote_fds_def open_fds_def evdev_close_def close_ops_def)

lemma close_ops_opens [simp]: "fd_opens (close_ops dev) = {#}"
  by (simp add: close_ops_def)

lemma handle_kbd_balanced:
  assumes h: "handle_kbd reads ok stop now dd i = Some (rc, dd', ops)" and i: "i < length (dd_remotes dd)" and n: "named dd"
  shows "balanced dd ops dd'"
proof -
  define r where "r = dd_remotes dd ! i"
  obtain rv e dev f rest where rd: "evdev_read_frame_ext reads (rm_kbd r) = Some (rv, e, (dev, f), rest)"
    using h by (cases "evdev_read_frame_ext reads (rm_kbd r)") (auto simp: handle_kbd_def r_def)
  have fd: "ev_fd dev = ev_fd (rm_kbd r)" using read_frame_ext_fd [OF rd] .
  note h' = h [unfolded handle_kbd_def Let_def r_def [symmetric] rd option.case prod.case]
  consider (frame) pl out where "dd' = dd\<lparr>dd_remotes := (dd_remotes dd)[i := r\<lparr>rm_kbd := dev, rm_pl := pl\<rparr>]\<rparr>" "ops = map OpOut out"
    | (stop) "dd' = dd\<lparr>dd_remotes := (dd_remotes dd)[i := r\<lparr>rm_kbd := dev\<rparr>]\<rparr>" "ops = []"
    | (lost) "dd' = schedule_rescan now 0 (dd\<lparr>dd_remotes := (dd_remotes dd)[i := r\<lparr>rm_kbd := evdev_close dev\<rparr>]\<rparr>)" "ops = close_ops dev"
    using h' by (auto split: if_splits option.splits)
  then show ?thesis
  proof cases
    case frame
    then show ?thesis
      by (intro balanced_update [OF i n]) (simp_all add: r_def [symmetric] remote_fds_def fd)
  next
    case stop
    then show ?thesis by (intro balanced_update [OF i n]) (simp_all add: r_def [symmetric] remote_fds_def fd)
  next
    case lost
    then show ?thesis
      using close_kbd_fds [OF fd] by (intro balanced_update [OF i n]) (simp_all add: r_def [symmetric] schedule_rescan_def)
  qed
qed

lemma handle_imu_balanced:
  assumes h: "handle_imu reads ok stop now dd i = Some (rc, dd', ops)" and i: "i < length (dd_remotes dd)" and n: "named dd"
  shows "balanced dd ops dd'"
proof -
  define r where "r = dd_remotes dd ! i"
  obtain rv e dev f rest where rd: "evdev_read_frame_ext reads (rm_imu r) = Some (rv, e, (dev, f), rest)"
    using h by (cases "evdev_read_frame_ext reads (rm_imu r)") (auto simp: handle_imu_def r_def)
  have fd: "ev_fd dev = ev_fd (rm_imu r)" using read_frame_ext_fd [OF rd] .
  note h' = h [unfolded handle_imu_def Let_def r_def [symmetric] rd option.case prod.case]
  consider (frame) pl out where "dd' = dd\<lparr>dd_remotes := (dd_remotes dd)[i := r\<lparr>rm_imu := dev, rm_pl := pl\<rparr>]\<rparr>" "ops = map OpOut out"
    | (stop) "dd' = dd\<lparr>dd_remotes := (dd_remotes dd)[i := r\<lparr>rm_imu := dev\<rparr>]\<rparr>" "ops = []"
    | (lost) "dd' = schedule_rescan now 0 (dd\<lparr>dd_remotes := (dd_remotes dd)[i := r\<lparr>rm_imu := evdev_close dev\<rparr>]\<rparr>)" "ops = close_ops dev"
    using h' by (auto split: if_splits option.splits)
  then show ?thesis
  proof cases
    case frame
    then show ?thesis
      by (intro balanced_update [OF i n]) (simp_all add: r_def [symmetric] remote_fds_def fd)
  next
    case stop
    then show ?thesis by (intro balanced_update [OF i n]) (simp_all add: r_def [symmetric] remote_fds_def fd)
  next
    case lost
    then show ?thesis
      using close_imu_fds [OF fd] by (intro balanced_update [OF i n]) (simp_all add: r_def [symmetric] schedule_rescan_def)
  qed
qed

lemma handle_balanced:
  assumes h: "daemon_devices_handle reads ok stop dead now dd idx = Some (rc, dd', ops)" and n: "named dd"
  shows "balanced dd ops dd'"
proof (cases "idx < length (poll_targets dd)")
  case False
  with h n show ?thesis by (simp add: daemon_devices_handle_def balanced_refl)
next
  case True
  define t where "t = poll_targets dd ! idx"
  have mem: "t \<in> set (poll_targets dd)" using True by (simp add: t_def)
  note h' = h [unfolded daemon_devices_handle_def if_P [OF True] t_def [symmetric]]
  show ?thesis
  proof (cases t)
    case TInotify
    with h' n show ?thesis
      by (cases dead) (auto simp: drain_inotify_def schedule_rescan_def balanced_def dd_fds_def named_def)
  next
    case (TKbd i)
    with h' mem show ?thesis by (auto intro: handle_kbd_balanced n poll_target_index)
  next
    case (TImu i)
    with h' mem show ?thesis by (auto intro: handle_imu_balanced n poll_target_index)
  qed
qed

section \<open>Rescans\<close>

lemma not_isl: "\<not> isl x \<longleftrightarrow> (\<exists>y. x = Inr y)"
  by (cases x) simp_all

text \<open>No keyboard node vanishes between the scan and its opening.\<close>

definition keyboards_stay :: "dev_env \<Rightarrow> string option \<Rightarrow> bool" where
  "keyboards_stay env override = (case scan_inputs env override of
       None \<Rightarrow> True
     | Some devs \<Rightarrow>
         (case pairing_match devs (length devs) of
            Inl e \<Rightarrow> True
          | Inr prs \<Rightarrow> list_all (\<lambda>pr. \<not> isl (de_open env (path_of devs (pm_keyboard pr)))) prs))"

lemma pairing_match_nil: "pairing_match [] 0 = Inr []"
  by code_simp

lemma rescan_frame:
  "daemon_devices_rescan env dd = (e, dd', ops) \<Longrightarrow> inotify_fd dd' = inotify_fd dd \<and> kbd_override dd' = kbd_override dd"
  by (auto simp: daemon_devices_rescan_def Let_def split: option.splits sum.splits prod.splits)

lemma rescan_quiet:
  assumes "daemon_devices_rescan env dd = (e, dd', ops)"
    and "scan_inputs env (kbd_override dd) = None \<or>
      (\<exists>devs x. scan_inputs env (kbd_override dd) = Some devs \<and> pairing_match devs (length devs) = Inl x)"
  shows "dd_remotes dd' = dd_remotes dd \<and> ops = []"
proof (cases "scan_inputs env (kbd_override dd)")
  case None
  with assms(1) show ?thesis by (auto simp: daemon_devices_rescan_def Let_def)
next
  case (Some devs)
  with assms(2) obtain x where "pairing_match devs (length devs) = Inl x" by auto
  moreover from this have "devs \<noteq> []" using pairing_match_nil by auto
  ultimately show ?thesis using assms(1) Some by (auto simp: daemon_devices_rescan_def Let_def)
qed

lemma rescan_named:
  assumes "daemon_devices_rescan env dd = (e, dd', ops)" and "env_ok env" and "named dd"
  shows "named dd'"
  using assms(1)
proof (cases rule: rescan_cases)
  case 1
  with assms(3) show ?thesis by (simp add: named_def)
next
  case (2 devs prs new rest os dd1)
  from rebuild_identities [OF assms(2) 2(1)] 2(3) show ?thesis by (auto simp: named_def dest: identity_safe(4))
qed

lemma rescan_balanced:
  assumes r: "daemon_devices_rescan env dd = (e, dd', ops)" and "env_ok env" and "named dd" and k: "keyboards_stay env (kbd_override dd)"
  shows "balanced dd ops dd'"
proof -
  have "remotes_fds (dd_remotes dd) + fd_opens ops = remotes_fds (dd_remotes dd') + fd_closes ops"
  proof (cases "\<exists>devs prs. scan_inputs env (kbd_override dd) = Some devs \<and> pairing_match devs (length devs) = Inr prs")
    case True
    then obtain devs prs where s: "scan_inputs env (kbd_override dd) = Some devs" "pairing_match devs (length devs) = Inr prs"
      by blast
    have "\<forall>pr \<in> set prs. \<exists>nd. de_open env (path_of devs (pm_keyboard pr)) = Inr nd"
      using k s by (auto simp: keyboards_stay_def list_all_iff not_isl)
    from rescan_balance [OF assms(2) _ s this r] assms(3) show ?thesis by (simp add: named_def)
  next
    case False
    then have "scan_inputs env (kbd_override dd) = None \<or>
        (\<exists>devs x. scan_inputs env (kbd_override dd) = Some devs \<and> pairing_match devs (length devs) = Inl x)"
      by (metis not_None_eq sum.exhaust)
    with rescan_quiet [OF r] show ?thesis by simp
  qed
  with rescan_frame [OF r] rescan_named [OF r assms(2,3)] show ?thesis
    by (simp add: balanced_def dd_fds_def ac_simps)
qed


section \<open>The loop\<close>

lemma dm_dd_with [simp]: "dm_dd (with_dd dd d) = dd"
  by (simp add: dm_dd_def with_dd_def)

lemma found_files_dd [simp]: "dm_dd (found_files t d) = dm_dd d"
  by (simp add: found_files_def dm_dd_def split: option.split)

lemma nfds_dd [simp]: "dm_dd (d\<lparr>dm_nfds := n\<rparr>) = dm_dd d"
  by (simp add: dm_dd_def)

lemma scan_inputs_files [simp]: "scan_inputs (env\<lparr>de_files := fs\<rparr>) ov = scan_inputs env ov"
proof -
  have a: "scan_add (env\<lparr>de_files := fs\<rparr>) = scan_add env" by (intro ext) (simp add: scan_add_def cong: option.case_cong)
  show ?thesis unfolding scan_inputs_def a by simp
qed

lemma turn_env_ok [simp]: "env_ok (turn_env t d) = env_ok (tn_env t)"
  by (simp add: env_ok_def turn_env_def)

lemma turn_env_stay [simp]: "keyboards_stay (turn_env t d) ov = keyboards_stay (tn_env t) ov"
  by (simp add: keyboards_stay_def turn_env_def cong: option.case_cong sum.case_cong)

text \<open>The environment of every rescan is sane and no keyboard vanishes inside it.\<close>

definition steady :: "string option \<Rightarrow> dev_env \<Rightarrow> bool" where
  "steady override env \<longleftrightarrow> env_ok env \<and> keyboards_stay env override"

lemma rescan_turn_balanced:
  assumes "rescan_turn t d = (d', ops)" and "steady (kbd_override (dm_dd d)) (tn_env t)" and "named (dm_dd d)"
  shows "balanced (dm_dd d) ops (dm_dd d')"
  using assms by (auto simp: rescan_turn_def steady_def intro: rescan_balanced split: prod.splits)

lemma reload_turn_balanced:
  assumes "reload_turn t d = (d', ops)" and "named (dm_dd d)"
  shows "balanced (dm_dd d) ops (dm_dd d')"
  using assms by (auto simp: reload_turn_def balanced_refl intro!: events_only_balanced dest: reload_events split: if_splits prod.splits)

lemma bus_turn_balanced:
  assumes "bus_turn t revents d = (d', ops)" and "named (dm_dd d)"
  shows "balanced (dm_dd d) ops (dm_dd d')"
proof -
  have "events_only (bs_dd (dm_bs d)) [] (bs_dd (dm_bs d))" by (rule events_only_refl)
  moreover have "snd (bus_method env io pk (dm_bs d) m) = (s, ops') \<Longrightarrow> events_only (bs_dd (dm_bs d)) ops' (bs_dd s)" for env io pk m s ops'
    using bus_method_events [of "dm_bs d" env io pk m] by (simp add: bus_events_def)
  ultimately have "events_only (dm_dd d) ops (dm_dd d')"
    using assms(1) by (auto simp: bus_turn_def Let_def dm_dd_def split: option.splits if_splits prod.splits)
  then show ?thesis using assms(2) by (rule events_only_balanced)
qed

lemma dispatch_one_balanced:
  assumes "dispatch_one t ndev e d = Some (d', ops)" and "named (dm_dd d)"
  shows "balanced (dm_dd d) ops (dm_dd d')"
  using assms
  by (auto simp: dispatch_one_def handle_turn_def balanced_refl intro: bus_turn_balanced handle_balanced
      split: prod.splits if_splits option.splits)

lemma balanced_named: "balanced dd ops dd' \<Longrightarrow> named dd'"
  by (simp add: balanced_def)

lemma dispatch_balanced:
  "dispatch t ndev es d = Some (d', ops) \<Longrightarrow> named (dm_dd d) \<Longrightarrow> balanced (dm_dd d) ops (dm_dd d')"
proof (induction es arbitrary: d ops)
  case (Cons e es)
  then obtain d1 ops1 ops2 where s: "dispatch_one t ndev e d = Some (d1, ops1)" "dispatch t ndev es d1 = Some (d', ops2)"
      "ops = ops1 @ ops2"
    by (auto split: option.splits)
  have "balanced (dm_dd d) ops1 (dm_dd d1)" by (rule dispatch_one_balanced [OF s(1) Cons.prems(2)])
  with Cons.IH [OF s(2)] show ?case unfolding s(3) by (blast intro: balanced_trans balanced_named)
qed (simp add: balanced_refl)

lemma poll_turn_balanced:
  assumes "poll_turn t d = Some (d', ops)" and "steady (kbd_override (dm_dd d)) (tn_env t)" and "named (dm_dd d)"
  shows "balanced (dm_dd d) ops (dm_dd d')"
  using assms
  by (auto simp: poll_turn_def Let_def balanced_refl intro: dispatch_balanced rescan_turn_balanced
      split: if_splits poll_res.splits)

lemma turn_balanced:
  assumes h: "daemon_turn t d = Some (rc, d', ops)" and st: "steady (kbd_override (dm_dd d)) (tn_env t)" and n: "named (dm_dd d)"
  shows "balanced (dm_dd d) ops (dm_dd d')"
proof (cases "tn_stop t")
  case True
  with h n show ?thesis by (simp add: daemon_turn_def balanced_refl)
next
  case False
  obtain d1 ops1 where r: "reload_turn t (found_files t d) = (d1, ops1)" by (metis surj_pair)
  have b: "balanced (dm_dd d) ops1 (dm_dd d1)" using reload_turn_balanced [OF r] n by simp
  then have d1: "named (dm_dd d1)" "kbd_override (dm_dd d1) = kbd_override (dm_dd d)" by (simp_all add: balanced_def)
  note h' = h [unfolded daemon_turn_def r prod.case if_not_P [OF False]]
  show ?thesis
  proof (cases "dm_nfds d1 < poll_need d1 \<and> \<not> tn_realloc t")
    case True
    with h' b show ?thesis by simp
  next
    case nr: False
    from h' [unfolded if_not_P [OF nr]] obtain d2 ops2
      where p: "poll_turn t (d1\<lparr>dm_nfds := max (dm_nfds d1) (poll_need d1)\<rparr>) = Some (d2, ops2)" and o: "d' = d2" "ops = ops1 @ ops2"
      by auto
    from poll_turn_balanced [OF p] st d1 have "balanced (dm_dd d1) ops2 (dm_dd d2)" by simp
    with b show ?thesis unfolding o by (rule balanced_trans)
  qed
qed

lemma loop_balanced:
  "main_loop turns d = Some (rc, d', ops) \<Longrightarrow> \<forall>t \<in> set turns. steady (kbd_override (dm_dd d)) (tn_env t) \<Longrightarrow>
   named (dm_dd d) \<Longrightarrow> balanced (dm_dd d) ops (dm_dd d')"
proof (induction turns arbitrary: d rc ops)
  case (Cons t turns)
  from Cons.prems(1) obtain rc1 d1 ops1 where t: "daemon_turn t d = Some (rc1, d1, ops1)" by (auto split: option.splits)
  have b: "balanced (dm_dd d) ops1 (dm_dd d1)" using turn_balanced [OF t] Cons.prems(2,3) by simp
  show ?case
  proof (cases rc1)
    case None
    with Cons.prems(1) t obtain rc2 ops2 where m: "main_loop turns d1 = Some (rc2, d', ops2)" "ops = ops1 @ ops2"
      by (auto split: option.splits)
    have "balanced (dm_dd d1) ops2 (dm_dd d')"
      using Cons.IH [OF m(1)] Cons.prems(2) b by (simp add: balanced_def)
    with b show ?thesis unfolding m(2) by (rule balanced_trans)
  next
    case (Some x)
    with Cons.prems(1) t b show ?thesis by simp
  qed
qed (simp add: balanced_refl)

section \<open>From the start to the end\<close>

lemma free_fds: "fd_opens (daemon_devices_free dd) = {#} \<and> fd_closes (daemon_devices_free dd) = dd_fds dd"
proof -
  have "fd_opens (concat (map (\<lambda>r. snd (remote_free r)) rs)) = {#} \<and>
      fd_closes (concat (map (\<lambda>r. snd (remote_free r)) rs)) = remotes_fds rs" for rs
    by (induction rs) (simp_all add: remotes_fds_def)
  then show ?thesis by (simp add: daemon_devices_free_def dd_fds_def open_fds_def)
qed

lemma start_balanced:
  assumes "daemon_start bt a = (d, ops)" and "steady (da_keyboard a) (bt_env bt)"
  shows "fd_opens ops = dd_fds (dm_dd d) + fd_closes ops \<and> named (dm_dd d) \<and> kbd_override (dm_dd d) = da_keyboard a"
proof -
  define dcf where "dcf = daemon_config_init (de_files (bt_env bt)) (da_config_root a) (da_state_dir a)"
  obtain dd0 ops0 where i: "daemon_devices_init dcf (da_keyboard a) (da_no_uinput a) (bt_inotify bt) (bt_watch bt) = (dd0, ops0)"
    by (metis surj_pair)
  obtain e dd1 ops1 where r: "daemon_devices_rescan (bt_env bt) dd0 = (e, dd1, ops1)" by (metis prod_cases3)
  have d: "dm_dd d = dd1" "ops = ops0 @ ops1"
    using assms(1) by (auto simp: daemon_start_def Let_def dcf_def [symmetric] i r dm_dd_def split: prod.splits)
  have i': "fd_opens ops0 = dd_fds dd0 + fd_closes ops0" "named dd0" "kbd_override dd0 = da_keyboard a"
    using i by (auto simp: daemon_devices_init_def Let_def dd_fds_def remotes_fds_def open_fds_def named_def split: if_splits)
  have b: "balanced dd0 ops1 dd1" using rescan_balanced [OF r] assms(2) i' by (simp add: steady_def)
  then have "dd_fds dd0 + fd_opens ops1 + fd_closes ops0 = dd_fds dd1 + fd_closes ops1 + fd_closes ops0" by (simp add: balanced_def)
  with b i' show ?thesis by (simp add: d balanced_def ac_simps)
qed



definition sample_boot :: boot where
  "sample_boot = \<lparr>bt_env = sample_env, bt_inotify = 3, bt_watch = 1, bt_bus = (- 2, 0, 0), bt_strerror = (\<lambda>_. ''No such file or directory'')\<rparr>"

definition sample_turn :: turn where
  "sample_turn = \<lparr>tn_stop = False, tn_reload = False, tn_files = None, tn_env = sample_env\<lparr>de_now := 1500\<rparr>, tn_realloc = True,
     tn_bus_fd = - 1, tn_bus_events = 0, tn_now = 1500,
     tn_poll = (\<lambda>fds tmo. PollReady (\<lambda>i. if i = 1 then 16 else 0)), tn_reads = (\<lambda>_. [REof]), tn_writes = (\<lambda>_. True),
     tn_stopping = False, tn_dead = False, tn_flush = 0, tn_process = 0, tn_call = None\<rparr>"

lemma sample_steady: "steady None sample_env" "steady None (sample_env\<lparr>de_now := 1500\<rparr>)"
proof -
  show "steady None sample_env" unfolding steady_def using sample_env_ok by (rule conjI) code_simp
  have "env_ok (sample_env\<lparr>de_now := 1500\<rparr>)" using sample_env_ok by (simp add: env_ok_def)
  then show "steady None (sample_env\<lparr>de_now := 1500\<rparr>)" unfolding steady_def by (rule conjI) code_simp
qed


section \<open>What the loop waits for\<close>

definition watched :: "turn \<Rightarrow> daemon \<Rightarrow> int set" where
  "watched t d =
     {fd. 0 \<le> fd \<and> (fd = inotify_fd (dm_dd d) \<or> (\<exists>r \<in> set (dd_remotes (dm_dd d)). fd = ev_fd (rm_kbd r) \<or> fd = ev_fd (rm_imu r)))} \<union>
     (if dm_bus d \<and> 0 \<le> tn_bus_fd t then {tn_bus_fd t} else {})"

lemma poll_targets_length: "length (poll_targets dd) \<le> 1 + 2 * length (dd_remotes dd)"
proof -
  have "length (concat (map (remote_targets rs) xs)) \<le> 2 * length xs" for rs xs
    by (induction xs) (auto simp: remote_targets_def)
  from this [of "dd_remotes dd" "[0..<length (dd_remotes dd)]"] show ?thesis by (simp add: poll_targets_def)
qed

lemma target_fds:
  "set (map (target_fd dd) (poll_targets dd)) =
   {fd. 0 \<le> fd \<and> (fd = inotify_fd dd \<or> (\<exists>r \<in> set (dd_remotes dd). fd = ev_fd (rm_kbd r) \<or> fd = ev_fd (rm_imu r)))}"
proof -
  have "target_fd dd ` set (remote_targets (dd_remotes dd) i) =
      {fd. 0 \<le> fd \<and> (fd = ev_fd (rm_kbd (dd_remotes dd ! i)) \<or> fd = ev_fd (rm_imu (dd_remotes dd ! i)))}" for i
    by (auto simp: remote_targets_def)
  then have "set (map (target_fd dd) (poll_targets dd)) = (if 0 \<le> inotify_fd dd then {inotify_fd dd} else {}) \<union>
      (\<Union>i < length (dd_remotes dd). {fd. 0 \<le> fd \<and> (fd = ev_fd (rm_kbd (dd_remotes dd ! i)) \<or> fd = ev_fd (rm_imu (dd_remotes dd ! i)))})"
    by (simp add: poll_targets_def image_Un image_UN atLeast_upt lessThan_atLeast0)
  moreover have "(\<exists>r \<in> set rs. Q r) \<longleftrightarrow> (\<exists>i < length rs. Q (rs ! i))" for rs :: "daemon_remote list" and Q
    by (metis in_set_conv_nth)
  ultimately show ?thesis by auto
qed

lemma poll_array_watches:
  assumes "poll_need d \<le> dm_nfds d"
  shows "set (map fst (poll_array t d)) = watched t d"
proof -
  have n: "length (poll_targets (dm_dd d)) \<le> dm_nfds d" "dm_bus d \<Longrightarrow> length (poll_targets (dm_dd d)) < dm_nfds d"
    using assms poll_targets_length [of "dm_dd d"] by (auto simp: poll_need_def)
  have "daemon_devices_pollfds (dm_dd d) (dm_nfds d) = map (target_fd (dm_dd d)) (poll_targets (dm_dd d))"
    using n(1) by (simp add: daemon_devices_pollfds_def)
  then have "map fst (poll_array t d) = map (target_fd (dm_dd d)) (poll_targets (dm_dd d)) @
      (if dm_bus d \<and> 0 \<le> tn_bus_fd t then [tn_bus_fd t] else [])"
    using n(2) by (simp add: poll_array_def Let_def daemon_bus_fd_def o_def)
  then show ?thesis unfolding watched_def target_fds [symmetric] by auto
qed

lemma delay_bounds:
  assumes "last_rescan_ms dd \<le> now" and "0 < daemon_devices_rescan_delay_ms dd now"
  shows "daemon_devices_rescan_delay_ms dd now \<le> 2000"
  using assms by (auto simp: daemon_devices_rescan_delay_ms_def RESCAN_INTERVAL_MS_def Let_def split: if_splits)

lemma sint_small:
  assumes "0 < k" and "k \<le> 2000" shows "sint (word_of_int k :: 32 word) = k"
  using assms by (simp add: signed_of_int signed_take_bit_int_eq_self)

lemma dispatch_poll: "dispatch (t\<lparr>tn_poll := p\<rparr>) ndev es d = dispatch t ndev es d"
proof (induction es arbitrary: d)
  case (Cons e es)
  have te: "turn_env (t\<lparr>tn_poll := p\<rparr>) d = turn_env t d" by (simp add: turn_env_def)
  have "bus_turn (t\<lparr>tn_poll := p\<rparr>) rev d = bus_turn t rev d" for rev
    unfolding bus_turn_def te by simp
  then have "dispatch_one (t\<lparr>tn_poll := p\<rparr>) ndev e d = dispatch_one t ndev e d"
    by (cases e) (simp add: dispatch_one_def handle_turn_def)
  with Cons show ?case by (simp cong: option.case_cong)
qed simp

lemma reload_watched:
  assumes "reload_turn t d = (d', ops)"
  shows "watched t d' = watched t d \<and> last_rescan_ms (dm_dd d') = last_rescan_ms (dm_dd d)"
proof (cases "tn_reload t")
  case True
  then obtain dd where dd: "daemon_devices_reload (turn_env t d) (dm_dd d) = (dd, ops)" "d' = with_dd dd d"
    using assms by (auto simp: reload_turn_def split: prod.splits)
  have k: "rm_kbd (fst (reload_remote env dcf r)) = rm_kbd r \<and> rm_imu (fst (reload_remote env dcf r)) = rm_imu r" for env dcf r
    by (auto simp: reload_remote_def split: prod.split option.split)
  have "inotify_fd dd = inotify_fd (dm_dd d) \<and> last_rescan_ms dd = last_rescan_ms (dm_dd d) \<and>
      (\<exists>f. dd_remotes dd = map f (dd_remotes (dm_dd d)) \<and> (\<forall>r. rm_kbd (f r) = rm_kbd r \<and> rm_imu (f r) = rm_imu r))"
    using dd(1) k by (auto simp: daemon_devices_reload_def Let_def o_def)
  then obtain f where "inotify_fd dd = inotify_fd (dm_dd d)" "last_rescan_ms dd = last_rescan_ms (dm_dd d)"
    "dd_remotes dd = map f (dd_remotes (dm_dd d))" "\<And>r. rm_kbd (f r) = rm_kbd r" "\<And>r. rm_imu (f r) = rm_imu r" by blast
  then show ?thesis unfolding dd(2) watched_def dm_dd_with by (simp add: with_dd_def)
qed (use assms in \<open>simp add: reload_turn_def\<close>)

text \<open>
  C12: the daemon always waits for everything and never too long: whatever \<^verbatim>\<open>poll\<close> would answer to other questions, an
  iteration of the main loop only asks it about exactly the open descriptors (the directory watch, every open device and the bus), with a
  timeout between one millisecond and the two seconds of the fallback rescan.
\<close>

theorem daemon_waits_for_everything:
  assumes "last_rescan_ms (dm_dd d) \<le> tn_now t"
    and "\<forall>fds tmo. set (map fst fds) = watched t d \<and> 1 \<le> tmo \<and> tmo \<le> 2000 \<longrightarrow> p fds tmo = tn_poll t fds tmo"
  shows "daemon_turn (t\<lparr>tn_poll := p\<rparr>) d = daemon_turn t d"
proof -
  obtain d1 ops1 where r: "reload_turn t (found_files t d) = (d1, ops1)" by (metis surj_pair)
  define d2 where "d2 = d1\<lparr>dm_nfds := max (dm_nfds d1) (poll_need d1)\<rparr>"
  have f: "found_files (t\<lparr>tn_poll := p\<rparr>) d = found_files t d" "reload_turn (t\<lparr>tn_poll := p\<rparr>) d' = reload_turn t d'"
      "poll_array (t\<lparr>tn_poll := p\<rparr>) d' = poll_array t d'" "rescan_turn (t\<lparr>tn_poll := p\<rparr>) d' = rescan_turn t d'" for d'
    by (simp_all add: found_files_def reload_turn_def turn_env_def poll_array_def Let_def rescan_turn_def)
  have "watched t (found_files t d) = watched t d"
    by (auto simp: watched_def found_files_def dm_dd_def split: option.split)
  then have w: "watched t d2 = watched t d" "last_rescan_ms (dm_dd d2) \<le> tn_now t"
    using reload_watched [OF r] assms(1) by (auto simp: d2_def watched_def)
  have need: "poll_need d2 \<le> dm_nfds d2" by (simp add: d2_def poll_need_def)
  have "poll_turn (t\<lparr>tn_poll := p\<rparr>) d2 = poll_turn t d2"
  proof (cases "daemon_devices_rescan_delay_ms (dm_dd d2) (tn_now t) \<le> 0")
    case True
    then show ?thesis by (simp add: poll_turn_def f)
  next
    case False
    then have k: "0 < daemon_devices_rescan_delay_ms (dm_dd d2) (tn_now t)" by simp
    note tmo = k delay_bounds [OF w(2) k]
    have "p (poll_array t d2) (sint (word_of_int (daemon_devices_rescan_delay_ms (dm_dd d2) (tn_now t)) :: 32 word)) =
        tn_poll t (poll_array t d2) (sint (word_of_int (daemon_devices_rescan_delay_ms (dm_dd d2) (tn_now t)) :: 32 word))"
      unfolding sint_small [OF tmo] using assms(2) poll_array_watches [OF need, of t] w(1) tmo by simp
    with False show ?thesis by (simp add: poll_turn_def Let_def f dispatch_poll split: poll_res.split)
  qed
  then show ?thesis by (simp add: daemon_turn_def f r d2_def [symmetric])
qed


theorem daemon_waits_for_everything_witness:
  "daemon_turn (sample_turn\<lparr>tn_poll := (\<lambda>fds tmo. if 2000 < tmo then PollError else PollReady (\<lambda>i. if i = 1 then 16 else 0))\<rparr>)
     (fst (daemon_start sample_boot daemon_defaults)) = daemon_turn sample_turn (fst (daemon_start sample_boot daemon_defaults))"
proof (rule daemon_waits_for_everything)
  show "last_rescan_ms (dm_dd (fst (daemon_start sample_boot daemon_defaults))) \<le> tn_now sample_turn" by code_simp
qed (simp add: sample_turn_def)

end
