(* ===== verification/Ahrs.thy ===== *)
theory Ahrs
  imports Calib CMath
begin

text \<open>
  The orientation filter of \<^verbatim>\<open>lgmagic imu --ahrs\<close>: the vector, matrix and quaternion helpers of \<^verbatim>\<open>tools/src/matrix.c\<close> and the
  Madgwick filter of \<^verbatim>\<open>tools/src/madgwick.c\<close>, in double arithmetic with C's order of evaluation. The trigonometric
  functions of the C library, whose rounding is not specified, are the record \<open>libm\<close>.
\<close>

section \<open>Vectors, matrices and quaternions\<close>

record libm =
  m_atan2 :: "cdouble \<Rightarrow> cdouble \<Rightarrow> cdouble"
  m_atan :: "cdouble \<Rightarrow> cdouble"
  m_sin :: "cdouble \<Rightarrow> cdouble"
  m_cos :: "cdouble \<Rightarrow> cdouble"

type_synonym quat = "cdouble \<times> cdouble \<times> cdouble \<times> cdouble"

definition vec3_add :: "vec3 \<Rightarrow> vec3 \<Rightarrow> vec3" where
  "vec3_add a b = vmap2 dadd a b"

definition vec3_sub :: "vec3 \<Rightarrow> vec3 \<Rightarrow> vec3" where
  "vec3_sub a b = vmap2 dsub a b"

fun vec3_dot :: "vec3 \<Rightarrow> vec3 \<Rightarrow> cdouble" where
  "vec3_dot (ax, ay, az) (bx, by', bz) = dadd (dadd (dmul ax bx) (dmul ay by')) (dmul az bz)"

fun vec3_norm :: "vec3 \<Rightarrow> cdouble" where
  "vec3_norm (x, y, z) = dsqrt (dadd (dadd (dmul x x) (dmul y y)) (dmul z z))"

definition vec3_normalized :: "vec3 \<Rightarrow> vec3" where
  "vec3_normalized a =
     (let n = vec3_norm a in if deq n d0 then (d0, d0, d0) else vec3_scale a (ddiv (dlit 1 1) n))"

definition mat3_identity :: "cdouble list list" where
  "mat3_identity = map (\<lambda>i. map (\<lambda>j. if i = j then dlit 1 1 else d0) [0..<3]) [0..<(3 :: nat)]"

definition mat3_mul_mat3 :: "cdouble list list \<Rightarrow> cdouble list list \<Rightarrow> cdouble list list" where
  "mat3_mul_mat3 a b =
     map (\<lambda>i. map (\<lambda>j. foldl (\<lambda>s k. dadd s (dmul (a ! i ! k) (b ! k ! j))) d0 [0..<3]) [0..<3]) [0..<3]"

fun quat_norm :: "quat \<Rightarrow> cdouble" where
  "quat_norm (w, x, y, z) = dsqrt (dadd (dadd (dadd (dmul w w) (dmul x x)) (dmul y y)) (dmul z z))"

fun quat_div :: "quat \<Rightarrow> cdouble \<Rightarrow> quat" where
  "quat_div (w, x, y, z) n = (ddiv w n, ddiv x n, ddiv y n, ddiv z n)"

definition quat_normalized :: "quat \<Rightarrow> quat" where
  "quat_normalized q =
     (let n = quat_norm q in if deq n d0 then (dlit 1 1, d0, d0, d0) else quat_div q n)"

abbreviation d1 :: cdouble where "d1 \<equiv> dlit 1 1"
abbreviation d2 :: cdouble where "d2 \<equiv> dlit 2 1"

fun quat_to_mat3 :: "quat \<Rightarrow> cdouble list list" where
  "quat_to_mat3 (w, x, y, z) =
     [[dsub d1 (dmul d2 (dadd (dmul y y) (dmul z z))), dmul d2 (dsub (dmul x y) (dmul w z)), dmul d2 (dadd (dmul x z) (dmul w y))],
      [dmul d2 (dadd (dmul x y) (dmul w z)), dsub d1 (dmul d2 (dadd (dmul x x) (dmul z z))), dmul d2 (dsub (dmul y z) (dmul w x))],
      [dmul d2 (dsub (dmul x z) (dmul w y)), dmul d2 (dadd (dmul w x) (dmul y z)), dsub d1 (dmul d2 (dadd (dmul x x) (dmul y y)))]]"

fun quat_to_euler :: "libm \<Rightarrow> quat \<Rightarrow> vec3" where
  "quat_to_euler m (w, x, y, z) =
     (if deq (dadd (dsub (dsub d1 w) x) (dsub (dneg y) z)) d0 then (d0, d0, d0)
      else let r00 = dadd (dsub (dmul (dmul d2 w) w) d1) (dmul (dmul d2 x) x);
               r10 = dmul d2 (dsub (dmul x y) (dmul w z));
               r20 = dmul d2 (dadd (dmul x z) (dmul w y));
               r21 = dmul d2 (dsub (dmul y z) (dmul w x));
               r22 = dadd (dsub (dmul (dmul d2 w) w) d1) (dmul (dmul d2 z) z);
               d = dsub d1 (dmul r20 r20);
               d' = (if dlt d d0 then d0 else d)
           in (m_atan2 m r21 r22, dneg (m_atan m (ddiv r20 (dsqrt d'))), m_atan2 m r10 r00))"

definition accel_to_quat :: "libm \<Rightarrow> vec3 \<Rightarrow> quat" where
  "accel_to_quat m a = (case a of (x, y, z) \<Rightarrow>
     let n = vec3_norm a;
         ax = ddiv x n; ay = ddiv y n; az = ddiv z n;
         roll = m_atan2 m ay az;
         pitch = m_atan2 m (dneg ax) (dsqrt (dadd (dmul ay ay) (dmul az az)));
         cr = m_cos m (ddiv roll d2); sr = m_sin m (ddiv roll d2);
         cp = m_cos m (ddiv pitch d2); sp = m_sin m (ddiv pitch d2)
     in (dmul cr cp, dmul sr cp, dmul cr sp, dmul (dneg sr) sp))"

section \<open>The filter\<close>

record madgwick_state =
  ms_beta :: cdouble
  ms_freq :: cdouble
  ms_w :: cdouble
  ms_x :: cdouble
  ms_y :: cdouble
  ms_z :: cdouble
  ms_q :: quat

definition madgwick_init :: "cdouble \<Rightarrow> cdouble \<Rightarrow> quat \<Rightarrow> madgwick_state" where
  "madgwick_init beta freq q0 = (case q0 of (w, x, y, z) \<Rightarrow>
     \<lparr>ms_beta = beta, ms_freq = freq, ms_w = w, ms_x = x, ms_y = y, ms_z = z, ms_q = q0\<rparr>)"

text \<open>Half the Hamilton product of the quaternion with the rates.\<close>

fun quat_rate :: "quat \<Rightarrow> vec3 \<Rightarrow> quat" where
  "quat_rate (w, x, y, z) (gx, gy, gz) =
     (let half = dlit 5 10
      in (dmul half (dsub (dsub (dmul (dneg x) gx) (dmul y gy)) (dmul z gz)),
          dmul half (dsub (dadd (dmul w gx) (dmul y gz)) (dmul z gy)),
          dmul half (dadd (dsub (dmul w gy) (dmul x gz)) (dmul z gx)),
          dmul half (dsub (dadd (dmul w gz) (dmul x gy)) (dmul y gx))))"

text \<open>The objective function on the normalised quaternion and accelerometer, and its gradient.\<close>

fun mad_objective :: "quat \<Rightarrow> vec3 \<Rightarrow> vec3" where
  "mad_objective (w, x, y, z) (a0, a1, a2) =
     (dsub (dmul d2 (dsub (dmul x z) (dmul w y))) a0,
      dsub (dmul d2 (dadd (dmul w x) (dmul y z))) a1,
      dsub (dmul d2 (dsub (dsub (dlit 5 10) (dmul x x)) (dmul y y))) a2)"

fun mad_gradient :: "quat \<Rightarrow> vec3 \<Rightarrow> quat" where
  "mad_gradient (w, x, y, z) (f0, f1, f2) =
     (let m2 = dlit (- 2) 1; m4 = dlit (- 4) 1
      in (dadd (dmul (dmul m2 y) f0) (dmul (dmul d2 x) f1),
          dadd (dadd (dmul (dmul d2 z) f0) (dmul (dmul d2 w) f1)) (dmul (dmul m4 x) f2),
          dadd (dadd (dmul (dmul m2 w) f0) (dmul (dmul d2 z) f1)) (dmul (dmul m4 y) f2),
          dadd (dmul (dmul d2 x) f0) (dmul (dmul d2 y) f1)))"

fun qmap2 :: "(cdouble \<Rightarrow> cdouble \<Rightarrow> cdouble) \<Rightarrow> quat \<Rightarrow> quat \<Rightarrow> quat" where
  "qmap2 f (w, x, y, z) (w', x', y', z') = (f w w', f x x', f y y', f z z')"

text \<open>The rate of change with the correction by the accelerometer.\<close>

definition mad_rate :: "cdouble \<Rightarrow> quat \<Rightarrow> vec3 \<Rightarrow> vec3 \<Rightarrow> quat" where
  "mad_rate beta q g a =
     (let qd = quat_rate q g; an = vec3_norm a
      in if dgt an d0 then
           (let n = quat_div q (quat_norm q);
                f = mad_objective n (case a of (x, y, z) \<Rightarrow> (ddiv x an, ddiv y an, ddiv z an))
            in if dgt (vec3_norm f) d0 then
                 (let gr = mad_gradient n f
                  in qmap2 (\<lambda>d s. dsub d (dmul beta s)) qd (quat_div gr (quat_norm gr)))
               else qd)
         else qd)"

definition madgwick_update_imu :: "madgwick_state \<Rightarrow> vec3 \<Rightarrow> vec3 \<Rightarrow> madgwick_state" where
  "madgwick_update_imu ms g a = (case g of (gx, gy, gz) \<Rightarrow>
     let q = (ms_w ms, ms_x ms, ms_y ms, ms_z ms);
         dt = ddiv d1 (ms_freq ms);
         q' = (if deq gx d0 \<and> deq gy d0 \<and> deq gz d0 then q
               else let s = qmap2 (\<lambda>c r. dadd c (dmul r dt)) q (mad_rate (ms_beta ms) q g a) in quat_div s (quat_norm s))
     in (case q' of (w, x, y, z) \<Rightarrow> ms\<lparr>ms_w := w, ms_x := x, ms_y := y, ms_z := z, ms_q := q'\<rparr>))"

section \<open>Properties\<close>

definition quat_of :: "madgwick_state \<Rightarrow> quat" where
  "quat_of ms = (ms_w ms, ms_x ms, ms_y ms, ms_z ms)"

fun madgwick_run :: "madgwick_state \<Rightarrow> (vec3 \<times> vec3) list \<Rightarrow> madgwick_state" where
  "madgwick_run ms [] = ms"
| "madgwick_run ms ((g, a) # fs) = madgwick_run (madgwick_update_imu ms g a) fs"

text \<open>The copy consumers read is always the state itself.\<close>

lemma madgwick_copy: "ms_q (madgwick_update_imu ms g a) = quat_of (madgwick_update_imu ms g a)"
  by (auto simp: madgwick_update_imu_def quat_of_def Let_def split: prod.split)

lemma dadd_nan [simp]: "dadd DNaN x = DNaN" "dadd x DNaN = DNaN"
  by (cases x; simp)+

lemma dmul_nan [simp]: "dmul DNaN x = DNaN" "dmul x DNaN = DNaN"
  by (cases x; simp)+

lemma ddiv_nan [simp]: "ddiv DNaN x = DNaN" "ddiv x DNaN = DNaN"
  by (cases x; simp)+

abbreviation nan_quat :: quat where "nan_quat \<equiv> (DNaN, DNaN, DNaN, DNaN)"

lemma qmap2_nan: "qmap2 (\<lambda>c r. dadd c (dmul r dt)) nan_quat q = nan_quat"
  by (cases q) simp

lemma update_nan: "quat_of ms = nan_quat \<Longrightarrow> quat_of (madgwick_update_imu ms g a) = nan_quat"
  by (auto simp: madgwick_update_imu_def quat_of_def Let_def qmap2_nan split: prod.split)

lemma run_nan: "quat_of ms = nan_quat \<Longrightarrow> quat_of (madgwick_run ms fs) = nan_quat"
  by (induction ms fs rule: madgwick_run.induct) (simp_all add: update_nan)

lemma run_copy: "ms_q ms = quat_of ms \<Longrightarrow> ms_q (madgwick_run ms fs) = quat_of (madgwick_run ms fs)"
  by (induction ms fs rule: madgwick_run.induct) (simp_all add: madgwick_copy)

text \<open>What the filter uses of the C library: the trigonometric functions map a NaN to a NaN.\<close>

definition nan_through :: "libm \<Rightarrow> bool" where
  "nan_through m \<longleftrightarrow> (\<forall>x. m_atan2 m DNaN x = DNaN) \<and> m_sin m DNaN = DNaN \<and> m_cos m DNaN = DNaN \<and>
     (\<forall>x. m_atan2 m x DNaN = DNaN)"

lemma accel_zero_nan:
  assumes "nan_through m"
  shows "accel_to_quat m (d0, d0, d0) = nan_quat"
proof -
  have n: "vec3_norm (d0, d0, d0) = d0" by code_simp
  have q: "ddiv d0 d0 = DNaN" by code_simp
  have s: "dneg DNaN = DNaN" "dsqrt (dadd (dmul DNaN DNaN) (dmul DNaN DNaN)) = DNaN" by simp_all
  show ?thesis using assms unfolding accel_to_quat_def prod.case n Let_def q s nan_through_def by simp
qed


definition sample_libm :: libm where
  "sample_libm = \<lparr>m_atan2 = (\<lambda>y x. if isnan y \<or> isnan x then DNaN else d0), m_atan = (\<lambda>x. if isnan x then DNaN else d0),
     m_sin = (\<lambda>x. if isnan x then DNaN else d0), m_cos = (\<lambda>x. if isnan x then DNaN else d1)\<rparr>"


end
