(* ===== verification/Cmd_Imu.thy ===== *)
theory Cmd_Imu
  imports Setup Ahrs
begin

text \<open>
  \<^verbatim>\<open>lgmagic imu\<close> and \<^verbatim>\<open>lgmagic analyze\<close>: \<^verbatim>\<open>tools/src/cmd_imu.c\<close> and \<^verbatim>\<open>cmd_analyze.c\<close>. What \<^verbatim>\<open>imu\<close> prints is the list of
  values of its lines (\<open>imu_out\<close>), not their layout; the cube of the terminal is the orientation it is drawn for. \<open>imu_env\<close> holds the
  outcomes of the system calls. A run that waits forever for the device, or in which a cast of a double to an integer is undefined,
  yields \<^const>\<open>None\<close>.
\<close>

section \<open>Options of imu\<close>

record imu_opts =
  io_csv :: "string option"
  io_calib :: "string option"
  io_device :: "string option"
  io_duration :: cdouble
  io_mouse :: bool
  io_ahrs :: bool
  io_cube :: bool
  io_print :: bool

definition imu_defaults :: imu_opts where
  "imu_defaults = \<lparr>io_csv = None, io_calib = None, io_device = None, io_duration = d0, io_mouse = False, io_ahrs = False,
     io_cube = False, io_print = False\<rparr>"

text \<open>\<^const>\<open>None\<close>: an unexpected argument.\<close>

fun imu_args :: "string list \<Rightarrow> imu_opts \<Rightarrow> imu_opts option" where
  "imu_args [] opts = Some opts"
| "imu_args (a # as) opts =
     (if a = ''--csv'' \<and> as \<noteq> [] then imu_args (tl as) (opts\<lparr>io_csv := Some (hd as)\<rparr>)
      else if take 6 a = ''--csv='' then imu_args as (opts\<lparr>io_csv := Some (drop 6 a)\<rparr>)
      else if a = ''--calib'' \<and> as \<noteq> [] then imu_args (tl as) (opts\<lparr>io_calib := Some (hd as)\<rparr>)
      else if take 8 a = ''--calib='' then imu_args as (opts\<lparr>io_calib := Some (drop 8 a)\<rparr>)
      else if a = ''--device'' \<and> as \<noteq> [] then imu_args (tl as) (opts\<lparr>io_device := Some (hd as)\<rparr>)
      else if take 9 a = ''--device='' then imu_args as (opts\<lparr>io_device := Some (drop 9 a)\<rparr>)
      else if a = ''--duration'' \<and> as \<noteq> [] then imu_args (tl as) (opts\<lparr>io_duration := fst (strtod (hd as))\<rparr>)
      else if take 11 a = ''--duration='' then imu_args as (opts\<lparr>io_duration := fst (strtod (drop 11 a))\<rparr>)
      else if a = ''--mouse'' then imu_args as (opts\<lparr>io_mouse := True\<rparr>)
      else if a = ''--ahrs'' then imu_args as (opts\<lparr>io_ahrs := True\<rparr>)
      else if a = ''--cube'' then imu_args as (opts\<lparr>io_cube := True\<rparr>)
      else if a = ''--print-calib'' then imu_args as (opts\<lparr>io_print := True\<rparr>)
      else None)"

section \<open>The loop of imu\<close>

datatype imu_out =
    OutCalib calib
  | OutDevice string string "int \<times> int \<times> int" "int \<times> int \<times> int"
  | OutFilter cdouble vec3
  | OutMove int int
  | OutCube quat
  | OutEuler vec3
  | OutFrame cdouble vec3 vec3
  | OutRaw cdouble "int \<times> int \<times> int" "int \<times> int \<times> int"

datatype wait_res = WaitError bool | WaitTimeout | WaitReady

record imu_env =
  ie_cfg :: config
  ie_calib :: "string \<Rightarrow> string + string"
  ie_nodes :: input_nodes
  ie_dirs :: "string + string list"
  ie_dev :: evdev_imu
  ie_tty :: bool
  ie_uinput :: uinput_env
  ie_am :: airmouse
  ie_libm :: libm
  ie_stop :: "nat \<Rightarrow> bool"                     \<comment> \<open>\<open>g_stop\<close> in an iteration\<close>
  ie_wait_clock :: "nat \<Rightarrow> int \<times> int"          \<comment> \<open>the clock before the wait of an iteration\<close>
  ie_clock :: "nat \<Rightarrow> int \<times> int"               \<comment> \<open>the clock after its frame\<close>
  ie_poll :: "nat \<Rightarrow> int \<Rightarrow> wait_res"
  ie_reads :: "read_res list"
  ie_csv :: csv_dst

record imu_state =
  im_dev :: evdev_imu
  im_t0 :: "(int \<times> int) option"
  im_samples :: "imu_sample list"
  im_am :: airmouse
  im_mad :: "madgwick_state option"
  im_out :: "imu_out list"

definition elapsed :: "int \<times> int \<Rightarrow> int \<times> int \<Rightarrow> cdouble" where
  "elapsed now start = dadd (of_int_d (fst now - fst start)) (dmul (of_int_d (snd now - snd start)) (dlit 1 (10 ^ 9)))"

text \<open>Before the read: \<open>Some True\<close> leaves the loop; \<^const>\<open>None\<close>: the cast of the timeout is undefined.\<close>

definition imu_wait :: "imu_env \<Rightarrow> cdouble \<Rightarrow> nat \<Rightarrow> imu_state \<Rightarrow> bool option" where
  "imu_wait env duration n s =
     (if dgt duration d0 then
        (let wait_s = (case im_t0 s of None \<Rightarrow> duration | Some start \<Rightarrow> dsub duration (elapsed (ie_wait_clock env n) start))
         in if dle wait_s d0 then Some True
            else case d2int (dmul wait_s (dlit 1000 1)) of
                   None \<Rightarrow> None
                 | Some ms \<Rightarrow>
                     (case ie_poll env n (ms + 1) of
                        WaitError intr \<Rightarrow> Some (intr \<and> ie_stop env n)
                      | WaitTimeout \<Rightarrow> Some True
                      | WaitReady \<Rightarrow> Some False))
      else Some False)"

definition ahrs_step :: "imu_env \<Rightarrow> imu_opts \<Rightarrow> vec3 \<Rightarrow> vec3 \<Rightarrow> imu_state \<Rightarrow> imu_state" where
  "ahrs_step env opts a g s =
     (let mad0 = (case im_mad s of
            None \<Rightarrow> madgwick_init (madgwick_beta (ie_cfg env)) (dlit 50 1) (accel_to_quat (ie_libm env) a)
          | Some m \<Rightarrow> m);
          mad = madgwick_update_imu mad0 g a;
          deg = (case quat_to_euler (ie_libm env) (ms_q mad) of (r, p, y) \<Rightarrow>
            let conv = (\<lambda>v. ddiv (dmul v (dlit 180 1)) M_PI) in (conv r, conv p, conv y))
      in s\<lparr>im_mad := Some mad,
           im_out := im_out s @ (if io_cube opts then [OutCube (ms_q mad)] else []) @ [OutEuler deg]\<rparr>)"

text \<open>The body of the loop for a frame that is not recorded.\<close>

definition shown_dt :: "cdouble \<Rightarrow> cdouble" where
  "shown_dt dt = (if deq dt d0 then d0 else dt)"

definition imu_show :: "imu_env \<Rightarrow> imu_opts \<Rightarrow> calib option \<Rightarrow> evdev_frame \<Rightarrow> imu_state \<Rightarrow> imu_state option" where
  "imu_show env opts cal f s =
     (let dt = shown_dt (fr_dt f); acc = vec_of_ints (fr_accel f)
      in case cal of
           None \<Rightarrow> Some (s\<lparr>im_out := im_out s @ [OutRaw dt (fr_accel f) (fr_gyro f)]\<rparr>)
         | Some c \<Rightarrow>
             (case calib_apply c acc (vec_of_ints (fr_gyro f)) of
                (a, g) \<Rightarrow>
                  (case (if io_mouse opts then
                           (case airmouse_process (im_am s) g acc of
                              (am, filt, Some dx, Some dy) \<Rightarrow>
                                Some (s\<lparr>im_am := am, im_out := im_out s @ [OutFilter dt filt, OutMove dx dy]\<rparr>)
                            | _ \<Rightarrow> None)
                         else Some s) of
                     None \<Rightarrow> None
                   | Some s1 \<Rightarrow>
                       if io_ahrs opts \<and> \<not> isnan (fr_dt f) then Some (ahrs_step env opts a g s1)
                       else Some (s1\<lparr>im_out := im_out s1 @ [OutFrame dt a g]\<rparr>))))"

definition imu_frame :: "imu_env \<Rightarrow> imu_opts \<Rightarrow> calib option \<Rightarrow> evdev_frame \<Rightarrow> imu_state \<Rightarrow> imu_state option" where
  "imu_frame env opts cal f s =
     (if io_csv opts \<noteq> None then Some (s\<lparr>im_samples := im_samples s @ [sample_of f]\<rparr>) else imu_show env opts cal f s)"

text \<open>The exit status and the state when the loop is left.\<close>

function imu_loop ::
  "imu_env \<Rightarrow> imu_opts \<Rightarrow> calib option \<Rightarrow> nat \<Rightarrow> read_res list \<Rightarrow> imu_state \<Rightarrow> (int \<times> imu_state) option" where
  "imu_loop env opts cal n rs s = (case imu_wait env (io_duration opts) n s of
       None \<Rightarrow> None
     | Some True \<Rightarrow> Some (0, s)
     | Some False \<Rightarrow>
         (case evdev_read_frame_ext rs (im_dev s) of
            None \<Rightarrow> None
          | Some (rv, e, (dev, f), rs') \<Rightarrow>
              let s1 = s\<lparr>im_dev := dev\<rparr>
              in if rv < 0 then Some (if e = None \<or> ie_stop env n then 0 else 1, s1)
                 else if rv = 0 then Some (0, s1)
                 else let start = (case im_t0 s of None \<Rightarrow> ie_clock env n | Some t \<Rightarrow> t);
                          s2 = s1\<lparr>im_t0 := Some start\<rparr>
                      in if dgt (io_duration opts) d0 \<and> dle (io_duration opts) (elapsed (ie_clock env n) start) then Some (0, s2)
                         else case imu_frame env opts cal f s2 of
                                None \<Rightarrow> None
                              | Some s3 \<Rightarrow> imu_loop env opts cal (n + 1) rs' s3))"
  by pat_completeness auto
termination
  by (relation "measure (\<lambda>(env, opts, cal, n, rs, s). length rs)") (auto simp: evdev_read_frame_ext_def dest!: read_frame_shorter)

declare imu_loop.simps [simp del]

text \<open>
  \<open>g_stop\<close> is not looked at after a successful read: a signal that arrives while a frame is handled does not end the loop, which
  waits for the next frame, whatever \<^const>\<open>ie_stop\<close> says.
\<close>

lemma stop_not_tested:
  assumes "\<not> dgt (io_duration opts) d0" and "evdev_read_frame_ext rs (im_dev s) = Some (1, e, (dev, f), rs')"
  shows "imu_loop env opts cal n rs s =
    (case imu_frame env opts cal f (s\<lparr>im_dev := dev, im_t0 := Some (case im_t0 s of None \<Rightarrow> ie_clock env n | Some t \<Rightarrow> t)\<rparr>) of
       None \<Rightarrow> None
     | Some s3 \<Rightarrow> imu_loop env opts cal (n + 1) rs' s3)"
  by (subst imu_loop.simps) (simp add: assms imu_wait_def Let_def)

section \<open>The command imu\<close>

text \<open>The exit status, what is printed, and the recording that is written.\<close>

type_synonym imu_res = "int \<times> imu_out list \<times> string option"

definition imu_finish :: "imu_env \<Rightarrow> imu_opts \<Rightarrow> int \<times> imu_state \<Rightarrow> imu_res" where
  "imu_finish env opts r = (case r of (rc, s) \<Rightarrow>
     (case io_csv opts of
        None \<Rightarrow> (rc, im_out s, None)
      | Some path \<Rightarrow>
          if im_samples s = [] then (rc, im_out s, None)
          else (case csv_write path (ie_csv env) (im_samples s) of
                  (Some e, file) \<Rightarrow> (1, im_out s, file)
                | (None, file) \<Rightarrow> (rc, im_out s, file))))"

definition imu_run :: "imu_env \<Rightarrow> imu_opts \<Rightarrow> calib option \<Rightarrow> imu_res option" where
  "imu_run env opts cal =
     (case evdev_find_imu (ie_nodes env) (ie_dirs env)
             (case io_device opts of None \<Rightarrow> imu_device (ie_cfg env) | Some p \<Rightarrow> Some p) (ie_dev env) of
        (Some e, dev) \<Rightarrow> Some (1, [], None)
      | (None, dev) \<Rightarrow>
          let shown = OutDevice (ev_name dev) (ev_path dev) (ev_accel dev) (ev_gyro dev)
          in if io_mouse opts \<and> isl (fst (uinput_open (ie_uinput env))) then Some (1, [shown], None)
             else let cfg = ie_cfg env;
                      am = airmouse_gate_cfg (airmouse_init (ie_am env) (cf_lpf_alpha cfg) (mouse_scale cfg))
                             (accel_gate cfg) (accel_gate_lo cfg) (accel_gate_hi cfg)
                  in map_option (imu_finish env opts)
                       (imu_loop env opts cal 0 (ie_reads env)
                          \<lparr>im_dev = dev, im_t0 = None, im_samples = [], im_am = am, im_mad = None, im_out = [shown]\<rparr>))"

definition cmd_imu :: "imu_env \<Rightarrow> string list \<Rightarrow> imu_res option" where
  "cmd_imu env argv =
     (if length argv \<ge> 2 \<and> is_help (argv ! 1) then Some (0, [], None)
      else case imu_args (tl argv) imu_defaults of
             None \<Rightarrow> Some (1, [], None)
           | Some opts0 \<Rightarrow>
               let opts = (if io_cube opts0 then opts0\<lparr>io_ahrs := True\<rparr> else opts0);
                   path = (case io_calib opts of None \<Rightarrow> default_calib (ie_cfg env) | Some p \<Rightarrow> Some p);
                   cal = (case path of None \<Rightarrow> Inr None
                          | Some p \<Rightarrow> (case calib_load p (ie_calib env p) of (Some e, c) \<Rightarrow> Inl e | (None, c) \<Rightarrow> Inr (Some c)))
               in case cal of
                    Inl e \<Rightarrow> Some (1, [], None)
                  | Inr oc \<Rightarrow>
                      if io_print opts then
                        (case oc of None \<Rightarrow> Some (1, [], None) | Some c \<Rightarrow> Some (0, [OutCalib c], None))
                      else imu_run env (if io_cube opts \<and> \<not> ie_tty env then opts\<lparr>io_cube := False\<rparr> else opts) oc)"

section \<open>The command analyze\<close>

text \<open>\<open>Inl\<close>: the exit status, with the list of remotes when it was asked for.\<close>

fun analyze_args :: "hid_node list option \<Rightarrow> string list \<Rightarrow> string option \<Rightarrow> (int \<times> string) + string option" where
  "analyze_args hid [] device = Inr device"
| "analyze_args hid (a # as) device =
     (if a = ''--list'' then Inl (0, hidraw_list_remotes hid)
      else if a = ''--device'' \<and> as \<noteq> [] then analyze_args hid (tl as) (Some (hd as))
      else if take 9 a = ''--device='' then analyze_args hid as (Some (drop 9 a))
      else Inl (1, []))"

definition cmd_analyze ::
  "config \<Rightarrow> hid_node list option \<Rightarrow> (string \<Rightarrow> string option) \<Rightarrow> hid_read list \<Rightarrow> string list \<Rightarrow> int \<times> string" where
  "cmd_analyze cfg hid no_open reads argv =
     (if length argv \<ge> 2 \<and> is_help (argv ! 1) then (0, [])
      else case analyze_args hid (tl argv) None of
             Inl r \<Rightarrow> r
           | Inr device \<Rightarrow>
               (let run = (\<lambda>path shown. case hidraw_run path (no_open path) reads of
                      (rc, out, e) \<Rightarrow> (if rc < 0 then 1 else 0, shown @ out))
                in case (case device of None \<Rightarrow> hidraw_device cfg | Some p \<Rightarrow> Some p) of
                     Some p \<Rightarrow> run (buf_str 256 p) []
                   | None \<Rightarrow>
                       (case hidraw_find_remote 256 hid of
                          Inl e \<Rightarrow> (1, [])
                        | Inr p \<Rightarrow> run p (''Using device: '' @ p @ [newline]))))"


section \<open>Recordings\<close>

text \<open>The frames a device delivers before it ends, fails or the user stops.\<close>

function frames :: "read_res list \<Rightarrow> evdev_imu \<Rightarrow> evdev_frame list option" where
  "frames rs dev = (case evdev_read_frame_ext rs dev of
       None \<Rightarrow> None
     | Some (rv, e, (d, f), rs') \<Rightarrow> if rv = 1 then map_option (Cons f) (frames rs' d) else Some [])"
  by pat_completeness auto
termination
  by (relation "measure (\<lambda>(rs, dev). length rs)") (auto simp: evdev_read_frame_ext_def dest!: read_frame_shorter)

declare frames.simps [simp del]

lemma read_frame_rv: "read_frame_loop rs s = Some (rv, e, s', rs') \<Longrightarrow> rv = 1 \<or> rv = 0 \<or> rv = - 1"
  by (induction rs s rule: read_frame_loop.induct) (auto split: if_splits)

lemma imu_loop_records:
  assumes "\<not> dgt (io_duration opts) d0" and "io_csv opts \<noteq> None"
  shows "frames rs (im_dev s) = Some fs \<Longrightarrow>
    \<exists>rc s'. imu_loop env opts cal n rs s = Some (rc, s') \<and> im_samples s' = im_samples s @ map sample_of fs"
proof (induction rs "im_dev s" arbitrary: s n fs rule: frames.induct)
  case (1 rs)
  obtain rv e dev f rs' where r: "evdev_read_frame_ext rs (im_dev s) = Some (rv, e, (dev, f), rs')"
    using "1.prems" by (subst (asm) frames.simps) (auto split: option.splits)
  have w: "imu_wait env (io_duration opts) n s = Some False" using assms(1) by (simp add: imu_wait_def)
  note loop = imu_loop.simps [of env opts cal n rs s, unfolded w option.case bool.case r prod.case Let_def]
  show ?case
  proof (cases "rv = 1")
    case True
    from "1.prems" obtain gs where gs: "frames rs' dev = Some gs" "fs = f # gs"
      by (subst (asm) frames.simps) (auto simp: r True)
    define s2 where "s2 = s\<lparr>im_dev := dev, im_t0 := Some (case im_t0 s of None \<Rightarrow> ie_clock env n | Some t \<Rightarrow> t)\<rparr>"
    define s3 where "s3 = s2\<lparr>im_samples := im_samples s2 @ [sample_of f]\<rparr>"
    have dev: "im_dev s3 = dev" by (simp add: s3_def s2_def)
    have "imu_frame env opts cal f s2 = Some s3" using assms(2) by (simp add: imu_frame_def s3_def)
    then have "imu_loop env opts cal n rs s = imu_loop env opts cal (n + 1) rs' s3"
      using assms(1) True by (simp add: loop s2_def)
    moreover have "(im_dev s3, f) = (dev, f)" using dev by simp
    from "1.hyps" [OF r refl refl refl this True] gs(1) dev
    have "\<exists>rc s'. imu_loop env opts cal (n + 1) rs' s3 = Some (rc, s') \<and> im_samples s' = im_samples s3 @ map sample_of gs" by simp
    ultimately show ?thesis by (simp add: s3_def s2_def gs(2))
  next
    case False
    with "1.prems" have "fs = []" by (subst (asm) frames.simps) (simp add: r)
    moreover have "rv = 0 \<or> rv = - 1" using read_frame_rv [OF r [unfolded evdev_read_frame_ext_def]] False by simp
    ultimately show ?thesis by (auto simp: loop)
  qed
qed

text \<open>The values of a frame are C integers, and its time step has a decimal form that is read back.\<close>

fun small3 :: "int \<times> int \<times> int \<Rightarrow> bool" where
  "small3 (x, y, z) \<longleftrightarrow> \<bar>x\<bar> < 2 ^ 53 \<and> \<bar>y\<bar> < 2 ^ 53 \<and> \<bar>z\<bar> < 2 ^ 53"

definition frame_ok :: "evdev_frame \<Rightarrow> bool" where
  "frame_ok f \<longleftrightarrow> small3 (fr_accel f) \<and> small3 (fr_gyro f) \<and> (isnan (fr_dt f) \<or> whole_double (dt_text (fr_dt f)) \<noteq> None)"

lemma small_axes:
  assumes "small3 t" shows "list_all int_axis (vlist (vec_of_ints t))"
proof (cases t)
  case (fields x y z)
  then have "int_axis (of_int_d x)" "int_axis (of_int_d y)" "int_axis (of_int_d z)"
    using assms int_axis_of_int by (auto simp only: small3.simps)
  then show ?thesis unfolding fields vec_of_ints.simps vlist.simps by (auto simp only: list_all_iff list.set)
qed

lemma frame_ok_sample:
  assumes "frame_ok f" shows "sample_ok (sample_of f)"
proof -
  have l: "length (vlist t) = 3" for t by (cases t) simp
  have ok: "small3 (fr_accel f)" "small3 (fr_gyro f)" "isnan (fr_dt f) \<or> whole_double (dt_text (fr_dt f)) \<noteq> None"
    using assms unfolding frame_ok_def by blast+
  show ?thesis
    unfolding sample_ok_def sample_of_def imu_sample.select_convs list_all_append l
    using small_axes [OF ok(1)] small_axes [OF ok(2)] ok(3) by blast
qed

text \<open>
  C15: a recording holds what the remote sent: \<^verbatim>\<open>lgmagic imu --csv\<close> returns once the device ends or the user stops it, and the
  file it has written is read by \<^verbatim>\<open>csv_read\<close> (that is, by \<^verbatim>\<open>lgmagic calibrate\<close>) as exactly the frames the device delivered, in order,
  with the time steps rounded to nine digits.
\<close>

theorem imu_recording_readable:
  assumes "evdev_find_imu (ie_nodes env) (ie_dirs env) (imu_device (ie_cfg env)) (ie_dev env) = (None, dev)"
    and "default_calib (ie_cfg env) = None" and "ie_csv env = Written"
    and "frames (ie_reads env) dev = Some fs" and "fs \<noteq> []" and "list_all frame_ok fs"
  shows "\<exists>rc out doc. cmd_imu env [''imu'', ''--csv'', path] = Some (rc, out, Some doc) \<and>
    csv_read path (Bytes doc) = Inr (map (\<lambda>f. sample_rounded (sample_of f)) fs)"
proof -
  define opts where "opts = imu_defaults\<lparr>io_csv := Some path\<rparr>"
  have o: "imu_args [''--csv'', path] imu_defaults = Some opts" by (simp add: opts_def)
  have op: "\<not> io_cube opts" "io_calib opts = None" "\<not> io_print opts" "io_device opts = None" "\<not> io_mouse opts"
    "io_csv opts = Some path" "\<not> dgt (io_duration opts) d0"
    by (simp_all add: opts_def imu_defaults_def)
  define cfg where "cfg = ie_cfg env"
  define s where "s = \<lparr>im_dev = dev, im_t0 = None, im_samples = [],
     im_am = airmouse_gate_cfg (airmouse_init (ie_am env) (cf_lpf_alpha cfg) (mouse_scale cfg)) (accel_gate cfg) (accel_gate_lo cfg)
       (accel_gate_hi cfg), im_mad = None, im_out = [OutDevice (ev_name dev) (ev_path dev) (ev_accel dev) (ev_gyro dev)]\<rparr>"
  have sdev: "im_dev s = dev" "im_samples s = []" by (simp_all add: s_def)
  obtain rc s' where l: "imu_loop env opts None 0 (ie_reads env) s = Some (rc, s')" "im_samples s' = map sample_of fs"
    using imu_loop_records [of opts "ie_reads env" s fs env None 0] op(6,7) assms(4) sdev by auto
  have c: "cmd_imu env [''imu'', ''--csv'', path] = map_option (imu_finish env opts) (imu_loop env opts None 0 (ie_reads env) s)"
    using assms(1,2) op o by (simp add: cmd_imu_def is_help_def imu_run_def s_def cfg_def Let_def)
  define doc where "doc = csv_header @ concat (map csv_line (map sample_of fs))"
  have w: "csv_write path Written (map sample_of fs) = (None, Some doc)" by (simp add: csv_write_def doc_def)
  have "cmd_imu env [''imu'', ''--csv'', path] = Some (rc, im_out s', Some doc)"
    unfolding c l(1) using op(6) assms(3,5) l(2) w by (simp add: imu_finish_def)
  moreover have "list_all sample_ok (map sample_of fs)"
    using assms(6) frame_ok_sample by (simp add: list_all_iff)
  from csv_read_written [OF this w] have "csv_read path (Bytes doc) = Inr (map (\<lambda>f. sample_rounded (sample_of f)) fs)"
    by (simp add: o_def)
  ultimately show ?thesis by blast
qed


definition sample_imu_node :: input_nodes where
  "sample_imu_node p = (if p = ''/dev/input/event6'' then
     Inr \<lparr>nd_fd = 6, nd_name = Some ''LG Magic Remote IMU'', nd_id = Some (15, 13330), nd_abs = (\<lambda>_. None)\<rparr>
   else Inl ''No such file or directory'')"

definition sample_imu_dev :: evdev_imu where
  "sample_imu_dev = \<lparr>ev_fd = - 1, ev_name = [], ev_path = [], last_counter = 0, have_frame = False,
     ev_accel = (0, 0, 0), ev_gyro = (0, 0, 0), ev_vendor = 0, ev_product = 0\<rparr>"

definition sample_imu_env :: imu_env where
  "sample_imu_env = \<lparr>ie_cfg = set_defaults, ie_calib = (\<lambda>_. Inl ''cannot open file''), ie_nodes = sample_imu_node,
     ie_dirs = Inr [''event6''], ie_dev = sample_imu_dev, ie_tty = False, ie_uinput = \<lparr>ui_open = (\<lambda>_. Inr 9), ui_fails = (\<lambda>_. None)\<rparr>,
     ie_am = airmouse_zeroed, ie_libm = sample_libm, ie_stop = (\<lambda>_. False), ie_wait_clock = (\<lambda>_. (0, 0)), ie_clock = (\<lambda>_. (0, 0)),
     ie_poll = (\<lambda>_ _. WaitReady),
     ie_reads = [REvent \<lparr>ev_type = 3, ev_code = 0, ev_value = 12\<rparr>, REvent \<lparr>ev_type = EV_SYN, ev_code = 0, ev_value = 0\<rparr>, REof],
     ie_csv = Written\<rparr>"

theorem imu_recording_readable_witness:
  "\<exists>f rc out doc. frames (ie_reads sample_imu_env) (snd (evdev_find_imu sample_imu_node (Inr [''event6'']) None sample_imu_dev)) = Some [f] \<and>
     cmd_imu sample_imu_env [''imu'', ''--csv'', ''a.csv''] = Some (rc, out, Some doc) \<and>
     csv_read ''a.csv'' (Bytes doc) = Inr [sample_rounded (sample_of f)]"
proof -
  define dev where "dev = snd (evdev_find_imu sample_imu_node (Inr [''event6'']) None sample_imu_dev)"
  have d: "default_calib (ie_cfg sample_imu_env) = None" "imu_device (ie_cfg sample_imu_env) = None" "ie_csv sample_imu_env = Written"
    by (simp_all add: sample_imu_env_def set_defaults_def)
  have "fst (evdev_find_imu sample_imu_node (Inr [''event6'']) None sample_imu_dev) = None" by code_simp
  then have dev: "evdev_find_imu (ie_nodes sample_imu_env) (ie_dirs sample_imu_env) (imu_device (ie_cfg sample_imu_env)) (ie_dev sample_imu_env) = (None, dev)"
    unfolding d(2) dev_def by (simp add: sample_imu_env_def prod_eq_iff)
  have "map_option (map frame_ok) (frames (ie_reads sample_imu_env) dev) = Some [True]" unfolding dev_def by code_simp
  then obtain f where f: "frames (ie_reads sample_imu_env) dev = Some [f]" "frame_ok f" by (auto simp: map_eq_Cons_conv)
  from imu_recording_readable [OF dev d(1,3) f(1)] f show ?thesis unfolding dev_def by simp
qed

end
