(* ===== verification/CBounds.thy ===== *)
theory CBounds
  imports CMath CNumeric
begin

text \<open>
  Rounding keeps bounds: a quotient or product that is at most a half-integer \<open>b / 2\<close> below \<open>2 ^ 51\<close> is rounded to a finite
  double that is at most \<open>b / 2\<close>, because that bound is itself a double. Shared by the casts of bounded doubles to integers.
\<close>

section \<open>The exponent of a quotient\<close>

lemma ilog2_lower:
  assumes "0 < n" and "0 < d" and "0 \<le> ilog2 n d"
  shows "d * 2 ^ nat (ilog2 n d) \<le> n"
proof -
  define k where "k = nbits n - nbits d"
  have n: "2 ^ nat (nbits n - 1) \<le> n" "0 < nbits n" and d: "d < 2 ^ nat (nbits d)" "0 < nbits d"
    using nbits_bounds assms(1,2) by blast+
  show ?thesis
  proof (cases "ilog2 n d = k")
    case True
    then show ?thesis using assms(3) by (auto simp: ilog2_def Let_def k_def split: if_splits)
  next
    case False
    then have l: "ilog2 n d = k - 1" by (auto simp: ilog2_def Let_def k_def split: if_splits)
    then have "nat (nbits n - 1) = nat (nbits d) + nat (k - 1)" using assms(3) n(2) d(2) by (simp add: k_def)
    then have "2 ^ nat (nbits n - 1) = (2::int) ^ nat (nbits d) * 2 ^ nat (k - 1)" by (simp add: power_add)
    moreover have "d * 2 ^ nat (k - 1) \<le> 2 ^ nat (nbits d) * 2 ^ nat (k - 1)" using d(1) by (intro mult_right_mono) simp_all
    ultimately have "d * 2 ^ nat (k - 1) \<le> n" using n(1) by linarith
    then show ?thesis using l by simp
  qed
qed

section \<open>Bounded doubles\<close>

text \<open>A finite double of magnitude at most \<open>b / 2\<close> whose significand is not negative.\<close>

fun dbound :: "int \<Rightarrow> cdouble \<Rightarrow> bool" where
  "dbound b (DFin s m e) = (0 \<le> m \<and> 2 * (of_int m * 2 powi e :: real) \<le> of_int b)"
| "dbound b _ = False"

text \<open>A quotient below \<open>2 ^ 51\<close> is rounded to a multiple \<open>q\<close> of a negative power of two.\<close>

definition half_even :: "int \<Rightarrow> int \<Rightarrow> int" where
  "half_even a c = (if 2 * (a mod c) > c \<or> (2 * (a mod c) = c \<and> odd (a div c)) then a div c + 1 else a div c)"

lemma half_even_le: "0 < c \<Longrightarrow> a \<le> M * c \<Longrightarrow> half_even a c \<le> M"
proof (cases "a div c < M")
  case False
  assume c: "0 < c" and a: "a \<le> M * c"
  have "a div c \<le> M" using zdiv_mono1 [OF a c] c by simp
  with False have q: "a div c = M" by simp
  have "a mod c = a - M * c" using q by (simp add: minus_div_mult_eq_mod [symmetric])
  with a have "a mod c = 0" using pos_mod_sign [OF c, of a] by simp
  with q c show ?thesis by (simp add: half_even_def)
qed (simp add: half_even_def)

lemma half_even_ge: "0 < c \<Longrightarrow> M * c \<le> a \<Longrightarrow> M \<le> half_even a c"
  using zdiv_mono1 [of "M * c" a c] by (simp add: half_even_def)

lemma round_ratio_small:
  assumes "0 < n" and "0 < d" and "2 * n \<le> b * d" and "b < 2 ^ 52"
  shows "\<exists>w. round_ratio s n d = (if half_even (n * 2 ^ Suc w) d = 2 ^ 53 then DFin s (2 ^ 52) (- int w)
    else DFin s (half_even (n * 2 ^ Suc w) d) (- int (Suc w)))"
proof -
  define e where "e = max (- 1074) (ilog2 n d - 52)"
  have e: "e < 0"
  proof (rule ccontr)
    assume "\<not> e < 0"
    then have l: "52 \<le> ilog2 n d" by (simp add: e_def max_def split: if_splits)
    have "d * 2 ^ 52 \<le> d * 2 ^ nat (ilog2 n d)" using assms(2) l by (intro mult_left_mono power_increasing) simp_all
    also have "\<dots> \<le> n" using ilog2_lower [OF assms(1,2)] l by simp
    finally have "d * 2 ^ 52 \<le> n" .
    moreover have "b * d < 2 ^ 52 * d" using assms(2,4) by (intro mult_strict_right_mono)
    ultimately show False using assms(1,3) by simp
  qed
  define w where "w = nat (- e) - 1"
  have w: "nat (- e) = Suc w" "e = - int (Suc w)" "e + 1 = - int w" using e by (simp_all add: w_def)
  have "round_ratio s n d = (if half_even (n * 2 ^ Suc w) d = 2 ^ 53 then DFin s (2 ^ 52) (e + 1) else DFin s (half_even (n * 2 ^ Suc w) d) e)"
  proof -
    have c: "(n = 0) = False" "(0 \<le> e) = False" "(971 < e) = False" "(971 < e + 1) = False" using assms(1) e by simp_all
    show ?thesis unfolding round_ratio_def e_def [symmetric] Let_def c if_False w(1) half_even_def [symmetric]
      by (cases "half_even (n * 2 ^ Suc w) d = 2 ^ 53") (simp_all only: c if_True if_False simp_thms)
  qed
  then show ?thesis unfolding w(3) unfolding w(2) by (rule exI)
qed

lemma round_ratio_value:
  assumes "0 < n" and "0 < d" and "2 * n \<le> b * d" and "b < 2 ^ 52"
  shows "\<exists>w m e. round_ratio s n d = DFin s m e \<and> 0 \<le> m \<and>
    2 * (of_int m * 2 powi e :: real) = of_int (half_even (n * 2 ^ Suc w) d) / 2 ^ w"
proof -
  obtain w where r: "round_ratio s n d = (if half_even (n * 2 ^ Suc w) d = 2 ^ 53 then DFin s (2 ^ 52) (- int w)
      else DFin s (half_even (n * 2 ^ Suc w) d) (- int (Suc w)))" using round_ratio_small [OF assms] by (rule exE)
  have q: "0 \<le> half_even (n * 2 ^ Suc w) d" using assms(1,2) by (intro half_even_ge) simp_all
  have pw: "(2::real) powi (- int k) = inverse (2 ^ k)" for k by (simp only: power_int_minus power_int_of_nat)
  have p: "(2::real) powi (- int w) = 1 / 2 ^ w" "2 * (2::real) powi (- int (Suc w)) = 1 / 2 ^ w"
    unfolding pw by (simp_all add: inverse_eq_divide)
  show ?thesis
  proof (cases "half_even (n * 2 ^ Suc w) d = 2 ^ 53")
    case True
    then have "round_ratio s n d = DFin s (2 ^ 52) (- int w)" using r by (simp only: if_True simp_thms)
    moreover have "2 * (of_int (2 ^ 52) * 2 powi (- int w) :: real) = of_int (half_even (n * 2 ^ Suc w) d) / 2 ^ w"
      unfolding True p(1) by simp
    ultimately show ?thesis by (intro exI [of _ w] exI [of _ "2 ^ 52"] exI [of _ "- int w"] conjI) (assumption, rule zero_le_power [OF zero_le_numeral], assumption)
  next
    case False
    have "2 * (of_int (half_even (n * 2 ^ Suc w) d) * 2 powi (- int (Suc w)) :: real) =
        of_int (half_even (n * 2 ^ Suc w) d) * (2 * 2 powi (- int (Suc w)))" by simp
    also have "\<dots> = of_int (half_even (n * 2 ^ Suc w) d) / 2 ^ w" unfolding p(2) by simp
    finally show ?thesis using r False q
      by (intro exI [of _ w] exI [of _ "half_even (n * 2 ^ Suc w) d"] exI [of _ "- int (Suc w)"] conjI) (simp_all only: if_False)
  qed
qed

lemma round_ratio_bound:
  assumes "0 \<le> n" and "0 < d" and "2 * n \<le> b * d" and "b < 2 ^ 52"
  shows "dbound b (round_ratio s n d)"
proof (cases "n = 0")
  case True
  then have "0 \<le> b * d" using assms(3) by simp
  then have "0 \<le> b" using assms(2) by (simp add: zero_le_mult_iff)
  then show ?thesis using True by simp
next
  case False
  then have n: "0 < n" using assms(1) by simp
  obtain w m e where r: "round_ratio s n d = DFin s m e" "0 \<le> m"
    "2 * (of_int m * 2 powi e :: real) = of_int (half_even (n * 2 ^ Suc w) d) / 2 ^ w"
    using round_ratio_value [OF n assms(2-4)] by blast
  have "n * 2 ^ Suc w \<le> (b * 2 ^ w) * d" using mult_right_mono [OF assms(3), of "2 ^ w"] by (simp add: algebra_simps)
  from half_even_le [OF assms(2) this] have "(of_int (half_even (n * 2 ^ Suc w) d) :: real) \<le> of_int (b * 2 ^ w)"
    by (simp only: of_int_le_iff)
  then show ?thesis using r by (simp add: divide_le_eq)
qed

text \<open>A positive double of at least \<open>c / 2\<close>.\<close>

fun dfloor :: "int \<Rightarrow> cdouble \<Rightarrow> bool" where
  "dfloor c (DFin s m e) = (\<not> s \<and> 0 < m \<and> of_int c \<le> 2 * (of_int m * 2 powi e :: real))"
| "dfloor c _ = False"

lemma round_ratio_floor:
  assumes "0 < c" and "0 < n" and "0 < d" and "c * d \<le> 2 * n" and "2 * n \<le> b * d" and "b < 2 ^ 52"
  shows "dfloor c (round_ratio False n d)"
proof -
  obtain w m e where r: "round_ratio False n d = DFin False m e" "0 \<le> m"
    "2 * (of_int m * 2 powi e :: real) = of_int (half_even (n * 2 ^ Suc w) d) / 2 ^ w"
    using round_ratio_value [OF assms(2,3,5,6)] by blast
  have "(c * 2 ^ w) * d \<le> n * 2 ^ Suc w" using mult_right_mono [OF assms(4), of "2 ^ w"] by (simp add: algebra_simps)
  from half_even_ge [OF assms(3) this] have "(of_int (c * 2 ^ w) :: real) \<le> of_int (half_even (n * 2 ^ Suc w) d)"
    by (simp only: of_int_le_iff)
  then have ge: "of_int c \<le> 2 * (of_int m * 2 powi e :: real)" unfolding r(3) by (simp add: le_divide_eq)
  then have "m \<noteq> 0" using assms(1) by auto
  then show ?thesis using r(1,2) ge by simp
qed

lemma round_dyadic_bound:
  assumes "0 \<le> n" and "2 * (of_int n * 2 powi e :: real) \<le> of_int b" and "b < 2 ^ 52"
  shows "dbound b (round_dyadic s n e)"
proof (cases "0 \<le> e")
  case True
  have "(of_int (2 * (n * 2 ^ nat e)) :: real) \<le> of_int b" using assms(2) True by (simp add: power_int_def mult.assoc)
  then have "2 * (n * 2 ^ nat e) \<le> b * 1" by (simp only: of_int_le_iff mult_1_right)
  with round_ratio_bound [of "n * 2 ^ nat e" 1 b s] assms(1,3) True show ?thesis by (simp add: round_dyadic_def)
next
  case False
  have "2 * of_int n \<le> of_int b * (2 ^ nat (- e) :: real)"
    using assms(2) False by (simp add: power_int_def field_simps)
  then have "(of_int (2 * n) :: real) \<le> of_int (b * 2 ^ nat (- e))" by simp
  then have "2 * n \<le> b * 2 ^ nat (- e)" by (simp only: of_int_le_iff)
  with round_ratio_bound [of n "2 ^ nat (- e)" b s] assms(1,3) False show ?thesis by (simp add: round_dyadic_def)
qed

text \<open>Bounds of sums and products.\<close>

lemma dbound_real: "dbound b x \<longleftrightarrow> isfin x \<and> (\<exists>s m e. x = DFin s m e \<and> 0 \<le> m) \<and> 2 * \<bar>dreal x\<bar> \<le> of_int b"
  by (cases x) (auto simp: smant_def abs_mult)

lemma dmul_bound:
  assumes "dbound a x" and "dbound c y" and "a * c \<le> 2 * b" and "b < 2 ^ 52"
  shows "dbound b (dmul x y)"
proof -
  obtain s m e t n f where [simp]: "x = DFin s m e" "y = DFin t n f" using assms(1,2) by (cases x; cases y) auto
  let ?u = "of_int m * 2 powi e :: real" and ?v = "of_int n * 2 powi f :: real"
  have uv: "0 \<le> ?u" "0 \<le> ?v" using assms(1,2) by simp_all
  have "2 * ?u \<le> of_int a" "2 * ?v \<le> of_int c" using assms(1,2) by simp_all
  then have "(2 * ?u) * (2 * ?v) \<le> of_int a * of_int c" using uv by (intro mult_mono) linarith+
  also have "\<dots> \<le> of_int (2 * b)" using assms(3) by (metis of_int_le_iff of_int_mult)
  finally have "2 * (of_int (m * n) * 2 powi (e + f) :: real) \<le> of_int b" by (simp add: power_int_add algebra_simps)
  with round_dyadic_bound [of "m * n" "e + f" b] assms(1,2,4) show ?thesis by simp
qed

lemma dadd_bound:
  assumes "dbound a x" and "dbound c y" and "a + c \<le> b" and "b < 2 ^ 52"
  shows "dbound b (dadd x y)"
proof -
  obtain s m e t n f where [simp]: "x = DFin s m e" "y = DFin t n f" using assms(1,2) by (cases x; cases y) auto
  define v where "v = align (smant s m) e f + align (smant t n) f e"
  have r: "of_int (align (smant s m) e f) * 2 powi (min e f) = (of_int (smant s m) * 2 powi e :: real)"
    "of_int (align (smant t n) f e) * 2 powi (min e f) = (of_int (smant t n) * 2 powi f :: real)"
    using align_real [of "smant s m" e f] align_real [of "smant t n" f e] by (simp_all add: min.commute)
  have vr: "of_int v * 2 powi (min e f) = (of_int (smant s m) * 2 powi e + of_int (smant t n) * 2 powi f :: real)"
    by (simp add: v_def distrib_right r)
  have "\<bar>of_int (smant s m) * 2 powi e :: real\<bar> = of_int m * 2 powi e" "\<bar>of_int (smant t n) * 2 powi f :: real\<bar> = of_int n * 2 powi f"
    using assms(1,2) by (auto simp: smant_def abs_mult)
  then have "\<bar>of_int v * 2 powi (min e f) :: real\<bar> \<le> of_int m * 2 powi e + of_int n * 2 powi f"
    unfolding vr by (metis abs_triangle_ineq)
  moreover have "\<bar>of_int v * 2 powi (min e f) :: real\<bar> = of_int \<bar>v\<bar> * 2 powi (min e f)" by (simp add: abs_mult)
  moreover have "2 * (of_int m * 2 powi e) + 2 * (of_int n * 2 powi f :: real) \<le> of_int (a + c)" using assms(1,2) by simp
  moreover have "(of_int (a + c) :: real) \<le> of_int b" using assms(3) by (simp only: of_int_le_iff)
  ultimately have bound: "2 * (of_int \<bar>v\<bar> * 2 powi (min e f) :: real) \<le> of_int b" by linarith
  have "(0::real) \<le> of_int \<bar>v\<bar> * 2 powi (min e f)" by simp
  with bound have "0 \<le> b" by linarith
  with round_dyadic_bound [OF _ bound assms(4), of "v < 0"] show ?thesis by (simp add: v_def [symmetric] Let_def)
qed

lemma dbound_mono: "dbound a x \<Longrightarrow> a \<le> b \<Longrightarrow> dbound b x"
  by (cases x) (auto intro: order_trans)

lemma dneg_bound [simp]: "dbound b (dneg x) = dbound b x"
  by (cases x) auto

text \<open>The cast of a bounded double is defined, and bounded.\<close>

lemma dtrunc_bound:
  assumes "dbound b x"
  shows "\<exists>i. dtrunc x = Some i \<and> 2 * \<bar>i\<bar> \<le> b"
proof -
  obtain s m e where [simp]: "x = DFin s m e" using assms by (cases x) auto
  define v where "v = (if e \<ge> 0 then m * 2 ^ nat e else m div 2 ^ nat (- e))"
  have m: "0 \<le> m" using assms by simp
  have "of_int v \<le> (of_int m * 2 powi e :: real)"
  proof (cases "0 \<le> e")
    case True
    then show ?thesis by (simp add: v_def power_int_def)
  next
    case False
    have "of_int v = (of_int \<lfloor>of_int m / of_int (2 ^ nat (- e)) :: real\<rfloor> :: real)" using False by (simp only: v_def if_False floor_divide_of_int_eq)
    also have "\<dots> \<le> of_int m / of_int (2 ^ nat (- e))" by (rule of_int_floor_le)
    finally show ?thesis using False by (simp add: power_int_def field_simps)
  qed
  then have "2 * of_int v \<le> (of_int b :: real)" using assms by simp
  then have "2 * v \<le> b" by (metis of_int_le_iff of_int_mult of_int_numeral)
  moreover have "0 \<le> v" using m by (simp add: v_def pos_imp_zdiv_nonneg_iff)
  ultimately show ?thesis by (simp add: v_def [symmetric] Let_def)
qed

text \<open>Lower bounds of sums, and bounds of quotients.\<close>

lemma round_dyadic_floor:
  assumes "0 < c" and "0 < n" and "of_int c \<le> 2 * (of_int n * 2 powi e :: real)" and "2 * (of_int n * 2 powi e :: real) \<le> of_int b"
    and "b < 2 ^ 52"
  shows "dfloor c (round_dyadic False n e)"
proof (cases "0 \<le> e")
  case True
  have r: "2 * (of_int n * 2 powi e) = (of_int (2 * (n * 2 ^ nat e)) :: real)" using True by (simp add: power_int_def)
  then have "c * 1 \<le> 2 * (n * 2 ^ nat e)" "2 * (n * 2 ^ nat e) \<le> b * 1"
    using assms(3,4) by (simp_all only: of_int_le_iff mult_1_right)
  from round_ratio_floor [OF assms(1) _ _ this assms(5)] assms(2) True show ?thesis by (simp add: round_dyadic_def)
next
  case False
  have p: "(2::real) powi e = inverse (2 ^ nat (- e))" using False by (simp add: power_int_def power_one_over field_simps)
  have "(of_int (c * 2 ^ nat (- e)) :: real) \<le> of_int (2 * n)" "(of_int (2 * n) :: real) \<le> of_int (b * 2 ^ nat (- e))"
    using assms(3,4) unfolding p by (simp_all add: field_simps)
  then have "c * 2 ^ nat (- e) \<le> 2 * n" "2 * n \<le> b * 2 ^ nat (- e)" by (simp_all only: of_int_le_iff)
  from round_ratio_floor [OF assms(1,2) _ this assms(5)] False show ?thesis by (simp add: round_dyadic_def)
qed

lemma dadd_floor:
  assumes "dbound a x" and "dfloor c y" and "dbound b y" and "a < c" and "a + b < 2 ^ 52"
  shows "dfloor (c - a) (dadd x y)"
proof -
  obtain s m e n f where [simp]: "x = DFin s m e" "y = DFin False n f" using assms(1,2) by (cases x; cases y) auto
  define v where "v = align (smant s m) e f + align n f e"
  have r: "of_int (align (smant s m) e f) * 2 powi (min e f) = (of_int (smant s m) * 2 powi e :: real)"
    "of_int (align n f e) * 2 powi (min e f) = (of_int n * 2 powi f :: real)"
    using align_real [of "smant s m" e f] align_real [of n f e] by (simp_all add: min.commute)
  have vr: "of_int v * 2 powi (min e f) = (of_int (smant s m) * 2 powi e + of_int n * 2 powi f :: real)"
    by (simp add: v_def distrib_right r)
  have x: "\<bar>of_int (smant s m) * 2 powi e :: real\<bar> = of_int m * 2 powi e" using assms(1) by (auto simp: smant_def abs_mult)
  have b: "of_int (c - a) \<le> 2 * (of_int v * 2 powi (min e f) :: real)" "2 * (of_int v * 2 powi (min e f) :: real) \<le> of_int (a + b)"
    using assms(1-3) x unfolding vr by auto
  have "(0::real) < of_int (c - a)" using assms(4) by simp
  then have "(0::real) < of_int v * 2 powi (min e f)" using b(1) by linarith
  moreover have "(0::real) < 2 powi (min e f)" by (simp add: zero_less_power_int)
  ultimately have "(0::real) < of_int v" by (rule zero_less_mult_pos2)
  then have v: "0 < v" by simp
  from round_dyadic_floor [OF _ v b assms(5)] assms(4) v have "dfloor (c - a) (round_dyadic (v < 0) \<bar>v\<bar> (min e f))" by simp
  moreover have "smant False n = n" by (simp add: smant_def)
  ultimately show ?thesis using v by (simp add: v_def [symmetric] Let_def)
qed

lemma ddiv_bound:
  assumes "dbound a x" and "dfloor c y" and "0 \<le> b" and "2 * a \<le> b * c" and "b < 2 ^ 52"
  shows "dbound b (ddiv x y)"
proof -
  obtain s m e n f where [simp]: "x = DFin s m e" "y = DFin False n f" using assms(1,2) by (cases x; cases y) auto
  have m: "0 \<le> m" "0 < n" using assms(1,2) by simp_all
  have "2 * (2 * (of_int m * 2 powi e) :: real) \<le> of_int (2 * a)" using assms(1) by simp
  also have "\<dots> \<le> of_int (b * c)" using assms(4) by (simp only: of_int_le_iff)
  also have "\<dots> \<le> of_int b * (2 * (of_int n * 2 powi f))" using assms(2,3) by (simp add: mult_left_mono)
  finally have le: "2 * of_int m * 2 powi e \<le> (of_int b * of_int n * 2 powi f :: real)" by simp
  show ?thesis
  proof (cases "f \<le> e")
    case True
    have "(of_int (2 * (m * 2 ^ nat (e - f))) :: real) * 2 powi f \<le> of_int (b * n) * 2 powi f"
      using le powi_split [OF True] by (simp add: mult.assoc)
    then have "(of_int (2 * (m * 2 ^ nat (e - f))) :: real) \<le> of_int (b * n)" by (rule mult_right_le_imp_le) (simp add: zero_less_power_int)
    then have "2 * (m * 2 ^ nat (e - f)) \<le> b * n" by (simp only: of_int_le_iff)
    from round_ratio_bound [OF _ m(2) this assms(5)] m True show ?thesis by simp
  next
    case False
    have "(of_int (2 * m) :: real) * 2 powi e \<le> of_int (b * (n * 2 ^ nat (f - e))) * 2 powi e"
      using le powi_split [of e f] False by (simp add: mult.assoc)
    then have "(of_int (2 * m) :: real) \<le> of_int (b * (n * 2 ^ nat (f - e)))" by (rule mult_right_le_imp_le) (simp add: zero_less_power_int)
    then have "2 * m \<le> b * (n * 2 ^ nat (f - e))" by (simp only: of_int_le_iff)
    from round_ratio_bound [OF _ _ this assms(5)] m False show ?thesis by simp
  qed
qed

lemma of_int_bound: "\<bar>i\<bar> < 2 ^ 50 \<Longrightarrow> dbound (2 * \<bar>i\<bar>) (of_int_d i)"
  unfolding of_int_d_def by (rule round_ratio_bound) simp_all

lemma d2int_bound: "dbound b x \<Longrightarrow> b < 2 ^ 32 \<Longrightarrow> d2int x \<noteq> None"
  using dtrunc_bound [of b x] by (auto simp: d2int_def)

end
