(* ===== verification/Cube.thy ===== *)
theory Cube
  imports Ahrs CBounds
begin

text \<open>
  The wireframe cube of \<^verbatim>\<open>lgmagic imu --cube\<close>: \<^verbatim>\<open>tools/src/cube.c\<close>. The static \<^verbatim>\<open>C\<close> is the record \<open>cube\<close>, with what was written to
  the terminal; its blocks of memory are lists, and an access outside of a block is the fault \<open>OutOfBounds\<close>. The cast of
  a double outside the range of \<^verbatim>\<open>int\<close> is the fault \<open>BadCast\<close>. \<open>term_env\<close> holds what the system answers: the size of the terminal, which
  allocations succeed, and what fresh memory contains.
\<close>

section \<open>State\<close>

datatype cube_fault = BadCast | OutOfBounds

record cube =
  cu_rows :: int
  cu_cols :: int
  cu_grid :: "string option"
  cu_zbuf :: "cdouble list option"
  cu_out_cap :: "nat option"        \<comment> \<open>the size of the frame buffer, when there is one\<close>
  cu_inited :: bool
  cu_stdout :: string

definition cube_zero :: cube where
  "cube_zero = \<lparr>cu_rows = 0, cu_cols = 0, cu_grid = None, cu_zbuf = None, cu_out_cap = None, cu_inited = False, cu_stdout = []\<rparr>"

record term_env =
  te_size :: "(int \<times> int) option"
  te_grid_ok :: bool
  te_zbuf_ok :: bool
  te_out_ok :: bool
  te_grid_junk :: "nat \<Rightarrow> char"
  te_zbuf_junk :: "nat \<Rightarrow> cdouble"

definition CUBE_LUM :: string where "CUBE_LUM = ''.,-~:;=!*#$@''"
definition CUBE_NLUM :: int where "CUBE_NLUM = 12"
definition CUBE_F :: cdouble where "CUBE_F = dlit 22 10"
definition CUBE_D :: cdouble where "CUBE_D = dlit 5 1"
definition CUBE_HALF :: cdouble where "CUBE_HALF = dlit 18 10"
definition CUBE_STEPS :: nat where "CUBE_STEPS = 60"
definition zfar :: cdouble where "zfar = dlit (10 ^ 30) 1"

definition VERTICES :: "vec3 list" where
  "VERTICES = (let p = dlit 1 1; n = dlit (- 1) 1
     in [(n, n, n), (p, n, n), (p, n, p), (n, n, p), (n, p, n), (p, p, n), (p, p, p), (n, p, p)])"

definition EDGES :: "(nat \<times> nat) list" where
  "EDGES = [(0, 1), (1, 2), (2, 3), (3, 0), (4, 5), (5, 6), (6, 7), (7, 4), (0, 4), (1, 5), (2, 6), (3, 7)]"

section \<open>The terminal\<close>

definition win_size :: "term_env \<Rightarrow> int \<times> int" where
  "win_size te = (case te_size te of
     Some (r, c) \<Rightarrow> if 8 \<le> r \<and> 20 \<le> c then (r, c) else (24, 80)
   | None \<Rightarrow> (24, 80))"

definition cells :: "cube \<Rightarrow> nat" where
  "cells C = nat (cu_rows C - 1) * nat (cu_cols C)"

definition get_size :: "term_env \<Rightarrow> cube \<Rightarrow> cube" where
  "get_size te C = (case win_size te of (rows, cols) \<Rightarrow>
     if rows = cu_rows C \<and> cols = cu_cols C then C
     else let n = nat (rows - 1) * nat cols
          in C\<lparr>cu_rows := rows, cu_cols := cols,
               cu_grid := (if te_grid_ok te then Some (map (te_grid_junk te) [0..<n]) else None),
               cu_zbuf := (if te_zbuf_ok te then Some (map (te_zbuf_junk te) [0..<n]) else None)\<rparr>)"

definition cube_init :: "term_env \<Rightarrow> cube \<Rightarrow> cube" where
  "cube_init te C = (let C = get_size te C in C\<lparr>cu_inited := True, cu_stdout := cu_stdout C @ CHR 0x1B # ''[?25l''\<rparr>)"

definition cube_shutdown :: "cube \<Rightarrow> cube" where
  "cube_shutdown C =
     (if \<not> cu_inited C then C
      else C\<lparr>cu_inited := False, cu_stdout := cu_stdout C @ CHR 0x1B # ''[?25h'' @ [CHR 0x0A]\<rparr>)"

section \<open>Projection\<close>

definition cube_project :: "quat \<Rightarrow> vec3 \<Rightarrow> int \<Rightarrow> int \<Rightarrow> vec3" where
  "cube_project q v rows cols = (case mat3_mul_vec3 (quat_to_mat3 q) v of (x, y, z) \<Rightarrow>
     let zc = dadd z CUBE_D; s = dmul (dlit 2 10) (of_int_d cols)
     in (to_float (dadd (ddiv (of_int_d cols) d2) (dmul (ddiv (dmul x CUBE_F) zc) s)),
         to_float (dsub (ddiv (of_int_d rows) d2) (dmul (dmul (ddiv (dmul y CUBE_F) zc) s) (dlit 1 2))),
         to_float zc))"

text \<open>The points that are drawn: 61 on each edge of the rotated cube.\<close>

definition cube_vertices :: "quat \<Rightarrow> vec3 list" where
  "cube_vertices q = map (mat3_mul_vec3 (quat_to_mat3 q)) VERTICES"

fun edge_point :: "vec3 \<Rightarrow> vec3 \<Rightarrow> nat \<Rightarrow> vec3" where
  "edge_point (a0, a1, a2) (b0, b1, b2) s =
     (let t = ddiv (of_int_d (int s)) (of_int_d (int CUBE_STEPS))
      in (dadd a0 (dmul (dsub b0 a0) t), dadd a1 (dmul (dsub b1 a1) t), dadd a2 (dmul (dsub b2 a2) t)))"

definition cube_points :: "quat \<Rightarrow> vec3 list" where
  "cube_points q = (let vv = cube_vertices q
     in concat (map (\<lambda>(a, b). map (edge_point (vv ! a) (vv ! b)) [0..<CUBE_STEPS + 1]) EDGES))"

fun depth_of :: "vec3 \<Rightarrow> cdouble" where
  "depth_of (px, py, pz) = dadd pz CUBE_D"

text \<open>The row and the column of a point; \<^const>\<open>None\<close>: a cast is undefined.\<close>

fun screen_pos :: "int \<Rightarrow> int \<Rightarrow> vec3 \<Rightarrow> (int \<times> int) option" where
  "screen_pos rows cols (px, py, pz) =
     (let zc = dadd pz CUBE_D;
          sc = dmul (dlit 2 10) (of_int_d cols);
          x = dadd (ddiv (of_int_d cols) d2) (dmul (ddiv (dmul px CUBE_F) zc) sc);
          y = dsub (ddiv (of_int_d rows) d2) (dmul (dmul (ddiv (dmul py CUBE_F) zc) sc) (dlit 1 2))
      in case (d2int (dadd y (dlit 1 2)), d2int (dadd x (dlit 1 2))) of
           (Some r, Some c) \<Rightarrow> Some (r, c)
         | _ \<Rightarrow> None)"

section \<open>Drawing\<close>

text \<open>Reading and writing a cell of a block.\<close>

definition fetch :: "'a list \<Rightarrow> nat \<Rightarrow> cube_fault + 'a" where
  "fetch xs k = (if k < length xs then Inr (xs ! k) else Inl OutOfBounds)"

definition store :: "'a list \<Rightarrow> nat \<Rightarrow> 'a \<Rightarrow> cube_fault + 'a list" where
  "store xs k v = (if k < length xs then Inr (xs[k := v]) else Inl OutOfBounds)"

text \<open>The shading of a depth: an index into \<^const>\<open>CUBE_LUM\<close>, whose terminating NUL is still part of the array.\<close>

definition luminance :: "cdouble \<Rightarrow> cube_fault + char" where
  "luminance zc =
     (let t = ddiv (dsub zc (dsub CUBE_D CUBE_HALF)) (dmul d2 CUBE_HALF);
          t = (if dlt t d0 then d0 else t);
          t = (if dgt t d1 then d1 else t)
      in case d2int (dadd (dmul t (of_int_d (CUBE_NLUM - 1))) (dlit 1 2)) of
           None \<Rightarrow> Inl BadCast
         | Some idx \<Rightarrow>
             (let k = CUBE_NLUM - 1 - idx
              in if k < 0 then Inl OutOfBounds else fetch (CUBE_LUM @ [CHR 0x00]) (nat k)))"

definition plot :: "int \<Rightarrow> int \<Rightarrow> int \<Rightarrow> int \<Rightarrow> cdouble \<Rightarrow> string \<times> cdouble list \<Rightarrow> cube_fault + (string \<times> cdouble list)" where
  "plot rows cols r c zc b = (case b of (grid, zbuf) \<Rightarrow>
     if r < 1 \<or> r \<ge> rows \<or> c < 0 \<or> c \<ge> cols then Inr (grid, zbuf)
     else let k = nat (r - 1) * nat cols + nat c
          in case fetch zbuf k of
               Inl f \<Rightarrow> Inl f
             | Inr z \<Rightarrow>
                 if dge zc z then Inr (grid, zbuf)
                 else (case store zbuf k zc of
                         Inl f \<Rightarrow> Inl f
                       | Inr zbuf \<Rightarrow>
                           (case luminance zc of
                              Inl f \<Rightarrow> Inl f
                            | Inr ch \<Rightarrow>
                                (case store grid k ch of Inl f \<Rightarrow> Inl f | Inr grid \<Rightarrow> Inr (grid, zbuf)))))"

fun draw_points :: "int \<Rightarrow> int \<Rightarrow> vec3 list \<Rightarrow> string \<times> cdouble list \<Rightarrow> cube_fault + (string \<times> cdouble list)" where
  "draw_points rows cols [] b = Inr b"
| "draw_points rows cols (p # ps) b = (case screen_pos rows cols p of
     None \<Rightarrow> Inl BadCast
   | Some (r, c) \<Rightarrow>
       (case plot rows cols r c (depth_of p) b of
          Inl f \<Rightarrow> Inl f
        | Inr b \<Rightarrow> draw_points rows cols ps b))"

text \<open>\<open>memset\<close> of the grid, and the loop that resets the depths.\<close>

definition clear_grid :: "nat \<Rightarrow> string \<Rightarrow> cube_fault + string" where
  "clear_grid n g = (if n \<le> length g then Inr (replicate n CHR '' '' @ drop n g) else Inl OutOfBounds)"

fun store_all :: "nat list \<Rightarrow> 'a \<Rightarrow> 'a list \<Rightarrow> cube_fault + 'a list" where
  "store_all [] v xs = Inr xs"
| "store_all (k # ks) v xs = (case store xs k v of Inl f \<Rightarrow> Inl f | Inr xs \<Rightarrow> store_all ks v xs)"

definition clear_zbuf :: "int \<Rightarrow> int \<Rightarrow> cdouble list \<Rightarrow> cube_fault + cdouble list" where
  "clear_zbuf rows cols z =
     store_all (concat (map (\<lambda>row. map (\<lambda>c. row * nat cols + c) [0..<nat cols]) [0..<nat (rows - 1)])) zfar z"

section \<open>The frame\<close>

text \<open>\<open>%+.2f\<close>; the sign of a NaN is not modelled.\<close>

definition fmt_plus :: "nat \<Rightarrow> cdouble \<Rightarrow> string" where
  "fmt_plus p x = (let s = fmt_f p x in if s \<noteq> [] \<and> hd s = CHR ''-'' then s else CHR ''+'' # s)"

definition cube_header :: "libm \<Rightarrow> quat \<Rightarrow> string" where
  "cube_header m q = (case quat_to_euler m q of (roll, pitch, yaw) \<Rightarrow>
     let k = ddiv (dlit 180 1) M_PI
     in ''Roll='' @ fmt_plus 2 (dmul roll k) @ ''  Pitch='' @ fmt_plus 2 (dmul pitch k) @
        ''  Yaw='' @ fmt_plus 2 (dmul yaw k) @ [CHR 0x0A])"

text \<open>The loop \<open>while (last >= 0 && line[last] == ' ') last--\<close>, on the length of what is left.\<close>

fun line_len :: "string \<Rightarrow> nat \<Rightarrow> nat" where
  "line_len line 0 = 0"
| "line_len line (Suc n) = (if line ! n = CHR '' '' then line_len line n else Suc n)"

text \<open>
  Appending to the frame buffer of \<open>cap\<close> bytes: the list is what lies before \<open>pos\<close>. A \<^verbatim>\<open>snprintf\<close> that does not fit moves
  \<open>pos\<close> to or past the end of the buffer and writes nothing there; the write after it is out of bounds.
\<close>

definition put_bytes :: "nat \<Rightarrow> string \<Rightarrow> string \<Rightarrow> cube_fault + string" where
  "put_bytes cap s b = (if length b + length s \<le> cap then Inr (b @ s) else Inl OutOfBounds)"

fun put_lines :: "nat \<Rightarrow> nat \<Rightarrow> nat \<Rightarrow> string \<Rightarrow> string \<Rightarrow> cube_fault + string" where
  "put_lines cap cols 0 grid b = Inr b"
| "put_lines cap cols (Suc n) grid b =
     (if length grid < cols then Inl OutOfBounds
      else let line = take cols grid
           in case put_bytes cap (take (line_len line cols) line) b of
                Inl f \<Rightarrow> Inl f
              | Inr b \<Rightarrow>
                  (case put_bytes cap [CHR 0x0A] b of
                     Inl f \<Rightarrow> Inl f
                   | Inr b \<Rightarrow> put_lines cap cols n (drop cols grid) b))"

definition frame_need :: "int \<Rightarrow> int \<Rightarrow> nat" where
  "frame_need rows cols = nat (rows - 1) * nat (cols + 2) + 128"

definition cube_frame :: "nat \<Rightarrow> string \<Rightarrow> int \<Rightarrow> int \<Rightarrow> string \<Rightarrow> cube_fault + string" where
  "cube_frame cap hdr rows cols grid = (case put_bytes cap (CHR 0x1B # ''[H'') [] of
     Inl f \<Rightarrow> Inl f
   | Inr b \<Rightarrow> put_lines cap (nat cols) (nat (rows - 1)) grid (b @ hdr))"

text \<open>\<open>te0\<close> answers the call of \<^const>\<open>cube_init\<close>, which only a cube that was shut down needs.\<close>

definition cube_render :: "libm \<Rightarrow> term_env \<Rightarrow> term_env \<Rightarrow> quat \<Rightarrow> cube \<Rightarrow> cube_fault + cube" where
  "cube_render m te0 te q C0 =
     (let C = get_size te (if cu_inited C0 then C0 else cube_init te0 C0); rows = cu_rows C; cols = cu_cols C
      in case (cu_grid C, cu_zbuf C) of
           (Some grid, Some zbuf) \<Rightarrow>
             (case clear_grid (cells C) grid of
                Inl f \<Rightarrow> Inl f
              | Inr grid \<Rightarrow>
             (case clear_zbuf rows cols zbuf of
                Inl f \<Rightarrow> Inl f
              | Inr zbuf \<Rightarrow>
             (case draw_points rows cols (cube_points q) (grid, zbuf) of
                Inl f \<Rightarrow> Inl f
              | Inr (grid, zbuf) \<Rightarrow>
                  let C = C\<lparr>cu_grid := Some grid, cu_zbuf := Some zbuf\<rparr>;
                      need = frame_need rows cols;
                      grow = (case cu_out_cap C of None \<Rightarrow> True | Some cap \<Rightarrow> cap < need)
                  in if grow \<and> \<not> te_out_ok te then Inr C
                     else let cap = (if grow then need else the (cu_out_cap C))
                          in case cube_frame cap (cube_header m q) rows cols grid of
                               Inl f \<Rightarrow> Inl f
                             | Inr frame \<Rightarrow> Inr (C\<lparr>cu_out_cap := Some cap, cu_stdout := cu_stdout C @ frame\<rparr>))))
         | _ \<Rightarrow> Inr C)"

text \<open>What \<^verbatim>\<open>lgmagic imu --cube\<close> does with the cube: it is prepared before the loop, drawn for each orientation, and shut down after
  the loop. A frame carries what the terminal answers while it is drawn.\<close>

fun cube_frames :: "libm \<Rightarrow> (term_env \<times> quat) list \<Rightarrow> cube \<Rightarrow> cube_fault + cube" where
  "cube_frames m [] C = Inr C"
| "cube_frames m ((te, q) # fs) C = (case cube_render m te te q C of Inl f \<Rightarrow> Inl f | Inr C \<Rightarrow> cube_frames m fs C)"

definition cube_session :: "libm \<Rightarrow> term_env \<Rightarrow> (term_env \<times> quat) list \<Rightarrow> cube_fault + cube" where
  "cube_session m te fs = (case cube_frames m fs (cube_init te cube_zero) of Inl f \<Rightarrow> Inl f | Inr C \<Rightarrow> Inr (cube_shutdown C))"

end
