(* ===== verification/Cube_Correct.thy ===== *)
theory Cube_Correct
  imports Cube
begin

text \<open>
  Correctness of the wireframe cube: every access stays inside of its block, the only fault left is the cast of the coordinates of
  a point, and each cell of the frame shows the nearest point that falls into it.
\<close>

section \<open>The order of depths\<close>

lemma dle_not_dlt: "dle x y \<Longrightarrow> \<not> dlt y x"
  by (cases x; cases y) (auto simp: dle_def)

lemma not_dle_dlt: "\<not> isnan x \<Longrightarrow> \<not> isnan y \<Longrightarrow> \<not> dle x y \<Longrightarrow> dlt y x"
  by (cases x; cases y) (auto simp: dle_def)

lemma dlt_not_nan: "dlt x y \<Longrightarrow> \<not> isnan x \<and> \<not> isnan y"
  by (cases x; cases y) auto

section \<open>Shading\<close>

text \<open>Doubles with a nonnegative significand, and those that are not negative at all.\<close>

fun nonneg_sig :: "cdouble \<Rightarrow> bool" where
  "nonneg_sig (DFin s m e) = (0 \<le> m)"
| "nonneg_sig _ = True"

fun not_negative :: "cdouble \<Rightarrow> bool" where
  "not_negative (DFin s m e) = (0 \<le> m \<and> (s \<longrightarrow> m = 0))"
| "not_negative _ = False"

lemma round_ratio_sig:
  assumes "0 \<le> n" and "0 < d"
  shows "nonneg_sig (round_ratio s n d)"
proof (cases "n = 0")
  case False
  define e where "e = max (- 1074) (ilog2 n d - 52)"
  define n1 where "n1 = (if e \<ge> 0 then n else n * 2 ^ nat (- e))"
  define d1 where "d1 = (if e \<ge> 0 then d * 2 ^ nat e else d)"
  define q where "q = (if 2 * (n1 mod d1) > d1 \<or> (2 * (n1 mod d1) = d1 \<and> odd (n1 div d1)) then n1 div d1 + 1 else n1 div d1)"
  have "0 \<le> n1" "0 < d1" using assms by (simp_all add: n1_def d1_def)
  then have "0 \<le> n1 div d1" by (simp add: pos_imp_zdiv_nonneg_iff)
  then have "0 \<le> q" by (simp add: q_def)
  moreover have "round_ratio s n d = (if (if q = 2 ^ 53 then e + 1 else e) > 971 then DInf s
      else DFin s (if q = 2 ^ 53 then 2 ^ 52 else q) (if q = 2 ^ 53 then e + 1 else e))"
    using False unfolding round_ratio_def e_def [symmetric] Let_def by (simp only: if_False n1_def [symmetric] d1_def [symmetric] q_def [symmetric])
  ultimately show ?thesis by simp
qed simp

lemma round_dyadic_sig: "0 \<le> n \<Longrightarrow> nonneg_sig (round_dyadic s n e)"
  by (simp add: round_dyadic_def round_ratio_sig)

lemma dadd_sig: "nonneg_sig (dadd x y)"
  by (cases x; cases y) (auto simp: Let_def round_dyadic_sig)

lemma ddiv_sig: "nonneg_sig x \<Longrightarrow> 0 < n \<Longrightarrow> nonneg_sig (ddiv x (DFin t n f))"
  by (cases x) (auto simp: Let_def round_ratio_sig)

lemma round_dyadic_positive: "0 \<le> n \<Longrightarrow> dbound b (round_dyadic False n e) \<Longrightarrow> not_negative (round_dyadic False n e)"
proof -
  assume "dbound b (round_dyadic False n e)"
  moreover obtain c m x where "round_dyadic False n e = (if c then DInf False else DFin False m x)"
    using round_ratio_sign [of False] unfolding round_dyadic_def by metis
  ultimately show ?thesis by (cases c) auto
qed

lemma dmul_not_negative:
  assumes "not_negative x" and "y = DFin False n f" and "dbound b (dmul x y)"
  shows "not_negative (dmul x y)"
proof -
  obtain s m e where x: "x = DFin s m e" "0 \<le> m" "s \<longrightarrow> m = 0" using assms(1) by (cases x) auto
  show ?thesis
  proof (cases "m = 0")
    case False
    then have d: "dmul x y = round_dyadic False (m * n) (e + f)" using x assms(2) by auto
    moreover obtain c k z where "round_dyadic False (m * n) (e + f) = (if c then DInf False else DFin False k z)"
      using round_ratio_sign [of False] unfolding round_dyadic_def by metis
    ultimately show ?thesis using assms(3) by (cases c) auto
  qed (use x assms(2) in simp)
qed

lemma dadd_not_negative:
  assumes "not_negative x" and "not_negative y" and "dbound b (dadd x y)"
  shows "not_negative (dadd x y)"
proof -
  obtain s m e t n f where x: "x = DFin s m e" "0 \<le> m" "s \<longrightarrow> m = 0" and y: "y = DFin t n f" "0 \<le> n" "t \<longrightarrow> n = 0"
    using assms(1,2) by (cases x; cases y) auto
  define v where "v = align (smant s m) e f + align (smant t n) f e"
  have "0 \<le> align (smant s m) e f" "0 \<le> align (smant t n) f e" using x y by (auto simp: align_def smant_def)
  then have v: "0 \<le> v" by (simp add: v_def)
  have d: "dadd x y = (if v = 0 then DFin (s \<and> t) 0 (- 1074) else round_dyadic False v (min e f))"
    using v by (simp add: x(1) y(1) v_def [symmetric] Let_def)
  show ?thesis
  proof (cases "v = 0")
    case False
    then show ?thesis using round_dyadic_positive [OF v, of b "min e f"] assms(3) d by simp
  qed (simp add: d)
qed

lemma dtrunc_not_negative: "not_negative x \<Longrightarrow> \<exists>i. dtrunc x = Some i \<and> 0 \<le> i"
  by (cases x) (auto simp: Let_def pos_imp_zdiv_nonneg_iff)

lemma clipped:
  assumes "nonneg_sig t" and "\<not> isnan t" and "\<not> dlt t d0" and "\<not> dlt d1 t"
  shows "not_negative t \<and> dbound 2 t"
proof -
  have one: "d1 = DFin False (2 ^ 52) (- 52)" by code_simp
  obtain s m e where t: "t = DFin s m e" using assms by (cases t) (auto simp: one)
  have one_real: "dreal (DFin False (2 ^ 52) (- 52)) = 1" by (simp add: smant_def power_int_minus)
  have "\<not> dreal t < 0" using assms(3) dlt_fin [of s m e False 0 "- 1074"] by (simp add: t smant_def)
  moreover have "\<not> 1 < dreal t"
    using assms(4) unfolding one t dlt_fin one_real by blast
  moreover have m: "0 \<le> m" using assms(1) t by simp
  moreover have pos: "(0::real) < 2 powi e" by (simp add: zero_less_power_int)
  ultimately have "s \<longrightarrow> m = 0" by (auto simp: t smant_def zero_le_mult_iff not_less split: if_splits)
  with m \<open>\<not> 1 < dreal t\<close> show ?thesis by (auto simp: t smant_def)
qed

lemma luminance_defined:
  assumes "nonneg_sig zc" and "\<not> isnan zc"
  shows "\<exists>ch. luminance zc = Inr ch"
proof -
  have cst: "dsub CUBE_D CUBE_HALF = DFin False 7205759403792794 (- 51)" "dmul d2 CUBE_HALF = DFin False 8106479329266893 (- 51)"
    by code_simp+
  define t where "t = ddiv (dsub zc (dsub CUBE_D CUBE_HALF)) (dmul d2 CUBE_HALF)"
  have sig: "nonneg_sig t" unfolding t_def cst unfolding dsub_def by (intro ddiv_sig dadd_sig) simp
  have "\<not> isnan (dsub zc (dsub CUBE_D CUBE_HALF))"
    using assms(2) unfolding cst unfolding dsub_def by (cases zc) (auto simp: Let_def round_dyadic_not_nan)
  then have nan: "\<not> isnan t" unfolding t_def cst
    by (cases "dsub zc (DFin False 7205759403792794 (- 51))") (auto simp: Let_def not_isnan_cases split: if_splits, (metis isinf.simps(1) isfin.simps(1) round_ratio_sign)+)
  define t1 where "t1 = (if dlt t d0 then d0 else t)"
  define t2 where "t2 = (if dgt t1 d1 then d1 else t1)"
  have "not_negative t2 \<and> dbound 2 t2"
  proof (cases "dgt t1 d1")
    case True
    have "d1 = DFin False (2 ^ 52) (- 52)" by code_simp
    then have "not_negative d1 \<and> dbound 2 d1" by (simp add: power_int_minus)
    then show ?thesis using True by (simp add: t2_def)
  next
    case False
    then show ?thesis using clipped [of t1] sig nan by (auto simp: t1_def t2_def)
  qed
  moreover have eleven: "of_int_d (CUBE_NLUM - 1) = DFin False 6192449487634432 (- 49)" by code_simp
  moreover have half: "dlit 1 2 = DFin False 4503599627370496 (- 53)" by code_simp
  ultimately have p: "dbound 22 (dmul t2 (of_int_d (CUBE_NLUM - 1)))" "not_negative t2"
    by (auto intro!: dmul_bound [where a = 2 and c = 22] simp: power_int_minus)
  then have q: "dbound 23 (dadd (dmul t2 (of_int_d (CUBE_NLUM - 1))) (dlit 1 2))"
    by (intro dadd_bound [where a = 22 and c = 1]) (auto simp: half power_int_minus)
  have "not_negative (dadd (dmul t2 (of_int_d (CUBE_NLUM - 1))) (dlit 1 2))"
    using dadd_not_negative [OF dmul_not_negative [OF p(2) eleven p(1)] _ q] by (simp add: half)
  from dtrunc_not_negative [OF this] dtrunc_bound [OF q]
  obtain i where i: "d2int (dadd (dmul t2 (of_int_d (CUBE_NLUM - 1))) (dlit 1 2)) = Some i" "0 \<le> i" "i \<le> 11"
    by (auto simp: d2int_def)
  have "luminance zc = (let k = CUBE_NLUM - 1 - i in if k < 0 then Inl OutOfBounds else fetch (CUBE_LUM @ [CHR 0x00]) (nat k))"
    unfolding luminance_def Let_def t_def [symmetric] t1_def [symmetric] t2_def [symmetric] by (simp add: i(1))
  then show ?thesis using i(2,3) by (simp add: CUBE_NLUM_def CUBE_LUM_def fetch_def Let_def nat_less_iff)
qed

section \<open>The depth buffer\<close>

text \<open>The depths of the points that fall into a cell (below the text line) and are nearer than the initial depth, and the character
  of the nearest of them.\<close>

definition hits :: "int \<Rightarrow> int \<Rightarrow> vec3 list \<Rightarrow> nat \<Rightarrow> nat \<Rightarrow> cdouble list" where
  "hits rows cols ps i j =
     map depth_of (filter (\<lambda>p. screen_pos rows cols p = Some (int i + 1, int j) \<and> dlt (depth_of p) zfar) ps)"

definition shows_nearest :: "cdouble list \<Rightarrow> char \<Rightarrow> bool" where
  "shows_nearest zs ch \<longleftrightarrow>
     (if zs = [] then ch = CHR '' '' else \<exists>z \<in> set zs. luminance z = Inr ch \<and> (\<forall>z' \<in> set zs. \<not> dlt z' z))"

definition cell_ok :: "cdouble list \<Rightarrow> char \<Rightarrow> cdouble \<Rightarrow> bool" where
  "cell_ok zs ch z \<longleftrightarrow>
     (if zs = [] then ch = CHR '' '' \<and> z = zfar else z \<in> set zs \<and> luminance z = Inr ch \<and> (\<forall>z' \<in> set zs. \<not> dlt z' z))"

lemma cell_ok_shows: "cell_ok zs ch z \<Longrightarrow> shows_nearest zs ch"
  by (auto simp: cell_ok_def shows_nearest_def split: if_splits)

lemma hits_snoc: "hits rows cols (ps @ [p]) i j = hits rows cols ps i j @
    (if screen_pos rows cols p = Some (int i + 1, int j) \<and> dlt (depth_of p) zfar then [depth_of p] else [])"
  by (simp add: hits_def)

lemma hits_near: "z \<in> set (hits rows cols ps i j) \<Longrightarrow> dlt z zfar"
  by (auto simp: hits_def)

lemma cell_keep:
  assumes "cell_ok zs ch z" and "dle z y"
  shows "cell_ok (zs @ (if dlt y zfar then [y] else [])) ch z"
  using assms dle_not_dlt [OF assms(2)] by (auto simp: cell_ok_def split: if_splits)

lemma cell_replace:
  assumes "cell_ok zs ch0 z" and "\<forall>x \<in> set zs. dlt x zfar" and "\<not> dle z y" and "\<not> isnan y" and "luminance y = Inr ch"
  shows "cell_ok (zs @ (if dlt y zfar then [y] else [])) ch y"
proof -
  have far: "\<not> isnan zfar" by code_simp
  have z: "z = zfar \<or> dlt z zfar" using assms(1,2) by (auto simp: cell_ok_def split: if_splits)
  then have yz: "dlt y z" using not_dle_dlt [of z y] assms(3,4) far dlt_not_nan by blast
  then have "dlt y zfar" using z dlt_trans by blast
  moreover have "\<And>x. x \<in> set zs \<Longrightarrow> \<not> dlt x y"
    using assms(1) yz dlt_trans by (auto simp: cell_ok_def split: if_splits)
  ultimately show ?thesis using assms(5) by (auto simp: cell_ok_def)
qed

lemma screen_pos_depth: "screen_pos rows cols p = Some rc \<Longrightarrow> \<not> isnan (depth_of p) \<and> nonneg_sig (depth_of p)"
proof -
  assume s: "screen_pos rows cols p = Some rc"
  obtain px py pz where p: "p = (px, py, pz)" by (cases p)
  have "dadd pz CUBE_D \<noteq> DNaN"
  proof
    assume "dadd pz CUBE_D = DNaN"
    moreover have "d2int DNaN = None" by (simp add: d2int_def)
    ultimately show False using s by (simp add: p dsub_def)
  qed
  then show ?thesis using dadd_sig [of pz CUBE_D] by (cases "dadd pz CUBE_D") (simp_all add: p)
qed

definition drawn :: "int \<Rightarrow> int \<Rightarrow> vec3 list \<Rightarrow> string \<times> cdouble list \<Rightarrow> bool" where
  "drawn rows cols ps b \<longleftrightarrow>
     length (fst b) = nat (rows - 1) * nat cols \<and> length (snd b) = nat (rows - 1) * nat cols \<and>
     (\<forall>i < nat (rows - 1). \<forall>j < nat cols.
        cell_ok (hits rows cols ps i j) (fst b ! (i * nat cols + j)) (snd b ! (i * nat cols + j)))"

lemma cell_index: "j < c \<Longrightarrow> j' < c \<Longrightarrow> i * c + j = i' * c + j' \<longleftrightarrow> i = i' \<and> j = (j' :: nat)"
  by (metis add_left_imp_eq div_mult_self3 div_less add_0_right less_nat_zero_code mod_less mod_mult_self3)

lemma cell_range: "i < n \<Longrightarrow> j < c \<Longrightarrow> i * c + j < n * (c :: nat)"
  by (metis add_less_cancel_left less_le_trans mult_Suc_right mult.commute mult_le_mono1 Suc_leI add.commute)

lemma plot_drawn:
  assumes "drawn rows cols ps b" and "screen_pos rows cols p = Some (r, c)"
  shows "\<exists>b'. plot rows cols r c (depth_of p) b = Inr b' \<and> drawn rows cols (ps @ [p]) b'"
proof (cases "r < 1 \<or> r \<ge> rows \<or> c < 0 \<or> c \<ge> cols")
  case True
  then have "\<And>i j. i < nat (rows - 1) \<Longrightarrow> j < nat cols \<Longrightarrow> hits rows cols (ps @ [p]) i j = hits rows cols ps i j"
    using assms(2) by (auto simp: hits_snoc)
  then have "drawn rows cols (ps @ [p]) b" using assms(1) by (simp add: drawn_def)
  then show ?thesis using True by (auto simp: plot_def split: prod.split)
next
  case False
  define i0 j0 where "i0 = nat (r - 1)" and "j0 = nat c"
  have ij: "i0 < nat (rows - 1)" "j0 < nat cols" "r = int i0 + 1" "c = int j0" using False by (auto simp: i0_def j0_def)
  let ?k = "i0 * nat cols + j0" and ?z = "depth_of p"
  obtain g zb where b: "b = (g, zb)" by (cases b)
  have len: "length g = nat (rows - 1) * nat cols" "length zb = nat (rows - 1) * nat cols" using assms(1) by (simp_all add: drawn_def b)
  have k: "?k < length zb" "?k < length g" using cell_range [OF ij(1,2)] len by simp_all
  have cell: "\<And>i j. i < nat (rows - 1) \<Longrightarrow> j < nat cols \<Longrightarrow> cell_ok (hits rows cols ps i j) (g ! (i * nat cols + j)) (zb ! (i * nat cols + j))"
    using assms(1) by (simp add: drawn_def b)
  have h: "\<And>i j. hits rows cols (ps @ [p]) i j = hits rows cols ps i j @ (if i = i0 \<and> j = j0 \<and> dlt ?z zfar then [?z] else [])"
    using assms(2) ij by (auto simp: hits_snoc)
  have pos: "\<not> isnan ?z" "nonneg_sig ?z" using screen_pos_depth [OF assms(2)] by blast+
  then obtain ch where ch: "luminance ?z = Inr ch" using luminance_defined by blast
  have pl: "plot rows cols r c ?z b = (if dge ?z (zb ! ?k) then Inr (g, zb) else Inr (g[?k := ch], zb[?k := ?z]))"
    using False k by (simp add: plot_def b fetch_def store_def ch i0_def j0_def Let_def)
  show ?thesis
  proof (cases "dge ?z (zb ! ?k)")
    case True
    have "drawn rows cols (ps @ [p]) (g, zb)"
      using len cell cell_keep [OF cell [OF ij(1,2)] True] by (auto simp: drawn_def h)
    then show ?thesis using pl True by simp
  next
    case far: False
    have new: "cell_ok (hits rows cols (ps @ [p]) i0 j0) ch ?z"
      using cell_replace [OF cell [OF ij(1,2)] _ far pos(1) ch] hits_near by (auto simp: h)
    have "drawn rows cols (ps @ [p]) (g[?k := ch], zb[?k := ?z])"
      unfolding drawn_def
    proof (intro conjI allI impI)
      fix i j assume a: "i < nat (rows - 1)" "j < nat cols"
      show "cell_ok (hits rows cols (ps @ [p]) i j) (fst (g[?k := ch], zb[?k := ?z]) ! (i * nat cols + j))
          (snd (g[?k := ch], zb[?k := ?z]) ! (i * nat cols + j))"
      proof (cases "i = i0 \<and> j = j0")
        case True
        then show ?thesis using new k by simp
      next
        case False
        then have "i * nat cols + j \<noteq> ?k" using cell_index [OF a(2) ij(2)] by simp
        then show ?thesis using cell [OF a] False by (auto simp: h)
      qed
    qed (use len in simp_all)
    then show ?thesis using pl far by simp
  qed
qed

lemma draw_points_drawn:
  assumes "drawn rows cols ps b"
  shows "case draw_points rows cols qs b of
     Inl f \<Rightarrow> f = BadCast \<and> (\<exists>p \<in> set qs. screen_pos rows cols p = None)
   | Inr b' \<Rightarrow> drawn rows cols (ps @ qs) b'"
  using assms
proof (induction qs arbitrary: ps b)
  case (Cons p qs)
  show ?case
  proof (cases "screen_pos rows cols p")
    case (Some rc)
    then obtain r c where rc: "screen_pos rows cols p = Some (r, c)" by (cases rc) simp
    from plot_drawn [OF Cons.prems this] obtain b' where
      "plot rows cols r c (depth_of p) b = Inr b'" "drawn rows cols (ps @ [p]) b'" by blast
    with Cons.IH [of "ps @ [p]" b'] rc show ?thesis by (auto split: sum.splits)
  qed simp
qed simp

lemma store_all_ok:
  "\<forall>k \<in> set ks. k < length xs \<Longrightarrow> \<exists>ys. store_all ks v xs = Inr ys \<and> length ys = length xs \<and>
     (\<forall>k < length xs. ys ! k = (if k \<in> set ks then v else xs ! k))"
proof (induction ks arbitrary: xs)
  case (Cons k ks)
  then obtain ys where "store_all ks v (xs[k := v]) = Inr ys" "length ys = length xs"
    "\<forall>l < length xs. ys ! l = (if l \<in> set ks then v else xs[k := v] ! l)"
    using Cons.IH [of "xs[k := v]"] by auto
  with Cons.prems show ?case by (auto simp: store_def nth_list_update)
qed simp

lemma cleared:
  assumes "length g = nat (rows - 1) * nat cols" and "length z = nat (rows - 1) * nat cols"
  shows "\<exists>z'. clear_grid (length g) g = Inr (replicate (length g) CHR '' '') \<and> clear_zbuf rows cols z = Inr z' \<and>
    drawn rows cols [] (replicate (length g) CHR '' '', z')"
proof -
  let ?ks = "concat (map (\<lambda>row. map (\<lambda>c. row * nat cols + c) [0..<nat cols]) [0..<nat (rows - 1)])"
  have ks: "i * nat cols + j \<in> set ?ks" if "i < nat (rows - 1)" "j < nat cols" for i j
    using that by (auto intro!: bexI [of _ i])
  have "k < length z" if k: "k \<in> set ?ks" for k
  proof -
    obtain i where "i < nat (rows - 1)" "i * nat cols \<le> k" "k < nat cols + i * nat cols" using k by auto
    then show ?thesis using cell_range [of i "nat (rows - 1)" "k - i * nat cols" "nat cols"] assms(2) by simp
  qed
  then have "\<forall>k \<in> set ?ks. k < length z" by blast
  from store_all_ok [OF this, of zfar] obtain z' where z': "clear_zbuf rows cols z = Inr z'" "length z' = length z"
    "\<forall>k < length z. z' ! k = (if k \<in> set ?ks then zfar else z ! k)" unfolding clear_zbuf_def by blast
  have "\<And>i j. i < nat (rows - 1) \<Longrightarrow> j < nat cols \<Longrightarrow> z' ! (i * nat cols + j) = zfar"
    using z'(3) ks cell_range assms(2) by (metis (no_types, lifting))
  then have "drawn rows cols [] (replicate (length g) CHR '' '', z')"
    using assms z'(2) cell_range by (simp add: drawn_def hits_def cell_ok_def)
  then show ?thesis using z'(1) by (simp add: clear_grid_def)
qed

section \<open>The frame buffer\<close>

definition trim_line :: "string \<Rightarrow> string" where
  "trim_line s = rev (dropWhile (\<lambda>c. c = CHR '' '') (rev s))"

lemma line_len_trim: "n \<le> length line \<Longrightarrow> take (line_len line n) line = trim_line (take n line)"
  by (induction n) (auto simp: trim_line_def take_Suc_conv_app_nth)

lemma trim_line_length: "length (trim_line s) \<le> length s"
  by (simp add: trim_line_def) (metis length_dropWhile_le length_rev)

fun frame_rows :: "nat \<Rightarrow> nat \<Rightarrow> string \<Rightarrow> string" where
  "frame_rows cols 0 grid = []"
| "frame_rows cols (Suc n) grid = trim_line (take cols grid) @ CHR 0x0A # frame_rows cols n (drop cols grid)"

lemma put_lines_ok:
  "length grid = n * cols \<Longrightarrow> length b + n * (cols + 1) \<le> cap \<Longrightarrow> put_lines cap cols n grid b = Inr (b @ frame_rows cols n grid)"
proof (induction n arbitrary: grid b)
  case (Suc n)
  let ?t = "trim_line (take cols grid)"
  have t: "take (line_len (take cols grid) cols) (take cols grid) = ?t"
    using line_len_trim [of cols "take cols grid"] Suc.prems(1) by simp
  have l: "length ?t \<le> cols" using trim_line_length [of "take cols grid"] by simp
  have "put_lines cap cols n (drop cols grid) (b @ ?t @ [CHR 0x0A]) = Inr ((b @ ?t @ [CHR 0x0A]) @ frame_rows cols n (drop cols grid))"
    using Suc.prems l by (intro Suc.IH) simp_all
  then show ?case using Suc.prems l by (simp add: put_bytes_def t Let_def del: take_take)
qed simp

text \<open>What the C library promises of the angles: they lie between \<open>-4\<close> and \<open>4\<close>, or are NaN.\<close>

definition angle :: "cdouble \<Rightarrow> bool" where
  "angle x \<longleftrightarrow> isnan x \<or> dbound 8 x"

definition angles_bounded :: "libm \<Rightarrow> bool" where
  "angles_bounded m \<longleftrightarrow> (\<forall>y x. angle (m_atan2 m y x)) \<and> (\<forall>x. angle (m_atan m x))"

lemma fmt_f_length:
  assumes "dbound 512 x"
  shows "length (fmt_f 2 x) \<le> 7"
proof -
  obtain s m e where x: "x = DFin s m e" using assms by (cases x) auto
  have m: "0 \<le> m" "2 * (of_int m * 2 powi e :: real) \<le> 512" using assms x by simp_all
  define k where "k = (if e \<ge> 0 then m * 2 ^ nat e * 10 ^ 2 else round_half_even (m * 10 ^ 2) (2 ^ nat (- e)))"
  have k: "0 \<le> k \<and> k \<le> 25600"
  proof (cases "0 \<le> e")
    case True
    have "(of_int (2 * (m * 2 ^ nat e)) :: real) \<le> of_int 512" using m(2) True by (simp add: power_int_def)
    then have "2 * (m * 2 ^ nat e) \<le> 512" by (simp only: of_int_le_iff)
    then show ?thesis using m(1) True by (simp add: k_def)
  next
    case False
    have "2 * of_int m \<le> 512 * (2 ^ nat (- e) :: real)" using m(2) False by (simp add: power_int_def field_simps)
    then have "(of_int (2 * m) :: real) \<le> of_int (512 * 2 ^ nat (- e))" by simp
    then have "2 * m \<le> 512 * 2 ^ nat (- e)" by (simp only: of_int_le_iff)
    then have "m * 10 ^ 2 \<le> 25600 * 2 ^ nat (- e)" by simp
    from half_even_le [OF _ this] have "round_half_even (m * 10 ^ 2) (2 ^ nat (- e)) \<le> 25600"
      unfolding round_half_even_def Let_def half_even_def [symmetric] by simp
    moreover have "0 \<le> round_half_even (m * 10 ^ 2) (2 ^ nat (- e))"
      using m(1) by (simp add: round_half_even_def Let_def pos_imp_zdiv_nonneg_iff)
    ultimately show ?thesis using False by (simp add: k_def)
  qed
  then have "length (show_dec k) \<le> 5" using show_dec_length [of k 4] by simp
  then have "length (pad0 3 (show_dec k)) \<le> 5" by (simp add: pad0_def)
  then show ?thesis by (simp add: x k_def [symmetric] Let_def sign_str_def)
qed

lemma header_length:
  assumes "angles_bounded m"
  shows "length (cube_header m q) \<le> 64"
proof -
  define k where "k = ddiv (dlit 180 1) M_PI"
  have "k = DFin False 8063664102031864 (- 47)" unfolding k_def by code_simp
  then have k: "dbound 128 k" by (simp add: power_int_minus)
  have f: "length (fmt_plus 2 (dmul x k)) \<le> 8" if "angle x" for x
  proof (cases "isnan x")
    case True
    then show ?thesis by (cases x) (simp_all add: fmt_plus_def Let_def)
  next
    case False
    then have "dbound 512 (dmul x k)" using that k by (intro dmul_bound [where a = 8 and c = 128]) (auto simp: angle_def)
    from fmt_f_length [OF this] show ?thesis by (simp add: fmt_plus_def Let_def)
  qed
  obtain r p y where e: "quat_to_euler m q = (r, p, y)" by (cases "quat_to_euler m q")
  have neg: "\<And>x. isnan (dneg x) = isnan x" by (metis dneg.simps isnan.elims isnan.simps)
  have "angle r" "angle p" "angle y"
    using e assms by (cases q; auto simp: angles_bounded_def angle_def Let_def neg split: if_splits)+
  then show ?thesis using f [of r] f [of p] f [of y] by (simp add: cube_header_def e k_def [symmetric] Let_def)
qed

lemma cube_frame_ok:
  assumes "angles_bounded m" and "8 \<le> rows" and "20 \<le> cols" and "length grid = nat (rows - 1) * nat cols" and "frame_need rows cols \<le> cap"
  shows "cube_frame cap (cube_header m q) rows cols grid =
    Inr (CHR 0x1B # ''[H'' @ cube_header m q @ frame_rows (nat cols) (nat (rows - 1)) grid)"
proof -
  have "nat (cols + 2) = nat cols + 2" using assms(3) by simp
  then have need: "frame_need rows cols = nat (rows - 1) * (nat cols + 1) + nat (rows - 1) + 128"
    by (simp add: frame_need_def algebra_simps)
  then have "put_lines cap (nat cols) (nat (rows - 1)) grid ((CHR 0x1B # ''[H'') @ cube_header m q) =
      Inr (((CHR 0x1B # ''[H'') @ cube_header m q) @ frame_rows (nat cols) (nat (rows - 1)) grid)"
    using assms(4,5) header_length [OF assms(1), of q] by (intro put_lines_ok) simp_all
  moreover have "3 \<le> cap" using need assms(5) by simp
  ultimately show ?thesis by (simp add: cube_frame_def put_bytes_def)
qed

section \<open>Frames\<close>

text \<open>The blocks of the cube have the size the last terminal size asked for; a cube that was never sized has none.\<close>

definition cube_inv :: "cube \<Rightarrow> bool" where
  "cube_inv C \<longleftrightarrow>
     (case cu_grid C of None \<Rightarrow> True | Some g \<Rightarrow> length g = cells C) \<and>
     (case cu_zbuf C of None \<Rightarrow> True | Some z \<Rightarrow> length z = cells C)"

lemma get_size_inv: "cube_inv C \<Longrightarrow> cube_inv (get_size te C)"
  by (auto simp: cube_inv_def get_size_def cells_def Let_def split: prod.split option.splits)

lemma get_size_size:
  "cu_rows (get_size te C) = fst (win_size te)" "cu_cols (get_size te C) = snd (win_size te)"
  "8 \<le> fst (win_size te)" "20 \<le> snd (win_size te)"
  by (auto simp: get_size_def win_size_def Let_def split: prod.splits option.splits if_splits)

lemma cube_init_inv: "cube_inv C \<Longrightarrow> cube_inv (cube_init te C)"
  using get_size_inv [of C te] by (auto simp: cube_init_def Let_def cube_inv_def cells_def split: option.splits)

lemma cube_shutdown_inv: "cube_inv C \<Longrightarrow> cube_inv (cube_shutdown C)"
  by (auto simp: cube_shutdown_def cube_inv_def cells_def split: option.splits)

lemma cube_zero_inv: "cube_inv cube_zero"
  by (simp add: cube_zero_def cube_inv_def)

text \<open>The cube when its blocks are about to be drawn on.\<close>

definition sized :: "term_env \<Rightarrow> term_env \<Rightarrow> cube \<Rightarrow> cube" where
  "sized ti te C = get_size te (if cu_inited C then C else cube_init ti C)"

text \<open>A frame of \<open>rows\<close> lines: the cursor moves home, the header, and the grid with the blanks at the ends of its lines left out.\<close>

definition frame_shown :: "libm \<Rightarrow> int \<times> int \<Rightarrow> quat \<Rightarrow> string \<Rightarrow> bool" where
  "frame_shown m sz q t \<longleftrightarrow> (case sz of (rows, cols) \<Rightarrow> \<exists>grid.
     t = CHR 0x1B # ''[H'' @ cube_header m q @ frame_rows (nat cols) (nat (rows - 1)) grid \<and>
     length grid = nat (rows - 1) * nat cols \<and>
     (\<forall>i < nat (rows - 1). \<forall>j < nat cols. shows_nearest (hits rows cols (cube_points q) i j) (grid ! (i * nat cols + j))))"

text \<open>The blocks the cube draws on are there.\<close>

definition blocks :: "cube \<Rightarrow> bool" where
  "blocks C \<longleftrightarrow> cu_grid C \<noteq> None \<and> cu_zbuf C \<noteq> None"

definition te_ok :: "term_env \<Rightarrow> bool" where
  "te_ok te \<longleftrightarrow> te_grid_ok te \<and> te_zbuf_ok te \<and> te_out_ok te"

text \<open>The part of \<^const>\<open>cube_render\<close> after the drawing: the frame buffer is large enough.\<close>

lemma render_frame:
  fixes ti te C
  defines "D \<equiv> sized ti te C"
  assumes ang: "angles_bounded m" and sz: "8 \<le> cu_rows D" "20 \<le> cu_cols D" and gz: "cu_grid D = Some g" "cu_zbuf D = Some z"
    and clr: "clear_grid (cells D) g = Inr g1" "clear_zbuf (cu_rows D) (cu_cols D) z = Inr z1"
    and dr: "draw_points (cu_rows D) (cu_cols D) (cube_points q) (g1, z1) = Inr (g2, z2)"
    and d: "drawn (cu_rows D) (cu_cols D) (cube_points q) (g2, z2)"
  shows "\<exists>C'. cube_render m ti te q C = Inr C' \<and> cube_inv C' \<and> blocks C' \<and> cu_inited C' = cu_inited D \<and>
    (\<exists>t. cu_stdout C' = cu_stdout D @ t \<and> (frame_shown m (cu_rows D, cu_cols D) q t \<or> t = [] \<and> \<not> te_out_ok te))"
proof -
  have len: "length g2 = cells D" "length z2 = cells D" using d by (simp_all add: drawn_def cells_def)
  define grow where "grow = (case cu_out_cap D of None \<Rightarrow> True | Some cap \<Rightarrow> cap < frame_need (cu_rows D) (cu_cols D))"
  define cap where "cap = (if grow then frame_need (cu_rows D) (cu_cols D) else the (cu_out_cap D))"
  have cap: "frame_need (cu_rows D) (cu_cols D) \<le> cap" by (auto simp: cap_def grow_def split: option.splits)
  define D' where "D' = D\<lparr>cu_grid := Some g2, cu_zbuf := Some z2\<rparr>"
  define t where "t = CHR 0x1B # ''[H'' @ cube_header m q @ frame_rows (nat (cu_cols D)) (nat (cu_rows D - 1)) g2"
  define F where "F = D'\<lparr>cu_out_cap := Some cap, cu_stdout := cu_stdout D @ t\<rparr>"
  have inv: "cube_inv D'" "cube_inv F" using len by (simp_all add: cube_inv_def cells_def D'_def F_def)
  have "cube_frame cap (cube_header m q) (cu_rows D) (cu_cols D) g2 = Inr t"
    using cube_frame_ok [OF ang sz _ cap] len by (simp add: cells_def t_def)
  then have "cube_render m ti te q C = (if grow \<and> \<not> te_out_ok te then Inr D' else Inr F)"
    by (cases grow) (simp_all add: cube_render_def sized_def [symmetric] D_def [symmetric] gz clr dr Let_def grow_def [symmetric]
        cap_def D'_def F_def)
  moreover have "frame_shown m (cu_rows D, cu_cols D) q t"
    using d unfolding frame_shown_def drawn_def prod.case t_def by (intro exI [of _ g2]) (auto intro: cell_ok_shows)
  ultimately show ?thesis using inv by (cases "grow \<and> \<not> te_out_ok te") (auto simp: D'_def F_def blocks_def)
qed

text \<open>One frame.\<close>

lemma cube_render_spec:
  assumes "cube_inv C" and "angles_bounded m"
  shows "case cube_render m ti te q C of
     Inl f \<Rightarrow> f = BadCast \<and> (\<exists>p \<in> set (cube_points q). screen_pos (fst (win_size te)) (snd (win_size te)) p = None)
   | Inr C' \<Rightarrow> cube_inv C' \<and> cu_inited C' = cu_inited (sized ti te C) \<and> blocks C' = blocks (sized ti te C) \<and>
       (\<exists>t. cu_stdout C' = cu_stdout (sized ti te C) @ t \<and>
         (frame_shown m (win_size te) q t \<or> t = [] \<and> \<not> (blocks (sized ti te C) \<and> te_out_ok te)))"
proof -
  let ?C = "sized ti te C"
  have inv: "cube_inv ?C" unfolding sized_def using assms(1) by (intro get_size_inv) (simp add: cube_init_inv)
  have sz: "cu_rows ?C = fst (win_size te)" "cu_cols ?C = snd (win_size te)" "8 \<le> cu_rows ?C" "20 \<le> cu_cols ?C"
    using get_size_size by (simp_all add: sized_def)
  show ?thesis
  proof (cases "cu_grid ?C = None \<or> cu_zbuf ?C = None")
    case True
    then have "cube_render m ti te q C = Inr ?C"
      by (auto simp: cube_render_def sized_def [symmetric] Let_def split: option.split)
    then show ?thesis using True inv by (auto simp: blocks_def)
  next
    case False
    then obtain g z where gz: "cu_grid ?C = Some g" "cu_zbuf ?C = Some z" by auto
    have len: "length g = cells ?C" "length z = cells ?C" using inv gz by (simp_all add: cube_inv_def)
    from cleared [of g "cu_rows ?C" "cu_cols ?C" z] len obtain z' where c: "clear_grid (cells ?C) g = Inr (replicate (cells ?C) CHR '' '')"
      "clear_zbuf (cu_rows ?C) (cu_cols ?C) z = Inr z'" "drawn (cu_rows ?C) (cu_cols ?C) [] (replicate (cells ?C) CHR '' '', z')"
      by (auto simp: cells_def)
    note dr = draw_points_drawn [OF c(3), of "cube_points q"]
    show ?thesis
    proof (cases "draw_points (cu_rows ?C) (cu_cols ?C) (cube_points q) (replicate (cells ?C) CHR '' '', z')")
      case (Inl f)
      then have "cube_render m ti te q C = Inl f"
        by (simp add: cube_render_def sized_def [symmetric] gz c Let_def)
      then show ?thesis using dr Inl sz by simp
    next
      case (Inr b)
      obtain g2 z2 where b: "b = (g2, z2)" by (cases b)
      have d: "drawn (cu_rows ?C) (cu_cols ?C) (cube_points q) (g2, z2)" using dr Inr b by simp
      from render_frame [OF assms(2) sz(3,4) gz c(1,2) _ this] Inr b gz sz(1,2) show ?thesis by (fastforce simp: blocks_def)
    qed
  qed
qed

section \<open>Casts\<close>

text \<open>
  When the rotated cube is about as large as the cube (coordinates up to 2, edges up to 2.5 along each axis; the edges of a
  rotated cube have length 2), every point lies in front of the camera and all casts are defined.
\<close>

fun vbound :: "int \<Rightarrow> vec3 \<Rightarrow> bool" where
  "vbound b (x, y, z) = (dbound b x \<and> dbound b y \<and> dbound b z)"

definition cube_sized :: "vec3 list \<Rightarrow> bool" where
  "cube_sized vv \<longleftrightarrow> (\<forall>(a, b) \<in> set EDGES. vbound 4 (vv ! a) \<and> vbound 5 (vec3_sub (vv ! b) (vv ! a)))"

lemma edge_param: "s \<le> CUBE_STEPS \<Longrightarrow> dbound 2 (ddiv (of_int_d (int s)) (of_int_d (int CUBE_STEPS)))"
proof -
  assume "s \<le> CUBE_STEPS"
  then have "dbound 120 (of_int_d (int s))" unfolding of_int_d_def by (intro round_ratio_bound) (simp_all add: CUBE_STEPS_def)
  moreover have "dfloor 120 (of_int_d (int CUBE_STEPS))"
    unfolding of_int_d_def CUBE_STEPS_def by (simp, rule round_ratio_floor [where b = 120]) simp_all
  ultimately show ?thesis by (rule ddiv_bound) simp_all
qed

lemma edge_point_bound:
  assumes "vbound 4 a" and "vbound 5 (vec3_sub b a)" and "s \<le> CUBE_STEPS"
  shows "vbound 9 (edge_point a b s)"
proof -
  note t = edge_param [OF assms(3)]
  have "dbound 9 (dadd x (dmul d (ddiv (of_int_d (int s)) (of_int_d (int CUBE_STEPS)))))" if "dbound 4 x" "dbound 5 d" for x d
    using that(1) dmul_bound [OF that(2) t, of 5] by (rule dadd_bound) simp_all
  then show ?thesis using assms(1,2) by (cases a; cases b) (simp add: vec3_sub_def Let_def)
qed

lemma screen_pos_defined:
  assumes "vbound 9 p" and "0 \<le> rows" "rows < 2 ^ 16" "0 \<le> cols" "cols < 2 ^ 16"
  shows "screen_pos rows cols p \<noteq> None"
proof -
  obtain px py pz where p: "p = (px, py, pz)" by (cases p)
  have lits: "CUBE_F = DFin False 4953959590107546 (- 51)" "CUBE_D = DFin False 5629499534213120 (- 50)" "d2 = DFin False 4503599627370496 (- 51)"
    "dlit 1 2 = DFin False 4503599627370496 (- 53)" "dlit 2 10 = DFin False 7205759403792794 (- 55)" by code_simp+
  have b: "dbound 5 CUBE_F" "dbound 10 CUBE_D" "dfloor 10 CUBE_D" "dfloor 4 d2" "dbound 1 (dlit 1 2)" "dbound 1 (dlit 2 10)"
    unfolding lits by (simp_all add: power_int_minus)
  have zc: "dfloor 1 (dadd pz CUBE_D)" using dadd_floor [OF _ b(3,2), of 9 pz] assms(1) p by simp
  have dim: "dbound 131072 (of_int_d n)" if "0 \<le> n" "n < 2 ^ 16" for n
    unfolding of_int_d_def using that by (intro round_ratio_bound) simp_all
  have half: "dbound 131072 (ddiv (of_int_d n) d2)" if "0 \<le> n" "n < 2 ^ 16" for n
    using dim [OF that] b(4) by (rule ddiv_bound) simp_all
  have sc: "dbound 65536 (dmul (dlit 2 10) (of_int_d cols))" using b(6) dim [OF assms(4,5)] by (rule dmul_bound) simp_all
  have q: "dbound 46 (ddiv (dmul x CUBE_F) (dadd pz CUBE_D))" if "dbound 9 x" for x
    using dmul_bound [OF that b(1), of 23] zc by (intro ddiv_bound [where a = 23 and c = 1]) simp_all
  have off: "dbound 1507328 (dmul (ddiv (dmul x CUBE_F) (dadd pz CUBE_D)) (dmul (dlit 2 10) (of_int_d cols)))" if "dbound 9 x" for x
    using q [OF that] sc by (rule dmul_bound) simp_all
  have "dbound 1638401 (dadd (dadd (ddiv (of_int_d cols) d2) (dmul (ddiv (dmul px CUBE_F) (dadd pz CUBE_D)) (dmul (dlit 2 10) (of_int_d cols)))) (dlit 1 2))"
    using assms(1) p by (intro dadd_bound [where a = 1638400 and c = 1] dadd_bound [where a = 131072 and c = 1507328] half assms(4,5) off b(5)) simp_all
  moreover have "dbound 1638401 (dadd (dsub (ddiv (of_int_d rows) d2)
      (dmul (dmul (ddiv (dmul py CUBE_F) (dadd pz CUBE_D)) (dmul (dlit 2 10) (of_int_d cols))) (dlit 1 2))) (dlit 1 2))"
    unfolding dsub_def
    using assms(1) p by (intro dadd_bound [where a = 1638400 and c = 1] dadd_bound [where a = 131072 and c = 1507328] half assms(2,3) b(5))
      (simp_all add: dmul_bound [OF off b(5)])
  ultimately show ?thesis by (auto simp: p Let_def dest!: d2int_bound)
qed

lemma cube_sized_defined:
  assumes "cube_sized (cube_vertices q)" and "0 \<le> rows" "rows < 2 ^ 16" "0 \<le> cols" "cols < 2 ^ 16" and "p \<in> set (cube_points q)"
  shows "screen_pos rows cols p \<noteq> None"
proof -
  obtain a b s where "(a, b) \<in> set EDGES" "s \<le> CUBE_STEPS" "p = edge_point (cube_vertices q ! a) (cube_vertices q ! b) s"
    using assms(6) by (auto simp: cube_points_def Let_def less_Suc_eq_le simp del: upt_Suc)
  moreover from this(1) have "vbound 4 (cube_vertices q ! a)" "vbound 5 (vec3_sub (cube_vertices q ! b) (cube_vertices q ! a))"
    using assms(1) by (auto simp: cube_sized_def)
  ultimately have "vbound 9 p" by (simp only: edge_point_bound)
  then show ?thesis using screen_pos_defined assms(2-5) by blast
qed

text \<open>An orientation that is NaN: the first cast is undefined.\<close>

lemma nan_points: "\<exists>ps. cube_points nan_quat = (DNaN, DNaN, DNaN) # ps"
proof -
  have "mat3_mul_vec3 (quat_to_mat3 nan_quat) v = (DNaN, DNaN, DNaN)" for v
    by (cases v) (simp add: mat3_mul_vec3_def dsub_def)
  then have "cube_vertices nan_quat = replicate 8 (DNaN, DNaN, DNaN)"
    by (simp add: cube_vertices_def VERTICES_def Let_def numeral_eq_Suc)
  then show ?thesis
    by (simp add: cube_points_def EDGES_def Let_def upt_conv_Cons dsub_def del: upt_Suc)
qed

lemma nan_frame:
  assumes "cube_inv C" and "cu_grid (sized ti te C) \<noteq> None" and "cu_zbuf (sized ti te C) \<noteq> None"
  shows "cube_render m ti te nan_quat C = Inl BadCast"
proof -
  let ?C = "sized ti te C"
  have inv: "cube_inv ?C" unfolding sized_def using assms(1) by (intro get_size_inv) (simp add: cube_init_inv)
  obtain g z where gz: "cu_grid ?C = Some g" "cu_zbuf ?C = Some z" using assms(2,3) by auto
  then have "length g = cells ?C" "length z = cells ?C" using inv by (simp_all add: cube_inv_def)
  then obtain z' where c: "clear_grid (cells ?C) g = Inr (replicate (cells ?C) CHR '' '')" "clear_zbuf (cu_rows ?C) (cu_cols ?C) z = Inr z'"
    using cleared [of g "cu_rows ?C" "cu_cols ?C" z] by (auto simp: cells_def)
  have "d2int DNaN = None" by (simp add: d2int_def)
  then have "screen_pos (cu_rows ?C) (cu_cols ?C) (DNaN, DNaN, DNaN) = None" by (simp add: dsub_def)
  then have "draw_points (cu_rows ?C) (cu_cols ?C) (cube_points nan_quat) b = Inl BadCast" for b using nan_points by auto
  then show ?thesis by (simp add: cube_render_def sized_def [symmetric] gz c Let_def)
qed

section \<open>Sessions\<close>

lemma get_size_keeps [simp]: "cu_inited (get_size te C) = cu_inited C" "cu_stdout (get_size te C) = cu_stdout C"
  by (simp_all add: get_size_def Let_def split: prod.split)

lemma get_size_blocks: "te_ok te \<Longrightarrow> blocks C \<or> cu_rows C = 0 \<Longrightarrow> blocks (get_size te C)"
  using get_size_size(3) [of te] by (auto simp: get_size_def blocks_def te_ok_def Let_def split: prod.split)

lemma render_step:
  assumes "cube_inv C" and "angles_bounded m" and "cu_inited C"
  shows "case cube_render m te te q C of
     Inl f \<Rightarrow> f = BadCast \<and> (\<exists>p \<in> set (cube_points q). screen_pos (fst (win_size te)) (snd (win_size te)) p = None)
   | Inr C' \<Rightarrow> cube_inv C' \<and> cu_inited C' \<and> (blocks C \<and> te_ok te \<longrightarrow> blocks C') \<and>
       (\<exists>t. cu_stdout C' = cu_stdout C @ t \<and> (frame_shown m (win_size te) q t \<or> t = [] \<and> \<not> (blocks C \<and> te_ok te)))"
  using cube_render_spec [OF assms(1,2), where ti = te and te = te and q = q] get_size_blocks [of te C] assms(3)
  by (auto simp: sized_def te_ok_def split: sum.splits simp del: screen_pos.simps)

text \<open>The frames of a session, each shown or left out for want of memory.\<close>

definition shown_or_skipped :: "libm \<Rightarrow> bool \<Rightarrow> term_env \<times> quat \<Rightarrow> string \<Rightarrow> bool" where
  "shown_or_skipped m mem f t \<longleftrightarrow> frame_shown m (win_size (fst f)) (snd f) t \<or> t = [] \<and> \<not> mem"

definition undefined_cast :: "term_env \<times> quat \<Rightarrow> bool" where
  "undefined_cast f \<longleftrightarrow> list_ex (\<lambda>p. screen_pos (fst (win_size (fst f))) (snd (win_size (fst f))) p = None) (cube_points (snd f))"

lemma frames_shown:
  assumes "cube_inv C" and "angles_bounded m" and "cu_inited C" and "mem \<longrightarrow> blocks C \<and> list_all (\<lambda>f. te_ok (fst f)) fs"
  shows "case cube_frames m fs C of
     Inl f \<Rightarrow> f = BadCast \<and> list_ex undefined_cast fs
   | Inr C' \<Rightarrow> cu_inited C' \<and> (\<exists>ts. cu_stdout C' = cu_stdout C @ concat ts \<and> list_all2 (shown_or_skipped m mem) fs ts)"
  using assms
proof (induction m fs C rule: cube_frames.induct)
  case (2 m te q fs C)
  note r = render_step [OF 2(2-4), where te = te and q = q]
  show ?case
  proof (cases "cube_render m te te q C")
    case (Inl f)
    with r show ?thesis by (auto simp: undefined_cast_def list_ex_iff simp del: screen_pos.simps)
  next
    case (Inr C1)
    with r 2(5) obtain t where c1: "cube_inv C1" "cu_inited C1" "cu_stdout C1 = cu_stdout C @ t" "shown_or_skipped m mem (te, q) t"
      "mem \<longrightarrow> blocks C1 \<and> list_all (\<lambda>f. te_ok (fst f)) fs" by (auto simp: shown_or_skipped_def)
    note ih = 2(1) [OF Inr c1(1) 2(3) c1(2,5)]
    show ?thesis
    proof (cases "cube_frames m fs C1")
      case (Inr C2)
      with ih obtain ts where "cu_inited C2" "cu_stdout C2 = cu_stdout C1 @ concat ts" "list_all2 (shown_or_skipped m mem) fs ts" by auto
      with c1(3,4) Inr \<open>cube_render m te te q C = Inr C1\<close> show ?thesis by (auto intro!: exI [of _ "t # ts"])
    qed (use ih \<open>cube_render m te te q C = Inr C1\<close> in simp)
  qed
qed simp

text \<open>
  C26: a session of \<^verbatim>\<open>lgmagic imu --cube\<close>. For every sequence of terminal sizes, orientations and outcomes of the allocations no
  memory outside of the grid, the depth buffer, the shades and the frame buffer is touched; the session only fails when a coordinate of
  a point does not fit an \<^verbatim>\<open>int\<close>. Otherwise the cursor is hidden, one frame is written per orientation, and the cursor is shown again;
  with memory no frame is left out. A frame is the header and one line per row of the terminal, in which every cell shows the shade of the
  nearest point of the cube's edges that falls into it, or a blank when there is none.
\<close>

theorem cube_session_draws:
  assumes "angles_bounded m"
  shows "case cube_session m te fs of
     Inl f \<Rightarrow> f = BadCast \<and> list_ex undefined_cast fs
   | Inr C \<Rightarrow> \<exists>ts. cu_stdout C = CHR 0x1B # ''[?25l'' @ concat ts @ CHR 0x1B # ''[?25h'' @ [CHR 0x0A] \<and>
       list_all2 (shown_or_skipped m (te_ok te \<and> list_all (\<lambda>f. te_ok (fst f)) fs)) fs ts"
proof -
  let ?C = "cube_init te cube_zero" and ?mem = "te_ok te \<and> list_all (\<lambda>f. te_ok (fst f)) fs"
  have i: "cu_inited ?C" "cu_stdout ?C = CHR 0x1B # ''[?25l''" by (simp_all add: cube_init_def Let_def cube_zero_def)
  have "?mem \<longrightarrow> blocks ?C \<and> list_all (\<lambda>f. te_ok (fst f)) fs"
    using get_size_blocks [of te cube_zero] by (auto simp: cube_init_def Let_def cube_zero_def blocks_def)
  note frames_shown [OF cube_init_inv [OF cube_zero_inv] assms i(1) this]
  then show ?thesis using i(2) by (cases "cube_frames m fs ?C") (auto simp: cube_session_def cube_shutdown_def)
qed

section \<open>Examples\<close>

definition sample_term :: term_env where
  "sample_term = \<lparr>te_size = Some (24, 80), te_grid_ok = True, te_zbuf_ok = True, te_out_ok = True,
     te_grid_junk = (\<lambda>_. CHR ''x''), te_zbuf_junk = (\<lambda>_. DNaN)\<rparr>"

lemma zero_bounds:
  "dbound 0 x \<Longrightarrow> dbound 0 y \<Longrightarrow> dbound 0 (dadd x y)" "dbound 0 x \<Longrightarrow> dbound 2 y \<Longrightarrow> dbound 2 (dadd x y)"
  "dbound 2 x \<Longrightarrow> dbound 0 y \<Longrightarrow> dbound 2 (dadd x y)"
  "dbound 0 x \<Longrightarrow> dbound 2 y \<Longrightarrow> dbound 0 (dmul x y)" "dbound 2 x \<Longrightarrow> dbound 0 y \<Longrightarrow> dbound 0 (dmul x y)"
  "dbound 2 x \<Longrightarrow> dbound 2 y \<Longrightarrow> dbound 2 (dmul x y)"
  using dadd_bound [of 0 x 0 y 0] dadd_bound [of 0 x 2 y 2] dadd_bound [of 2 x 0 y 2] dmul_bound [of 0 x 2 y 0] dmul_bound [of 2 x 0 y 0]
    dmul_bound [of 2 x 2 y 2] by simp_all

lemma identity_vertex:
  assumes "vbound 2 v"
  shows "vbound 2 (mat3_mul_vec3 (quat_to_mat3 (d1, d0, d0, d0)) v)"
proof -
  have k: "dbound 2 d1" "dbound 0 d0" "dbound 4 d2"
    unfolding dlit_def by (simp_all add: round_ratio_bound)
  have z: "dbound 0 (dmul d1 d0)" "dbound 0 (dmul d0 d1)" "dbound 0 (dmul d0 d0)"
    using zero_bounds(4,5) k(1,2) dmul_bound [OF k(2,2), of 0] by simp_all
  have z2: "dbound 0 (dmul d2 x)" if "dbound 0 x" for x using k(3) that by (rule dmul_bound) simp_all
  have sub: "dbound 0 (dsub x y)" if "dbound 0 x" "dbound 0 y" for x y
    using that zero_bounds(1) [of x "dneg y"] unfolding dsub_def by simp
  have sub1: "dbound 2 (dsub d1 x)" if "dbound 0 x" for x
    using that zero_bounds(3) [OF k(1), of "dneg x"] unfolding dsub_def by simp
  have rows: "dbound 2 (dsub d1 (dmul d2 (dadd (dmul d0 d0) (dmul d0 d0))))" "dbound 0 (dmul d2 (dsub (dmul d0 d0) (dmul d1 d0)))"
    "dbound 0 (dmul d2 (dadd (dmul d0 d0) (dmul d1 d0)))" "dbound 0 (dmul d2 (dadd (dmul d1 d0) (dmul d0 d0)))"
    by (intro sub sub1 z2 zero_bounds(1) z)+
  have g: "vbound 2 (mat3_mul_vec3 [[A, B, C], [C, A, B], [B, E, A]] v)"
    if "dbound 2 A" "dbound 0 B" "dbound 0 C" "dbound 0 E" for A B C E
    using that assms by (cases v) (simp add: mat3_mul_vec3_def zero_bounds)
  show ?thesis unfolding quat_to_mat3.simps by (rule g [OF rows])
qed

lemma vertex_bound: "v \<in> set VERTICES \<Longrightarrow> vbound 2 v"
  unfolding VERTICES_def Let_def dlit_def by (auto simp: round_ratio_bound)

lemma vbound_sub: "vbound 2 a \<Longrightarrow> vbound 2 b \<Longrightarrow> vbound 5 (vec3_sub a b)"
  by (cases a; cases b) (auto simp: vec3_sub_def dsub_def intro: dadd_bound [where a = 2 and c = 2])

lemma vbound_mono: "vbound 2 a \<Longrightarrow> vbound 4 a"
  by (cases a) (auto intro: dbound_mono [of 2 _ 4])

lemma identity_sized: "cube_sized (cube_vertices (d1, d0, d0, d0))"
proof -
  have v: "vbound 2 (cube_vertices (d1, d0, d0, d0) ! i)" if "i < 8" for i
  proof -
    have "length VERTICES = 8" by (simp add: VERTICES_def Let_def)
    then show ?thesis using that identity_vertex [OF vertex_bound [OF nth_mem], of i] by (simp only: cube_vertices_def nth_map)
  qed
  have e: "a < 8 \<and> b < 8" if "(a, b) \<in> set EDGES" for a b using that by (auto simp: EDGES_def)
  show ?thesis unfolding cube_sized_def
  proof (intro ballI, clarify)
    fix a b assume "(a, b) \<in> set EDGES"
    then have "vbound 2 (cube_vertices (d1, d0, d0, d0) ! a)" "vbound 2 (cube_vertices (d1, d0, d0, d0) ! b)" using e v by blast+
    then show "vbound 4 (cube_vertices (d1, d0, d0, d0) ! a) \<and>
        vbound 5 (vec3_sub (cube_vertices (d1, d0, d0, d0) ! b) (cube_vertices (d1, d0, d0, d0) ! a))"
      by (metis vbound_sub vbound_mono)
  qed
qed

theorem cube_session_draws_witness:
  "\<exists>C t u. cube_session sample_libm sample_term [(sample_term, (d1, d0, d0, d0)), (sample_term\<lparr>te_size := Some (40, 120)\<rparr>, (d1, d0, d0, d0))] = Inr C \<and>
     cu_stdout C = CHR 0x1B # ''[?25l'' @ t @ u @ CHR 0x1B # ''[?25h'' @ [CHR 0x0A] \<and>
     frame_shown sample_libm (24, 80) (d1, d0, d0, d0) t \<and> frame_shown sample_libm (40, 120) (d1, d0, d0, d0) u"
  (is "\<exists>C t u. cube_session _ _ ?fs = Inr C \<and> _")
proof -
  let ?q = "(d1, d0, d0, d0)"
  have w: "win_size sample_term = (24, 80)" "win_size (sample_term\<lparr>te_size := Some (40, 120)\<rparr>) = (40, 120)"
    by (simp_all add: win_size_def sample_term_def)
  have ok: "te_ok sample_term" "te_ok (sample_term\<lparr>te_size := Some (40, 120)\<rparr>)" by (simp_all add: te_ok_def sample_term_def)
  have "angles_bounded sample_libm" by (simp add: angles_bounded_def angle_def sample_libm_def)
  note s = cube_session_draws [OF this, where te = sample_term and fs = ?fs]
  have "\<not> list_ex undefined_cast ?fs"
    using cube_sized_defined [OF identity_sized, of 24 80] cube_sized_defined [OF identity_sized, of 40 120]
    by (auto simp: undefined_cast_def w list_ex_iff simp del: screen_pos.simps)
  with s ok show ?thesis
    by (auto simp: shown_or_skipped_def w list_all2_Cons1 split: sum.splits) blast
qed

end
