(* ===== verification/Diagnose.thy ===== *)
theory Diagnose
  imports Commands_Correct Modprobe Hidraw
begin

text \<open>
  \<^verbatim>\<open>lgmagic diagnose\<close>, the report for bug reports: \<^verbatim>\<open>tools/src/cmd_diagnose.c\<close>. The report is a string; \<open>diag_env\<close> holds what
  the system gives. The part that asks the daemon goes through the bus client and yields \<^const>\<open>None\<close> where the command follows a null
  pointer.
\<close>

record diag_env =
  dn_cmd :: cmd_env
  dn_exists :: "string \<Rightarrow> bool"
  dn_file :: "string \<Rightarrow> string option"
  dn_dir :: "string \<Rightarrow> string list option"
  dn_nodes :: input_nodes
  dn_links :: "string \<Rightarrow> string option"
  dn_version :: string
  dn_uname :: "(string \<times> string \<times> string) option"

section \<open>Lines of files\<close>

definition diag_line :: "diag_env \<Rightarrow> string \<Rightarrow> nat \<Rightarrow> string" where
  "diag_line env path outsz = (case dn_file env path of
       None \<Rightarrow> []
     | Some b \<Rightarrow>
         (case fgets outsz b of
            None \<Rightarrow> []
          | Some (l, rest) \<Rightarrow> if l \<noteq> [] \<and> last l = CHR 0x0A then butlast l else l))"

text \<open>The lines a loop over \<^verbatim>\<open>fgets\<close> sees, with buffers of 256 and 512 bytes.\<close>

function fgets_all :: "bool \<Rightarrow> string \<Rightarrow> string list" where
  "fgets_all wide input = (case fgets (if wide then 512 else 256) input of
       None \<Rightarrow> []
     | Some (line, rest) \<Rightarrow> line # fgets_all wide rest)"
  by auto
termination
  by (relation "measure (\<lambda>(wide, input). length input)") (auto dest!: fgets_shorter [rotated] split: if_splits)

declare fgets_all.simps [simp del]

definition or_mark :: "string \<Rightarrow> string \<Rightarrow> string" where
  "or_mark s mark = (if s \<noteq> [] then s else mark)"

definition section_text :: "string \<Rightarrow> string" where
  "section_text title = nl @ ''== '' @ title @ '' =='' @ nl"

section \<open>The kernel module\<close>

text \<open>The buffer of 4096 bytes the lines are collected in: each one is copied with its terminating NUL.\<close>

fun collect_lines :: "string list \<Rightarrow> string \<Rightarrow> string" where
  "collect_lines [] params = params"
| "collect_lines (l # ls) params =
     (if \<not> strstr l ''lgmagic'' then collect_lines ls params
      else let l' = takeWhile (\<lambda>c. c \<noteq> CHR 0x0A) l
           in if length params + length l' + 1 \<ge> 4096 then params else collect_lines ls (params @ l' @ [CHR 0x00]))"

definition modprobe_params :: "diag_env \<Rightarrow> string" where
  "modprobe_params env = (case dn_dir env ''/etc/modprobe.d'' of
       None \<Rightarrow> []
     | Some names \<Rightarrow>
         foldl (\<lambda>params n.
             let path = ''/etc/modprobe.d/'' @ n
             in if take 1 n = ''.'' \<or> length path \<ge> 512 then params
                else case dn_file env path of None \<Rightarrow> params | Some b \<Rightarrow> collect_lines (fgets_all False b) params)
           [] names)"

definition diag_module :: "diag_env \<Rightarrow> string" where
  "diag_module env =
     section_text ''kernel module'' @
     (if \<not> dn_exists env ''/sys/module/lgmagic'' then ''lgmagic: not loaded (try: sudo modprobe lgmagic)'' @ nl
      else let par = (\<lambda>n. or_mark (diag_line env (''/sys/module/lgmagic/parameters/'' @ n) 256) ''?'')
           in ''lgmagic: loaded (version '' @ or_mark (diag_line env ''/sys/module/lgmagic/version'' 256) ''?'' @ '')'' @ nl @
              ''raw_only: '' @ par ''raw_only'' @ nl @ ''airmouse: '' @ par ''airmouse'' @ nl @
              ''imu_evdev: '' @ par ''imu_evdev'' @ nl) @
     ''modprobe.d: '' @ or_mark (cstr (modprobe_params env)) ''(no lgmagic options)'' @ nl"

section \<open>Devices\<close>

definition hidraw_line :: "diag_env \<Rightarrow> string \<Rightarrow> string" where
  "hidraw_line env n =
     (let path = ''/sys/class/hidraw/'' @ n @ ''/device/uevent''; upath = ''/sys/class/hidraw/'' @ n @ ''/device/uniq''
      in if take 1 n = ''.'' \<or> length path \<ge> 512 then []
         else case dn_file env path of
                None \<Rightarrow> []
              | Some b \<Rightarrow>
                  if list_ex (\<lambda>l. strstr l ''HID_ID='' \<and> strstr l '':000F:3412'') (fgets_all True b)
                  then ''hidraw: /dev/'' @ n @ '' (uniq '' @
                       or_mark (if length upath < 512 then diag_line env upath 128 else []) ''-'' @ '')'' @ nl
                  else [])"

definition evdev_line :: "diag_env \<Rightarrow> string \<Rightarrow> string" where
  "evdev_line env n =
     (let path = ''/dev/input/'' @ n
      in if take 5 n \<noteq> ''event'' \<or> length path \<ge> 512 then []
         else case evdev_probe (dn_nodes env) path of
                None \<Rightarrow> []
              | Some (name, vendor, product) \<Rightarrow>
                  if name = ''LG Magic Remote'' \<or> name = ''LG Magic Remote IMU'' \<or> vendor = 0x000f \<and> product = 0x3412
                  then let uniq = (case evdev_read_uniq (dn_links env) (dn_file env) path 128 of (Some e, u) \<Rightarrow> [] | (None, u) \<Rightarrow> u)
                       in ''evdev: '' @ path @ '' ('' @ name @ '', '' @ pad0 4 (show_hex False vendor) @ '':'' @
                          pad0 4 (show_hex False product) @ '', uniq '' @ or_mark uniq ''-'' @ '')'' @ nl
                  else [])"

definition diag_devices :: "diag_env \<Rightarrow> string" where
  "diag_devices env =
     section_text ''devices'' @
     (case dn_dir env ''/sys/class/hidraw'' of
        None \<Rightarrow> ''hidraw: none'' @ nl
      | Some names \<Rightarrow>
          let ls = concat (map (hidraw_line env) names) in if ls = [] then ''hidraw: no LG device (000f:3412)'' @ nl else ls) @
     (case dn_dir env ''/dev/input'' of
        None \<Rightarrow> ''evdev: none'' @ nl
      | Some names \<Rightarrow> concat (map (evdev_line env) names))"

section \<open>Configuration, daemon and polkit\<close>

definition presence :: "diag_env \<Rightarrow> string \<Rightarrow> string \<Rightarrow> string" where
  "presence env label path =
     label @ '': '' @ (if length path < 512 then path else ''?'') @
     (if length path < 512 \<and> dn_exists env path then '' (present)'' else '' (missing)'') @ nl"

definition diag_config :: "diag_env \<Rightarrow> string" where
  "diag_config env =
     section_text ''configuration'' @
     presence env ''config'' (cmd_config_root (dn_cmd env) @ ''/config.toml'') @
     presence env ''devices.d'' (cmd_config_root (dn_cmd env) @ ''/devices.d'') @
     presence env ''state'' (cmd_state_dir (dn_cmd env) @ ''/state.toml'')"

text \<open>The status of each device. A status that is no string is a null pointer to \<^verbatim>\<open>strtok_r\<close>.\<close>

fun diag_status :: "string list \<Rightarrow> dbus_client \<Rightarrow> string option" where
  "diag_status [] c = Some []"
| "diag_status (d # ds) c = (case dbus_call ''GetStatus'' ''s'' (Some [arg_s d]) c of
       None \<Rightarrow> None
     | Some (CallOk (DString s), c') \<Rightarrow>
         map_option (\<lambda>t. ''  '' @ d @ nl @ concat (map (\<lambda>l. ''    '' @ l @ nl) (strtok_lines s)) @ t) (diag_status ds c')
     | Some (CallOk v, c') \<Rightarrow> None
     | Some (res, c') \<Rightarrow> diag_status ds c')"

text \<open>
  The list of devices: \<^verbatim>\<open>dbus_call\<close> returns 1 and a null value when the bus answers with an error; the command only tests for a
  negative result and follows the pointer.
\<close>

definition diag_list :: "dbus_client \<Rightarrow> string option" where
  "diag_list c = (case dbus_call ''ListDevices'' [] None c of
       None \<Rightarrow> None
     | Some (CallFail e, c') \<Rightarrow> Some (''lgmagicd: bus error'' @ nl)
     | Some (CallError name msg, c') \<Rightarrow> None
     | Some (CallOk v, c') \<Rightarrow>
         let items = value_items v; n = length items
         in map_option (\<lambda>t. ''lgmagicd: running ('' @ show_dec (int n) @ '' device'' @ (if n = 1 then [] else ''s'') @ '')'' @ nl @ t)
              (diag_status items c'))"

definition diag_daemon :: "diag_env \<Rightarrow> string option" where
  "diag_daemon env = map_option (\<lambda>t. section_text ''daemon'' @ t)
     (case dbus_connect (cm_conn (dn_cmd env)) None of
        None \<Rightarrow> None
      | Some (Some e, c) \<Rightarrow> Some (''lgmagicd: not running ('' @ take 255 e @ '')'' @ nl)
      | Some (None, c) \<Rightarrow> diag_list c)"

definition diag_polkit :: "diag_env \<Rightarrow> string" where
  "diag_polkit env =
     section_text ''polkit'' @
     ''polkitd: '' @ (if dn_exists env ''/usr/lib/polkit-1/polkitd'' \<or> dn_exists env ''/usr/libexec/polkitd''
       then ''installed'' else ''not installed'') @ nl @
     ''actions: '' @ (if dn_exists env ''/usr/share/polkit-1/actions/org.lgmagic.policy''
       then ''org.lgmagic.policy installed'' else ''org.lgmagic.policy missing'') @ nl @
     ''dbus: '' @ (if dn_exists env ''/usr/share/dbus-1/system.d/org.lgmagic.conf''
       then ''org.lgmagic.conf installed'' else ''org.lgmagic.conf missing'') @ nl"

definition cmd_diagnose :: "diag_env \<Rightarrow> (int \<times> string) option" where
  "cmd_diagnose env = map_option (\<lambda>daemon. (0,
     ''lgmagic '' @ dn_version env @ nl @
     (case dn_uname env of
        None \<Rightarrow> ''kernel: unknown'' @ nl
      | Some (sysname, release, machine) \<Rightarrow> ''kernel: '' @ sysname @ '' '' @ release @ '' '' @ machine @ nl) @
     diag_module env @ diag_devices env @ diag_config env @ daemon @ diag_polkit env)) (diag_daemon env)"

section \<open>What the report misses\<close>

text \<open>Of the options in \<^verbatim>\<open>/etc/modprobe.d\<close> only the first line is printed, since the lines are separated by NULs.\<close>

lemma collect_prefix: "\<exists>rest. collect_lines ls params = params @ rest"
proof (induction ls arbitrary: params)
  case (Cons l ls)
  show ?case using Cons.IH [of params] Cons.IH [of "params @ takeWhile (\<lambda>c. c \<noteq> CHR 0x0A) l @ [CHR 0x00]"] by (auto simp: Let_def)
qed simp

lemma only_first_option:
  assumes "CHR 0x00 \<in> set params" shows "cstr (collect_lines ls params) = cstr params"
  using collect_prefix [of ls params] assms by (auto simp: cstr_def takeWhile_append1)

text \<open>The \<^verbatim>\<open>HID_ID\<close> line of the kernel has eight digits per number, so a connected remote is not found.\<close>

lemma remote_not_listed:
  "hidraw_line (env\<lparr>dn_file := (\<lambda>p. Some (''HID_ID=0005:0000000F:00003412'' @ nl))\<rparr>) ''hidraw0'' = []"
proof -
  have "fgets_all True (''HID_ID=0005:0000000F:00003412'' @ nl) = [''HID_ID=0005:0000000F:00003412'' @ nl]" by code_simp
  moreover have "\<not> strstr (''HID_ID=0005:0000000F:00003412'' @ nl) '':000F:3412''" by code_simp
  ultimately show ?thesis by (simp add: hidraw_line_def Let_def del: append.simps)
qed

text \<open>The client after a session was set up, for a call to the daemon.\<close>

lemma dbus_connect_session:
  assumes "bus_session ce stream"
  obtains c where "dbus_connect ce None = Some (None, c)" and "0 \<le> cl_fd c" and "sk_wr (cl_sock c) = []"
    and "(cl_serial c + 1) mod 2 ^ 32 = 2" and "sock_stream (cl_rbuf c, sk_in (cl_sock c)) = stream"
proof -
  define env where "env = \<lparr>cm_conn = ce, cm_config_root = None, cm_state_dir = None, cm_files = (\<lambda>_. None)\<rparr>"
  obtain k' where k: "cmd_bus_connect env sample_cli = Some (True, k')" "ready k' stream" "next_serial k' = 2"
    using cmd_bus_connect_session [of env stream sample_cli] assms by (auto simp: env_def)
  then have "dbus_connect ce None = Some (None, cli_bus k')"
    by (auto simp: cmd_bus_connect_def env_def split: option.splits)
  with k(2,3) show thesis by (intro that [of "cli_bus k'"]) (simp_all add: ready_def next_serial_def)
qed

text \<open>
  C35: the report is not always a success: when the system bus runs but answers \<^verbatim>\<open>ListDevices\<close> with an error, as it does while
  \<^verbatim>\<open>lgmagicd\<close> is not running, \<^verbatim>\<open>lgmagic diagnose\<close> follows a null pointer.
\<close>

theorem diagnose_needs_daemon:
  assumes "bus_session (cm_conn (dn_cmd env)) stream" and "replies 2 (ReplyError name msg) stream rest"
  shows "cmd_diagnose env = None"
proof -
  obtain c where c: "dbus_connect (cm_conn (dn_cmd env)) None = Some (None, c)" "0 \<le> cl_fd c" "sk_wr (cl_sock c) = []"
    "(cl_serial c + 1) mod 2 ^ 32 = 2" "sock_stream (cl_rbuf c, sk_in (cl_sock c)) = stream"
    using dbus_connect_session [OF assms(1)] by blast
  have w: "length (call_wire 2 ListDevices) \<le> MAX_MESSAGE"
    by (simp add: call_wire_def enc_msg_def call_fields_def enc_field_def enc_str_def enc_sig_def enc_arg_def MAX_MESSAGE_def pad_len_def Let_def)
  obtain c' where "dbus_call ''ListDevices'' [] None c = Some (CallError name msg, c')"
    using dbus_call_daemon [OF c(2) c(4) [symmetric] c(3) w, of "ReplyError name msg" rest None] c(5) assms(2) by auto
  then have "diag_list c = None" by (simp add: diag_list_def)
  then have "diag_daemon env = None" by (simp add: diag_daemon_def c(1))
  then show ?thesis by (simp add: cmd_diagnose_def)
qed


definition unknown_stream :: string where
  "unknown_stream = msg_bytes (reply_msg 6 2 (ReplyError ''org.freedesktop.DBus.Error.ServiceUnknown'' ''not running''))"

definition busless_env :: diag_env where
  "busless_env = \<lparr>dn_cmd = sample_cmd\<lparr>cm_conn := sample_conn\<lparr>ce_sock := \<lparr>sk_in = [Chunk (accept_line ''0123abcd''),
       Chunk (msg_bytes (reply_msg 5 1 (ReplyStr '':1.7'')) @ unknown_stream)], sk_wr = [], sk_out = []\<rparr>\<rparr>\<rparr>,
     dn_exists = (\<lambda>_. False), dn_file = (\<lambda>_. None), dn_dir = (\<lambda>_. None), dn_nodes = (\<lambda>_. Inl ''No such file or directory''),
     dn_links = (\<lambda>_. None), dn_version = ''2.0'', dn_uname = None\<rparr>"

lemma unknown_replies:
  "replies 1 (ReplyStr '':1.7'') (msg_bytes (reply_msg 5 1 (ReplyStr '':1.7'')) @ unknown_stream) unknown_stream"
  "replies 2 (ReplyError ''org.freedesktop.DBus.Error.ServiceUnknown'' ''not running'') unknown_stream []"
proof -
  have "msg_ok (reply_msg 5 1 (ReplyStr '':1.7''))"
    by (simp add: msg_ok_def field_codes cstring_def enc_field_def enc_str_def enc_sig_def pad_len_def MAX_MESSAGE_def)
  then show "replies 1 (ReplyStr '':1.7'') (msg_bytes (reply_msg 5 1 (ReplyStr '':1.7'')) @ unknown_stream) unknown_stream"
    unfolding replies_def by (intro conjI exI [of _ "[]"] exI [of _ 5]) (simp_all add: cstring_def)
  have "msg_ok (reply_msg 6 2 (ReplyError ''org.freedesktop.DBus.Error.ServiceUnknown'' ''not running''))"
    by (simp add: msg_ok_def field_codes cstring_def enc_field_def enc_str_def enc_sig_def pad_len_def MAX_MESSAGE_def)
  then show "replies 2 (ReplyError ''org.freedesktop.DBus.Error.ServiceUnknown'' ''not running'') unknown_stream []"
    unfolding replies_def unknown_stream_def by (intro conjI exI [of _ "[]"] exI [of _ 6]) (simp_all add: cstring_def)
qed

theorem diagnose_needs_daemon_witness: "cmd_diagnose busless_env = None"
proof (rule diagnose_needs_daemon [OF _ unknown_replies(2)])
  have "sock_stream ([], sk_in (ce_sock (cm_conn (dn_cmd busless_env)))) =
      accept_line ''0123abcd'' @ msg_bytes (reply_msg 5 1 (ReplyStr '':1.7'')) @ unknown_stream"
    by (simp add: sock_stream_def busless_env_def accept_line_def msg_bytes_def enc_msg_nonempty)
  moreover have "guid_ok ''0123abcd''" by (simp add: guid_ok_def)
  moreover have "\<exists>fd \<ge> 0. ce_socket (cm_conn (dn_cmd busless_env)) = Inr fd" by (simp add: busless_env_def sample_conn_def)
  ultimately show "bus_session (cm_conn (dn_cmd busless_env)) unknown_stream"
    unfolding bus_session_def using unknown_replies(1) by (simp add: busless_env_def sample_conn_def) blast
qed

end
