(* ===== verification/Spec2Isabelle.thy ===== *)
theory Spec2Isabelle
  imports Json_Io Json_Memory_Correct Toml_Memory Toml_Heap Dbus_Heap Config_Correct Pairing Pipeline Kernel_Correct Daemon_Bus_Restart Dbus_Correct Csv Hidraw Lm Uinput
    Commands_Correct Setup_Correct Daemon_Main_Correct Cmd_Imu Cube_Correct Diagnose
begin

text \<open>
  Verification of the LG Magic Remote driver and its tools.

  \<^bold>\<open>The program.\<close> The kernel module (\<^verbatim>\<open>kernel/\<close>) decodes the reports of the remote into key, wheel and IMU events and
  has an air mouse of its own. The daemon \<^verbatim>\<open>lgmagicd\<close> (\<^verbatim>\<open>tools/src/daemon_*.c\<close>) finds the event nodes of each remote, creates a
  virtual keyboard and mouse for it, grabs the keyboard and passes every frame through a pipeline of button map, wheel
  accumulator and air mouse; its configuration is in TOML files and is changed over the system bus, guarded by polkit. The
  command line tool \<^verbatim>\<open>lgmagic\<close> (\<^verbatim>\<open>tools/src/cmd_*.c\<close>) talks to the daemon with a D-Bus client of its own, records and
  prints raw data and calibrates the sensors. Everything is built on small libraries for JSON, TOML, profiles and tables.

  \<^bold>\<open>Conventions.\<close> A C string is the \<^typ>\<open>string\<close> of its bytes before the NUL; memory allocation does not fail, except where the exhaustion of
  memory is the subject (\<^theory_text>\<open>Json_Io\<close>, \<^theory_text>\<open>Json_Memory\<close>, \<^theory_text>\<open>Toml_Heap\<close>, \<^theory_text>\<open>Toml_Memory\<close>, \<^theory_text>\<open>Dbus_Heap\<close>, \<^theory_text>\<open>Cube\<close>, where also every access to a
  block is checked); \<^verbatim>\<open>double\<close> is the
  datatype \<open>cdouble\<close> of IEEE binary64 values with correctly rounded operations (\<^theory_text>\<open>CDouble\<close>) and the number conversions of the
  C library are modelled in \<^theory_text>\<open>CNumeric\<close>. Kernel words are \<^typ>\<open>'a word\<close>. What the operating system gives (file contents,
  results of system calls, bytes of a socket, event nodes) is an argument of the definitions, usually a record named
  \<open>..._env\<close> or a list of results in the order of the calls. Undefined behaviour of C that a definition can reach is the value
  \<^const>\<open>None\<close> of an outer option.

  \<^bold>\<open>Theories and sources.\<close> The order is that of the imports.
  \<^item> \<^theory_text>\<open>Prelude\<close>: character classes, tables, the interfaces \<open>keyed_store\<close> and \<open>byte_source\<close>.
  \<^item> \<^theory_text>\<open>Keymap\<close> (\<^verbatim>\<open>keymap.c\<close>): code and name tables; interface \<open>two_way_table\<close>.
  \<^item> \<^theory_text>\<open>Json\<close>, \<^theory_text>\<open>Json_Correct\<close>, \<^theory_text>\<open>Json_Roundtrip\<close> (\<^verbatim>\<open>json.c\<close>): parser with fuel that is shown to be enough, writer, totality and round trip;
    \<^theory_text>\<open>Blocks\<close> is a heap of live blocks with failing allocations; \<^theory_text>\<open>Json_Memory\<close>, \<^theory_text>\<open>Json_Tree\<close>, \<^theory_text>\<open>Json_Memory_Correct\<close>: the
    parser, the construction functions and \<^verbatim>\<open>json_free\<close> on it, against the parser without memory.
    \<^theory_text>\<open>Json_Io\<close>: the writer on its growing buffer with failing allocations, which refines the writer on strings while memory
    lasts, and the reading of files.
  \<^item> \<^theory_text>\<open>Toml\<close>, \<^theory_text>\<open>Toml_Parser\<close>, \<^theory_text>\<open>Toml_Writer\<close>, \<^theory_text>\<open>Toml_Text\<close>, \<^theory_text>\<open>Toml_Correct\<close>, \<^theory_text>\<open>Toml_Roundtrip\<close> (\<^verbatim>\<open>toml.c\<close>): tree, parser, writer; accepted
    documents are well formed and written documents are read back. \<^theory_text>\<open>Toml_Memory\<close>: the buffer of its strings;
    \<^theory_text>\<open>Toml_Heap\<close>: the construction functions and \<^verbatim>\<open>toml_free\<close> on the heap, also when memory runs out.
  \<^item> \<^theory_text>\<open>Profiles\<close>, \<^theory_text>\<open>Profiles_Correct\<close> (\<^verbatim>\<open>profiles.c\<close>): button maps and device files, merging, validation, round trip.
  \<^item> \<^theory_text>\<open>Config\<close>, \<^theory_text>\<open>Config_Correct\<close> (\<^verbatim>\<open>config.c\<close>): the layers of the tool configuration, precedence, setting and saving keys.
  \<^item> \<^theory_text>\<open>Pairing\<close> (\<^verbatim>\<open>pairing.c\<close>): which IMU belongs to which keyboard.
  \<^item> \<^theory_text>\<open>Evdev\<close> (\<^verbatim>\<open>evdev.c\<close>): finding nodes and assembling frames from input events.
  \<^item> \<^theory_text>\<open>Airmouse\<close> (\<^verbatim>\<open>airmouse.c\<close>), \<^theory_text>\<open>Calib\<close> (\<^verbatim>\<open>calib.c\<close>), \<^theory_text>\<open>Pipeline\<close> (\<^verbatim>\<open>daemon_pipeline.c\<close>): from frames to virtual events; a reachability
    relation shows that no virtual key stays pressed.
  \<^item> \<^theory_text>\<open>Kernel_Driver\<close>, \<^theory_text>\<open>Kernel_Correct\<close> (\<^verbatim>\<open>kernel/lgmagic_main.c\<close>, \<^verbatim>\<open>lgmagic_airmouse.c\<close>): report decoding, firmware and probe.
  \<^item> \<^theory_text>\<open>Daemon_Config\<close>, \<^theory_text>\<open>Daemon_Config_Correct\<close> (\<^verbatim>\<open>daemon_config.c\<close>): files of the daemon; a write is a trace of file systems, which is
    what a crash can leave.
  \<^item> \<^theory_text>\<open>Daemon_Devices\<close>, \<^theory_text>\<open>Daemon_Devices_Correct\<close> (\<^verbatim>\<open>daemon_devices.c\<close>): scan, rescan and dispatch; descriptors are conserved and a
    keyboard is grabbed only after its virtual pair exists.
  \<^item> \<^theory_text>\<open>Daemon_Bus\<close>, \<^theory_text>\<open>Daemon_Bus_Correct\<close>, \<^theory_text>\<open>Daemon_Bus_Restart\<close> (\<^verbatim>\<open>daemon_bus.c\<close>): the bus methods with authorization and rollback; the
    last theory shows that they implement a durable map from remotes to configurations.
  \<^item> \<^theory_text>\<open>Dbus_Client\<close>, \<^theory_text>\<open>Dbus_Correct\<close> (\<^verbatim>\<open>dbus_client.c\<close>): marshalling against a reference encoder, reading of replies from a socket that
    delivers arbitrary pieces, authentication and connecting. \<^theory_text>\<open>Dbus_Heap\<close>: the values of replies on the heap, and their release.
  \<^item> \<^theory_text>\<open>Daemon_Main\<close>, \<^theory_text>\<open>Daemon_Main_Correct\<close> (\<^verbatim>\<open>daemon_main.c\<close>): options, start, main loop and clean-up over the two components above; a run
    is a list of turns (signals, files, clock, what poll and the descriptors give, the dispatched call). Every descriptor is closed
    exactly once, and the loop waits for exactly the open ones, never longer than two seconds.
  \<^item> \<^theory_text>\<open>Csv\<close> (\<^verbatim>\<open>csv.c\<close>), \<^theory_text>\<open>Hidraw\<close> (\<^verbatim>\<open>hidraw.c\<close>): recordings and the raw report printer.
  \<^item> \<^theory_text>\<open>CMath\<close>, \<^theory_text>\<open>Lm\<close> (\<^verbatim>\<open>lm.c\<close>): square root and the fit of the accelerometer, which never ends worse than it starts.
  \<^item> \<^theory_text>\<open>Uinput\<close> (\<^verbatim>\<open>uinput.c\<close>): virtual devices; what the pipeline writes was declared.
  \<^item> \<^theory_text>\<open>Commands\<close>, \<^theory_text>\<open>Commands_Correct\<close> (\<^verbatim>\<open>main.c\<close>, \<^verbatim>\<open>cmd_bus.c\<close>, \<^verbatim>\<open>cmd_device.c\<close>, \<^verbatim>\<open>cmd_button.c\<close>, \<^verbatim>\<open>cmd_scroll.c\<close>, \<^verbatim>\<open>cmd_profile.c\<close>): the commands that
    talk to the daemon; mapping a button is followed from the command line over the bytes on the bus to the files of the daemon.
  \<^item> \<^theory_text>\<open>Modprobe\<close> (\<^verbatim>\<open>modprobe_helpers.c\<close>), \<^theory_text>\<open>Cmd_Config\<close> (\<^verbatim>\<open>cmd_config.c\<close>, saving of \<^verbatim>\<open>config.c\<close>): settings last, migration loses nothing.
  \<^item> \<^theory_text>\<open>Blob\<close>, \<^theory_text>\<open>Cmd_Calib\<close> (\<^verbatim>\<open>cmd_calib2bin.c\<close>, \<^verbatim>\<open>cmd_calibrate.c\<close>): the bytes of the firmware blob and the calibration commands.
  \<^item> \<^theory_text>\<open>Setup\<close>, \<^theory_text>\<open>Setup_Correct\<close> (\<^verbatim>\<open>cmd_setup.c\<close>): the wizard; its blob is the one the kernel loads, its files for the daemon are not read.
  \<^item> \<^theory_text>\<open>Ahrs\<close> (\<^verbatim>\<open>matrix.c\<close>, \<^verbatim>\<open>madgwick.c\<close>), \<^theory_text>\<open>Cmd_Imu\<close> (\<^verbatim>\<open>cmd_imu.c\<close>, \<^verbatim>\<open>cmd_analyze.c\<close>): orientation filter, recording and display of frames.
  \<^item> \<^theory_text>\<open>CBounds\<close>: rounding keeps bounds. \<^theory_text>\<open>Cube\<close>, \<^theory_text>\<open>Cube_Correct\<close> (\<^verbatim>\<open>cube.c\<close>): the wireframe cube; a session stays inside of its blocks and every
    cell of a frame shows the nearest point.
  \<^item> \<^theory_text>\<open>Diagnose\<close> (\<^verbatim>\<open>cmd_diagnose.c\<close>): the report, and where it fails.

  \<^bold>\<open>Interfaces.\<close> \<open>keyed_store\<close> is implemented by button maps (\<open>bmap\<close> in \<^theory_text>\<open>Profiles_Correct\<close>) and by the state file (\<open>st\<close> in
  \<^theory_text>\<open>Daemon_Config_Correct\<close>); \<open>two_way_table\<close> by the key and button tables (\<open>keys\<close>, \<open>buttons\<close> in \<^theory_text>\<open>Keymap\<close>); \<open>byte_source\<close> by the
  socket of the D-Bus client (\<open>sock\<close> in \<^theory_text>\<open>Dbus_Correct\<close>); \<open>owned_tree\<close>, a tree with its
  blocks and the function that frees it, by the trees of the three libraries (\<open>json_tree\<close> in \<^theory_text>\<open>Json_Tree\<close>, \<open>toml_tree\<close> in \<^theory_text>\<open>Toml_Heap\<close>,
  \<open>dbus_tree\<close> in \<^theory_text>\<open>Dbus_Heap\<close>); \<open>descent\<close>, an optimizer that only accepts improvements, by the fit (\<open>lm\<close> in
  \<^theory_text>\<open>Lm\<close>); \<open>ledger\<close>, the conservation of what is held along a trace, by the descriptors of the daemon (\<open>fds\<close> in \<^theory_text>\<open>Daemon_Main_Correct\<close>).

  \<^bold>\<open>Bounds and fuel.\<close> The JSON parser takes as fuel three times the length of the text plus three and never runs out
  (\<^theory_text>\<open>Json_Correct\<close>). The functions that free a tree take its depth as fuel: 34 for JSON, where the parser nests at most 32 containers,
  the height of the tree and one more for TOML, three for D-Bus values. All other loops are functions with a termination proof; loops over system calls recurse on the list of
  their results.

  \<^bold>\<open>Not modelled.\<close> The release of memory by \<^verbatim>\<open>free\<close> outside of the JSON, TOML and D-Bus values (configurations, profiles and lists of
  remotes are values here), and the allocations of the TOML parser outside of its strings; the text of progress messages; the kernel's HID and input cores, sd-bus, polkitd and
  the system tools and the shell, which are arguments; trigonometric functions, which are the record \<open>libm\<close>; the
  prompts and the closing summary of the wizard, usage texts and logging. The clock of the daemon's loop is read once per turn for the timeout and the frames.
\<close>

end
